(* ===== verification/Prelude.thy ===== *)
theory Prelude
  imports Complex_Main "HOL-Library.AList" "HOL-Library.Char_ord" "HOL-Library.List_Lexorder"
begin

text \<open>
  Shared vocabulary of the development: Python values that several components exchange
  (JSON documents, floats, ordered dictionaries, small sets), the string operations the
  source uses, and the lemmas about them that the component theories rest on.

  \<^item> A Python \<open>dict\<close> is an association list with distinct keys, in insertion order:
    \<open>dget\<close> looks up, \<open>dset\<close> overwrites in place or appends, \<open>dpop\<close> removes.
  \<^item> A Python \<open>set\<close> is a duplicate-free list; the source never depends on the
    iteration order of a set.
  \<^item> A Python \<open>float\<close> is a rational, an infinity or NaN: rounding is not modelled.
  \<^item> Text is \<open>string\<close>, a list of characters below code point 256, where the code compares
    it, looks for ASCII characters or bounds its length; the code treats the characters above
    that alike. The theories about UTF-8 and UTF-16 offsets use lists of code points.
\<close>

section \<open>Theorem collections\<close>

named_theorems dict_simps \<open>lookups in ordered dictionaries after an update\<close>
named_theorems py_simps \<open>evaluation of the string helpers on literals\<close>

section \<open>Floats\<close>

datatype pyfloat = Fin rat | PosInf | NegInf | NaN

fun flt_le :: "pyfloat \<Rightarrow> pyfloat \<Rightarrow> bool" where
  "flt_le (Fin a) (Fin b) = (a \<le> b)"
| "flt_le NaN _ = False"
| "flt_le _ NaN = False"
| "flt_le NegInf _ = True"
| "flt_le _ PosInf = True"
| "flt_le _ _ = False"

fun flt_shift :: "rat \<Rightarrow> pyfloat \<Rightarrow> pyfloat" where
  \<comment> \<open>adding a finite float to a float\<close>
  "flt_shift d (Fin a) = Fin (d + a)"
| "flt_shift d x = x"

definition flt_truthy :: "pyfloat \<Rightarrow> bool" where
  "flt_truthy x \<longleftrightarrow> x \<noteq> Fin 0"

section \<open>JSON documents\<close>

datatype json =
    JNull
  | JBool bool
  | JInt int
  | JFloat pyfloat
  | JStr string
  | JArr "json list"
  | JObj "(string \<times> json) list"

definition jget :: "(string \<times> json) list \<Rightarrow> string \<Rightarrow> json" where
  \<comment> \<open>\<open>d.get(k)\<close>: an absent key reads as \<open>None\<close>\<close>
  "jget d k = (case map_of d k of None \<Rightarrow> JNull | Some v \<Rightarrow> v)"

lemma jget_Nil [simp]: "jget [] k = JNull"
  by (simp add: jget_def)

lemma jget_Cons [simp]: "jget ((k', v) # d) k = (if k = k' then v else jget d k)"
  by (simp add: jget_def)

fun jtruthy :: "json \<Rightarrow> bool" where
  "jtruthy JNull = False"
| "jtruthy (JBool b) = b"
| "jtruthy (JInt i) = (i \<noteq> 0)"
| "jtruthy (JFloat x) = flt_truthy x"
| "jtruthy (JStr s) = (s \<noteq> [])"
| "jtruthy (JArr xs) = (xs \<noteq> [])"
| "jtruthy (JObj kvs) = (kvs \<noteq> [])"

fun jiter :: "json \<Rightarrow> json list option" where
  \<comment> \<open>the items of \<open>for item in value\<close>; \<open>None\<close> is the TypeError of a value that is not iterable\<close>
  "jiter (JArr xs) = Some xs"
| "jiter (JObj kvs) = Some (map (\<lambda>(k, _). JStr k) kvs)"
| "jiter (JStr s) = Some (map (\<lambda>c. JStr [c]) s)"
| "jiter _ = None"

definition jiter_or_empty :: "json \<Rightarrow> json list option" where
  \<comment> \<open>\<open>for item in value or ()\<close>\<close>
  "jiter_or_empty v = (if jtruthy v then jiter v else Some [])"

fun json_eq_int :: "json \<Rightarrow> int \<Rightarrow> bool" where
  \<comment> \<open>Python's \<open>value == n\<close>: booleans and floats compare numerically\<close>
  "json_eq_int (JInt i) n = (i = n)"
| "json_eq_int (JBool b) n = ((if b then 1 else 0) = n)"
| "json_eq_int (JFloat (Fin r)) n = (r = of_int n)"
| "json_eq_int _ _ = False"

section \<open>Ordered dictionaries\<close>

declare map_of_eq_Some_iff [simp del] Some_eq_map_of_iff [simp del]

type_synonym ('k, 'v) dict = "('k \<times> 'v) list"

abbreviation dget :: "('k, 'v) dict \<Rightarrow> 'k \<Rightarrow> 'v option" where
  "dget \<equiv> map_of"

abbreviation dset :: "'k \<Rightarrow> 'v \<Rightarrow> ('k, 'v) dict \<Rightarrow> ('k, 'v) dict" where
  "dset k v d \<equiv> AList.update k v d"

abbreviation dpop :: "'k \<Rightarrow> ('k, 'v) dict \<Rightarrow> ('k, 'v) dict" where
  "dpop k d \<equiv> AList.delete k d"

abbreviation dkeys :: "('k, 'v) dict \<Rightarrow> 'k list" where
  "dkeys d \<equiv> map fst d"

abbreviation wf_dict :: "('k, 'v) dict \<Rightarrow> bool" where
  "wf_dict d \<equiv> distinct (map fst d)"

definition dmove_to_end :: "'k \<Rightarrow> ('k, 'v) dict \<Rightarrow> ('k, 'v) dict" where
  \<comment> \<open>\<open>OrderedDict.move_to_end\<close> of a present key\<close>
  "dmove_to_end k d = (case dget d k of None \<Rightarrow> d | Some v \<Rightarrow> dpop k d @ [(k, v)])"

lemma dget_dset [dict_simps, simp]: "dget (dset k v d) k' = (if k' = k then Some v else dget d k')"
  by (simp add: update_conv')

lemma dget_dpop [dict_simps, simp]: "dget (dpop k d) k' = (if k' = k then None else dget d k')"
  by (simp add: delete_conv')

lemma wf_dset [simp, intro]: "wf_dict d \<Longrightarrow> wf_dict (dset k v d)"
  by (rule distinct_update)

lemma wf_dpop [simp, intro]: "wf_dict d \<Longrightarrow> wf_dict (dpop k d)"
  by (rule distinct_delete)

lemma dset_fresh: "dget d k = None \<Longrightarrow> dset k v d = d @ [(k, v)]"
  by (induction d) (auto split: if_splits)

lemma dset_keys: "set (dkeys (dset k v d)) = insert k (set (dkeys d))"
  by (induction d) auto

lemma dset_mem: "x \<in> set (dset k v d) \<Longrightarrow> x = (k, v) \<or> x \<in> set d"
  by (induction d) (auto split: if_splits)

lemma length_dset: "length (dset k v d) = (if dget d k = None then Suc (length d) else length d)"
  by (induction d) auto

lemma length_dpop_le: "length (dpop k d) \<le> length d"
  by (rule length_delete_le)

lemma dpop_absent: "dget d k = None \<Longrightarrow> dpop k d = d"
  by (simp add: delete_idem map_of_eq_None_iff)

lemma length_dpop:
  "wf_dict d \<Longrightarrow> length (dpop k d) = (if dget d k = None then length d else length d - 1)"
proof (induction d)
  case (Cons kv d)
  obtain k0 v0 where [simp]: "kv = (k0, v0)" by (cases kv)
  have "dget d k0 = None" using Cons.prems by (simp add: map_of_eq_None_iff)
  then have "dpop k0 d = d" by (rule dpop_absent)
  moreover have "0 < length d" if "dget d k = Some v" for v using that by (cases d) auto
  ultimately show ?case using Cons by (cases "dget d k") auto
qed simp

lemma length_dmove_to_end [simp]: "wf_dict d \<Longrightarrow> length (dmove_to_end k d) = length d"
proof (cases "dget d k")
  case (Some v)
  moreover have "0 < length d" using Some by (cases d) auto
  moreover assume "wf_dict d"
  ultimately show ?thesis by (simp add: dmove_to_end_def length_dpop)
qed (simp add: dmove_to_end_def)

lemma dget_mem: "dget d k = Some v \<Longrightarrow> (k, v) \<in> set d"
  by (rule map_of_SomeD)

lemma dget_mem_key: "dget d k = Some v \<Longrightarrow> k \<in> fst ` set d"
  by (force dest: map_of_SomeD)

lemma dget_iff_mem: "wf_dict d \<Longrightarrow> dget d k = Some v \<longleftrightarrow> (k, v) \<in> set d"
  by (rule map_of_eq_Some_iff)

lemma dget_filter:
  "wf_dict d \<Longrightarrow> dget (filter (\<lambda>(k, v). P k v) d) k =
     (case dget d k of None \<Rightarrow> None | Some v \<Rightarrow> if P k v then Some v else None)"
proof (induction d)
  case (Cons kv d)
  obtain k0 v0 where [simp]: "kv = (k0, v0)" by (cases kv)
  have "k0 \<notin> fst ` set (filter (\<lambda>(k, v). P k v) d)"
    using Cons.prems by auto
  then have "dget (filter (\<lambda>(k, v). P k v) d) k0 = None"
    by (simp add: map_of_eq_None_iff)
  then show ?case using Cons by (auto split: option.splits simp: map_of_eq_None_iff)
qed simp

lemma wf_filter [simp, intro]: "wf_dict d \<Longrightarrow> wf_dict (filter P d)"
  by (induction d) auto

lemma wf_dmove_to_end [simp, intro]: "wf_dict d \<Longrightarrow> wf_dict (dmove_to_end k d)"
  by (auto simp: dmove_to_end_def AList.delete_eq split: option.splits)

lemma dget_dmove_to_end [simp]: "dget (dmove_to_end k d) k' = dget d k'"
  by (auto simp: dmove_to_end_def map_add_def split: option.splits)

section \<open>Small sets\<close>

abbreviation sadd :: "'a \<Rightarrow> 'a list \<Rightarrow> 'a list" where
  "sadd x s \<equiv> List.insert x s"

abbreviation sdiscard :: "'a \<Rightarrow> 'a list \<Rightarrow> 'a list" where
  "sdiscard x s \<equiv> removeAll x s"

definition sunion :: "'a list \<Rightarrow> 'a list \<Rightarrow> 'a list" where
  "sunion s t = fold List.insert t s"

lemma set_sunion [simp]: "set (sunion s t) = set s \<union> set t"
  unfolding sunion_def by (induction t arbitrary: s) auto

lemma distinct_sunion [simp]: "distinct s \<Longrightarrow> distinct (sunion s t)"
  unfolding sunion_def by (induction t arbitrary: s) auto

section \<open>Strings\<close>

fun starts_with :: "'a list \<Rightarrow> 'a list \<Rightarrow> bool" where
  "starts_with s [] = True"
| "starts_with [] (p # ps) = False"
| "starts_with (c # cs) (p # ps) = (c = p \<and> starts_with cs ps)"

fun contains :: "'a list \<Rightarrow> 'a list \<Rightarrow> bool" where
  "contains [] p = (p = [])"
| "contains (c # cs) p = (starts_with (c # cs) p \<or> contains cs p)"

fun before :: "'a list \<Rightarrow> 'a list \<Rightarrow> 'a list" where
  \<comment> \<open>\<open>s.split(sep, 1)[0]\<close>\<close>
  "before sep [] = []"
| "before sep (c # cs) = (if starts_with (c # cs) sep then [] else c # before sep cs)"

fun after :: "'a list \<Rightarrow> 'a list \<Rightarrow> 'a list" where
  \<comment> \<open>the part behind the first separator, empty when there is none\<close>
  "after sep [] = []"
| "after sep (c # cs) = (if starts_with (c # cs) sep then drop (length sep) (c # cs) else after sep cs)"

definition is_space :: "char \<Rightarrow> bool" where
  \<comment> \<open>the whitespace of \<open>str.strip\<close> below code point 256\<close>
  "is_space c \<longleftrightarrow> c \<in> {CHR '' '', CHR 0x09, CHR 0x0A, CHR 0x0B, CHR 0x0C, CHR 0x0D,
                        CHR 0x1C, CHR 0x1D, CHR 0x1E, CHR 0x1F, CHR 0x85, CHR 0xA0}"

definition strip :: "string \<Rightarrow> string" where
  "strip s = rev (dropWhile is_space (rev (dropWhile is_space s)))"

lemma starts_with_append [simp]: "starts_with (p @ s) p"
  by (induction p) auto

lemma starts_with_iff: "starts_with s p \<longleftrightarrow> (\<exists>r. s = p @ r)"
  by (induction s p rule: starts_with.induct) auto

lemma contains_iff: "contains s p \<longleftrightarrow> (\<exists>a b. s = a @ p @ b)"
proof (induction s)
  case (Cons c s)
  show ?case
  proof
    assume "contains (c # s) p"
    then consider "starts_with (c # s) p" | "contains s p" by auto
    then show "\<exists>a b. c # s = a @ p @ b"
    proof cases
      case 1 then show ?thesis by (metis append_Nil starts_with_iff)
    next
      case 2 then show ?thesis using Cons by (metis append_Cons)
    qed
  next
    assume "\<exists>a b. c # s = a @ p @ b"
    then obtain a b where ab: "c # s = a @ p @ b" by blast
    show "contains (c # s) p"
    proof (cases a)
      case Nil
      then have "starts_with (c # s) p" using ab by (auto simp: starts_with_iff)
      then show ?thesis by simp
    next
      case (Cons x a')
      then show ?thesis using ab \<open>contains s p = (\<exists>a b. s = a @ p @ b)\<close> by auto
    qed
  qed
qed auto

lemma before_no_sep: "\<not> contains s sep \<Longrightarrow> before sep s = s"
  by (induction s) auto

section \<open>Decimal text\<close>

fun dec_digits :: "nat \<Rightarrow> nat list" where
  "dec_digits n = (if n < 10 then [n] else dec_digits (n div 10) @ [n mod 10])"

declare dec_digits.simps [simp del]

definition dec_str :: "nat \<Rightarrow> string" where
  \<comment> \<open>\<open>str(n)\<close> of a non-negative integer\<close>
  "dec_str n = map (\<lambda>d. char_of (48 + d)) (dec_digits n)"

definition digit_value :: "char \<Rightarrow> nat option" where
  "digit_value c =
     (let n = of_char c in if 48 \<le> n \<and> n < 58 then Some (n - 48) else None)"

fun parse_digits :: "nat \<Rightarrow> string \<Rightarrow> nat option" where
  \<comment> \<open>digits, with single underscores allowed between two digits\<close>
  "parse_digits acc [] = Some acc"
| "parse_digits acc (c # cs) =
     (case digit_value c of
        Some v \<Rightarrow> parse_digits (acc * 10 + v) cs
      | None \<Rightarrow>
          (if c = CHR ''_'' then
             (case cs of
                c' # cs' \<Rightarrow> (case digit_value c' of
                               Some v \<Rightarrow> parse_digits (acc * 10 + v) cs'
                             | None \<Rightarrow> None)
              | [] \<Rightarrow> None)
           else None))"

definition parse_unsigned :: "string \<Rightarrow> nat option" where
  "parse_unsigned s =
     (case s of [] \<Rightarrow> None
      | c # cs \<Rightarrow> (case digit_value c of None \<Rightarrow> None | Some v \<Rightarrow> parse_digits v cs))"

definition py_int :: "string \<Rightarrow> int option" where
  \<comment> \<open>\<open>int(s)\<close> on ASCII text\<close>
  "py_int s =
     (case strip s of
        [] \<Rightarrow> None
      | c # cs \<Rightarrow>
          if c = CHR ''-'' then map_option (\<lambda>n. - int n) (parse_unsigned cs)
          else if c = CHR ''+'' then map_option int (parse_unsigned cs)
          else map_option int (parse_unsigned (c # cs)))"

definition int_str :: "int \<Rightarrow> string" where
  \<comment> \<open>\<open>str(i)\<close>\<close>
  "int_str i = (if i < 0 then CHR ''-'' # dec_str (nat (- i)) else dec_str (nat i))"

end
