(* ===== verification/Utf8.thy ===== *)
theory Utf8
  imports Prelude "HOL-Library.Word"
begin

text \<open>
  The strict UTF-8 codec of \<open>str.encode("utf-8")\<close> and \<open>bytes.decode("utf-8")\<close>, which the
  wire protocol uses for every string field. A Python string is a list of code points; a
  surrogate or an out-of-range value cannot be encoded (UnicodeEncodeError), and overlong,
  truncated or surrogate sequences cannot be decoded (UnicodeDecodeError). The round trip is
  proved for every encodable string.
\<close>

type_synonym byte = "8 word"
type_synonym codepoint = nat
type_synonym ustr = "codepoint list"

definition scalar :: "codepoint \<Rightarrow> bool" where
  "scalar c \<longleftrightarrow> c < 0xD800 \<or> (0xE000 \<le> c \<and> c < 0x110000)"

definition utf8_cp :: "codepoint \<Rightarrow> nat list" where
  "utf8_cp c =
     (if c < 0x80 then [c]
      else if c < 0x800 then [0xC0 + c div 64, 0x80 + c mod 64]
      else if c < 0x10000 then
        [0xE0 + c div 4096, 0x80 + c div 64 mod 64, 0x80 + c mod 64]
      else
        [0xF0 + c div 262144, 0x80 + c div 4096 mod 64, 0x80 + c div 64 mod 64, 0x80 + c mod 64])"

definition utf8_encode :: "ustr \<Rightarrow> byte list option" where
  "utf8_encode s =
     (if list_all scalar s then Some (map of_nat (concat (map utf8_cp s))) else None)"

definition is_cont :: "nat \<Rightarrow> bool" where
  "is_cont b \<longleftrightarrow> 0x80 \<le> b \<and> b < 0xC0"

fun utf8_decode_nats :: "nat list \<Rightarrow> ustr option" where
  "utf8_decode_nats [] = Some []"
| "utf8_decode_nats (b0 # bs) =
     (if b0 < 0x80 then map_option (Cons b0) (utf8_decode_nats bs)
      else if 0xC2 \<le> b0 \<and> b0 < 0xE0 then
        (case bs of
           b1 # rest \<Rightarrow>
             if is_cont b1
             then map_option (Cons ((b0 - 0xC0) * 64 + (b1 - 0x80))) (utf8_decode_nats rest)
             else None
         | _ \<Rightarrow> None)
      else if 0xE0 \<le> b0 \<and> b0 < 0xF0 then
        (case bs of
           b1 # b2 # rest \<Rightarrow>
             (let c = (b0 - 0xE0) * 4096 + (b1 - 0x80) * 64 + (b2 - 0x80)
              in if is_cont b1 \<and> is_cont b2 \<and> 0x800 \<le> c \<and> scalar c
                 then map_option (Cons c) (utf8_decode_nats rest) else None)
         | _ \<Rightarrow> None)
      else if 0xF0 \<le> b0 \<and> b0 < 0xF5 then
        (case bs of
           b1 # b2 # b3 # rest \<Rightarrow>
             (let c = (b0 - 0xF0) * 262144 + (b1 - 0x80) * 4096 + (b2 - 0x80) * 64 + (b3 - 0x80)
              in if is_cont b1 \<and> is_cont b2 \<and> is_cont b3 \<and> 0x10000 \<le> c \<and> scalar c
                 then map_option (Cons c) (utf8_decode_nats rest) else None)
         | _ \<Rightarrow> None)
      else None)"

definition utf8_decode :: "byte list \<Rightarrow> ustr option" where
  "utf8_decode bs = utf8_decode_nats (map unat bs)"

section \<open>Round trip\<close>

lemma utf8_cp_lt256: "scalar c \<Longrightarrow> b \<in> set (utf8_cp c) \<Longrightarrow> b < 256"
  by (auto simp: utf8_cp_def scalar_def split: if_splits)

lemma utf8_cp_nonempty [simp]: "utf8_cp c \<noteq> []"
  by (simp add: utf8_cp_def)

lemma regroup3: "(c div 4096) * 4096 + (c div 64 mod 64) * 64 + c mod 64 = (c::nat)"
proof -
  have "c div 4096 = c div 64 div 64" by (simp add: div_mult2_eq [symmetric])
  then show ?thesis using mult_div_mod_eq [of 64 c] mult_div_mod_eq [of 64 "c div 64"]
    by linarith
qed

lemma regroup4:
  "(c div 262144) * 262144 + (c div 4096 mod 64) * 4096 + (c div 64 mod 64) * 64 + c mod 64 = (c::nat)"
proof -
  have "c div 262144 = c div 4096 div 64" by (simp add: div_mult2_eq [symmetric])
  then show ?thesis using mult_div_mod_eq [of 64 "c div 4096"] regroup3 [of c]
    by linarith
qed

lemma decode_two:
  "0x80 \<le> c \<Longrightarrow> c < 0x800 \<Longrightarrow>
     utf8_decode_nats (utf8_cp c @ rest) = map_option (Cons c) (utf8_decode_nats rest)"
  by (simp add: utf8_cp_def is_cont_def) linarith

lemma decode_three:
  assumes "0x800 \<le> c" "c < 0x10000" "scalar c"
  shows "utf8_decode_nats (utf8_cp c @ rest) = map_option (Cons c) (utf8_decode_nats rest)"
proof -
  have "c div 4096 < 16" using assms by simp
  then show ?thesis using assms regroup3 [of c]
    by (simp add: utf8_cp_def is_cont_def Let_def)
qed

lemma decode_four:
  assumes "0x10000 \<le> c" "scalar c"
  shows "utf8_decode_nats (utf8_cp c @ rest) = map_option (Cons c) (utf8_decode_nats rest)"
proof -
  have "c div 262144 < 5" using assms by (simp add: scalar_def)
  then show ?thesis using assms regroup4 [of c]
    by (simp add: utf8_cp_def is_cont_def Let_def)
qed

lemma decode_cp:
  assumes "scalar c"
  shows "utf8_decode_nats (utf8_cp c @ rest) = map_option (Cons c) (utf8_decode_nats rest)"
proof -
  consider "c < 0x80" | "0x80 \<le> c" "c < 0x800" | "0x800 \<le> c" "c < 0x10000" | "0x10000 \<le> c"
    by linarith
  then show ?thesis
  proof cases
    case 1 then show ?thesis by (simp add: utf8_cp_def)
  qed (use assms decode_two decode_three decode_four in blast)+
qed

lemma decode_nats_encode:
  "list_all scalar s \<Longrightarrow> utf8_decode_nats (concat (map utf8_cp s)) = Some s"
  by (induction s) (auto simp: decode_cp)

lemma map_unat_of_nat:
  "(\<forall>b \<in> set bs. b < 256) \<Longrightarrow> map unat (map (of_nat :: nat \<Rightarrow> byte) bs) = bs"
  by (induction bs) (auto simp: unat_of_nat)

lemma utf8_roundtrip:
  assumes "utf8_encode s = Some bs"
  shows "utf8_decode bs = Some s"
proof -
  from assms have s: "list_all scalar s"
    and bs: "bs = map of_nat (concat (map utf8_cp s))"
    by (auto simp: utf8_encode_def split: if_splits)
  have "\<forall>b \<in> set (concat (map utf8_cp s)). b < 256"
    using s utf8_cp_lt256 by (fastforce simp: list_all_iff)
  then have "map unat bs = concat (map utf8_cp s)"
    unfolding bs by (rule map_unat_of_nat)
  with s show ?thesis by (simp add: utf8_decode_def decode_nats_encode)
qed

lemma utf8_encode_empty [simp]: "utf8_encode [] = Some []"
  by (simp add: utf8_encode_def)

lemma utf8_encode_Nil_iff: "utf8_encode s = Some [] \<longleftrightarrow> s = []"
  by (cases s) (auto simp: utf8_encode_def)

end
