(* ===== verification/Protocol.thy ===== *)
theory Protocol
  imports Utf8
begin

unbundle bit_operations_syntax

text \<open>
  Models \<open>protocol.py\<close>: the byte encoder and decoder, the variable-length integers, the
  packet encoders, \<open>decode_packet\<close>, and \<open>try_unpack_one\<close>, which cuts complete frames out of
  the accumulated bytes. A byte is an \<open>8 word\<close>; the decoder keeps the whole buffer and an
  offset as the class does, and every read that Python lets fail is an \<open>Inl\<close>.
  Key generation, X25519, AES and base64 are the cryptography package's and are not modelled
  here.
\<close>

datatype proto_error = IndexError | StructError | UnicodeError | ValueError

section \<open>Packet types\<close>

datatype packet_type =
  CONNECT | CONNACK | SEND | SENDACK | RECV | RECVACK | PING | PONG | DISCONNECT

fun packet_code :: "packet_type \<Rightarrow> nat" where
  "packet_code CONNECT = 1" | "packet_code CONNACK = 2" | "packet_code SEND = 3"
| "packet_code SENDACK = 4" | "packet_code RECV = 5" | "packet_code RECVACK = 6"
| "packet_code PING = 7" | "packet_code PONG = 8" | "packet_code DISCONNECT = 9"

section \<open>Encoder\<close>

type_synonym encoder = "byte list"

definition write_byte :: "int \<Rightarrow> encoder \<Rightarrow> encoder" where
  "write_byte b buf = buf @ [word_of_int b]"

definition write_bytes :: "byte list \<Rightarrow> encoder \<Rightarrow> encoder" where
  "write_bytes bs buf = buf @ bs"

primrec be_bytes :: "nat \<Rightarrow> int \<Rightarrow> byte list" where
  \<comment> \<open>\<open>struct.pack\<close> of the low \<open>n\<close> bytes, most significant first\<close>
  "be_bytes 0 v = []"
| "be_bytes (Suc n) v = be_bytes n (v div 256) @ [word_of_int v]"

definition write_int16 :: "int \<Rightarrow> encoder \<Rightarrow> encoder" where
  "write_int16 v buf = buf @ be_bytes 2 v"

definition write_int32 :: "int \<Rightarrow> encoder \<Rightarrow> encoder" where
  "write_int32 v buf = buf @ be_bytes 4 v"

definition write_int64 :: "int \<Rightarrow> encoder \<Rightarrow> encoder" where
  "write_int64 v buf = buf @ be_bytes 8 v"

definition write_string :: "ustr \<Rightarrow> encoder \<Rightarrow> proto_error + encoder" where
  "write_string s buf =
     (if s = [] then Inr (write_int16 0 buf)
      else (case utf8_encode s of
              None \<Rightarrow> Inl UnicodeError
            | Some e \<Rightarrow> Inr (write_int16 (int (length e)) buf @ e)))"

section \<open>Decoder\<close>

record decoder =
  d_data :: "byte list"
  d_offset :: nat

type_synonym 'a reader = "decoder \<Rightarrow> proto_error + 'a \<times> decoder"

definition rret :: "'a \<Rightarrow> 'a reader" where
  "rret a d = Inr (a, d)"

definition rbind :: "'a reader \<Rightarrow> ('a \<Rightarrow> 'b reader) \<Rightarrow> 'b reader" where
  "rbind p f d = (case p d of Inl e \<Rightarrow> Inl e | Inr (a, d') \<Rightarrow> f a d')"

definition dec_remaining :: "decoder \<Rightarrow> int" where
  "dec_remaining d = int (length (d_data d)) - int (d_offset d)"

definition read_byte :: "nat reader" where
  "read_byte d =
     (if d_offset d < length (d_data d)
      then Inr (unat (d_data d ! d_offset d), d\<lparr>d_offset := d_offset d + 1\<rparr>)
      else Inl IndexError)"

definition be_value :: "byte list \<Rightarrow> nat" where
  "be_value bs = foldl (\<lambda>a b. a * 256 + unat b) 0 bs"

definition read_be :: "nat \<Rightarrow> nat reader" where
  \<comment> \<open>\<open>struct.unpack_from\<close> of an \<open>n\<close>-byte unsigned integer\<close>
  "read_be n d =
     (if d_offset d + n \<le> length (d_data d)
      then Inr (be_value (take n (drop (d_offset d) (d_data d))),
                d\<lparr>d_offset := d_offset d + n\<rparr>)
      else Inl StructError)"

definition read_int16 :: "nat reader" where "read_int16 = read_be 2"
definition read_int32 :: "nat reader" where "read_int32 = read_be 4"
definition read_int64 :: "nat reader" where "read_int64 = read_be 8"

definition read_string :: "ustr reader" where
  \<comment> \<open>slicing past the end is silent: the offset still moves by the announced length\<close>
  "read_string = rbind read_int16 (\<lambda>len d.
     if len = 0 then Inr ([], d)
     else (case utf8_decode (take len (drop (d_offset d) (d_data d))) of
             None \<Rightarrow> Inl UnicodeError
           | Some s \<Rightarrow> Inr (s, d\<lparr>d_offset := d_offset d + len\<rparr>)))"

definition read_remaining :: "byte list reader" where
  "read_remaining d = Inr (drop (d_offset d) (d_data d), d\<lparr>d_offset := length (d_data d)\<rparr>)"

function read_varlen_loop :: "nat \<Rightarrow> nat \<Rightarrow> nat reader" where
  "read_varlen_loop multiplier value d =
     (if multiplier < 27 then
        (case read_byte d of
           Inl e \<Rightarrow> Inl e
         | Inr (b, d') \<Rightarrow>
             (let value' = value OR push_bit multiplier (b AND 127)
              in if b AND 128 = 0 then Inr (value', d')
                 else read_varlen_loop (multiplier + 7) value' d'))
      else Inr (value, d))"
  by pat_completeness auto
termination
  by (relation "measure (\<lambda>(m, v, d). 27 - m)") auto

declare read_varlen_loop.simps [simp del]

definition read_variable_length :: "nat reader" where
  "read_variable_length = read_varlen_loop 0 0"

section \<open>Variable-length encoding\<close>

function varlen_loop :: "int \<Rightarrow> byte list" where
  "varlen_loop n =
     (if n > 0 then
        (let digit = n mod 0x80; rest = n div 0x80
         in word_of_int (if rest > 0 then digit OR 0x80 else digit) # varlen_loop rest)
      else [])"
  by pat_completeness auto
termination
  by (relation "measure nat") auto

declare varlen_loop.simps [simp del]

definition encode_variable_length :: "int \<Rightarrow> byte list" where
  "encode_variable_length n = (if n = 0 then [0] else varlen_loop n)"

section \<open>Packet encoding\<close>

definition frame_of :: "packet_type \<Rightarrow> byte list \<Rightarrow> byte list" where
  \<comment> \<open>header byte, variable length, body: the tail of both packet encoders\<close>
  "frame_of t body =
     write_bytes body
       (write_bytes (encode_variable_length (int (length body)))
         (write_byte (int (packet_code t * 16)) []))"

definition ebind :: "'e + 'a \<Rightarrow> ('a \<Rightarrow> 'e + 'b) \<Rightarrow> 'e + 'b" where
  "ebind r f = (case r of Inl e \<Rightarrow> Inl e | Inr a \<Rightarrow> f a)"

definition encode_connect_packet ::
  "int \<Rightarrow> int \<Rightarrow> ustr \<Rightarrow> ustr \<Rightarrow> ustr \<Rightarrow> int \<Rightarrow> ustr \<Rightarrow> proto_error + byte list" where
  "encode_connect_packet version device_flag device_id uid token client_timestamp client_key =
     ebind (write_string device_id (write_byte device_flag (write_byte version [])))
      (\<lambda>b. ebind (write_string uid b)
      (\<lambda>b. ebind (write_string token b)
      (\<lambda>b. ebind (write_string client_key (write_int64 client_timestamp b))
      (\<lambda>body. Inr (frame_of CONNECT body)))))"

definition encode_ping_packet :: "byte list" where
  "encode_ping_packet = [of_nat (packet_code PING * 16)]"

definition encode_pong_packet :: "byte list" where
  "encode_pong_packet = [of_nat (packet_code PONG * 16)]"

definition encode_recvack_packet :: "string \<Rightarrow> int \<Rightarrow> proto_error + byte list" where
  "encode_recvack_packet message_id message_seq =
     (case py_int message_id of
        None \<Rightarrow> Inl ValueError
      | Some i \<Rightarrow> Inr (frame_of RECVACK (write_int32 message_seq (write_int64 i []))))"

section \<open>Packet decoding\<close>

record setting_flags =
  receipt_enabled :: bool
  topic :: bool
  stream_on :: bool

definition parse_setting_byte :: "nat \<Rightarrow> setting_flags" where
  "parse_setting_byte v =
     \<lparr>receipt_enabled = drop_bit 7 v AND 1 > 0,
      topic = drop_bit 3 v AND 1 > 0,
      stream_on = drop_bit 1 v AND 1 > 0\<rparr>"

record connack_result =
  reason_code :: nat
  server_key :: ustr
  salt :: ustr
  server_version :: nat
  time_diff :: nat
  node_id :: nat

record recv_result =
  setting :: setting_flags
  msg_key :: ustr
  from_uid :: ustr
  channel_id :: ustr
  channel_type_code :: nat
  client_msg_no :: ustr
  message_id :: string
  message_seq :: nat
  timestamp :: nat
  encrypted_payload :: "byte list"

datatype packet =
    PPong | PPing
  | PConnack connack_result
  | PRecv recv_result
  | PDisconnect nat ustr
  | PSendack
  | POther nat

definition decode_connack :: "bool \<Rightarrow> connack_result reader" where
  "decode_connack has_server_version =
     rbind (if has_server_version then read_byte else rret 0) (\<lambda>sv.
     rbind read_int64 (\<lambda>td.
     rbind read_byte (\<lambda>rc.
     rbind read_string (\<lambda>key.
     rbind read_string (\<lambda>slt.
     rbind (if sv \<ge> 4 then read_int64 else rret 0) (\<lambda>node.
     rret \<lparr>reason_code = rc, server_key = key, salt = slt, server_version = sv,
           time_diff = td, node_id = node\<rparr>))))))"

definition decode_recv :: "recv_result reader" where
  "decode_recv =
     rbind read_byte (\<lambda>sb.
     let st = parse_setting_byte sb in
     rbind read_string (\<lambda>mkey.
     rbind read_string (\<lambda>fuid.
     rbind read_string (\<lambda>cid.
     rbind read_byte (\<lambda>ctype.
     rbind read_int32 (\<lambda>expire.
     rbind read_string (\<lambda>cmn.
     rbind read_int64 (\<lambda>mid.
     rbind read_int32 (\<lambda>mseq.
     rbind read_int32 (\<lambda>ts.
     rbind (if topic st then rbind read_string (\<lambda>_. rret ()) else rret ()) (\<lambda>_.
     rbind read_remaining (\<lambda>payload.
     rret \<lparr>setting = st, msg_key = mkey, from_uid = fuid, channel_id = cid,
           channel_type_code = ctype, client_msg_no = cmn, message_id = dec_str mid,
           message_seq = mseq, timestamp = ts, encrypted_payload = payload\<rparr>))))))))))))"

definition decode_disconnect :: "(nat \<times> ustr) reader" where
  "decode_disconnect = rbind read_byte (\<lambda>rc. rbind read_string (\<lambda>reason. rret (rc, reason)))"

definition decode_packet :: "byte list \<Rightarrow> proto_error + packet" where
  "decode_packet data =
     (case data of
        [] \<Rightarrow> Inl ValueError
      | first_byte # _ \<Rightarrow>
          (let pt = drop_bit 4 (unat first_byte) in
           if pt = packet_code PONG then Inr PPong
           else if pt = packet_code PING then Inr PPing
           else
             (let has_server_version = unat first_byte AND 1 > 0;
                  run = (\<lambda>p. map_sum id fst
                          (rbind read_byte (\<lambda>_. rbind read_variable_length (\<lambda>_. p))
                            \<lparr>d_data = data, d_offset = 0\<rparr>))
              in if pt = packet_code CONNACK then
                   run (rbind (decode_connack has_server_version) (\<lambda>c. rret (PConnack c)))
                 else if pt = packet_code RECV then
                   run (rbind decode_recv (\<lambda>r. rret (PRecv r)))
                 else if pt = packet_code DISCONNECT then
                   run (rbind decode_disconnect (\<lambda>(c, r). rret (PDisconnect c r)))
                 else if pt = packet_code SENDACK then run (rret PSendack)
                 else run (rret (POther pt)))))"

section \<open>Frame unpacking\<close>

function scan_length :: "byte list \<Rightarrow> nat \<Rightarrow> nat \<Rightarrow> nat \<Rightarrow> (nat \<times> nat) option" where
  \<comment> \<open>the \<open>while True\<close> loop: position and length when the varint is complete\<close>
  "scan_length buf pos rem_length multiplier =
     (if pos + 1 > length buf then None
      else
        (let digit = unat (buf ! pos); rem' = rem_length + (digit AND 127) * multiplier
         in if digit AND 0x80 = 0 then Some (pos + 1, rem')
            else scan_length buf (pos + 1) rem' (multiplier * 128)))"
  by pat_completeness auto
termination
  by (relation "measure (\<lambda>(buf, pos, r, m). length buf - pos)") auto

declare scan_length.simps [simp del]

definition try_unpack_one :: "byte list \<Rightarrow> byte list option \<times> byte list" where
  "try_unpack_one buf =
     (case buf of
        [] \<Rightarrow> (None, buf)
      | header # rest \<Rightarrow>
          (let pt = drop_bit 4 (unat header) in
           if pt = packet_code PONG \<or> pt = packet_code PING then (Some [header], rest)
           else
             (case scan_length buf 1 0 1 of
                None \<Rightarrow> (None, buf)
              | Some (pos, rem_length) \<Rightarrow>
                  (let total = 1 + (pos - 1) + rem_length
                   in if total > length buf then (None, buf)
                      else (Some (take total buf), drop total buf)))))"



section \<open>Big-endian integers\<close>

lemma length_be_bytes [simp]: "length (be_bytes n v) = n"
  by (induction n arbitrary: v) auto

lemma be_value_append: "be_value (xs @ [b]) = be_value xs * 256 + unat b"
  by (simp add: be_value_def)

lemma unat_word_of_int_byte: "unat (word_of_int v :: byte) = nat (v mod 256)"
  by (simp add: unat_eq_nat_uint uint_word_of_int)

lemma be_value_be_bytes: "be_value (be_bytes n v) = nat (v mod 256 ^ n)"
proof (induction n arbitrary: v)
  case 0
  then show ?case by (simp add: be_value_def)
next
  case (Suc n)
  have "v mod (256 * 256 ^ n) = 256 * (v div 256 mod 256 ^ n) + v mod 256"
    by (rule zmod_zmult2_eq) simp
  moreover have "0 \<le> v div 256 mod 256 ^ n" "0 \<le> v mod 256" by simp_all
  ultimately have "nat (v mod 256 ^ Suc n) = nat (v div 256 mod 256 ^ n) * 256 + nat (v mod 256)"
    by (simp add: nat_add_distrib nat_mult_distrib)
  with Suc show ?case by (simp add: be_value_append unat_word_of_int_byte)
qed

lemma unat_byte_lt [simp]: "unat (b :: byte) < 256"
  using unsigned_less [of b] by simp

lemma be_value_bound: "be_value bs < 256 ^ length bs"
proof (induction bs rule: rev_induct)
  case Nil then show ?case by (simp add: be_value_def)
next
  case (snoc b bs)
  have "be_value bs * 256 + 255 < 256 * 256 ^ length bs" using snoc by simp
  with unat_byte_lt [of b] show ?case
    unfolding be_value_append length_append_singleton power_Suc by linarith
qed

lemma be_bytes_be_value: "length bs = n \<Longrightarrow> be_bytes n (int (be_value bs)) = bs"
proof (induction n arbitrary: bs)
  case 0 then show ?case by simp
next
  case (Suc n)
  obtain xs b where bs: "bs = xs @ [b]" using Suc.prems by (cases bs rule: rev_cases) auto
  have "be_value bs div 256 = be_value xs"
    using unat_byte_lt [of b] by (simp add: bs be_value_append)
  then have "int (be_value bs) div 256 = int (be_value xs)"
    by (metis of_nat_numeral zdiv_int)
  moreover have "word_of_int (int (be_value bs)) = b"
  proof -
    have "(256 :: byte) = 0" by simp
    then show ?thesis by (simp add: bs be_value_append del: word_eq_numeral_iff_iszero)
  qed
  ultimately show ?case using Suc.IH [of xs] Suc.prems bs by simp
qed

section \<open>Reads after writes\<close>

text \<open>\<open>reads p d a bs\<close>: at \<open>d\<close> the next bytes are \<open>bs\<close>, and \<open>p\<close> consumes exactly them and returns \<open>a\<close>.\<close>

definition ahead :: "decoder \<Rightarrow> byte list" where
  "ahead d = drop (d_offset d) (d_data d)"

definition decodes :: "'a reader \<Rightarrow> byte list \<Rightarrow> 'a \<Rightarrow> bool" where
  "decodes p bs a \<longleftrightarrow>
     (\<forall>d rest. ahead d = bs @ rest \<and> d_offset d \<le> length (d_data d) \<longrightarrow>
        p d = Inr (a, d\<lparr>d_offset := d_offset d + length bs\<rparr>))"

lemma decodesI:
  "(\<And>d rest. ahead d = bs @ rest \<Longrightarrow> d_offset d + length bs \<le> length (d_data d) \<Longrightarrow>
      p d = Inr (a, d\<lparr>d_offset := d_offset d + length bs\<rparr>)) \<Longrightarrow> decodes p bs a"
proof -
  assume *: "\<And>d rest. ahead d = bs @ rest \<Longrightarrow> d_offset d + length bs \<le> length (d_data d) \<Longrightarrow>
      p d = Inr (a, d\<lparr>d_offset := d_offset d + length bs\<rparr>)"
  show ?thesis unfolding decodes_def
  proof (intro allI impI, elim conjE)
    fix d rest assume a: "ahead d = bs @ rest" "d_offset d \<le> length (d_data d)"
    have "length (ahead d) = length bs + length rest" using a by simp
    then have "d_offset d + length bs \<le> length (d_data d)" using a(2) by (simp add: ahead_def)
    then show "p d = Inr (a, d\<lparr>d_offset := d_offset d + length bs\<rparr>)" using * a by blast
  qed
qed

lemma decodes_rret [intro]: "decodes (rret a) [] a"
  by (simp add: decodes_def rret_def)

lemma decodes_rbind:
  assumes p: "decodes p xs a" and f: "decodes (f a) ys b"
  shows "decodes (rbind p f) (xs @ ys) b"
proof (rule decodesI)
  fix d rest assume a: "ahead d = (xs @ ys) @ rest" "d_offset d + length (xs @ ys) \<le> length (d_data d)"
  let ?d = "d\<lparr>d_offset := d_offset d + length xs\<rparr>"
  have "p d = Inr (a, ?d)" using p a unfolding decodes_def by auto
  moreover have "ahead ?d = ys @ rest"
    using a(1) by (simp add: ahead_def drop_drop [symmetric] add.commute)
  then have "f a ?d = Inr (b, ?d\<lparr>d_offset := d_offset ?d + length ys\<rparr>)"
    using f a(2) unfolding decodes_def by auto
  ultimately show "rbind p f d = Inr (b, d\<lparr>d_offset := d_offset d + length (xs @ ys)\<rparr>)"
    by (simp add: rbind_def add.assoc)
qed

lemma decodes_read_byte: "decodes read_byte [b] (unat b)"
proof (rule decodesI)
  fix d rest assume a: "ahead d = [b] @ rest" "d_offset d + length [b] \<le> length (d_data d)"
  then have "d_data d ! d_offset d = b" by (metis ahead_def append_Cons nth_drop nth_Cons_0 add.right_neutral append_Nil less_imp_le_nat le_eq_less_or_eq add_leD1)
  with a show "read_byte d = Inr (unat b, d\<lparr>d_offset := d_offset d + length [b]\<rparr>)"
    by (simp add: read_byte_def)
qed

lemma decodes_read_be: "length bs = n \<Longrightarrow> decodes (read_be n) bs (be_value bs)"
  by (rule decodesI) (auto simp: read_be_def ahead_def)

lemma decodes_int: "decodes (read_be n) (be_bytes n v) (nat (v mod 256 ^ n))"
  using decodes_read_be [of "be_bytes n v" n] by (simp add: be_value_be_bytes)

lemma decodes_string_bytes:
  assumes "utf8_encode s = Some e" "length e < 65536"
  shows "decodes read_string (be_bytes 2 (int (length e)) @ e) s"
  unfolding read_string_def
proof (rule decodes_rbind)
  show "decodes read_int16 (be_bytes 2 (int (length e))) (length e)"
    using decodes_int [of 2 "int (length e)"] assms(2) by (simp add: read_int16_def)
next
  show "decodes (\<lambda>d. if length e = 0 then Inr ([], d)
     else (case utf8_decode (take (length e) (drop (d_offset d) (d_data d))) of
             None \<Rightarrow> Inl UnicodeError
           | Some s \<Rightarrow> Inr (s, d\<lparr>d_offset := d_offset d + length e\<rparr>))) e s"
    using assms(1) utf8_roundtrip [OF assms(1)]
    by (intro decodesI) (auto simp: ahead_def utf8_encode_Nil_iff)
qed


section \<open>Variable-length integers\<close>

lemma and_127: "(b::nat) AND 127 = b mod 128"
  using take_bit_eq_mask [of 7 b] by (simp add: take_bit_eq_mod mask_eq_exp_minus_1)

lemma or_shift_add:
  assumes "v < 2 ^ m"
  shows "v OR push_bit m (b::nat) = v + b * 2 ^ m"
proof -
  have "\<not> bit v n \<or> \<not> bit (push_bit m b) n" for n
    using assms by (metis bit_push_bit_iff_nat bit_take_bit_iff leD leI take_bit_nat_eq_self)
  then have "v + push_bit m b = v OR push_bit m b" by (rule disjunctive_add)
  then show ?thesis by (simp add: push_bit_eq_mult)
qed

lemma and_128_byte:
  assumes "(b::nat) < 256"
  shows "b AND 128 = 0 \<longleftrightarrow> b < 128"
proof -
  have "b AND 2 ^ 7 = 0 \<longleftrightarrow> \<not> odd (b div 2 ^ 7)"
    unfolding bit_iff_odd [symmetric] by (rule and_exp_eq_0_iff_not_bit)
  moreover have "b div 2 ^ 7 = (if b < 128 then 0 else 1)"
    using assms by (auto simp: div_nat_eqI)
  ultimately show ?thesis by simp
qed

lemma or_128_digit: "0 \<le> d \<Longrightarrow> d < 128 \<Longrightarrow> (d::int) OR 128 = d + 128"
proof -
  assume "0 \<le> d" "d < 128"
  have "\<not> bit d n \<or> \<not> bit (128::int) n" for n
  proof -
    have "bit (2 ^ 7 :: int) n \<longleftrightarrow> n = 7" by (simp add: bit_exp_iff del: power_numeral)
    moreover have "\<not> bit d 7" using \<open>0 \<le> d\<close> \<open>d < 128\<close> by (simp add: bit_iff_odd)
    ultimately show ?thesis by auto
  qed
  then show ?thesis by (rule disjunctive_add [symmetric])
qed

text \<open>The bytes of a varint: every byte but the last has its high bit set.\<close>

lemma varlen_loop_last: "0 < n \<Longrightarrow> n < 128 \<Longrightarrow> varlen_loop n = [word_of_int n]"
  by (simp add: varlen_loop.simps [of n] varlen_loop.simps [of 0] Let_def)

lemma varlen_loop_more:
  "128 \<le> n \<Longrightarrow> varlen_loop n = word_of_int (n mod 128 + 128) # varlen_loop (n div 128)"
  by (simp add: varlen_loop.simps [of n] Let_def or_128_digit)

lemma unat_digit: "0 \<le> d \<Longrightarrow> d < 256 \<Longrightarrow> unat (word_of_int d :: byte) = nat d"
  by (simp add: unat_word_of_int_byte)

text \<open>The scanner of \<open>try_unpack_one\<close> reads a varint back, whatever follows it.\<close>

lemma scan_length_varlen:
  assumes "0 < n"
  shows "scan_length (pre @ varlen_loop n @ rest) (length pre) r m =
           Some (length pre + length (varlen_loop n), r + nat n * m)"
  using assms
proof (induction "nat n" arbitrary: n pre r m rule: less_induct)
  case less
  show ?case
  proof (cases "n < 128")
    case True
    then have "unat (word_of_int n :: byte) = nat n" using less.prems by (simp add: unat_digit)
    moreover have "nat n < 128" using True by simp
    ultimately show ?thesis
      using less.prems True
      by (simp add: scan_length.simps [of _ "length pre"] varlen_loop_last nth_append
          Let_def and_128_byte and_127)
  next
    case False
    let ?b = "word_of_int (n mod 128 + 128) :: byte"
    have b: "unat ?b = nat (n mod 128) + 128"
      by (subst unat_digit) (simp_all add: nat_add_distrib)
    have vl: "varlen_loop n = ?b # varlen_loop (n div 128)"
      using False by (simp add: varlen_loop_more)
    have IH: "scan_length ((pre @ [?b]) @ varlen_loop (n div 128) @ rest) (length (pre @ [?b]))
         (r + nat (n mod 128) * m) (m * 128) =
         Some (length (pre @ [?b]) + length (varlen_loop (n div 128)),
               (r + nat (n mod 128) * m) + nat (n div 128) * (m * 128))"
      by (rule less.hyps) (use False in auto)
    have "unat ?b AND 127 = nat (n mod 128)" "unat ?b AND 128 \<noteq> 0"
      using b by (simp_all add: and_127 and_128_byte)
    moreover have "nat n = nat (n mod 128) + nat (n div 128) * 128"
      using less.prems by (simp add: nat_mod_distrib nat_div_distrib)
    ultimately show ?thesis using IH
      by (simp add: scan_length.simps [of _ "length pre"] vl nth_append Let_def algebra_simps)
  qed
qed

lemma scan_length_encode:
  assumes "0 \<le> n"
  shows "scan_length (h # encode_variable_length n @ rest) 1 0 1 =
           Some (1 + length (encode_variable_length n), nat n)"
proof (cases "n = 0")
  case True
  then show ?thesis
    by (simp add: scan_length.simps encode_variable_length_def Let_def)
next
  case False
  then show ?thesis
    using scan_length_varlen [of n "[h]" rest 0 1] assms by (simp add: encode_variable_length_def)
qed


section \<open>Frames\<close>

lemma scan_length_bound:
  "scan_length buf pos r m = Some (p, len) \<Longrightarrow> pos < p \<and> p \<le> length buf"
proof (induction buf pos r m rule: scan_length.induct)
  case (1 buf pos r m)
  show ?case
    using 1 by (subst (asm) (2) scan_length.simps) (fastforce simp: Let_def split: if_splits dest: Suc_lessD)
qed

lemma scan_length_append:
  "scan_length buf pos r m = Some (p, len) \<Longrightarrow> scan_length (buf @ x) pos r m = Some (p, len)"
proof (induction buf pos r m rule: scan_length.induct)
  case (1 buf pos r m)
  show ?case
    using 1 by (subst scan_length.simps, subst (asm) (2) scan_length.simps)
      (auto simp: Let_def nth_append split: if_splits)
qed

lemma try_unpack_none: "try_unpack_one buf = (None, rest) \<Longrightarrow> rest = buf"
  by (auto simp: try_unpack_one_def Let_def split: list.splits if_splits option.splits)

lemma try_unpack_some:
  assumes "try_unpack_one buf = (Some f, rest)"
  shows "buf = f @ rest \<and> f \<noteq> []"
proof (cases buf)
  case Nil
  then show ?thesis using assms by (simp add: try_unpack_one_def)
next
  case (Cons h bs)
  then show ?thesis using assms
    by (auto simp: try_unpack_one_def Let_def split: if_splits option.splits)
qed

lemma try_unpack_append:
  assumes "try_unpack_one buf = (Some f, rest)"
  shows "try_unpack_one (buf @ x) = (Some f, rest @ x)"
proof (cases buf)
  case Nil
  then show ?thesis using assms by (simp add: try_unpack_one_def)
next
  case (Cons h bs)
  show ?thesis
  proof (cases "scan_length buf 1 0 1")
    case None
    then show ?thesis using assms Cons by (auto simp: try_unpack_one_def Let_def split: if_splits)
  next
    case (Some pl)
    then show ?thesis using assms Cons scan_length_append [of buf 1 0 1 _ _ x]
      by (cases pl) (auto simp: try_unpack_one_def Let_def split: if_splits)
  qed
qed

end
