(* ===== verification/Framing.thy ===== *)
theory Framing
  imports Protocol
begin

text \<open>
  Reassembly of frames from WebSocket messages: the inner loop of \<open>_receive_loop\<close> and of the
  CONNACK wait in \<open>_do_connect\<close> (\<open>adapter.py\<close>), which appends each message to a buffer and
  cuts frames off it with \<open>try_unpack_one\<close>. The interface between the loop and the unpacker
  is the locale \<open>stream_unpacker\<close>; the facts proved in it say that the frames do not depend
  on how the bytes were split into messages.
\<close>

section \<open>The loop\<close>

function drain_frames :: "byte list \<Rightarrow> byte list list \<times> byte list" where
  \<comment> \<open>\<open>while self._temp_buffer\<close>: the frames in order, and what stays in the buffer\<close>
  "drain_frames buf =
     (if buf = [] then ([], buf)
      else (case try_unpack_one buf of
              (None, rest) \<Rightarrow> ([], rest)
            | (Some f, rest) \<Rightarrow>
                (let (fs, final) = drain_frames rest in (f # fs, final))))"
  by pat_completeness auto
termination
proof (relation "measure length")
  fix buf :: "byte list" and x rest f
  assume "buf \<noteq> []" "(x, rest) = try_unpack_one buf" "x = Some f"
  then have "buf = f @ rest \<and> f \<noteq> []" using try_unpack_some by metis
  then show "(rest, buf) \<in> measure length" by (cases f) auto
qed simp

declare drain_frames.simps [simp del]

fun receive_chunks :: "byte list \<Rightarrow> byte list list \<Rightarrow> byte list list \<times> byte list" where
  \<comment> \<open>one iteration of the outer loop per WebSocket message\<close>
  "receive_chunks buf [] = ([], buf)"
| "receive_chunks buf (c # cs) =
     (let (fs, buf') = drain_frames (buf @ c);
          (gs, final) = receive_chunks buf' cs
      in (fs @ gs, final))"

section \<open>The interface\<close>

inductive yields ::
  "('b list \<Rightarrow> 'f option \<times> 'b list) \<Rightarrow> 'b list \<Rightarrow> 'f list \<Rightarrow> 'b list \<Rightarrow> bool" for u where
  stop: "u buf = (None, r) \<Longrightarrow> yields u buf [] buf"
| more: "u buf = (Some f, r) \<Longrightarrow> yields u r fs final \<Longrightarrow> yields u buf (f # fs) final"

inductive_cases yieldsE: "yields u buf fs final"

locale stream_unpacker =
  fixes unpack :: "'b list \<Rightarrow> 'b list option \<times> 'b list"
  assumes unpack_none: "unpack buf = (None, r) \<Longrightarrow> r = buf"
    and unpack_some: "unpack buf = (Some f, r) \<Longrightarrow> buf = f @ r \<and> f \<noteq> []"
    and unpack_append: "unpack buf = (Some f, r) \<Longrightarrow> unpack (buf @ x) = (Some f, r @ x)"
begin

lemma yields_bytes: "yields unpack buf fs final \<Longrightarrow> buf = concat fs @ final"
  by (induction rule: yields.induct) (auto dest: unpack_some)

lemma yields_final: "yields unpack buf fs final \<Longrightarrow> fst (unpack final) = None"
  by (induction rule: yields.induct) auto

lemma yields_det:
  "yields unpack buf fs final \<Longrightarrow> yields unpack buf gs final' \<Longrightarrow> fs = gs \<and> final = final'"
proof (induction arbitrary: gs rule: yields.induct)
  case (stop buf r)
  from stop(2) show ?case by (rule yieldsE) (auto simp: stop(1))
next
  case (more buf f r fs final)
  from more.prems show ?case
    by (rule yieldsE) (use more in auto)
qed

lemma yields_append:
  "yields unpack a fs r \<Longrightarrow> yields unpack (r @ b) gs final \<Longrightarrow> yields unpack (a @ b) (fs @ gs) final"
  by (induction rule: yields.induct) (auto intro: yields.more dest: unpack_append)

end

interpretation wk: stream_unpacker try_unpack_one
  by unfold_locales (auto dest: try_unpack_none try_unpack_some try_unpack_append)

section \<open>The loop implements the interface\<close>

lemma try_unpack_empty [simp]: "try_unpack_one [] = (None, [])"
  by (simp add: try_unpack_one_def)

lemma drain_frames_yields:
  "drain_frames buf = (fs, final) \<Longrightarrow> yields try_unpack_one buf fs final"
proof (induction buf arbitrary: fs final rule: drain_frames.induct)
  case (1 buf)
  show ?case
  proof (cases "buf = []")
    case True
    then show ?thesis using "1.prems" by (auto simp: drain_frames.simps intro: yields.stop)
  next
    case False
    obtain fo rest where u: "try_unpack_one buf = (fo, rest)" by (cases "try_unpack_one buf")
    show ?thesis
    proof (cases fo)
      case None
      then show ?thesis using "1.prems" u False
        by (auto simp: drain_frames.simps [of buf] dest: wk.unpack_none intro: yields.stop)
    next
      case (Some f)
      obtain gs final' where d: "drain_frames rest = (gs, final')" by (cases "drain_frames rest")
      then have "yields try_unpack_one rest gs final'"
        by (rule "1.IH" [OF False u [symmetric] Some])
      moreover have "fs = f # gs" "final = final'"
        using "1.prems" u Some d False by (simp_all add: drain_frames.simps [of buf])
      ultimately show ?thesis using u Some by (auto intro: yields.more)
    qed
  qed
qed

lemma yields_drain: "yields try_unpack_one buf fs final \<Longrightarrow> drain_frames buf = (fs, final)"
  by (metis drain_frames_yields prod.collapse wk.yields_det)

lemma drain_append:
  assumes "drain_frames a = (fs, r)" "drain_frames (r @ b) = (gs, final)"
  shows "drain_frames (a @ b) = (fs @ gs, final)"
  using assms by (intro yields_drain wk.yields_append) (auto intro: drain_frames_yields)

lemma drain_idle: "drain_frames a = (fs, r) \<Longrightarrow> drain_frames r = ([], r)"
  by (metis drain_frames_yields wk.yields_final yields.stop yields_drain prod.collapse)

lemma receive_chunks_drain:
  "drain_frames buf = ([], buf) \<Longrightarrow> receive_chunks buf cs = drain_frames (buf @ concat cs)"
proof (induction cs arbitrary: buf)
  case Nil
  then show ?case by simp
next
  case (Cons c cs)
  obtain fs r where d: "drain_frames (buf @ c) = (fs, r)" by (cases "drain_frames (buf @ c)")
  obtain gs q where g: "drain_frames (r @ concat cs) = (gs, q)"
    by (cases "drain_frames (r @ concat cs)")
  have "receive_chunks r cs = (gs, q)"
    using Cons.IH [OF drain_idle [OF d]] g by simp
  with drain_append [OF d g] d show ?case by simp
qed

section \<open>Complete frames\<close>

definition complete_frame :: "byte list \<Rightarrow> bool" where
  "complete_frame f \<longleftrightarrow> try_unpack_one f = (Some f, [])"

lemma yields_frames: "\<forall>f \<in> set fs. complete_frame f \<Longrightarrow> yields try_unpack_one (concat fs) fs []"
proof (induction fs)
  case Nil
  show ?case by (auto intro: yields.stop)
next
  case (Cons f fs)
  then have "try_unpack_one (f @ concat fs) = (Some f, concat fs)"
    using wk.unpack_append [of f f "[]" "concat fs"] by (simp add: complete_frame_def)
  with Cons show ?case by (auto intro: yields.more)
qed

lemma frame_of_eq:
  "frame_of t body = of_nat (packet_code t * 16) # encode_variable_length (int (length body)) @ body"
  by (simp add: frame_of_def write_byte_def write_bytes_def)

lemma packet_nibble: "drop_bit 4 (unat (of_nat (packet_code t * 16) :: byte)) = packet_code t"
  by (cases t) (simp_all add: unat_of_nat drop_bit_eq_div)

lemma complete_frame_of:
  assumes "t \<noteq> PING" "t \<noteq> PONG"
  shows "complete_frame (frame_of t body)"
proof -
  have "packet_code t \<noteq> 7" "packet_code t \<noteq> 8" using assms by (cases t; simp)+
  then show ?thesis
    using packet_nibble [of t] scan_length_encode [of "int (length body)" _ body]
    by (simp add: complete_frame_def try_unpack_one_def frame_of_eq Let_def)
qed

lemma complete_ping: "complete_frame encode_ping_packet"
  and complete_pong: "complete_frame encode_pong_packet"
  by (simp_all add: complete_frame_def encode_ping_packet_def encode_pong_packet_def
      try_unpack_one_def Let_def drop_bit_eq_div)

end
