(* ===== verification/WireFormat.thy ===== *)
theory WireFormat
  imports Framing
begin

text \<open>
  The byte formats of the packets the server sends, and what the decoder of \<open>protocol.py\<close>
  makes of them. \<open>recv_body\<close> and \<open>connack_body\<close> write a packet down from its fields, in the
  order of the protocol; the theorems say that \<open>decode_packet\<close> reads every field back, that a
  received message can always be acknowledged with its own identifier, and that the frames
  \<open>receive_chunks\<close> cuts out of the stream are the packets that were sent, however the
  transport splits them. \<open>decodes_all\<close> extends the calculus of \<open>Protocol\<close> to readers that take
  the rest of the packet.
\<close>

section \<open>Reading a variable length back\<close>

lemma read_varlen_loop_rbind:
  "m < 27 \<Longrightarrow> read_varlen_loop m v =
     rbind read_byte (\<lambda>b. if b AND 128 = 0 then rret (v OR push_bit m (b AND 127))
                          else read_varlen_loop (m + 7) (v OR push_bit m (b AND 127)))"
  by (rule ext) (simp add: read_varlen_loop.simps [of m] rbind_def rret_def Let_def
      split: sum.splits)

lemma decodes_varlen_loop:
  assumes "0 < n" "n < 2 ^ (7 * k)" "k \<le> 4" "v < 2 ^ (28 - 7 * k)"
  shows "decodes (read_varlen_loop (28 - 7 * k) v) (varlen_loop n) (v + nat n * 2 ^ (28 - 7 * k))"
  using assms
proof (induction k arbitrary: n v)
  case 0
  then show ?case by simp
next
  case (Suc k)
  let ?m = "28 - 7 * Suc k"
  have m: "?m < 27" using Suc.prems(3) by simp
  show ?case
  proof (cases "n < 128")
    case True
    have u: "unat (word_of_int n :: byte) = nat n" "nat n < 128"
      using True Suc.prems(1) by (simp_all add: unat_digit)
    have "decodes (rbind read_byte (\<lambda>b. if b AND 128 = 0 then rret (v OR push_bit ?m (b AND 127))
                          else read_varlen_loop (?m + 7) (v OR push_bit ?m (b AND 127))))
            ([word_of_int n] @ []) (v + nat n * 2 ^ ?m)"
      by (rule decodes_rbind [OF decodes_read_byte])
         (use u Suc.prems(4) in \<open>auto simp: and_128_byte and_127 or_shift_add\<close>)
    then show ?thesis
      unfolding read_varlen_loop_rbind [OF m] varlen_loop_last [OF Suc.prems(1) True] by simp
  next
    case False
    let ?b = "word_of_int (n mod 128 + 128) :: byte" and ?q = "n div 128"
    have b: "unat ?b = nat (n mod 128) + 128"
      by (subst unat_digit) (simp_all add: nat_add_distrib)
    let ?v = "v OR push_bit ?m (unat ?b AND 127)"
    have k: "?m + 7 = 28 - 7 * k" "k \<le> 4" using Suc.prems(3) by simp_all
    have lo: "nat (n mod 128) < 128" by simp
    have v: "?v = v + nat (n mod 128) * 2 ^ ?m"
      using b Suc.prems(4) by (simp add: and_127 or_shift_add)
    have "?v < 2 ^ ?m + 127 * 2 ^ ?m"
      unfolding v by (rule add_less_le_mono) (use Suc.prems(4) lo in auto)
    also have "\<dots> = 2 ^ (28 - 7 * k)" unfolding k(1) [symmetric] power_add by simp
    finally have vb: "?v < 2 ^ (28 - 7 * k)" .
    have "n < 128 * 2 ^ (7 * k)" using Suc.prems(2) by (simp add: power_add)
    moreover have "128 * ?q \<le> n" by simp
    ultimately have q: "?q < 2 ^ (7 * k)" "0 < ?q" using False by (linarith, simp)
    have IH: "decodes (read_varlen_loop (?m + 7) ?v) (varlen_loop ?q)
                (?v + nat ?q * 2 ^ (28 - 7 * k))"
      unfolding k(1) by (rule Suc.IH) (use q k vb in auto)
    have "decodes (rbind read_byte (\<lambda>b. if b AND 128 = 0 then rret (v OR push_bit ?m (b AND 127))
                          else read_varlen_loop (?m + 7) (v OR push_bit ?m (b AND 127))))
            ([?b] @ varlen_loop ?q) (?v + nat ?q * 2 ^ (28 - 7 * k))"
      by (rule decodes_rbind [OF decodes_read_byte]) (use IH b in \<open>simp add: and_128_byte\<close>)
    moreover have "?v + nat ?q * 2 ^ (28 - 7 * k) = v + nat n * 2 ^ ?m"
    proof -
      have "nat n = nat (n mod 128) + nat ?q * 128"
        using Suc.prems(1) by (simp add: nat_mod_distrib nat_div_distrib)
      then show ?thesis unfolding v k(1) [symmetric] power_add by (simp add: algebra_simps)
    qed
    ultimately show ?thesis
      unfolding read_varlen_loop_rbind [OF m]
      using varlen_loop_more [of n] False by simp
  qed
qed

lemma decodes_variable_length:
  assumes "0 \<le> n" "n < 2 ^ 28"
  shows "decodes read_variable_length (encode_variable_length n) (nat n)"
proof (cases "n = 0")
  case True
  have "decodes (rbind read_byte (\<lambda>b. if b AND 128 = 0 then rret (0 OR push_bit 0 (b AND 127))
                          else read_varlen_loop (0 + 7) (0 OR push_bit 0 (b AND 127))))
            ([0] @ []) 0"
    by (rule decodes_rbind [OF decodes_read_byte]) auto
  then show ?thesis
    using True by (simp add: read_variable_length_def read_varlen_loop_rbind encode_variable_length_def)
next
  case False
  then show ?thesis
    using decodes_varlen_loop [of n 4 0] assms
    by (simp add: read_variable_length_def encode_variable_length_def)
qed

section \<open>The wire format of the packets the server sends\<close>

definition wire_string :: "ustr \<Rightarrow> byte list option" where
  "wire_string s =
     (case utf8_encode s of
        None \<Rightarrow> None
      | Some e \<Rightarrow> if length e < 65536 then Some (be_bytes 2 (int (length e)) @ e) else None)"

lemma decodes_wire_string: "wire_string s = Some bs \<Longrightarrow> decodes read_string bs s"
  by (auto simp: wire_string_def decodes_string_bytes split: option.splits if_splits)

lemma write_string_wire:
  "wire_string s = Some bs \<Longrightarrow> write_string s buf = Inr (buf @ bs)"
  by (auto simp: wire_string_def write_string_def write_int16_def split: option.splits if_splits)

definition run_reader :: "'a reader \<Rightarrow> byte list \<Rightarrow> proto_error + 'a" where
  "run_reader p bs = map_sum id fst (p \<lparr>d_data = bs, d_offset = 0\<rparr>)"

lemma run_decodes: "decodes p bs a \<Longrightarrow> run_reader p bs = Inr a"
  by (simp add: run_reader_def decodes_def ahead_def)


text \<open>A reader that is given exactly the rest of the packet.\<close>

definition decodes_all :: "'a reader \<Rightarrow> byte list \<Rightarrow> 'a \<Rightarrow> bool" where
  "decodes_all p bs a \<longleftrightarrow>
     (\<forall>d. ahead d = bs \<and> d_offset d \<le> length (d_data d) \<longrightarrow> (\<exists>d'. p d = Inr (a, d')))"

lemma decodes_all_rbind:
  assumes p: "decodes p xs a" and f: "decodes_all (f a) ys b"
  shows "decodes_all (rbind p f) (xs @ ys) b"
  unfolding decodes_all_def
proof (intro allI impI, elim conjE)
  fix d assume a: "ahead d = xs @ ys" "d_offset d \<le> length (d_data d)"
  let ?d = "d\<lparr>d_offset := d_offset d + length xs\<rparr>"
  have "length (ahead d) = length xs + length ys" using a by simp
  then have len: "d_offset ?d \<le> length (d_data ?d)" using a(2) by (simp add: ahead_def)
  have "ahead ?d = ys" using a(1) by (simp add: ahead_def drop_drop [symmetric] add.commute)
  moreover have "p d = Inr (a, ?d)" using p a unfolding decodes_def by blast
  ultimately show "\<exists>d'. rbind p f d = Inr (b, d')"
    using f len unfolding decodes_all_def by (simp add: rbind_def)
qed

lemma decodes_all_rret: "decodes_all (rret a) bs a"
  by (simp add: decodes_all_def rret_def)

lemma decodes_all_rest:
  "decodes_all (f bs) [] b \<Longrightarrow> decodes_all (rbind read_remaining f) bs b"
  by (auto simp: decodes_all_def rbind_def read_remaining_def ahead_def)

lemma run_decodes_all: "decodes_all p bs a \<Longrightarrow> run_reader p bs = Inr a"
proof -
  assume "decodes_all p bs a"
  then have "\<exists>d'. p \<lparr>d_data = bs, d_offset = 0\<rparr> = Inr (a, d')"
    unfolding decodes_all_def ahead_def by (elim allE impE) auto
  then show ?thesis by (auto simp: run_reader_def)
qed

record recv_fields =
  rf_setting :: nat
  rf_msg_key :: ustr
  rf_from_uid :: ustr
  rf_channel_id :: ustr
  rf_channel_type :: nat
  rf_expire :: nat
  rf_client_msg_no :: ustr
  rf_message_id :: nat
  rf_message_seq :: nat
  rf_timestamp :: nat
  rf_topic :: ustr
  rf_payload :: "byte list"

definition recv_in_range :: "recv_fields \<Rightarrow> bool" where
  "recv_in_range f \<longleftrightarrow>
     rf_setting f < 256 \<and> rf_channel_type f < 256 \<and> rf_expire f < 2 ^ 32 \<and>
     rf_message_id f < 2 ^ 64 \<and> rf_message_seq f < 2 ^ 32 \<and> rf_timestamp f < 2 ^ 32"

definition oconcat :: "byte list option list \<Rightarrow> byte list option" where
  "oconcat xs = (if None \<in> set xs then None else Some (concat (map the xs)))"

definition recv_body :: "recv_fields \<Rightarrow> byte list option" where
  "recv_body f = oconcat
     [Some [of_nat (rf_setting f)],
      wire_string (rf_msg_key f),
      wire_string (rf_from_uid f),
      wire_string (rf_channel_id f),
      Some [of_nat (rf_channel_type f)],
      Some (be_bytes 4 (int (rf_expire f))),
      wire_string (rf_client_msg_no f),
      Some (be_bytes 8 (int (rf_message_id f))),
      Some (be_bytes 4 (int (rf_message_seq f))),
      Some (be_bytes 4 (int (rf_timestamp f))),
      (if topic (parse_setting_byte (rf_setting f)) then wire_string (rf_topic f) else Some []),
      Some (rf_payload f)]"

definition packet_frame :: "packet_type \<Rightarrow> nat \<Rightarrow> byte list \<Rightarrow> byte list" where
  "packet_frame t flags body =
     of_nat (packet_code t * 16 + flags) # encode_variable_length (int (length body)) @ body"

definition recv_of_fields :: "recv_fields \<Rightarrow> recv_result" where
  "recv_of_fields f =
     \<lparr>setting = parse_setting_byte (rf_setting f), msg_key = rf_msg_key f,
      from_uid = rf_from_uid f, channel_id = rf_channel_id f,
      channel_type_code = rf_channel_type f, client_msg_no = rf_client_msg_no f,
      message_id = dec_str (rf_message_id f), message_seq = rf_message_seq f,
      timestamp = rf_timestamp f, encrypted_payload = rf_payload f\<rparr>"

lemma decodes_byte: "v < 256 \<Longrightarrow> decodes read_byte [of_nat v] v"
  using decodes_read_byte [of "of_nat v"] by (simp add: unat_of_nat)

lemma decodes_num:
  "v < 2 ^ 16 \<Longrightarrow> decodes read_int16 (be_bytes 2 (int v)) v"
  "v < 2 ^ 32 \<Longrightarrow> decodes read_int32 (be_bytes 4 (int v)) v"
  "v < 2 ^ 64 \<Longrightarrow> decodes read_int64 (be_bytes 8 (int v)) v"
  using decodes_int [of 2 "int v"] decodes_int [of 4 "int v"] decodes_int [of 8 "int v"]
  by (simp_all add: read_int16_def read_int32_def read_int64_def)

lemma oconcat_Cons_Some:
  "oconcat (x # xs) = Some bs \<longleftrightarrow> (\<exists>a b. x = Some a \<and> oconcat xs = Some b \<and> bs = a @ b)"
  by (cases x) (auto simp: oconcat_def)

lemma oconcat_Nil [simp]: "oconcat [] = Some bs \<longleftrightarrow> bs = []"
  by (auto simp: oconcat_def)

lemma decodes_all_recv:
  assumes body: "recv_body f = Some bs" and ok: "recv_in_range f"
  shows "decodes_all decode_recv bs (recv_of_fields f)"
proof -
  obtain b1 b2 b3 b4 b5 where
    w: "wire_string (rf_msg_key f) = Some b1" "wire_string (rf_from_uid f) = Some b2"
       "wire_string (rf_channel_id f) = Some b3" "wire_string (rf_client_msg_no f) = Some b4"
       "(if topic (parse_setting_byte (rf_setting f)) then wire_string (rf_topic f) else Some []) = Some b5"
    and bs: "bs = [of_nat (rf_setting f)] @ b1 @ b2 @ b3 @ [of_nat (rf_channel_type f)]
        @ be_bytes 4 (int (rf_expire f)) @ b4 @ be_bytes 8 (int (rf_message_id f))
        @ be_bytes 4 (int (rf_message_seq f)) @ be_bytes 4 (int (rf_timestamp f)) @ b5 @ rf_payload f"
    using body unfolding recv_body_def by (auto simp: oconcat_Cons_Some)
  note str = w(1-4) [THEN decodes_wire_string]
  have top: "decodes (if topic (parse_setting_byte (rf_setting f))
                      then rbind read_string (\<lambda>_. rret ()) else rret ()) b5 ()"
    using w(5) decodes_rbind [OF decodes_wire_string decodes_rret, of "rf_topic f" b5 "\<lambda>_. ()"]
    by (auto split: if_splits)
  show ?thesis
    unfolding decode_recv_def Let_def bs
    by (rule decodes_all_rbind str decodes_byte decodes_num top decodes_all_rest
          | use ok in \<open>simp add: recv_in_range_def recv_of_fields_def decodes_all_rret\<close>)+
qed

lemma packet_frame_header:
  assumes "flags < 16"
  shows "drop_bit 4 (unat (of_nat (packet_code t * 16 + flags) :: byte)) = packet_code t"
    and "unat (of_nat (packet_code t * 16 + flags) :: byte) AND 1 = flags mod 2"
proof -
  have "packet_code t * 16 + flags < 256" using assms by (cases t) auto
  then have u: "unat (of_nat (packet_code t * 16 + flags) :: byte) = packet_code t * 16 + flags"
    by (subst unat_of_nat) simp
  show "drop_bit 4 (unat (of_nat (packet_code t * 16 + flags) :: byte)) = packet_code t"
    unfolding u using assms by (simp add: drop_bit_eq_div)
  show "unat (of_nat (packet_code t * 16 + flags) :: byte) AND 1 = flags mod 2"
    unfolding u by (simp add: and_one_eq mod_simps, presburger)
qed

lemma decodes_all_header:
  assumes "length body < 2 ^ 28" and "decodes_all p body a"
  shows "decodes_all (rbind read_byte (\<lambda>_. rbind read_variable_length (\<lambda>_. p)))
           (packet_frame t flags body) a"
proof -
  have "decodes_all (rbind read_byte (\<lambda>_. rbind read_variable_length (\<lambda>_. p)))
     ([of_nat (packet_code t * 16 + flags)] @ encode_variable_length (int (length body)) @ body) a"
    using assms
    by (intro decodes_all_rbind [OF decodes_read_byte] decodes_all_rbind [OF decodes_variable_length])
       auto
  then show ?thesis by (simp add: packet_frame_def)
qed


lemma decodes_all_map:
  "decodes_all p bs a \<Longrightarrow> decodes_all (rbind p (\<lambda>x. rret (g x))) bs (g a)"
  by (fastforce simp: decodes_all_def rbind_def rret_def)

lemma decode_packet_frame:
  assumes "flags < 16"
  shows "decode_packet (packet_frame t flags body) =
    (if t = PONG then Inr PPong else if t = PING then Inr PPing
     else run_reader (rbind read_byte (\<lambda>_. rbind read_variable_length (\<lambda>_.
       (case t of
          CONNACK \<Rightarrow> rbind (decode_connack (odd flags)) (\<lambda>c. rret (PConnack c))
        | RECV \<Rightarrow> rbind decode_recv (\<lambda>r. rret (PRecv r))
        | DISCONNECT \<Rightarrow> rbind decode_disconnect (\<lambda>(c, r). rret (PDisconnect c r))
        | SENDACK \<Rightarrow> rret PSendack
        | _ \<Rightarrow> rret (POther (packet_code t))))))
       (packet_frame t flags body))"
proof -
  let ?h = "of_nat (packet_code t * 16 + flags) :: byte"
  have "packet_frame t flags body = ?h # encode_variable_length (int (length body)) @ body"
    by (simp add: packet_frame_def)
  moreover have "unat ?h AND 1 > 0 \<longleftrightarrow> odd flags"
    unfolding packet_frame_header(2) [OF assms] by presburger
  ultimately show ?thesis
    using packet_frame_header(1) [OF assms, of t]
    by (cases t) (simp_all add: decode_packet_def run_reader_def Let_def)
qed

lemma decode_recv_fields:
  assumes "recv_body f = Some body" and "recv_in_range f"
    and "length body < 2 ^ 28" and "flags < 16"
  shows "decode_packet (packet_frame RECV flags body) = Inr (PRecv (recv_of_fields f))"
  unfolding decode_packet_frame [OF assms(4)]
  using run_decodes_all [OF decodes_all_header [OF assms(3)
          decodes_all_map [OF decodes_all_recv [OF assms(1,2)], of PRecv]]]
  by simp

text \<open>
  C10. A RECV packet written field by field in protocol order, with any header flags, is read
  back by \<open>decode_packet\<close> with every field as it was sent; the topic is present exactly when
  the setting byte announces it, and the payload is what is left.
\<close>

theorem decode_recv_packet:
  assumes "recv_body f = Some body" and "recv_in_range f"
    and "length body < 2 ^ 28" and "flags < 16"
  shows "decode_packet (packet_frame RECV flags body) = Inr (PRecv (recv_of_fields f))"
  using assms by (rule decode_recv_fields)

definition sample_recv :: recv_fields where
  "sample_recv = \<lparr>rf_setting = 8, rf_msg_key = [107], rf_from_uid = [117, 0x4E2D],
     rf_channel_id = [99], rf_channel_type = 1, rf_expire = 0, rf_client_msg_no = [],
     rf_message_id = 77, rf_message_seq = 5, rf_timestamp = 9, rf_topic = [116],
     rf_payload = [1, 2]\<rparr>"

lemma be_bytes_numeral:
  "be_bytes (numeral k) v = be_bytes (pred_numeral k) (v div 256) @ [word_of_int v]"
  by (simp add: numeral_eq_Suc)

lemma wire_string_eval:
  "wire_string s = (if list_all scalar s \<and> length (concat (map utf8_cp s)) < 65536
     then Some (be_bytes 2 (int (length (concat (map utf8_cp s))))
                @ map of_nat (concat (map utf8_cp s))) else None)"
  by (simp add: wire_string_def utf8_encode_def Let_def)

lemma sample_recv_body:
  "\<exists>body. recv_body sample_recv = Some body \<and> length body < 2 ^ 28"
  by (simp add: recv_body_def oconcat_def sample_recv_def wire_string_eval scalar_def utf8_cp_def
      be_bytes_numeral parse_setting_byte_def drop_bit_eq_div)

theorem decode_recv_packet_witness:
  "\<exists>body. recv_body sample_recv = Some body \<and>
     decode_packet (packet_frame RECV 0 body) = Inr (PRecv (recv_of_fields sample_recv))"
proof -
  have "recv_in_range sample_recv" by (simp add: recv_in_range_def sample_recv_def)
  moreover obtain body where "recv_body sample_recv = Some body" "length body < 2 ^ 28"
    using sample_recv_body by blast
  moreover have "(0 :: nat) < 16" by simp
  ultimately show ?thesis
    using decode_recv_packet [of sample_recv body 0] by blast
qed

section \<open>Decimal message ids\<close>

lemma dec_digits_small: "d \<in> set (dec_digits n) \<Longrightarrow> d < 10"
proof (induction n rule: dec_digits.induct)
  case (1 n)
  then show ?case by (subst (asm) (2) dec_digits.simps) (auto split: if_splits)
qed

lemma dec_digits_value: "foldl (\<lambda>a d. a * 10 + d) 0 (dec_digits n) = n"
proof (induction n rule: dec_digits.induct)
  case (1 n)
  then show ?case by (subst dec_digits.simps) auto
qed

lemma dec_digits_nonempty [simp]: "dec_digits n \<noteq> []"
  by (subst dec_digits.simps) simp

lemma digit_value_char [simp]: "d < 10 \<Longrightarrow> digit_value (char_of (48 + d)) = Some d"
  by (simp add: digit_value_def)

lemma parse_digits_map:
  "\<forall>d \<in> set ds. d < 10 \<Longrightarrow>
     parse_digits a (map (\<lambda>d. char_of (48 + d)) ds) = Some (foldl (\<lambda>a d. a * 10 + d) a ds)"
  by (induction ds arbitrary: a) auto

lemma digit_char_cases:
  assumes "(d :: nat) < 10"
  shows "\<not> is_space (char_of (48 + d :: nat))" "char_of (48 + d) \<noteq> CHR ''-''" "char_of (48 + d) \<noteq> CHR ''+''"
proof -
  let ?c = "char_of (48 + d) :: char"
  have n: "(of_char ?c :: nat) = 48 + d" using assms by simp
  have "(of_char c :: nat) < 48 \<or> 57 < (of_char c :: nat)" if "is_space c" for c
    using that by (auto simp: is_space_def)
  then show "\<not> is_space ?c" using n assms by fastforce
  have "(of_char CHR ''-'' :: nat) = 45" "(of_char CHR ''+'' :: nat) = 43" by simp_all
  with n show "?c \<noteq> CHR ''-''" "?c \<noteq> CHR ''+''" by fastforce+
qed

lemma strip_no_space: "\<forall>c \<in> set s. \<not> is_space c \<Longrightarrow> strip s = s"
proof -
  assume "\<forall>c \<in> set s. \<not> is_space c"
  then have "dropWhile is_space s = s" "dropWhile is_space (rev s) = rev s"
    by (cases s; simp) (cases "rev s"; use \<open>\<forall>c \<in> set s. \<not> is_space c\<close> in \<open>auto simp: rev_eq_Cons_iff\<close>)
  then show ?thesis by (simp add: strip_def)
qed

lemma py_int_dec_str: "py_int (dec_str n) = Some (int n)"
proof -
  obtain d ds where ds: "dec_digits n = d # ds" by (cases "dec_digits n") auto
  have small: "\<forall>d \<in> set (d # ds). d < 10" using dec_digits_small ds by metis
  then have "strip (dec_str n) = dec_str n"
    by (intro strip_no_space) (auto simp: dec_str_def ds digit_char_cases(1))
  moreover have "parse_unsigned (dec_str n) = Some n"
    using small dec_digits_value [of n]
    by (simp add: parse_unsigned_def dec_str_def ds parse_digits_map)
  ultimately show ?thesis
    using small by (simp add: py_int_def dec_str_def ds digit_char_cases)
qed


section \<open>CONNACK and DISCONNECT packets\<close>

definition connack_in_range :: "connack_result \<Rightarrow> bool" where
  "connack_in_range c \<longleftrightarrow>
     reason_code c < 256 \<and> server_version c < 256 \<and> time_diff c < 2 ^ 64 \<and> node_id c < 2 ^ 64"

definition connack_body :: "nat \<Rightarrow> connack_result \<Rightarrow> byte list option" where
  \<comment> \<open>with an odd header flag the version byte is present, and version 4 adds the node id\<close>
  "connack_body flags c = oconcat
     [Some (if odd flags then [of_nat (server_version c)] else []),
      Some (be_bytes 8 (int (time_diff c))),
      Some [of_nat (reason_code c)],
      wire_string (server_key c),
      wire_string (salt c),
      Some (if odd flags \<and> 4 \<le> server_version c then be_bytes 8 (int (node_id c)) else [])]"

definition connack_seen :: "nat \<Rightarrow> connack_result \<Rightarrow> connack_result" where
  "connack_seen flags c =
     (let v = (if odd flags then server_version c else 0)
      in c\<lparr>server_version := v, node_id := (if 4 \<le> v then node_id c else 0)\<rparr>)"

lemma decodes_connack:
  assumes body: "connack_body flags c = Some bs" and ok: "connack_in_range c"
  shows "decodes (decode_connack (odd flags)) bs (connack_seen flags c)"
proof -
  let ?v = "if odd flags then server_version c else 0"
  obtain b1 b2 where
    w: "wire_string (server_key c) = Some b1" "wire_string (salt c) = Some b2"
    and bs: "bs = (if odd flags then [of_nat (server_version c)] else [])
        @ be_bytes 8 (int (time_diff c)) @ [of_nat (reason_code c)] @ b1 @ b2
        @ (if odd flags \<and> 4 \<le> server_version c then be_bytes 8 (int (node_id c)) else []) @ []"
    using body unfolding connack_body_def by (auto simp: oconcat_Cons_Some)
  have v: "decodes (if odd flags then read_byte else rret 0)
             (if odd flags then [of_nat (server_version c)] else []) ?v"
    using ok decodes_byte [of "server_version c"] by (auto simp: connack_in_range_def)
  have n: "decodes (if ?v \<ge> 4 then read_int64 else rret 0)
             (if odd flags \<and> 4 \<le> server_version c then be_bytes 8 (int (node_id c)) else [])
             (if 4 \<le> ?v then node_id c else 0)"
    using ok decodes_num(3) [of "node_id c"] by (auto simp: connack_in_range_def)
  have r: "decodes (rret \<lparr>reason_code = reason_code c, server_key = server_key c, salt = salt c,
             server_version = ?v, time_diff = time_diff c,
             node_id = (if 4 \<le> ?v then node_id c else 0)\<rparr>) [] (connack_seen flags c)"
    by (cases c) (auto simp: connack_seen_def Let_def intro: decodes_rret)
  have b: "decodes read_byte [of_nat (reason_code c)] (reason_code c)"
       "decodes read_int64 (be_bytes 8 (int (time_diff c))) (time_diff c)"
    using ok decodes_byte decodes_num(3) by (auto simp: connack_in_range_def)
  show ?thesis
    unfolding decode_connack_def bs
    by (intro decodes_rbind [OF v] decodes_rbind [OF b(2)] decodes_rbind [OF b(1)]
          decodes_rbind [OF decodes_wire_string [OF w(1)]]
          decodes_rbind [OF decodes_wire_string [OF w(2)]] decodes_rbind [OF n] r)
qed

lemma decodes_imp_all: "decodes p bs a \<Longrightarrow> decodes_all p bs a"
  by (fastforce simp: decodes_def decodes_all_def)

text \<open>
  A CONNACK packet is read back field by field; without the header flag the version and
  the node id are read as zero, and the node id is present from version 4 on.
\<close>

theorem decode_connack_packet:
  assumes "connack_body flags c = Some body" and "connack_in_range c"
    and "length body < 2 ^ 28" and "flags < 16"
  shows "decode_packet (packet_frame CONNACK flags body) = Inr (PConnack (connack_seen flags c))"
  unfolding decode_packet_frame [OF assms(4)]
  using run_decodes_all [OF decodes_all_header [OF assms(3)
          decodes_all_map [OF decodes_imp_all [OF decodes_connack [OF assms(1,2)]], of PConnack]]]
  by simp

definition sample_connack :: connack_result where
  "sample_connack = \<lparr>reason_code = 1, server_key = [97, 98], salt = [115], server_version = 4,
     time_diff = 3, node_id = 12\<rparr>"

theorem decode_connack_packet_witness:
  "\<exists>body. connack_body 1 sample_connack = Some body \<and>
     decode_packet (packet_frame CONNACK 1 body) = Inr (PConnack (connack_seen 1 sample_connack))"
proof -
  have "connack_in_range sample_connack" by (simp add: connack_in_range_def sample_connack_def)
  moreover have "\<exists>body. connack_body 1 sample_connack = Some body \<and> length body < 2 ^ 28"
    by (simp add: connack_body_def oconcat_def sample_connack_def wire_string_eval scalar_def
        utf8_cp_def be_bytes_numeral)
  ultimately obtain body where "connack_in_range sample_connack"
      "connack_body 1 sample_connack = Some body" "length body < 2 ^ 28"
    by blast
  moreover have "(1 :: nat) < 16" by simp
  ultimately show ?thesis
    using decode_connack_packet [of 1 sample_connack body] by blast
qed

section \<open>Acknowledgements\<close>

lemma read_be_bound: "read_be n d = Inr (v, d') \<Longrightarrow> v < 256 ^ n"
  using be_value_bound [of "take n (drop (d_offset d) (d_data d))"]
  by (auto simp: read_be_def split: if_splits)

lemma rbind_Inr:
  "rbind p f d = Inr r \<longleftrightarrow> (\<exists>a d'. p d = Inr (a, d') \<and> f a d' = Inr r)"
  by (auto simp: rbind_def split: sum.splits)

lemma decode_recv_ids:
  "decode_recv d = Inr (r, d') \<Longrightarrow>
     \<exists>mid. message_id r = dec_str mid \<and> mid < 2 ^ 64 \<and> message_seq r < 2 ^ 32"
  unfolding decode_recv_def Let_def
  by (auto simp: rbind_Inr rret_def read_int64_def read_int32_def dest!: read_be_bound)

lemma map_sum_fst_Inr: "map_sum id fst x = Inr a \<longleftrightarrow> (\<exists>b. x = Inr (a, b))"
  by (cases x) auto

lemma decode_packet_recv:
  "decode_packet bs = Inr (PRecv r) \<Longrightarrow> \<exists>d d'. decode_recv d = Inr (r, d')"
  by (auto simp: decode_packet_def Let_def map_sum_fst_Inr rbind_Inr rret_def
      split: list.splits if_splits)

text \<open>
  Every RECV packet that decodes can be acknowledged: \<open>encode_recvack_packet\<close> does not
  raise on its message id, and the acknowledgement carries exactly the 64-bit id and the
  32-bit sequence number that were received.
\<close>

theorem recvack_of_received:
  assumes "decode_packet bs = Inr (PRecv r)"
  shows "\<exists>mid. message_id r = dec_str mid \<and> mid < 2 ^ 64 \<and> message_seq r < 2 ^ 32 \<and>
     encode_recvack_packet (message_id r) (int (message_seq r)) =
       Inr (frame_of RECVACK (be_bytes 8 (int mid) @ be_bytes 4 (int (message_seq r))))"
proof -
  obtain d d' where "decode_recv d = Inr (r, d')" using decode_packet_recv [OF assms] by blast
  then obtain mid where "message_id r = dec_str mid" "mid < 2 ^ 64" "message_seq r < 2 ^ 32"
    using decode_recv_ids by blast
  then show ?thesis
    by (auto simp: encode_recvack_packet_def py_int_dec_str write_int64_def write_int32_def)
qed


theorem recvack_of_received_witness:
  "\<exists>body r mid. decode_packet (packet_frame RECV 0 body) = Inr (PRecv r) \<and>
     encode_recvack_packet (message_id r) (int (message_seq r)) =
       Inr (frame_of RECVACK (be_bytes 8 (int mid) @ be_bytes 4 (int (message_seq r))))"
proof -
  obtain body where b: "recv_body sample_recv = Some body" "length body < 2 ^ 28"
    using sample_recv_body by blast
  moreover have "recv_in_range sample_recv" by (simp add: recv_in_range_def sample_recv_def)
  ultimately have "decode_packet (packet_frame RECV 0 body) = Inr (PRecv (recv_of_fields sample_recv))"
    by (intro decode_recv_fields) simp_all
  from recvack_of_received [OF this] this show ?thesis by blast
qed

section \<open>The stream of frames\<close>

fun wire_packet :: "packet_type \<times> nat \<times> byte list \<Rightarrow> byte list" where
  \<comment> \<open>PING and PONG are a header byte alone\<close>
  "wire_packet (t, flags, body) =
     (if t = PING \<or> t = PONG then [of_nat (packet_code t * 16 + flags)]
      else packet_frame t flags body)"

lemma complete_wire_packet:
  assumes "flags < 16"
  shows "complete_frame (wire_packet (t, flags, body))"
proof (cases "t = PING \<or> t = PONG")
  case True
  then show ?thesis
    using packet_frame_header(1) [OF assms, of t]
    by (auto simp: complete_frame_def try_unpack_one_def)
next
  case False
  then have "packet_code t \<noteq> 7" "packet_code t \<noteq> 8" by (cases t; simp)+
  then show ?thesis
    using False packet_frame_header(1) [OF assms, of t]
      scan_length_encode [of "int (length body)" _ body]
    by (simp add: complete_frame_def try_unpack_one_def packet_frame_def Let_def)
qed

text \<open>
  C9. However the transport splits the byte stream into messages, the receive loop hands on
  exactly the packets that were sent, whole and in order, and its buffer ends empty.
\<close>

theorem receive_chunks_frames:
  assumes "\<forall>(t, flags, body) \<in> set ps. flags < 16"
    and "concat chunks = concat (map wire_packet ps)"
  shows "receive_chunks [] chunks = (map wire_packet ps, [])"
proof -
  have "\<forall>f \<in> set (map wire_packet ps). complete_frame f"
    using assms(1) complete_wire_packet by auto
  then have "drain_frames (concat chunks) = (map wire_packet ps, [])"
    unfolding assms(2) by (intro yields_drain yields_frames)
  then show ?thesis by (simp add: receive_chunks_drain drain_frames.simps)
qed

theorem receive_chunks_frames_witness:
  "receive_chunks [] [[0x52, 2], [], [1, 2, 0x80, 0x90], [0]] =
     ([[0x52, 2, 1, 2], [0x80], [0x90, 0]], [])"
proof -
  have eq: "map wire_packet [(RECV, 2, [1, 2]), (PONG, 0, []), (DISCONNECT, 0, [])] =
      [[0x52, 2, 1, 2], [0x80], [0x90, 0]]"
    by (simp add: packet_frame_def encode_variable_length_def varlen_loop_last)
  show ?thesis
    unfolding eq [symmetric]
    by (rule receive_chunks_frames) (simp_all only: eq, simp_all)
qed

text \<open>
  For arbitrary bytes, malformed ones included, no byte is lost or duplicated between the
  frames and the buffer, and the result depends only on the bytes and not on the messages
  they came in.
\<close>

theorem receive_chunks_bytes:
  assumes "receive_chunks [] chunks = (fs, rest)"
  shows "concat chunks = concat fs @ rest \<and> drain_frames rest = ([], rest) \<and>
         (\<forall>chunks'. concat chunks' = concat chunks \<longrightarrow> receive_chunks [] chunks' = (fs, rest))"
proof -
  have e: "drain_frames [] = ([], [])" by (simp add: drain_frames.simps)
  have d: "drain_frames (concat chunks) = (fs, rest)"
    using assms receive_chunks_drain [OF e, of chunks] by simp
  then have "concat chunks = concat fs @ rest" by (intro wk.yields_bytes drain_frames_yields)
  then show ?thesis
    using d drain_idle [OF d] receive_chunks_drain [OF e] by simp
qed

theorem receive_chunks_bytes_witness:
  "receive_chunks [] [[0x52, 2], [1, 2, 0x51]] = ([[0x52, 2, 1, 2]], [0x51]) \<and>
   receive_chunks [] [[0x52, 2, 1], [2], [0x51]] = ([[0x52, 2, 1, 2]], [0x51])"
proof -
  have "receive_chunks [] [[0x52, 2], [1, 2, 0x51]] = ([[0x52, 2, 1, 2]], [0x51])"
    by (simp add: drain_frames.simps try_unpack_one_def scan_length.simps Let_def drop_bit_eq_div)
  from receive_chunks_bytes [OF this] this show ?thesis
    by (metis append_Cons append_Nil concat.simps)
qed

section \<open>Variable lengths\<close>

text \<open>
  The two readers of a variable length agree with its encoder and with each other on every
  length below 2^28: the frame scanner finds its end and value, and the packet decoder
  consumes exactly its bytes.
\<close>

theorem variable_length_roundtrip:
  assumes "0 \<le> n" and "n < 2 ^ 28"
  shows "scan_length (header # encode_variable_length n @ body) 1 0 1 =
           Some (1 + length (encode_variable_length n), nat n) \<and>
         read_variable_length
           \<lparr>d_data = header # encode_variable_length n @ body, d_offset = 1\<rparr> =
         Inr (nat n, \<lparr>d_data = header # encode_variable_length n @ body,
                      d_offset = 1 + length (encode_variable_length n)\<rparr>)"
  using decodes_variable_length [OF assms] scan_length_encode [OF assms(1)]
  unfolding decodes_def by (auto simp: ahead_def)

theorem variable_length_roundtrip_witness:
  "scan_length (0 # encode_variable_length 321 @ [7]) 1 0 1 = Some (3, 321) \<and>
   read_variable_length \<lparr>d_data = 0 # encode_variable_length 321 @ [7], d_offset = 1\<rparr> =
     Inr (321, \<lparr>d_data = 0 # encode_variable_length 321 @ [7], d_offset = 3\<rparr>)"
proof -
  have l: "length (encode_variable_length 321) = 2"
    by (simp add: encode_variable_length_def varlen_loop_more varlen_loop_last)
  show ?thesis using variable_length_roundtrip [of 321 0 "[7]"] by (simp add: l)
qed

text \<open>
  On longer encodings the readers differ: the scanner has no limit, the decoder stops after
  four bytes, so that a five-byte length leaves its last byte in the packet body.
\<close>

lemma five_byte_length_misread:
  "try_unpack_one [0x90, 0x80, 0x80, 0x80, 0x80, 0, 7, 0, 0] =
     (Some [0x90, 0x80, 0x80, 0x80, 0x80, 0], [7, 0, 0]) \<and>
   decode_packet [0x90, 0x80, 0x80, 0x80, 0x80, 0, 0, 0] = Inr (PDisconnect 0 [])"
  by (simp add: try_unpack_one_def scan_length.simps Let_def drop_bit_eq_div decode_packet_def
      rbind_def rret_def read_byte_def read_variable_length_def read_varlen_loop.simps
      decode_disconnect_def read_string_def read_int16_def read_be_def be_value_def)

end
