(* ===== verification/OctoTypes.thy ===== *)
theory OctoTypes
  imports Prelude
begin

text \<open>
  Models \<open>types.py\<close>: channel and message types, the Type-17 card profile choice, rich-text
  blocks, and \<open>MessagePayload.from_dict\<close>, the parser every decrypted message goes through.
  A decoded JSON object is an association list. The lemmas show that the parser never yields
  a malformed mention entity, bounds the number of entities, and never renames an unknown
  message type to text.
\<close>

section \<open>Channel and message types\<close>

datatype channel_type = DM | Group | CommunityTopic

fun int_of_channel :: "channel_type \<Rightarrow> int" where
  "int_of_channel DM = 1"
| "int_of_channel Group = 2"
| "int_of_channel CommunityTopic = 5"

definition channel_of_int :: "int \<Rightarrow> channel_type option" where
  \<comment> \<open>\<open>ChannelType(value)\<close>, \<open>None\<close> for its ValueError\<close>
  "channel_of_int i =
     (if i = 1 then Some DM else if i = 2 then Some Group
      else if i = 5 then Some CommunityTopic else None)"

lemma channel_of_int_of_channel [simp]: "channel_of_int (int_of_channel c) = Some c"
  by (cases c) (simp_all add: channel_of_int_def)

lemma channel_of_int_Some [simp]: "channel_of_int i = Some c \<longleftrightarrow> i = int_of_channel c"
  by (cases c) (auto simp: channel_of_int_def)

datatype message_type =
    MText | MImage | MGIF | MVoice | MVideo | MLocation | MCard | MFile
  | MMultipleForward | MRichText | MInteractiveCard

definition message_codes :: "(message_type \<times> int) list" where
  "message_codes =
     [(MText, 1), (MImage, 2), (MGIF, 3), (MVoice, 4), (MVideo, 5), (MLocation, 6),
      (MCard, 7), (MFile, 8), (MMultipleForward, 11), (MRichText, 14), (MInteractiveCard, 17)]"

datatype message_kind = Known message_type | UnknownType int

section \<open>Card profiles\<close>

definition CARD_PROFILE_V1 :: string where "CARD_PROFILE_V1 = ''octo/v1''"
definition CARD_PROFILE_V2 :: string where "CARD_PROFILE_V2 = ''octo/v2''"
definition CARD_PROFILES :: "string list" where
  "CARD_PROFILES = [CARD_PROFILE_V1, CARD_PROFILE_V2]"

fun interactive_type :: "json \<Rightarrow> bool" where
  \<comment> \<open>the node type test of \<open>card_contains_interaction\<close>\<close>
  "interactive_type (JStr t) = (starts_with t ''Input.'' \<or> t = ''Action.Submit'')"
| "interactive_type _ = False"

text \<open>
  The source threads a set of visited object identities for cyclic Python values. A JSON
  document is a tree, where that set never changes the answer.
\<close>

fun card_contains_interaction :: "json \<Rightarrow> bool" where
  "card_contains_interaction (JObj kvs) =
     (interactive_type (jget kvs ''type'') \<or>
      list_ex (\<lambda>kv. card_contains_interaction (snd kv)) kvs)"
| "card_contains_interaction (JArr xs) = list_ex card_contains_interaction xs"
| "card_contains_interaction _ = False"

definition resolve_card_profile :: "json \<Rightarrow> string option \<Rightarrow> string option" where
  \<comment> \<open>\<open>None\<close> is the ValueError for an unsupported profile\<close>
  "resolve_card_profile node requested =
     (if (case requested of None \<Rightarrow> False | Some r \<Rightarrow> r \<notin> set CARD_PROFILES) then None
      else if card_contains_interaction node then Some CARD_PROFILE_V2
      else Some (case requested of
                   None \<Rightarrow> CARD_PROFILE_V1
                 | Some r \<Rightarrow> if r = [] then CARD_PROFILE_V1 else r))"

section \<open>Rich-text blocks\<close>

record rich_text_block =
  rt_type :: string
  rt_text :: "string option"
  rt_url :: "string option"
  rt_width :: "int option"
  rt_height :: "int option"
  rt_size :: "int option"
  rt_name :: "string option"

definition opt_item :: "string \<Rightarrow> ('a \<Rightarrow> json) \<Rightarrow> 'a option \<Rightarrow> (string \<times> json) list" where
  "opt_item k f v = (case v of None \<Rightarrow> [] | Some x \<Rightarrow> [(k, f x)])"

definition rich_text_to_dict :: "rich_text_block \<Rightarrow> (string \<times> json) list" where
  "rich_text_to_dict b =
     [(''type'', JStr (rt_type b))]
     @ opt_item ''text'' JStr (rt_text b)
     @ opt_item ''url'' JStr (rt_url b)
     @ opt_item ''width'' JInt (rt_width b)
     @ opt_item ''height'' JInt (rt_height b)
     @ opt_item ''size'' JInt (rt_size b)
     @ opt_item ''name'' JStr (rt_name b)"

section \<open>Message payloads\<close>

definition MAX_MENTIONS_PER_MESSAGE :: nat where "MAX_MENTIONS_PER_MESSAGE = 64"

record mention_entity =
  me_uid :: string
  me_offset :: int
  me_length :: int

record mention_payload =
  mp_uids :: "string list option"
  mp_entities :: "mention_entity list option"
  mp_all :: "bool option"
  mp_humans :: "bool option"
  mp_ais :: "bool option"

fun coerce_wire_bool :: "json \<Rightarrow> bool option" where
  "coerce_wire_bool (JBool b) = Some b"
| "coerce_wire_bool (JInt i) = (if i = 0 then Some False else if i = 1 then Some True else None)"
| "coerce_wire_bool _ = None"

record reply_payload =
  rp_payload :: "(string \<times> json) list option"
  rp_from_uid :: "string option"
  rp_from_name :: "string option"

record message_payload =
  msg_type :: message_kind
  msg_content :: "string option"
  msg_url :: "string option"
  msg_name :: "string option"
  msg_mention :: "mention_payload option"
  msg_reply :: "reply_payload option"
  msg_event :: "(string \<times> json) list option"
  msg_blocks :: "(string \<times> json) list list option"
  msg_plain :: "string option"
  msg_extra :: "(string \<times> json) list"

fun as_str :: "json \<Rightarrow> string option" where
  "as_str (JStr s) = Some s"
| "as_str _ = None"

fun as_obj :: "json \<Rightarrow> (string \<times> json) list option" where
  "as_obj (JObj kvs) = Some kvs"
| "as_obj _ = None"

fun parse_entity :: "json \<Rightarrow> mention_entity option" where
  "parse_entity (JObj e) =
     (case (jget e ''uid'', jget e ''offset'', jget e ''length'') of
        (JStr uid, JInt off, JInt len) \<Rightarrow>
          if uid = [] \<or> off < 0 \<or> len \<le> 0 then None
          else Some \<lparr>me_uid = uid, me_offset = off, me_length = len\<rparr>
      | _ \<Rightarrow> None)"
| "parse_entity _ = None"

definition or_none :: "'a list \<Rightarrow> 'a list option" where
  "or_none xs = (if xs = [] then None else Some xs)"

fun parse_entities :: "json \<Rightarrow> mention_entity list option" where
  "parse_entities (JArr es) =
     or_none (List.map_filter parse_entity (take MAX_MENTIONS_PER_MESSAGE es))"
| "parse_entities _ = None"

fun parse_uids :: "json \<Rightarrow> string list option" where
  "parse_uids (JArr us) =
     or_none (filter (\<lambda>u. u \<noteq> []) (List.map_filter as_str us))"
| "parse_uids _ = None"

fun parse_mention :: "json \<Rightarrow> mention_payload option" where
  "parse_mention (JObj m) =
     (if m = [] then None
      else Some \<lparr>mp_uids = parse_uids (jget m ''uids''),
                 mp_entities = parse_entities (jget m ''entities''),
                 mp_all = coerce_wire_bool (jget m ''all''),
                 mp_humans = coerce_wire_bool (jget m ''humans''),
                 mp_ais = coerce_wire_bool (jget m ''ais'')\<rparr>)"
| "parse_mention _ = None"

fun parse_reply :: "json \<Rightarrow> reply_payload option" where
  "parse_reply (JObj r) =
     (if r = [] then None
      else Some \<lparr>rp_payload = as_obj (jget r ''payload''),
                 rp_from_uid = as_str (jget r ''from_uid''),
                 rp_from_name = as_str (jget r ''from_name'')\<rparr>)"
| "parse_reply _ = None"

definition parse_type :: "json \<Rightarrow> message_kind" where
  \<comment> \<open>\<open>MessageType(raw)\<close> accepts every value equal to a member, so \<open>True\<close> and \<open>1.0\<close> are Text\<close>
  "parse_type raw =
     (case find (\<lambda>(_, code). json_eq_int raw code) message_codes of
        Some (t, _) \<Rightarrow> Known t
      | None \<Rightarrow> (case raw of JInt i \<Rightarrow> UnknownType i | _ \<Rightarrow> UnknownType (-1)))"

definition payload_known_keys :: "string list" where
  "payload_known_keys =
     [''type'', ''content'', ''url'', ''name'', ''mention'', ''reply'', ''event'', ''plain'']"

definition message_from_dict :: "(string \<times> json) list \<Rightarrow> message_payload" where
  "message_from_dict data =
     (let raw_content = jget data ''content'' in
      \<lparr>msg_type = parse_type (case map_of data ''type'' of None \<Rightarrow> JInt 1 | Some v \<Rightarrow> v),
       msg_content = as_str raw_content,
       msg_url = as_str (jget data ''url''),
       msg_name = as_str (jget data ''name''),
       msg_mention = parse_mention (jget data ''mention''),
       msg_reply = parse_reply (jget data ''reply''),
       msg_event = as_obj (jget data ''event''),
       msg_blocks = (case raw_content of JArr bs \<Rightarrow> Some (List.map_filter as_obj bs) | _ \<Rightarrow> None),
       msg_plain = as_str (jget data ''plain''),
       msg_extra = filter (\<lambda>(k, _). k \<notin> set payload_known_keys) data\<rparr>)"

section \<open>What the parser guarantees\<close>

definition valid_entity :: "mention_entity \<Rightarrow> bool" where
  "valid_entity e \<longleftrightarrow> me_uid e \<noteq> [] \<and> 0 \<le> me_offset e \<and> 0 < me_length e"

lemma parse_entity_valid: "parse_entity j = Some e \<Longrightarrow> valid_entity e"
  by (cases j) (auto simp: valid_entity_def split: json.splits if_splits)

lemma map_filter_take_length: "length (List.map_filter f (take n xs)) \<le> n"
proof -
  have "length (List.map_filter f ys) \<le> length ys" for ys
    by (induction ys) (auto simp: List.map_filter_simps split: option.splits)
  from this [of "take n xs"] show ?thesis by simp
qed

lemma set_map_filter: "x \<in> set (List.map_filter f xs) \<longleftrightarrow> (\<exists>y \<in> set xs. f y = Some x)"
  by (force simp: List.map_filter_def)

lemma parse_entities_valid:
  "parse_entities j = Some es \<Longrightarrow>
     es \<noteq> [] \<and> length es \<le> MAX_MENTIONS_PER_MESSAGE \<and> (\<forall>e \<in> set es. valid_entity e)"
  by (cases j)
     (auto simp: or_none_def set_map_filter map_filter_take_length split: if_splits
           dest: parse_entity_valid)

lemma parse_uids_valid: "parse_uids j = Some us \<Longrightarrow> us \<noteq> [] \<and> [] \<notin> set us"
  by (cases j) (auto simp: or_none_def split: if_splits)

text \<open>The well-formedness invariant of a parsed payload.\<close>

definition wf_mention :: "mention_payload \<Rightarrow> bool" where
  "wf_mention m \<longleftrightarrow>
     (case mp_entities m of None \<Rightarrow> True
      | Some es \<Rightarrow> es \<noteq> [] \<and> length es \<le> 64 \<and> (\<forall>e \<in> set es. valid_entity e)) \<and>
     (case mp_uids m of None \<Rightarrow> True | Some us \<Rightarrow> us \<noteq> [] \<and> [] \<notin> set us)"

lemma parse_mention_wf: "parse_mention j = Some m \<Longrightarrow> wf_mention m"
  by (cases j)
     (auto simp: wf_mention_def MAX_MENTIONS_PER_MESSAGE_def split: if_splits option.splits
           dest!: parse_entities_valid parse_uids_valid)

text \<open>
  C13. Whatever JSON object arrives, the parsed payload is well formed: it never carries more
  than 64 mention entities, every entity names a user and a non-empty span at a non-negative
  offset. The code of an integer message type is read by the table of the protocol, any other integer
  is kept as it is (an unknown type is never shown as text), a missing type is text and a string is
  no type. The content is the text of the payload, and nothing else ever appears as text.
\<close>

theorem parsed_message_wf:
  "(case msg_mention (message_from_dict data) of None \<Rightarrow> True | Some m \<Rightarrow> wf_mention m) \<and>
   (map_of data ''type'' = Some (JInt i) \<longrightarrow>
      msg_type (message_from_dict data) =
        (case map_of [(1, MText), (2, MImage), (3, MGIF), (4, MVoice), (5, MVideo), (6, MLocation), (7, MCard),
                      (8, MFile), (11, MMultipleForward), (14, MRichText), (17, MInteractiveCard)] i of
           Some t \<Rightarrow> Known t | None \<Rightarrow> UnknownType i)) \<and>
   (map_of data ''type'' = None \<longrightarrow> msg_type (message_from_dict data) = Known MText) \<and>
   (map_of data ''type'' = Some (JStr x) \<longrightarrow> msg_type (message_from_dict data) = UnknownType (-1)) \<and>
   (msg_content (message_from_dict data) = Some s \<longleftrightarrow> jget data ''content'' = JStr s)"
proof (intro conjI impI)
  show "case msg_mention (message_from_dict data) of None \<Rightarrow> True | Some m \<Rightarrow> wf_mention m"
    by (auto simp: message_from_dict_def Let_def split: option.splits intro: parse_mention_wf)
  show "msg_content (message_from_dict data) = Some s \<longleftrightarrow> jget data ''content'' = JStr s"
    by (cases "jget data ''content''") (auto simp: message_from_dict_def)
next
  assume "map_of data ''type'' = Some (JInt i)"
  then show "msg_type (message_from_dict data) =
      (case map_of [(1, MText), (2, MImage), (3, MGIF), (4, MVoice), (5, MVideo), (6, MLocation), (7, MCard),
                    (8, MFile), (11, MMultipleForward), (14, MRichText), (17, MInteractiveCard)] i of
         Some t \<Rightarrow> Known t | None \<Rightarrow> UnknownType i)"
    by (simp add: message_from_dict_def Let_def parse_type_def message_codes_def)
qed (simp_all add: message_from_dict_def parse_type_def message_codes_def Let_def)

theorem parsed_message_wf_witness:
  "msg_type (message_from_dict [(''type'', JInt 3), (''content'', JStr ''x'')]) = Known MGIF \<and>
   msg_type (message_from_dict [(''type'', JInt 99)]) = UnknownType 99 \<and>
   msg_type (message_from_dict []) = Known MText \<and>
   msg_type (message_from_dict [(''type'', JStr ''1'')]) = UnknownType (-1)"
  using parsed_message_wf [of "[(''type'', JInt 3), (''content'', JStr ''x'')]" 3 "''1''" "''x''"]
    parsed_message_wf [of "[(''type'', JInt 99)]" 99 "''1''" "''x''"]
    parsed_message_wf [of "[]" 1 "''1''" "''x''"]
    parsed_message_wf [of "[(''type'', JStr ''1'')]" 1 "''1''" "''x''"] by simp

end
