(* ===== verification/Permission.thy ===== *)
theory Permission
  imports OctoTypes
begin

text \<open>
  Models \<open>permission.py\<close>: who may query the messages of a channel, and how a target string
  names a channel. The member lookup is a call to the server and stays a parameter; a lookup
  that raises is an \<open>Inl\<close>. The theorems state the access rules in full, in particular that a
  failed lookup never grants access.
\<close>

section \<open>Access checks\<close>

record permission_result =
  allowed :: bool
  reason :: "string option"

record group_member =
  gm_uid :: string
  gm_name :: string

type_synonym 'e members_fetcher = "string \<Rightarrow> 'e + group_member list"

definition permit :: permission_result where
  "permit = \<lparr>allowed = True, reason = None\<rparr>"

definition deny :: "string \<Rightarrow> permission_result" where
  "deny r = \<lparr>allowed = False, reason = Some r\<rparr>"

definition check_group_membership ::
  "string \<Rightarrow> string \<Rightarrow> 'e members_fetcher \<Rightarrow> string \<Rightarrow> permission_result" where
  "check_group_membership requester_uid group_no fetch denied_reason =
     (case fetch group_no of
        Inl e \<Rightarrow> deny ''Group member lookup failed''
      | Inr members \<Rightarrow>
          (let member_uids = filter (\<lambda>u. u \<noteq> []) (map gm_uid members)
           in if requester_uid \<notin> set member_uids then deny denied_reason else permit))"

definition THREAD_SEP :: string where "THREAD_SEP = ''____''"

definition check_permission ::
  "string option \<Rightarrow> string \<Rightarrow> int \<Rightarrow> string option \<Rightarrow> 'e members_fetcher \<Rightarrow> permission_result" where
  "check_permission requester_uid channel_id channel_type owner_uid fetch =
     (case requester_uid of
        None \<Rightarrow> deny ''Unable to identify requester''
      | Some requester \<Rightarrow>
          if requester = [] then deny ''Unable to identify requester''
          else if channel_type = int_of_channel DM then
            (if (case owner_uid of None \<Rightarrow> False | Some ow \<Rightarrow> ow \<noteq> [] \<and> requester = ow) then permit
             else if channel_id \<noteq> requester
             then deny ''Not allowed to query another user's DM with the bot''
             else permit)
          else if channel_type = int_of_channel Group then
            check_group_membership requester channel_id fetch
              ''You are not in this group; access denied''
          else if channel_type = int_of_channel CommunityTopic then
            (let group_no = before THREAD_SEP channel_id in
             if group_no = [] then deny ''Invalid thread channel ID''
             else check_group_membership requester group_no fetch
                    ''You are not in this group; thread access denied'')
          else deny (''Unsupported channel type: '' @ int_str channel_type))"

section \<open>Targets\<close>

definition parse_target :: "string \<Rightarrow> string list option \<Rightarrow> string \<times> channel_type" where
  "parse_target target known_group_ids =
     (let group_or_topic = (\<lambda>cid. (cid, if contains cid THREAD_SEP then CommunityTopic else Group)) in
      if starts_with target ''group:'' then group_or_topic (drop 6 target)
      else if starts_with target ''channel:'' then group_or_topic (drop 8 target)
      else if starts_with target ''user:'' then (drop 5 target, DM)
      else
        (let bare = (if starts_with target ''octo:'' then drop 5 target else target) in
         if contains bare THREAD_SEP then (bare, CommunityTopic)
         else (bare, if (case known_group_ids of None \<Rightarrow> False | Some g \<Rightarrow> bare \<in> set g)
                     then Group else DM)))"

section \<open>The rules\<close>

lemma allowed_simps [simp]: "allowed permit" "\<not> allowed (deny r)"
  by (simp_all add: permit_def deny_def)

lemma check_group_membership_allowed:
  "allowed (check_group_membership r g fetch d) \<longleftrightarrow>
     r \<noteq> [] \<and> (\<exists>members. fetch g = Inr members \<and> r \<in> gm_uid ` set members)"
  by (auto simp: check_group_membership_def Let_def split: sum.splits)

text \<open>
  C12. The access rule in full: a query is allowed exactly when the requester is known and
  either the channel is the requester's own direct channel, or it is any direct channel and
  the requester is the bot's owner, or the server, asked now, lists the requester as a member
  of the group (for a thread: of the group named before the separator). Owning the bot gives
  no access to groups, and a lookup that fails gives no access to anyone.
\<close>

theorem check_permission_rule:
  "allowed (check_permission requester channel_id channel_type owner fetch) \<longleftrightarrow>
     (\<exists>r. requester = Some r \<and> r \<noteq> [] \<and>
        (channel_type = 1 \<and> (owner = Some r \<or> channel_id = r) \<or>
         channel_type = 2 \<and> (\<exists>ms. fetch channel_id = Inr ms \<and> r \<in> gm_uid ` set ms) \<or>
         channel_type = 5 \<and> before ''____'' channel_id \<noteq> [] \<and>
           (\<exists>ms. fetch (before ''____'' channel_id) = Inr ms \<and> r \<in> gm_uid ` set ms)))"
  by (auto simp: check_permission_def check_group_membership_allowed THREAD_SEP_def Let_def
      split: option.splits)

lemma starts_with_prefixes [py_simps]:
  "starts_with (''group:'' @ s) ''user:'' = False"
  "starts_with (''user:'' @ s) ''group:'' = False"
  "starts_with (''user:'' @ s) ''channel:'' = False"
  "starts_with (''channel:'' @ s) ''group:'' = False"
  by simp_all

text \<open>
  Explicit prefixes decide the channel type whatever the known groups are: a \<open>user:\<close> target
  is always a direct channel, a \<open>group:\<close> or \<open>channel:\<close> target never is, and a thread id is
  always a community topic unless it was addressed as a user. Together with the access rule:
  a target that is not addressed as a user and names a thread is never readable without
  membership in its parent group.
\<close>

theorem parse_target_prefixes:
  "parse_target (''user:'' @ s) known = (s, DM) \<and>
   (contains s ''____'' \<longrightarrow>
      parse_target (''group:'' @ s) known = (s, CommunityTopic) \<and>
      parse_target (''channel:'' @ s) known = (s, CommunityTopic) \<and>
      parse_target (''octo:'' @ s) known = (s, CommunityTopic)) \<and>
   (\<not> contains s ''____'' \<longrightarrow>
      parse_target (''group:'' @ s) known = (s, Group) \<and>
      parse_target (''channel:'' @ s) known = (s, Group))"
  by (simp add: parse_target_def THREAD_SEP_def Let_def)

theorem parse_target_prefixes_witness:
  "parse_target ''user:a____b'' None = (''a____b'', DM) \<and>
   parse_target ''group:a____b'' None = (''a____b'', CommunityTopic)"
  using parse_target_prefixes [of "''a____b''" None] by simp

end
