(* ===== verification/Durable.thy ===== *)
theory Durable
  imports Prelude
begin

text \<open>
  Durable documents (\<open>_checksum\<close>, \<open>write_state_document\<close> and \<open>read_state_document\<close> of
  \<open>identity.py\<close>), which every persistent part of the plugin goes through. A document is
  written to a temporary file, synchronised and renamed over the target; it is read back only
  when its schema version and its checksum match.

  SHA-256 over the canonical text is a parameter \<open>cs\<close>. The canonical text sorts the keys of
  every object, so it is a function of \<open>canon body\<close>; what the parser returns after a write is
  the canonical form of what was written. The theorems show that a write interrupted at any
  step leaves the old document or the new one, and that what was written is read back.
\<close>

section \<open>Canonical documents\<close>

fun canon :: "json \<Rightarrow> json" where
  \<comment> \<open>\<open>json.loads(json.dumps(v, sort_keys=True))\<close>\<close>
  "canon (JArr xs) = JArr (map canon xs)"
| "canon (JObj kvs) = JObj (sort_key fst (map (\<lambda>kv. (fst kv, canon (snd kv))) kvs))"
| "canon v = v"

lemma sort_key_map_fst:
  "sort_key fst (map (\<lambda>kv. (fst kv, f (snd kv))) xs) =
   map (\<lambda>kv. (fst kv, f (snd kv))) (sort_key fst xs)"
proof -
  have ins: "insort_key fst (fst a, f (snd a)) (map (\<lambda>kv. (fst kv, f (snd kv))) ys) =
        map (\<lambda>kv. (fst kv, f (snd kv))) (insort_key fst a ys)" for a and ys :: "('a \<times> 'c) list"
    by (induction ys) auto
  show ?thesis by (induction xs) (auto simp: ins)
qed

lemma canon_idem [simp]: "canon (canon v) = canon v"
proof (induction v rule: canon.induct)
  case (1 xs)
  then show ?case by (auto simp: map_idI)
next
  case (2 kvs)
  have "map (\<lambda>kv. (fst kv, canon (snd kv))) (map (\<lambda>kv. (fst kv, canon (snd kv))) kvs)
        = map (\<lambda>kv. (fst kv, canon (snd kv))) kvs"
    using 2 by auto
  then show ?case
    by (simp only: canon.simps sort_key_map_fst [symmetric] sort_key_id_if_sorted
        sorted_sort_key)
qed auto

lemma map_of_insort_key:
  "distinct (map fst (x # xs)) \<Longrightarrow> map_of (insort_key fst x xs) = map_of (x # xs)"
proof (induction xs)
  case (Cons y ys)
  then show ?case by (cases x, cases y) (auto simp: fun_eq_iff)
qed simp

lemma map_of_sort_key: "distinct (map fst xs) \<Longrightarrow> map_of (sort_key fst xs) = map_of xs"
proof (induction xs)
  case (Cons x xs)
  have "distinct (map fst (x # sort_key fst xs))"
    using Cons.prems by (simp add: distinct_map)
  then show ?case using Cons map_of_insort_key [of x "sort_key fst xs"] by (cases x) auto
qed simp

fun obj_of :: "json \<Rightarrow> (string \<times> json) list" where
  "obj_of (JObj kvs) = kvs"
| "obj_of _ = []"

lemma map_of_canon:
  assumes "canon (JObj kvs) = JObj kvs'" "wf_dict kvs"
  shows "map_of kvs' k = map_option canon (map_of kvs k)"
proof -
  have "map fst (map (\<lambda>kv. (fst kv, canon (snd kv))) kvs) = map fst kvs" by (simp add: comp_def)
  with assms have "wf_dict (map (\<lambda>kv. (fst kv, canon (snd kv))) kvs)" by argo
  then have "map_of (sort_key fst (map (\<lambda>kv. (fst kv, canon (snd kv))) kvs)) k =
      map_of (map (\<lambda>kv. (fst kv, canon (snd kv))) kvs) k"
    by (simp only: map_of_sort_key)
  also have "\<dots> = map_option canon (map_of kvs k)" by (induction kvs) simp_all
  finally show ?thesis using assms(1) by simp
qed

lemma jget_canon_obj:
  "canon (JObj kvs) = JObj kvs' \<Longrightarrow> wf_dict kvs \<Longrightarrow> jget kvs' k = canon (jget kvs k)"
  using map_of_canon [of kvs kvs' k] by (cases "map_of kvs k") (simp_all add: jget_def)

section \<open>Writing\<close>

type_synonym checksum_fn = "json \<Rightarrow> string"

definition STATE_SCHEMA_VERSION :: int where "STATE_SCHEMA_VERSION = 1"

datatype io_error = OSErr | UnicodeDecodeErr

datatype sfile =
    FMissing
  | FUnreadable     \<comment> \<open>opening or reading raises OSError\<close>
  | FBadText        \<comment> \<open>not UTF-8\<close>
  | FGarbage        \<comment> \<open>text that is not JSON\<close>
  | FDoc json

definition state_document :: "checksum_fn \<Rightarrow> json \<Rightarrow> json" where
  "state_document cs body =
     canon (JObj [(''schema'', JInt STATE_SCHEMA_VERSION),
                  (''checksum'', JStr (cs (canon body))),
                  (''body'', body)])"

record dir_state =
  f_target :: sfile
  f_temp :: "sfile option"

text \<open>The steps of \<open>write_state_document\<close>, and where they may stop.\<close>

datatype fault = NoFault | RaiseAt nat | CrashAt nat

definition write_steps :: "json \<Rightarrow> (dir_state \<Rightarrow> dir_state) list" where
  "write_steps document =
     [\<lambda>d. d,                                              \<comment> \<open>\<open>mkdir\<close>\<close>
      \<lambda>d. d\<lparr>f_temp := Some FGarbage\<rparr>,                      \<comment> \<open>\<open>mkstemp\<close>: an empty file\<close>
      \<lambda>d. d\<lparr>f_temp := Some (FDoc document)\<rparr>,               \<comment> \<open>\<open>json.dump\<close>\<close>
      \<lambda>d. d,                                              \<comment> \<open>\<open>flush\<close> and \<open>fsync\<close>\<close>
      \<lambda>d. d\<lparr>f_target := the (f_temp d), f_temp := None\<rparr>]"   \<comment> \<open>\<open>os.replace\<close>\<close>

definition run_steps :: "('s \<Rightarrow> 's) list \<Rightarrow> 's \<Rightarrow> 's" where
  "run_steps fs s = fold (\<lambda>f. f) fs s"

definition write_state_document ::
  "checksum_fn \<Rightarrow> fault \<Rightarrow> json \<Rightarrow> sfile \<Rightarrow> (io_error + unit) option \<times> dir_state" where
  \<comment> \<open>a raise removes the temporary file; a crash of the process removes nothing\<close>
  "write_state_document cs fault body f =
     (let steps = write_steps (state_document cs body);
          d = \<lparr>f_target = f, f_temp = None\<rparr> in
      case fault of
        NoFault \<Rightarrow> (Some (Inr ()), run_steps steps d)
      | RaiseAt n \<Rightarrow>
          if n < length steps
          then (Some (Inl OSErr), (run_steps (take n steps) d)\<lparr>f_temp := None\<rparr>)
          else (Some (Inr ()), run_steps steps d)
      | CrashAt n \<Rightarrow> (None, run_steps (take n steps) d))"

definition write_document :: "checksum_fn \<Rightarrow> bool \<Rightarrow> json \<Rightarrow> sfile \<Rightarrow> (io_error + unit) \<times> sfile" where
  \<comment> \<open>what a caller sees of a write that returns or raises\<close>
  "write_document cs ok body f =
     (if ok then (Inr (), FDoc (state_document cs body)) else (Inl OSErr, f))"

section \<open>Reading\<close>

datatype read_status = READ_OK | READ_MISSING | READ_CORRUPT | READ_UNSUPPORTED

definition read_state_document :: "checksum_fn \<Rightarrow> sfile \<Rightarrow> io_error + read_status \<times> json" where
  \<comment> \<open>a UnicodeDecodeError is not an OSError and escapes\<close>
  "read_state_document cs f =
     (case f of
        FMissing \<Rightarrow> Inr (READ_MISSING, JNull)
      | FUnreadable \<Rightarrow> Inr (READ_CORRUPT, JNull)
      | FBadText \<Rightarrow> Inl UnicodeDecodeErr
      | FGarbage \<Rightarrow> Inr (READ_CORRUPT, JNull)
      | FDoc (JObj document) \<Rightarrow>
          (let body = jget document ''body'' in
           if \<not> json_eq_int (jget document ''schema'') STATE_SCHEMA_VERSION
           then Inr (READ_UNSUPPORTED, JNull)
           else if jget document ''checksum'' \<noteq> JStr (cs (canon body))
           then Inr (READ_CORRUPT, JNull)
           else Inr (READ_OK, body))
      | FDoc _ \<Rightarrow> Inr (READ_CORRUPT, JNull))"

section \<open>What survives\<close>

lemma read_written:
  "read_state_document cs (FDoc (state_document cs body)) = Inr (READ_OK, canon body)"
proof -
  let ?d = "[(''schema'', JInt STATE_SCHEMA_VERSION),
             (''checksum'', JStr (cs (canon body))), (''body'', body)]"
  obtain kvs where kvs: "canon (JObj ?d) = JObj kvs" by simp
  have "wf_dict ?d" by simp
  with kvs have g: "jget kvs k = canon (jget ?d k)" for k
    by (rule jget_canon_obj)
  show ?thesis
    unfolding state_document_def read_state_document_def kvs
    by (simp add: g Let_def STATE_SCHEMA_VERSION_def)
qed

lemma run_steps_snoc [simp]: "run_steps (fs @ [f]) s = f (run_steps fs s)"
  by (simp add: run_steps_def)

lemma run_write_steps:
  "run_steps (take n (write_steps doc)) d =
     (if n = 0 \<or> n = 1 then d
      else if n = 2 then d\<lparr>f_temp := Some FGarbage\<rparr>
      else if n = 3 \<or> n = 4 then d\<lparr>f_temp := Some (FDoc doc)\<rparr>
      else d\<lparr>f_target := FDoc doc, f_temp := None\<rparr>)"
proof -
  consider "n = 0" | "n = 1" | "n = 2" | "n = 3" | "n = 4" | "n \<ge> 5" by linarith
  then show ?thesis
    by cases (simp_all add: write_steps_def run_steps_def eval_nat_numeral)
qed

lemma length_write_steps [simp]: "length (write_steps doc) = 5"
  by (simp add: write_steps_def)

lemma write_state_document_cases:
  "write_state_document cs fault body f =
     (case fault of
        NoFault \<Rightarrow> (Some (Inr ()), \<lparr>f_target = FDoc (state_document cs body), f_temp = None\<rparr>)
      | RaiseAt n \<Rightarrow>
          if n < 5 then (Some (Inl OSErr), \<lparr>f_target = f, f_temp = None\<rparr>)
          else (Some (Inr ()), \<lparr>f_target = FDoc (state_document cs body), f_temp = None\<rparr>)
      | CrashAt n \<Rightarrow>
          (None, run_steps (take n (write_steps (state_document cs body)))
                   \<lparr>f_target = f, f_temp = None\<rparr>))"
proof -
  let ?d = "\<lparr>f_target = f, f_temp = None\<rparr>"
  have "run_steps (write_steps (state_document cs body)) ?d =
      \<lparr>f_target = FDoc (state_document cs body), f_temp = None\<rparr>"
    using run_write_steps [of 5 "state_document cs body" ?d] by simp
  moreover have "(run_steps (take n (write_steps (state_document cs body))) ?d)\<lparr>f_temp := None\<rparr> =
      ?d" if "n < 5" for n
    using that by (simp add: run_write_steps)
  ultimately show ?thesis
    by (cases fault) (simp_all add: write_state_document_def Let_def)
qed

lemma write_document_refines:
  assumes "write_state_document cs fault body f = (Some r, d')"
  shows "write_document cs (\<not> isl r) body f = (r, f_target d')"
  using assms
  by (cases fault) (auto simp: write_state_document_cases write_document_def split: if_splits)

text \<open>
  C11. Wherever a write of a durable document stops, by an exception or by the death of the
  process, the target is either untouched or the complete new document: a write that returns
  is read back as the document written, a write that raises has changed nothing, and neither
  leaves a temporary file.
\<close>

theorem durable_write_atomic:
  "case write_state_document cs fault body f of
     (Some (Inr _), d') \<Rightarrow>
        read_state_document cs (f_target d') = Inr (READ_OK, canon body) \<and> f_temp d' = None
   | (Some (Inl _), d') \<Rightarrow> f_target d' = f \<and> f_temp d' = None
   | (None, d') \<Rightarrow>
        f_target d' = f \<or> read_state_document cs (f_target d') = Inr (READ_OK, canon body)"
  by (cases fault) (simp_all add: write_state_document_cases read_written run_write_steps)

lemma read_ok_document:
  assumes "read_state_document cs f = Inr (READ_OK, body)"
  shows "\<exists>document. f = FDoc (JObj document) \<and> jget document ''body'' = body \<and>
           jget document ''checksum'' = JStr (cs (canon body))"
  using assms
  by (auto simp: read_state_document_def Let_def split: sfile.splits json.splits if_splits)

end
