(* ===== verification/JsonText.thy ===== *)
theory JsonText
  imports Durable
begin

text \<open>
  The text of JSON documents as \<open>json.dumps(v, ensure_ascii=False, separators=(",", ":"))\<close>
  writes it, its length in UTF-8 bytes, and the identifier patterns of the source. The text
  of a finite float is Python's \<open>repr\<close> and stays a parameter.
\<close>

section \<open>Printing\<close>

definition hex_digit :: "nat \<Rightarrow> char" where
  "hex_digit n = (if n < 10 then char_of (48 + n) else char_of (87 + n))"

definition escape_char :: "char \<Rightarrow> string" where
  "escape_char c =
     (if c = CHR 0x22 then [CHR 0x5C, CHR 0x22]
      else if c = CHR 0x5C then [CHR 0x5C, CHR 0x5C]
      else if c = CHR 0x08 then [CHR 0x5C, CHR ''b'']
      else if c = CHR 0x0C then [CHR 0x5C, CHR ''f'']
      else if c = CHR 0x0A then [CHR 0x5C, CHR ''n'']
      else if c = CHR 0x0D then [CHR 0x5C, CHR ''r'']
      else if c = CHR 0x09 then [CHR 0x5C, CHR ''t'']
      else if of_char c < (32 :: nat)
      then [CHR 0x5C, CHR ''u'', CHR ''0'', CHR ''0'', hex_digit (of_char c div 16), hex_digit (of_char c mod 16)]
      else [c])"

definition json_string :: "string \<Rightarrow> string" where
  "json_string s = CHR 0x22 # concat (map escape_char s) @ [CHR 0x22]"

fun commas :: "string list \<Rightarrow> string" where
  "commas [] = []"
| "commas [x] = x"
| "commas (x # xs) = x @ '','' @ commas xs"

type_synonym float_repr = "rat \<Rightarrow> string"

fun json_text :: "float_repr \<Rightarrow> json \<Rightarrow> string" where
  "json_text fr JNull = ''null''"
| "json_text fr (JBool b) = (if b then ''true'' else ''false'')"
| "json_text fr (JInt i) = int_str i"
| "json_text fr (JFloat (Fin r)) = fr r"
| "json_text fr (JFloat PosInf) = ''Infinity''"
| "json_text fr (JFloat NegInf) = ''-Infinity''"
| "json_text fr (JFloat NaN) = ''NaN''"
| "json_text fr (JStr s) = json_string s"
| "json_text fr (JArr xs) = ''['' @ commas (map (json_text fr) xs) @ '']''"
| "json_text fr (JObj kvs) =
     CHR 0x7B # commas (map (\<lambda>kv. json_string (fst kv) @ '':'' @ json_text fr (snd kv)) kvs) @ [CHR 0x7D]"

definition json_text_sorted :: "float_repr \<Rightarrow> json \<Rightarrow> string" where
  \<comment> \<open>with \<open>sort_keys=True\<close>\<close>
  "json_text_sorted fr v = json_text fr (canon v)"

definition utf8_len :: "string \<Rightarrow> nat" where
  \<comment> \<open>\<open>len(s.encode("utf-8"))\<close>: characters from code point 128 take two bytes\<close>
  "utf8_len s = sum_list (map (\<lambda>c. if of_char c < (128 :: nat) then 1 else 2) s)"

lemma utf8_len_append [simp]: "utf8_len (s @ t) = utf8_len s + utf8_len t"
  by (simp add: utf8_len_def)

lemma length_le_utf8_len: "length s \<le> utf8_len s"
  by (induction s) (auto simp: utf8_len_def)

section \<open>Identifier patterns\<close>

definition is_alnum :: "char \<Rightarrow> bool" where
  \<comment> \<open>\<open>[A-Za-z0-9]\<close>\<close>
  "is_alnum c =
     (let n = of_char c :: nat
      in 48 \<le> n \<and> n \<le> 57 \<or> 65 \<le> n \<and> n \<le> 90 \<or> 97 \<le> n \<and> n \<le> 122)"

definition matches :: "string \<Rightarrow> nat \<Rightarrow> string \<Rightarrow> bool" where
  \<comment> \<open>\<open>fullmatch\<close> of \<open>[A-Za-z0-9<extra>]{1,n}\<close>\<close>
  "matches extra n s \<longleftrightarrow>
     0 < length s \<and> length s \<le> n \<and> list_all (\<lambda>c. is_alnum c \<or> c \<in> set extra) s"

lemma matches_nonempty: "matches extra n s \<Longrightarrow> s \<noteq> []"
  by (auto simp: matches_def)

end
