(* ===== verification/CardStore.thy ===== *)
theory CardStore
  imports Durable OctoTypes
begin

text \<open>
  Models \<open>CardBindingStore\<close> of \<open>identity.py\<close>: the durable, per-identity file of card
  bindings, and the interface \<open>CardBindingPersistence\<close> of \<open>card_sessions.py\<close> that the claim
  registry programs against. The interface is the locale \<open>binding_persistence\<close>; its
  interpretation on the file store discharges the laws from the atomicity of durable writes.
\<close>

section \<open>The store\<close>

record binding_store =
  b_robot_id :: string
  b_file :: sfile
  b_corrupt :: bool

datatype store_error = StoreIO io_error | StoreType

definition record_alive :: "rat \<Rightarrow> json \<Rightarrow> bool" where
  \<comment> \<open>an object whose \<open>expires_at\<close> is a number (a bool counts) beyond \<open>now\<close>\<close>
  "record_alive now r =
     (case r of
        JObj kvs \<Rightarrow>
          (case jget kvs ''expires_at'' of
             JInt i \<Rightarrow> of_int i > now
           | JBool b \<Rightarrow> (if b then 1 else 0) > now
           | JFloat x \<Rightarrow> \<not> flt_le x (Fin now)
           | _ \<Rightarrow> False)
      | _ \<Rightarrow> False)"

definition store_load :: "checksum_fn \<Rightarrow> rat \<Rightarrow> binding_store \<Rightarrow> (store_error + json list) \<times> binding_store" where
  "store_load cs now st =
     (case read_state_document cs (b_file st) of
        Inl e \<Rightarrow> (Inl (StoreIO e), st)
      | Inr (status, body) \<Rightarrow>
          if status = READ_MISSING then (Inr [], st)
          else
            (case body of
               JObj kvs \<Rightarrow>
                 if status \<noteq> READ_OK then (Inr [], st\<lparr>b_corrupt := True\<rparr>)
                 else if jget kvs ''robot_id'' \<noteq> JStr (b_robot_id st)
                 then (Inr [], st\<lparr>b_corrupt := True\<rparr>)
                 else (case jiter_or_empty (jget kvs ''records'') of
                         None \<Rightarrow> (Inl StoreType, st)
                       | Some rs \<Rightarrow> (Inr (filter (record_alive now) rs), st))
             | _ \<Rightarrow> (Inr [], st\<lparr>b_corrupt := True\<rparr>)))"

definition store_save :: "checksum_fn \<Rightarrow> bool \<Rightarrow> json list \<Rightarrow> binding_store \<Rightarrow> (store_error + unit) \<times> binding_store" where
  "store_save cs io records st =
     (case write_document cs io
             (JObj [(''robot_id'', JStr (b_robot_id st)), (''records'', JArr records)])
             (b_file st) of
        (Inl e, f) \<Rightarrow> (Inl (StoreIO e), st\<lparr>b_file := f\<rparr>)
      | (Inr _, f) \<Rightarrow> (Inr (), st\<lparr>b_file := f\<rparr>))"

section \<open>The interface\<close>

locale binding_persistence =
  fixes save :: "bool \<Rightarrow> json list \<Rightarrow> 's \<Rightarrow> ('e + unit) \<times> 's"
    and load :: "rat \<Rightarrow> 's \<Rightarrow> ('e + json list) \<times> 's"
    and alive :: "rat \<Rightarrow> json \<Rightarrow> bool"
  assumes load_saved:
      "save io rs s = (Inr u, s') \<Longrightarrow> fst (load now s') = Inr (filter (alive now) (map canon rs))"
    and failed_save: "save io rs s = (Inl e, s') \<Longrightarrow> load now s' = load now s"
    and load_alive: "fst (load now s) = Inr rs \<Longrightarrow> r \<in> set rs \<Longrightarrow> alive now r"
begin

lemma last_save_wins:
  "save io1 rs1 s = (Inr u, s1) \<Longrightarrow> save io2 rs2 s1 = (Inr v, s2) \<Longrightarrow>
     fst (load now s2) = Inr (filter (alive now) (map canon rs2))"
  by (rule load_saved)

lemma failed_keeps_last:
  "save io1 rs1 s = (Inr u, s1) \<Longrightarrow> save io2 rs2 s1 = (Inl e, s2) \<Longrightarrow>
     fst (load now s2) = Inr (filter (alive now) (map canon rs1))"
  using failed_save load_saved by metis

end

lemma store_load_saved:
  assumes "store_save cs io rs st = (Inr u, st')"
  shows "fst (store_load cs now st') = Inr (filter (record_alive now) (map canon rs))"
proof -
  let ?kvs = "[(''robot_id'', JStr (b_robot_id st)), (''records'', JArr rs)]"
  have st': "b_file st' = FDoc (state_document cs (JObj ?kvs))" "b_robot_id st' = b_robot_id st"
    using assms by (auto simp: store_save_def write_document_def split: if_splits)
  obtain kvs where kvs: "canon (JObj ?kvs) = JObj kvs" by simp
  have "wf_dict ?kvs" by simp
  with kvs have g: "jget kvs k = canon (jget ?kvs k)" for k
    by (rule jget_canon_obj)
  have "read_state_document cs (b_file st') = Inr (READ_OK, JObj kvs)"
    unfolding st'(1) read_written kvs ..
  moreover have "jget kvs ''robot_id'' = JStr (b_robot_id st')"
    "jget kvs ''records'' = JArr (map canon rs)"
    by (simp_all add: g st'(2))
  ultimately show ?thesis
    by (simp add: store_load_def jiter_or_empty_def)
qed

lemma store_failed_save:
  "store_save cs io rs st = (Inl e, st') \<Longrightarrow> st' = st"
  by (auto simp: store_save_def write_document_def split: if_splits)

lemma store_load_alive:
  "fst (store_load cs now st) = Inr rs \<Longrightarrow> r \<in> set rs \<Longrightarrow> record_alive now r"
  by (auto simp: store_load_def split: sum.splits if_splits json.splits option.splits)

interpretation card_store: binding_persistence "store_save cs" "store_load cs" record_alive
  by unfold_locales (auto dest: store_load_saved store_failed_save store_load_alive)

end
