(* ===== verification/CardSessions.thy ===== *)
theory CardSessions
  imports CardStore
begin

text \<open>
  Models \<open>card_sessions.py\<close>: the bounded registry of sent cards, whose entries are claimed
  before an action is dispatched. Every operation of \<open>CardSessionRegistry\<close> is a function from
  the registry to its result and the registry after it; a raise is an \<open>Inl\<close> and keeps the
  changes made before it. The clocks an operation reads and whether the disk accepts its write
  are its environment \<open>env\<close>, one field per reading. An operation is one step: each change of
  the table is made under the lock, and although \<open>register\<close>, \<open>discard\<close>, \<open>next_card_seq\<close>, \<open>release\<close>,
  \<open>complete\<close> and \<open>clear\<close> give the lock up before they persist, they never await, so that nothing
  else of the event loop runs in between. Deadlines are the floats of the source; \<open>repr\<close> is Python's
  \<open>str\<close> on floats and containers.
\<close>

section \<open>State\<close>

record clarify_session =
  cl_clarify_id :: string
  cl_entry :: nat          \<comment> \<open>the identity of the Hermes entry object\<close>
  cl_multi_select :: bool
  cl_question :: string
  cl_choices :: "string list"
  cl_action_choices :: "(string \<times> string) list"
  cl_input_id :: "string option"
  cl_confirm_action_id :: "string option"
  cl_other_action_id :: string

record card_session =
  cs_message_id :: string
  cs_binding_id :: string
  cs_session_key :: string
  cs_chat_id :: string
  cs_channel_id :: string
  cs_channel_type :: channel_type
  cs_requester_uid :: string
  cs_card :: "(string \<times> json) list"
  cs_plain :: string
  cs_action_labels :: "(string \<times> string) list"
  cs_input_ids :: "string list"
  cs_action_channel_ids :: "string list"
  cs_max_input_text_bytes :: "int option"
  cs_max_inputs_bytes :: "int option"
  cs_clarify :: "clarify_session option"
  cs_kind :: string

datatype claim_state = Pending | Processing | Completed

record card_entry =
  e_session :: card_session
  e_expires_at :: pyfloat
  e_wall_expires_at :: pyfloat
  e_state :: claim_state
  e_claimed_event_id :: "int option"
  e_attempt_event_id :: "int option"
  e_dispatch_attempts :: int
  e_card_seq :: int

datatype card_claim = MissingClaim | DuplicateClaim card_session | ClaimedCard card_session int

record registry =
  r_max_sessions :: nat
  r_ttl_seconds :: rat
  r_max_dispatch_attempts :: int
  r_entries :: "(string, card_entry) dict"
  r_persistence :: "binding_store option"

record env =
  t_check :: rat      \<comment> \<open>\<open>time.monotonic()\<close> in \<open>_entry_locked\<close>, or in the first prune\<close>
  t_now :: rat        \<comment> \<open>\<open>time.monotonic()\<close> for a new deadline\<close>
  t_persist :: rat    \<comment> \<open>\<open>time.monotonic()\<close> in the prune of \<open>_persist\<close>\<close>
  t_load :: rat       \<comment> \<open>\<open>time.time()\<close> in the store's \<open>load\<close>\<close>
  t_wall :: rat       \<comment> \<open>\<open>time.time()\<close> of the operation itself\<close>
  io_ok :: bool       \<comment> \<open>the durable write succeeds\<close>

datatype card_error = InvalidSession string | PersistFailed store_error

type_synonym 'a card_op = "registry \<Rightarrow> (card_error + 'a) \<times> registry"

definition new_registry :: "int \<Rightarrow> rat \<Rightarrow> int \<Rightarrow> binding_store option \<Rightarrow> registry" where
  "new_registry max_sessions ttl attempts store =
     \<lparr>r_max_sessions = nat (max 1 max_sessions), r_ttl_seconds = max 1 ttl,
      r_max_dispatch_attempts = max 1 attempts, r_entries = [], r_persistence = store\<rparr>"

definition bounded_message_id :: "string \<Rightarrow> bool" where
  "bounded_message_id s \<longleftrightarrow> 0 < length s \<and> length s \<le> 128"

fun valid_sequence :: "json \<Rightarrow> bool" where
  "valid_sequence (JInt v) = (0 < v \<and> v \<le> 2 ^ 63 - 1)"
| "valid_sequence _ = False"

section \<open>Records of the durable store\<close>

fun state_name :: "claim_state \<Rightarrow> string" where
  "state_name Pending = ''pending''"
| "state_name Processing = ''processing''"
| "state_name Completed = ''completed''"

definition opt_int :: "int option \<Rightarrow> json" where
  "opt_int v = (case v of None \<Rightarrow> JNull | Some i \<Rightarrow> JInt i)"

definition durable_entry :: "card_entry \<Rightarrow> bool" where
  "durable_entry e \<longleftrightarrow>
     cs_kind (e_session e) = ''interactive'' \<and> cs_clarify (e_session e) = None \<and>
     flt_truthy (e_wall_expires_at e)"

definition entry_record :: "card_entry \<Rightarrow> (string \<times> json) list" where
  "entry_record e =
     (let s = e_session e in
      [(''message_id'', JStr (cs_message_id s)), (''binding_id'', JStr (cs_binding_id s)),
       (''session_key'', JStr (cs_session_key s)), (''chat_id'', JStr (cs_chat_id s)),
       (''channel_id'', JStr (cs_channel_id s)), (''requester_uid'', JStr (cs_requester_uid s)),
       (''plain'', JStr (cs_plain s)), (''kind'', JStr (cs_kind s)),
       (''channel_type'', JInt (int_of_channel (cs_channel_type s))),
       (''card'', JObj (cs_card s)),
       (''action_labels'', JObj (map (\<lambda>(k, v). (k, JStr v)) (cs_action_labels s))),
       (''input_ids'', JArr (map JStr (cs_input_ids s))),
       (''action_channel_ids'', JArr (map JStr (cs_action_channel_ids s))),
       (''max_input_text_bytes'', opt_int (cs_max_input_text_bytes s)),
       (''max_inputs_bytes'', opt_int (cs_max_inputs_bytes s)),
       (''expires_at'', JFloat (e_wall_expires_at e)),
       (''state'', JStr (state_name (e_state e))),
       (''claimed_event_id'', opt_int (e_claimed_event_id e)),
       (''attempt_event_id'', opt_int (e_attempt_event_id e)),
       (''dispatch_attempts'', JInt (e_dispatch_attempts e)),
       (''card_seq'', JInt (e_card_seq e))])"

definition entry_to_record :: "card_entry \<Rightarrow> json option" where
  "entry_to_record e = (if durable_entry e then Some (JObj (entry_record e)) else None)"

text \<open>
  Reading a record back. \<open>Rejected\<close> is a KeyError, TypeError or ValueError, which the source
  turns into \<open>None\<close>, or its own \<open>return None\<close>; an OverflowError escapes. \<open>Outside\<close> marks the
  one value the types here do not have: a card or its labels given as a list of pairs with a
  key that is not a string.
\<close>

datatype record_error = Rejected | Overflow | Outside

type_synonym 'a parse = "record_error + 'a"

definition pbind :: "'a parse \<Rightarrow> ('a \<Rightarrow> 'b parse) \<Rightarrow> 'b parse" where
  "pbind r f = (case r of Inl e \<Rightarrow> Inl e | Inr a \<Rightarrow> f a)"

lemma pbind_simps [simp]: "pbind (Inr a) f = f a" "pbind (Inl e) f = Inl e"
  by (simp_all add: pbind_def)

definition item :: "(string \<times> json) list \<Rightarrow> string \<Rightarrow> json parse" where
  \<comment> \<open>\<open>record[k]\<close>\<close>
  "item d k = (case map_of d k of None \<Rightarrow> Inl Rejected | Some v \<Rightarrow> Inr v)"

fun py_str :: "(json \<Rightarrow> string) \<Rightarrow> json \<Rightarrow> string" where
  "py_str repr (JStr s) = s"
| "py_str repr JNull = ''None''"
| "py_str repr (JBool b) = (if b then ''True'' else ''False'')"
| "py_str repr (JInt i) = int_str i"
| "py_str repr v = repr v"

fun py_int_of :: "json \<Rightarrow> int parse" where
  \<comment> \<open>\<open>int(value)\<close>\<close>
  "py_int_of (JInt i) = Inr i"
| "py_int_of (JBool b) = Inr (if b then 1 else 0)"
| "py_int_of (JFloat (Fin r)) = Inr (if r < 0 then \<lceil>r\<rceil> else \<lfloor>r\<rfloor>)"
| "py_int_of (JFloat NaN) = Inl Rejected"
| "py_int_of (JFloat _) = Inl Overflow"
| "py_int_of (JStr s) = (case py_int s of None \<Rightarrow> Inl Rejected | Some i \<Rightarrow> Inr i)"
| "py_int_of _ = Inl Rejected"

fun pair_of :: "json \<Rightarrow> (string \<times> json) parse" where
  \<comment> \<open>one element of a sequence given to \<open>dict\<close>: an iterable of length two\<close>
  "pair_of (JArr [JStr k, v]) = Inr (k, v)"
| "pair_of (JArr [JArr _, v]) = Inl Rejected"
| "pair_of (JArr [JObj _, v]) = Inl Rejected"
| "pair_of (JArr [_, v]) = Inl Outside"
| "pair_of (JStr [a, b]) = Inr ([a], JStr [b])"
| "pair_of (JObj [(a, _), (b, _)]) = Inr (a, JStr b)"
| "pair_of _ = Inl Rejected"

fun pairs_of :: "json list \<Rightarrow> (string \<times> json) list \<Rightarrow> (string \<times> json) list parse" where
  "pairs_of [] d = Inr d"
| "pairs_of (x # xs) d = pbind (pair_of x) (\<lambda>(k, v). pairs_of xs (dset k v d))"

fun py_dict :: "json \<Rightarrow> (string \<times> json) list parse" where
  \<comment> \<open>\<open>dict(value)\<close>\<close>
  "py_dict (JObj kvs) = Inr kvs"
| "py_dict (JArr xs) = pairs_of xs []"
| "py_dict (JStr s) = (if s = [] then Inr [] else Inl Rejected)"
| "py_dict _ = Inl Rejected"

definition py_strs :: "(json \<Rightarrow> string) \<Rightarrow> json \<Rightarrow> string list parse" where
  \<comment> \<open>\<open>tuple(str(item) for item in value)\<close>\<close>
  "py_strs repr v = (case jiter v of None \<Rightarrow> Inl Rejected | Some xs \<Rightarrow> Inr (map (py_str repr) xs))"

definition optional_int :: "json \<Rightarrow> int option parse" where
  "optional_int v = (case v of JNull \<Rightarrow> Inr None | JInt i \<Rightarrow> Inr (Some i) | _ \<Rightarrow> Inl Rejected)"

definition required_int :: "(string \<times> json) list \<Rightarrow> string \<Rightarrow> int parse" where
  \<comment> \<open>\<open>record.get(k, 0)\<close>, which must be an int and not a bool\<close>
  "required_int d k =
     (case map_of d k of None \<Rightarrow> Inr 0 | Some (JInt i) \<Rightarrow> Inr i | Some _ \<Rightarrow> Inl Rejected)"

definition deadline :: "json \<Rightarrow> pyfloat parse" where
  \<comment> \<open>\<open>isinstance(v, (int, float))\<close>, then the value as a number\<close>
  "deadline v =
     (case v of
        JInt i \<Rightarrow> Inr (Fin (of_int i))
      | JBool b \<Rightarrow> Inr (Fin (if b then 1 else 0))
      | JFloat x \<Rightarrow> Inr x
      | _ \<Rightarrow> Inl Rejected)"

definition to_float :: "pyfloat \<Rightarrow> pyfloat parse" where
  \<comment> \<open>\<open>float(n)\<close> raises OverflowError beyond the range of a double\<close>
  "to_float x =
     (case x of Fin r \<Rightarrow> if \<bar>r\<bar> < 2 ^ 1024 then Inr x else Inl Overflow | _ \<Rightarrow> Inr x)"

definition state_of_name :: "json \<Rightarrow> claim_state parse" where
  "state_of_name v =
     (if v = JStr ''pending'' then Inr Pending
      else if v = JStr ''processing'' then Inr Processing
      else if v = JStr ''completed'' then Inr Completed
      else Inl Rejected)"

definition channel_parse :: "json \<Rightarrow> channel_type parse" where
  "channel_parse v =
     pbind (py_int_of v) (\<lambda>i. case channel_of_int i of None \<Rightarrow> Inl Rejected | Some c \<Rightarrow> Inr c)"

definition session_from_record :: "(json \<Rightarrow> string) \<Rightarrow> (string \<times> json) list \<Rightarrow> card_session parse" where
  "session_from_record repr d =
     pbind (item d ''binding_id'') (\<lambda>bid.
     pbind (item d ''session_key'') (\<lambda>skey.
     pbind (item d ''chat_id'') (\<lambda>chat.
     pbind (item d ''channel_id'') (\<lambda>chan.
     pbind (pbind (item d ''channel_type'') channel_parse) (\<lambda>ctype.
     pbind (item d ''requester_uid'') (\<lambda>req.
     pbind (pbind (item d ''card'') py_dict) (\<lambda>crd.
     pbind (item d ''plain'') (\<lambda>plain.
     pbind (pbind (item d ''action_labels'') py_dict) (\<lambda>labels.
     pbind (pbind (item d ''input_ids'') (py_strs repr)) (\<lambda>inputs.
     pbind (pbind (item d ''action_channel_ids'') (py_strs repr)) (\<lambda>acids.
     pbind (optional_int (jget d ''max_input_text_bytes'')) (\<lambda>mit.
     pbind (optional_int (jget d ''max_inputs_bytes'')) (\<lambda>mi.
     Inr \<lparr>cs_message_id = (case jget d ''message_id'' of JStr s \<Rightarrow> s | _ \<Rightarrow> []),
          cs_binding_id = py_str repr bid, cs_session_key = py_str repr skey,
          cs_chat_id = py_str repr chat, cs_channel_id = py_str repr chan,
          cs_channel_type = ctype, cs_requester_uid = py_str repr req,
          cs_card = crd, cs_plain = py_str repr plain,
          cs_action_labels = map (\<lambda>(k, v). (k, py_str repr v)) labels,
          cs_input_ids = inputs, cs_action_channel_ids = acids,
          cs_max_input_text_bytes = mit, cs_max_inputs_bytes = mi, cs_clarify = None,
          cs_kind = (case map_of d ''kind'' of None \<Rightarrow> ''interactive'' | Some v \<Rightarrow> py_str repr v)\<rparr>
     )))))))))))))"

definition entry_from_record :: "(json \<Rightarrow> string) \<Rightarrow> rat \<Rightarrow> rat \<Rightarrow> json \<Rightarrow> card_entry parse" where
  "entry_from_record repr wall_now mono_now record =
     (case record of
        JObj d \<Rightarrow>
          pbind (pbind (item d ''expires_at'') deadline) (\<lambda>x.
          if flt_le x (Fin wall_now) then Inl Rejected
          else pbind (pbind (item d ''state'') state_of_name) (\<lambda>st.
          if \<not> (case jget d ''message_id'' of JStr s \<Rightarrow> bounded_message_id s | _ \<Rightarrow> False)
          then Inl Rejected
          else pbind (session_from_record repr d) (\<lambda>s.
          pbind (required_int d ''dispatch_attempts'') (\<lambda>att.
          pbind (required_int d ''card_seq'') (\<lambda>seq.
          pbind (to_float x) (\<lambda>x.
          pbind (optional_int (jget d ''attempt_event_id'')) (\<lambda>aid.
          if cs_kind s \<noteq> ''interactive'' then Inl Rejected
          else Inr \<lparr>e_session = s, e_expires_at = flt_shift (mono_now - wall_now) x,
                    e_wall_expires_at = x,
                    e_state = (if st = Processing then Pending else st),
                    e_claimed_event_id = None, e_attempt_event_id = aid,
                    e_dispatch_attempts = att, e_card_seq = seq\<rparr>)))))))
      | _ \<Rightarrow> Inl Rejected)"

section \<open>Expiry and persistence\<close>

definition expired :: "rat \<Rightarrow> card_entry \<Rightarrow> bool" where
  "expired now e \<longleftrightarrow> flt_le (e_expires_at e) (Fin now)"

definition prune_entries :: "rat \<Rightarrow> (string, card_entry) dict \<Rightarrow> (string, card_entry) dict" where
  "prune_entries now d = filter (\<lambda>(k, e). \<not> expired now e) d"

definition prune_locked :: "rat \<Rightarrow> registry \<Rightarrow> registry" where
  "prune_locked now r = r\<lparr>r_entries := prune_entries now (r_entries r)\<rparr>"

definition entry_locked :: "rat \<Rightarrow> string \<Rightarrow> registry \<Rightarrow> card_entry option \<times> registry" where
  "entry_locked now mid r =
     (case dget (r_entries r) mid of
        None \<Rightarrow> (None, r)
      | Some e \<Rightarrow>
          if expired now e then (None, r\<lparr>r_entries := dpop mid (r_entries r)\<rparr>) else (Some e, r))"

definition persist :: "checksum_fn \<Rightarrow> env \<Rightarrow> unit card_op" where
  "persist cs v r =
     (case r_persistence r of
        None \<Rightarrow> (Inr (), r)
      | Some st \<Rightarrow>
          (let r' = prune_locked (t_persist v) r;
               records = List.map_filter entry_to_record (map snd (r_entries r'));
               (res, st') = store_save cs (io_ok v) records st
           in (map_sum PersistFailed id res, r'\<lparr>r_persistence := Some st'\<rparr>)))"

definition then_return :: "unit card_op \<Rightarrow> 'a \<Rightarrow> 'a card_op" where
  \<comment> \<open>run a step, raise what it raises, otherwise return the value\<close>
  "then_return p a r = (case p r of (Inl e, r') \<Rightarrow> (Inl e, r') | (Inr _, r') \<Rightarrow> (Inr a, r'))"

definition update_entry :: "string \<Rightarrow> (card_entry \<Rightarrow> card_entry) \<Rightarrow> registry \<Rightarrow> registry" where
  \<comment> \<open>assignments to the entry object, seen through the dictionary that holds it\<close>
  "update_entry mid f r =
     (case dget (r_entries r) mid of
        None \<Rightarrow> r
      | Some e \<Rightarrow> r\<lparr>r_entries := dset mid (f e) (r_entries r)\<rparr>)"

section \<open>Operations\<close>

function evict_completed :: "nat \<Rightarrow> (string, card_entry) dict \<Rightarrow> bool \<times> (string, card_entry) dict" where
  \<comment> \<open>the \<open>while\<close> loop of \<open>register\<close>: \<open>False\<close> when the capacity is exhausted\<close>
  "evict_completed cap d =
     (if length d < cap then (True, d)
      else (case find (\<lambda>(k, e). e_state e = Completed) d of
              None \<Rightarrow> (False, d)
            | Some (k, e) \<Rightarrow> evict_completed cap (dpop k d)))"
  by pat_completeness auto
termination
proof (relation "measure (length \<circ> snd)")
  fix cap and d :: "(string, card_entry) dict" and p k e
  assume "find (\<lambda>(k, e). e_state e = Completed) d = Some p" "(k, e) = p"
  then have "(k, e) \<in> set d" by (auto simp: find_Some_iff) (metis nth_mem)
  then have "length (dpop k d) < length d"
    by (auto simp: AList.delete_eq intro: length_filter_less)
  then show "((cap, dpop k d), cap, d) \<in> measure (length \<circ> snd)" by simp
qed simp

declare evict_completed.simps [simp del]

definition fresh_entry :: "registry \<Rightarrow> env \<Rightarrow> card_session \<Rightarrow> card_entry" where
  "fresh_entry r v s =
     \<lparr>e_session = s, e_expires_at = Fin (t_now v + r_ttl_seconds r),
      e_wall_expires_at = Fin (t_wall v + r_ttl_seconds r), e_state = Pending,
      e_claimed_event_id = None, e_attempt_event_id = None,
      e_dispatch_attempts = 0, e_card_seq = 0\<rparr>"

definition register :: "checksum_fn \<Rightarrow> env \<Rightarrow> card_session \<Rightarrow> unit card_op" where
  "register cs v s r =
     (let mid = cs_message_id s in
      if \<not> bounded_message_id mid then (Inl (InvalidSession ''invalid card session message_id''), r)
      else
        (let r1 = prune_locked (t_check v) r in
         if (case dget (r_entries r1) mid of None \<Rightarrow> False | Some e \<Rightarrow> e_state e \<noteq> Completed)
         then (Inl (InvalidSession ''card session message_id already active''), r1)
         else
           (let (ok, d) = evict_completed (r_max_sessions r1) (dpop mid (r_entries r1));
                r2 = r1\<lparr>r_entries := d\<rparr>
            in if \<not> ok
               then (Inl (InvalidSession ''card session registry capacity exhausted''), r2)
               else persist cs v (r2\<lparr>r_entries := dset mid (fresh_entry r v s) d\<rparr>))))"

definition same_reasoning_identity :: "card_session \<Rightarrow> card_session \<Rightarrow> bool" where
  "same_reasoning_identity a b \<longleftrightarrow>
     cs_binding_id a = cs_binding_id b \<and> cs_session_key a = cs_session_key b \<and>
     cs_chat_id a = cs_chat_id b \<and> cs_channel_id a = cs_channel_id b \<and>
     cs_channel_type a = cs_channel_type b \<and> cs_requester_uid a = cs_requester_uid b \<and>
     cs_action_channel_ids a = cs_action_channel_ids b \<and> cs_input_ids a = cs_input_ids b \<and>
     cs_clarify a = cs_clarify b \<and> cs_kind a = cs_kind b"

definition refresh_reasoning :: "env \<Rightarrow> card_session \<Rightarrow> unit card_op" where
  "refresh_reasoning v s r =
     (let mid = cs_message_id s in
      if \<not> bounded_message_id mid \<or> cs_kind s \<noteq> ''reasoning''
      then (Inl (InvalidSession ''invalid reasoning card session''), r)
      else
        (let r1 = prune_locked (t_check v) r in
         case dget (r_entries r1) mid of
           None \<Rightarrow> (Inl (InvalidSession ''reasoning card session is not pending''), r1)
         | Some e \<Rightarrow>
             if e_state e \<noteq> Pending
             then (Inl (InvalidSession ''reasoning card session is not pending''), r1)
             else if \<not> same_reasoning_identity (e_session e) s
             then (Inl (InvalidSession ''reasoning card session identity mismatch''), r1)
             else
               (let e' = e\<lparr>e_session := s, e_expires_at := Fin (t_now v + r_ttl_seconds r),
                           e_wall_expires_at := Fin (t_wall v + r_ttl_seconds r)\<rparr>
                in (Inr (), r1\<lparr>r_entries := dmove_to_end mid (dset mid e' (r_entries r1))\<rparr>))))"

definition peek :: "env \<Rightarrow> string \<Rightarrow> card_session option card_op" where
  "peek v mid r =
     (case entry_locked (t_check v) mid r of (e, r1) \<Rightarrow> (Inr (map_option e_session e), r1))"

definition discard :: "checksum_fn \<Rightarrow> env \<Rightarrow> string \<Rightarrow> unit card_op" where
  "discard cs v mid r = persist cs v (r\<lparr>r_entries := dpop mid (r_entries r)\<rparr>)"

definition claim_edit ::
  "checksum_fn \<Rightarrow> env \<Rightarrow> string \<Rightarrow> string \<Rightarrow> string \<Rightarrow> channel_type \<Rightarrow> string \<Rightarrow> int option card_op" where
  "claim_edit cs v mid session_key channel_id channel_type requester_uid r =
     (case entry_locked (t_check v) mid r of
        (None, r1) \<Rightarrow> (Inr None, r1)
      | (Some e, r1) \<Rightarrow>
          (let s = e_session e in
           if e_state e \<noteq> Pending then (Inr None, r1)
           else if cs_kind s \<noteq> ''interactive'' \<or> cs_clarify s \<noteq> None then (Inr None, r1)
           else if cs_session_key s \<noteq> session_key \<or> cs_channel_id s \<noteq> channel_id \<or>
                   cs_channel_type s \<noteq> channel_type \<or> cs_requester_uid s \<noteq> requester_uid
           then (Inr None, r1)
           else
             (let seq = e_card_seq e + 1;
                  r2 = update_entry mid (\<lambda>e. e\<lparr>e_card_seq := seq, e_state := Processing,
                                                e_claimed_event_id := Some (- seq)\<rparr>) r1
              in case persist cs v r2 of
                   (Inr _, r3) \<Rightarrow> (Inr (Some seq), r3)
                 | (Inl err, r3) \<Rightarrow>
                     (Inl err, update_entry mid
                        (\<lambda>x. x\<lparr>e_card_seq := e_card_seq e, e_state := e_state e,
                               e_claimed_event_id := e_claimed_event_id e\<rparr>) r3))))"

definition start_claim :: "int \<Rightarrow> card_entry \<Rightarrow> card_entry" where
  "start_claim event_id e =
     e\<lparr>e_state := Processing, e_claimed_event_id := Some event_id,
       e_attempt_event_id := Some event_id,
       e_dispatch_attempts :=
         (if e_attempt_event_id e \<noteq> Some event_id then 0 else e_dispatch_attempts e) + 1\<rparr>"

definition claim :: "checksum_fn \<Rightarrow> env \<Rightarrow> string \<Rightarrow> int \<Rightarrow> card_claim card_op" where
  "claim cs v mid event_id r =
     (case entry_locked (t_check v) mid r of
        (None, r1) \<Rightarrow> (Inr MissingClaim, r1)
      | (Some e, r1) \<Rightarrow>
          if e_state e \<noteq> Pending
          then then_return (persist cs v) (DuplicateClaim (e_session e)) r1
          else
            (case persist cs v (update_entry mid (start_claim event_id) r1) of
               (Inr _, r3) \<Rightarrow>
                 (Inr (ClaimedCard (e_session e) (e_dispatch_attempts (start_claim event_id e))), r3)
             | (Inl err, r3) \<Rightarrow>
                 (Inl err, update_entry mid
                    (\<lambda>x. x\<lparr>e_state := e_state e, e_claimed_event_id := e_claimed_event_id e,
                           e_attempt_event_id := e_attempt_event_id e,
                           e_dispatch_attempts := e_dispatch_attempts e\<rparr>) r3)))"

definition next_card_seq :: "checksum_fn \<Rightarrow> env \<Rightarrow> string \<Rightarrow> int option card_op" where
  "next_card_seq cs v mid r =
     (case entry_locked (t_check v) mid r of
        (None, r1) \<Rightarrow> (Inr None, r1)
      | (Some e, r1) \<Rightarrow>
          (let seq = e_card_seq e + 1 in
           then_return (persist cs v) (Some seq)
             (update_entry mid (\<lambda>e. e\<lparr>e_card_seq := seq\<rparr>) r1)))"

definition holds_claim :: "int \<Rightarrow> card_entry \<Rightarrow> bool" where
  "holds_claim event_id e \<longleftrightarrow> e_state e = Processing \<and> e_claimed_event_id e = Some event_id"

definition release :: "checksum_fn \<Rightarrow> env \<Rightarrow> string \<Rightarrow> int \<Rightarrow> unit card_op" where
  "release cs v mid event_id r =
     (case entry_locked (t_check v) mid r of
        (None, r1) \<Rightarrow> persist cs v r1
      | (Some e, r1) \<Rightarrow>
          persist cs v
            (if holds_claim event_id e
             then update_entry mid (\<lambda>e. e\<lparr>e_state := Pending, e_claimed_event_id := None\<rparr>) r1
             else r1))"

definition release_edit :: "checksum_fn \<Rightarrow> env \<Rightarrow> string \<Rightarrow> int \<Rightarrow> unit card_op" where
  "release_edit cs v mid card_seq = release cs v mid (- card_seq)"

definition complete :: "checksum_fn \<Rightarrow> env \<Rightarrow> string \<Rightarrow> int \<Rightarrow> unit card_op" where
  "complete cs v mid event_id r =
     (case entry_locked (t_check v) mid r of
        (None, r1) \<Rightarrow> persist cs v r1
      | (Some e, r1) \<Rightarrow>
          persist cs v
            (if holds_claim event_id e
             then update_entry mid (\<lambda>e. e\<lparr>e_state := Completed\<rparr>) r1
             else r1))"

definition clear_sessions :: "checksum_fn \<Rightarrow> env \<Rightarrow> unit card_op" where
  "clear_sessions cs v r = persist cs v (r\<lparr>r_entries := []\<rparr>)"

fun restore_records ::
  "(json \<Rightarrow> string) \<Rightarrow> env \<Rightarrow> json list \<Rightarrow> nat \<Rightarrow> registry \<Rightarrow> (record_error + nat) \<times> registry" where
  "restore_records repr v [] n r = (Inr n, r)"
| "restore_records repr v (record # rest) n r =
     (case entry_from_record repr (t_wall v) (t_now v) record of
        Inl Rejected \<Rightarrow> restore_records repr v rest n r
      | Inl err \<Rightarrow> (Inl err, r)
      | Inr e \<Rightarrow>
          if length (r_entries r) \<ge> r_max_sessions r then (Inr n, r)
          else restore_records repr v rest (n + 1)
                 (r\<lparr>r_entries := dset (cs_message_id (e_session e)) e (r_entries r)\<rparr>))"

definition restore_locked ::
  "(json \<Rightarrow> string) \<Rightarrow> checksum_fn \<Rightarrow> env \<Rightarrow> registry \<Rightarrow> (record_error + nat) \<times> registry" where
  "restore_locked repr cs v r =
     (case r_persistence r of
        None \<Rightarrow> (Inr 0, r)
      | Some st \<Rightarrow>
          (case store_load cs (t_load v) st of
             (Inl e, st') \<Rightarrow> (Inr 0, r\<lparr>r_persistence := Some st'\<rparr>)
           | (Inr records, st') \<Rightarrow>
               restore_records repr v records 0 (r\<lparr>r_persistence := Some st'\<rparr>)))"

definition set_persistence :: "binding_store option \<Rightarrow> registry \<Rightarrow> registry" where
  "set_persistence st r = r\<lparr>r_persistence := st\<rparr>"

definition attach_persistence ::
  "(json \<Rightarrow> string) \<Rightarrow> checksum_fn \<Rightarrow> env \<Rightarrow> binding_store \<Rightarrow> registry \<Rightarrow> (record_error + nat) \<times> registry" where
  "attach_persistence repr cs v st r = restore_locked repr cs v (set_persistence (Some st) r)"

end
