(* ===== verification/CardClaims.thy ===== *)
theory CardClaims
  imports CardSessions
begin

text \<open>
  What the claim registry guarantees, over arbitrary sequences of its operations
  (\<open>run_cards\<close>): the registry invariant, exclusive claims, completed actions that stay
  completed, edit sequence numbers that never repeat, and the durability of a claim across a
  restart, which rests on the interface of the store (the interpretation \<open>card_store\<close>).
\<close>

section \<open>The round trip of a record\<close>

definition restored_session :: "card_session \<Rightarrow> card_session" where
  \<comment> \<open>the parser returns objects with sorted keys\<close>
  "restored_session s =
     s\<lparr>cs_card := obj_of (canon (JObj (cs_card s))),
       cs_action_labels := sort_key fst (cs_action_labels s)\<rparr>"

definition restored_entry :: "rat \<Rightarrow> rat \<Rightarrow> card_entry \<Rightarrow> card_entry" where
  "restored_entry wall now e =
     e\<lparr>e_session := restored_session (e_session e),
       e_expires_at := flt_shift (now - wall) (e_wall_expires_at e),
       e_state := (if e_state e = Processing then Pending else e_state e),
       e_claimed_event_id := None\<rparr>"

definition float_range :: "pyfloat \<Rightarrow> bool" where
  "float_range x \<longleftrightarrow> (case x of Fin r \<Rightarrow> \<bar>r\<bar> < 2 ^ 1024 | _ \<Rightarrow> True)"

lemma wf_entry_record: "wf_dict (entry_record e)"
  by (simp add: entry_record_def Let_def)

lemma state_of_state_name [simp]: "state_of_name (JStr (state_name s)) = Inr s"
  by (cases s) (simp_all add: state_of_name_def)

lemma optional_int_opt_int [simp]: "optional_int (canon (opt_int v)) = Inr v"
  by (cases v) (simp_all add: optional_int_def opt_int_def)

lemma channel_parse_int [simp]: "channel_parse (JInt (int_of_channel c)) = Inr c"
  by (simp add: channel_parse_def)

lemma canon_strs [simp]: "map (canon \<circ> JStr) xs = map JStr xs"
  by simp

lemma py_strs_strs [simp]: "py_strs repr (JArr (map JStr xs)) = Inr xs"
  by (simp add: py_strs_def comp_def)

lemma py_str_labels:
  "map (\<lambda>(k, v). (k, py_str repr v)) (obj_of (canon (JObj (map (\<lambda>(k, v). (k, JStr v)) labels)))) =
     sort_key fst labels"
proof -
  have "map (\<lambda>kv. (fst kv, canon (snd kv))) (map (\<lambda>(k, v). (k, JStr v)) labels) =
        map (\<lambda>kv. (fst kv, JStr (snd kv))) labels"
    by auto
  then have "obj_of (canon (JObj (map (\<lambda>(k, v). (k, JStr v)) labels))) =
        map (\<lambda>kv. (fst kv, JStr (snd kv))) (sort_key fst labels)"
    by (simp only: canon.simps obj_of.simps sort_key_map_fst)
  then show ?thesis by (simp add: case_prod_unfold comp_def)
qed

lemma canon_obj: "\<exists>kvs'. canon (JObj kvs) = JObj kvs'"
  by simp

lemma session_roundtrip:
  assumes d: "canon (JObj (entry_record e)) = JObj d" and dur: "durable_entry e"
  shows "session_from_record repr d = Inr (restored_session (e_session e))"
proof -
  let ?s = "e_session e"
  have m: "map_of d k = map_option canon (map_of (entry_record e) k)" for k
    by (rule map_of_canon [OF d wf_entry_record])
  have g: "jget d k = canon (jget (entry_record e) k)" for k
    by (rule jget_canon_obj [OF d wf_entry_record])
  obtain crd labels where
    c: "canon (JObj (cs_card ?s)) = JObj crd"
       "canon (JObj (map (\<lambda>(k, v). (k, JStr v)) (cs_action_labels ?s))) = JObj labels"
    using canon_obj by blast
  have l: "map (\<lambda>(k, v). (k, py_str repr v)) labels = sort_key fst (cs_action_labels ?s)"
    using py_str_labels [of repr "cs_action_labels ?s"] c(2) by simp
  show ?thesis
    unfolding session_from_record_def item_def m g
    using dur
    by (simp add: entry_record_def Let_def c l restored_session_def durable_entry_def
        del: canon.simps(2))
qed


lemma entry_roundtrip:
  assumes dur: "durable_entry e" and range: "float_range (e_wall_expires_at e)"
    and live: "\<not> flt_le (e_wall_expires_at e) (Fin wall)"
    and mid: "bounded_message_id (cs_message_id (e_session e))"
  shows "entry_from_record repr wall now (canon (JObj (entry_record e))) =
           Inr (restored_entry wall now e)"
proof -
  obtain d where d: "canon (JObj (entry_record e)) = JObj d" using canon_obj by blast
  have m: "map_of d k = map_option canon (map_of (entry_record e) k)" for k
    by (rule map_of_canon [OF d wf_entry_record])
  have g: "jget d k = canon (jget (entry_record e) k)" for k
    by (rule jget_canon_obj [OF d wf_entry_record])
  have f: "to_float (e_wall_expires_at e) = Inr (e_wall_expires_at e)"
    using range by (auto simp: to_float_def float_range_def split: pyfloat.splits)
  have k: "cs_kind (restored_session (e_session e)) = ''interactive''"
    using dur by (simp add: durable_entry_def restored_session_def)
  have "entry_from_record repr wall now (JObj d) = Inr (restored_entry wall now e)"
    unfolding entry_from_record_def item_def required_int_def json.case
      session_roundtrip [OF d dur] m g
    using live mid k
    by (simp add: entry_record_def Let_def deadline_def f restored_entry_def del: canon.simps(2))
  then show ?thesis unfolding d .
qed

section \<open>Shrinking\<close>

text \<open>Expiry only removes entries; every other change is made by the operation itself.\<close>

definition shrinks :: "registry \<Rightarrow> registry \<Rightarrow> bool" where
  "shrinks r r' \<longleftrightarrow>
     r_max_sessions r' = r_max_sessions r \<and> length (r_entries r') \<le> length (r_entries r) \<and>
     (wf_dict (r_entries r) \<longrightarrow> wf_dict (r_entries r') \<and>
       (\<forall>k. dget (r_entries r') k = None \<or> dget (r_entries r') k = dget (r_entries r) k))"

lemma shrinks_refl [simp]: "shrinks r r"
  by (simp add: shrinks_def)

lemma shrinks_trans: "shrinks a b \<Longrightarrow> shrinks b c \<Longrightarrow> shrinks a c"
  unfolding shrinks_def by (metis le_trans)

lemma shrinks_prune: "shrinks r (prune_locked now r)"
  by (auto simp: shrinks_def prune_locked_def prune_entries_def dget_filter split: option.splits)

lemma shrinks_entry_locked: "entry_locked now mid r = (e, r') \<Longrightarrow> shrinks r r'"
  by (auto simp: entry_locked_def shrinks_def length_dpop_le split: option.splits if_splits)

lemma entry_locked_Some:
  "entry_locked now mid r = (Some e, r') \<longleftrightarrow>
     r' = r \<and> dget (r_entries r) mid = Some e \<and> \<not> expired now e"
  by (auto simp: entry_locked_def split: option.splits)

lemma entry_locked_None:
  "entry_locked now mid r = (None, r') \<Longrightarrow> dget (r_entries r') mid = None"
  by (auto simp: entry_locked_def split: option.splits if_splits)

lemma persist_shrinks: "persist cs v r = (res, r') \<Longrightarrow> shrinks r r'"
  using shrinks_prune [of r "t_persist v"]
  by (auto simp: persist_def Let_def shrinks_def split: option.splits prod.splits)

lemma update_entry_dget [simp]:
  "dget (r_entries (update_entry k f r)) mid =
     (if mid = k then map_option f (dget (r_entries r) mid) else dget (r_entries r) mid)"
  by (auto simp: update_entry_def split: option.splits)

lemma update_entry_wf [simp]:
  "wf_dict (r_entries r) \<Longrightarrow> wf_dict (r_entries (update_entry k f r))"
  by (auto simp: update_entry_def split: option.splits)

lemma update_entry_length [simp]:
  "length (r_entries (update_entry k f r)) = length (r_entries r)"
  by (auto simp: update_entry_def length_dset split: option.splits)

lemma update_entry_max [simp]: "r_max_sessions (update_entry k f r) = r_max_sessions r"
  by (auto simp: update_entry_def split: option.splits)

section \<open>Sequences of operations\<close>

datatype card_action =
    Register card_session | Refresh card_session | Peek string | Discard string
  | ClaimEdit string string string channel_type string
  | Claim string int | NextSeq string | Release string int | ReleaseEdit string int
  | Complete string int | Clear

datatype card_result =
    Raised card_error | Done | Peeked "card_session option" | Sequence "int option"
  | ClaimResult card_claim

definition result_of :: "('a \<Rightarrow> card_result) \<Rightarrow> (card_error + 'a) \<times> registry \<Rightarrow> card_result \<times> registry" where
  "result_of f x = (case x of (Inl e, r) \<Rightarrow> (Raised e, r) | (Inr a, r) \<Rightarrow> (f a, r))"

fun card_step :: "checksum_fn \<Rightarrow> env \<times> card_action \<Rightarrow> registry \<Rightarrow> card_result \<times> registry" where
  "card_step cs (v, Register s) r = result_of (\<lambda>_. Done) (register cs v s r)"
| "card_step cs (v, Refresh s) r = result_of (\<lambda>_. Done) (refresh_reasoning v s r)"
| "card_step cs (v, Peek mid) r = result_of Peeked (peek v mid r)"
| "card_step cs (v, Discard mid) r = result_of (\<lambda>_. Done) (discard cs v mid r)"
| "card_step cs (v, ClaimEdit mid sk cid ct uid) r =
     result_of Sequence (claim_edit cs v mid sk cid ct uid r)"
| "card_step cs (v, Claim mid ev) r = result_of ClaimResult (claim cs v mid ev r)"
| "card_step cs (v, NextSeq mid) r = result_of Sequence (next_card_seq cs v mid r)"
| "card_step cs (v, Release mid ev) r = result_of (\<lambda>_. Done) (release cs v mid ev r)"
| "card_step cs (v, ReleaseEdit mid sq) r = result_of (\<lambda>_. Done) (release_edit cs v mid sq r)"
| "card_step cs (v, Complete mid ev) r = result_of (\<lambda>_. Done) (complete cs v mid ev r)"
| "card_step cs (v, Clear) r = result_of (\<lambda>_. Done) (clear_sessions cs v r)"

fun run_cards :: "checksum_fn \<Rightarrow> (env \<times> card_action) list \<Rightarrow> registry \<Rightarrow> card_result list \<times> registry" where
  "run_cards cs [] r = ([], r)"
| "run_cards cs (a # as) r =
     (let (x, r1) = card_step cs a r; (xs, r2) = run_cards cs as r1 in (x # xs, r2))"

lemma snd_result_of [simp]: "snd (result_of f x) = snd x"
  by (auto simp: result_of_def split: prod.splits sum.splits)

section \<open>The registry invariant\<close>

definition wf_registry :: "registry \<Rightarrow> bool" where
  "wf_registry r \<longleftrightarrow>
     wf_dict (r_entries r) \<and> length (r_entries r) \<le> r_max_sessions r \<and> 0 < r_max_sessions r \<and>
     (\<forall>k e. dget (r_entries r) k = Some e \<longrightarrow>
        cs_message_id (e_session e) = k \<and> bounded_message_id k)"

lemma wf_shrinks: "shrinks r r' \<Longrightarrow> wf_registry r \<Longrightarrow> wf_registry r'"
  unfolding wf_registry_def shrinks_def by (metis le_trans option.distinct(1))

lemma wf_update_entry:
  "wf_registry r \<Longrightarrow> (\<And>e. cs_message_id (e_session (f e)) = cs_message_id (e_session e)) \<Longrightarrow>
     wf_registry (update_entry k f r)"
  by (auto simp: wf_registry_def split: if_splits)

lemma wf_persist: "wf_registry r \<Longrightarrow> wf_registry (snd (persist cs v r))"
  using persist_shrinks [of cs v r] wf_shrinks by (metis prod.collapse)

lemma wf_then_return:
  "(\<And>r. wf_registry r \<Longrightarrow> wf_registry (snd (p r))) \<Longrightarrow> wf_registry r \<Longrightarrow>
     wf_registry (snd (then_return p a r))"
proof -
  assume p: "\<And>r. wf_registry r \<Longrightarrow> wf_registry (snd (p r))" and wf: "wf_registry r"
  obtain x r' where x: "p r = (x, r')" by (cases "p r")
  with p [OF wf] have "wf_registry r'" by simp
  then show ?thesis unfolding then_return_def x by (cases x) simp_all
qed

lemma evict_completed_shrinks:
  assumes "evict_completed cap d = (ok, d')" "wf_dict d"
  shows "wf_dict d' \<and> length d' \<le> length d \<and> (ok \<longrightarrow> length d' < cap) \<and>
         (\<forall>k. dget d' k = None \<or> dget d' k = dget d k)"
  using assms
proof (induction cap d arbitrary: ok d' rule: evict_completed.induct)
  case (1 cap d)
  show ?case
  proof (cases "length d < cap")
    case True
    then show ?thesis using "1.prems" by (simp add: evict_completed.simps [of cap d])
  next
    case False
    show ?thesis
    proof (cases "find (\<lambda>(k, e). e_state e = Completed) d")
      case None
      then show ?thesis using "1.prems" False by (simp add: evict_completed.simps [of cap d])
    next
      case (Some p)
      obtain k e where p: "p = (k, e)" by (cases p)
      have "evict_completed cap (dpop k d) = (ok, d')"
        using "1.prems" False Some p by (simp add: evict_completed.simps [of cap d])
      from "1.IH" [OF False Some _ this] p "1.prems"
      show ?thesis using length_dpop_le [of k d]
        by (metis (no_types, lifting) dget_dpop le_trans wf_dpop)
    qed
  qed
qed

lemma wf_register: "wf_registry r \<Longrightarrow> wf_registry (snd (register cs v s r))"
proof -
  assume wf: "wf_registry r"
  let ?mid = "cs_message_id s" and ?r1 = "prune_locked (t_check v) r"
  have wf1: "wf_registry ?r1" using shrinks_prune wf wf_shrinks by blast
  obtain ok d where ev: "evict_completed (r_max_sessions ?r1) (dpop ?mid (r_entries ?r1)) = (ok, d)"
    by (cases "evict_completed (r_max_sessions ?r1) (dpop ?mid (r_entries ?r1))")
  have wfd: "wf_dict (dpop ?mid (r_entries ?r1))" using wf1 by (simp add: wf_registry_def)
  note e = evict_completed_shrinks [OF ev wfd]
  have wf2: "wf_registry (?r1\<lparr>r_entries := d\<rparr>)"
  proof -
    have "shrinks ?r1 (?r1\<lparr>r_entries := d\<rparr>)"
      using e length_dpop_le [of ?mid "r_entries ?r1"]
      unfolding shrinks_def by (auto simp: not_less split: if_splits)
    then show ?thesis using wf1 wf_shrinks by blast
  qed
  have "wf_registry (?r1\<lparr>r_entries := dset ?mid (fresh_entry r v s) d\<rparr>)"
    if "ok" "bounded_message_id ?mid"
    using wf2 that e by (auto simp: wf_registry_def length_dset fresh_entry_def)
  then show ?thesis
    using wf wf1 wf2 ev wf_persist
    by (auto simp: register_def Let_def split: option.splits prod.splits)
qed

lemma wf_refresh: "wf_registry r \<Longrightarrow> wf_registry (snd (refresh_reasoning v s r))"
proof -
  assume wf: "wf_registry r"
  let ?r1 = "prune_locked (t_check v) r"
  have wf1: "wf_registry ?r1" using shrinks_prune wf wf_shrinks by blast
  have "wf_registry (?r1\<lparr>r_entries := dmove_to_end (cs_message_id s) (dset (cs_message_id s) e (r_entries ?r1))\<rparr>)"
    if "dget (r_entries ?r1) (cs_message_id s) \<noteq> None" "e_session e = s" "bounded_message_id (cs_message_id s)" for e
    using wf1 that by (auto simp: wf_registry_def length_dset)
  then show ?thesis
    using wf wf1 by (auto simp: refresh_reasoning_def Let_def split: option.splits)
qed

lemma wf_entry_locked: "entry_locked now mid r = (e, r') \<Longrightarrow> wf_registry r \<Longrightarrow> wf_registry r'"
  using shrinks_entry_locked wf_shrinks by blast

lemma wf_persist_eq: "persist cs v r = (res, r') \<Longrightarrow> wf_registry r \<Longrightarrow> wf_registry r'"
  using wf_persist [of r cs v] by simp

lemma start_claim_session [simp]: "e_session (start_claim ev e) = e_session e"
  by (simp add: start_claim_def)

lemma wf_drop: "wf_registry r \<Longrightarrow> wf_registry (r\<lparr>r_entries := dpop k (r_entries r)\<rparr>)"
  using length_dpop_le [of k "r_entries r"] by (auto simp: wf_registry_def split: if_splits)

lemma wf_cleared: "wf_registry r \<Longrightarrow> wf_registry (r\<lparr>r_entries := []\<rparr>)"
  by (simp add: wf_registry_def)

lemmas wf_ops = wf_entry_locked wf_persist wf_update_entry wf_then_return wf_drop

lemma wf_card_step: "wf_registry r \<Longrightarrow> wf_registry (snd (card_step cs a r))"
proof -
  assume wf: "wf_registry r"
  obtain v op where a: "a = (v, op)" by (cases a)
  show ?thesis unfolding a
  proof (cases op)
    case (ClaimEdit mid sk cid ct uid)
    show "wf_registry (snd (card_step cs (v, op) r))"
      unfolding ClaimEdit using wf
      by (auto simp: claim_edit_def Let_def split: prod.splits option.splits sum.splits
          intro!: wf_update_entry elim!: wf_persist_eq dest: wf_entry_locked)
  next
    case (Claim mid ev)
    show "wf_registry (snd (card_step cs (v, op) r))"
      unfolding Claim using wf
      by (auto simp: claim_def Let_def split: prod.splits option.splits sum.splits
          intro!: wf_update_entry wf_then_return wf_persist elim!: wf_persist_eq dest: wf_entry_locked)
  qed (use wf in \<open>auto simp: peek_def discard_def next_card_seq_def release_def release_edit_def
          complete_def clear_sessions_def Let_def split: prod.splits option.splits
        intro!: wf_register wf_refresh wf_then_return wf_persist wf_update_entry wf_drop
          wf_cleared
        dest: wf_entry_locked\<close>)
qed

section \<open>Properties of the entry of one card\<close>

text \<open>
  \<open>on_entry Q r mid\<close>: the entry of the card, if there is one, satisfies \<open>Q\<close>. Expiry keeps it,
  an operation on another card keeps it, and what an operation on the card itself must
  respect is one premise of the lemma for that operation.
\<close>

definition on_entry :: "(card_entry \<Rightarrow> bool) \<Rightarrow> registry \<Rightarrow> string \<Rightarrow> bool" where
  "on_entry Q r mid \<longleftrightarrow> (case dget (r_entries r) mid of None \<Rightarrow> True | Some e \<Rightarrow> Q e)"

lemma on_entryD: "on_entry Q r mid \<Longrightarrow> dget (r_entries r) mid = Some e \<Longrightarrow> Q e"
  by (simp add: on_entry_def)

lemma on_shrinks: "shrinks r r' \<Longrightarrow> wf_registry r \<Longrightarrow> on_entry Q r mid \<Longrightarrow> on_entry Q r' mid"
proof -
  assume *: "shrinks r r'" "wf_registry r" "on_entry Q r mid"
  then have "dget (r_entries r') mid = None \<or> dget (r_entries r') mid = dget (r_entries r) mid"
    by (auto simp: shrinks_def wf_registry_def)
  with *(3) show ?thesis by (auto simp: on_entry_def)
qed

lemma on_persist_eq:
  "persist cs v r = (res, r') \<Longrightarrow> wf_registry r \<Longrightarrow> on_entry Q r mid \<Longrightarrow> on_entry Q r' mid"
  using on_shrinks persist_shrinks by blast

lemma on_persist: "wf_registry r \<Longrightarrow> on_entry Q r mid \<Longrightarrow> on_entry Q (snd (persist cs v r)) mid"
  using on_persist_eq by (metis prod.collapse)

lemma on_then_return:
  "wf_registry r \<Longrightarrow> on_entry Q r mid \<Longrightarrow> on_entry Q (snd (then_return (persist cs v) a r)) mid"
  using on_persist [of r Q mid cs v] by (auto simp: then_return_def split: prod.splits sum.splits)

lemma on_entry_locked:
  "entry_locked now k r = (e, r') \<Longrightarrow> wf_registry r \<Longrightarrow> on_entry Q r mid \<Longrightarrow> on_entry Q r' mid"
  using on_shrinks shrinks_entry_locked by blast

lemma on_update:
  "on_entry Q r mid \<Longrightarrow> (\<And>e. k = mid \<Longrightarrow> dget (r_entries r) mid = Some e \<Longrightarrow> Q e \<Longrightarrow> Q (f e)) \<Longrightarrow>
     on_entry Q (update_entry k f r) mid"
  by (auto simp: on_entry_def split: option.splits)

lemma on_dpop: "on_entry Q r mid \<Longrightarrow> on_entry Q (r\<lparr>r_entries := dpop k (r_entries r)\<rparr>) mid"
  by (auto simp: on_entry_def)

lemma on_cleared [simp]: "on_entry Q (r\<lparr>r_entries := []\<rparr>) mid"
  by (simp add: on_entry_def)

text \<open>\<open>entry_locked\<close> opened once, for all the operations that start with it.\<close>

lemma entry_locked_cases:
  assumes "wf_registry r" "on_entry Q r mid"
  obtains (gone) r1 where "entry_locked now k r = (None, r1)" "wf_registry r1" "on_entry Q r1 mid"
  | (live) e where "entry_locked now k r = (Some e, r)" "dget (r_entries r) k = Some e"
proof (cases "entry_locked now k r")
  case (Pair eo r1)
  then show thesis
    using gone live wf_entry_locked [OF Pair assms(1)] on_entry_locked [OF Pair assms]
    by (cases eo) (auto simp: entry_locked_Some)
qed

lemma on_register:
  assumes "cs_message_id s \<noteq> mid" "wf_registry r" "on_entry Q r mid"
  shows "on_entry Q (snd (register cs v s r)) mid"
proof -
  let ?k = "cs_message_id s" and ?r1 = "prune_locked (t_check v) r"
  have wf1: "wf_registry ?r1" and h1: "on_entry Q ?r1 mid"
    using shrinks_prune assms wf_shrinks on_shrinks by blast+
  obtain ok d where ev: "evict_completed (r_max_sessions ?r1) (dpop ?k (r_entries ?r1)) = (ok, d)"
    by (cases "evict_completed (r_max_sessions ?r1) (dpop ?k (r_entries ?r1))")
  have wfd: "wf_dict (dpop ?k (r_entries ?r1))" using wf1 by (simp add: wf_registry_def)
  note e = evict_completed_shrinks [OF ev wfd]
  have "dget d mid = None \<or> dget d mid = dget (r_entries ?r1) mid"
    using e assms(1) by (metis dget_dpop)
  then have h2: "on_entry Q (?r1\<lparr>r_entries := d\<rparr>) mid"
    using h1 by (auto simp: on_entry_def)
  let ?r2 = "?r1\<lparr>r_entries := dset ?k (fresh_entry r v s) d\<rparr>"
  have h3: "on_entry Q ?r2 mid" using h2 assms(1) by (simp add: on_entry_def)
  have wf3: "ok \<Longrightarrow> bounded_message_id ?k \<Longrightarrow> wf_registry ?r2"
    using wf1 e length_dpop_le [of ?k "r_entries ?r1"] wf_dset
    unfolding wf_registry_def
    by (auto simp: length_dset fresh_entry_def split: if_splits)
  show ?thesis
    using assms(3) h1 h2 wf3 ev on_persist [OF wf3 h3]
    by (auto simp: register_def Let_def split: option.splits prod.splits)
qed

lemma on_refresh:
  assumes "wf_registry r" "on_entry Q r mid"
    and Q: "\<And>e s a b. Q e \<Longrightarrow> Q (e\<lparr>e_session := s, e_expires_at := a, e_wall_expires_at := b\<rparr>)"
  shows "on_entry Q (snd (refresh_reasoning v s r)) mid"
proof -
  have "on_entry Q (prune_locked (t_check v) r) mid"
    using assms shrinks_prune on_shrinks by blast
  then show ?thesis
    using assms(2) Q by (auto simp: refresh_reasoning_def Let_def on_entry_def split: option.splits)
qed

lemma dget_after_persist:
  assumes "persist cs v r = (res, r')" "wf_registry r"
  shows "dget (r_entries r') k = None \<or> dget (r_entries r') k = dget (r_entries r) k"
  using persist_shrinks [OF assms(1)] assms(2) by (auto simp: shrinks_def wf_registry_def)

lemma on_claim:
  assumes wf: "wf_registry r" and h: "on_entry Q r mid"
    and Q: "\<And>e. k = mid \<Longrightarrow> Q e \<Longrightarrow> e_state e = Pending \<Longrightarrow> Q (start_claim ev e)"
  shows "on_entry Q (snd (claim cs v k ev r)) mid"
  using wf h
proof (cases rule: entry_locked_cases [where now = "t_check v" and k = k])
  case (gone r1)
  then show ?thesis by (simp add: claim_def)
next
  case (live e)
  show ?thesis
  proof (cases "e_state e = Pending")
    case False
    then show ?thesis using live on_then_return [OF wf h] by (simp add: claim_def)
  next
    case True
    let ?r2 = "update_entry k (start_claim ev) r"
    obtain res r3 where p: "persist cs v ?r2 = (res, r3)" by (cases "persist cs v ?r2")
    have wf2: "wf_registry ?r2" using wf by (simp add: wf_update_entry)
    have h2: "on_entry Q ?r2 mid"
      using h live True Q by (intro on_update) auto
    have h3: "on_entry Q r3 mid" using on_persist_eq [OF p wf2 h2] .
    have "on_entry Q (update_entry k (\<lambda>x. x\<lparr>e_state := e_state e,
        e_claimed_event_id := e_claimed_event_id e, e_attempt_event_id := e_attempt_event_id e,
        e_dispatch_attempts := e_dispatch_attempts e\<rparr>) r3) mid"
    proof (rule on_update [OF h3])
      fix x assume "k = mid" "dget (r_entries r3) mid = Some x"
      then have "x = start_claim ev e"
        using dget_after_persist [OF p wf2, of mid] live by auto
      moreover have "Q e" using on_entryD h live \<open>k = mid\<close> by blast
      ultimately show "Q (x\<lparr>e_state := e_state e,
        e_claimed_event_id := e_claimed_event_id e, e_attempt_event_id := e_attempt_event_id e,
        e_dispatch_attempts := e_dispatch_attempts e\<rparr>)"
        by (simp add: start_claim_def)
    qed
    then show ?thesis using live True p h3 by (auto simp: claim_def split: sum.splits)
  qed
qed

lemma on_claim_edit:
  assumes wf: "wf_registry r" and h: "on_entry Q r mid"
    and Q: "\<And>e q. k = mid \<Longrightarrow> Q e \<Longrightarrow> e_state e = Pending \<Longrightarrow> q = e_card_seq e + 1 \<Longrightarrow>
         Q (e\<lparr>e_card_seq := q, e_state := Processing, e_claimed_event_id := Some (- q)\<rparr>)"
  shows "on_entry Q (snd (claim_edit cs v k sk cid ct uid r)) mid"
  using wf h
proof (cases rule: entry_locked_cases [where now = "t_check v" and k = k])
  case (gone r1)
  then show ?thesis by (simp add: claim_edit_def)
next
  case (live e)
  show ?thesis
  proof (cases "e_state e = Pending")
    case False
    then show ?thesis using live h by (simp add: claim_edit_def)
  next
    case True
    let ?q = "e_card_seq e + 1"
    let ?f = "\<lambda>e. e\<lparr>e_card_seq := ?q, e_state := Processing, e_claimed_event_id := Some (- ?q)\<rparr>"
    obtain res r3 where p: "persist cs v (update_entry k ?f r) = (res, r3)"
      by (cases "persist cs v (update_entry k ?f r)")
    have wf2: "wf_registry (update_entry k ?f r)" using wf by (simp add: wf_update_entry)
    have h2: "on_entry Q (update_entry k ?f r) mid"
      using h live True Q by (intro on_update) auto
    have h3: "on_entry Q r3 mid" using on_persist_eq [OF p wf2 h2] .
    have "on_entry Q (update_entry k (\<lambda>x. x\<lparr>e_card_seq := e_card_seq e, e_state := e_state e,
        e_claimed_event_id := e_claimed_event_id e\<rparr>) r3) mid"
    proof (rule on_update [OF h3])
      fix x assume "k = mid" "dget (r_entries r3) mid = Some x"
      then have "x = ?f e"
        using dget_after_persist [OF p wf2, of mid] live by auto
      moreover have "Q e" using on_entryD h live \<open>k = mid\<close> by blast
      ultimately show "Q (x\<lparr>e_card_seq := e_card_seq e, e_state := e_state e,
        e_claimed_event_id := e_claimed_event_id e\<rparr>)" by simp
    qed
    then show ?thesis using live True p h3 h
      by (auto simp: claim_edit_def Let_def split: sum.splits)
  qed
qed

lemma on_next_card_seq:
  assumes wf: "wf_registry r" and h: "on_entry Q r mid"
    and Q: "\<And>e q. k = mid \<Longrightarrow> Q e \<Longrightarrow> q = e_card_seq e + 1 \<Longrightarrow> Q (e\<lparr>e_card_seq := q\<rparr>)"
  shows "on_entry Q (snd (next_card_seq cs v k r)) mid"
  using wf h
proof (cases rule: entry_locked_cases [where now = "t_check v" and k = k])
  case (live e)
  let ?r2 = "update_entry k (\<lambda>x. x\<lparr>e_card_seq := e_card_seq e + 1\<rparr>) r"
  have "on_entry Q ?r2 mid" using h live Q by (intro on_update) auto
  moreover have "wf_registry ?r2" using wf by (simp add: wf_update_entry)
  ultimately show ?thesis using live on_then_return by (simp add: next_card_seq_def Let_def)
qed (simp add: next_card_seq_def)

text \<open>\<open>release\<close> and \<open>complete\<close> share their shape.\<close>

definition finish :: "checksum_fn \<Rightarrow> env \<Rightarrow> string \<Rightarrow> int \<Rightarrow> (card_entry \<Rightarrow> card_entry) \<Rightarrow> unit card_op" where
  "finish cs v k ev f r =
     (case entry_locked (t_check v) k r of
        (None, r1) \<Rightarrow> persist cs v r1
      | (Some e, r1) \<Rightarrow> persist cs v (if holds_claim ev e then update_entry k f r1 else r1))"

lemma release_finish:
  "release cs v k ev = finish cs v k ev (\<lambda>e. e\<lparr>e_state := Pending, e_claimed_event_id := None\<rparr>)"
  by (rule ext) (simp add: release_def finish_def)

lemma complete_finish: "complete cs v k ev = finish cs v k ev (\<lambda>e. e\<lparr>e_state := Completed\<rparr>)"
  by (rule ext) (simp add: complete_def finish_def)

lemma on_finish:
  assumes wf: "wf_registry r" and h: "on_entry Q r mid"
    and f: "\<And>e. cs_message_id (e_session (f e)) = cs_message_id (e_session e)"
    and Q: "\<And>e. k = mid \<Longrightarrow> Q e \<Longrightarrow> holds_claim ev e \<Longrightarrow> Q (f e)"
  shows "on_entry Q (snd (finish cs v k ev f r)) mid"
  using wf h
proof (cases rule: entry_locked_cases [where now = "t_check v" and k = k])
  case (gone r1)
  then show ?thesis using on_persist by (simp add: finish_def)
next
  case (live e)
  have "on_entry Q (update_entry k f r) mid" if "holds_claim ev e"
    using h live Q that by (intro on_update) auto
  moreover have "wf_registry (update_entry k f r)" using wf f by (rule wf_update_entry)
  ultimately show ?thesis using live on_persist wf h by (simp add: finish_def)
qed

section \<open>Claims\<close>

text \<open>
  \<open>held_by S\<close>: completed, or claimed by an event of \<open>S\<close>. With \<open>S\<close> empty it says that the
  action has been completed; with one event, that this event owns the card.
\<close>

definition held_by :: "int set \<Rightarrow> card_entry \<Rightarrow> bool" where
  "held_by S e \<longleftrightarrow>
     e_state e = Completed \<or> (e_state e = Processing \<and> (\<exists>c \<in> S. e_claimed_event_id e = Some c))"

fun frees :: "int set \<Rightarrow> string \<Rightarrow> card_action \<Rightarrow> bool" where
  \<comment> \<open>the only operations that can make a held card claimable again\<close>
  "frees S mid (Register s) = (cs_message_id s = mid)"
| "frees S mid (Release k ev) = (k = mid \<and> ev \<in> S)"
| "frees S mid (ReleaseEdit k sq) = (k = mid \<and> - sq \<in> S)"
| "frees S mid _ = False"

fun grants :: "string \<Rightarrow> card_action \<Rightarrow> card_result \<Rightarrow> bool" where
  \<comment> \<open>the operation handed the card to a caller\<close>
  "grants mid (Claim k ev) (ClaimResult (ClaimedCard s n)) = (k = mid)"
| "grants mid (ClaimEdit k _ _ _ _) (Sequence (Some _)) = (k = mid)"
| "grants mid _ _ = False"

lemma held_by_not_pending: "held_by S e \<Longrightarrow> e_state e \<noteq> Pending"
  by (auto simp: held_by_def)

lemma held_no_claim:
  assumes "on_entry (held_by S) r mid"
  shows "\<not> grants mid (Claim k ev) (fst (result_of ClaimResult (claim cs v k ev r)))"
proof (cases "k = mid")
  case True
  then show ?thesis using assms
    by (auto simp: result_of_def claim_def then_return_def entry_locked_Some held_by_not_pending
        dest!: on_entryD split: prod.splits option.splits sum.splits)
qed (auto simp: result_of_def elim!: grants.elims split: prod.splits sum.splits)

lemma held_no_edit:
  assumes "on_entry (held_by S) r mid"
  shows "\<not> grants mid (ClaimEdit k sk cid ct uid)
           (fst (result_of Sequence (claim_edit cs v k sk cid ct uid r)))"
proof (cases "k = mid")
  case True
  then show ?thesis using assms
    by (auto simp: result_of_def claim_edit_def Let_def entry_locked_Some held_by_not_pending
        dest!: on_entryD split: prod.splits option.splits sum.splits)
qed (auto simp: result_of_def elim!: grants.elims split: prod.splits sum.splits)

lemma held_step:
  assumes wf: "wf_registry r" and h: "on_entry (held_by S) r mid" and nf: "\<not> frees S mid (snd a)"
  shows "on_entry (held_by S) (snd (card_step cs a r)) mid \<and>
         \<not> grants mid (snd a) (fst (card_step cs a r))"
proof -
  obtain v op where a: "a = (v, op)" by (cases a)
  have "on_entry (held_by S) (snd (card_step cs (v, op) r)) mid"
    using nf unfolding a
    by (cases op)
       (auto simp: peek_def discard_def clear_sessions_def release_edit_def release_finish
          complete_finish wf h held_by_not_pending held_by_def holds_claim_def
        intro!: on_register on_refresh on_claim on_claim_edit on_next_card_seq on_finish
          on_persist on_dpop wf_drop wf_cleared
        split: prod.splits dest: on_entry_locked [OF _ wf h])
  moreover have "\<not> grants mid op (fst (card_step cs (v, op) r))"
    using held_no_claim [OF h] held_no_edit [OF h]
    by (cases op) (auto simp: result_of_def split: prod.splits sum.splits)
  ultimately show ?thesis unfolding a by simp
qed

lemma held_run:
  assumes "wf_registry r" "on_entry (held_by S) r mid" "\<forall>a \<in> set as. \<not> frees S mid (snd a)"
  shows "list_all2 (\<lambda>a x. \<not> grants mid (snd a) x) as (fst (run_cards cs as r))"
  using assms
proof (induction as arbitrary: r)
  case (Cons a as)
  let ?r1 = "snd (card_step cs a r)"
  have "on_entry (held_by S) ?r1 mid \<and> \<not> grants mid (snd a) (fst (card_step cs a r))"
    using held_step Cons.prems by auto
  moreover have "wf_registry ?r1" using Cons.prems(1) by (rule wf_card_step)
  ultimately show ?case using Cons.IH [of ?r1] Cons.prems(3)
    by (auto simp: Let_def split: prod.splits)
qed simp

lemma claim_held:
  assumes wf: "wf_registry r" and c: "claim cs v mid ev r = (Inr (ClaimedCard s n), r1)"
  shows "on_entry (held_by {ev}) r1 mid"
  using c
proof -
  obtain eo r0 where el: "entry_locked (t_check v) mid r = (eo, r0)"
    by (cases "entry_locked (t_check v) mid r")
  obtain e where e: "eo = Some e" using c el by (cases eo) (auto simp: claim_def)
  have r0: "r0 = r" "dget (r_entries r) mid = Some e" using el by (auto simp: e entry_locked_Some)
  have pend: "e_state e = Pending"
    using c el e by (auto simp: claim_def then_return_def split: if_splits prod.splits sum.splits)
  obtain u where p: "persist cs v (update_entry mid (start_claim ev) r) = (Inr u, r1)"
    using c el e pend r0 by (auto simp: claim_def split: prod.splits sum.splits)
  have "on_entry (held_by {ev}) (update_entry mid (start_claim ev) r) mid"
    using r0 by (auto simp: on_entry_def held_by_def start_claim_def)
  then show ?thesis using on_persist_eq [OF p] wf by (simp add: wf_update_entry)
qed

text \<open>
  C2. An action that has been claimed for one event is granted to nobody else: until that
  event's claim is released, no sequence of operations on the registry (expiry, eviction,
  failing disk writes and edits of the same card included) hands the card out again. The only
  other way is to register a new card under the same message id, which the registry refuses
  while the entry is alive.
\<close>

theorem claim_exclusive:
  assumes "wf_registry r"
    and "claim cs v mid ev r = (Inr (ClaimedCard s n), r1)"
    and "\<forall>a \<in> set as. \<not> frees {ev} mid (snd a)"
  shows "list_all2 (\<lambda>a x. \<not> grants mid (snd a) x) as (fst (run_cards cs as r1))"
proof -
  have "wf_registry r1"
    using wf_card_step [OF assms(1), of cs "(v, Claim mid ev)"] assms(2) by (simp add: result_of_def)
  then show ?thesis using claim_held [OF assms(1,2)] assms(3) by (rule held_run)
qed

section \<open>Edit sequences\<close>

fun sequence_of :: "string \<Rightarrow> card_action \<Rightarrow> card_result \<Rightarrow> int option" where
  "sequence_of mid (NextSeq k) (Sequence s) = (if k = mid then s else None)"
| "sequence_of mid (ClaimEdit k _ _ _ _) (Sequence s) = (if k = mid then s else None)"
| "sequence_of mid _ _ = None"

abbreviation seq_from :: "int \<Rightarrow> card_entry \<Rightarrow> bool" where
  "seq_from n e \<equiv> n \<le> e_card_seq e"

lemma seq_step:
  assumes wf: "wf_registry r" and h: "on_entry (seq_from n) r mid"
    and nf: "\<forall>s. snd a = Register s \<longrightarrow> cs_message_id s \<noteq> mid"
  shows "on_entry (seq_from n) (snd (card_step cs a r)) mid"
proof -
  obtain v op where a: "a = (v, op)" by (cases a)
  show ?thesis
    using nf unfolding a
    by (cases op)
       (auto simp: peek_def discard_def clear_sessions_def release_edit_def release_finish
          complete_finish wf h start_claim_def
        intro!: on_register on_refresh on_claim on_claim_edit on_next_card_seq on_finish
          on_persist on_dpop wf_drop wf_cleared
        split: prod.splits dest: on_entry_locked [OF _ wf h])
qed

lemma seq_granted:
  assumes wf: "wf_registry r" and h: "on_entry (seq_from n) r mid"
    and g: "sequence_of mid (snd a) (fst (card_step cs a r)) = Some q"
  shows "n < q \<and> on_entry (seq_from q) (snd (card_step cs a r)) mid"
proof -
  obtain v op where a: "a = (v, op)" by (cases a)
  consider "op = NextSeq mid" | sk cid ct uid where "op = ClaimEdit mid sk cid ct uid"
    using g unfolding a by (cases op) (auto simp: result_of_def elim!: sequence_of.elims split: prod.splits sum.splits if_splits)
  then obtain e f where e: "dget (r_entries r) mid = Some e" and q: "q = e_card_seq e + 1"
    and f: "\<And>x. cs_message_id (e_session (f x)) = cs_message_id (e_session x)" "\<And>x. e_card_seq (f x) = q"
    and p: "persist cs v (update_entry mid f r) = (Inr (), snd (card_step cs a r))"
  proof cases
    case 1
    obtain eo r0 where el: "entry_locked (t_check v) mid r = (eo, r0)"
      by (cases "entry_locked (t_check v) mid r")
    with g a 1 obtain e where e: "eo = Some e" "r0 = r" "dget (r_entries r) mid = Some e"
      by (cases eo) (auto simp: next_card_seq_def result_of_def entry_locked_Some)
    show thesis
      by (rule that [of e "\<lambda>x. x\<lparr>e_card_seq := e_card_seq e + 1\<rparr>"])
         (use g el e a 1 in \<open>auto simp: next_card_seq_def result_of_def then_return_def Let_def
            split: prod.splits sum.splits\<close>)
  next
    case (2 sk cid ct uid)
    obtain eo r0 where el: "entry_locked (t_check v) mid r = (eo, r0)"
      by (cases "entry_locked (t_check v) mid r")
    with g a 2 obtain e where e: "eo = Some e" "r0 = r" "dget (r_entries r) mid = Some e"
      by (cases eo) (auto simp: claim_edit_def result_of_def entry_locked_Some)
    show thesis
      by (rule that [of e "\<lambda>x. x\<lparr>e_card_seq := e_card_seq e + 1, e_state := Processing,
              e_claimed_event_id := Some (- (e_card_seq e + 1))\<rparr>"])
         (use g el e a 2 in \<open>auto simp: claim_edit_def result_of_def Let_def
            split: prod.splits sum.splits if_splits\<close>)
  qed
  have "on_entry (seq_from q) (update_entry mid f r) mid"
    using e f by (simp add: on_entry_def)
  then have "on_entry (seq_from q) (snd (card_step cs a r)) mid"
    using on_persist_eq [OF p wf_update_entry [OF wf f(1)]] by blast
  moreover have "n < q" using on_entryD [OF h e] q by simp
  ultimately show ?thesis by blast
qed

definition sequences :: "string \<Rightarrow> (env \<times> card_action) list \<Rightarrow> card_result list \<Rightarrow> int list" where
  "sequences mid as xs = List.map_filter (\<lambda>(a, x). sequence_of mid (snd a) x) (zip as xs)"

lemma sequences_Cons:
  "sequences mid (a # as) (x # xs) =
     (case sequence_of mid (snd a) x of None \<Rightarrow> sequences mid as xs
      | Some q \<Rightarrow> q # sequences mid as xs)"
  by (simp add: sequences_def List.map_filter_simps split: option.splits)

lemma sequences_from:
  assumes "wf_registry r" "on_entry (seq_from n) r mid"
    and "\<forall>a \<in> set as. \<forall>s. snd a = Register s \<longrightarrow> cs_message_id s \<noteq> mid"
  shows "sorted_wrt (<) (n # sequences mid as (fst (run_cards cs as r)))"
  using assms
proof (induction as arbitrary: r n)
  case Nil
  then show ?case by (simp add: sequences_def List.map_filter_simps)
next
  case (Cons a as)
  let ?x = "fst (card_step cs a r)" and ?r1 = "snd (card_step cs a r)"
  have run: "fst (run_cards cs (a # as) r) = ?x # fst (run_cards cs as ?r1)"
    by (simp add: Let_def split: prod.splits)
  have wf1: "wf_registry ?r1" using Cons.prems(1) by (rule wf_card_step)
  have rest: "\<forall>a \<in> set as. \<forall>s. snd a = Register s \<longrightarrow> cs_message_id s \<noteq> mid"
    using Cons.prems(3) by simp
  show ?case
  proof (cases "sequence_of mid (snd a) ?x")
    case None
    have "on_entry (seq_from n) ?r1 mid"
      using Cons.prems by (intro seq_step) auto
    from Cons.IH [OF wf1 this rest] show ?thesis
      unfolding run sequences_Cons None by simp
  next
    case (Some q)
    have q: "n < q" "on_entry (seq_from q) ?r1 mid"
      using seq_granted [OF Cons.prems(1,2) Some] by auto
    from Cons.IH [OF wf1 q(2) rest] q(1) show ?thesis
      unfolding run sequences_Cons Some by auto
  qed
qed

text \<open>
  C14. The edit sequence numbers of a card are handed out in strictly increasing order over any
  sequence of operations, failed writes and rolled-back claims included: no two edits of one
  registered card ever carry the same number, so a delayed edit cannot overwrite a newer one.
\<close>

theorem edit_sequences_increase:
  assumes "wf_registry r"
    and "\<forall>a \<in> set as. \<forall>s. snd a = Register s \<longrightarrow> cs_message_id s \<noteq> mid"
  shows "sorted_wrt (<) (sequences mid as (fst (run_cards cs as r)))"
proof -
  obtain n where "on_entry (seq_from n) r mid"
    by (cases "dget (r_entries r) mid") (auto simp: on_entry_def)
  from sequences_from [OF assms(1) this assms(2)] show ?thesis by simp
qed

section \<open>Restart\<close>

definition saved_records :: "registry \<Rightarrow> json list" where
  "saved_records r = List.map_filter entry_to_record (map snd (r_entries r))"

definition durable_entries :: "registry \<Rightarrow> card_entry list" where
  "durable_entries r = filter durable_entry (map snd (r_entries r))"

lemma saved_records_eq:
  "saved_records r = map (JObj \<circ> entry_record) (durable_entries r)"
proof -
  have "List.map_filter entry_to_record es = map (JObj \<circ> entry_record) (filter durable_entry es)" for es
    by (induction es) (auto simp: List.map_filter_simps entry_to_record_def)
  then show ?thesis by (simp add: saved_records_def durable_entries_def)
qed

lemma persist_saves:
  assumes "persist cs v r = (Inr u, r')" "r_persistence r = Some st"
  shows "\<exists>st'. r_persistence r' = Some st' \<and>
     fst (store_load cs t st') = Inr (filter (record_alive t) (map canon (saved_records r')))"
  using assms
proof -
  let ?r = "prune_locked (t_persist v) r"
  obtain x st' where x: "store_save cs (io_ok v) (saved_records ?r) st = (x, st')"
    by (cases "store_save cs (io_ok v) (saved_records ?r) st")
  have "persist cs v r = (map_sum PersistFailed id x, ?r\<lparr>r_persistence := Some st'\<rparr>)"
    using x assms(2) by (simp add: persist_def saved_records_def)
  with assms(1) have "x = Inr u" "r' = ?r\<lparr>r_persistence := Some st'\<rparr>" by (cases x; simp)+
  with card_store.load_saved x show ?thesis by (auto simp: saved_records_def)
qed

lemma record_alive_entry:
  "record_alive t (canon (JObj (entry_record e))) \<longleftrightarrow> \<not> flt_le (e_wall_expires_at e) (Fin t)"
proof -
  obtain d where d: "canon (JObj (entry_record e)) = JObj d" using canon_obj by blast
  have "jget d ''expires_at'' = JFloat (e_wall_expires_at e)"
    using jget_canon_obj [OF d wf_entry_record] by (simp add: entry_record_def Let_def)
  then show ?thesis unfolding d by (simp add: record_alive_def)
qed

lemma loaded_entries:
  "filter (record_alive t) (map canon (saved_records r)) =
     map (canon \<circ> JObj \<circ> entry_record)
       (filter (\<lambda>e. \<not> flt_le (e_wall_expires_at e) (Fin t)) (durable_entries r))"
proof -
  have "filter (record_alive t) (map (canon \<circ> JObj \<circ> entry_record) es) =
      map (canon \<circ> JObj \<circ> entry_record) (filter (\<lambda>e. \<not> flt_le (e_wall_expires_at e) (Fin t)) es)" for es
    by (induction es) (auto simp: record_alive_entry simp del: canon.simps)
  then show ?thesis by (simp add: saved_records_eq comp_assoc)
qed

lemma flt_le_later: "a \<le> b \<Longrightarrow> flt_le x (Fin a) \<Longrightarrow> flt_le x (Fin b)"
  by (cases x) auto

lemma restore_entries:
  assumes "\<forall>e \<in> set es. durable_entry e \<and> float_range (e_wall_expires_at e) \<and>
             bounded_message_id (cs_message_id (e_session e))"
    and "distinct (dkeys (r_entries r) @ map (cs_message_id \<circ> e_session) es)"
    and "length (r_entries r) + length es \<le> r_max_sessions r"
  shows "\<exists>n. restore_records repr v (map (canon \<circ> JObj \<circ> entry_record) es) k r =
     (Inr n, r\<lparr>r_entries := r_entries r @
        map (\<lambda>e. (cs_message_id (e_session e), restored_entry (t_wall v) (t_now v) e))
          (filter (\<lambda>e. \<not> flt_le (e_wall_expires_at e) (Fin (t_wall v))) es)\<rparr>)"
  using assms
proof (induction es arbitrary: r k)
  case (Cons e es)
  let ?d = "restored_entry (t_wall v) (t_now v) e"
  have mid: "cs_message_id (e_session ?d) = cs_message_id (e_session e)"
    by (simp add: restored_entry_def restored_session_def)
  show ?case
  proof (cases "flt_le (e_wall_expires_at e) (Fin (t_wall v))")
    case True
    obtain d where d: "canon (JObj (entry_record e)) = JObj d" using canon_obj by blast
    have "map_of d ''expires_at'' = Some (JFloat (e_wall_expires_at e))"
      using map_of_canon [OF d wf_entry_record] by (simp add: entry_record_def Let_def)
    then have "entry_from_record repr (t_wall v) (t_now v) (canon (JObj (entry_record e))) = Inl Rejected"
      unfolding d using True by (simp add: entry_from_record_def item_def deadline_def)
    then show ?thesis using Cons True by (simp del: canon.simps)
  next
    case False
    have "entry_from_record repr (t_wall v) (t_now v) (canon (JObj (entry_record e))) = Inr ?d"
      using Cons.prems(1) False by (intro entry_roundtrip) auto
    moreover have "dget (r_entries r) (cs_message_id (e_session e)) = None"
      using Cons.prems(2) by (auto simp: map_of_eq_None_iff)
    ultimately show ?thesis
      using Cons.prems False
        Cons.IH [of "r\<lparr>r_entries := r_entries r @ [(cs_message_id (e_session e), ?d)]\<rparr>" "k + 1"]
      by (simp add: mid dset_fresh del: canon.simps)
  qed
qed simp

lemma saved_keys:
  assumes wf: "wf_registry r" and p: "persist cs v r = (Inr u, r1)"
    and range: "\<forall>(k, e) \<in> set (r_entries r). float_range (e_wall_expires_at e)"
    and mem: "(k, e) \<in> set (r_entries r1)"
  shows "cs_message_id (e_session e) = k \<and> bounded_message_id k \<and> float_range (e_wall_expires_at e)"
proof -
  have wf1: "wf_registry r1" using p wf by (rule wf_persist_eq)
  have g: "dget (r_entries r1) k = Some e"
    using mem wf1 by (simp add: wf_registry_def dget_iff_mem)
  then have "dget (r_entries r) k = Some e"
    using dget_after_persist [OF p wf, of k] by simp
  then have "(k, e) \<in> set (r_entries r)" by (rule dget_mem)
  then show ?thesis using g wf1 range by (auto simp: wf_registry_def)
qed

lemma restored_table:
  assumes wf: "wf_registry r" and st: "r_persistence r = Some st"
    and p: "persist cs v r = (Inr u, r1)"
    and range: "\<forall>(k, e) \<in> set (r_entries r). float_range (e_wall_expires_at e)"
    and fresh: "r_entries r0 = []" "r_max_sessions r0 = r_max_sessions r"
    and clock: "t_load w \<le> t_wall w"
    and a: "attach_persistence repr cs w (the (r_persistence r1)) r0 = (res, r2)"
  shows "r_max_sessions r2 = r_max_sessions r \<and> r_entries r2 =
    map (\<lambda>(k, e). (k, restored_entry (t_wall w) (t_now w) e))
      (filter (\<lambda>(k, e). durable_entry e \<and> \<not> flt_le (e_wall_expires_at e) (Fin (t_wall w))) (r_entries r1))"
proof -
  obtain st' where st': "r_persistence r1 = Some st'"
    and load: "fst (store_load cs (t_load w) st') =
        Inr (filter (record_alive (t_load w)) (map canon (saved_records r1)))"
    using persist_saves [OF p st] by blast
  have wf1: "wf_registry r1" using p wf by (rule wf_persist_eq)
  have max1: "r_max_sessions r1 = r_max_sessions r"
    using persist_shrinks [OF p] by (simp add: shrinks_def)
  let ?d = "filter (\<lambda>(k, e). durable_entry e \<and> \<not> flt_le (e_wall_expires_at e) (Fin (t_load w)))
             (r_entries r1)"
  let ?es = "map snd ?d"
  have es: "filter (\<lambda>e. \<not> flt_le (e_wall_expires_at e) (Fin (t_load w))) (durable_entries r1) = ?es"
    by (simp add: durable_entries_def filter_map comp_def case_prod_unfold conj_commute)
  obtain st2 where l: "store_load cs (t_load w) st' = (Inr (map (canon \<circ> JObj \<circ> entry_record) ?es), st2)"
    using load unfolding loaded_entries es by (cases "store_load cs (t_load w) st'") auto
  note key = saved_keys [OF wf p range]
  have mids: "map (cs_message_id \<circ> e_session) (map snd d) = map fst d"
    "map (\<lambda>e. (cs_message_id (e_session e), f e)) (map snd d) = map (\<lambda>(k, e). (k, f e)) d"
    if "set d \<subseteq> set (r_entries r1)" for d and f :: "card_entry \<Rightarrow> card_entry"
    using that key by (induction d) auto
  have wfd: "wf_dict (r_entries r1)" using wf1 by (simp add: wf_registry_def)
  let ?r = "(set_persistence (Some st') r0)\<lparr>r_persistence := Some st2\<rparr>"
  have "length (r_entries ?r) + length ?es \<le> r_max_sessions ?r"
    using wf1 max1 fresh(2)
    by (auto simp: wf_registry_def set_persistence_def fresh(1)
        intro: order_trans [OF length_filter_le])
  moreover have "distinct (dkeys (r_entries ?r) @ map (cs_message_id \<circ> e_session) ?es)"
  proof -
    have "map (cs_message_id \<circ> e_session) ?es = map fst ?d" by (rule mids(1)) auto
    moreover have "r_entries ?r = []" by (simp add: set_persistence_def fresh(1))
    moreover have "wf_dict ?d" using wfd by (rule wf_filter)
    ultimately show ?thesis by (simp only: list.map append_Nil)
  qed
  moreover have "\<forall>e \<in> set ?es. durable_entry e \<and> float_range (e_wall_expires_at e) \<and>
             bounded_message_id (cs_message_id (e_session e))"
    using key by auto
  ultimately obtain n where n: "restore_records repr w (map (canon \<circ> JObj \<circ> entry_record) ?es) 0 ?r =
      (Inr n, ?r\<lparr>r_entries := r_entries ?r @
        map (\<lambda>e. (cs_message_id (e_session e), restored_entry (t_wall w) (t_now w) e))
          (filter (\<lambda>e. \<not> flt_le (e_wall_expires_at e) (Fin (t_wall w))) ?es)\<rparr>)"
    using restore_entries [of ?es ?r repr w 0] by blast
  let ?d2 = "filter (\<lambda>(k, e). \<not> flt_le (e_wall_expires_at e) (Fin (t_wall w))) ?d"
  have e2: "filter (\<lambda>e. \<not> flt_le (e_wall_expires_at e) (Fin (t_wall w))) ?es = map snd ?d2"
    by (simp add: filter_map comp_def case_prod_unfold)
  let ?d3 = "filter (\<lambda>(k, e). durable_entry e \<and> \<not> flt_le (e_wall_expires_at e) (Fin (t_wall w))) (r_entries r1)"
  have d3: "?d2 = ?d3"
    using flt_le_later [OF clock] by (auto simp: filter_filter intro!: filter_cong)
  have "attach_persistence repr cs w st' r0 =
      restore_records repr w (map (canon \<circ> JObj \<circ> entry_record) ?es) 0 ?r"
    using l by (simp add: attach_persistence_def restore_locked_def set_persistence_def)
  moreover have "map (\<lambda>e. (cs_message_id (e_session e), restored_entry (t_wall w) (t_now w) e)) (map snd ?d2)
      = map (\<lambda>(k, e). (k, restored_entry (t_wall w) (t_now w) e)) ?d2"
    by (rule mids(2)) auto
  ultimately show ?thesis
    using a n st' e2 unfolding d3 by (auto simp add: set_persistence_def fresh simp del: map_map)
qed

text \<open>
  C4. After every operation whose write returned, the durable store holds the whole durable
  state of the registry: a process that dies at any later point and attaches the store again
  finds, for every message id, exactly the entry the registry held, with its card, labels,
  attempt counter, edit sequence and absolute deadline; only an action that was in flight is
  pending again and its owner forgotten. Entries that are not durable or have expired are gone.
\<close>

theorem restart_restores:
  assumes wf: "wf_registry r" and st: "r_persistence r = Some st"
    and p: "persist cs v r = (Inr u, r1)"
    and range: "\<forall>(k, e) \<in> set (r_entries r). float_range (e_wall_expires_at e)"
    and fresh: "r_entries r0 = []" "r_max_sessions r0 = r_max_sessions r"
    and clock: "t_load w \<le> t_wall w"
    and a: "attach_persistence repr cs w (the (r_persistence r1)) r0 = (res, r2)"
  shows "dget (r_entries r2) mid =
     (case dget (r_entries r1) mid of
        None \<Rightarrow> None
      | Some e \<Rightarrow>
          if durable_entry e \<and> \<not> flt_le (e_wall_expires_at e) (Fin (t_wall w))
          then Some (restored_entry (t_wall w) (t_now w) e) else None)"
proof -
  have "wf_dict (r_entries r1)" using wf_persist_eq [OF p wf] by (simp add: wf_registry_def)
  then show ?thesis
    using restored_table [OF assms] by (simp add: map_of_map dget_filter split: option.split)
qed

lemma restart_keeps_completed:
  assumes wf: "wf_registry r" and st: "r_persistence r = Some st"
    and p: "persist cs v r = (Inr u, r1)"
    and range: "\<forall>(k, e) \<in> set (r_entries r). float_range (e_wall_expires_at e)"
    and fresh: "r_entries r0 = []" "r_max_sessions r0 = r_max_sessions r"
    and clock: "t_load w \<le> t_wall w"
    and a: "attach_persistence repr cs w (the (r_persistence r1)) r0 = (res, r2)"
    and kept: "on_entry (held_by {}) r1 mid"
  shows "wf_registry r2" "on_entry (held_by {}) r2 mid"
proof -
  have wf1: "wf_registry r1" using p wf by (rule wf_persist_eq)
  then have wfd: "wf_dict (r_entries r1)" by (simp add: wf_registry_def)
  note t = restored_table [OF assms(1-8)]
  have g: "dget (r_entries r2) k = Some e \<Longrightarrow>
      \<exists>e1. dget (r_entries r1) k = Some e1 \<and> e = restored_entry (t_wall w) (t_now w) e1" for k e
    using t wfd by (auto simp: map_of_map dget_filter split: option.splits if_splits)
  have "r_max_sessions r1 = r_max_sessions r" using persist_shrinks [OF p] by (simp add: shrinks_def)
  moreover have "length (r_entries r2) \<le> length (r_entries r1)" using t by simp
  moreover have keys: "cs_message_id (e_session e) = k \<and> bounded_message_id k"
    if "dget (r_entries r2) k = Some e" for k e
    using g[OF that] wf1 by (auto simp: wf_registry_def restored_entry_def restored_session_def)
  moreover have "wf_dict (r_entries r2)"
    using t wf_filter[OF wfd] by (simp add: comp_def case_prod_unfold)
  ultimately show "wf_registry r2"
    using t wf1 keys unfolding wf_registry_def by (metis le_trans)
  show "on_entry (held_by {}) r2 mid"
    using g kept by (fastforce simp: on_entry_def held_by_def restored_entry_def split: option.splits)
qed

section \<open>Completed actions\<close>

lemma completed_state:
  assumes wf: "wf_registry r" and e: "dget (r_entries r) mid = Some e" "holds_claim ev e"
    and c: "complete cs v mid ev r = (res, r1)"
  obtains r' where "persist cs v r' = (res, r1)" "wf_registry r'" "on_entry (held_by {}) r' mid"
    "r_persistence r' = r_persistence r" "r_max_sessions r' = r_max_sessions r"
    "(\<forall>(k, e) \<in> set (r_entries r). float_range (e_wall_expires_at e)) \<longrightarrow>
     (\<forall>(k, e) \<in> set (r_entries r'). float_range (e_wall_expires_at e))"
proof (cases "entry_locked (t_check v) mid r")
  case (Pair eo r0)
  show ?thesis
  proof (cases eo)
    case None
    have "wf_registry r0" using Pair wf by (rule wf_entry_locked)
    moreover have "on_entry (held_by {}) r0 mid"
      using entry_locked_None Pair None by (simp add: on_entry_def)
    moreover have "r_persistence r0 = r_persistence r" "r_max_sessions r0 = r_max_sessions r"
      "set (r_entries r0) \<subseteq> set (r_entries r)"
      using Pair by (auto simp: entry_locked_def prune_locked_def prune_entries_def AList.delete_eq split: option.splits if_splits)
    ultimately show ?thesis using that[of r0] c Pair None by (auto simp: complete_def)
  next
    case (Some e')
    then have e': "r0 = r" "e' = e" using Pair e(1) by (simp_all add: entry_locked_Some)
    let ?r = "update_entry mid (\<lambda>e. e\<lparr>e_state := Completed\<rparr>) r"
    have "on_entry (held_by {}) ?r mid" using e(1) by (simp add: on_entry_def held_by_def)
    moreover have "wf_registry ?r" using wf by (simp add: wf_update_entry)
    moreover have "persist cs v ?r = (res, r1)" using e(2) c Pair Some e' by (simp add: complete_def)
    moreover have "r_persistence ?r = r_persistence r" "r_max_sessions ?r = r_max_sessions r"
      "set (r_entries ?r) \<subseteq> insert (mid, e\<lparr>e_state := Completed\<rparr>) (set (r_entries r))"
      using e(1) by (auto simp: update_entry_def dest: dset_mem)
    ultimately show ?thesis using that[of ?r] dget_mem[OF e(1)] by fastforce
  qed
qed


section \<open>Examples\<close>

definition sample_session :: card_session where
  "sample_session = \<lparr>cs_message_id = ''m1'', cs_binding_id = ''b'', cs_session_key = ''k'',
     cs_chat_id = ''c'', cs_channel_id = ''c'', cs_channel_type = DM, cs_requester_uid = ''u'',
     cs_card = [(''type'', JStr ''AdaptiveCard''), (''body'', JArr [])], cs_plain = ''p'',
     cs_action_labels = [(''ok'', ''OK'')], cs_input_ids = [''i''], cs_action_channel_ids = [],
     cs_max_input_text_bytes = Some 10, cs_max_inputs_bytes = None, cs_clarify = None,
     cs_kind = ''interactive''\<rparr>"

definition sample_env :: env where
  "sample_env = \<lparr>t_check = 0, t_now = 0, t_persist = 0, t_load = 0, t_wall = 0, io_ok = True\<rparr>"

definition sample_store :: binding_store where
  "sample_store = \<lparr>b_robot_id = ''r'', b_file = FMissing, b_corrupt = False\<rparr>"

definition sample_entry :: "claim_state \<Rightarrow> int option \<Rightarrow> card_entry" where
  "sample_entry st c = \<lparr>e_session = sample_session, e_expires_at = Fin 60, e_wall_expires_at = Fin 60,
     e_state = st, e_claimed_event_id = c, e_attempt_event_id = c, e_dispatch_attempts = 1,
     e_card_seq = 0\<rparr>"

definition sample_registry :: "claim_state \<Rightarrow> int option \<Rightarrow> registry" where
  "sample_registry st c = \<lparr>r_max_sessions = 4, r_ttl_seconds = 60, r_max_dispatch_attempts = 3,
     r_entries = [(''m1'', sample_entry st c)], r_persistence = Some sample_store\<rparr>"

lemma wf_sample_registry: "wf_registry (sample_registry st c)"
  by (simp add: wf_registry_def sample_registry_def sample_entry_def sample_session_def
      bounded_message_id_def)

lemmas sample_simps =
  sample_registry_def sample_entry_def sample_env_def entry_locked_def expired_def
  prune_locked_def prune_entries_def update_entry_def start_claim_def

theorem claim_exclusive_witness:
  "\<exists>s n r1. claim (\<lambda>_. []) sample_env ''m1'' 7 (sample_registry Pending None) = (Inr (ClaimedCard s n), r1) \<and>
     list_all2 (\<lambda>a x. \<not> grants ''m1'' (snd a) x)
       [(sample_env, Claim ''m1'' 8), (sample_env, Release ''m1'' 8), (sample_env, Claim ''m1'' 7)]
       (fst (run_cards (\<lambda>_. [])
         [(sample_env, Claim ''m1'' 8), (sample_env, Release ''m1'' 8), (sample_env, Claim ''m1'' 7)] r1))"
proof -
  have "\<exists>s n. fst (claim (\<lambda>_. []) sample_env ''m1'' 7 (sample_registry Pending None)) =
      Inr (ClaimedCard s n)"
    by (simp add: claim_def sample_simps persist_def store_save_def write_document_def sample_store_def)
  then obtain s n r1 where
    c: "claim (\<lambda>_. []) sample_env ''m1'' 7 (sample_registry Pending None) = (Inr (ClaimedCard s n), r1)"
    by (metis prod.collapse)
  show ?thesis
    by (intro exI conjI, rule c, rule claim_exclusive [OF wf_sample_registry c]) simp
qed


theorem edit_sequences_increase_witness:
  "sorted_wrt (<) (sequences ''m1'' [(sample_env, NextSeq ''m1''), (sample_env, NextSeq ''m1'')]
     (fst (run_cards (\<lambda>_. []) [(sample_env, NextSeq ''m1''), (sample_env, NextSeq ''m1'')]
        (sample_registry Pending None))))"
  by (rule edit_sequences_increase [OF wf_sample_registry]) simp

theorem restart_restores_witness:
  "\<exists>e r1 res r2.
     persist (\<lambda>_. []) sample_env (sample_registry Processing (Some 7)) = (Inr (), r1) \<and>
     attach_persistence (\<lambda>_. []) (\<lambda>_. []) sample_env (the (r_persistence r1))
       ((sample_registry Pending None)\<lparr>r_entries := []\<rparr>) = (res, r2) \<and>
     dget (r_entries r2) ''m1'' = Some e \<and> e_state e = Pending \<and> e_dispatch_attempts e = 1"
proof -
  let ?r = "sample_registry Processing (Some 7)"
  obtain x r1 where p: "persist (\<lambda>_. []) sample_env ?r = (x, r1)"
    by (cases "persist (\<lambda>_. []) sample_env ?r")
  have r1: "x = Inr ()" "dget (r_entries r1) ''m1'' = Some (sample_entry Processing (Some 7))"
    using p by (auto simp: persist_def sample_simps store_save_def write_document_def sample_store_def)
  obtain res r2 where a: "attach_persistence (\<lambda>_. []) (\<lambda>_. []) sample_env (the (r_persistence r1))
       ((sample_registry Pending None)\<lparr>r_entries := []\<rparr>) = (res, r2)"
    by (cases "attach_persistence (\<lambda>_. []) (\<lambda>_. []) sample_env (the (r_persistence r1))
       ((sample_registry Pending None)\<lparr>r_entries := []\<rparr>)")
  have "dget (r_entries r2) ''m1'' =
      Some (restored_entry 0 0 (sample_entry Processing (Some 7)))"
    using restart_restores [OF wf_sample_registry _ p [unfolded r1(1)] _ _ _ _ a, of sample_store "''m1''"] r1(2)
    by (simp add: sample_registry_def sample_entry_def sample_env_def float_range_def
        durable_entry_def flt_truthy_def sample_session_def)
  then show ?thesis
    using p r1 a by (auto simp: restored_entry_def sample_entry_def)
qed

end
