(* ===== verification/CardActions.thy ===== *)
theory CardActions
  imports JsonText CardClaims
begin

text \<open>
  Models the trusted part of \<open>card_events.py\<close> and the choice logic of \<open>clarify.py\<close>: parsing
  the server's \<open>card_action\<close> envelope, checking it against the session the card was sent for,
  and the handler that claims, validates, dispatches and bounds the retries of one action.

  The dispatcher and the status callback of the handler are the adapter's; what they do in one
  call is part of the handler's environment. The handler's visible steps are its trace.
\<close>

section \<open>Parsing the envelope\<close>

definition MAX_SAFE_EVENT_ID :: int where "MAX_SAFE_EVENT_ID = 2 ^ 53 - 1"

fun safe_event_id :: "json \<Rightarrow> int option" where
  "safe_event_id (JInt v) = (if v < 0 \<or> v > MAX_SAFE_EVENT_ID then None else Some v)"
| "safe_event_id _ = None"

record action_event =
  a_event_id :: int
  a_message_id :: string
  a_channel_id :: string
  a_channel_type :: channel_type
  a_action_id :: string
  a_inputs :: "(string \<times> string) list"
  a_operator_uid :: string
  a_data :: "(string \<times> json) list"

fun bounded_string :: "json \<Rightarrow> nat \<Rightarrow> string" where
  "bounded_string (JStr s) max_chars =
     (let candidate = strip s in
      if candidate = [] \<or> length candidate > max_chars \<or>
         list_ex (\<lambda>c. c = CHR 0x00 \<or> c = CHR 0x0D \<or> c = CHR 0x0A) candidate
      then [] else candidate)"
| "bounded_string _ _ = []"

fun event_channel_type :: "json \<Rightarrow> channel_type option" where
  "event_channel_type (JInt i) = channel_of_int i"
| "event_channel_type (JStr s) =
     (if s = ''1'' then Some DM else if s = ''2'' then Some Group
      else if s = ''5'' then Some CommunityTopic else None)"
| "event_channel_type _ = None"

definition card_id :: "string \<Rightarrow> bool" where
  "card_id s \<longleftrightarrow> matches ''_.:-'' 64 s"

datatype input_value = Normal string | Skip | Refuse

fun normalize_input :: "float_repr \<Rightarrow> json \<Rightarrow> input_value" where
  "normalize_input fr (JStr s) = Normal s"
| "normalize_input fr (JBool b) = Normal (if b then ''true'' else ''false'')"
| "normalize_input fr (JInt i) = (if \<bar>i\<bar> > MAX_SAFE_EVENT_ID then Refuse else Normal (int_str i))"
| "normalize_input fr (JFloat (Fin r)) = Normal (fr r)"
| "normalize_input fr (JFloat _) = Refuse"
| "normalize_input fr _ = Skip"

fun parse_inputs :: "float_repr \<Rightarrow> (string \<times> json) list \<Rightarrow> (string \<times> string) list \<Rightarrow> (string \<times> string) list option" where
  "parse_inputs fr [] acc = Some acc"
| "parse_inputs fr ((k, v) # rest) acc =
     (if \<not> card_id k then None
      else (case normalize_input fr v of
              Refuse \<Rightarrow> None
            | Skip \<Rightarrow> parse_inputs fr rest acc
            | Normal s \<Rightarrow> if utf8_len s > 16384 then None else parse_inputs fr rest (dset k s acc)))"

definition inputs_json :: "(string \<times> string) list \<Rightarrow> json" where
  "inputs_json inputs = JObj (map (\<lambda>(k, v). (k, JStr v)) inputs)"

definition action_inputs :: "float_repr \<Rightarrow> json \<Rightarrow> (string \<times> string) list option" where
  "action_inputs fr v =
     (case v of
        JNull \<Rightarrow> Some []
      | JObj kvs \<Rightarrow> if length kvs > 128 then None else parse_inputs fr kvs []
      | _ \<Rightarrow> None)"

definition action_data :: "json \<Rightarrow> (string \<times> json) list option" where
  "action_data v =
     (case v of
        JNull \<Rightarrow> Some []
      | JObj kvs \<Rightarrow> if length kvs \<le> 128 \<and> list_all (card_id \<circ> fst) kvs then Some kvs else None
      | _ \<Rightarrow> None)"

definition parse_card_action :: "float_repr \<Rightarrow> json \<Rightarrow> action_event option" where
  "parse_card_action fr event =
     (case event of
        JObj ev \<Rightarrow>
          (case safe_event_id (jget ev ''event_id'') of
             None \<Rightarrow> None
           | Some event_id \<Rightarrow>
               if jget ev ''event_type'' \<noteq> JStr ''card_action'' then None
               else
                 (case jget ev ''event_data'' of
                    JObj raw \<Rightarrow>
                      (let mid = bounded_string (jget raw ''message_id'') 256;
                           cid = bounded_string (jget raw ''channel_id'') 256;
                           aid = bounded_string (jget raw ''action_id'') 64;
                           uid = bounded_string (jget raw ''operator_uid'') 128
                       in if mid = [] \<or> cid = [] \<or> aid = [] \<or> uid = [] then None
                          else
                            (case event_channel_type (jget raw ''channel_type'') of
                               None \<Rightarrow> None
                             | Some ct \<Rightarrow>
                                 (case (action_inputs fr (jget raw ''inputs''),
                                        action_data (jget raw ''data'')) of
                                    (Some inputs, Some data) \<Rightarrow>
                                      if int (utf8_len (json_text fr (JObj [(''inputs'', inputs_json inputs),
                                                                       (''data'', JObj data)]))) > 65536
                                      then None
                                      else Some \<lparr>a_event_id = event_id, a_message_id = mid,
                                                 a_channel_id = cid, a_channel_type = ct,
                                                 a_action_id = aid, a_inputs = inputs,
                                                 a_operator_uid = uid, a_data = data\<rparr>
                                  | _ \<Rightarrow> None)))
                  | _ \<Rightarrow> None))
      | _ \<Rightarrow> None)"

section \<open>Matching an action with its session\<close>

definition channel_matches :: "action_event \<Rightarrow> card_session \<Rightarrow> bool" where
  "channel_matches a s \<longleftrightarrow>
     (if a_channel_type a = DM
      then a_channel_id a \<in> set (if cs_action_channel_ids s = [] then [cs_channel_id s]
                                else cs_action_channel_ids s)
      else a_channel_id a = cs_channel_id s)"

definition or_int :: "int option \<Rightarrow> int \<Rightarrow> int" where
  \<comment> \<open>\<open>value or default\<close>\<close>
  "or_int v d = (case v of None \<Rightarrow> d | Some i \<Rightarrow> if i = 0 then d else i)"

definition action_matches_session :: "float_repr \<Rightarrow> action_event \<Rightarrow> card_session \<Rightarrow> bool" where
  "action_matches_session fr a s \<longleftrightarrow>
     a_message_id a = cs_message_id s \<and> channel_matches a s \<and>
     a_channel_type a = cs_channel_type s \<and> a_operator_uid a = cs_requester_uid s \<and>
     a_action_id a \<in> fst ` set (cs_action_labels s) \<and>
     jget (a_data a) ''_octo_binding'' = JStr (cs_binding_id s) \<and>
     list_all (\<lambda>(k, v). card_id k \<and> k \<in> set (cs_input_ids s) \<and>
                         int (utf8_len v) \<le> or_int (cs_max_input_text_bytes s) 4096) (a_inputs a) \<and>
     int (utf8_len (json_text_sorted fr (inputs_json (a_inputs a)))) \<le> or_int (cs_max_inputs_bytes s) 16384"

definition reasoning_action_matches_session :: "action_event \<Rightarrow> card_session \<Rightarrow> bool" where
  "reasoning_action_matches_session a s \<longleftrightarrow>
     cs_kind s = ''reasoning'' \<and> a_message_id a = cs_message_id s \<and> channel_matches a s \<and>
     a_channel_type a = cs_channel_type s \<and> a_operator_uid a = cs_requester_uid s \<and>
     a_action_id a \<in> fst ` set (cs_action_labels s) \<and> a_inputs a = [] \<and>
     jget (a_data a) ''reasoningId'' = JStr (cs_binding_id s)"

section \<open>Clarify choices\<close>

fun split_comma :: "string \<Rightarrow> string list" where
  \<comment> \<open>\<open>s.split(",")\<close>\<close>
  "split_comma [] = [[]]"
| "split_comma (c # cs) =
     (if c = CHR '','' then [] # split_comma cs
      else (case split_comma cs of [] \<Rightarrow> [[c]] | x # xs \<Rightarrow> (c # x) # xs))"

definition selected_ids :: "clarify_session \<Rightarrow> string \<Rightarrow> action_event \<Rightarrow> string list" where
  "selected_ids cl input_id a =
     (let raw = (case map_of (a_inputs a) input_id of None \<Rightarrow> [] | Some v \<Rightarrow> v)
      in if raw = [] then [] else split_comma raw)"

definition selection_ok :: "clarify_session \<Rightarrow> string list \<Rightarrow> bool" where
  "selection_ok cl ids \<longleftrightarrow>
     ids \<noteq> [] \<and> list_all (\<lambda>v. v \<noteq> [] \<and> strip v = v) ids \<and> distinct ids \<and>
     set ids \<subseteq> set (map fst (cl_action_choices cl))"

definition chosen :: "clarify_session \<Rightarrow> string list \<Rightarrow> string list" where
  "chosen cl ids = map snd (filter (\<lambda>(cid, _). cid \<in> set ids) (cl_action_choices cl))"

definition selected_choices :: "clarify_session \<Rightarrow> action_event \<Rightarrow> string list" where
  "selected_choices cl a =
     (if a_action_id a = cl_other_action_id cl then []
      else if \<not> cl_multi_select cl
      then map snd (filter (\<lambda>(aid, _). aid = a_action_id a) (cl_action_choices cl))
      else (case cl_input_id cl of
              None \<Rightarrow> []
            | Some input_id \<Rightarrow>
                if Some (a_action_id a) \<noteq> cl_confirm_action_id cl then []
                else (let ids = selected_ids cl input_id a
                      in if selection_ok cl ids then chosen cl ids else [])))"

record clarify_entry =
  ce_id :: nat
  ce_session_key :: string
  ce_question :: string
  ce_choices :: "string list"
  ce_multi_select :: bool

definition entry_matches_session :: "clarify_entry \<Rightarrow> card_session \<Rightarrow> clarify_session \<Rightarrow> bool" where
  "entry_matches_session e s cl \<longleftrightarrow>
     ce_id e = cl_entry cl \<and> ce_session_key e = cs_session_key s \<and>
     ce_question e = cl_question cl \<and> ce_choices e = cl_choices cl \<and>
     ce_multi_select e = cl_multi_select cl"

datatype clarify_call = MarkAwaiting string | Resolve string string

datatype dispatch_status = NotClarify | Status string | Declined

definition clarify_dispatch ::
  "float_repr \<Rightarrow> (string \<Rightarrow> clarify_entry option) \<Rightarrow> (clarify_call \<Rightarrow> bool) \<Rightarrow> card_session \<Rightarrow> action_event
     \<Rightarrow> dispatch_status \<times> clarify_call list" where
  \<comment> \<open>the gateway's entries and its two resolving calls are parameters; the calls made are returned\<close>
  "clarify_dispatch fr entries gateway s a =
     (case cs_clarify s of
        None \<Rightarrow> (NotClarify, [])
      | Some cl \<Rightarrow>
          (case entries (cl_clarify_id cl) of
             None \<Rightarrow> (Status ''expired'', [])
           | Some e \<Rightarrow>
               if \<not> entry_matches_session e s cl then (Status ''expired'', [])
               else if a_action_id a = cl_other_action_id cl then
                 (let c = MarkAwaiting (cl_clarify_id cl)
                  in (Status (if gateway c then ''awaiting_text'' else ''expired''), [c]))
               else if \<not> cl_multi_select cl then
                 (case map_of (cl_action_choices cl) (a_action_id a) of
                    None \<Rightarrow> (Declined, [])
                  | Some response \<Rightarrow>
                      (let c = Resolve (cl_clarify_id cl) response
                       in (Status (if gateway c then ''completed'' else ''expired''), [c])))
               else
                 (case cl_input_id cl of
                    None \<Rightarrow> (Declined, [])
                  | Some input_id \<Rightarrow>
                      if Some (a_action_id a) \<noteq> cl_confirm_action_id cl then (Declined, [])
                      else
                        (let ids = selected_ids cl input_id a
                         in if \<not> selection_ok cl ids then (Declined, [])
                            else
                              (let c = Resolve (cl_clarify_id cl)
                                         (json_text fr (JArr (map JStr (chosen cl ids))))
                               in (Status (if gateway c then ''completed'' else ''expired''), [c]))))))"

section \<open>Handling one action\<close>

datatype dispatch_outcome =
  DispatchBool bool | DispatchStatus string | DispatchFails | DispatchCancelled

datatype handled =
  Returned string | CancelledError | RegistryRaised card_error | DispatchRaised

datatype handler_event = StatusShown string bool | Dispatched card_session action_event

record handler_env =
  h_claim :: env                \<comment> \<open>of \<open>registry.claim\<close>\<close>
  h_finish :: env               \<comment> \<open>of the \<open>release\<close> or \<open>complete\<close> that follows\<close>
  h_has_status :: bool          \<comment> \<open>a status callback is given\<close>
  h_cancel_early :: bool        \<comment> \<open>the status call before the dispatch is cancelled\<close>
  h_cancel_late :: bool         \<comment> \<open>the status call at the end is cancelled\<close>
  h_dispatch :: "card_session \<Rightarrow> action_event \<Rightarrow> dispatch_outcome"

type_synonym handler_result = "handled \<times> handler_event list \<times> registry"

definition status_events :: "handler_env \<Rightarrow> string \<Rightarrow> bool \<Rightarrow> handler_event list" where
  \<comment> \<open>\<open>_update_action_status\<close>: a callback that raises is logged and forgotten\<close>
  "status_events h status transient = (if h_has_status h then [StatusShown status transient] else [])"

definition finish_then :: "(card_error + unit) \<times> registry \<Rightarrow> (registry \<Rightarrow> handler_result) \<Rightarrow> handler_result" where
  \<comment> \<open>a raise of the registry leaves the handler\<close>
  "finish_then x k = (case x of (Inl e, r) \<Rightarrow> (RegistryRaised e, [], r) | (Inr _, r) \<Rightarrow> k r)"

definition with_events :: "handler_event list \<Rightarrow> handler_result \<Rightarrow> handler_result" where
  "with_events evs x = (case x of (res, evs', r) \<Rightarrow> (res, evs @ evs', r))"

definition show_final :: "handler_env \<Rightarrow> string \<Rightarrow> string \<Rightarrow> registry \<Rightarrow> handler_result" where
  \<comment> \<open>the last status update, then the return value\<close>
  "show_final h status ret r =
     (if h_has_status h \<and> h_cancel_late h then (CancelledError, status_events h status False, r)
      else (Returned ret, status_events h status False, r))"

definition accepted_status :: "dispatch_outcome \<Rightarrow> string" where
  "accepted_status d =
     (case d of DispatchStatus s \<Rightarrow> s
      | DispatchBool b \<Rightarrow> if b then ''completed'' else ''ignored'' | _ \<Rightarrow> [])"

definition TERMINAL_STATUSES :: "string list" where
  "TERMINAL_STATUSES = [''completed'', ''awaiting_text'', ''expired'', ''failed'']"

definition invalid_selection :: "card_session \<Rightarrow> action_event \<Rightarrow> bool" where
  "invalid_selection s a \<longleftrightarrow>
     (case cs_clarify s of
        None \<Rightarrow> False
      | Some cl \<Rightarrow> cl_multi_select cl \<and> Some (a_action_id a) = cl_confirm_action_id cl \<and>
                   selected_choices cl a = [])"

definition dispatch_claimed ::
  "checksum_fn \<Rightarrow> handler_env \<Rightarrow> action_event \<Rightarrow> card_session \<Rightarrow> int \<Rightarrow> registry \<Rightarrow> handler_result" where
  \<comment> \<open>from the \<open>try\<close> around the dispatch to the end of \<open>handle_card_action\<close>\<close>
  "dispatch_claimed cs h a s attempts r =
     (let mid = a_message_id a; ev = a_event_id a;
          early = status_events h ''processing'' True;
          release_it = release cs (h_finish h) mid ev r;
          complete_it = complete cs (h_finish h) mid ev r
      in if h_has_status h \<and> h_cancel_early h
         then with_events early (finish_then release_it (\<lambda>r. (CancelledError, [], r)))
         else
           with_events (early @ [Dispatched s a])
             (case h_dispatch h s a of
                DispatchCancelled \<Rightarrow> finish_then release_it (\<lambda>r. (CancelledError, [], r))
              | DispatchFails \<Rightarrow>
                  if attempts \<ge> r_max_dispatch_attempts r
                  then finish_then complete_it (show_final h ''failed'' ''dead_letter'')
                  else finish_then release_it (\<lambda>r. (DispatchRaised, [], r))
              | d \<Rightarrow>
                  (let status = accepted_status d
                   in if status \<notin> set TERMINAL_STATUSES
                      then finish_then release_it (show_final h ''failed'' ''ignored'')
                      else finish_then complete_it (show_final h status status))))"

definition handle_card_action ::
  "float_repr \<Rightarrow> checksum_fn \<Rightarrow> handler_env \<Rightarrow> action_event \<Rightarrow> registry \<Rightarrow> handler_result" where
  "handle_card_action fr cs h a r =
     (case claim cs (h_claim h) (a_message_id a) (a_event_id a) r of
        (Inl e, r1) \<Rightarrow> (RegistryRaised e, [], r1)
      | (Inr MissingClaim, r1) \<Rightarrow> (Returned ''missing'', [], r1)
      | (Inr (DuplicateClaim s), r1) \<Rightarrow>
          (Returned (if action_matches_session fr a s then ''duplicate'' else ''ignored''), [], r1)
      | (Inr (ClaimedCard s attempts), r1) \<Rightarrow>
          (let release_it = release cs (h_finish h) (a_message_id a) (a_event_id a) r1
           in if \<not> action_matches_session fr a s
              then finish_then release_it (\<lambda>r. (Returned ''ignored'', [], r))
              else if invalid_selection s a
              then finish_then release_it
                     (\<lambda>r. if h_has_status h \<and> h_cancel_early h
                          then (CancelledError, status_events h ''invalid'' False, r)
                          else (Returned ''invalid'', status_events h ''invalid'' False, r))
              else dispatch_claimed cs h a s attempts r1))"

definition handle_reasoning_card_action ::
  "checksum_fn \<Rightarrow> env \<Rightarrow> env \<Rightarrow> env \<Rightarrow> action_event \<Rightarrow> registry \<Rightarrow> (card_error + string option) \<times> registry" where
  "handle_reasoning_card_action cs v1 v2 v3 a r =
     (case peek v1 (a_message_id a) r of
        (Inl e, r1) \<Rightarrow> (Inl e, r1)
      | (Inr None, r1) \<Rightarrow> (Inr None, r1)
      | (Inr (Some s0), r1) \<Rightarrow>
          if cs_kind s0 \<noteq> ''reasoning'' then (Inr None, r1)
          else
            (case claim cs v2 (a_message_id a) (a_event_id a) r1 of
               (Inl e, r2) \<Rightarrow> (Inl e, r2)
             | (Inr MissingClaim, r2) \<Rightarrow> (Inr (Some ''missing''), r2)
             | (Inr (DuplicateClaim s), r2) \<Rightarrow>
                 (Inr (Some (if reasoning_action_matches_session a s then ''duplicate'' else ''ignored'')), r2)
             | (Inr (ClaimedCard s n), r2) \<Rightarrow>
                 if \<not> reasoning_action_matches_session a s
                 then then_return (release cs v3 (a_message_id a) (a_event_id a)) (Some ''ignored'') r2
                 else then_return (complete cs v3 (a_message_id a) (a_event_id a)) (Some ''unsupported'') r2))"

end
