(* ===== verification/CardHandling.thy ===== *)
theory CardHandling
  imports CardActions
begin

text \<open>
  The guarantees of \<open>handle_card_action\<close> over any sequence of deliveries (\<open>run_actions\<close>): an
  action is dispatched only when it matches the trusted session of its card, a terminal
  outcome is final, and the failures of one event are bounded. The proofs use the lemmas of
  \<open>CardClaims\<close> about the entry of one card.
\<close>

section \<open>What a handled action does to the registry\<close>

lemma claim_claimed:
  assumes "claim cs v mid ev r = (Inr (ClaimedCard s n), r1)"
  shows "\<exists>e. dget (r_entries r) mid = Some e \<and> \<not> expired (t_check v) e \<and> e_state e = Pending \<and>
     e_session e = s \<and> n = e_dispatch_attempts (start_claim ev e) \<and>
     r1 = snd (persist cs v (update_entry mid (start_claim ev) r))"
proof -
  obtain eo r0 where el: "entry_locked (t_check v) mid r = (eo, r0)"
    by (cases "entry_locked (t_check v) mid r")
  then obtain e where e: "eo = Some e" using assms by (cases eo) (auto simp: claim_def)
  then have "r0 = r" "dget (r_entries r) mid = Some e" "\<not> expired (t_check v) e"
    using el by (auto simp: entry_locked_Some)
  moreover have "e_state e = Pending"
    using assms el e by (auto simp: claim_def then_return_def split: if_splits prod.splits sum.splits)
  ultimately show ?thesis
    using assms el e by (auto simp: claim_def split: prod.splits sum.splits)
qed

lemma persist_attempts [simp]:
  "r_max_dispatch_attempts (snd (persist cs v r)) = r_max_dispatch_attempts r"
  by (auto simp: persist_def Let_def prune_locked_def split: option.splits prod.splits)

lemma update_entry_attempts [simp]:
  "r_max_dispatch_attempts (update_entry k f r) = r_max_dispatch_attempts r"
  by (auto simp: update_entry_def split: option.splits)

lemma entry_locked_attempts:
  "entry_locked now k r = (e, r') \<Longrightarrow> r_max_dispatch_attempts r' = r_max_dispatch_attempts r"
  by (auto simp: entry_locked_def split: option.splits if_splits)

lemma then_return_attempts [simp]:
  "r_max_dispatch_attempts (snd (then_return (persist cs v) a r)) = r_max_dispatch_attempts r"
  using persist_attempts [of cs v r]
  by (auto simp: then_return_def simp del: persist_attempts split: prod.splits sum.splits)

lemma claim_attempts [simp]:
  "r_max_dispatch_attempts (snd (claim cs v k ev r)) = r_max_dispatch_attempts r"
proof -
  obtain eo r0 where el: "entry_locked (t_check v) k r = (eo, r0)"
    by (cases "entry_locked (t_check v) k r")
  have p: "r_max_dispatch_attempts r' = r_max_dispatch_attempts r0"
    if "persist cs v (update_entry k f r0) = (x, r')" for x r' f
    using that persist_attempts [of cs v "update_entry k f r0"] by simp
  show ?thesis
    using el entry_locked_attempts [OF el] p
    by (auto simp: claim_def split: option.splits prod.splits sum.splits)
qed

lemma finish_attempts [simp]:
  "r_max_dispatch_attempts (snd (finish cs v k ev f r)) = r_max_dispatch_attempts r"
  by (auto simp: finish_def split: option.splits prod.splits dest: entry_locked_attempts)

lemma snd_finish_then:
  "finish_then x k = (res, evs, r) \<Longrightarrow>
     (\<exists>e. x = (Inl e, r) \<and> res = RegistryRaised e \<and> evs = []) \<or> (\<exists>u r0. x = (Inr u, r0) \<and> k r0 = (res, evs, r))"
  by (auto simp: finish_then_def split: prod.splits sum.splits)

abbreviation ended :: "checksum_fn \<Rightarrow> handler_env \<Rightarrow> action_event \<Rightarrow> bool \<Rightarrow> registry \<Rightarrow> registry" where
  "ended cs h a done r \<equiv>
     snd ((if done then complete else release) cs (h_finish h) (a_message_id a) (a_event_id a) r)"

definition final_status :: "string \<Rightarrow> bool" where
  "final_status s \<longleftrightarrow> s \<in> set TERMINAL_STATUSES \<or> s = ''dead_letter''"

lemma show_final_cases:
  "show_final h st ret r = (res, evs, r2) \<longleftrightarrow>
     r2 = r \<and> evs = status_events h st False \<and>
     res = (if h_has_status h \<and> h_cancel_late h then CancelledError else Returned ret)"
  by (auto simp: show_final_def)

lemma not_dispatched_status [simp]: "Dispatched s a \<notin> set (status_events h st t)"
  by (simp add: status_events_def)

lemma final_status_simps [simp]:
  "\<not> final_status ''ignored''" "\<not> final_status ''invalid''" "\<not> final_status ''missing''"
  "\<not> final_status ''duplicate''" "final_status ''dead_letter''"
  "st \<in> set TERMINAL_STATUSES \<Longrightarrow> final_status st"
  by (simp_all add: final_status_def TERMINAL_STATUSES_def)

lemma dispatch_claimed_ends:
  assumes "dispatch_claimed cs h a s n r = (res, evs, r2)"
  shows "\<exists>done. r2 = ended cs h a done r \<and>
     (\<forall>x b. Dispatched x b \<in> set evs \<longrightarrow> x = s \<and> b = a) \<and>
     ((\<exists>x b. Dispatched x b \<in> set evs) \<and> h_dispatch h s a = DispatchFails \<longrightarrow>
        (done \<longleftrightarrow> r_max_dispatch_attempts r \<le> n)) \<and>
     (\<forall>st. res = Returned st \<and> final_status st \<longrightarrow> done)"
proof (cases "h_has_status h \<and> h_cancel_early h")
  case True
  then show ?thesis using assms
    by (intro exI [of _ False])
       (auto simp: dispatch_claimed_def with_events_def Let_def split: prod.splits dest!: snd_finish_then)
next
  case False
  let ?done = "case h_dispatch h s a of DispatchCancelled \<Rightarrow> False
     | DispatchFails \<Rightarrow> r_max_dispatch_attempts r \<le> n
     | d \<Rightarrow> accepted_status d \<in> set TERMINAL_STATUSES"
  show ?thesis
    using assms False
    by (intro exI [of _ ?done], cases "h_dispatch h s a")
       (auto simp: dispatch_claimed_def with_events_def Let_def show_final_cases
          split: prod.splits if_splits dest!: snd_finish_then)
qed

lemma handle_card_action_cases:
  assumes "handle_card_action fr cs h a r = (res, evs, r2)"
  obtains (unclaimed) "r2 = snd (claim cs (h_claim h) (a_message_id a) (a_event_id a) r)"
      "\<And>x b. Dispatched x b \<notin> set evs" "\<And>st. res = Returned st \<Longrightarrow> \<not> final_status st"
      "\<And>s n. fst (claim cs (h_claim h) (a_message_id a) (a_event_id a) r) \<noteq> Inr (ClaimedCard s n)"
  | (claimed) s n r1 dn where
      "claim cs (h_claim h) (a_message_id a) (a_event_id a) r = (Inr (ClaimedCard s n), r1)"
      "r2 = ended cs h a dn r1"
      "\<And>x b. Dispatched x b \<in> set evs \<Longrightarrow> x = s \<and> b = a \<and> action_matches_session fr a s"
      "(\<exists>x b. Dispatched x b \<in> set evs) \<Longrightarrow> h_dispatch h s a = DispatchFails \<Longrightarrow>
         (dn \<longleftrightarrow> r_max_dispatch_attempts r \<le> n)"
      "\<And>st. res = Returned st \<Longrightarrow> final_status st \<Longrightarrow> dn"
proof -
  obtain c r1 where c: "claim cs (h_claim h) (a_message_id a) (a_event_id a) r = (c, r1)"
    by (cases "claim cs (h_claim h) (a_message_id a) (a_event_id a) r")
  have max1: "r_max_dispatch_attempts r1 = r_max_dispatch_attempts r"
    using claim_attempts [of cs "h_claim h" "a_message_id a" "a_event_id a" r] c by simp
  show thesis
  proof (cases "\<exists>s n. c = Inr (ClaimedCard s n)")
    case False
    show thesis
      by (rule unclaimed) (use assms c False in \<open>auto simp: handle_card_action_def
            split: sum.splits card_claim.splits if_splits\<close>)
  next
    case True
    then obtain s n where s: "c = Inr (ClaimedCard s n)" by blast
    show thesis
    proof (cases "action_matches_session fr a s \<and> \<not> invalid_selection s a")
      case True
      then have "dispatch_claimed cs h a s n r1 = (res, evs, r2)"
        using assms c s by (simp add: handle_card_action_def Let_def)
      from dispatch_claimed_ends [OF this] claimed [of s n r1] True c s max1 show thesis
        by fastforce
    next
      case False
      show thesis
        by (rule claimed [of s n r1 False])
           (use assms c s False in \<open>auto simp: handle_card_action_def Let_def
              split: if_splits dest!: snd_finish_then\<close>)
    qed
  qed
qed


section \<open>Sequences of actions\<close>

fun run_actions ::
  "float_repr \<Rightarrow> checksum_fn \<Rightarrow> (handler_env \<times> action_event) list \<Rightarrow> registry
     \<Rightarrow> (handled \<times> handler_event list) list \<times> registry" where
  "run_actions fr cs [] r = ([], r)"
| "run_actions fr cs ((h, a) # has) r =
     (let (res, evs, r1) = handle_card_action fr cs h a r;
          (xs, r2) = run_actions fr cs has r1
      in ((res, evs) # xs, r2))"

lemma wf_claim: "wf_registry r \<Longrightarrow> wf_registry (snd (claim cs v k ev r))"
  using wf_card_step [of r cs "(v, Claim k ev)"] by simp

lemma wf_finish:
  assumes wf: "wf_registry r"
    and f: "\<And>e. cs_message_id (e_session (f e)) = cs_message_id (e_session e)"
  shows "wf_registry (snd (finish cs v k ev f r))"
proof -
  have "on_entry (\<lambda>_. True) r k" by (simp add: on_entry_def split: option.splits)
  with wf show ?thesis
    by (cases rule: entry_locked_cases [where now = "t_check v" and k = k])
       (simp_all add: finish_def wf_persist wf_update_entry wf f)
qed

lemma wf_ended: "wf_registry r \<Longrightarrow> wf_registry (ended cs h a done r)"
  by (simp add: complete_finish release_finish wf_finish)

lemma wf_handle:
  "wf_registry r \<Longrightarrow> handle_card_action fr cs h a r = (res, evs, r2) \<Longrightarrow> wf_registry r2"
  by (erule handle_card_action_cases) (metis wf_claim wf_ended snd_conv)+

lemma on_ended_other:
  "wf_registry r \<Longrightarrow> on_entry Q r mid \<Longrightarrow> a_message_id a \<noteq> mid \<Longrightarrow> on_entry Q (ended cs h a done r) mid"
  by (auto simp: complete_finish release_finish intro!: on_finish)

lemma held_handle:
  assumes wf: "wf_registry r" and h: "on_entry (held_by S) r mid"
    and "handle_card_action fr cs env a r = (res, evs, r2)"
  shows "on_entry (held_by S) r2 mid \<or> a_event_id a \<in> S \<and> a_message_id a = mid"
    and "a_message_id a = mid \<Longrightarrow> Dispatched s b \<notin> set evs"
proof -
  let ?c = "claim cs (h_claim env) (a_message_id a) (a_event_id a) r"
  have c: "on_entry (held_by S) (snd ?c) mid"
    using wf h by (rule on_claim) (simp add: held_by_not_pending)
  have no: "fst ?c \<noteq> Inr (ClaimedCard s n)" if "a_message_id a = mid" for s n
    using that held_no_claim [OF h, of mid "a_event_id a" cs "h_claim env"]
    by (auto simp: result_of_def split: prod.splits sum.splits)
  show "on_entry (held_by S) r2 mid \<or> a_event_id a \<in> S \<and> a_message_id a = mid"
    using assms(3)
  proof (cases rule: handle_card_action_cases)
    case (claimed s n r1 dn)
    then have "a_message_id a \<noteq> mid" using no [of s n] by auto
    moreover have "wf_registry r1" using wf_claim [OF wf] claimed(1) by (metis snd_conv)
    ultimately show ?thesis using c claimed(1,2) on_ended_other by simp
  qed (use c in simp)
  show "Dispatched s b \<notin> set evs" if "a_message_id a = mid"
    using assms(3)
  proof (cases rule: handle_card_action_cases)
    case (claimed s n r1 dn)
    then show ?thesis using no [OF that, of s n] by simp
  qed simp
qed

lemma completed_run:
  assumes "wf_registry r" "on_entry (held_by {}) r mid"
  shows "list_all2 (\<lambda>(h, a) (res, evs). a_message_id a = mid \<longrightarrow> (\<forall>s b. Dispatched s b \<notin> set evs))
           has (fst (run_actions fr cs has r))"
  using assms
proof (induction has arbitrary: r)
  case (Cons ha has)
  obtain h a where ha: "ha = (h, a)" by (cases ha)
  obtain res evs r1 where x: "handle_card_action fr cs h a r = (res, evs, r1)"
    by (cases "handle_card_action fr cs h a r")
  have "on_entry (held_by {}) r1 mid" "wf_registry r1"
    using held_handle(1) [OF Cons.prems x] wf_handle [OF Cons.prems(1) x] by auto
  from Cons.IH [OF this(2,1)] held_handle(2) [OF Cons.prems x] show ?case
    by (cases "run_actions fr cs has r1") (simp add: ha x Let_def)
qed simp

lemma claimed_holds:
  assumes wf: "wf_registry r" and c: "claim cs v mid ev r = (Inr (ClaimedCard s n), r1)"
  shows "on_entry (\<lambda>e. holds_claim ev e \<and> e_attempt_event_id e = Some ev \<and> e_dispatch_attempts e = n) r1 mid"
proof -
  obtain e where e: "dget (r_entries r) mid = Some e" "n = e_dispatch_attempts (start_claim ev e)"
    "r1 = snd (persist cs v (update_entry mid (start_claim ev) r))"
    using claim_claimed [OF c] by blast
  show ?thesis unfolding e(3)
    by (rule on_persist) (use wf e(1,2) in \<open>simp_all add: wf_update_entry on_entry_def holds_claim_def start_claim_def\<close>)
qed

lemma finish_on_claim:
  assumes wf: "wf_registry r" and h: "on_entry (\<lambda>e. holds_claim ev e \<and> P e) r mid"
    and f: "\<And>e. cs_message_id (e_session (f e)) = cs_message_id (e_session e)"
    and Q: "\<And>e. holds_claim ev e \<Longrightarrow> P e \<Longrightarrow> Q (f e)"
  shows "on_entry Q (snd (finish cs v mid ev f r)) mid"
  using wf h
proof (cases rule: entry_locked_cases [where now = "t_check v" and k = mid])
  case (gone r1)
  then have "on_entry Q r1 mid" using entry_locked_None by (simp add: on_entry_def)
  then show ?thesis using gone on_persist by (simp add: finish_def)
next
  case (live e)
  then have e: "holds_claim ev e" "P e" using on_entryD [OF h] by blast+
  then have "on_entry Q (update_entry mid f r) mid" using Q live by (simp add: on_entry_def)
  then show ?thesis using live e f on_persist wf by (simp add: finish_def wf_update_entry)
qed

lemma final_completes:
  assumes wf: "wf_registry r"
    and "handle_card_action fr cs h a r = (Returned st, evs, r1)" and fin: "final_status st"
  shows "on_entry (held_by {}) r1 (a_message_id a)"
  using assms(2)
proof (cases rule: handle_card_action_cases)
  case (claimed s n r0 dn)
  then have "dn" using fin by blast
  have "wf_registry r0" using wf_claim [OF wf] claimed(1) by (metis snd_conv)
  then show ?thesis
    using claimed(2) \<open>dn\<close> finish_on_claim [OF _ claimed_holds [OF wf claimed(1)]]
    by (simp add: complete_finish held_by_def)
qed (use fin in simp)

text \<open>
  C3. A terminal outcome is final: once handling an action has returned \<open>completed\<close>,
  \<open>awaiting_text\<close>, \<open>expired\<close>, \<open>failed\<close> or \<open>dead_letter\<close>, no later delivery of any action for
  that card (the same event replayed, other events, other operators) is dispatched again,
  however the clocks, the disk and the dispatcher behave.
\<close>

theorem terminal_action_is_final:
  assumes "wf_registry r"
    and "handle_card_action fr cs h a r = (Returned st, evs, r1)"
    and "st \<in> {''completed'', ''awaiting_text'', ''expired'', ''failed'', ''dead_letter''}"
  shows "list_all2 (\<lambda>(h', b) (res, evs').
             a_message_id b = a_message_id a \<longrightarrow> (\<forall>s c. Dispatched s c \<notin> set evs'))
           has (fst (run_actions fr cs has r1))"
  using completed_run [OF wf_handle [OF assms(1,2)] final_completes [OF assms(1,2)]] assms(3)
  by (auto simp: final_status_def TERMINAL_STATUSES_def)

text \<open>
  C6. Nothing reaches the dispatcher unless the trusted session of the card says so: the card
  is registered, alive and unclaimed; the action was made on that very message, in the channel of the
  card (in a direct conversation, in one of the channels the session lists, or its own if it lists
  none), by the user the card was sent for, with an action the card offers, the binding it was sent
  with, and inputs that the card declares, each of them and all together within its limits.
\<close>

theorem dispatch_is_authorised:
  assumes "handle_card_action fr cs h a r = (res, evs, r1)" and "Dispatched s b \<in> set evs"
  shows "b = a \<and>
     (\<exists>e. dget (r_entries r) (a_message_id a) = Some e \<and> e_session e = s \<and> e_state e = Pending \<and>
          \<not> expired (t_check (h_claim h)) e) \<and>
     a_message_id a = cs_message_id s \<and> a_operator_uid a = cs_requester_uid s \<and>
     a_channel_type a = cs_channel_type s \<and>
     (if a_channel_type a = DM \<and> cs_action_channel_ids s \<noteq> []
      then a_channel_id a \<in> set (cs_action_channel_ids s) else a_channel_id a = cs_channel_id s) \<and>
     a_action_id a \<in> fst ` set (cs_action_labels s) \<and>
     jget (a_data a) ''_octo_binding'' = JStr (cs_binding_id s) \<and>
     fst ` set (a_inputs a) \<subseteq> set (cs_input_ids s) \<and>
     (\<forall>(k, v)\<in>set (a_inputs a). int (utf8_len v) \<le> or_int (cs_max_input_text_bytes s) 4096) \<and>
     int (utf8_len (json_text_sorted fr (inputs_json (a_inputs a)))) \<le> or_int (cs_max_inputs_bytes s) 16384"
  using assms(1)
proof (cases rule: handle_card_action_cases)
  case (claimed s' n r0 dn)
  from claimed(3) [OF assms(2)] have m: "s = s'" "b = a" "action_matches_session fr a s" by simp_all
  obtain e where "dget (r_entries r) (a_message_id a) = Some e" "e_session e = s"
    "e_state e = Pending" "\<not> expired (t_check (h_claim h)) e"
    using claim_claimed [OF claimed(1)] m(1) by blast
  then show ?thesis
    using m(2,3) by (auto simp: action_matches_session_def channel_matches_def list_all_iff split: if_split_asm)
qed (use assms(2) in simp)

section \<open>Bounded retries\<close>

definition failed_dispatch :: "handler_env \<times> action_event \<Rightarrow> handled \<times> handler_event list \<Rightarrow> bool" where
  \<comment> \<open>the action was dispatched and the dispatcher raised\<close>
  "failed_dispatch ha x \<longleftrightarrow>
     (\<exists>s b. Dispatched s b \<in> set (snd x) \<and> h_dispatch (fst ha) s b = DispatchFails)"

definition failures :: "string \<Rightarrow> (handler_env \<times> action_event) list \<Rightarrow> (handled \<times> handler_event list) list \<Rightarrow> nat" where
  \<comment> \<open>how often the dispatcher failed on an action on the card\<close>
  "failures mid has xs =
     length (filter (\<lambda>(ha, x). a_message_id (snd ha) = mid \<and> failed_dispatch ha x) (zip has xs))"

definition retry_inv :: "int \<Rightarrow> int \<Rightarrow> int \<Rightarrow> card_entry \<Rightarrow> bool" where
  "retry_inv ev m k e \<longleftrightarrow>
     e_state e = Completed \<or>
     k < m \<and> (k = 0 \<or> e_attempt_event_id e = Some ev \<and> k \<le> e_dispatch_attempts e) \<and>
     (e_attempt_event_id e = Some ev \<longrightarrow> 0 \<le> e_dispatch_attempts e)"

lemma retry_start:
  "retry_inv ev m k e \<Longrightarrow> e_state e = Pending \<Longrightarrow> 0 \<le> k \<Longrightarrow>
     k < m \<and> k + 1 \<le> e_dispatch_attempts (start_claim ev e) \<and> retry_inv ev m k (start_claim ev e)"
  by (auto simp: retry_inv_def start_claim_def)

lemma retry_step:
  assumes wf: "wf_registry r" and inv: "on_entry (retry_inv ev m k) r mid" and k: "0 \<le> k"
    and m: "m = r_max_dispatch_attempts r"
    and a: "a_message_id a = mid" "a_event_id a = ev"
    and x: "handle_card_action fr cs h a r = (res, evs, r2)"
  shows "(\<not> failed_dispatch (h, a) (res, evs) \<longrightarrow> on_entry (retry_inv ev m k) r2 mid) \<and>
         (failed_dispatch (h, a) (res, evs) \<longrightarrow> k < m \<and> on_entry (retry_inv ev m (k + 1)) r2 mid)"
  using x
proof (cases rule: handle_card_action_cases)
  case unclaimed
  have "on_entry (retry_inv ev m k) (snd (claim cs (h_claim h) mid ev r)) mid"
    using wf inv by (rule on_claim) (use retry_start k in blast)
  then show ?thesis using unclaimed a by (simp add: failed_dispatch_def)
next
  case (claimed s n r1 dn)
  note c = claimed(1) [unfolded a]
  have wf1: "wf_registry r1" using wf_claim [OF wf] c by (metis snd_conv)
  obtain e where e: "dget (r_entries r) mid = Some e" "e_state e = Pending"
      "n = e_dispatch_attempts (start_claim ev e)"
    using claim_claimed [OF c] by blast
  have n: "k < m" "k + 1 \<le> n"
    using retry_start [OF on_entryD [OF inv e(1)] e(2) k] e(3) by simp_all
  note holds = claimed_holds [OF wf c]
  have r2: "r2 = snd (finish cs (h_finish h) mid ev (if dn then (\<lambda>e. e\<lparr>e_state := Completed\<rparr>)
        else (\<lambda>e. e\<lparr>e_state := Pending, e_claimed_event_id := None\<rparr>)) r1)"
    using claimed(2) a by (simp add: complete_finish release_finish)
  have keep: "on_entry (retry_inv ev m q) r2 mid" if "dn \<or> q < m" "0 \<le> q" "q \<le> n" for q
    unfolding r2
    by (rule finish_on_claim [OF wf1 holds]) (use that in \<open>auto simp: retry_inv_def\<close>)
  show ?thesis
  proof (cases "failed_dispatch (h, a) (res, evs)")
    case False
    then show ?thesis using keep [of k] n k by simp
  next
    case True
    then have "\<exists>x b. Dispatched x b \<in> set evs" "h_dispatch h s a = DispatchFails"
      using claimed(3) by (auto simp: failed_dispatch_def)
    then have "dn \<longleftrightarrow> m \<le> n" using claimed(4) m by blast
    then have "dn \<or> k + 1 < m" using n by auto
    then show ?thesis using True n k keep [of "k + 1"] by simp
  qed
qed

lemma handle_elsewhere:
  assumes "wf_registry r" "on_entry Q r mid" "a_message_id a \<noteq> mid"
    and "handle_card_action fr cs h a r = (res, evs, r2)"
  shows "on_entry Q r2 mid"
  using assms(4)
proof (cases rule: handle_card_action_cases)
  case unclaimed
  then show ?thesis using on_claim[OF assms(1,2), of "a_message_id a"] assms(3) by simp
next
  case (claimed s n r1 dn)
  have "wf_registry r1" using wf_claim[OF assms(1)] claimed(1) by (metis snd_conv)
  moreover have "on_entry Q r1 mid"
    using on_claim[OF assms(1,2), of "a_message_id a" "a_event_id a" cs "h_claim h"] assms(3) claimed(1) by simp
  ultimately show ?thesis
    unfolding claimed(2) using assms(3) by (auto simp: complete_finish release_finish intro!: on_finish)
qed

lemma handle_attempts:
  "handle_card_action fr cs h a r = (res, evs, r2) \<Longrightarrow>
     r_max_dispatch_attempts r2 = r_max_dispatch_attempts r"
proof (erule handle_card_action_cases)
  fix s n r1 dn
  assume "claim cs (h_claim h) (a_message_id a) (a_event_id a) r = (Inr (ClaimedCard s n), r1)"
    and r2: "r2 = ended cs h a dn r1"
  then have "r_max_dispatch_attempts r1 = r_max_dispatch_attempts r"
    using claim_attempts by (metis snd_conv)
  then show ?thesis using r2 by (simp add: complete_finish release_finish)
qed simp

lemma retry_run:
  assumes "wf_registry r" "on_entry (retry_inv ev m k) r mid" "0 \<le> k" "k \<le> m"
    and "m = r_max_dispatch_attempts r"
    and "\<forall>(h, a) \<in> set has. a_message_id a = mid \<longrightarrow> a_event_id a = ev"
  shows "k + int (failures mid has (fst (run_actions fr cs has r))) \<le> m"
  using assms
proof (induction has arbitrary: r k)
  case Nil
  then show ?case by (simp add: failures_def)
next
  case (Cons ha has)
  obtain h a where ha: "ha = (h, a)" by (cases ha)
  obtain res evs r1 where x: "handle_card_action fr cs h a r = (res, evs, r1)"
    by (cases "handle_card_action fr cs h a r")
  have wf1: "wf_registry r1" using wf_handle [OF Cons.prems(1) x] .
  have m1: "m = r_max_dispatch_attempts r1" using handle_attempts [OF x] Cons.prems(5) by simp
  have rest: "\<forall>(h, a) \<in> set has. a_message_id a = mid \<longrightarrow> a_event_id a = ev"
    using Cons.prems(6) by simp
  let ?failed = "a_message_id a = mid \<and> failed_dispatch (h, a) (res, evs)"
  have fs: "failures mid (ha # has) (fst (run_actions fr cs (ha # has) r)) =
      (if ?failed then 1 else 0) + failures mid has (fst (run_actions fr cs has r1))"
    by (simp add: ha x failures_def Let_def split: prod.splits)
  have step: "if ?failed then k < m \<and> on_entry (retry_inv ev m (k + 1)) r1 mid else on_entry (retry_inv ev m k) r1 mid"
  proof (cases "a_message_id a = mid")
    case True
    then show ?thesis using retry_step [OF Cons.prems(1,2,3,5) True _ x] Cons.prems(6) ha by simp
  next
    case False
    then show ?thesis using handle_elsewhere [OF Cons.prems(1,2) False x] by simp
  qed
  show ?case
  proof (cases ?failed)
    case True
    then show ?thesis
      using Cons.IH [OF wf1, of "k + 1"] step Cons.prems m1 rest unfolding fs by simp
  next
    case False
    then show ?thesis
      using Cons.IH [OF wf1, of k] step Cons.prems m1 rest unfolding fs if_not_P[OF False] by simp
  qed
qed

text \<open>
  C5. Retries are bounded: if the card has not been tried yet for an event, and no other event of
  the card is delivered, then however often the event is delivered, whatever happens to other cards
  in between, and whatever the clocks, the disk, cancellations and the dispatcher do, the dispatcher
  fails on it at most \<open>max_dispatch_attempts\<close> times; the failure that reaches the bound completes
  the card as a dead letter. (Another event of the same card starts the count anew.)
\<close>

theorem dispatch_failures_bounded:
  assumes "wf_registry r" and "0 < r_max_dispatch_attempts r"
    and "dget (r_entries r) mid = Some e" and "e_attempt_event_id e \<noteq> Some ev"
    and "\<forall>(h, a) \<in> set has. a_message_id a = mid \<longrightarrow> a_event_id a = ev"
  shows "int (failures mid has (fst (run_actions fr cs has r))) \<le> r_max_dispatch_attempts r"
proof -
  have "on_entry (retry_inv ev (r_max_dispatch_attempts r) 0) r mid"
    using assms(2-4) by (simp add: on_entry_def retry_inv_def)
  from retry_run [OF assms(1) this] assms(2,5) show ?thesis by simp
qed


section \<open>Examples\<close>

definition sample_action :: action_event where
  "sample_action = \<lparr>a_event_id = 9, a_message_id = ''m1'', a_channel_id = ''c'', a_channel_type = DM,
     a_action_id = ''ok'', a_inputs = [], a_operator_uid = ''u'',
     a_data = [(''_octo_binding'', JStr ''b'')]\<rparr>"

definition sample_handler :: "dispatch_outcome \<Rightarrow> handler_env" where
  "sample_handler d = \<lparr>h_claim = sample_env, h_finish = sample_env, h_has_status = True,
     h_cancel_early = False, h_cancel_late = False, h_dispatch = (\<lambda>_ _. d)\<rparr>"

lemma sample_matches: "action_matches_session (\<lambda>_. []) sample_action sample_session"
  by (simp add: action_matches_session_def sample_action_def sample_session_def channel_matches_def
      or_int_def inputs_json_def json_text_sorted_def utf8_len_def)

lemma sample_claim:
  "\<exists>r1. claim (\<lambda>_. []) sample_env ''m1'' 9 (sample_registry Pending None) =
     (Inr (ClaimedCard sample_session 1), r1)"
  by (simp add: claim_def sample_simps persist_def store_save_def write_document_def sample_store_def)

lemma sample_handled:
  "\<exists>evs r1. handle_card_action (\<lambda>_. []) (\<lambda>_. []) (sample_handler (DispatchStatus ''completed''))
     sample_action (sample_registry Pending None) = (Returned ''completed'', evs, r1) \<and>
     Dispatched sample_session sample_action \<in> set evs"
proof -
  obtain r1 where c: "claim (\<lambda>_. []) sample_env ''m1'' 9 (sample_registry Pending None) =
     (Inr (ClaimedCard sample_session 1), r1)" using sample_claim by blast
  then have "\<exists>st. r_persistence r1 = Some st"
    by (auto simp: claim_def sample_simps persist_def store_save_def write_document_def sample_store_def)
  then have "\<exists>u r2. complete (\<lambda>_. []) sample_env ''m1'' 9 r1 = (Inr u, r2)"
    by (auto simp: complete_def entry_locked_def persist_def store_save_def write_document_def
        update_entry_def sample_env_def Let_def split: option.splits)
  moreover have "\<not> invalid_selection sample_session sample_action"
    by (simp add: invalid_selection_def sample_session_def)
  ultimately show ?thesis
    using c sample_matches
    by (auto simp: handle_card_action_def dispatch_claimed_def sample_handler_def Let_def
        sample_action_def TERMINAL_STATUSES_def accepted_status_def finish_then_def show_final_def
        with_events_def)
qed

theorem terminal_action_is_final_witness:
  "\<exists>evs r1. handle_card_action (\<lambda>_. []) (\<lambda>_. []) (sample_handler (DispatchStatus ''completed''))
     sample_action (sample_registry Pending None) = (Returned ''completed'', evs, r1) \<and>
     list_all2 (\<lambda>(h', b) (res, evs').
         a_message_id b = a_message_id sample_action \<longrightarrow> (\<forall>s c. Dispatched s c \<notin> set evs'))
       [(sample_handler DispatchFails, sample_action)]
       (fst (run_actions (\<lambda>_. []) (\<lambda>_. []) [(sample_handler DispatchFails, sample_action)] r1))"
proof -
  obtain evs r1 where x: "handle_card_action (\<lambda>_. []) (\<lambda>_. [])
     (sample_handler (DispatchStatus ''completed'')) sample_action (sample_registry Pending None) =
       (Returned ''completed'', evs, r1)"
    using sample_handled by blast
  show ?thesis
    by (intro exI conjI, rule x, rule terminal_action_is_final [OF wf_sample_registry x]) simp
qed

theorem dispatch_is_authorised_witness:
  "\<exists>evs r1. handle_card_action (\<lambda>_. []) (\<lambda>_. []) (sample_handler (DispatchStatus ''completed''))
     sample_action (sample_registry Pending None) = (Returned ''completed'', evs, r1) \<and>
     Dispatched sample_session sample_action \<in> set evs \<and>
     (\<exists>e. dget (r_entries (sample_registry Pending None)) ''m1'' = Some e \<and> e_session e = sample_session \<and>
        e_state e = Pending) \<and>
     a_operator_uid sample_action = cs_requester_uid sample_session \<and>
     a_channel_id sample_action = cs_channel_id sample_session"
proof -
  obtain evs r1 where x: "handle_card_action (\<lambda>_. []) (\<lambda>_. []) (sample_handler (DispatchStatus ''completed''))
     sample_action (sample_registry Pending None) = (Returned ''completed'', evs, r1)"
    and d: "Dispatched sample_session sample_action \<in> set evs" using sample_handled by blast
  have "cs_action_channel_ids sample_session = []" "a_message_id sample_action = ''m1''"
    by (simp_all add: sample_session_def sample_action_def)
  then show ?thesis using dispatch_is_authorised[OF x d] x d by auto
qed

theorem dispatch_failures_bounded_witness:
  "int (failures ''m1'' (replicate 5 (sample_handler DispatchFails, sample_action))
     (fst (run_actions (\<lambda>_. []) (\<lambda>_. []) (replicate 5 (sample_handler DispatchFails, sample_action))
        (sample_registry Pending None)))) \<le> 3"
proof -
  have "r_max_dispatch_attempts (sample_registry Pending None) = 3"
    by (simp add: sample_registry_def)
  then show ?thesis
    using dispatch_failures_bounded [OF wf_sample_registry, of Pending None "''m1''"
        "sample_entry Pending None" 9 "replicate 5 (sample_handler DispatchFails, sample_action)"]
    by (simp add: sample_registry_def sample_entry_def sample_action_def)
qed

end
