(* ===== verification/EventPoller.thy ===== *)
theory EventPoller
  imports CardActions
begin

text \<open>
  Models the durable event cursor (\<open>FileEventCursorStore\<close>) and the poller (\<open>EventPoller\<close>) of
  \<open>card_events.py\<close>. The server, the card handler, the clock and the disk are the poller's
  world: acknowledgements and disk writes succeed or fail as two lists say (an empty list
  fails; a write can also fail after the file has been replaced), fetched events are an argument, and the handler is a function of its own state. What
  the poller does to the outside is its log.

  The poller programs against the protocol \<open>EventCursorStore\<close>; that interface is the locale
  \<open>cursor_store\<close>, and its interpretation on the file store discharges its laws.
\<close>

section \<open>The cursor file\<close>

definition read_cursor :: "sfile \<Rightarrow> int \<times> int option" where
  \<comment> \<open>every unreadable, undecodable or malformed file reads as a fresh cursor\<close>
  "read_cursor f =
     (case f of
        FDoc (JObj raw) \<Rightarrow>
          (case safe_event_id (jget raw ''event_id'') of
             None \<Rightarrow> (0, None)
           | Some event_id \<Rightarrow>
               (event_id,
                case safe_event_id (jget raw ''pending_ack_event_id'') of
                  None \<Rightarrow> None
                | Some p \<Rightarrow> if p > event_id then None else Some p))
      | _ \<Rightarrow> (0, None))"

definition cursor_load :: "sfile \<Rightarrow> int" where
  "cursor_load f = fst (read_cursor f)"

definition cursor_load_pending :: "sfile \<Rightarrow> int option" where
  "cursor_load_pending f = snd (read_cursor f)"

definition cursor_document :: "int \<Rightarrow> int option \<Rightarrow> json" where
  "cursor_document event_id pending =
     JObj ((''event_id'', JInt event_id) #
           (case pending of None \<Rightarrow> [] | Some p \<Rightarrow> [(''pending_ack_event_id'', JInt p)]))"

datatype disk_write = Written | NotWritten | WrittenUnsynced
  \<comment> \<open>the write returns; it raises before \<open>os.replace\<close>; the synchronisation of the directory raises after it\<close>

datatype cursor_error = InvalidCursor | Backwards | CursorIO | CursorUnsynced

definition is_safe_id :: "int \<Rightarrow> bool" where
  "is_safe_id v \<longleftrightarrow> 0 \<le> v \<and> v \<le> MAX_SAFE_EVENT_ID"

definition cursor_save :: "disk_write \<Rightarrow> int \<Rightarrow> int option \<Rightarrow> sfile \<Rightarrow> (cursor_error + unit) \<times> sfile" where
  \<comment> \<open>\<open>save\<close> with \<open>_save_sync\<close>: temporary file, fsync, replace, and fsync of the directory\<close>
  "cursor_save io event_id pending f =
     (if \<not> is_safe_id event_id then (Inl InvalidCursor, f)
      else if (case pending of None \<Rightarrow> False | Some p \<Rightarrow> \<not> is_safe_id p \<or> p > event_id)
      then (Inl InvalidCursor, f)
      else if event_id < fst (read_cursor f) then (Inl Backwards, f)
      else (case io of
              Written \<Rightarrow> (Inr (), FDoc (cursor_document event_id pending))
            | NotWritten \<Rightarrow> (Inl CursorIO, f)
            | WrittenUnsynced \<Rightarrow> (Inl CursorUnsynced, FDoc (cursor_document event_id pending))))"

definition landed :: "cursor_error \<Rightarrow> bool" where
  \<comment> \<open>the errors of \<open>save\<close> after which the file holds the new cursor\<close>
  "landed err \<longleftrightarrow> err = CursorUnsynced"

section \<open>The store interface\<close>

locale cursor_store =
  fixes load :: "'s \<Rightarrow> int"
    and pending :: "'s \<Rightarrow> int option"
    and save :: "'io \<Rightarrow> int \<Rightarrow> int option \<Rightarrow> 's \<Rightarrow> ('e + unit) \<times> 's"
    and landed_err :: "'e \<Rightarrow> bool"
  assumes saved: "save io e p s = (Inr u, s') \<Longrightarrow> load s \<le> e \<and> load s' = e \<and> pending s' = p"
    and unsynced: "save io e p s = (Inl err, s') \<Longrightarrow> landed_err err \<Longrightarrow>
                     load s \<le> e \<and> load s' = e \<and> pending s' = p"
    and rejected: "save io e p s = (Inl err, s') \<Longrightarrow> \<not> landed_err err \<Longrightarrow> s' = s"
    and sane: "0 \<le> load s \<and> (case pending s of None \<Rightarrow> True | Some p \<Rightarrow> 0 \<le> p \<and> p \<le> load s)"
begin

lemma save_cases:
  assumes "save io e p s = (res, s')"
  obtains (stored) "load s \<le> e" "load s' = e" "pending s' = p" "res = Inr () \<or> (\<exists>err. res = Inl err \<and> landed_err err)"
    | (kept) err where "s' = s" "res = Inl err" "\<not> landed_err err"
  using assms saved unsynced rejected by (cases res) fastforce+

lemma never_backwards: "save io e p s = (res, s') \<Longrightarrow> load s \<le> load s'"
  by (erule save_cases) auto

end

lemma read_cursor_document:
  "is_safe_id e \<Longrightarrow> (case p of None \<Rightarrow> True | Some q \<Rightarrow> is_safe_id q \<and> q \<le> e) \<Longrightarrow>
     read_cursor (FDoc (cursor_document e p)) = (e, p)"
  by (cases p) (auto simp: read_cursor_def cursor_document_def is_safe_id_def)

lemma safe_event_id_Some: "safe_event_id v = Some i \<longleftrightarrow> v = JInt i \<and> is_safe_id i"
  by (cases v) (auto simp: is_safe_id_def)

lemma read_cursor_sane:
  "read_cursor f = (e, p) \<Longrightarrow> 0 \<le> e \<and> (case p of None \<Rightarrow> True | Some q \<Rightarrow> 0 \<le> q \<and> q \<le> e)"
  by (auto simp: read_cursor_def safe_event_id_Some is_safe_id_def
      split: sfile.splits json.splits option.splits if_splits)

interpretation file_cursor: cursor_store cursor_load cursor_load_pending cursor_save landed
proof unfold_locales
  fix io e p s u s'
  assume "cursor_save io e p s = (Inr u, s')"
  then show "cursor_load s \<le> e \<and> cursor_load s' = e \<and> cursor_load_pending s' = p"
    by (auto simp: cursor_save_def cursor_load_def cursor_load_pending_def read_cursor_document
        split: if_splits option.splits disk_write.splits)
next
  fix io e p s err s'
  assume "cursor_save io e p s = (Inl err, s')" "landed err"
  then show "cursor_load s \<le> e \<and> cursor_load s' = e \<and> cursor_load_pending s' = p"
    by (auto simp: cursor_save_def cursor_load_def cursor_load_pending_def read_cursor_document landed_def
        split: if_splits option.splits disk_write.splits)
next
  fix io e p s err s'
  assume "cursor_save io e p s = (Inl err, s')" "\<not> landed err"
  then show "s' = s" by (auto simp: cursor_save_def landed_def split: if_splits disk_write.splits)
next
  fix s
  show "0 \<le> cursor_load s \<and>
      (case cursor_load_pending s of None \<Rightarrow> True | Some p \<Rightarrow> 0 \<le> p \<and> p \<le> cursor_load s)"
    using read_cursor_sane [of s] by (cases "read_cursor s")
      (auto simp: cursor_load_def cursor_load_pending_def split: option.splits)
qed

section \<open>The poller\<close>

type_synonym rejection_key = "int \<times> string \<times> string \<times> string"

record poller =
  p_interval :: rat
  p_wait :: int
  p_limit :: int
  p_cursor :: int
  p_pending :: "int option"
  p_errors :: nat
  p_flush_failures :: nat
  p_logged :: "rejection_key list"   \<comment> \<open>the keys of an ordered dictionary, oldest first\<close>
  p_logs_left :: int
  p_file :: sfile

datatype poll_event =
    Handled int                  \<comment> \<open>the handler was called for the event, or its envelope refused\<close>
  | Saved int "int option"       \<comment> \<open>a cursor write that returned\<close>
  | Landed int "int option"      \<comment> \<open>a cursor write that raised after the file was replaced\<close>
  | AckSent int bool             \<comment> \<open>one acknowledgement and whether it succeeded\<close>
  | Slept rat
  | Warned rejection_key
  | Restarted                    \<comment> \<open>the process died, and a new poller has read the file\<close>

record 'h world =
  w_acks :: "bool list"
  w_disk :: "disk_write list"
  w_handler :: 'h
  w_log :: "poll_event list"

definition new_poller :: "rat \<Rightarrow> int \<Rightarrow> int \<Rightarrow> sfile \<Rightarrow> poller" where
  "new_poller interval wait limit file =
     \<lparr>p_interval = max (1/2) interval,
      p_wait = (if wait > 0 then min 30 (max 5 wait) else 0),
      p_limit = max 1 (min 100 limit), p_cursor = 0, p_pending = None, p_errors = 0,
      p_flush_failures = 0, p_logged = [], p_logs_left = 0, p_file = file\<rparr>"

definition initialize :: "poller \<Rightarrow> poller" where
  \<comment> \<open>\<open>load\<close> and \<open>load_pending_ack\<close> of the file store do not raise\<close>
  "initialize p =
     (let cursor = (if is_safe_id (cursor_load (p_file p)) then cursor_load (p_file p) else 0)
      in p\<lparr>p_cursor := cursor,
           p_pending := (case cursor_load_pending (p_file p) of
                           None \<Rightarrow> None
                         | Some q \<Rightarrow> if is_safe_id q \<and> q \<le> cursor then Some q else None)\<rparr>)"

definition log_event :: "poll_event \<Rightarrow> 'h world \<Rightarrow> 'h world" where
  "log_event e w = w\<lparr>w_log := w_log w @ [e]\<rparr>"

definition rejection_labels :: "(string \<times> json) list \<Rightarrow> action_event option \<Rightarrow> string \<times> string" where
  "rejection_labels event action =
     (let or_invalid = (\<lambda>s. if s = [] then ''<invalid>'' else s) in
      case action of
        Some a \<Rightarrow> (a_message_id a, a_action_id a)
      | None \<Rightarrow>
          (case jget event ''event_data'' of
             JObj raw \<Rightarrow> (or_invalid (bounded_string (jget raw ''message_id'') 256),
                          or_invalid (bounded_string (jget raw ''action_id'') 64))
           | _ \<Rightarrow> (''<invalid>'', ''<invalid>'')))"

definition warn_rejection ::
  "(string \<times> json) list \<Rightarrow> int \<Rightarrow> action_event option \<Rightarrow> string \<Rightarrow> poller \<times> 'h world \<Rightarrow> poller \<times> 'h world" where
  "warn_rejection event event_id action reason pw =
     (case pw of (p, w) \<Rightarrow>
        (let (mid, aid) = rejection_labels event action; key = (event_id, mid, aid, reason)
         in if key \<in> set (p_logged p) then (p, w)
            else if p_logs_left p \<le> 0 then (p, w)
            else
              (let keys = p_logged p @ [key];
                   keys = (if length keys > 256 then tl keys else keys)
               in (p\<lparr>p_logs_left := p_logs_left p - 1, p_logged := keys\<rparr>, log_event (Warned key) w))))"

fun ack_loop :: "nat \<Rightarrow> nat \<Rightarrow> int \<Rightarrow> 'h world \<Rightarrow> bool \<times> 'h world" where
  \<comment> \<open>\<open>ack_loop left attempt\<close>: the attempts that are left of \<open>_ACK_ATTEMPTS\<close>\<close>
  "ack_loop 0 attempt e w = (False, w)"
| "ack_loop (Suc n) attempt e w =
     (let ok = (case w_acks w of [] \<Rightarrow> False | b # _ \<Rightarrow> b);
          w1 = log_event (AckSent e ok) (w\<lparr>w_acks := tl (w_acks w)\<rparr>)
      in if ok then (True, w1)
         else if n = 0 then (False, w1)
         else ack_loop n (attempt + 1) e (log_event (Slept (of_nat (attempt + 1) / 10)) w1))"

definition ack_event :: "int \<Rightarrow> 'h world \<Rightarrow> bool \<times> 'h world" where
  "ack_event e w = ack_loop 3 0 e w"

definition save_cursor :: "int \<Rightarrow> int option \<Rightarrow> poller \<times> 'h world \<Rightarrow> bool \<times> poller \<times> 'h world" where
  \<comment> \<open>\<open>self._cursor_store.save\<close>; \<open>False\<close> when it raises\<close>
  "save_cursor e pend pw =
     (case pw of (p, w) \<Rightarrow>
        (let io = (case w_disk w of [] \<Rightarrow> NotWritten | b # _ \<Rightarrow> b);
             w1 = w\<lparr>w_disk := tl (w_disk w)\<rparr>
         in case cursor_save io e pend (p_file p) of
              (Inr _, f) \<Rightarrow> (True, p\<lparr>p_file := f\<rparr>, log_event (Saved e pend) w1)
            | (Inl err, f) \<Rightarrow>
                (False, p\<lparr>p_file := f\<rparr>, if landed err then log_event (Landed e pend) w1 else w1)))"

datatype flush_result = Flushed | NotFlushed | FlushRaised

definition flush_pending_ack :: "poller \<times> 'h world \<Rightarrow> flush_result \<times> poller \<times> 'h world" where
  "flush_pending_ack pw =
     (case pw of (p, w) \<Rightarrow>
        (case p_pending p of
           None \<Rightarrow> (Flushed, p\<lparr>p_flush_failures := 0\<rparr>, w)
         | Some e \<Rightarrow>
             (let (ok, w1) = ack_event e w;
                  p1 = (if ok then p else p\<lparr>p_flush_failures := p_flush_failures p + 1\<rparr>)
              in if \<not> ok \<and> p_flush_failures p1 < 3 then (NotFlushed, p1, w1)
                 else
                   (case save_cursor (p_cursor p1) None (p1, w1) of
                      (False, p2, w2) \<Rightarrow> (FlushRaised, p2, w2)
                    | (True, p2, w2) \<Rightarrow>
                        (Flushed, p2\<lparr>p_pending := None, p_flush_failures := 0\<rparr>, w2)))))"

definition should_ack :: "string option \<Rightarrow> bool" where
  "should_ack st \<longleftrightarrow>
     st \<in> Some ` {''completed'', ''awaiting_text'', ''expired'', ''failed'', ''dead_letter'',
                  ''invalid'', ''duplicate'', ''unsupported''}"

definition rejection_status :: "string \<Rightarrow> bool" where
  "rejection_status s \<longleftrightarrow>
     s \<in> {''dead_letter'', ''expired'', ''failed'', ''ignored'', ''invalid'', ''missing'', ''unsupported''}"

type_synonym 'h card_handler = "action_event \<Rightarrow> 'h \<Rightarrow> string option option \<times> 'h"
  \<comment> \<open>\<open>None\<close> when the handler raises, otherwise the status it returns\<close>

definition event_id_of :: "(string \<times> json) list \<Rightarrow> int" where
  "event_id_of event = (case jget event ''event_id'' of JInt i \<Rightarrow> i | _ \<Rightarrow> 0)"

datatype loop_result = LoopDone bool | LoopRaised

definition warn_status ::
  "(string \<times> json) list \<Rightarrow> int \<Rightarrow> action_event option \<Rightarrow> string option \<Rightarrow> poller \<times> 'h world \<Rightarrow> poller \<times> 'h world" where
  "warn_status event e action status pw =
     (case action of
        None \<Rightarrow> warn_rejection event e None ''parse_invalid'' pw
      | Some a \<Rightarrow>
          (case status of
             None \<Rightarrow> warn_rejection event e action ''unhandled'' pw
           | Some s \<Rightarrow> if rejection_status s then warn_rejection event e action s pw else pw))"

fun poll_events ::
  "float_repr \<Rightarrow> 'h card_handler \<Rightarrow> (string \<times> json) list list \<Rightarrow> poller \<times> 'h world
     \<Rightarrow> loop_result \<times> poller \<times> 'h world" where
  \<comment> \<open>the \<open>for event in ordered\<close> loop; \<open>LoopDone True\<close> is the \<open>break\<close> after a failed flush\<close>
  "poll_events fr handler [] pw = (LoopDone False, pw)"
| "poll_events fr handler (event # rest) (p, w) =
     (let e = event_id_of event;
          action = parse_card_action fr (JObj event);
          (reply, h) = (case action of None \<Rightarrow> (Some None, w_handler w) | Some a \<Rightarrow> handler a (w_handler w));
          w1 = log_event (Handled e) (w\<lparr>w_handler := h\<rparr>)
      in case reply of
           None \<Rightarrow> (LoopRaised, p, w1)
         | Some status \<Rightarrow>
             (let pend = (if should_ack status then Some e else None)
              in case save_cursor e pend (warn_status event e action status (p, w1)) of
                   (False, p2, w2) \<Rightarrow> (LoopRaised, p2, w2)
                 | (True, p2, w2) \<Rightarrow>
                     (let p3 = p2\<lparr>p_cursor := e, p_pending := pend\<rparr>
                      in if pend = None then poll_events fr handler rest (p3, w2)
                         else (case flush_pending_ack (p3, w2) of
                                 (FlushRaised, pw3) \<Rightarrow> (LoopRaised, pw3)
                               | (NotFlushed, pw3) \<Rightarrow> (LoopDone True, pw3)
                               | (Flushed, pw3) \<Rightarrow> poll_events fr handler rest pw3))))"

definition fetched_ordered :: "int \<Rightarrow> json list \<Rightarrow> (string \<times> json) list list" where
  \<comment> \<open>the dictionaries with a safe event id beyond the cursor, by id\<close>
  "fetched_ordered cursor events =
     sort_key event_id_of
       (List.map_filter (\<lambda>j. case j of
            JObj ev \<Rightarrow> (case safe_event_id (jget ev ''event_id'') of
                          None \<Rightarrow> None | Some i \<Rightarrow> if i > cursor then Some ev else None)
          | _ \<Rightarrow> None) events)"

definition backoff :: "rat \<Rightarrow> nat \<Rightarrow> rat" where
  \<comment> \<open>the delay after the given number of consecutive errors\<close>
  "backoff interval errors = min 30 (interval * 2 ^ min (errors - 1) 30)"

definition poll_failed :: "poller \<times> 'h world \<Rightarrow> rat \<times> poller \<times> 'h world" where
  "poll_failed pw =
     (case pw of (p, w) \<Rightarrow>
        (let n = p_errors p + 1 in (backoff (p_interval p) n, p\<lparr>p_errors := n\<rparr>, w)))"

definition poll_once ::
  "float_repr \<Rightarrow> 'h card_handler \<Rightarrow> json list option \<Rightarrow> rat \<Rightarrow> poller \<times> 'h world
     \<Rightarrow> rat \<times> poller \<times> 'h world" where
  \<comment> \<open>\<open>fetched\<close> is what the server answered, \<open>None\<close> when the request raised; \<open>elapsed\<close> is the
     clock's difference when it is read\<close>
  "poll_once fr handler fetched elapsed pw =
     (case pw of (p0, w0) \<Rightarrow>
        (case flush_pending_ack (p0\<lparr>p_logs_left := 10\<rparr>, w0) of
           (FlushRaised, pw1) \<Rightarrow> poll_failed pw1
         | (NotFlushed, p1, w1) \<Rightarrow> (p_interval p1, p1\<lparr>p_errors := 0\<rparr>, w1)
         | (Flushed, p1, w1) \<Rightarrow>
             (case fetched of
                None \<Rightarrow> poll_failed (p1, w1)
              | Some events \<Rightarrow>
                  (let ordered = fetched_ordered (p_cursor p1) events
                   in case poll_events fr handler ordered (p1, w1) of
                        (LoopRaised, pw2) \<Rightarrow> poll_failed pw2
                      | (LoopDone ack_failed, p2, w2) \<Rightarrow>
                          (if ack_failed \<or> p_wait p2 = 0 then p_interval p2
                           else if ordered \<noteq> [] then 0
                           else if elapsed < of_int (p_wait p2) / 2 then p_interval p2 else 0,
                           p2\<lparr>p_errors := 0\<rparr>, w2)))))"

end
