(* ===== verification/PollerLog.thy ===== *)
theory PollerLog
  imports EventPoller "HOL-Library.Multiset"
begin

text \<open>
  The guarantees of the event poller. A small protocol (\<open>log_step\<close>, \<open>log_step_ok\<close>) says what a
  log of handled events, cursor writes, acknowledgements and restarts may look like; every poll
  emits a log that follows it (\<open>poll_once_follows\<close>), and so does every run with crashes and restarts
  (\<open>poller_run\<close>, \<open>poller_run_log\<close>). The theorems read the ordering and the at-most-once
  guarantees off the protocol, and bound the pace of the poller.
\<close>

section \<open>The protocol of the log\<close>

text \<open>
  A position in a log: the cursor and the pending acknowledgement of the poller, the same of its
  file, which a failing write may have moved ahead, and the last event handled but not yet saved.
  \<open>log_step\<close> follows it, \<open>log_step_ok\<close> is what may happen next. If the event ids of an answer need
  not be distinct (\<open>strict\<close> is false), an event may be handled again at the cursor, not behind it.
\<close>

type_synonym cursor_pos = "int \<times> int option"
type_synonym log_pos = "cursor_pos \<times> cursor_pos \<times> int option"

definition below :: "bool \<Rightarrow> int \<Rightarrow> int \<Rightarrow> bool" where
  "below strict x y \<longleftrightarrow> (if strict then x < y else x \<le> y)"

fun log_step :: "poll_event \<Rightarrow> log_pos \<Rightarrow> log_pos" where
  "log_step (Handled e) (m, d, u) = (m, d, Some e)"
| "log_step (Saved e p) (m, d, u) = ((e, p), (e, p), None)"
| "log_step (Landed e p) (m, d, u) = (m, (e, p), u)"
| "log_step Restarted (m, d, u) = (d, d, None)"
| "log_step _ s = s"

definition write_ok :: "bool \<Rightarrow> int \<Rightarrow> int option \<Rightarrow> log_pos \<Rightarrow> bool" where
  "write_ok strict e p s \<longleftrightarrow>
     (case s of (m, d, u) \<Rightarrow> fst d \<le> e \<and>
        (u = Some e \<and> below strict (fst m) e \<and> (p = None \<or> p = Some e) \<or> e = fst m \<and> p = None))"

fun log_step_ok :: "bool \<Rightarrow> poll_event \<Rightarrow> log_pos \<Rightarrow> bool" where
  "log_step_ok strict (Handled e) (m, d, u) = (below strict (fst m) e \<and> snd m = None)"
| "log_step_ok strict (Saved e p) s = write_ok strict e p s"
| "log_step_ok strict (Landed e p) s = write_ok strict e p s"
| "log_step_ok strict (AckSent e b) (m, d, u) = (snd m = Some e)"
| "log_step_ok strict _ _ = True"

fun log_ok :: "bool \<Rightarrow> log_pos \<Rightarrow> poll_event list \<Rightarrow> bool" where
  "log_ok strict s [] = True"
| "log_ok strict s (e # L) = (log_step_ok strict e s \<and> log_ok strict (log_step e s) L)"

definition log_end :: "log_pos \<Rightarrow> poll_event list \<Rightarrow> log_pos" where
  "log_end s L = fold log_step L s"

lemma log_end_simps [simp]:
  "log_end s [] = s" "log_end s (e # L) = log_end (log_step e s) L"
  by (simp_all add: log_end_def)

lemma log_end_append: "log_end s (L @ M) = log_end (log_end s L) M"
  by (simp add: log_end_def)

lemma log_ok_append: "log_ok b s (L @ M) \<longleftrightarrow> log_ok b s L \<and> log_ok b (log_end s L) M"
  by (induction L arbitrary: s) auto

lemma log_ok_forget: "log_ok b (m, d, None) L \<Longrightarrow> log_ok b (m, d, u) L"
proof (induction L arbitrary: m d u)
  case (Cons e L)
  then show ?case by (cases e) (auto simp: write_ok_def)
qed simp

lemma log_end_forget:
  "log_end (m, d, None) L = (m', d', u') \<Longrightarrow> \<exists>u''. log_end (m, d, u) L = (m', d', u'')"
proof (induction L arbitrary: m d u)
  case (Cons e L)
  then show ?case by (cases e) auto
qed simp

definition emits :: "bool \<Rightarrow> 'h world \<Rightarrow> log_pos \<Rightarrow> 'h world \<Rightarrow> log_pos \<Rightarrow> bool" where
  \<comment> \<open>between the two worlds the log grew by a correct piece\<close>
  "emits b w s w' s' \<longleftrightarrow> (\<exists>L. w_log w' = w_log w @ L \<and> log_ok b s L \<and> log_end s L = s')"

lemma emits_refl [intro, simp]: "emits b w s w s"
  by (auto simp: emits_def)

lemma emits_trans [trans]: "emits b w s w1 s1 \<Longrightarrow> emits b w1 s1 w2 s2 \<Longrightarrow> emits b w s w2 s2"
  unfolding emits_def by (metis append_assoc log_end_append log_ok_append)

lemma emits_event:
  "log_step_ok b e s \<Longrightarrow> w_log w' = w_log w @ [e] \<Longrightarrow> emits b w s w' (log_step e s)"
  by (auto simp: emits_def intro!: exI [of _ "[e]"])

lemma emits_same: "w_log w' = w_log w \<Longrightarrow> emits b w s w' s"
  by (auto simp: emits_def)

lemma emits_forget:
  assumes "emits b w (m, d, None) w' (m', d', u')" shows "\<exists>u''. emits b w (m, d, u) w' (m', d', u'')"
proof -
  obtain L where L: "w_log w' = w_log w @ L" "log_ok b (m, d, None) L" "log_end (m, d, None) L = (m', d', u')"
    using assms by (auto simp: emits_def)
  obtain u'' where "log_end (m, d, u) L = (m', d', u'')" using log_end_forget[OF L(3)] by blast
  then show ?thesis using L(1) log_ok_forget[OF L(2)] by (auto simp: emits_def)
qed

section \<open>A poll follows the protocol\<close>

definition pos :: "poller \<Rightarrow> int option \<Rightarrow> log_pos" where
  "pos p u = ((p_cursor p, p_pending p), read_cursor (p_file p), u)"

definition follows :: "bool \<Rightarrow> poller \<times> 'h world \<Rightarrow> poller \<times> 'h world \<Rightarrow> bool" where
  "follows b pw pw' \<longleftrightarrow> (\<exists>u. emits b (snd pw) (pos (fst pw) None) (snd pw') (pos (fst pw') u))"

lemma follows_refl [intro, simp]: "follows b pw pw"
  by (auto simp: follows_def)

lemma followsI: "emits b w (pos p None) w' (pos p' u) \<Longrightarrow> follows b (p, w) (p', w')"
  by (auto simp: follows_def)

lemma follows_from:
  assumes "emits b w s w1 (pos p1 u1)" "follows b (p1, w1) (p2, w2)" shows "\<exists>u. emits b w s w2 (pos p2 u)"
proof -
  obtain u where "emits b w1 (pos p1 None) w2 (pos p2 u)" using assms(2) by (auto simp: follows_def)
  then obtain u' where "emits b w1 (pos p1 u1) w2 (pos p2 u')" using emits_forget unfolding pos_def by blast
  then show ?thesis using emits_trans[OF assms(1)] by blast
qed

lemma follows_trans:
  assumes "follows b (p, w) (p1, w1)" "follows b (p1, w1) (p2, w2)" shows "follows b (p, w) (p2, w2)"
proof -
  obtain u where "emits b w (pos p None) w1 (pos p1 u)" using assms(1) by (auto simp: follows_def)
  from follows_from[OF this assms(2)] show ?thesis by (auto simp: follows_def)
qed

lemma pos_simps [simp]:
  "pos (p\<lparr>p_flush_failures := n\<rparr>) u = pos p u" "pos (p\<lparr>p_errors := n\<rparr>) u = pos p u"
  "pos (p\<lparr>p_logs_left := k\<rparr>) u = pos p u" "pos (p\<lparr>p_logged := l\<rparr>) u = pos p u"
  by (simp_all add: pos_def)

lemma log_event_log [simp]: "w_log (log_event e w) = w_log w @ [e]"
  by (simp add: log_event_def)

lemma ack_loop_emits:
  "ack_loop n k e w = (ok, w') \<Longrightarrow> snd m = Some e \<Longrightarrow> emits b w (m, d, u) w' (m, d, u)"
proof (induction n k e w rule: ack_loop.induct)
  case (2 n attempt e w)
  let ?ok = "case w_acks w of [] \<Rightarrow> False | b # _ \<Rightarrow> b"
  let ?w1 = "log_event (AckSent e ?ok) (w\<lparr>w_acks := tl (w_acks w)\<rparr>)"
  have 1: "emits b w (m, d, u) ?w1 (m, d, u)"
    using emits_event [of b "AckSent e ?ok" "(m, d, u)" ?w1 w] "2.prems"(2) by simp
  show ?case
  proof (cases "?ok \<or> n = 0")
    case True
    then have "w' = ?w1" using "2.prems" by (auto simp: Let_def split: if_splits)
    then show ?thesis using 1 by simp
  next
    case False
    let ?w2 = "log_event (Slept (of_nat (attempt + 1) / 10)) ?w1"
    have 2: "emits b ?w1 (m, d, u) ?w2 (m, d, u)"
      using emits_event [of b "Slept (of_nat (attempt + 1) / 10)" "(m, d, u)" ?w2 ?w1] by simp
    have "ack_loop n (attempt + 1) e ?w2 = (ok, w')"
      using "2.prems" False by (simp add: Let_def)
    with "2.IH" [OF refl refl] False "2.prems"(2) have "emits b ?w2 (m, d, u) w' (m, d, u)" by simp
    with 1 2 show ?thesis by (blast intro: emits_trans)
  qed
qed simp

lemma save_cursor_emits:
  assumes "save_cursor e q (p, w) = (ok, p', w')"
    and step: "u = Some e \<and> below b (p_cursor p) e \<and> (q = None \<or> q = Some e) \<or> e = p_cursor p \<and> q = None"
  shows "p_cursor p' = p_cursor p \<and> p_pending p' = p_pending p \<and>
    emits b w (pos p u) w' (if ok then ((e, q), read_cursor (p_file p'), None) else pos p' u)"
proof -
  let ?io = "case w_disk w of [] \<Rightarrow> NotWritten | b # _ \<Rightarrow> b" and ?w = "w\<lparr>w_disk := tl (w_disk w)\<rparr>"
  obtain x f where x: "cursor_save ?io e q (p_file p) = (x, f)"
    by (cases "cursor_save ?io e q (p_file p)")
  have p': "p' = p\<lparr>p_file := f\<rparr>"
    using assms(1) x by (auto simp: save_cursor_def Let_def split: sum.splits)
  from x have "emits b w (pos p u) w' (if ok then ((e, q), read_cursor f, None) else (pos p' u))"
  proof (cases rule: file_cursor.save_cases)
    case stored
    then have f: "read_cursor f = (e, q)" and le: "fst (read_cursor (p_file p)) \<le> e"
      by (simp_all add: cursor_load_def cursor_load_pending_def prod_eq_iff)
    have wok: "write_ok b e q (pos p u)" using step le by (simp add: write_ok_def pos_def)
    have w': "w_log w' = w_log w @ [if ok then Saved e q else Landed e q]"
      using assms(1) x stored(4) by (auto simp: save_cursor_def Let_def)
    show ?thesis
    proof (cases ok)
      case True
      then show ?thesis using emits_event[of b "Saved e q" "pos p u" w' w] wok w' f by (simp add: pos_def)
    next
      case False
      then show ?thesis using emits_event[of b "Landed e q" "pos p u" w' w] wok w' f p' by (simp add: pos_def)
    qed
  next
    case (kept err)
    then have "ok = False" "w' = ?w" using assms(1) x by (auto simp: save_cursor_def Let_def)
    then show ?thesis using p' kept(1) by (simp add: emits_same pos_def)
  qed
  then show ?thesis unfolding p' by (simp split: if_splits)
qed

lemma flush_follows:
  assumes "flush_pending_ack (p, w) = (res, p', w')"
  shows "p_cursor p' = p_cursor p \<and> follows b (p, w) (p', w') \<and> (res = Flushed \<longrightarrow> p_pending p' = None)"
proof (cases "p_pending p")
  case None
  then show ?thesis using assms by (auto simp: flush_pending_ack_def intro!: followsI[where u = None])
next
  case (Some e)
  obtain ok w1 where a: "ack_event e w = (ok, w1)" by (cases "ack_event e w")
  have 1: "emits b w (pos p None) w1 (pos p None)"
    using a Some by (auto simp: ack_event_def pos_def intro: ack_loop_emits)
  obtain p1 where p1: "p1 = (if ok then p else p\<lparr>p_flush_failures := p_flush_failures p + 1\<rparr>)"
    and c: "p_cursor p1 = p_cursor p" "pos p1 None = pos p None" by (cases ok) auto
  show ?thesis
  proof (cases "\<not> ok \<and> p_flush_failures p1 < 3")
    case True
    then have "p' = p1" "w' = w1" "res = NotFlushed"
      using assms(1) Some a p1 by (auto simp: flush_pending_ack_def Let_def)
    then show ?thesis using 1 c by (auto intro!: followsI[where u = None])
  next
    case False
    obtain ok2 p2 w2 where sv: "save_cursor (p_cursor p1) None (p1, w1) = (ok2, p2, w2)"
      by (cases "save_cursor (p_cursor p1) None (p1, w1)")
    note 2 = save_cursor_emits [OF sv, of None b]
    have f: "flush_pending_ack (p, w) =
        (if ok2 then (Flushed, p2\<lparr>p_pending := None, p_flush_failures := 0\<rparr>, w2)
         else (FlushRaised, p2, w2))"
      using Some a False sv p1 by (auto simp: flush_pending_ack_def Let_def)
    have "emits b w (pos p None) w2 (if ok2 then ((p_cursor p, None), read_cursor (p_file p2), None) else pos p2 None)"
      using emits_trans[OF 1] 2 c by metis
    then show ?thesis
      using f assms(1) 2 c by (cases ok2) (auto simp: follows_def pos_def)
  qed
qed

lemma warn_rejection_emits:
  "warn_rejection event e a reason (p, w) = (p', w') \<Longrightarrow>
     emits b w s w' s \<and> pos p' u = pos p u \<and> p_cursor p' = p_cursor p \<and>
     p_errors p' = p_errors p \<and> p_interval p' = p_interval p \<and> p_wait p' = p_wait p"
  using emits_event [of b "Warned k" s w' w for k]
  by (fastforce simp: warn_rejection_def Let_def split: prod.splits if_splits)

lemma warn_status_emits:
  "warn_status event e a st (p, w) = (p', w') \<Longrightarrow>
     emits b w s w' s \<and> pos p' u = pos p u \<and> p_cursor p' = p_cursor p \<and>
     p_errors p' = p_errors p \<and> p_interval p' = p_interval p \<and> p_wait p' = p_wait p"
  using warn_rejection_emits [of event e a _ p w p' w' b s u]
  by (auto simp: warn_status_def split: option.splits if_splits)

lemma poll_events_follows:
  assumes "poll_events fr handler evs (p, w) = (res, p', w')" and "p_pending p = None"
    and "sorted_wrt (below b) (p_cursor p # map event_id_of evs)"
  shows "follows b (p, w) (p', w')"
  using assms
proof (induction evs arbitrary: p w)
  case Nil
  then show ?case by auto
next
  case (Cons ev evs)
  let ?e = "event_id_of ev" and ?a = "parse_card_action fr (JObj ev)"
  obtain reply h where rh: "(case ?a of None \<Rightarrow> (Some None, w_handler w) | Some a \<Rightarrow> handler a (w_handler w)) = (reply, h)"
    by (cases "case ?a of None \<Rightarrow> (Some None, w_handler w) | Some a \<Rightarrow> handler a (w_handler w)")
  let ?w1 = "log_event (Handled ?e) (w\<lparr>w_handler := h\<rparr>)"
  have lt: "below b (p_cursor p) ?e" and rest: "sorted_wrt (below b) (?e # map event_id_of evs)"
    using Cons.prems(3) by auto
  have 1: "emits b w (pos p None) ?w1 (pos p (Some ?e))"
    using emits_event [of b "Handled ?e" "pos p None" ?w1 w] lt Cons.prems(2) by (simp add: pos_def)
  show ?case
  proof (cases reply)
    case None
    then have "p' = p" "w' = ?w1" using Cons.prems(1) rh by (simp_all add: Let_def)
    then show ?thesis using 1 by (auto simp: follows_def)
  next
    case (Some st)
    let ?q = "if should_ack st then Some ?e else None"
    obtain p1 w2 where ws: "warn_status ev ?e ?a st (p, ?w1) = (p1, w2)"
      by (cases "warn_status ev ?e ?a st (p, ?w1)")
    have we: "emits b ?w1 (pos p (Some ?e)) w2 (pos p1 (Some ?e))" "p_cursor p1 = p_cursor p"
      using warn_status_emits [OF ws, of b "pos p (Some ?e)" "Some ?e"] by auto
    obtain ok p2 w3 where sv: "save_cursor ?e ?q (p1, w2) = (ok, p2, w3)"
      by (cases "save_cursor ?e ?q (p1, w2)")
    have se: "emits b w2 (pos p1 (Some ?e)) w3 (if ok then ((?e, ?q), read_cursor (p_file p2), None) else pos p2 (Some ?e))"
      using save_cursor_emits [OF sv, of "Some ?e" b] lt we(2) by simp
    have 13: "emits b w (pos p None) w3 (if ok then ((?e, ?q), read_cursor (p_file p2), None) else pos p2 (Some ?e))"
      using emits_trans[OF emits_trans[OF 1 we(1)] se] .
    show ?thesis
    proof (cases ok)
      case False
      then have "p' = p2" "w' = w3" using Cons.prems(1) rh Some ws sv by (simp_all add: Let_def)
      then show ?thesis using 13 False by (auto simp: follows_def)
    next
      case True
      let ?p3 = "p2\<lparr>p_cursor := ?e, p_pending := ?q\<rparr>"
      have 3: "follows b (p, w) (?p3, w3)" using 13 True by (auto simp: follows_def pos_def)
      show ?thesis
      proof (cases "should_ack st")
        case False
        then have "poll_events fr handler evs (?p3, w3) = (res, p', w')"
          using Cons.prems(1) rh Some ws sv True by (simp add: Let_def)
        from follows_trans[OF 3 Cons.IH [OF this]] show ?thesis using False rest by simp
      next
        case ack: True
        obtain fres p4 w4 where fl: "flush_pending_ack (?p3, w3) = (fres, p4, w4)"
          by (cases "flush_pending_ack (?p3, w3)")
        note f = flush_follows [OF fl, of b]
        then have 4: "follows b (p, w) (p4, w4)" using 3 follows_trans by blast
        show ?thesis
        proof (cases "fres = Flushed")
          case True
          then have "poll_events fr handler evs (p4, w4) = (res, p', w')"
            using Cons.prems(1) rh Some ws sv \<open>ok\<close> ack fl by (simp add: Let_def)
          from follows_trans[OF 4 Cons.IH [OF this]] show ?thesis using f True rest by simp
        next
          case False
          then have "p' = p4 \<and> w' = w4"
            using Cons.prems(1) rh Some ws sv \<open>ok\<close> ack fl by (cases fres) (simp_all add: Let_def)
          then show ?thesis using 4 by simp
        qed
      qed
    qed
  qed
qed

lemma fetched_beyond:
  "ev \<in> set (fetched_ordered c events) \<Longrightarrow> c < event_id_of ev"
proof -
  assume "ev \<in> set (fetched_ordered c events)"
  then obtain j where "(case j of JObj ev \<Rightarrow> (case safe_event_id (jget ev ''event_id'') of
      None \<Rightarrow> None | Some i \<Rightarrow> if i > c then Some ev else None) | _ \<Rightarrow> None) = Some ev"
    by (auto simp: fetched_ordered_def set_map_filter)
  then show ?thesis
    by (cases j) (auto simp: event_id_of_def safe_event_id_Some split: option.splits if_splits)
qed

definition event_ids :: "json list \<Rightarrow> int list" where
  \<comment> \<open>the safe event ids of an answer\<close>
  "event_ids events =
     List.map_filter (\<lambda>j. case j of JObj ev \<Rightarrow> safe_event_id (jget ev ''event_id'') | _ \<Rightarrow> None) events"

lemma fetched_step:
  "List.map_filter f (j # js) = (case f j of None \<Rightarrow> [] | Some y \<Rightarrow> [y]) @ List.map_filter f js"
  by (simp split: option.split)

lemma fetched_ids: "mset (map event_id_of (fetched_ordered c events)) = mset (filter (\<lambda>i. c < i) (event_ids events))"
proof -
  let ?f = "\<lambda>j. case j of
      JObj ev \<Rightarrow> (case safe_event_id (jget ev ''event_id'') of None \<Rightarrow> None | Some i \<Rightarrow> if i > c then Some ev else None)
    | _ \<Rightarrow> None"
  let ?g = "\<lambda>j. case j of JObj ev \<Rightarrow> safe_event_id (jget ev ''event_id'') | _ \<Rightarrow> None"
  have one: "map event_id_of (case ?f j of None \<Rightarrow> [] | Some y \<Rightarrow> [y]) =
      filter (\<lambda>i. c < i) (case ?g j of None \<Rightarrow> [] | Some y \<Rightarrow> [y])" for j
  proof (cases j)
    case (JObj ev)
    then show ?thesis
      by (cases "safe_event_id (jget ev ''event_id'')") (auto simp: event_id_of_def safe_event_id_Some)
  qed simp_all
  have ids: "map event_id_of (List.map_filter ?f events) = filter (\<lambda>i. c < i) (List.map_filter ?g events)"
  proof (induction events)
    case (Cons j js)
    show ?case unfolding fetched_step[of ?f j js] fetched_step[of ?g j js] map_append filter_append one[of j] Cons.IH ..
  qed simp
  have srt: "mset (map event_id_of (sort_key event_id_of xs)) = mset (map event_id_of xs)" for xs
    by (simp only: mset_map mset_sort)
  show ?thesis unfolding fetched_ordered_def event_ids_def srt ids ..
qed

definition unique_ids :: "json list option \<Rightarrow> bool" where
  \<comment> \<open>an answer of the server holds no event id twice\<close>
  "unique_ids fetched \<longleftrightarrow> (case fetched of None \<Rightarrow> True | Some events \<Rightarrow> distinct (event_ids events))"

lemma fetched_sorted:
  assumes "b \<Longrightarrow> unique_ids (Some events)"
  shows "sorted_wrt (below b) (c # map event_id_of (fetched_ordered c events))"
proof -
  let ?ids = "map event_id_of (fetched_ordered c events)"
  have srt: "sorted ?ids" by (simp add: fetched_ordered_def)
  have beyond: "\<forall>i\<in>set ?ids. c < i" using fetched_beyond by auto
  show ?thesis
  proof (cases b)
    case True
    then have "distinct (filter (\<lambda>i. c < i) (event_ids events))" using assms by (simp add: unique_ids_def)
    then have "distinct ?ids" using fetched_ids[of c events] mset_eq_imp_distinct_iff by blast
    then have "sorted_wrt (<) ?ids" using srt strict_sorted_iff by blast
    then show ?thesis using True beyond by (simp add: below_def[abs_def])
  next
    case False
    then show ?thesis using srt beyond by (auto simp: below_def[abs_def])
  qed
qed

lemma poll_once_follows:
  assumes "poll_once fr handler fetched elapsed (p, w) = (d, p', w')" and ids: "b \<Longrightarrow> unique_ids fetched"
  shows "follows b (p, w) (p', w')"
proof -
  let ?p0 = "p\<lparr>p_logs_left := 10\<rparr>"
  obtain fres p1 w1 where fl: "flush_pending_ack (?p0, w) = (fres, p1, w1)"
    by (cases "flush_pending_ack (?p0, w)")
  have f: "follows b (p, w) (p1, w1)" "fres = Flushed \<longrightarrow> p_pending p1 = None"
    using flush_follows [OF fl, of b] by (simp_all add: follows_def)
  show ?thesis
  proof (cases "fres = Flushed \<and> fetched \<noteq> None")
    case False
    then have "(\<forall>u. pos p' u = pos p1 u) \<and> w' = w1"
      using assms(1) fl by (cases fres) (auto simp: poll_once_def poll_failed_def Let_def)
    then show ?thesis using f(1) by (simp add: follows_def)
  next
    case True
    then obtain events where ev: "fetched = Some events" and fr: "fres = Flushed" by auto
    obtain res p2 w2 where pe:
      "poll_events fr handler (fetched_ordered (p_cursor p1) events) (p1, w1) = (res, p2, w2)"
      by (cases "poll_events fr handler (fetched_ordered (p_cursor p1) events) (p1, w1)")
    have "follows b (p1, w1) (p2, w2)"
      by (rule poll_events_follows [OF pe]) (use f fr ids ev fetched_sorted in auto)
    moreover have "(\<forall>u. pos p' u = pos p2 u) \<and> w' = w2"
      using assms(1) fl fr ev pe
      by (cases res) (auto simp: poll_once_def poll_failed_def Let_def)
    ultimately show ?thesis using follows_trans[OF f(1), of p2 w2] by (simp add: follows_def)
  qed
qed

section \<open>Runs with crashes\<close>

lemma read_cursor_safe: "is_safe_id (fst (read_cursor f))"
  by (auto simp: read_cursor_def is_safe_id_def MAX_SAFE_EVENT_ID_def safe_event_id_Some
      split: sfile.splits json.splits option.splits)

lemma initialize_pos:
  "(p_cursor (initialize (new_poller i wt l f)), p_pending (initialize (new_poller i wt l f))) = read_cursor f"
  "p_file (initialize (new_poller i wt l f)) = f"
proof -
  obtain c q where cq: "read_cursor f = (c, q)" by (cases "read_cursor f")
  have "is_safe_id c" using read_cursor_safe [of f] cq by simp
  moreover have "\<forall>x. q = Some x \<longrightarrow> 0 \<le> x \<and> x \<le> c" using read_cursor_sane [OF cq] by auto
  ultimately show "(p_cursor (initialize (new_poller i wt l f)), p_pending (initialize (new_poller i wt l f))) = read_cursor f"
    using cq by (auto simp: initialize_def new_poller_def cursor_load_def cursor_load_pending_def
        is_safe_id_def Let_def split: option.splits)
  show "p_file (initialize (new_poller i wt l f)) = f" by (simp add: initialize_def new_poller_def Let_def)
qed

text \<open>
  A poller starts on a cursor file, polls, and may die at any point of a poll: what survives is
  the log so far and the file as the last cursor write left it. The next poller is initialised
  from that file. The server's answers (the list \<open>fs\<close>), the handler's state, the clocks and the
  faults are arbitrary.
\<close>

inductive poller_run ::
  "float_repr \<Rightarrow> 'h card_handler \<Rightarrow> sfile \<Rightarrow> json list option list \<Rightarrow> poller \<Rightarrow> 'h world \<Rightarrow> bool"
  for fr handler f0 where
  start: "w_log w = [] \<Longrightarrow> poller_run fr handler f0 [] (initialize (new_poller i wt l f0)) w"
| poll: "poller_run fr handler f0 fs p w \<Longrightarrow>
     poll_once fr handler fetched elapsed (p, w\<lparr>w_acks := acks, w_disk := disk\<rparr>) = (d, p', w') \<Longrightarrow>
     poller_run fr handler f0 (fetched # fs) p' w'"
| crash: "poller_run fr handler f0 fs p w \<Longrightarrow>
     poll_once fr handler fetched elapsed (p, w\<lparr>w_acks := acks, w_disk := disk\<rparr>) = (d, p', w') \<Longrightarrow>
     w_log w' = w_log w @ written @ rest \<Longrightarrow>
     log_end (pos p None) written = (m, read_cursor f, u) \<Longrightarrow>
     w_log w'' = w_log w @ written @ [Restarted] \<Longrightarrow>
     poller_run fr handler f0 (fetched # fs) (initialize (new_poller i wt l f)) w''"

definition start_pos :: "sfile \<Rightarrow> log_pos" where
  "start_pos f = (read_cursor f, read_cursor f, None)"

lemma initialized_at: "pos (initialize (new_poller i wt l f)) None = start_pos f"
  by (simp add: pos_def start_pos_def initialize_pos)

lemma poller_run_log:
  assumes "poller_run fr handler f0 fs p w" and "b \<Longrightarrow> \<forall>x\<in>set fs. unique_ids x"
  shows "log_ok b (start_pos f0) (w_log w) \<and> (\<exists>u. log_end (start_pos f0) (w_log w) = pos p u)"
  using assms
proof induction
  case (start w i wt l)
  then show ?case using initialized_at[of i wt l f0, symmetric] by auto
next
  case (poll fs p w fetched elapsed disk acks d p' w')
  have IH: "log_ok b (start_pos f0) (w_log w)" "\<exists>u. log_end (start_pos f0) (w_log w) = pos p u"
    using poll.IH poll.prems by auto
  then obtain u where u: "log_end (start_pos f0) (w_log w) = pos p u" by blast
  have "follows b (p, w\<lparr>w_acks := acks, w_disk := disk\<rparr>) (p', w')"
    by (rule poll_once_follows[OF poll.hyps(2)]) (use poll.prems in simp)
  then obtain u' where "emits b (w\<lparr>w_acks := acks, w_disk := disk\<rparr>) (pos p u) w' (pos p' u')"
    unfolding follows_def pos_def using emits_forget[where u = u] by fastforce
  then show ?case using IH(1) u by (auto simp: emits_def log_ok_append log_end_append)
next
  case (crash fs p w fetched elapsed disk acks d p' w' written rest m f u w'' i wt l)
  have IH: "log_ok b (start_pos f0) (w_log w)" "\<exists>u. log_end (start_pos f0) (w_log w) = pos p u"
    using crash.IH crash.prems by auto
  then obtain v where v: "log_end (start_pos f0) (w_log w) = pos p v" by blast
  have "follows b (p, w\<lparr>w_acks := acks, w_disk := disk\<rparr>) (p', w')"
    by (rule poll_once_follows[OF crash.hyps(2)]) (use crash.prems in simp)
  then have "log_ok b (pos p None) (written @ rest)"
    using crash.hyps(3) by (auto simp: follows_def emits_def)
  then have ok: "log_ok b (pos p v) written"
    unfolding pos_def by (simp add: log_ok_append log_ok_forget)
  obtain u'' where "log_end (pos p v) written = (m, read_cursor f, u'')"
    using crash.hyps(4) log_end_forget unfolding pos_def by blast
  then have "log_ok b (start_pos f0) (w_log w'')"
      "log_end (start_pos f0) (w_log w'') = (read_cursor f, read_cursor f, None)"
    using IH(1) v ok crash.hyps(5) by (simp_all add: log_ok_append log_end_append)
  then show ?case using initialized_at[of i wt l f] by (auto simp: start_pos_def intro!: exI[of _ None])
qed

section \<open>Guarantees\<close>

lemma log_ok_durable: "log_ok b s L \<Longrightarrow> fst (fst (snd s)) \<le> fst (fst (snd (log_end s L)))"
proof (induction L arbitrary: s)
  case (Cons x L)
  obtain m d u where s: "s = (m, d, u)" by (cases s)
  have "fst d \<le> fst (fst (snd (log_step x s)))" using Cons.prems s by (cases x) (auto simp: write_ok_def)
  also have "\<dots> \<le> fst (fst (snd (log_end (log_step x s) L)))" using Cons by simp
  finally show ?case using s by simp
qed simp

lemma log_ok_cursor: "log_ok True (m, d, u) L \<Longrightarrow> e \<le> fst m \<Longrightarrow> e \<le> fst d \<Longrightarrow> Handled e' \<in> set L \<Longrightarrow> e < e'"
proof (induction L arbitrary: m d u)
  case (Cons x L)
  then show ?case by (cases x) (fastforce simp: write_ok_def below_def)+
qed simp

text \<open>
  C7. No event is processed again once its cursor is saved: over any run of polls with crashes
  and restarts at arbitrary points, failing disks and failing acknowledgements, in which no answer
  of the server holds an event id twice, an event handled after the save of a cursor has returned
  has a larger id than that cursor. A save that raises after it has replaced the file (the
  synchronisation of the directory failed) binds the poller from its next restart on, and the
  cursor found in the file at the start binds it from the start.
\<close>

theorem saved_events_never_replayed:
  assumes "poller_run fr handler f0 fs p w" and "\<forall>fetched\<in>set fs. unique_ids fetched"
  shows "(\<forall>earlier e q later. w_log w = earlier @ Saved e q # later \<longrightarrow>
      (\<forall>e'. Handled e' \<in> set later \<longrightarrow> e < e')) \<and>
    (\<forall>earlier e q between later. w_log w = earlier @ Landed e q # between @ Restarted # later \<longrightarrow>
      (\<forall>e'. Handled e' \<in> set later \<longrightarrow> e < e')) \<and>
    (\<forall>e'. Handled e' \<in> set (w_log w) \<longrightarrow> cursor_load f0 < e')"
proof (intro conjI allI impI)
  have ok: "log_ok True (start_pos f0) (w_log w)" using poller_run_log[OF assms(1), of True] assms(2) by simp
  fix e' assume "Handled e' \<in> set (w_log w)"
  then show "cursor_load f0 < e'" using log_ok_cursor ok unfolding start_pos_def cursor_load_def by blast
next
  fix earlier e q later e' assume h: "w_log w = earlier @ Saved e q # later" "Handled e' \<in> set later"
  have "log_ok True (log_step (Saved e q) (log_end (start_pos f0) earlier)) later"
    using poller_run_log[OF assms(1), of True] assms(2) unfolding h(1) by (simp add: log_ok_append)
  then show "e < e'" using log_ok_cursor[of "(e, q)" "(e, q)" None later e e'] h(2)
    by (cases "log_end (start_pos f0) earlier") simp
next
  fix earlier e q between later e'
  assume h: "w_log w = earlier @ Landed e q # between @ Restarted # later" "Handled e' \<in> set later"
  let ?s = "log_end (start_pos f0) earlier"
  have s: "log_ok True (log_step (Landed e q) ?s) (between @ Restarted # later)"
    using poller_run_log[OF assms(1), of True] assms(2) unfolding h(1) by (simp add: log_ok_append)
  let ?s' = "log_end (log_step (Landed e q) ?s) between"
  have "e \<le> fst (fst (snd ?s'))"
    using log_ok_durable[of True "log_step (Landed e q) ?s" between] s by (cases ?s) (simp add: log_ok_append)
  moreover have "log_ok True (log_step Restarted ?s') later" using s by (simp add: log_ok_append)
  ultimately show "e < e'" using log_ok_cursor[of _ _ None later e e'] h(2) by (cases ?s') auto
qed

lemma log_pending:
  assumes "log_ok b (m, d, u) L" "log_end (m, d, u) L = (m', d', u')" "snd m' = Some e \<or> snd d' = Some e"
  shows "snd m = Some e \<or> snd d = Some e \<or>
    (Saved e (Some e) \<in> set L \<or> Landed e (Some e) \<in> set L) \<and> (u = Some e \<or> Handled e \<in> set L)"
  using assms
proof (induction L arbitrary: m d u)
  case (Cons x L)
  then show ?case by (cases x) (fastforce simp: write_ok_def)+
qed auto

text \<open>
  C8. An event is acknowledged to the server only after it has been handled and its cursor,
  marked as pending acknowledgement, has reached the disk; the only other acknowledgement is
  the retry of one that the file of the start recorded as pending. So a crash never loses an event
  that the server believes to be delivered. This holds whatever ids the server sends.
\<close>

theorem acknowledged_events_are_durable:
  assumes "poller_run fr handler f0 fs p w" and "w_log w = earlier @ AckSent e ok # later"
  shows "Handled e \<in> set earlier \<and> (Saved e (Some e) \<in> set earlier \<or> Landed e (Some e) \<in> set earlier) \<or>
         cursor_load_pending f0 = Some e"
proof -
  have "log_ok False (start_pos f0) (earlier @ AckSent e ok # later)"
    using poller_run_log [OF assms(1), of False] assms(2) by simp
  then obtain m d u where "log_ok False (start_pos f0) earlier" "log_end (start_pos f0) earlier = (m, d, u)"
      "snd m = Some e"
    by (cases "log_end (start_pos f0) earlier") (auto simp: log_ok_append)
  from log_pending [OF _ this(2) [unfolded start_pos_def]] this(1,3) show ?thesis
    by (auto simp: start_pos_def cursor_load_pending_def)
qed

section \<open>Pacing\<close>

definition same_pace :: "poller \<Rightarrow> poller \<Rightarrow> bool" where
  "same_pace p p' \<longleftrightarrow> p_interval p' = p_interval p \<and> p_wait p' = p_wait p \<and> p_errors p' = p_errors p"

lemma same_pace_refl [simp]: "same_pace p p"
  by (simp add: same_pace_def)

lemma same_pace_trans: "same_pace a b \<Longrightarrow> same_pace b c \<Longrightarrow> same_pace a c"
  by (simp add: same_pace_def)

lemma save_cursor_pace: "save_cursor e q (p, w) = (ok, p', w') \<Longrightarrow> same_pace p p'"
  by (auto simp: save_cursor_def same_pace_def Let_def split: prod.splits sum.splits)

lemma flush_pace:
  assumes "flush_pending_ack (p, w) = (res, p', w')"
  shows "same_pace p p'"
proof (cases "p_pending p")
  case None
  then show ?thesis using assms by (auto simp: flush_pending_ack_def same_pace_def)
next
  case (Some e)
  obtain ok w1 where a: "ack_event e w = (ok, w1)" by (cases "ack_event e w")
  have "same_pace p q" if "save_cursor c x (if ok then p else p\<lparr>p_flush_failures := n\<rparr>, w1) = (r, q, w2)" for c x n r q w2
    using save_cursor_pace [OF that] by (auto simp: same_pace_def split: if_splits)
  then show ?thesis using assms Some a
    by (auto simp: flush_pending_ack_def Let_def same_pace_def split: prod.splits if_splits bool.splits)
qed

lemma warn_status_pace: "warn_status event e a st (p, w) = (p', w') \<Longrightarrow> same_pace p p'"
  using warn_status_emits [of event e a st p w p' w' undefined undefined undefined] by (simp add: same_pace_def)

lemma poll_events_pace: "poll_events fr handler evs (p, w) = (res, p', w') \<Longrightarrow> same_pace p p'"
proof (induction evs arbitrary: p w)
  case (Cons ev evs)
  let ?e = "event_id_of ev" and ?a = "parse_card_action fr (JObj ev)"
  obtain reply h where rh: "(case ?a of None \<Rightarrow> (Some None, w_handler w) | Some a \<Rightarrow> handler a (w_handler w)) = (reply, h)"
    by (cases "case ?a of None \<Rightarrow> (Some None, w_handler w) | Some a \<Rightarrow> handler a (w_handler w)")
  let ?w1 = "log_event (Handled ?e) (w\<lparr>w_handler := h\<rparr>)"
  show ?case
  proof (cases reply)
    case None
    then show ?thesis using Cons.prems rh by (simp add: Let_def)
  next
    case (Some st)
    let ?q = "if should_ack st then Some ?e else None"
    obtain p1 w2 where ws: "warn_status ev ?e ?a st (p, ?w1) = (p1, w2)"
      by (cases "warn_status ev ?e ?a st (p, ?w1)")
    obtain ok p2 w3 where sv: "save_cursor ?e ?q (p1, w2) = (ok, p2, w3)"
      by (cases "save_cursor ?e ?q (p1, w2)")
    have 2: "same_pace p p2" using warn_status_pace [OF ws] save_cursor_pace [OF sv] same_pace_trans by blast
    let ?p3 = "p2\<lparr>p_cursor := ?e, p_pending := ?q\<rparr>"
    have 3: "same_pace p ?p3" using 2 by (simp add: same_pace_def)
    obtain fres p4 w4 where fl: "flush_pending_ack (?p3, w3) = (fres, p4, w4)"
      by (cases "flush_pending_ack (?p3, w3)")
    have 4: "same_pace p p4" using 3 flush_pace [OF fl] same_pace_trans by blast
    consider (stop) "p' = p2" | (flush) "p' = p4"
      | (skip) "poll_events fr handler evs (?p3, w3) = (res, p', w')"
      | (more) "poll_events fr handler evs (p4, w4) = (res, p', w')"
      using Cons.prems rh Some ws sv fl
      by (cases ok; cases "should_ack st"; cases fres) (simp_all add: Let_def)
    then show ?thesis
    proof cases
      case skip
      then show ?thesis using Cons.IH 3 same_pace_trans by blast
    next
      case more
      then show ?thesis using Cons.IH 4 same_pace_trans by blast
    qed (use 2 4 in simp_all)
  qed
qed simp

text \<open>
  The pace of the poller: a poll that fails schedules the next one after the interval
  doubled once per consecutive failure, never more than 30 seconds; every other poll resets
  the failure count and schedules the next one after the interval, or at once only when it
  made progress through the event list or the server held the request for half its wait. So
  neither a failing nor an idle server is polled in a busy loop.
\<close>

theorem poll_pace:
  assumes "poll_once fr handler fetched elapsed (p, w) = (d, p', w')"
  shows "if p_errors p' = 0
         then d = p_interval p \<or>
              d = 0 \<and> p_wait p \<noteq> 0 \<and>
                (of_int (p_wait p) / 2 \<le> elapsed \<or>
                 (\<exists>evs c. fetched = Some evs \<and> fetched_ordered c evs \<noteq> []))
         else p_errors p' = p_errors p + 1 \<and>
              d = min 30 (p_interval p * 2 ^ min (p_errors p) 30)"
proof -
  let ?p0 = "p\<lparr>p_logs_left := 10\<rparr>"
  obtain fres p1 w1 where fl: "flush_pending_ack (?p0, w) = (fres, p1, w1)"
    by (cases "flush_pending_ack (?p0, w)")
  have 1: "same_pace p p1" using flush_pace [OF fl] by (simp add: same_pace_def)
  have failed: "p_errors p' = p_errors p + 1 \<and> d = min 30 (p_interval p * 2 ^ min (p_errors p) 30)"
    if "poll_failed (q, v) = (d, p', w')" "same_pace p q" for q v
    using that by (auto simp: poll_failed_def backoff_def same_pace_def Let_def)
  show ?thesis
  proof (cases "fres = Flushed \<and> fetched \<noteq> None")
    case False
    then consider "fres = NotFlushed" | "poll_failed (p1, w1) = (d, p', w')"
      using assms fl by (cases fres) (auto simp: poll_once_def)
    then show ?thesis
    proof cases
      case 1
      then show ?thesis using assms fl \<open>same_pace p p1\<close> by (auto simp: poll_once_def same_pace_def)
    next
      case 2
      then show ?thesis using failed \<open>same_pace p p1\<close> by auto
    qed
  next
    case True
    then obtain evs where ev: "fetched = Some evs" and fr: "fres = Flushed" by auto
    obtain res p2 w2 where pe:
      "poll_events fr handler (fetched_ordered (p_cursor p1) evs) (p1, w1) = (res, p2, w2)"
      by (cases "poll_events fr handler (fetched_ordered (p_cursor p1) evs) (p1, w1)")
    have 2: "same_pace p p2" using 1 poll_events_pace [OF pe] same_pace_trans by blast
    show ?thesis
    proof (cases res)
      case LoopRaised
      then show ?thesis using assms fl fr ev pe 2 failed by (simp add: poll_once_def Let_def)
    next
      case (LoopDone b)
      then show ?thesis using assms fl fr ev pe 2
        by (auto simp: poll_once_def Let_def same_pace_def not_less split: if_splits)
    qed
  qed
qed

section \<open>Examples\<close>

definition sample_world :: "bool list \<Rightarrow> disk_write list \<Rightarrow> unit world" where
  "sample_world acks disk = \<lparr>w_acks = acks, w_disk = disk, w_handler = (), w_log = []\<rparr>"

definition sample_handler :: "unit card_handler" where
  "sample_handler a h = (Some (Some ''completed''), h)"

definition sample_poller :: "sfile \<Rightarrow> poller" where
  "sample_poller f = initialize (new_poller 2 25 50 f)"

definition sample_event :: "int \<Rightarrow> json" where
  "sample_event e = JObj [(''event_id'', JInt e), (''event_type'', JStr ''card_action''),
     (''event_data'', JObj [(''message_id'', JStr ''m''), (''channel_id'', JStr ''c''), (''channel_type'', JInt 1),
        (''action_id'', JStr ''a''), (''operator_uid'', JStr ''u''), (''inputs'', JObj []), (''data'', JObj [])])]"

definition sample_log :: "poll_event list" where
  \<comment> \<open>the second write fails after the file has been replaced\<close>
  "sample_log = w_log (snd (snd (poll_once (\<lambda>_. []) sample_handler (Some [sample_event 3, sample_event 4]) 1
     (sample_poller FMissing, sample_world [True, True] [Written, Written, WrittenUnsynced]))))"

lemma sample_log_eq:
  "sample_log = [Handled 3] @ Saved 3 (Some 3) # [AckSent 3 True, Saved 3 None, Handled 4] @ Landed 4 (Some 4) # []"
  by code_simp

lemma sample_run:
  assumes "w_log w = sample_log @ [Restarted]"
  shows "poller_run (\<lambda>_. []) sample_handler FMissing [Some [sample_event 3, sample_event 4]]
     (sample_poller (FDoc (cursor_document 4 (Some 4)))) w"
proof -
  let ?w0 = "sample_world [] []" and ?evs = "Some [sample_event 3, sample_event 4]"
  have s: "poller_run (\<lambda>_. []) sample_handler FMissing [] (sample_poller FMissing) ?w0"
    unfolding sample_poller_def by (rule poller_run.start) (simp add: sample_world_def)
  have w: "?w0\<lparr>w_acks := a, w_disk := b\<rparr> = sample_world a b" for a b by (simp add: sample_world_def)
  obtain d p w1 where x: "poll_once (\<lambda>_. []) sample_handler ?evs 1 (sample_poller FMissing,
      ?w0\<lparr>w_acks := [True, True], w_disk := [Written, Written, WrittenUnsynced]\<rparr>) = (d, p, w1)"
    by (metis prod.collapse)
  have l: "w_log w1 = w_log ?w0 @ sample_log @ []"
    using x unfolding w by (simp add: sample_log_def sample_world_def)
  have "log_end (pos (sample_poller FMissing) None) sample_log =
      ((3, None), read_cursor (FDoc (cursor_document 4 (Some 4))), Some 4)"
    by (simp add: sample_log_eq pos_def sample_poller_def read_cursor_document is_safe_id_def MAX_SAFE_EVENT_ID_def)
  from poller_run.crash[OF s x l this, of w 2 25 50] assms show ?thesis
    by (simp add: sample_poller_def sample_world_def)
qed

definition sample_restarted :: "unit world" where
  "sample_restarted = \<lparr>w_acks = [True, True], w_disk = [Written, Written, Written], w_handler = (),
     w_log = sample_log @ [Restarted]\<rparr>"

lemma sample_restart_log:
  "w_log (snd (snd (poll_once (\<lambda>_. []) sample_handler (Some [sample_event 4, sample_event 5]) 1
     (sample_poller (FDoc (cursor_document 4 (Some 4))), sample_restarted)))) =
   [Handled 3, Saved 3 (Some 3), AckSent 3 True, Saved 3 None, Handled 4] @ Landed 4 (Some 4) # [] @ Restarted #
   [AckSent 4 True, Saved 4 None, Handled 5, Saved 5 (Some 5), AckSent 5 True, Saved 5 None]"
  by code_simp

lemma sample_runs:
  "\<exists>p w. poller_run (\<lambda>_. []) sample_handler FMissing
      [Some [sample_event 4, sample_event 5], Some [sample_event 3, sample_event 4]] p w \<and>
     w_log w = [Handled 3, Saved 3 (Some 3), AckSent 3 True, Saved 3 None, Handled 4] @ Landed 4 (Some 4) # [] @ Restarted #
       [AckSent 4 True, Saved 4 None, Handled 5, Saved 5 (Some 5), AckSent 5 True, Saved 5 None]"
proof -
  have r: "poller_run (\<lambda>_. []) sample_handler FMissing [Some [sample_event 3, sample_event 4]]
     (sample_poller (FDoc (cursor_document 4 (Some 4)))) sample_restarted"
    by (rule sample_run) (simp add: sample_restarted_def)
  have w: "sample_restarted\<lparr>w_acks := [True, True], w_disk := [Written, Written, Written]\<rparr> = sample_restarted"
    by (simp add: sample_restarted_def sample_world_def)
  obtain d p w where x: "poll_once (\<lambda>_. []) sample_handler (Some [sample_event 4, sample_event 5]) 1
      (sample_poller (FDoc (cursor_document 4 (Some 4))),
       sample_restarted\<lparr>w_acks := [True, True], w_disk := [Written, Written, Written]\<rparr>) = (d, p, w)"
    by (metis prod.collapse)
  show ?thesis
    by (intro exI conjI, rule poller_run.poll[OF r x]) (use sample_restart_log x in \<open>simp add: w\<close>)
qed

lemma sample_unique:
  "\<forall>fetched\<in>set [Some [sample_event 4, sample_event 5], Some [sample_event 3, sample_event 4]]. unique_ids fetched"
  by (simp add: unique_ids_def event_ids_def sample_event_def MAX_SAFE_EVENT_ID_def)

theorem saved_events_never_replayed_witness:
  "\<exists>p w earlier between later. poller_run (\<lambda>_. []) sample_handler FMissing
      [Some [sample_event 4, sample_event 5], Some [sample_event 3, sample_event 4]] p w \<and>
     w_log w = earlier @ Landed 4 (Some 4) # between @ Restarted # later \<and>
     Handled 5 \<in> set later \<and> (\<forall>e'. Handled e' \<in> set later \<longrightarrow> 4 < e')"
proof -
  obtain p w where r: "poller_run (\<lambda>_. []) sample_handler FMissing
      [Some [sample_event 4, sample_event 5], Some [sample_event 3, sample_event 4]] p w"
    and l: "w_log w = [Handled 3, Saved 3 (Some 3), AckSent 3 True, Saved 3 None, Handled 4] @ Landed 4 (Some 4) # [] @ Restarted #
       [AckSent 4 True, Saved 4 None, Handled 5, Saved 5 (Some 5), AckSent 5 True, Saved 5 None]"
    using sample_runs by blast
  have "Handled 5 \<in> set [AckSent 4 True, Saved 4 None, Handled 5, Saved 5 (Some 5), AckSent 5 True, Saved 5 None]"
    by simp
  moreover note saved_events_never_replayed[OF r sample_unique, THEN conjunct2, THEN conjunct1, rule_format, OF l]
  ultimately show ?thesis using r l by blast
qed

theorem acknowledged_events_are_durable_witness:
  "\<exists>p w earlier later. poller_run (\<lambda>_. []) sample_handler FMissing
      [Some [sample_event 4, sample_event 5], Some [sample_event 3, sample_event 4]] p w \<and>
     w_log w = earlier @ AckSent 4 True # later \<and>
     Handled 4 \<in> set earlier \<and> (Saved 4 (Some 4) \<in> set earlier \<or> Landed 4 (Some 4) \<in> set earlier)"
proof -
  obtain p w where r: "poller_run (\<lambda>_. []) sample_handler FMissing
      [Some [sample_event 4, sample_event 5], Some [sample_event 3, sample_event 4]] p w"
    and l: "w_log w = [Handled 3, Saved 3 (Some 3), AckSent 3 True, Saved 3 None, Handled 4, Landed 4 (Some 4), Restarted] @
       AckSent 4 True # [Saved 4 None, Handled 5, Saved 5 (Some 5), AckSent 5 True, Saved 5 None]"
    using sample_runs by auto
  have "cursor_load_pending FMissing \<noteq> Some 4" by (simp add: cursor_load_pending_def read_cursor_def)
  then show ?thesis using acknowledged_events_are_durable[OF r l] r l by blast
qed

end
