(* ===== verification/RobotIds.thy ===== *)
theory RobotIds
  imports JsonText OctoTypes
begin

text \<open>
  Models the identity primitives of \<open>identity.py\<close>: the token list of \<open>OCTO_BOT_TOKEN\<close>, the
  stable robot ids, their directory names, the scoped direct-chat ids, and the two directions
  between Octo channel types and Hermes chat types. SHA-256 in hexadecimal is a parameter.
\<close>

section \<open>Tokens\<close>

datatype token_error = NotAString | EmptyEntry nat | Repeats nat nat

fun split_on :: "char \<Rightarrow> string \<Rightarrow> string list" where
  \<comment> \<open>\<open>s.split(sep)\<close>\<close>
  "split_on sep [] = [[]]"
| "split_on sep (c # cs) =
     (if c = sep then [] # split_on sep cs
      else (case split_on sep cs of [] \<Rightarrow> [[c]] | x # xs \<Rightarrow> (c # x) # xs))"

fun collect_tokens :: "nat \<Rightarrow> string list \<Rightarrow> (string, nat) dict \<Rightarrow> token_error + string list" where
  "collect_tokens index [] seen = Inr []"
| "collect_tokens index (x # xs) seen =
     (let token = strip x in
      if token = [] then Inl (EmptyEntry index)
      else (case dget seen token of
              Some first \<Rightarrow> Inl (Repeats index first)
            | None \<Rightarrow>
                map_sum id (Cons token) (collect_tokens (index + 1) xs (dset token index seen))))"

definition parse_bot_tokens :: "json \<Rightarrow> token_error + string list" where
  "parse_bot_tokens raw =
     (case raw of
        JNull \<Rightarrow> Inr []
      | JStr s \<Rightarrow> if strip s = [] then Inr [] else collect_tokens 1 (split_on CHR '';'' s) []
      | _ \<Rightarrow> Inl NotAString)"

section \<open>Ids\<close>

definition valid_robot :: "string \<Rightarrow> bool" where
  "valid_robot s \<longleftrightarrow> matches ''_.:@-'' 128 s"

definition valid_robot_id :: "json \<Rightarrow> bool" where
  "valid_robot_id v = (case v of JStr s \<Rightarrow> valid_robot s | _ \<Rightarrow> False)"

definition wire_chat_ok :: "string \<Rightarrow> bool" where
  "wire_chat_ok s \<longleftrightarrow> matches ''_@:-'' 128 s"

definition path_safe :: "string \<Rightarrow> bool" where
  "path_safe s \<longleftrightarrow> matches ''_-'' 64 s"

definition robot_path_segment :: "(string \<Rightarrow> string) \<Rightarrow> string \<Rightarrow> string option" where
  \<comment> \<open>\<open>None\<close> is the ValueError\<close>
  "robot_path_segment sha rid =
     (if \<not> valid_robot rid then None
      else if path_safe rid then Some rid
      else Some (''robot-'' @ sha rid))"

definition scoped_dm_chat_id :: "(string \<Rightarrow> string) \<Rightarrow> string \<Rightarrow> string \<Rightarrow> string option" where
  "scoped_dm_chat_id sha rid wire =
     (if \<not> valid_robot rid \<or> \<not> wire_chat_ok wire then None
      else Some (''octodm_'' @ take 16 (sha rid) @ ''_'' @ take 24 (sha wire)))"

section \<open>Chat and channel types\<close>

definition CHAT_TYPE_DM :: string where "CHAT_TYPE_DM = ''dm''"
definition CHAT_TYPE_GROUP :: string where "CHAT_TYPE_GROUP = ''group''"
definition CHAT_TYPES :: "string list" where "CHAT_TYPES = [CHAT_TYPE_DM, CHAT_TYPE_GROUP]"

definition chat_type_for_channel :: "int \<Rightarrow> string" where
  "chat_type_for_channel ct = (if ct = int_of_channel DM then CHAT_TYPE_DM else CHAT_TYPE_GROUP)"

definition valid_channel_type :: "json \<Rightarrow> bool" where
  "valid_channel_type v = (case v of JInt i \<Rightarrow> channel_of_int i \<noteq> None | _ \<Rightarrow> False)"

definition channel_type_for_planned_route :: "string \<Rightarrow> string \<Rightarrow> int" where
  "channel_type_for_planned_route chat_type chat_id =
     (if chat_type = CHAT_TYPE_DM then int_of_channel DM
      else if contains chat_id ''____'' then int_of_channel CommunityTopic
      else int_of_channel Group)"

section \<open>Token lists\<close>

lemma collect_tokens_ok:
  assumes "collect_tokens i xs seen = Inr ts"
  shows "ts = map strip xs \<and> [] \<notin> set ts \<and> distinct ts \<and> set ts \<inter> set (dkeys seen) = {}"
  using assms
proof (induction i xs seen arbitrary: ts rule: collect_tokens.induct)
  case (2 index x xs seen)
  let ?t = "strip x"
  have ne: "?t \<noteq> []" "dget seen ?t = None"
    using "2.prems" by (auto simp: Let_def split: if_splits option.splits)
  then obtain us where us: "collect_tokens (index + 1) xs (dset ?t index seen) = Inr us" "ts = ?t # us"
    using "2.prems" by (cases "collect_tokens (index + 1) xs (dset ?t index seen)") (auto simp: Let_def)
  have
    "us = map strip xs \<and> [] \<notin> set us \<and> distinct us \<and> set us \<inter> set (dkeys (dset ?t index seen)) = {}"
    by (rule "2.IH" [OF refl ne us(1)])
  then have "us = map strip xs \<and> [] \<notin> set us \<and> distinct us \<and> set us \<inter> insert ?t (set (dkeys seen)) = {}"
    unfolding dset_keys .
  moreover have "?t \<notin> set (dkeys seen)" using ne(2) by (simp add: map_of_eq_None_iff)
  ultimately have "ts = map strip (x # xs)" "[] \<notin> set ts" "distinct ts"
    "set ts \<inter> set (dkeys seen) = {}"
    using us(2) ne(1) by (auto simp del: set_map)
  then show ?case by blast
qed simp

lemma collect_tokens_error:
  assumes "collect_tokens i xs seen = Inl e"
    and "\<forall>t k. dget seen t = Some k \<longrightarrow> k < i"
  shows "(\<exists>n < length xs. strip (xs ! n) = [] \<and> e = EmptyEntry (i + n)) \<or>
         (\<exists>n < length xs. \<exists>k < i + n. e = Repeats (i + n) k \<and>
            (dget seen (strip (xs ! n)) = Some k \<or>
             (\<exists>m < n. k = i + m \<and> strip (xs ! m) = strip (xs ! n))))"
  using assms
proof (induction i xs seen rule: collect_tokens.induct)
  case (2 index x xs seen)
  let ?t = "strip x"
  show ?case
  proof (cases "?t = []")
    case True
    then show ?thesis using "2.prems"(1) by (intro disjI1 exI [of _ 0]) simp
  next
    case ne: False
    show ?thesis
    proof (cases "dget seen ?t")
      case (Some k)
      then show ?thesis using "2.prems" ne by (intro disjI2 exI [of _ 0]) (simp add: Let_def)
    next
      case None
      have c: "collect_tokens (index + 1) xs (dset ?t index seen) = Inl e"
        using "2.prems"(1) ne None
        by (cases "collect_tokens (index + 1) xs (dset ?t index seen)") (auto simp: Let_def)
      have "\<forall>t k. dget (dset ?t index seen) t = Some k \<longrightarrow> k < index + 1"
        using "2.prems"(2) by (auto simp: less_SucI)
      from "2.IH" [OF refl ne None c this] show ?thesis
      proof (elim disjE exE conjE)
        fix n assume "n < length xs" "strip (xs ! n) = []" "e = EmptyEntry (index + 1 + n)"
        then show ?thesis by (intro disjI1 exI [of _ "Suc n"]) simp
      next
        fix n k assume n: "n < length xs" "k < index + 1 + n" "e = Repeats (index + 1 + n) k"
          and d: "dget (dset ?t index seen) (strip (xs ! n)) = Some k"
        show ?thesis
        proof (cases "strip (xs ! n) = ?t")
          case True
          then have "k = index" using d by simp
          then show ?thesis using n True
            by (intro disjI2 exI [of _ "Suc n"]) (auto intro!: exI [of _ 0])
        next
          case False
          then show ?thesis using n d by (intro disjI2 exI [of _ "Suc n"]) simp
        qed
      next
        fix n k m assume "n < length xs" "k < index + 1 + n" "e = Repeats (index + 1 + n) k" "m < n"
          "k = index + 1 + m" "strip (xs ! m) = strip (xs ! n)"
        then show ?thesis
          by (intro disjI2 exI [of _ "Suc n"]) (auto intro!: exI [of _ "Suc m"])
      qed
    qed
  qed
qed simp

text \<open>
  A token list that is accepted is the list of the trimmed entries in order, none empty and
  no two equal, so no identity is ever started twice from one list; a list that is refused
  names the position of an entry that is really empty, or of one that really repeats the
  earlier entry it names.
\<close>

theorem parse_bot_tokens_sound:
  assumes "strip s \<noteq> []"
  shows "case parse_bot_tokens (JStr s) of
      Inr ts \<Rightarrow> ts = map strip (split_on CHR '';'' s) \<and> distinct ts \<and> [] \<notin> set ts
    | Inl (EmptyEntry n) \<Rightarrow> 0 < n \<and> n \<le> length (split_on CHR '';'' s) \<and>
        strip (split_on CHR '';'' s ! (n - 1)) = []
    | Inl (Repeats n k) \<Rightarrow> 0 < k \<and> k < n \<and> n \<le> length (split_on CHR '';'' s) \<and>
        strip (split_on CHR '';'' s ! (k - 1)) = strip (split_on CHR '';'' s ! (n - 1))
    | Inl NotAString \<Rightarrow> False"
proof (cases "collect_tokens 1 (split_on CHR '';'' s) []")
  case (Inl e)
  from collect_tokens_error [OF Inl] show ?thesis
    using assms Inl by (auto simp: parse_bot_tokens_def)
next
  case (Inr ts)
  from collect_tokens_ok [OF Inr] show ?thesis
    using assms Inr by (auto simp: parse_bot_tokens_def)
qed

theorem parse_bot_tokens_sound_witness:
  "parse_bot_tokens (JStr ''a; b'') = Inr [''a'', ''b''] \<and> distinct [''a'', ''b'']"
proof -
  have p: "parse_bot_tokens (JStr ''a; b'') = Inr [''a'', ''b'']" by code_simp
  have "strip ''a; b'' \<noteq> []" by code_simp
  from parse_bot_tokens_sound [OF this] p show ?thesis by simp
qed

text \<open>
  Two identities share a state directory only if SHA-256 collides on them: a directory name
  determines the robot id, although an id may itself look like the digest form. And a
  directory name is a single safe path segment: letters, digits, underscore and hyphen.
\<close>

theorem robot_path_segment_injective:
  assumes sha: "\<And>s. length (sha s) = 64 \<and> list_all is_alnum (sha s)"
    and "robot_path_segment sha a = Some seg" and "robot_path_segment sha b = Some seg"
  shows "(a = b \<or> sha a = sha b) \<and> seg \<noteq> [] \<and> list_all (\<lambda>c. is_alnum c \<or> c \<in> set ''_-'') seg"
proof
  have "\<not> path_safe (''robot-'' @ sha s)" for s using sha [of s] by (simp add: path_safe_def matches_def)
  then show "a = b \<or> sha a = sha b"
    using assms(2,3) by (auto simp: robot_path_segment_def split: if_splits)
  have "is_alnum CHR ''r''" "is_alnum CHR ''o''" "is_alnum CHR ''b''" "is_alnum CHR ''t''"
    by (simp_all add: is_alnum_def)
  moreover have "list_all (\<lambda>c. is_alnum c \<or> c \<in> set ''_-'') (sha a)"
    using sha [of a] by (auto simp: list_all_iff)
  ultimately show "seg \<noteq> [] \<and> list_all (\<lambda>c. is_alnum c \<or> c \<in> set ''_-'') seg"
    using assms(2) by (auto simp: robot_path_segment_def path_safe_def matches_def split: if_splits)
qed

theorem robot_path_segment_injective_witness:
  "robot_path_segment (\<lambda>_. replicate 64 CHR ''a'') ''bot_1'' = Some ''bot_1'' \<and>
   list_all (\<lambda>c. is_alnum c \<or> c \<in> set ''_-'') ''bot_1''"
proof -
  let ?sha = "\<lambda>_ :: string. replicate 64 CHR ''a''"
  have s: "length (?sha s) = 64 \<and> list_all is_alnum (?sha s)" for s
    by (simp add: list_all_iff is_alnum_def)
  have r: "robot_path_segment ?sha ''bot_1'' = Some ''bot_1''"
    by (simp add: robot_path_segment_def valid_robot_def path_safe_def matches_def is_alnum_def)
  from robot_path_segment_injective [of ?sha, OF s r r] r show ?thesis by blast
qed

end
