(* ===== verification/Routes.thy ===== *)
theory Routes
  imports RobotIds
begin

text \<open>
  Models \<open>IdentityRouteRegistry\<close> of \<open>identity.py\<close>: which Octo identity owns a Hermes session
  and which owns a transport target. Every method is a function from the registry to its
  result and the registry after it, with the dictionaries of the class as its fields; the two
  files of the snapshot are part of the state. The two locks serialise the methods, so a
  method is one step. Exceptions are an \<open>Inl\<close>; where a snapshot write may raise, or the
  process may die, is the argument \<open>snap_fault\<close>.
\<close>

section \<open>State\<close>

type_synonym target_key = "string \<times> string"   \<comment> \<open>chat type, chat id\<close>

record routes =
  session_routes :: "(string, string) dict"
  target_routes :: "(target_key, string) dict"
  session_conflicts :: "string list"
  target_conflicts :: "target_key list"
  chat_index :: "(string, (string \<times> string) list) dict"
  target_sessions :: "(target_key, string list) dict"
  target_channel_types :: "(target_key, int) dict"
  target_wire_ids :: "(target_key, string) dict"
  dirty :: bool
  restored_from_backup :: bool
  snapshot_corrupt :: bool
  path_file :: sfile
  backup_file :: sfile

definition MAX_PERSISTED_ROUTES :: nat where "MAX_PERSISTED_ROUTES = 4096"

definition new_routes :: "sfile \<Rightarrow> sfile \<Rightarrow> routes" where
  "new_routes f b =
     \<lparr>session_routes = [], target_routes = [], session_conflicts = [], target_conflicts = [],
      chat_index = [], target_sessions = [], target_channel_types = [], target_wire_ids = [],
      dirty = False, restored_from_backup = False, snapshot_corrupt = False,
      path_file = f, backup_file = b\<rparr>"

definition file_exists :: "sfile \<Rightarrow> bool" where
  "file_exists f \<longleftrightarrow> f \<noteq> FMissing"

definition has_state :: "routes \<Rightarrow> bool" where
  "has_state r \<longleftrightarrow> file_exists (path_file r) \<or> file_exists (backup_file r)"

definition route_count :: "routes \<Rightarrow> nat" where "route_count r = length (target_routes r)"
definition session_count :: "routes \<Rightarrow> nat" where "session_count r = length (session_routes r)"

definition remaining_capacity :: "routes \<Rightarrow> nat" where
  "remaining_capacity r = MAX_PERSISTED_ROUTES - length (target_routes r)"

definition capacity_exhausted :: "routes \<Rightarrow> bool" where
  "capacity_exhausted r \<longleftrightarrow> length (target_routes r) \<ge> MAX_PERSISTED_ROUTES"

definition dget_list :: "('k, 'v list) dict \<Rightarrow> 'k \<Rightarrow> 'v list" where
  \<comment> \<open>\<open>d.get(k, ())\<close>\<close>
  "dget_list d k = (case dget d k of None \<Rightarrow> [] | Some s \<Rightarrow> s)"

definition dadd :: "'k \<Rightarrow> 'v \<Rightarrow> ('k, 'v list) dict \<Rightarrow> ('k, 'v list) dict" where
  \<comment> \<open>\<open>d.setdefault(k, set()).add(v)\<close>\<close>
  "dadd k v d = dset k (sadd v (dget_list d k)) d"

section \<open>Lookups\<close>

record target_lookup =
  tl_chat_type :: string
  tl_channel_type :: int
  tl_robot_id :: string
  tl_wire_chat_id :: string

definition robot_id_for_session :: "routes \<Rightarrow> string \<Rightarrow> string option" where
  "robot_id_for_session r key =
     (if key = [] then None
      else if key \<in> set (session_conflicts r) then None
      else dget (session_routes r) key)"

definition robot_id_for_target :: "routes \<Rightarrow> target_key \<Rightarrow> string option" where
  "robot_id_for_target r tk =
     (if tk \<in> set (target_conflicts r) then None else dget (target_routes r) tk)"

definition lookup_chat_id :: "routes \<Rightarrow> string \<Rightarrow> target_lookup option" where
  "lookup_chat_id r chat_id =
     (case dget_list (chat_index r) chat_id of
        [(chat_type, robot_id)] \<Rightarrow>
          (let tk = (chat_type, chat_id) in
           if tk \<in> set (target_conflicts r) then None
           else (case (dget (target_channel_types r) tk, dget (target_wire_ids r) tk) of
                   (Some ct, Some w) \<Rightarrow>
                     Some \<lparr>tl_chat_type = chat_type, tl_channel_type = ct,
                           tl_robot_id = robot_id, tl_wire_chat_id = w\<rparr>
                 | _ \<Rightarrow> None))
      | _ \<Rightarrow> None)"

definition session_conflict :: "routes \<Rightarrow> string \<Rightarrow> bool" where
  "session_conflict r key \<longleftrightarrow> key \<in> set (session_conflicts r)"

definition target_conflict :: "routes \<Rightarrow> target_key \<Rightarrow> bool" where
  "target_conflict r tk \<longleftrightarrow> tk \<in> set (target_conflicts r)"

definition chat_id_has_state :: "routes \<Rightarrow> string \<Rightarrow> bool" where
  "chat_id_has_state r chat_id \<longleftrightarrow>
     dget_list (chat_index r) chat_id \<noteq> [] \<or> chat_id \<in> snd ` set (target_conflicts r)"

definition robot_ids :: "routes \<Rightarrow> string set" where
  "robot_ids r = snd ` set (target_routes r) \<union> snd ` set (session_routes r)"

section \<open>Binding\<close>

datatype bind_result = Bound | Capacity | Idempotent | Conflict

datatype route_error = InvalidRobot | InvalidChatType | InvalidChatId | InvalidChannelType
  | InvalidWireId | NotPersisted

record bind_request =
  q_robot_id :: string
  q_session_key :: "string option"
  q_chat_type :: string
  q_chat_id :: string
  q_channel_type :: int
  q_wire_chat_id :: "string option"
  q_wire_known :: bool

definition q_target :: "bind_request \<Rightarrow> target_key" where
  "q_target q = (q_chat_type q, q_chat_id q)"

definition q_session :: "bind_request \<Rightarrow> string option" where
  \<comment> \<open>an empty session key counts as none\<close>
  "q_session q = (case q_session_key q of None \<Rightarrow> None | Some k \<Rightarrow> if k = [] then None else Some k)"

definition q_wire :: "bind_request \<Rightarrow> string option" where
  "q_wire q =
     (if q_wire_known q
      then Some (case q_wire_chat_id q of None \<Rightarrow> q_chat_id q | Some w \<Rightarrow> w) else None)"

definition check_request :: "bind_request \<Rightarrow> route_error option" where
  "check_request q =
     (if \<not> valid_robot (q_robot_id q) then Some InvalidRobot
      else if q_chat_type q \<notin> set CHAT_TYPES then Some InvalidChatType
      else if q_chat_id q = [] then Some InvalidChatId
      else if channel_of_int (q_channel_type q) = None then Some InvalidChannelType
      else (case q_wire q of
              None \<Rightarrow> None
            | Some w \<Rightarrow> if wire_chat_ok w then None else Some InvalidWireId))"

definition conflict_target :: "target_key \<Rightarrow> routes \<Rightarrow> routes" where
  \<comment> \<open>the target and every session linked to it fail closed from now on\<close>
  "conflict_target tk r =
     r\<lparr>target_conflicts := sadd tk (target_conflicts r),
       session_conflicts := sunion (session_conflicts r) (dget_list (target_sessions r) tk)\<rparr>"

definition evict_oldest_session :: "routes \<Rightarrow> routes" where
  "evict_oldest_session r =
     (case session_routes r of
        [] \<Rightarrow> r
      | (victim, _) # _ \<Rightarrow>
          r\<lparr>session_routes := dpop victim (session_routes r),
            target_sessions := map (\<lambda>(k, s). (k, sdiscard victim s)) (target_sessions r)\<rparr>)"

function evict_sessions :: "nat \<Rightarrow> routes \<Rightarrow> routes" where
  \<comment> \<open>\<open>while len(self._session_routes) >= MAX\<close>\<close>
  "evict_sessions cap r =
     (if length (session_routes r) < cap \<or> session_routes r = [] then r
      else evict_sessions cap (evict_oldest_session r))"
  by pat_completeness auto
termination
proof (relation "measure (length \<circ> session_routes \<circ> snd)")
  fix cap and r :: routes
  assume "\<not> (length (session_routes r) < cap \<or> session_routes r = [])"
  then obtain k v d where "session_routes r = (k, v) # d" by (cases "session_routes r") auto
  then have "length (session_routes (evict_oldest_session r)) < length (session_routes r)"
    by (auto simp: evict_oldest_session_def AList.delete_eq less_Suc_eq_le)
  then show "((cap, evict_oldest_session r), cap, r) \<in> measure (length \<circ> session_routes \<circ> snd)"
    by simp
qed simp

declare evict_sessions.simps [simp del]

definition add_target :: "bind_request \<Rightarrow> routes \<Rightarrow> routes" where
  \<comment> \<open>\<open>if existing_target is None\<close>\<close>
  "add_target q r =
     (if dget (target_routes r) (q_target q) = None
      then r\<lparr>target_routes := dset (q_target q) (q_robot_id q) (target_routes r),
             chat_index := dadd (q_chat_id q) (q_chat_type q, q_robot_id q) (chat_index r)\<rparr>
      else r)"

definition note_wire :: "bind_request \<Rightarrow> routes \<Rightarrow> routes" where
  "note_wire q r =
     (let r1 = r\<lparr>target_channel_types := dset (q_target q) (q_channel_type q) (target_channel_types r)\<rparr>
      in case q_wire q of
           None \<Rightarrow> r1
         | Some w \<Rightarrow> r1\<lparr>target_wire_ids := dset (q_target q) w (target_wire_ids r1)\<rparr>)"

definition link_session :: "bind_request \<Rightarrow> routes \<Rightarrow> routes" where
  "link_session q r =
     (case q_session q of
        None \<Rightarrow> r
      | Some k \<Rightarrow>
          (let r1 = evict_sessions MAX_PERSISTED_ROUTES r
           in r1\<lparr>session_routes := dset k (q_robot_id q) (session_routes r1),
                 target_sessions := dadd (q_target q) k (target_sessions r1)\<rparr>))"

definition wire_conflict :: "bind_request \<Rightarrow> routes \<Rightarrow> bool" where
  \<comment> \<open>the target exists and both wire ids are known and differ\<close>
  "wire_conflict q r \<longleftrightarrow>
     dget (target_routes r) (q_target q) \<noteq> None \<and>
     (case (q_wire q, dget (target_wire_ids r) (q_target q)) of
        (Some w, Some w') \<Rightarrow> w' \<noteq> w
      | _ \<Rightarrow> False)"

definition owned_by_other :: "('k, string) dict \<Rightarrow> 'k \<Rightarrow> string \<Rightarrow> bool" where
  "owned_by_other d k rid \<longleftrightarrow> (case dget d k of None \<Rightarrow> False | Some o' \<Rightarrow> o' \<noteq> rid)"

definition bind_locked :: "bind_request \<Rightarrow> routes \<Rightarrow> bind_result \<times> routes" where
  "bind_locked q r =
     (let tk = q_target q; sk = q_session q; rid = q_robot_id q in
      if (case sk of None \<Rightarrow> False | Some k \<Rightarrow> k \<in> set (session_conflicts r)) then (Conflict, r)
      else if tk \<in> set (target_conflicts r) then (Conflict, r)
      else if (case sk of None \<Rightarrow> False | Some k \<Rightarrow> owned_by_other (session_routes r) k rid)
      then
        (let r1 = r\<lparr>session_conflicts := sadd (the sk) (session_conflicts r)\<rparr>;
             r2 = (if owned_by_other (target_routes r) tk rid then conflict_target tk r1 else r1)
         in (Conflict, r2\<lparr>dirty := True\<rparr>))
      else if owned_by_other (target_routes r) tk rid
      then (Conflict, (conflict_target tk r)\<lparr>dirty := True\<rparr>)
      else if wire_conflict q r
      then (Conflict, (conflict_target tk r)\<lparr>dirty := True\<rparr>)
      else if dget (target_routes r) tk \<noteq> None \<and>
              (case sk of None \<Rightarrow> True | Some k \<Rightarrow> dget (session_routes r) k \<noteq> None)
      then
        (if q_wire q \<noteq> None \<and> dget (target_wire_ids r) tk = None
         then (Bound, (note_wire q r)\<lparr>dirty := True\<rparr>)
         else (Idempotent, r))
      else if dget (target_routes r) tk = None \<and> length (target_routes r) \<ge> MAX_PERSISTED_ROUTES
      then (Capacity, r)
      else (Bound, (link_session q (note_wire q (add_target q r)))\<lparr>dirty := True\<rparr>))"

definition bind_route :: "bind_request \<Rightarrow> routes \<Rightarrow> (route_error + bind_result) \<times> routes" where
  "bind_route q r =
     (case check_request q of
        Some e \<Rightarrow> (Inl e, r)
      | None \<Rightarrow> (case bind_locked q r of (b, r') \<Rightarrow> (Inr b, r')))"

section \<open>The snapshot body\<close>

definition session_targets :: "routes \<Rightarrow> (string, target_key) dict" where
  \<comment> \<open>the dictionary comprehension: the last target that lists a session wins\<close>
  "session_targets r =
     fold (\<lambda>(tk, ks) d. fold (\<lambda>k d. dset k tk d) ks d) (target_sessions r) []"

definition opt_json :: "('a \<Rightarrow> json) \<Rightarrow> 'a option \<Rightarrow> json" where
  "opt_json f v = (case v of None \<Rightarrow> JNull | Some x \<Rightarrow> f x)"

definition session_record :: "routes \<Rightarrow> string \<times> string \<Rightarrow> json" where
  "session_record r kr =
     JObj ([(''session_key'', JStr (fst kr)), (''robot_id'', JStr (snd kr))] @
           (case dget (session_targets r) (fst kr) of
              None \<Rightarrow> []
            | Some tk \<Rightarrow> [(''chat_type'', JStr (fst tk)), (''chat_id'', JStr (snd tk))]))"

definition target_record :: "routes \<Rightarrow> target_key \<times> string \<Rightarrow> json" where
  "target_record r tr =
     (let tk = fst tr in
      JObj [(''chat_type'', JStr (fst tk)), (''chat_id'', JStr (snd tk)),
            (''robot_id'', JStr (snd tr)),
            (''channel_type'', opt_json JInt (dget (target_channel_types r) tk)),
            (''wire_chat_id'', opt_json JStr (dget (target_wire_ids r) tk)),
            (''wire_chat_id_known'', JBool (dget (target_wire_ids r) tk \<noteq> None))])"

definition routes_body :: "routes \<Rightarrow> json" where
  "routes_body r =
     JObj [(''sessions'', JArr (map (session_record r) (session_routes r))),
           (''targets'', JArr (map (target_record r) (target_routes r))),
           (''session_conflicts'', JArr (map JStr (sort (session_conflicts r)))),
           (''target_conflicts'',
              JArr (map (\<lambda>tk. JArr [JStr (fst tk), JStr (snd tk)])
                (sort_key (\<lambda>tk. [fst tk, snd tk]) (target_conflicts r))))]"

section \<open>Restoring a body\<close>

text \<open>
  Each step returns whether it finished: \<open>False\<close> is the TypeError of testing an unhashable
  value (a list or an object) against the set of chat types, or of iterating over a number.
\<close>

definition in_chat_types :: "json \<Rightarrow> bool option" where
  \<comment> \<open>\<open>v in _CHAT_TYPES\<close>\<close>
  "in_chat_types v =
     (case v of JStr s \<Rightarrow> Some (s \<in> set CHAT_TYPES) | JArr _ \<Rightarrow> None | JObj _ \<Rightarrow> None | _ \<Rightarrow> Some False)"

fun text_of :: "json \<Rightarrow> string" where
  "text_of (JStr s) = s"
| "text_of _ = []"

definition nonempty_str :: "json \<Rightarrow> bool" where
  "nonempty_str v = (case v of JStr s \<Rightarrow> s \<noteq> [] | _ \<Rightarrow> False)"

definition apply_session :: "json \<Rightarrow> routes \<Rightarrow> bool \<times> routes" where
  "apply_session record r =
     (case record of
        JObj d \<Rightarrow>
          (let key = jget d ''session_key''; rid = jget d ''robot_id'' in
           if \<not> (nonempty_str key \<and> valid_robot_id rid) then (True, r)
           else
             (let r1 = r\<lparr>session_routes := dset (text_of key) (text_of rid) (session_routes r)\<rparr>;
                  ct = jget d ''chat_type''; cid = jget d ''chat_id''
              in case in_chat_types ct of
                   None \<Rightarrow> (False, r1)
                 | Some b \<Rightarrow>
                     (True, if b \<and> nonempty_str cid
                            then r1\<lparr>target_sessions :=
                                   dadd (text_of ct, text_of cid) (text_of key) (target_sessions r1)\<rparr>
                            else r1)))
      | _ \<Rightarrow> (True, r))"

definition wire_record_ok :: "json \<Rightarrow> bool" where
  "wire_record_ok v = (case v of JNull \<Rightarrow> True | JStr s \<Rightarrow> wire_chat_ok s | _ \<Rightarrow> False)"

definition wire_known :: "json \<Rightarrow> json \<Rightarrow> json \<Rightarrow> json \<Rightarrow> json" where
  \<comment> \<open>an absent flag: known unless a direct chat repeats its chat id\<close>
  "wire_known flag ct wire cid =
     (if flag = JNull then JBool (\<not> (ct = JStr CHAT_TYPE_DM \<and> wire = cid)) else flag)"

definition apply_target :: "json \<Rightarrow> routes \<Rightarrow> bool \<times> routes" where
  "apply_target record r =
     (case record of
        JObj d \<Rightarrow>
          (let ct = jget d ''chat_type''; cid = jget d ''chat_id''; rid = jget d ''robot_id'';
               cty = jget d ''channel_type'';
               wire = (case map_of d ''wire_chat_id'' of None \<Rightarrow> cid | Some w \<Rightarrow> w);
               known = wire_known (jget d ''wire_chat_id_known'') ct wire cid
           in case in_chat_types ct of
                None \<Rightarrow> (False, r)
              | Some b \<Rightarrow>
                  (case known of
                     JBool k \<Rightarrow>
                       if b \<and> nonempty_str cid \<and> valid_robot_id rid \<and> valid_channel_type cty \<and>
                          wire_record_ok wire
                       then
                         (let tk = (text_of ct, text_of cid) in
                          (True,
                           r\<lparr>target_routes := dset tk (text_of rid) (target_routes r),
                             target_channel_types :=
                               dset tk (case cty of JInt i \<Rightarrow> i | _ \<Rightarrow> 0) (target_channel_types r),
                             target_wire_ids :=
                               (if k \<and> wire \<noteq> JNull then dset tk (text_of wire) (target_wire_ids r)
                                else target_wire_ids r),
                             chat_index := dadd (text_of cid) (text_of ct, text_of rid) (chat_index r)\<rparr>))
                       else (True, r)
                   | _ \<Rightarrow> (True, r)))
      | _ \<Rightarrow> (True, r))"

definition apply_session_conflict :: "json \<Rightarrow> routes \<Rightarrow> bool \<times> routes" where
  "apply_session_conflict v r =
     (True, if nonempty_str v then r\<lparr>session_conflicts := sadd (text_of v) (session_conflicts r)\<rparr> else r)"

definition apply_target_conflict :: "json \<Rightarrow> routes \<Rightarrow> bool \<times> routes" where
  "apply_target_conflict v r =
     (case v of
        JArr [a, b] \<Rightarrow>
          (case in_chat_types a of
             None \<Rightarrow> (False, r)
           | Some ok \<Rightarrow>
               (True, if ok \<and> nonempty_str b
                      then r\<lparr>target_conflicts := sadd (text_of a, text_of b) (target_conflicts r)\<rparr>
                      else r))
      | _ \<Rightarrow> (True, r))"

fun apply_each :: "(json \<Rightarrow> routes \<Rightarrow> bool \<times> routes) \<Rightarrow> json list \<Rightarrow> routes \<Rightarrow> bool \<times> routes" where
  "apply_each f [] r = (True, r)"
| "apply_each f (x # xs) r =
     (case f x r of (False, r') \<Rightarrow> (False, r') | (True, r') \<Rightarrow> apply_each f xs r')"

definition apply_field ::
  "(json \<Rightarrow> routes \<Rightarrow> bool \<times> routes) \<Rightarrow> json \<Rightarrow> bool \<times> routes \<Rightarrow> bool \<times> routes" where
  \<comment> \<open>one \<open>for record in body.get(field) or ()\<close>, after the loops before it\<close>
  "apply_field f v br =
     (case br of
        (False, r) \<Rightarrow> (False, r)
      | (True, r) \<Rightarrow> (case jiter_or_empty v of None \<Rightarrow> (False, r) | Some xs \<Rightarrow> apply_each f xs r))"

definition clear_routes :: "routes \<Rightarrow> routes" where
  "clear_routes r =
     r\<lparr>session_routes := [], target_routes := [], session_conflicts := [], target_conflicts := [],
       chat_index := [], target_sessions := [], target_channel_types := [], target_wire_ids := []\<rparr>"

definition apply_body :: "json \<Rightarrow> routes \<Rightarrow> bool \<times> routes" where
  "apply_body body r =
     (case body of
        JObj d \<Rightarrow>
          (case apply_field apply_target_conflict (jget d ''target_conflicts'')
                (apply_field apply_session_conflict (jget d ''session_conflicts'')
                (apply_field apply_target (jget d ''targets'')
                (apply_field apply_session (jget d ''sessions'') (True, clear_routes r)))) of
             (True, r') \<Rightarrow> (True, r'\<lparr>dirty := False\<rparr>)
           | (False, r') \<Rightarrow> (False, r'))
      | _ \<Rightarrow> (True, r\<lparr>snapshot_corrupt := True\<rparr>))"

section \<open>Files\<close>

datatype snap_fault =
    SnapOk
  | MoveRaises        \<comment> \<open>making the directory or moving the current file raises OSError\<close>
  | WriteRaises       \<comment> \<open>\<open>write_state_document\<close> raises OSError\<close>
  | DiesFirst | DiesAfterMove | DiesAfterWrite

definition moves_backup :: "routes \<Rightarrow> bool" where
  "moves_backup r \<longleftrightarrow> file_exists (path_file r) \<and> \<not> restored_from_backup r \<and> \<not> snapshot_corrupt r"

definition move_to_backup :: "routes \<Rightarrow> routes" where
  "move_to_backup r =
     (if moves_backup r then r\<lparr>backup_file := path_file r, path_file := FMissing\<rparr> else r)"

definition write_snapshot :: "checksum_fn \<Rightarrow> snap_fault \<Rightarrow> json \<Rightarrow> routes \<Rightarrow> bool option \<times> routes" where
  \<comment> \<open>\<open>None\<close>: the process died, and only the files of the result are left\<close>
  "write_snapshot cs fault body r =
     (let moved = move_to_backup r;
          written = moved\<lparr>path_file := FDoc (state_document cs body)\<rparr> in
      case fault of
        SnapOk \<Rightarrow> (Some True, written\<lparr>restored_from_backup := False, snapshot_corrupt := False\<rparr>)
      | MoveRaises \<Rightarrow>
          if moves_backup r then (Some False, r)
          else (Some True, written\<lparr>restored_from_backup := False, snapshot_corrupt := False\<rparr>)
      | WriteRaises \<Rightarrow> (Some False, moved)
      | DiesFirst \<Rightarrow> (None, r)
      | DiesAfterMove \<Rightarrow> (None, moved)
      | DiesAfterWrite \<Rightarrow> (None, written))"

definition flush :: "checksum_fn \<Rightarrow> snap_fault \<Rightarrow> bool \<Rightarrow> routes \<Rightarrow> bool option \<times> routes" where
  "flush cs fault force r =
     (if \<not> dirty r \<and> \<not> force then (Some False, r)
      else
        (case write_snapshot cs fault (routes_body r) (r\<lparr>dirty := False\<rparr>) of
           (Some False, r1) \<Rightarrow> (Some False, r1\<lparr>dirty := True\<rparr>)
         | (res, r1) \<Rightarrow> (res, r1)))"

definition load_routes :: "checksum_fn \<Rightarrow> routes \<Rightarrow> bool \<times> routes" where
  \<comment> \<open>\<open>False\<close>: an exception left the method\<close>
  "load_routes cs r =
     (case read_state_document cs (path_file r) of
        Inl _ \<Rightarrow> (False, r)
      | Inr (READ_OK, body) \<Rightarrow> apply_body body r
      | Inr (status, _) \<Rightarrow>
          (case read_state_document cs (backup_file r) of
             Inl _ \<Rightarrow> (False, r)
           | Inr (READ_OK, body) \<Rightarrow> apply_body body (r\<lparr>restored_from_backup := True\<rparr>)
           | Inr (backup_status, _) \<Rightarrow>
               if status = READ_MISSING \<and> backup_status = READ_MISSING then (True, r)
               else (True, r\<lparr>snapshot_corrupt := True\<rparr>)))"

section \<open>Plans and deletion\<close>

record planned_route =
  pr_session_key :: string
  pr_chat_type :: string
  pr_chat_id :: string
  pr_channel_type :: int

definition plan_request :: "string \<Rightarrow> planned_route \<Rightarrow> bind_request" where
  "plan_request rid p =
     \<lparr>q_robot_id = rid, q_session_key = Some (pr_session_key p), q_chat_type = pr_chat_type p,
      q_chat_id = pr_chat_id p, q_channel_type = pr_channel_type p, q_wire_chat_id = None,
      q_wire_known = (pr_chat_type p \<noteq> CHAT_TYPE_DM)\<rparr>"

fun bind_all :: "string \<Rightarrow> planned_route list \<Rightarrow> routes \<Rightarrow> (route_error + bool) \<times> routes" where
  \<comment> \<open>the loop of \<open>bind_plan\<close>: \<open>Inr False\<close> at the first conflict or lack of room\<close>
  "bind_all rid [] r = (Inr True, r)"
| "bind_all rid (p # ps) r =
     (case bind_route (plan_request rid p) r of
        (Inl e, r1) \<Rightarrow> (Inl e, r1)
      | (Inr b, r1) \<Rightarrow> if b = Conflict \<or> b = Capacity then (Inr False, r1) else bind_all rid ps r1)"

definition bind_plan :: "string \<Rightarrow> planned_route list \<Rightarrow> routes \<Rightarrow> (route_error + bool) \<times> routes" where
  "bind_plan rid plan r =
     (case bind_all rid plan r of
        (Inr False, r1) \<Rightarrow> (Inr False, (snd (apply_body (routes_body r) r1))\<lparr>dirty := dirty r\<rparr>)
      | (res, r1) \<Rightarrow> (res, r1))"

definition unlink_sessions :: "string list \<Rightarrow> routes \<Rightarrow> routes" where
  \<comment> \<open>the sessions that no other target lists any more\<close>
  "unlink_sessions ks r =
     fold (\<lambda>k r. if list_ex (\<lambda>(_, s). k \<in> set s) (target_sessions r) then r
                  else r\<lparr>session_routes := dpop k (session_routes r)\<rparr>) ks r"

definition drop_holder :: "string \<Rightarrow> string \<times> string \<Rightarrow> (string, (string \<times> string) list) dict
    \<Rightarrow> (string, (string \<times> string) list) dict" where
  "drop_holder cid h d =
     (case dget d cid of
        None \<Rightarrow> d
      | Some hs \<Rightarrow> (let hs' = sdiscard h hs in if hs' = [] then dpop cid d else dset cid hs' d))"

definition remove_target :: "target_key \<Rightarrow> string \<Rightarrow> routes \<Rightarrow> routes" where
  "remove_target tk rid r =
     (let linked = dget_list (target_sessions r) tk in
      unlink_sessions linked
        (r\<lparr>target_routes := dpop tk (target_routes r),
           target_sessions := dpop tk (target_sessions r),
           target_channel_types := dpop tk (target_channel_types r),
           target_wire_ids := dpop tk (target_wire_ids r),
           chat_index := drop_holder (snd tk) (fst tk, rid) (chat_index r)\<rparr>))"

definition forget_target ::
  "checksum_fn \<Rightarrow> snap_fault \<Rightarrow> string \<Rightarrow> string \<Rightarrow> string \<Rightarrow> routes \<Rightarrow> (route_error + bool) option \<times> routes" where
  "forget_target cs fault rid chat_type chat_id r =
     (if \<not> valid_robot rid then (Some (Inl InvalidRobot), r)
      else if chat_type \<notin> set CHAT_TYPES then (Some (Inl InvalidChatType), r)
      else if chat_id = [] then (Some (Inl InvalidChatId), r)
      else
        (let tk = (chat_type, chat_id) in
         if tk \<in> set (target_conflicts r) then (Some (Inr False), r)
         else if dget (target_routes r) tk \<noteq> Some rid then (Some (Inr False), r)
         else if list_ex (\<lambda>k. k \<in> set (session_conflicts r)) (dget_list (target_sessions r) tk)
         then (Some (Inr False), r)
         else
           (let r1 = remove_target tk rid r in
            case write_snapshot cs fault (routes_body r1) r1 of
              (None, r2) \<Rightarrow> (None, r2)
            | (Some True, r2) \<Rightarrow> (Some (Inr True), r2\<lparr>dirty := False\<rparr>)
            | (Some False, r2) \<Rightarrow>
                (Some (Inl NotPersisted),
                 (snd (apply_body (routes_body r) r2))\<lparr>dirty := dirty r\<rparr>))))"

end
