(* ===== verification/RouteState.thy ===== *)
theory RouteState
  imports Routes
begin

text \<open>
  When a route registry is well formed: its dictionaries agree on who owns what, every name in
  them is valid, and both tables are within capacity. Binding keeps it well formed.
\<close>

declare split_paired_All [simp del] split_paired_Ex [simp del]

section \<open>Sets in dictionaries\<close>

lemma dget_list_Nil [simp]: "dget_list [] k = []"
  by (simp add: dget_list_def)

lemma dget_list_dadd [simp]:
  "dget_list (dadd k v d) k' = (if k' = k then sadd v (dget_list d k) else dget_list d k')"
  by (simp add: dget_list_def dadd_def)

lemma dget_list_dset [simp]:
  "dget_list (dset k v d) k' = (if k' = k then v else dget_list d k')"
  by (simp add: dget_list_def)

lemma dget_list_dpop [simp]: "dget_list (dpop k d) k' = (if k' = k then [] else dget_list d k')"
  by (simp add: dget_list_def)

lemma wf_dadd [simp, intro]: "wf_dict d \<Longrightarrow> wf_dict (dadd k v d)"
  by (simp add: dadd_def)

lemma dget_list_map:
  "dget_list (map (\<lambda>(k, s). (k, f s)) d) k' = (if dget d k' = None then [] else f (dget_list d k'))"
  by (induction d) (auto simp: dget_list_def)

lemma wf_map_values [simp]: "wf_dict (map (\<lambda>(k, s). (k, f s)) d) = wf_dict d"
proof -
  have "map fst (map (\<lambda>(k, s). (k, f s)) d) = map fst d" by (induction d) auto
  then show ?thesis by (simp only:)
qed

section \<open>Well-formed registries\<close>

definition dicts_ok :: "routes \<Rightarrow> bool" where
  "dicts_ok r \<longleftrightarrow>
     wf_dict (session_routes r) \<and> wf_dict (target_routes r) \<and> wf_dict (chat_index r) \<and>
     wf_dict (target_sessions r) \<and> wf_dict (target_channel_types r) \<and> wf_dict (target_wire_ids r) \<and>
     (\<forall>cid. distinct (dget_list (chat_index r) cid))"

definition target_name_ok :: "target_key \<Rightarrow> bool" where
  "target_name_ok tk \<longleftrightarrow> fst tk \<in> set CHAT_TYPES \<and> snd tk \<noteq> []"

definition names_ok :: "routes \<Rightarrow> bool" where
  "names_ok r \<longleftrightarrow>
     (\<forall>k rid. dget (session_routes r) k = Some rid \<longrightarrow> k \<noteq> [] \<and> valid_robot rid) \<and>
     (\<forall>tk rid. dget (target_routes r) tk = Some rid \<longrightarrow> target_name_ok tk \<and> valid_robot rid) \<and>
     (\<forall>tk ct. dget (target_channel_types r) tk = Some ct \<longrightarrow> channel_of_int ct \<noteq> None) \<and>
     (\<forall>tk w. dget (target_wire_ids r) tk = Some w \<longrightarrow> wire_chat_ok w) \<and>
     [] \<notin> set (session_conflicts r) \<and> (\<forall>tk \<in> set (target_conflicts r). target_name_ok tk)"

definition index_ok :: "routes \<Rightarrow> bool" where
  \<comment> \<open>the reverse index, and the other facts stored per target, follow the owners\<close>
  "index_ok r \<longleftrightarrow>
     (\<forall>cid ct rid. (ct, rid) \<in> set (dget_list (chat_index r) cid) \<longleftrightarrow>
        dget (target_routes r) (ct, cid) = Some rid) \<and>
     (\<forall>tk. dget (target_channel_types r) tk = None \<longleftrightarrow> dget (target_routes r) tk = None) \<and>
     (\<forall>tk. dget (target_routes r) tk = None \<longrightarrow> dget (target_wire_ids r) tk = None)"

definition links_ok :: "routes \<Rightarrow> bool" where
  \<comment> \<open>a session and a target it is linked to belong to the same identity\<close>
  "links_ok r \<longleftrightarrow>
     (\<forall>tk k. k \<in> set (dget_list (target_sessions r) tk) \<longrightarrow>
        (\<exists>rid. dget (session_routes r) k = Some rid \<and> dget (target_routes r) tk = Some rid))"

definition bounds_ok :: "routes \<Rightarrow> bool" where
  "bounds_ok r \<longleftrightarrow>
     length (target_routes r) \<le> MAX_PERSISTED_ROUTES \<and> length (session_routes r) \<le> MAX_PERSISTED_ROUTES"

definition routes_ok :: "routes \<Rightarrow> bool" where
  "routes_ok r \<longleftrightarrow> dicts_ok r \<and> names_ok r \<and> index_ok r \<and> links_ok r \<and> bounds_ok r"

lemma link_owner:
  assumes "routes_ok r" "k \<in> set (dget_list (target_sessions r) tk)"
  obtains rid where "dget (session_routes r) k = Some rid" "dget (target_routes r) tk = Some rid"
proof -
  have "\<exists>rid. dget (session_routes r) k = Some rid \<and> dget (target_routes r) tk = Some rid"
    using assms unfolding routes_ok_def links_ok_def by simp
  then show ?thesis using that by blast
qed

lemmas routes_ok_parts = dicts_ok_def names_ok_def index_ok_def links_ok_def bounds_ok_def

lemma new_routes_ok [simp]: "routes_ok (new_routes f b)"
  by (simp add: routes_ok_def routes_ok_parts new_routes_def)

lemma routes_ok_dirty [simp]: "routes_ok (r\<lparr>dirty := b\<rparr>) = routes_ok r"
  by (simp add: routes_ok_def routes_ok_parts)

section \<open>Binding keeps the registry well formed\<close>

lemma conflict_target_ok:
  assumes "routes_ok r" "target_name_ok tk"
  shows "routes_ok (conflict_target tk r)"
proof -
  have "k \<noteq> []" if m: "k \<in> set (dget_list (target_sessions r) tk)" for k
  proof -
    obtain rid where "dget (session_routes r) k = Some rid"
      by (rule link_owner [OF assms(1) m])
    then show ?thesis using assms(1) by (simp add: routes_ok_def names_ok_def)
  qed
  then have "[] \<notin> set (dget_list (target_sessions r) tk)" by blast
  then show ?thesis
    using assms
    by (simp add: routes_ok_def dicts_ok_def names_ok_def index_ok_def links_ok_def bounds_ok_def
        conflict_target_def)
qed

lemma add_session_conflict_ok:
  "routes_ok r \<Longrightarrow> k \<noteq> [] \<Longrightarrow> routes_ok (r\<lparr>session_conflicts := sadd k (session_conflicts r)\<rparr>)"
  by (auto simp: routes_ok_def routes_ok_parts)

lemma add_target_ok:
  assumes "routes_ok r" "valid_robot (q_robot_id q)" "target_name_ok (q_target q)"
    and "dget (target_routes r) (q_target q) = None \<Longrightarrow> length (target_routes r) < MAX_PERSISTED_ROUTES"
  shows "dicts_ok (add_target q r)" "names_ok (add_target q r)" "links_ok (add_target q r)"
    "bounds_ok (add_target q r)"
    "(ct, rid) \<in> set (dget_list (chat_index (add_target q r)) cid) \<longleftrightarrow>
       dget (target_routes (add_target q r)) (ct, cid) = Some rid"
    "dget (target_routes (add_target q r)) tk = None \<Longrightarrow> dget (target_routes r) tk = None"
    "dget (target_routes (add_target q r)) (q_target q) \<noteq> None"
proof -
  show "dicts_ok (add_target q r)"
    using assms(1) by (auto simp: add_target_def routes_ok_def dicts_ok_def)
  show "names_ok (add_target q r)"
    using assms by (auto simp: add_target_def routes_ok_def names_ok_def)
  show "links_ok (add_target q r)"
    using assms(1) unfolding routes_ok_def links_ok_def add_target_def by (auto, metis option.distinct(1))
  show "bounds_ok (add_target q r)"
    using assms(1,4) by (auto simp: add_target_def routes_ok_def bounds_ok_def length_dset)
  show "(ct, rid) \<in> set (dget_list (chat_index (add_target q r)) cid) \<longleftrightarrow>
      dget (target_routes (add_target q r)) (ct, cid) = Some rid"
    using assms(1) by (auto simp: add_target_def routes_ok_def index_ok_def q_target_def)
qed (auto simp: add_target_def split: if_splits)

lemma note_wire_ok:
  assumes "routes_ok r" "channel_of_int (q_channel_type q) \<noteq> None"
    and "\<And>w. q_wire q = Some w \<Longrightarrow> wire_chat_ok w"
    and "valid_robot (q_robot_id q)" "target_name_ok (q_target q)"
    and "dget (target_routes r) (q_target q) = None \<Longrightarrow> length (target_routes r) < MAX_PERSISTED_ROUTES"
  shows "routes_ok (note_wire q (add_target q r))"
proof -
  note a = add_target_ok [OF assms(1,4,5,6)]
  let ?r = "add_target q r"
  have c: "dget (target_channel_types ?r) tk = dget (target_channel_types r) tk"
    "dget (target_wire_ids ?r) tk = dget (target_wire_ids r) tk" for tk
    by (simp_all add: add_target_def)
  have "dicts_ok (note_wire q ?r)"
    using a(1) by (auto simp: note_wire_def dicts_ok_def Let_def split: option.splits)
  moreover have "names_ok (note_wire q ?r)"
    using a(2) assms(2,3) by (auto simp: note_wire_def names_ok_def Let_def split: option.splits)
  moreover have "links_ok (note_wire q ?r)" "bounds_ok (note_wire q ?r)"
    using a(3,4) by (auto simp: note_wire_def links_ok_def bounds_ok_def Let_def split: option.splits)
  moreover have "index_ok (note_wire q ?r)"
  proof -
    have i: "dget (target_channel_types r) tk = None \<longleftrightarrow> dget (target_routes r) tk = None"
      "dget (target_routes r) tk = None \<Longrightarrow> dget (target_wire_ids r) tk = None" for tk
      using assms(1) by (auto simp: routes_ok_def index_ok_def)
    have o: "dget (target_routes ?r) tk = None \<longleftrightarrow> tk \<noteq> q_target q \<and> dget (target_routes r) tk = None"
      for tk by (auto simp: add_target_def)
    show ?thesis
      using a(5) i
      by (auto simp: note_wire_def index_ok_def Let_def c o split: option.splits)
  qed
  ultimately show ?thesis by (simp add: routes_ok_def)
qed

lemma evict_oldest_ok:
  assumes "routes_ok r"
  shows "routes_ok (evict_oldest_session r)"
proof (cases "session_routes r")
  case (Cons kv d)
  obtain k v where kv: "kv = (k, v)" by (cases kv)
  have e: "evict_oldest_session r = r\<lparr>session_routes := dpop k (session_routes r),
        target_sessions := map (\<lambda>(t, s). (t, sdiscard k s)) (target_sessions r)\<rparr>"
    by (simp add: evict_oldest_session_def Cons kv)
  have "length (dpop k (session_routes r)) \<le> length (session_routes r)"
    by (rule length_dpop_le)
  moreover have "distinct (map fst (map (\<lambda>(t, s). (t, sdiscard k s)) (target_sessions r)))"
    using assms by (simp only: wf_map_values routes_ok_def dicts_ok_def)
  ultimately show ?thesis
    using assms unfolding e
    by (auto simp: routes_ok_def routes_ok_parts dget_list_map simp del: map_map split: if_splits)
qed (use assms in \<open>simp add: evict_oldest_session_def\<close>)

lemma evict_sessions_ok: "routes_ok r \<Longrightarrow> routes_ok (evict_sessions cap r)"
proof (induction cap r rule: evict_sessions.induct)
  case (1 cap r)
  then show ?case
    by (subst evict_sessions.simps) (auto intro: evict_oldest_ok)
qed

lemma evict_sessions_same:
  "target_routes (evict_sessions cap r) = target_routes r \<and>
   target_conflicts (evict_sessions cap r) = target_conflicts r \<and>
   session_conflicts (evict_sessions cap r) = session_conflicts r \<and>
   target_channel_types (evict_sessions cap r) = target_channel_types r \<and>
   target_wire_ids (evict_sessions cap r) = target_wire_ids r \<and>
   chat_index (evict_sessions cap r) = chat_index r \<and>
   path_file (evict_sessions cap r) = path_file r \<and>
   backup_file (evict_sessions cap r) = backup_file r \<and>
   dirty (evict_sessions cap r) = dirty r \<and>
   restored_from_backup (evict_sessions cap r) = restored_from_backup r \<and>
   snapshot_corrupt (evict_sessions cap r) = snapshot_corrupt r"
proof (induction cap r rule: evict_sessions.induct)
  case (1 cap r)
  then show ?case
    by (subst (1 2 3 4 5 6 7 8 9 10 11) evict_sessions.simps)
      (auto simp: evict_oldest_session_def split: list.splits)
qed

lemma evict_sessions_subset:
  "dget (session_routes (evict_sessions cap r)) k = None \<or>
   dget (session_routes (evict_sessions cap r)) k = dget (session_routes r) k"
proof (induction cap r rule: evict_sessions.induct)
  case (1 cap r)
  have e: "dget (session_routes (evict_oldest_session r)) k = None \<or>
      dget (session_routes (evict_oldest_session r)) k = dget (session_routes r) k"
    by (cases "session_routes r") (auto simp: evict_oldest_session_def)
  show ?case
  proof (cases "length (session_routes r) < cap \<or> session_routes r = []")
    case True
    then show ?thesis by (simp add: evict_sessions.simps)
  next
    case False
    then show ?thesis using 1 e by (subst (1 2) evict_sessions.simps) auto
  qed
qed

lemma evict_sessions_length: "0 < cap \<Longrightarrow> length (session_routes (evict_sessions cap r)) < cap"
proof (induction cap r rule: evict_sessions.induct)
  case (1 cap r)
  then show ?case by (subst evict_sessions.simps) auto
qed

lemma link_session_ok:
  assumes "routes_ok r" "valid_robot (q_robot_id q)"
    and "dget (target_routes r) (q_target q) = Some (q_robot_id q)"
    and "\<And>k. q_session q = Some k \<Longrightarrow> \<not> owned_by_other (session_routes r) k (q_robot_id q)"
  shows "routes_ok (link_session q r)"
proof (cases "q_session q")
  case (Some k)
  let ?r = "evict_sessions MAX_PERSISTED_ROUTES r"
  have k: "k \<noteq> []" using Some by (auto simp: q_session_def split: option.splits if_splits)
  have ok: "routes_ok ?r" by (rule evict_sessions_ok [OF assms(1)])
  have len: "length (session_routes ?r) < MAX_PERSISTED_ROUTES"
    by (rule evict_sessions_length) (simp add: MAX_PERSISTED_ROUTES_def)
  have t: "target_routes ?r = target_routes r" using evict_sessions_same by blast
  have prev: "dget (session_routes ?r) k = None \<or> dget (session_routes ?r) k = Some (q_robot_id q)"
    using evict_sessions_subset [of MAX_PERSISTED_ROUTES r k] assms(4) [OF Some]
    by (auto simp: owned_by_other_def split: option.splits)
  have l: "link_session q r = ?r\<lparr>session_routes := dset k (q_robot_id q) (session_routes ?r),
      target_sessions := dadd (q_target q) k (target_sessions ?r)\<rparr>"
    by (simp add: link_session_def Some Let_def)
  have "links_ok (link_session q r)"
    unfolding links_ok_def
  proof (intro allI impI)
    fix tk k' assume m: "k' \<in> set (dget_list (target_sessions (link_session q r)) tk)"
    show "\<exists>rid. dget (session_routes (link_session q r)) k' = Some rid \<and>
        dget (target_routes (link_session q r)) tk = Some rid"
    proof (cases "k' \<in> set (dget_list (target_sessions ?r) tk)")
      case True
      then obtain rid where "dget (session_routes ?r) k' = Some rid" "dget (target_routes ?r) tk = Some rid"
        using link_owner [OF ok] by blast
      then show ?thesis using prev by (auto simp: l)
    next
      case False
      then have "k' = k" "tk = q_target q" using m by (auto simp: l split: if_splits)
      then show ?thesis using assms(3) t by (simp add: l)
    qed
  qed
  moreover have "dicts_ok (link_session q r)" "index_ok (link_session q r)"
    using ok by (auto simp: routes_ok_def dicts_ok_def index_ok_def l)
  moreover have "names_ok (link_session q r)"
    using ok k assms(2) by (auto simp: routes_ok_def names_ok_def l)
  moreover have "bounds_ok (link_session q r)"
    using ok len by (auto simp: routes_ok_def bounds_ok_def l length_dset)
  ultimately show ?thesis by (simp add: routes_ok_def)
qed (use assms in \<open>simp add: link_session_def\<close>)

lemma bind_route_ok:
  assumes "routes_ok r"
  shows "routes_ok (snd (bind_route q r))"
proof (cases "check_request q")
  case None
  have v: "valid_robot (q_robot_id q)" "target_name_ok (q_target q)"
    "channel_of_int (q_channel_type q) \<noteq> None" "\<And>w. q_wire q = Some w \<Longrightarrow> wire_chat_ok w"
    using None by (auto simp: check_request_def target_name_ok_def q_target_def split: if_splits option.splits)
  have s: "k \<noteq> []" if "q_session q = Some k" for k
    using that by (auto simp: q_session_def split: option.splits if_splits)
  let ?tk = "q_target q"
  have "routes_ok (snd (bind_locked q r))"
  proof -
    have c: "routes_ok (conflict_target ?tk r)" by (rule conflict_target_ok [OF assms v(2)])
    have c1: "routes_ok (r\<lparr>session_conflicts := sadd k (session_conflicts r)\<rparr>)"
      "routes_ok (conflict_target ?tk (r\<lparr>session_conflicts := sadd k (session_conflicts r)\<rparr>))"
      if "q_session q = Some k" for k
      using add_session_conflict_ok [OF assms s [OF that]] conflict_target_ok [OF _ v(2)] by blast+
    have n: "routes_ok (note_wire q r)" if "dget (target_routes r) ?tk \<noteq> None"
      using note_wire_ok [OF assms v(3,4,1,2)] that by (simp add: add_target_def)
    have w: "routes_ok (note_wire q (add_target q r))"
      if "\<not> (dget (target_routes r) ?tk = None \<and> MAX_PERSISTED_ROUTES \<le> length (target_routes r))"
      using note_wire_ok [OF assms v(3,4,1,2)] that by auto
    have b: "routes_ok (link_session q (note_wire q (add_target q r)))"
      if "\<not> (dget (target_routes r) ?tk = None \<and> MAX_PERSISTED_ROUTES \<le> length (target_routes r))"
        "\<not> owned_by_other (target_routes r) ?tk (q_robot_id q)"
        "\<And>k. q_session q = Some k \<Longrightarrow> \<not> owned_by_other (session_routes r) k (q_robot_id q)"
    proof (rule link_session_ok [OF w [OF that(1)] v(1)])
      show "dget (target_routes (note_wire q (add_target q r))) ?tk = Some (q_robot_id q)"
        using that(2) by (auto simp: note_wire_def add_target_def owned_by_other_def Let_def split: option.splits)
      show "\<not> owned_by_other (session_routes (note_wire q (add_target q r))) k (q_robot_id q)"
        if "q_session q = Some k" for k
        using \<open>\<And>k. q_session q = Some k \<Longrightarrow> \<not> owned_by_other (session_routes r) k (q_robot_id q)\<close> that
        by (simp add: note_wire_def add_target_def Let_def split: option.splits)
    qed
    show ?thesis
      unfolding bind_locked_def Let_def
      using assms c c1 n w b by (auto split: option.splits)
  qed
  then show ?thesis by (simp add: bind_route_def None case_prod_beta)
qed (use assms in \<open>simp add: bind_route_def\<close>)

end
