(* ===== verification/RouteSnapshot.thy ===== *)
theory RouteSnapshot
  imports RouteState
begin

text \<open>
  The body of a route snapshot restores the registry it was taken from, as built in memory
  (the roll-backs) and in the canonical form that is read back from a file (a restart).
\<close>

section \<open>A snapshot body restores the registry\<close>

definition reloads :: "routes \<Rightarrow> routes \<Rightarrow> bool" where
  \<comment> \<open>the second registry answers like the first; it may know fewer session links\<close>
  "reloads a b \<longleftrightarrow>
     session_routes b = session_routes a \<and> target_routes b = target_routes a \<and>
     set (session_conflicts b) = set (session_conflicts a) \<and>
     set (target_conflicts b) = set (target_conflicts a) \<and>
     dget (target_channel_types b) = dget (target_channel_types a) \<and>
     dget (target_wire_ids b) = dget (target_wire_ids a) \<and>
     (\<forall>tk. set (dget_list (target_sessions b) tk) \<subseteq> set (dget_list (target_sessions a) tk))"

lemma inner_fold: "dget (fold (\<lambda>k d. dset k tk d) ks d) k = (if k \<in> set ks then Some tk else dget d k)"
  by (induction ks arbitrary: d) auto

lemma outer_fold:
  assumes "dget (fold (\<lambda>(tk, ks) d. fold (\<lambda>k d. dset k tk d) ks d) ts d) k = Some tk"
  shows "dget d k = Some tk \<or> (\<exists>ks. (tk, ks) \<in> set ts \<and> k \<in> set ks)"
  using assms
proof (induction ts arbitrary: d)
  case (Cons t ts)
  obtain tk' ks' where [simp]: "t = (tk', ks')" by (cases t)
  have "dget (fold (\<lambda>(tk, ks) d. fold (\<lambda>k d. dset k tk d) ks d) ts (fold (\<lambda>k d. dset k tk' d) ks' d)) k
      = Some tk"
    using Cons.prems by simp
  from Cons.IH [OF this] show ?case by (auto simp: inner_fold split: if_splits)
qed simp

lemma session_targets_link:
  assumes "wf_dict (target_sessions r)" "dget (session_targets r) k = Some tk"
  shows "k \<in> set (dget_list (target_sessions r) tk)"
proof -
  obtain ks where ks: "(tk, ks) \<in> set (target_sessions r)" "k \<in> set ks"
    using outer_fold [of "target_sessions r" "[]" k tk] assms(2) by (auto simp: session_targets_def)
  then have "dget (target_sessions r) tk = Some ks" using assms(1) by (simp add: dget_iff_mem)
  then show ?thesis using ks(2) by (simp add: dget_list_def)
qed

lemma in_chat_types_str [simp]: "in_chat_types (JStr s) = Some (s \<in> set CHAT_TYPES)"
  by (simp add: in_chat_types_def)

lemma nonempty_str_str [simp]: "nonempty_str (JStr s) = (s \<noteq> [])"
  by (simp add: nonempty_str_def)

lemma valid_robot_id_str [simp]: "valid_robot_id (JStr s) = valid_robot s"
  by (simp add: valid_robot_id_def)

definition relink :: "routes \<Rightarrow> string \<Rightarrow> (target_key, string list) dict \<Rightarrow> (target_key, string list) dict" where
  "relink r k d = (case dget (session_targets r) k of None \<Rightarrow> d | Some tk \<Rightarrow> dadd tk k d)"

lemma apply_session_record:
  assumes "routes_ok r" "dget (session_routes r) k = Some rid"
  shows "apply_session (session_record r (k, rid)) s =
     (True, s\<lparr>session_routes := dset k rid (session_routes s),
              target_sessions := relink r k (target_sessions s)\<rparr>)"
proof -
  have k: "k \<noteq> [] \<and> valid_robot rid" using assms by (simp add: routes_ok_def names_ok_def)
  show ?thesis
  proof (cases "dget (session_targets r) k")
    case None
    then show ?thesis
      using k by (simp add: apply_session_def session_record_def relink_def in_chat_types_def)
  next
    case (Some tk)
    have "k \<in> set (dget_list (target_sessions r) tk)"
      using session_targets_link Some assms(1) by (auto simp: routes_ok_def dicts_ok_def)
    then obtain rid' where "dget (target_routes r) tk = Some rid'"
      by (rule link_owner [OF assms(1)])
    then have "target_name_ok tk" using assms(1) by (simp add: routes_ok_def names_ok_def)
    then show ?thesis
      using k Some by (simp add: apply_session_def session_record_def relink_def target_name_ok_def)
  qed
qed

lemma apply_each_sessions:
  assumes "routes_ok r" "\<forall>(k, rid) \<in> set xs. dget (session_routes r) k = Some rid"
  shows "apply_each apply_session (map (session_record r) xs) s =
     (True, s\<lparr>session_routes := fold (\<lambda>(k, v). dset k v) xs (session_routes s),
              target_sessions := fold (\<lambda>(k, v). relink r k) xs (target_sessions s)\<rparr>)"
  using assms(2)
proof (induction xs arbitrary: s)
  case (Cons x xs)
  obtain k rid where x: "x = (k, rid)" by (cases x)
  with Cons.prems have g: "dget (session_routes r) k = Some rid" by simp
  show ?case using Cons by (simp add: x apply_session_record [OF assms(1) g])
qed simp

definition rewire :: "routes \<Rightarrow> target_key \<Rightarrow> (target_key, string) dict \<Rightarrow> (target_key, string) dict" where
  "rewire r tk d = (case dget (target_wire_ids r) tk of None \<Rightarrow> d | Some w \<Rightarrow> dset tk w d)"

definition retype :: "routes \<Rightarrow> target_key \<Rightarrow> (target_key, int) dict \<Rightarrow> (target_key, int) dict" where
  "retype r tk d = (case dget (target_channel_types r) tk of None \<Rightarrow> d | Some ct \<Rightarrow> dset tk ct d)"

lemma apply_target_record:
  assumes "routes_ok r" "dget (target_routes r) tk = Some rid"
  shows "apply_target (target_record r (tk, rid)) s =
     (True, s\<lparr>target_routes := dset tk rid (target_routes s),
              target_channel_types := retype r tk (target_channel_types s),
              target_wire_ids := rewire r tk (target_wire_ids s),
              chat_index := dadd (snd tk) (fst tk, rid) (chat_index s)\<rparr>)"
proof -
  have k: "target_name_ok tk \<and> valid_robot rid" using assms by (simp add: routes_ok_def names_ok_def)
  have "dget (target_channel_types r) tk \<noteq> None"
    using assms by (simp add: routes_ok_def index_ok_def)
  then obtain ct where ct: "dget (target_channel_types r) tk = Some ct" by blast
  have "channel_of_int ct \<noteq> None"
    using assms(1) ct unfolding routes_ok_def names_ok_def by blast
  then have cv: "valid_channel_type (JInt ct)" by (simp add: valid_channel_type_def)
  have wv: "wire_chat_ok w" if "dget (target_wire_ids r) tk = Some w" for w
    using assms(1) that unfolding routes_ok_def names_ok_def by blast
  show ?thesis
    using k ct cv wv
    by (cases "dget (target_wire_ids r) tk")
      (simp_all add: apply_target_def target_record_def Let_def opt_json_def wire_known_def
        wire_record_ok_def target_name_ok_def rewire_def retype_def)
qed

lemma apply_each_targets:
  assumes "routes_ok r" "\<forall>(tk, rid) \<in> set xs. dget (target_routes r) tk = Some rid"
  shows "apply_each apply_target (map (target_record r) xs) s =
     (True, s\<lparr>target_routes := fold (\<lambda>(tk, v). dset tk v) xs (target_routes s),
              target_channel_types := fold (\<lambda>(tk, v). retype r tk) xs (target_channel_types s),
              target_wire_ids := fold (\<lambda>(tk, v). rewire r tk) xs (target_wire_ids s),
              chat_index := fold (\<lambda>(tk, v). dadd (snd tk) (fst tk, v)) xs (chat_index s)\<rparr>)"
  using assms(2)
proof (induction xs arbitrary: s)
  case (Cons x xs)
  obtain tk rid where x: "x = (tk, rid)" by (cases x)
  with Cons.prems have g: "dget (target_routes r) tk = Some rid" by simp
  show ?case using Cons by (simp add: x apply_target_record [OF assms(1) g])
qed simp

lemma apply_each_session_conflicts:
  assumes "[] \<notin> set xs"
  shows "\<exists>c. apply_each apply_session_conflict (map JStr xs) s = (True, s\<lparr>session_conflicts := c\<rparr>) \<and>
     set c = set (session_conflicts s) \<union> set xs"
  using assms
proof (induction xs arbitrary: s)
  case Nil
  then show ?case by (intro exI [of _ "session_conflicts s"]) simp
next
  case (Cons x xs)
  have "[] \<notin> set xs" using Cons.prems by simp
  from Cons.IH [OF this, of "s\<lparr>session_conflicts := sadd x (session_conflicts s)\<rparr>"] Cons.prems
  show ?case by (auto simp: apply_session_conflict_def)
qed

lemma apply_each_target_conflicts:
  assumes "\<forall>tk \<in> set xs. target_name_ok tk"
  shows "\<exists>c. apply_each apply_target_conflict (map (\<lambda>tk. JArr [JStr (fst tk), JStr (snd tk)]) xs) s =
       (True, s\<lparr>target_conflicts := c\<rparr>) \<and> set c = set (target_conflicts s) \<union> set xs"
  using assms
proof (induction xs arbitrary: s)
  case Nil
  then show ?case by (intro exI [of _ "target_conflicts s"]) simp
next
  case (Cons x xs)
  have "\<forall>tk \<in> set xs. target_name_ok tk" using Cons.prems by simp
  from Cons.IH [OF this, of "s\<lparr>target_conflicts := sadd x (target_conflicts s)\<rparr>"] Cons.prems
  show ?case by (auto simp: apply_target_conflict_def target_name_ok_def)
qed

lemma fold_dset_same: "wf_dict (ys @ xs) \<Longrightarrow> fold (\<lambda>(k, v). dset k v) xs ys = ys @ xs"
proof (induction xs arbitrary: ys)
  case (Cons x xs)
  obtain k v where x: "x = (k, v)" by (cases x)
  have "dget ys k = None" using Cons.prems by (auto simp: x map_of_eq_None_iff)
  moreover have "wf_dict ((ys @ [x]) @ xs)" using Cons.prems by simp
  ultimately show ?case using Cons.IH [of "ys @ [x]"] by (simp add: x dset_fresh)
qed simp

lemma fold_retype:
  "dget (fold (\<lambda>(tk, v). retype r tk) xs d) tk =
     (if tk \<in> set (dkeys xs) \<and> dget (target_channel_types r) tk \<noteq> None
      then dget (target_channel_types r) tk else dget d tk)"
  by (induction xs arbitrary: d) (auto simp: retype_def split: option.splits)

lemma fold_rewire:
  "dget (fold (\<lambda>(tk, v). rewire r tk) xs d) tk =
     (if tk \<in> set (dkeys xs) \<and> dget (target_wire_ids r) tk \<noteq> None
      then dget (target_wire_ids r) tk else dget d tk)"
  by (induction xs arbitrary: d) (auto simp: rewire_def split: option.splits)

lemma fold_index:
  "(ct, rid) \<in> set (dget_list (fold (\<lambda>(tk, v). dadd (snd tk) (fst tk, v)) xs d) cid) \<longleftrightarrow>
     (ct, rid) \<in> set (dget_list d cid) \<or> ((ct, cid), rid) \<in> set xs"
proof (induction xs arbitrary: d)
  case (Cons x xs)
  obtain ct' cid' rid' where x: "x = ((ct', cid'), rid')" by (cases x) auto
  have "(ct, rid) \<in> set (dget_list (dadd cid' (ct', rid') d) cid) \<longleftrightarrow>
      (ct, rid) \<in> set (dget_list d cid) \<or> ((ct, cid), rid) = ((ct', cid'), rid')"
    by (cases "cid = cid'") auto
  then show ?case using Cons.IH [of "dadd cid' (ct', rid') d"] by (simp add: x)
qed simp

lemma fold_relink:
  "k \<in> set (dget_list (fold (\<lambda>(k, v). relink r k) xs d) tk) \<longleftrightarrow>
     k \<in> set (dget_list d tk) \<or> (k \<in> set (dkeys xs) \<and> dget (session_targets r) k = Some tk)"
  by (induction xs arbitrary: d) (auto simp: relink_def split: option.splits if_splits)

lemma fold_wf:
  "wf_dict d \<Longrightarrow> wf_dict (fold (\<lambda>(k, v). relink r k) xs d)"
  "wf_dict d' \<Longrightarrow> wf_dict (fold (\<lambda>(tk, v). rewire r tk) ys d')"
  "wf_dict d'' \<Longrightarrow> wf_dict (fold (\<lambda>(tk, v). retype r tk) ys d'')"
  "wf_dict e \<Longrightarrow> wf_dict (fold (\<lambda>(tk, v). dadd (snd tk) (fst tk, v)) ys e)"
  subgoal by (induction xs arbitrary: d) (auto simp: relink_def split: option.splits)
  subgoal by (induction ys arbitrary: d') (auto simp: rewire_def split: option.splits)
  subgoal by (induction ys arbitrary: d'') (auto simp: retype_def split: option.splits)
  subgoal by (induction ys arbitrary: e) auto
  done

lemma fold_index_distinct:
  "(\<And>c. distinct (dget_list d c)) \<Longrightarrow>
   distinct (dget_list (fold (\<lambda>(tk, v). dadd (snd tk) (fst tk, v)) xs d) cid)"
proof (induction xs arbitrary: d)
  case (Cons x xs)
  show ?case
    using Cons.IH [of "dadd (snd (fst x)) (fst (fst x), snd x) d"] Cons.prems by (simp add: case_prod_beta)
qed simp

lemma map_of_Nil_None: "map_of [] k = None"
  by simp

lemma dget_key: "k \<in> set (dkeys d) \<longleftrightarrow> dget d k \<noteq> None"
  by (simp add: map_of_eq_None_iff)

lemma jiter_or_empty_arr [simp]: "jiter_or_empty (JArr xs) = Some xs"
  by (simp add: jiter_or_empty_def)

lemma apply_body_restores:
  assumes ok: "routes_ok r"
  shows "\<exists>r'. apply_body (routes_body r) s = (True, r') \<and> reloads r r' \<and> routes_ok r' \<and>
     dirty r' = False \<and> path_file r' = path_file s \<and> backup_file r' = backup_file s \<and>
     restored_from_backup r' = restored_from_backup s \<and> snapshot_corrupt r' = snapshot_corrupt s"
proof -
  have wf: "wf_dict (session_routes r)" "wf_dict (target_routes r)" "wf_dict (target_sessions r)"
    using ok by (simp_all add: routes_ok_def dicts_ok_def)
  define links where "links = fold (\<lambda>(k, v). relink r k) (session_routes r) []"
  define types where "types = fold (\<lambda>(tk, v). retype r tk) (target_routes r) []"
  define wires where "wires = fold (\<lambda>(tk, v). rewire r tk) (target_routes r) []"
  define index where "index = fold (\<lambda>(tk, v). dadd (snd tk) (fst tk, v)) (target_routes r) []"
  let ?s0 = "clear_routes s"
  let ?s1 = "?s0\<lparr>session_routes := session_routes r, target_sessions := links\<rparr>"
  let ?s2 = "?s1\<lparr>target_routes := target_routes r, target_channel_types := types,
      target_wire_ids := wires, chat_index := index\<rparr>"
  have 1: "apply_each apply_session (map (session_record r) (session_routes r)) ?s0 = (True, ?s1)"
    using apply_each_sessions [OF ok, of "session_routes r" ?s0] wf(1)
      fold_dset_same [of "[]" "session_routes r"]
    by (simp add: clear_routes_def links_def dget_iff_mem case_prod_beta)
  have 2: "apply_each apply_target (map (target_record r) (target_routes r)) ?s1 = (True, ?s2)"
    using apply_each_targets [OF ok, of "target_routes r" ?s1] wf(2)
      fold_dset_same [of "[]" "target_routes r"]
    by (simp add: clear_routes_def types_def wires_def index_def dget_iff_mem case_prod_beta)
  have "[] \<notin> set (sort (session_conflicts r))"
    using ok by (simp add: routes_ok_def names_ok_def)
  from apply_each_session_conflicts [OF this, of ?s2]
  obtain sc where 3: "apply_each apply_session_conflict (map JStr (sort (session_conflicts r))) ?s2 =
      (True, ?s2\<lparr>session_conflicts := sc\<rparr>)" and sc: "set sc = set (session_conflicts r)"
    by (auto simp: clear_routes_def)
  let ?s3 = "?s2\<lparr>session_conflicts := sc\<rparr>"
  have "\<forall>tk \<in> set (sort_key (\<lambda>tk. [fst tk, snd tk]) (target_conflicts r)). target_name_ok tk"
    using ok by (simp add: routes_ok_def names_ok_def)
  from apply_each_target_conflicts [OF this, of ?s3]
  obtain tc where 4: "apply_each apply_target_conflict
        (map (\<lambda>tk. JArr [JStr (fst tk), JStr (snd tk)])
          (sort_key (\<lambda>tk. [fst tk, snd tk]) (target_conflicts r))) ?s3 =
      (True, ?s3\<lparr>target_conflicts := tc\<rparr>)" and tc: "set tc = set (target_conflicts r)"
    by (auto simp: clear_routes_def)
  let ?r = "?s3\<lparr>target_conflicts := tc, dirty := False\<rparr>"
  have a: "apply_body (routes_body r) s = (True, ?r)"
    unfolding apply_body_def routes_body_def by (simp add: apply_field_def 1 2 3 4)
  have ty: "dget types tk = dget (target_channel_types r) tk" for tk
  proof -
    have "dget (target_channel_types r) tk = None \<longleftrightarrow> dget (target_routes r) tk = None"
      using ok unfolding routes_ok_def index_ok_def by blast
    then show ?thesis unfolding types_def fold_retype map_of_Nil_None dget_key by metis
  qed
  have wi: "dget wires tk = dget (target_wire_ids r) tk" for tk
    using ok unfolding wires_def fold_rewire map_of_Nil_None dget_key routes_ok_def index_ok_def by simp
  have ix: "(ct, rid) \<in> set (dget_list index cid) \<longleftrightarrow> dget (target_routes r) (ct, cid) = Some rid"
    for ct rid cid
    by (simp add: index_def fold_index dget_iff_mem [OF wf(2)])
  have li: "set (dget_list links tk) \<subseteq> set (dget_list (target_sessions r) tk)" for tk
  proof
    fix k assume "k \<in> set (dget_list links tk)"
    then have "dget (session_targets r) k = Some tk" by (simp add: links_def fold_relink)
    then show "k \<in> set (dget_list (target_sessions r) tk)" by (rule session_targets_link [OF wf(3)])
  qed
  have "reloads r ?r"
    using ty wi li by (auto simp: reloads_def sc tc)
  moreover have "routes_ok ?r"
  proof -
    have "dicts_ok ?r"
      using wf by (simp add: dicts_ok_def links_def types_def wires_def index_def fold_wf
          fold_index_distinct)
    moreover have "names_ok ?r"
      using ok by (simp add: routes_ok_def names_ok_def ty wi sc tc)
    moreover have "index_ok ?r"
      using ok by (simp add: routes_ok_def index_ok_def ty wi ix)
    moreover have "links_ok ?r"
      unfolding links_ok_def
    proof (intro allI impI)
      fix tk k assume "k \<in> set (dget_list (target_sessions ?r) tk)"
      then have "k \<in> set (dget_list (target_sessions r) tk)" using li [of tk] by auto
      then show "\<exists>rid. dget (session_routes ?r) k = Some rid \<and> dget (target_routes ?r) tk = Some rid"
        by (rule link_owner [OF ok]) simp
    qed
    moreover have "bounds_ok ?r" using ok by (simp add: routes_ok_def bounds_ok_def)
    ultimately show ?thesis by (simp add: routes_ok_def)
  qed
  ultimately show ?thesis by (intro exI [of _ ?r]) (simp add: a clear_routes_def)
qed

text \<open>What is read back from a file is the canonical form of the body; it restores the same.\<close>

lemma canon_kind:
  "in_chat_types (canon v) = in_chat_types v" "text_of (canon v) = text_of v"
  "nonempty_str (canon v) = nonempty_str v" "valid_robot_id (canon v) = valid_robot_id v"
  "valid_channel_type (canon v) = valid_channel_type v" "wire_record_ok (canon v) = wire_record_ok v"
  "canon v = JNull \<longleftrightarrow> v = JNull"
  by (cases v; simp add: in_chat_types_def nonempty_str_def valid_robot_id_def
      valid_channel_type_def wire_record_ok_def)+

lemma apply_session_canon:
  assumes "wf_dict d"
  shows "apply_session (canon (JObj d)) s = apply_session (JObj d) s"
proof -
  obtain d' where d': "canon (JObj d) = JObj d'" by simp
  show ?thesis
    unfolding d' apply_session_def
    by (simp only: json.case jget_canon_obj [OF d' assms] canon_kind Let_def)
qed

lemma apply_target_canon:
  assumes "wf_dict d" "\<exists>b. jget d ''wire_chat_id_known'' = JBool b"
  shows "apply_target (canon (JObj d)) s = apply_target (JObj d) s"
proof -
  obtain b where b: "jget d ''wire_chat_id_known'' = JBool b" using assms(2) by blast
  obtain d' where d': "canon (JObj d) = JObj d'" by simp
  have g: "jget d' k = canon (jget d k)" for k by (rule jget_canon_obj [OF d' assms(1)])
  have cty: "(case canon v of JInt i \<Rightarrow> i | _ \<Rightarrow> 0) = (case v of JInt i \<Rightarrow> i | _ \<Rightarrow> 0)" for v
    by (cases v) simp_all
  have w: "(case map_of d' ''wire_chat_id'' of None \<Rightarrow> canon c | Some w \<Rightarrow> w) =
      canon (case map_of d ''wire_chat_id'' of None \<Rightarrow> c | Some w \<Rightarrow> w)" for c
    using map_of_canon [OF d' assms(1)] by (simp split: option.splits)
  show ?thesis
    unfolding d' apply_target_def
    by (simp only: json.case g b w cty canon.simps canon_kind Let_def wire_known_def json.simps
        if_False)
qed

lemma apply_each_canon:
  assumes "\<And>x s. x \<in> set xs \<Longrightarrow> f (canon x) s = f x s"
  shows "apply_each f (map canon xs) s = apply_each f xs s"
  using assms
proof (induction xs arbitrary: s)
  case (Cons x xs)
  have 1: "f (canon x) s = f x s" by (rule Cons.prems) simp
  have 2: "apply_each f (map canon xs) s' = apply_each f xs s'" for s'
    by (rule Cons.IH) (simp add: Cons.prems)
  show ?case by (simp only: list.map apply_each.simps 1 2)
qed simp

lemma apply_body_canon: "apply_body (canon (routes_body r)) s = apply_body (routes_body r) s"
proof -
  define d where "d = [(''sessions'', JArr (map (session_record r) (session_routes r))),
           (''targets'', JArr (map (target_record r) (target_routes r))),
           (''session_conflicts'', JArr (map JStr (sort (session_conflicts r)))),
           (''target_conflicts'',
              JArr (map (\<lambda>tk. JArr [JStr (fst tk), JStr (snd tk)])
                (sort_key (\<lambda>tk. [fst tk, snd tk]) (target_conflicts r))))]"
  have b: "routes_body r = JObj d" by (simp add: routes_body_def d_def)
  obtain d' where d': "canon (JObj d) = JObj d'" by simp
  have g: "jget d' k = canon (jget d k)" for k
    by (rule jget_canon_obj [OF d']) (simp add: d_def)
  have 1: "apply_each apply_session (map canon (map (session_record r) xs)) s =
      apply_each apply_session (map (session_record r) xs) s" for xs s
    by (rule apply_each_canon)
      (auto simp: session_record_def simp del: canon.simps split: option.splits
        intro!: apply_session_canon)
  have 2: "apply_each apply_target (map canon (map (target_record r) xs)) s =
      apply_each apply_target (map (target_record r) xs) s" for xs s
    by (rule apply_each_canon)
      (auto simp: target_record_def Let_def simp del: canon.simps intro!: apply_target_canon)
  have 3: "map canon (map JStr xs) = map JStr xs" for xs by simp
  have 4: "map canon (map (\<lambda>tk. JArr [JStr (fst tk), JStr (snd tk)]) xs) =
      map (\<lambda>tk. JArr [JStr (fst tk), JStr (snd tk)]) xs" for xs :: "target_key list" by simp
  have j: "jiter_or_empty (canon (JArr xs)) = Some (map canon xs)" for xs
    by (simp add: jiter_or_empty_def)
  have f: "apply_field fn (canon (JArr xs)) br = apply_field fn (JArr xs) br"
    if "\<And>s. apply_each fn (map canon xs) s = apply_each fn xs s" for fn xs br
  proof -
    obtain b s where br: "br = (b, s)" by (cases br)
    show ?thesis
      unfolding br apply_field_def prod.case j jiter_or_empty_arr option.case that by (rule refl)
  qed
  show ?thesis
    unfolding b d' apply_body_def json.case g
    by (simp add: d_def f 1 2 3 4 del: canon.simps map_map)
qed

end
