(* ===== verification/RouteRuns.thy ===== *)
theory RouteRuns
  imports RouteSnapshot
begin

text \<open>
  Sequences of registry operations in which every snapshot write may raise or be cut off by the
  death of the process. The locale \<open>route_fact\<close> says when a fact about the registry survives
  all of them; ownership and conflicts are such facts.
\<close>

section \<open>What an operation leaves alone\<close>

lemma link_session_same:
  "target_routes (link_session q r) = target_routes r \<and>
   target_conflicts (link_session q r) = target_conflicts r \<and>
   session_conflicts (link_session q r) = session_conflicts r \<and>
   path_file (link_session q r) = path_file r \<and> backup_file (link_session q r) = backup_file r"
  using evict_sessions_same by (auto simp: link_session_def Let_def split: option.splits)

lemma note_wire_same:
  "target_routes (note_wire q r) = target_routes r \<and> session_routes (note_wire q r) = session_routes r \<and>
   target_conflicts (note_wire q r) = target_conflicts r \<and>
   session_conflicts (note_wire q r) = session_conflicts r \<and>
   path_file (note_wire q r) = path_file r \<and> backup_file (note_wire q r) = backup_file r"
  by (simp add: note_wire_def Let_def split: option.splits)

lemma add_target_same:
  "target_conflicts (add_target q r) = target_conflicts r \<and>
   session_conflicts (add_target q r) = session_conflicts r \<and>
   session_routes (add_target q r) = session_routes r \<and>
   path_file (add_target q r) = path_file r \<and> backup_file (add_target q r) = backup_file r"
  by (simp add: add_target_def)

lemma bind_route_same:
  "path_file (snd (bind_route q r)) = path_file r \<and> backup_file (snd (bind_route q r)) = backup_file r \<and>
   set (target_conflicts r) \<subseteq> set (target_conflicts (snd (bind_route q r))) \<and>
   set (session_conflicts r) \<subseteq> set (session_conflicts (snd (bind_route q r)))"
proof (cases "check_request q")
  case None
  have "path_file (snd (bind_locked q r)) = path_file r \<and>
      backup_file (snd (bind_locked q r)) = backup_file r \<and>
      set (target_conflicts r) \<subseteq> set (target_conflicts (snd (bind_locked q r))) \<and>
      set (session_conflicts r) \<subseteq> set (session_conflicts (snd (bind_locked q r)))"
    unfolding bind_locked_def Let_def
    by (simp add: conflict_target_def link_session_same note_wire_same add_target_same subset_iff)
  then show ?thesis by (simp add: bind_route_def None case_prod_beta)
qed (simp add: bind_route_def)

lemma bind_route_keeps_owner:
  assumes "dget (target_routes r) tk = Some rid"
  shows "dget (target_routes (snd (bind_route q r))) tk = Some rid"
proof (cases "check_request q")
  case None
  have "dget (target_routes (add_target q r)) tk = Some rid"
    using assms by (auto simp: add_target_def)
  then have "dget (target_routes (snd (bind_locked q r))) tk = Some rid"
    unfolding bind_locked_def Let_def
    by (simp add: conflict_target_def link_session_same note_wire_same assms)
  then show ?thesis by (simp add: bind_route_def None case_prod_beta)
qed (simp add: bind_route_def assms)

lemma unlink_sessions_eq:
  "unlink_sessions ks r = r\<lparr>session_routes := session_routes (unlink_sessions ks r)\<rparr> \<and>
   dget (session_routes (unlink_sessions ks r)) k =
     (if k \<in> set ks \<and> \<not> list_ex (\<lambda>(_, s). k \<in> set s) (target_sessions r) then None
      else dget (session_routes r) k) \<and>
   (wf_dict (session_routes r) \<longrightarrow> wf_dict (session_routes (unlink_sessions ks r))) \<and>
   length (session_routes (unlink_sessions ks r)) \<le> length (session_routes r)"
proof (induction ks arbitrary: r)
  case Nil
  then show ?case by (simp add: unlink_sessions_def)
next
  case (Cons k' ks)
  let ?r = "if list_ex (\<lambda>(_, s). k' \<in> set s) (target_sessions r) then r
    else r\<lparr>session_routes := dpop k' (session_routes r)\<rparr>"
  have u: "unlink_sessions (k' # ks) r = unlink_sessions ks ?r" by (simp add: unlink_sessions_def)
  have t: "target_sessions ?r = target_sessions r" by simp
  have l: "length (session_routes ?r) \<le> length (session_routes r)" by (simp add: length_dpop_le)
  from Cons.IH [of ?r] have
    1: "unlink_sessions ks ?r = ?r\<lparr>session_routes := session_routes (unlink_sessions ks ?r)\<rparr>" and
    2: "dget (session_routes (unlink_sessions ks ?r)) k =
     (if k \<in> set ks \<and> \<not> list_ex (\<lambda>(_, s). k \<in> set s) (target_sessions ?r) then None
      else dget (session_routes ?r) k)" and
    3: "wf_dict (session_routes ?r) \<longrightarrow> wf_dict (session_routes (unlink_sessions ks ?r))" and
    4: "length (session_routes (unlink_sessions ks ?r)) \<le> length (session_routes ?r)"
    by blast+
  have "unlink_sessions ks ?r = r\<lparr>session_routes := session_routes (unlink_sessions ks ?r)\<rparr>"
    by (subst 1) simp
  moreover have "dget (session_routes (unlink_sessions ks ?r)) k =
     (if k \<in> set (k' # ks) \<and> \<not> list_ex (\<lambda>(_, s). k \<in> set s) (target_sessions r) then None
      else dget (session_routes r) k)"
    unfolding 2 by auto
  moreover have "wf_dict (session_routes r) \<longrightarrow> wf_dict (session_routes (unlink_sessions ks ?r))"
    using 3 by auto
  ultimately show ?case using 4 l unfolding u by (meson order_trans)
qed

lemma linked_iff:
  "wf_dict d \<Longrightarrow> list_ex (\<lambda>(_, s). k \<in> set s) d \<longleftrightarrow> (\<exists>tk. k \<in> set (dget_list d tk))"
proof (induction d)
  case (Cons x d)
  obtain tk s where x: "x = (tk, s)" by (cases x)
  have "dget d tk = None" using Cons.prems by (simp add: x map_of_eq_None_iff)
  then have n: "dget_list d tk = []" by (simp add: dget_list_def)
  have "dget_list (x # d) t = (if t = tk then s else dget_list d t)" for t
    by (simp add: x dget_list_def)
  then have "(\<exists>t. k \<in> set (dget_list (x # d) t)) \<longleftrightarrow> k \<in> set s \<or> (\<exists>t. k \<in> set (dget_list d t))"
    using n by (metis empty_iff set_empty)
  then show ?case using Cons by (simp add: x)
qed simp

lemma remove_target_shape:
  obtains ss where "remove_target tk rid r =
    r\<lparr>target_routes := dpop tk (target_routes r),
           target_sessions := dpop tk (target_sessions r),
           target_channel_types := dpop tk (target_channel_types r),
           target_wire_ids := dpop tk (target_wire_ids r),
           chat_index := drop_holder (snd tk) (fst tk, rid) (chat_index r),
           session_routes := ss\<rparr>"
    "\<forall>k. dget ss k =
     (if k \<in> set (dget_list (target_sessions r) tk) \<and>
         \<not> list_ex (\<lambda>(_, s). k \<in> set s) (dpop tk (target_sessions r)) then None
      else dget (session_routes r) k)"
    "wf_dict (session_routes r) \<longrightarrow> wf_dict ss" "length ss \<le> length (session_routes r)"
proof -
  let ?ks = "dget_list (target_sessions r) tk"
  let ?r = "r\<lparr>target_routes := dpop tk (target_routes r),
           target_sessions := dpop tk (target_sessions r),
           target_channel_types := dpop tk (target_channel_types r),
           target_wire_ids := dpop tk (target_wire_ids r),
           chat_index := drop_holder (snd tk) (fst tk, rid) (chat_index r)\<rparr>"
  let ?ss = "session_routes (unlink_sessions ?ks ?r)"
  have e: "remove_target tk rid r = unlink_sessions ?ks ?r"
    by (simp add: remove_target_def Let_def)
  note u = unlink_sessions_eq [of ?ks ?r]
  show ?thesis
  proof (rule that [of ?ss])
    show "remove_target tk rid r =
      r\<lparr>target_routes := dpop tk (target_routes r),
           target_sessions := dpop tk (target_sessions r),
           target_channel_types := dpop tk (target_channel_types r),
           target_wire_ids := dpop tk (target_wire_ids r),
           chat_index := drop_holder (snd tk) (fst tk, rid) (chat_index r),
           session_routes := ?ss\<rparr>"
      unfolding e by (subst u [THEN conjunct1]) simp
  qed (use u in auto)
qed

lemma dget_list_drop_holder:
  "dget_list (drop_holder cid h d) c =
     (if c = cid then removeAll h (dget_list d cid) else dget_list d c)"
  by (auto simp: drop_holder_def dget_list_def Let_def split: option.splits)

lemma remove_target_ok:
  assumes ok: "routes_ok r" and t: "dget (target_routes r) tk = Some rid"
  shows "routes_ok (remove_target tk rid r)"
proof -
  obtain ss where e: "remove_target tk rid r =
    r\<lparr>target_routes := dpop tk (target_routes r),
           target_sessions := dpop tk (target_sessions r),
           target_channel_types := dpop tk (target_channel_types r),
           target_wire_ids := dpop tk (target_wire_ids r),
           chat_index := drop_holder (snd tk) (fst tk, rid) (chat_index r),
           session_routes := ss\<rparr>" and
    g: "\<forall>k. dget ss k =
     (if k \<in> set (dget_list (target_sessions r) tk) \<and>
         \<not> list_ex (\<lambda>(_, s). k \<in> set s) (dpop tk (target_sessions r)) then None
      else dget (session_routes r) k)" and
    w: "wf_dict (session_routes r) \<longrightarrow> wf_dict ss" and l: "length ss \<le> length (session_routes r)"
    by (rule remove_target_shape [of tk rid r])
  have d: "dicts_ok r" "names_ok r" "index_ok r" "bounds_ok r" using ok by (simp_all add: routes_ok_def)
  have wc: "wf_dict (drop_holder c h d)" if "wf_dict d" for c h and d :: "(string, (string \<times> string) list) dict"
    using that by (auto simp: drop_holder_def Let_def split: option.splits)
  have ch: "distinct (dget_list (chat_index r) c)" for c using d(1) unfolding dicts_ok_def by blast
  have "dicts_ok (remove_target tk rid r)"
    using d(1) wc w ch
    by (simp add: e dicts_ok_def dget_list_drop_holder distinct_removeAll)
  moreover have "names_ok (remove_target tk rid r)"
    using d(2) by (simp add: e names_ok_def g)
  moreover have "index_ok (remove_target tk rid r)"
  proof -
    have "(ct, snd tk) = tk \<longleftrightarrow> ct = fst tk" for ct by (cases tk) auto
    then show ?thesis using d(3) t by (auto simp: e index_ok_def dget_list_drop_holder)
  qed
  moreover have "bounds_ok (remove_target tk rid r)"
    using d(4) l length_dpop_le [of tk "target_routes r"] by (simp add: e bounds_ok_def)
  moreover have "links_ok (remove_target tk rid r)"
    unfolding links_ok_def
  proof (intro allI impI)
    fix tk' k assume m: "k \<in> set (dget_list (target_sessions (remove_target tk rid r)) tk')"
    then have m': "k \<in> set (dget_list (target_sessions r) tk')" "tk' \<noteq> tk"
      by (auto simp: e split: if_splits)
    have "wf_dict (dpop tk (target_sessions r))" using d(1) by (simp add: dicts_ok_def)
    then have "list_ex (\<lambda>(_, s). k \<in> set s) (dpop tk (target_sessions r))"
      using m unfolding linked_iff [OF \<open>wf_dict (dpop tk (target_sessions r))\<close>]
      by (intro exI [of _ tk']) (simp add: e)
    then have k: "dget ss k = dget (session_routes r) k" using g by simp
    obtain rid' where "dget (session_routes r) k = Some rid'" "dget (target_routes r) tk' = Some rid'"
      by (rule link_owner [OF ok m'(1)])
    then show "\<exists>rid'. dget (session_routes (remove_target tk rid r)) k = Some rid' \<and>
        dget (target_routes (remove_target tk rid r)) tk' = Some rid'"
      using m'(2) k by (simp add: e)
  qed
  ultimately show ?thesis by (simp add: routes_ok_def)
qed

section \<open>Runs of operations, with failures and restarts\<close>

datatype route_op =
    Bind bind_request
  | BindPlan string "planned_route list"
  | Flush snap_fault bool
  | Forget snap_fault string string string
  | Restart

definition restart_routes :: "checksum_fn \<Rightarrow> routes \<Rightarrow> routes" where
  "restart_routes cs r = snd (load_routes cs (new_routes (path_file r) (backup_file r)))"

definition revive :: "checksum_fn \<Rightarrow> 'a option \<times> routes \<Rightarrow> routes" where
  \<comment> \<open>a process that died comes back with what its files hold\<close>
  "revive cs br = (case br of (None, r) \<Rightarrow> restart_routes cs r | (Some _, r) \<Rightarrow> r)"

fun run_op :: "checksum_fn \<Rightarrow> route_op \<Rightarrow> routes \<Rightarrow> routes" where
  "run_op cs (Bind q) r = snd (bind_route q r)"
| "run_op cs (BindPlan rid plan) r = snd (bind_plan rid plan r)"
| "run_op cs (Flush fault force) r = revive cs (flush cs fault force r)"
| "run_op cs (Forget fault rid ct cid) r = revive cs (forget_target cs fault rid ct cid r)"
| "run_op cs Restart r = restart_routes cs r"

definition run_ops :: "checksum_fn \<Rightarrow> route_op list \<Rightarrow> routes \<Rightarrow> routes" where
  "run_ops cs ops r = fold (run_op cs) ops r"

definition fresh_routes :: routes where
  "fresh_routes = new_routes FMissing FMissing"

section \<open>Facts that survive\<close>

abbreviation snapshot_of :: "checksum_fn \<Rightarrow> routes \<Rightarrow> sfile" where
  "snapshot_of cs g \<equiv> FDoc (state_document cs (routes_body g))"

definition holds_on_disk :: "checksum_fn \<Rightarrow> (routes \<Rightarrow> bool) \<Rightarrow> sfile \<Rightarrow> sfile \<Rightarrow> bool" where
  \<comment> \<open>the generation a restart would load is a well-formed registry with the property\<close>
  "holds_on_disk cs P f b \<longleftrightarrow>
     (\<exists>g. f = snapshot_of cs g \<and> routes_ok g \<and> P g) \<or>
     (f = FMissing \<and> (\<exists>g. b = snapshot_of cs g \<and> routes_ok g \<and> P g)) \<or>
     (f = FMissing \<and> b = FMissing \<and> P fresh_routes)"

definition established :: "checksum_fn \<Rightarrow> (routes \<Rightarrow> bool) \<Rightarrow> routes \<Rightarrow> bool" where
  "established cs P r \<longleftrightarrow> routes_ok r \<and> P r \<and> holds_on_disk cs P (path_file r) (backup_file r)"

definition allowed :: "(target_key \<Rightarrow> bool) \<Rightarrow> route_op \<Rightarrow> bool" where
  "allowed removable op = (case op of Forget _ _ ct cid \<Rightarrow> removable (ct, cid) | _ \<Rightarrow> True)"

lemma reloads_refl [simp]:
  "reloads r (r\<lparr>dirty := b\<rparr>)" "reloads r (r\<lparr>path_file := f\<rparr>)" "reloads r (r\<lparr>backup_file := f\<rparr>)"
  "reloads r (r\<lparr>restored_from_backup := b\<rparr>)" "reloads r (r\<lparr>snapshot_corrupt := b\<rparr>)"
  by (simp_all add: reloads_def)

lemma reloads_trans: "reloads a b \<Longrightarrow> reloads b c \<Longrightarrow> reloads a c"
  unfolding reloads_def by (intro conjI allI) (simp_all, blast)

text \<open>
  What a component needs to rely on a fact about the registry for good: that no bind, no
  reload of a snapshot and no permitted deletion ends it.
\<close>

locale route_fact =
  fixes P :: "routes \<Rightarrow> bool" and removable :: "target_key \<Rightarrow> bool"
  assumes bind: "routes_ok r \<Longrightarrow> P r \<Longrightarrow> P (snd (bind_route q r))"
    and reload: "P a \<Longrightarrow> reloads a b \<Longrightarrow> P b"
    and remove: "routes_ok r \<Longrightarrow> P r \<Longrightarrow> removable tk \<Longrightarrow> P (remove_target tk rid r)"
begin

lemma load_snapshot:
  assumes "routes_ok g" "P g"
  shows "routes_ok (snd (apply_body (canon (routes_body g)) s)) \<and>
     P (snd (apply_body (canon (routes_body g)) s)) \<and>
     path_file (snd (apply_body (canon (routes_body g)) s)) = path_file s \<and>
     backup_file (snd (apply_body (canon (routes_body g)) s)) = backup_file s"
proof -
  obtain r' where "apply_body (routes_body g) s = (True, r')" "reloads g r'" "routes_ok r'"
    "path_file r' = path_file s" "backup_file r' = backup_file s"
    using apply_body_restores [OF assms(1), of s] by blast
  then show ?thesis using reload [OF assms(2)] by (simp add: apply_body_canon)
qed

lemma restart_established:
  assumes "holds_on_disk cs P (path_file r) (backup_file r)"
  shows "established cs P (restart_routes cs r)"
proof -
  let ?n = "new_routes (path_file r) (backup_file r)"
  consider g where "path_file r = snapshot_of cs g" "routes_ok g" "P g"
    | g where "path_file r = FMissing" "backup_file r = snapshot_of cs g" "routes_ok g" "P g"
    | "path_file r = FMissing" "backup_file r = FMissing" "P fresh_routes"
    using assms unfolding holds_on_disk_def by blast
  then show ?thesis
  proof cases
    case (1 g)
    have n: "path_file ?n = snapshot_of cs g" "backup_file ?n = backup_file r"
      by (simp_all add: new_routes_def 1)
    have "restart_routes cs r = snd (apply_body (canon (routes_body g)) ?n)"
      by (simp add: restart_routes_def load_routes_def n read_written)
    then show ?thesis
      using load_snapshot [OF 1(2,3), of ?n] assms 1(1) n by (simp add: established_def)
  next
    case (2 g)
    let ?m = "?n\<lparr>restored_from_backup := True\<rparr>"
    have n: "path_file ?n = FMissing" "backup_file ?n = snapshot_of cs g"
      by (simp_all add: new_routes_def 2)
    have "read_state_document cs (path_file ?n) = Inr (READ_MISSING, JNull)"
      by (simp add: n read_state_document_def)
    then have "restart_routes cs r = snd (apply_body (canon (routes_body g)) ?m)"
      by (simp add: restart_routes_def load_routes_def n read_written)
    then show ?thesis
      using load_snapshot [OF 2(3,4), of ?m] assms 2(1,2) n by (simp add: established_def)
  next
    case 3
    have "restart_routes cs r = ?n"
      by (simp add: restart_routes_def load_routes_def new_routes_def 3 read_state_document_def)
    moreover have "?n = fresh_routes" by (simp add: fresh_routes_def 3)
    moreover have "path_file fresh_routes = FMissing" "backup_file fresh_routes = FMissing"
      "routes_ok fresh_routes"
      by (simp_all add: fresh_routes_def new_routes_def [of FMissing FMissing, symmetric])
        (simp_all add: new_routes_def)
    ultimately show ?thesis using assms 3 by (simp add: established_def)
  qed
qed

lemma restart_preserves:
  "established cs P r \<Longrightarrow> established cs P (restart_routes cs r)"
  by (rule restart_established) (simp add: established_def)

lemma written_established:
  assumes "established cs P r" "path_file r' = snapshot_of cs r" "reloads r r'" "routes_ok r'"
  shows "established cs P r'"
  using assms reload unfolding established_def holds_on_disk_def by blast

lemma moved_established:
  assumes "established cs P r"
  shows "established cs P (move_to_backup r)"
proof (cases "moves_backup r")
  case True
  have "file_exists (path_file r)" using True by (simp add: moves_backup_def)
  then obtain g where "path_file r = snapshot_of cs g" "routes_ok g" "P g"
    using assms unfolding established_def holds_on_disk_def file_exists_def by auto
  moreover have "reloads r (move_to_backup r)"
    using True by (simp add: move_to_backup_def reloads_def)
  moreover have "routes_ok (move_to_backup r)"
    using assms by (simp add: established_def routes_ok_def routes_ok_parts move_to_backup_def)
  ultimately show ?thesis
    using assms reload True unfolding established_def holds_on_disk_def
    by (auto simp: move_to_backup_def)
qed (use assms in \<open>simp add: move_to_backup_def\<close>)

end

lemma routes_body_dirty [simp]: "routes_body (r\<lparr>dirty := b\<rparr>) = routes_body r"
  by (simp add: routes_body_def session_record_def target_record_def session_targets_def fun_eq_iff
      cong: map_cong)

context route_fact
begin

lemma established_dirty [simp]: "established cs P (r\<lparr>dirty := b\<rparr>) = established cs P r"
proof -
  have "P (r\<lparr>dirty := b\<rparr>) = P r"
  proof
    assume "P (r\<lparr>dirty := b\<rparr>)"
    then have "P ((r\<lparr>dirty := b\<rparr>)\<lparr>dirty := dirty r\<rparr>)" by (rule reload) (rule reloads_refl)
    then show "P r" by simp
  qed (rule reload, assumption, rule reloads_refl)
  then show ?thesis by (simp add: established_def)
qed

lemma bind_established: "established cs P r \<Longrightarrow> established cs P (snd (bind_route q r))"
  by (simp add: established_def bind bind_route_ok bind_route_same)

lemma bind_all_established:
  "established cs P r \<Longrightarrow>
   established cs P (snd (bind_all rid plan r)) \<and>
   path_file (snd (bind_all rid plan r)) = path_file r \<and>
   backup_file (snd (bind_all rid plan r)) = backup_file r"
proof (induction rid plan r rule: bind_all.induct)
  case (2 rid p ps r)
  obtain res r1 where b: "bind_route (plan_request rid p) r = (res, r1)" by fastforce
  have r1: "established cs P r1" "path_file r1 = path_file r" "backup_file r1 = backup_file r"
    using bind_established [OF "2.prems", of "plan_request rid p"]
      bind_route_same [of "plan_request rid p" r] b by simp_all
  show ?case
  proof (cases res)
    case (Inr x)
    show ?thesis
      using r1 "2.IH" [OF b [symmetric] Inr _ r1(1)] by (simp add: b Inr)
  qed (simp add: b r1)
qed simp

lemma rollback_established:
  assumes "routes_ok r" "P r" "holds_on_disk cs P (path_file s) (backup_file s)"
  shows "established cs P (snd (apply_body (routes_body r) s))"
proof -
  obtain r' where "apply_body (routes_body r) s = (True, r')" "reloads r r'" "routes_ok r'"
    "path_file r' = path_file s" "backup_file r' = backup_file s"
    using apply_body_restores [OF assms(1), of s] by blast
  then show ?thesis using reload [OF assms(2)] assms(3) by (simp add: established_def)
qed

lemma bind_plan_established:
  assumes "established cs P r"
  shows "established cs P (snd (bind_plan rid plan r))"
proof -
  obtain res r1 where b: "bind_all rid plan r = (res, r1)" by fastforce
  have r1: "established cs P r1" "path_file r1 = path_file r" "backup_file r1 = backup_file r"
    using bind_all_established [OF assms, of rid plan] by (simp_all add: b)
  have "established cs P (snd (apply_body (routes_body r) r1))"
    using assms r1 by (intro rollback_established) (simp_all add: established_def)
  then show ?thesis using r1 by (cases res rule: sum.exhaust) (simp_all add: bind_plan_def b split: bool.splits)
qed

lemma write_snapshot_established:
  assumes "established cs P r"
  shows "case write_snapshot cs fault (routes_body r) r of
      (None, r') \<Rightarrow> holds_on_disk cs P (path_file r') (backup_file r')
    | (Some _, r') \<Rightarrow> established cs P r'"
proof -
  have m: "established cs P (move_to_backup r)" by (rule moved_established [OF assms])
  let ?w = "(move_to_backup r)\<lparr>path_file := snapshot_of cs r\<rparr>"
  let ?w' = "?w\<lparr>restored_from_backup := False, snapshot_corrupt := False\<rparr>"
  have h: "holds_on_disk cs P (snapshot_of cs r) b" for b
    using assms unfolding established_def holds_on_disk_def by blast
  have w: "established cs P ?w'"
  proof (rule written_established [OF assms])
    show "reloads r ?w'" by (simp add: reloads_def move_to_backup_def)
    show "routes_ok ?w'"
      using assms by (simp add: established_def routes_ok_def routes_ok_parts move_to_backup_def)
  qed simp
  show ?thesis
    using assms m w h by (cases fault) (simp_all add: write_snapshot_def Let_def established_def)
qed

lemma flush_established:
  assumes "established cs P r"
  shows "established cs P (revive cs (flush cs fault force r))"
proof -
  obtain res r1 where w: "write_snapshot cs fault (routes_body r) (r\<lparr>dirty := False\<rparr>) = (res, r1)"
    by fastforce
  from write_snapshot_established [of cs "r\<lparr>dirty := False\<rparr>" fault] assms w
  have "case res of None \<Rightarrow> holds_on_disk cs P (path_file r1) (backup_file r1)
      | Some _ \<Rightarrow> established cs P r1"
    by (simp split: option.splits)
  then show ?thesis
    using assms restart_established [of cs r1]
    by (simp add: flush_def w revive_def split: option.splits bool.splits)
qed

lemma forget_established:
  assumes "established cs P r" "removable (ct, cid)"
  shows "established cs P (revive cs (forget_target cs fault rid ct cid r))"
proof (cases "dget (target_routes r) (ct, cid) = Some rid")
  case True
  let ?tk = "(ct, cid)"
  let ?r1 = "remove_target ?tk rid r"
  obtain ss where e: "?r1 =
    r\<lparr>target_routes := dpop ?tk (target_routes r),
           target_sessions := dpop ?tk (target_sessions r),
           target_channel_types := dpop ?tk (target_channel_types r),
           target_wire_ids := dpop ?tk (target_wire_ids r),
           chat_index := drop_holder (snd ?tk) (fst ?tk, rid) (chat_index r),
           session_routes := ss\<rparr>"
    by (rule remove_target_shape)
  have f: "path_file ?r1 = path_file r" "backup_file ?r1 = backup_file r" by (simp_all add: e)
  have r1: "established cs P ?r1"
    using assms remove_target_ok [OF _ True] remove [of r ?tk rid] f by (simp add: established_def)
  obtain res r2 where w: "write_snapshot cs fault (routes_body ?r1) ?r1 = (res, r2)" by fastforce
  from write_snapshot_established [OF r1, of fault] w
  have c: "case res of None \<Rightarrow> holds_on_disk cs P (path_file r2) (backup_file r2)
      | Some _ \<Rightarrow> established cs P r2"
    by (simp split: option.splits)
  have "established cs P (snd (apply_body (routes_body r) r2))" if "established cs P r2"
    using assms that by (intro rollback_established) (simp_all add: established_def)
  then show ?thesis
    using assms(1) c restart_established [of cs r2]
    by (simp add: forget_target_def Let_def True w revive_def split: option.splits bool.splits)
qed (use assms in \<open>simp add: forget_target_def Let_def revive_def\<close>)

theorem survives:
  assumes "established cs P r" "list_all (allowed removable) ops"
  shows "established cs P (run_ops cs ops r)"
  using assms
proof (induction ops arbitrary: r)
  case (Cons op ops)
  have "established cs P (run_op cs op r)"
    using Cons.prems bind_established bind_plan_established flush_established forget_established
      restart_preserves
    by (cases op) (simp_all add: allowed_def)
  from Cons.IH [OF this] Cons.prems(2) show ?case by (simp add: run_ops_def)
qed (simp add: run_ops_def)

lemma flush_establishes:
  assumes "routes_ok r" "P r" "flush cs fault force r = (Some True, r')"
  shows "established cs P r'"
proof -
  have "write_snapshot cs fault (routes_body r) (r\<lparr>dirty := False\<rparr>) = (Some True, r')"
    using assms(3) by (auto simp: flush_def split: if_splits prod.splits option.splits bool.splits)
  then have r': "r' = r\<lparr>dirty := False, backup_file := backup_file r', path_file := snapshot_of cs r,
      restored_from_backup := False, snapshot_corrupt := False\<rparr>"
    by (cases fault) (auto simp: write_snapshot_def move_to_backup_def Let_def split: if_splits)
  have f: "path_file r' = snapshot_of cs r" by (subst r') simp
  have rl: "reloads r r'" by (subst r') (simp add: reloads_def)
  have "routes_ok r'" using assms(1) by (subst r') (simp add: routes_ok_def routes_ok_parts)
  then show ?thesis
    using assms(1,2) reload [OF _ rl] f unfolding established_def holds_on_disk_def by blast
qed

end

section \<open>The facts of the registry that survive\<close>

lemma reloads_fields:
  assumes "reloads a b"
  shows "target_routes b = target_routes a" "session_routes b = session_routes a"
    "set (target_conflicts b) = set (target_conflicts a)"
    "set (session_conflicts b) = set (session_conflicts a)"
  using assms by (simp_all add: reloads_def)

lemma remove_target_same:
  "target_conflicts (remove_target tk rid r) = target_conflicts r"
  "session_conflicts (remove_target tk rid r) = session_conflicts r"
  "target_routes (remove_target tk rid r) = dpop tk (target_routes r)"
  by (rule remove_target_shape [of tk rid r]; simp)+

interpretation well_formed: route_fact "\<lambda>_. True" "\<lambda>_. True"
  by unfold_locales simp_all

interpretation owner: route_fact "\<lambda>r. dget (target_routes r) tk = Some rid" "\<lambda>tk'. tk' \<noteq> tk" for tk rid
  by unfold_locales (simp_all add: bind_route_keeps_owner reloads_fields remove_target_same)

interpretation target_blocked: route_fact "\<lambda>r. tk \<in> set (target_conflicts r)" "\<lambda>_. True" for tk
  by unfold_locales (use bind_route_same in \<open>auto simp: reloads_fields remove_target_same\<close>)

interpretation session_blocked: route_fact "\<lambda>r. k \<in> set (session_conflicts r)" "\<lambda>_. True" for k
  by unfold_locales (use bind_route_same in \<open>auto simp: reloads_fields remove_target_same\<close>)

end
