(* ===== verification/RouteSafety.thy ===== *)
theory RouteSafety
  imports RouteRuns
begin

text \<open>
  What the rest of the plugin relies on in the route registry: stable ownership, permanent
  conflicts, an exact reverse lookup, truthful answers, atomic plans and snapshots that are
  never lost.
\<close>

lemma fresh_established: "P fresh_routes \<Longrightarrow> established cs P fresh_routes"
  by (simp add: established_def holds_on_disk_def fresh_routes_def)
    (simp add: new_routes_def)

lemma run_ops_ok: "routes_ok (run_ops cs ops fresh_routes)"
proof -
  have "list_all (allowed (\<lambda>_. True)) ops" by (simp add: list_all_iff allowed_def split: route_op.split)
  from well_formed.survives [OF fresh_established this] show ?thesis
    by (simp add: established_def)
qed

lemma all_allowed [simp]: "list_all (allowed (\<lambda>_. True)) ops"
  by (simp add: list_all_iff allowed_def split: route_op.split)

definition deletes :: "target_key \<Rightarrow> route_op \<Rightarrow> bool" where
  "deletes tk op = (case op of Forget _ _ ct cid \<Rightarrow> (ct, cid) = tk | _ \<Rightarrow> False)"

lemma allowed_owner: "allowed (\<lambda>tk'. tk' \<noteq> tk) op \<longleftrightarrow> \<not> deletes tk op"
  by (simp add: allowed_def deletes_def split: route_op.split)

text \<open>
  C15. Ownership is first come, for good. Once a target is owned by an identity and the
  snapshot is on disk, then whatever is bound, planned, flushed or restarted afterwards, with
  every write failing or the process dying at any point, the target resolves to that identity
  or to nobody: never to another one. Only the operator's explicit deletion of that very
  target ends this.
\<close>

theorem target_owner_never_changes:
  assumes "r = run_ops cs ops fresh_routes" and "robot_id_for_target r tk = Some rid"
    and "flush cs fault force r = (Some True, r')" and "list_all (\<lambda>op. \<not> deletes tk op) later"
  shows "robot_id_for_target (run_ops cs later r') tk \<in> {Some rid, None}"
proof -
  have "dget (target_routes r) tk = Some rid"
    using assms(2) by (simp add: robot_id_for_target_def split: if_splits)
  with owner.flush_establishes [OF _ this assms(3)] assms(1)
  have "established cs (\<lambda>r. dget (target_routes r) tk = Some rid) r'"
    by (simp add: run_ops_ok)
  from owner.survives [OF this, of later] assms(4)
  have "dget (target_routes (run_ops cs later r')) tk = Some rid"
    by (simp add: established_def list_all_iff allowed_owner)
  then show ?thesis by (simp add: robot_id_for_target_def)
qed

section \<open>The reverse lookup\<close>

lemma singleton_holders:
  assumes "routes_ok r"
  shows "dget_list (chat_index r) cid = [(ct, rid)] \<longleftrightarrow>
     dget (target_routes r) (ct, cid) = Some rid \<and>
     (\<forall>ct'. dget (target_routes r) (ct', cid) \<noteq> None \<longrightarrow> ct' = ct)"
proof -
  let ?hs = "dget_list (chat_index r) cid"
  have ix: "(c, o') \<in> set ?hs \<longleftrightarrow> dget (target_routes r) (c, cid) = Some o'" for c o'
    using assms unfolding routes_ok_def index_ok_def by blast
  have d: "distinct ?hs" using assms unfolding routes_ok_def dicts_ok_def by blast
  have "?hs = [(ct, rid)] \<longleftrightarrow> set ?hs = {(ct, rid)}"
  proof
    assume s: "set ?hs = {(ct, rid)}"
    then have "length ?hs = 1" using d distinct_card [of ?hs] by simp
    then obtain h where "?hs = [h]" by (cases ?hs) auto
    then show "?hs = [(ct, rid)]" using s by simp
  qed simp
  also have "\<dots> \<longleftrightarrow> (\<forall>c o'. (c, o') \<in> set ?hs \<longleftrightarrow> (c, o') = (ct, rid))" by auto
  also have "\<dots> \<longleftrightarrow> dget (target_routes r) (ct, cid) = Some rid \<and>
      (\<forall>ct'. dget (target_routes r) (ct', cid) \<noteq> None \<longrightarrow> ct' = ct)"
    unfolding ix by auto
  finally show ?thesis .
qed

lemma lookup_chat_id_iff:
  assumes "routes_ok r"
  shows "lookup_chat_id r cid = Some l \<longleftrightarrow>
     dget (target_routes r) (tl_chat_type l, cid) = Some (tl_robot_id l) \<and>
     (\<forall>ct. dget (target_routes r) (ct, cid) \<noteq> None \<longrightarrow> ct = tl_chat_type l) \<and>
     (tl_chat_type l, cid) \<notin> set (target_conflicts r) \<and>
     dget (target_channel_types r) (tl_chat_type l, cid) = Some (tl_channel_type l) \<and>
     dget (target_wire_ids r) (tl_chat_type l, cid) = Some (tl_wire_chat_id l)"
proof (cases "\<exists>ct rid. dget_list (chat_index r) cid = [(ct, rid)]")
  case True
  then obtain ct rid where h: "dget_list (chat_index r) cid = [(ct, rid)]" by blast
  note s = singleton_holders [OF assms, of cid ct rid, THEN iffD1, OF h]
  have "lookup_chat_id r cid = Some l \<longleftrightarrow> (tl_chat_type l, tl_robot_id l) = (ct, rid) \<and>
     (ct, cid) \<notin> set (target_conflicts r) \<and>
     dget (target_channel_types r) (ct, cid) = Some (tl_channel_type l) \<and>
     dget (target_wire_ids r) (ct, cid) = Some (tl_wire_chat_id l)"
    by (cases l) (auto simp: lookup_chat_id_def h Let_def split: option.splits)
  then show ?thesis using s by auto
next
  case False
  then have "lookup_chat_id r cid = None"
    by (auto simp: lookup_chat_id_def split: list.splits prod.splits)
  moreover have "\<not> (dget (target_routes r) (tl_chat_type l, cid) = Some (tl_robot_id l) \<and>
     (\<forall>ct. dget (target_routes r) (ct, cid) \<noteq> None \<longrightarrow> ct = tl_chat_type l))"
    using False singleton_holders [OF assms] by blast
  ultimately show ?thesis by auto
qed

text \<open>
  C17. In every state the registry can reach, a send by chat id alone resolves exactly when one
  chat type owns that id, that target has no conflict, and its channel type and wire id are
  known, and then to the recorded owner; two owners of one chat id never resolve. And the two
  tables stay within their capacity.
\<close>

theorem lookup_chat_id_exact:
  fixes cs and ops
  defines "r \<equiv> run_ops cs ops fresh_routes"
  shows "(lookup_chat_id r cid = Some l \<longleftrightarrow>
      dget (target_routes r) (tl_chat_type l, cid) = Some (tl_robot_id l) \<and>
      (\<forall>ct. dget (target_routes r) (ct, cid) \<noteq> None \<longrightarrow> ct = tl_chat_type l) \<and>
      \<not> target_conflict r (tl_chat_type l, cid) \<and>
      dget (target_channel_types r) (tl_chat_type l, cid) = Some (tl_channel_type l) \<and>
      dget (target_wire_ids r) (tl_chat_type l, cid) = Some (tl_wire_chat_id l)) \<and>
    route_count r \<le> MAX_PERSISTED_ROUTES \<and> session_count r \<le> MAX_PERSISTED_ROUTES"
  using run_ops_ok [of cs ops] lookup_chat_id_iff [OF run_ops_ok [of cs ops], of cid l]
  by (simp add: r_def routes_ok_def bounds_ok_def route_count_def session_count_def target_conflict_def)

text \<open>
  C16. A conflict fails closed, for good. Once two identities have claimed a target or a session
  and the snapshot is on disk, then after any operations, failures and restarts the target
  resolves to nobody, directly and by chat id, and no bind of it succeeds; likewise the
  session.
\<close>

theorem conflicts_are_permanent:
  assumes "r = run_ops cs ops fresh_routes" and "flush cs fault force r = (Some True, r')"
    and "s = run_ops cs later r'"
  shows "(target_conflict r tk \<longrightarrow>
      robot_id_for_target s tk = None \<and>
      (\<forall>l. lookup_chat_id s (snd tk) = Some l \<longrightarrow> tl_chat_type l \<noteq> fst tk) \<and>
      (\<forall>q. q_target q = tk \<longrightarrow> fst (bind_route q s) \<notin> {Inr Bound, Inr Idempotent, Inr Capacity})) \<and>
    (session_conflict r k \<longrightarrow>
      robot_id_for_session s k = None \<and>
      (\<forall>q. q_session q = Some k \<longrightarrow> fst (bind_route q s) \<notin> {Inr Bound, Inr Idempotent, Inr Capacity}))"
proof (intro conjI impI)
  have ok: "routes_ok r" using assms(1) run_ops_ok by simp
  {
    assume "target_conflict r tk"
    then have "tk \<in> set (target_conflicts r)" by (simp add: target_conflict_def)
    from target_blocked.flush_establishes [OF ok this assms(2)]
    have "established cs (\<lambda>r. tk \<in> set (target_conflicts r)) r'" .
    from target_blocked.survives [OF this, of later]
    have t: "tk \<in> set (target_conflicts s)" "routes_ok s"
      unfolding assms(3) established_def by simp_all
    then show "robot_id_for_target s tk = None" by (simp add: robot_id_for_target_def)
    show "\<forall>l. lookup_chat_id s (snd tk) = Some l \<longrightarrow> tl_chat_type l \<noteq> fst tk"
      using t lookup_chat_id_iff [OF t(2)] by auto
    show "\<forall>q. q_target q = tk \<longrightarrow> fst (bind_route q s) \<notin> {Inr Bound, Inr Idempotent, Inr Capacity}"
      using t(1) by (auto simp: bind_route_def bind_locked_def Let_def split: option.splits)
  }
  assume "session_conflict r k"
  then have "k \<in> set (session_conflicts r)" by (simp add: session_conflict_def)
  from session_blocked.flush_establishes [OF ok this assms(2)]
  have "established cs (\<lambda>r. k \<in> set (session_conflicts r)) r'" .
  from session_blocked.survives [OF this, of later]
  have t: "k \<in> set (session_conflicts s)" unfolding assms(3) established_def by simp
  then show "robot_id_for_session s k = None" by (simp add: robot_id_for_session_def)
  show "\<forall>q. q_session q = Some k \<longrightarrow> fst (bind_route q s) \<notin> {Inr Bound, Inr Idempotent, Inr Capacity}"
    using t by (auto simp: bind_route_def bind_locked_def Let_def split: option.splits)
qed

section \<open>The answers of a bind\<close>

lemma linked_session:
  assumes "q_session q = Some k"
  shows "dget (session_routes (link_session q r)) k = Some (q_robot_id q)"
  by (simp add: link_session_def assms Let_def)

lemma link_session_wire [simp]: "target_wire_ids (link_session q r) = target_wire_ids r"
  using evict_sessions_same by (auto simp: link_session_def Let_def split: option.splits)

lemma bind_locked_success:
  assumes "bind_locked q r = (b, r')" "b = Bound \<or> b = Idempotent"
  shows "dget (target_routes r') (q_target q) = Some (q_robot_id q) \<and>
     (\<forall>k. q_session q = Some k \<longrightarrow> dget (session_routes r') k = Some (q_robot_id q) \<and>
        k \<notin> set (session_conflicts r')) \<and>
     (\<forall>w. q_wire q = Some w \<longrightarrow> dget (target_wire_ids r') (q_target q) = Some w) \<and>
     target_conflicts r' = target_conflicts r \<and> session_conflicts r' = session_conflicts r \<and>
     q_target q \<notin> set (target_conflicts r')"
proof -
  let ?tk = "q_target q"
  have g: "\<not> (case q_session q of None \<Rightarrow> False | Some k \<Rightarrow> k \<in> set (session_conflicts r))"
    "?tk \<notin> set (target_conflicts r)"
    "\<not> (case q_session q of None \<Rightarrow> False | Some k \<Rightarrow> owned_by_other (session_routes r) k (q_robot_id q))"
    "\<not> owned_by_other (target_routes r) ?tk (q_robot_id q)" "\<not> wire_conflict q r"
    using assms by (auto simp: bind_locked_def Let_def split: if_splits)
  consider
      "dget (target_routes r) ?tk \<noteq> None"
      "case q_session q of None \<Rightarrow> True | Some k \<Rightarrow> dget (session_routes r) k \<noteq> None"
      "r' = (if q_wire q \<noteq> None \<and> dget (target_wire_ids r) ?tk = None
             then (note_wire q r)\<lparr>dirty := True\<rparr> else r)"
    | "r' = (link_session q (note_wire q (add_target q r)))\<lparr>dirty := True\<rparr>"
    using assms g by (auto simp: bind_locked_def Let_def split: if_splits)
  then show ?thesis
  proof cases
    case 1
    have t: "dget (target_routes r) ?tk = Some (q_robot_id q)"
      using 1(1) g(4) by (auto simp: owned_by_other_def)
    have s: "dget (session_routes r) k = Some (q_robot_id q) \<and> k \<notin> set (session_conflicts r)"
      if "q_session q = Some k" for k
      using 1(2) g(1,3) that by (auto simp: owned_by_other_def)
    have w: "dget (target_wire_ids r) ?tk = Some w'"
      if "q_wire q = Some w'" "dget (target_wire_ids r) ?tk \<noteq> None" for w'
      using g(5) 1(1) that by (auto simp: wire_conflict_def)
    have nw: "dget (target_wire_ids (note_wire q r)) ?tk = Some w'" if "q_wire q = Some w'" for w'
      using that by (simp add: note_wire_def)
    show ?thesis using t s w nw g(2) unfolding 1(3) by (auto simp: note_wire_same)
  next
    case 2
    have "dget (target_routes (add_target q r)) ?tk = Some (q_robot_id q)"
      using g(4) by (auto simp: add_target_def owned_by_other_def split: option.splits)
    moreover have "dget (target_wire_ids (note_wire q (add_target q r))) ?tk = Some w" if "q_wire q = Some w" for w
      using that by (simp add: note_wire_def)
    ultimately show ?thesis
      using g(1,2) linked_session unfolding 2
      by (auto simp: link_session_same note_wire_same add_target_same)
  qed
qed

lemma bind_locked_conflict:
  assumes "b = Conflict" "bind_locked q r = (b, r')"
  shows "q_target q \<in> set (target_conflicts r') \<or>
     (\<exists>k. q_session q = Some k \<and> k \<in> set (session_conflicts r'))"
proof (cases "q_session q")
  case None
  then show ?thesis
    using assms unfolding bind_locked_def Let_def conflict_target_def by (simp split: if_split_asm) auto
next
  case (Some k)
  have c: "Conflict \<noteq> Bound" "Conflict \<noteq> Idempotent" "Conflict \<noteq> Capacity" by simp_all
  show ?thesis
    using assms unfolding bind_locked_def Let_def conflict_target_def Some option.case option.sel
    by (simp split: if_split_asm add: Some) auto
qed

text \<open>
  C18. The answer of a bind is the truth: after \<open>bound\<close> or \<open>idempotent\<close> the target resolves to
  the caller, so does the session if one was named, and the wire id is the one given; after
  \<open>conflict\<close> the target or the session resolves to nobody; \<open>capacity\<close> is the answer only for a
  new target when the table is full, and changes nothing; an invalid request changes nothing.
\<close>

theorem bind_answers_truly:
  "case bind_route q r of
     (Inl e, r') \<Rightarrow> check_request q = Some e \<and> r' = r
   | (Inr Conflict, r') \<Rightarrow>
       robot_id_for_target r' (q_target q) = None \<or>
       (\<exists>k. q_session q = Some k \<and> robot_id_for_session r' k = None)
   | (Inr Capacity, r') \<Rightarrow>
       r' = r \<and> capacity_exhausted r \<and> robot_id_for_target r (q_target q) = None
   | (Inr _, r') \<Rightarrow>
       robot_id_for_target r' (q_target q) = Some (q_robot_id q) \<and>
       (\<forall>k. q_session q = Some k \<longrightarrow> robot_id_for_session r' k = Some (q_robot_id q)) \<and>
       (\<forall>w. q_wire q = Some w \<longrightarrow> dget (target_wire_ids r') (q_target q) = Some w)"
proof (cases "check_request q")
  case None
  obtain b r' where b: "bind_locked q r = (b, r')" by fastforce
  have nk: "k \<noteq> []" if "q_session q = Some k" for k
    using that by (auto simp: q_session_def split: option.splits if_splits)
  show ?thesis
  proof (cases "b = Bound \<or> b = Idempotent")
    case True
    with bind_locked_success [OF b True] nk show ?thesis
      by (auto simp: bind_route_def None b robot_id_for_target_def robot_id_for_session_def)
  next
    case False
    then consider "b = Conflict" | "b = Capacity" by (cases b) auto
    then show ?thesis
    proof cases
      case 1
      then have "q_target q \<in> set (target_conflicts r') \<or>
          (\<exists>k. q_session q = Some k \<and> k \<in> set (session_conflicts r'))"
        using b by (rule bind_locked_conflict)
      then have c: "robot_id_for_target r' (q_target q) = None \<or>
          (\<exists>k. q_session q = Some k \<and> robot_id_for_session r' k = None)"
        by (elim disjE exE conjE) (simp_all add: robot_id_for_target_def robot_id_for_session_def)
      have "bind_route q r = (Inr Conflict, r')" by (simp add: bind_route_def None b 1)
      then show ?thesis using c by (simp only: prod.case sum.case bind_result.case)
    next
      case 2
      then have "r' = r \<and> MAX_PERSISTED_ROUTES \<le> length (target_routes r) \<and>
          dget (target_routes r) (q_target q) = None"
        using b unfolding bind_locked_def Let_def by (simp split: if_split_asm)
      then show ?thesis
        by (simp add: bind_route_def None b 2 robot_id_for_target_def capacity_exhausted_def)
    qed
  qed
qed (simp add: bind_route_def)

section \<open>Plans\<close>

definition plan_target :: "planned_route \<Rightarrow> target_key" where
  "plan_target p = (pr_chat_type p, pr_chat_id p)"

lemma bind_all_true:
  assumes "bind_all rid plan r = (Inr True, r')" "p \<in> set plan"
  shows "robot_id_for_target r' (plan_target p) = Some rid"
proof -
  have "set (target_conflicts r') = set (target_conflicts r) \<and>
      (\<forall>tk o'. dget (target_routes r) tk = Some o' \<longrightarrow> dget (target_routes r') tk = Some o') \<and>
      (\<forall>p \<in> set plan. dget (target_routes r') (plan_target p) = Some rid \<and>
         plan_target p \<notin> set (target_conflicts r'))"
    using assms(1)
  proof (induction rid plan r rule: bind_all.induct)
    case (2 rid p ps r)
    let ?q = "plan_request rid p"
    obtain b r1 where b: "bind_route ?q r = (Inr b, r1)" and nb: "b \<noteq> Conflict" "b \<noteq> Capacity"
      and rest: "bind_all rid ps r1 = (Inr True, r')"
      using "2.prems" by (auto split: prod.splits sum.splits if_splits)
    have l: "bind_locked ?q r = (b, r1)"
      using b by (auto simp: bind_route_def split: option.splits prod.splits)
    have "b = Bound \<or> b = Idempotent" using nb by (cases b) auto
    note s = bind_locked_success [OF l this]
    have q: "q_target ?q = plan_target p" "q_robot_id ?q = rid"
      by (simp_all add: plan_request_def q_target_def plan_target_def)
    have keep: "dget (target_routes r) tk = Some o' \<Longrightarrow> dget (target_routes r1) tk = Some o'" for tk o'
      using bind_route_keeps_owner [of r tk o' ?q] by (simp add: b)
    show ?case
      using "2.IH" [OF b [symmetric] refl _ rest] nb s q keep by auto
  qed simp
  then have "dget (target_routes r') (plan_target p) = Some rid" "plan_target p \<notin> set (target_conflicts r')"
    using assms(2) by blast+
  then show ?thesis by (simp add: robot_id_for_target_def)
qed

lemma bind_all_error:
  assumes "bind_all rid plan r = (Inl e, r')"
  shows "\<exists>bound p rest. plan = bound @ p # rest \<and> check_request (plan_request rid p) = Some e \<and>
    bind_all rid bound r = (Inr True, r')"
  using assms
proof (induction rid plan r rule: bind_all.induct)
  case (2 rid p ps r)
  show ?case
  proof (cases "check_request (plan_request rid p)")
    case (Some e')
    then have "bind_route (plan_request rid p) r = (Inl e', r)" by (simp add: bind_route_def)
    then show ?thesis using "2.prems" Some by (auto intro: exI [of _ "[]"])
  next
    case None
    then obtain b r1 where b: "bind_route (plan_request rid p) r = (Inr b, r1)"
      by (cases "bind_locked (plan_request rid p) r") (auto simp: bind_route_def)
    then have nb: "\<not> (b = Conflict \<or> b = Capacity)" "bind_all rid ps r1 = (Inl e, r')"
      using "2.prems" by (auto split: if_splits)
    from "2.IH" [OF b [symmetric] refl _ nb(2)] nb(1) obtain bound q rest where
      "ps = bound @ q # rest" "check_request (plan_request rid q) = Some e" "bind_all rid bound r1 = (Inr True, r')"
      by blast
    then show ?thesis using b nb(1) by (intro exI [of _ "p # bound"] exI [of _ q] exI [of _ rest]) simp
  qed
qed simp

lemma bind_all_files:
  "path_file (snd (bind_all rid plan r)) = path_file r \<and>
   backup_file (snd (bind_all rid plan r)) = backup_file r"
proof (induction rid plan r rule: bind_all.induct)
  case (2 rid p ps r)
  show ?case
    using "2.IH" bind_route_same [of "plan_request rid p" r]
    by (cases "bind_route (plan_request rid p) r") (auto split: sum.splits)
qed simp

definition answers where
  "answers r = (robot_id_for_session r, robot_id_for_target r, lookup_chat_id r,
     session_conflict r, target_conflict r)"

lemma reloads_answers:
  assumes "reloads a b" "routes_ok a" "routes_ok b"
  shows "answers b = answers a"
proof -
  note f = reloads_fields [OF assms(1)]
  have w: "dget (target_channel_types b) = dget (target_channel_types a)"
    "dget (target_wire_ids b) = dget (target_wire_ids a)"
    using assms(1) by (simp_all add: reloads_def)
  have "lookup_chat_id b cid = Some l \<longleftrightarrow> lookup_chat_id a cid = Some l" for cid l
    unfolding lookup_chat_id_iff [OF assms(2)] lookup_chat_id_iff [OF assms(3)] f w by (rule refl)
  then have "lookup_chat_id b cid = lookup_chat_id a cid" for cid
    by (metis option.exhaust)
  then show ?thesis
    by (auto simp: answers_def fun_eq_iff robot_id_for_session_def robot_id_for_target_def
        session_conflict_def target_conflict_def f)
qed

text \<open>
  C19. Binding a migration plan is atomic as far as it meets no malformed route: when it succeeds
  every target of the plan resolves to the identity; when it meets a conflict or a full table, every
  lookup answers as before, no conflict is left behind, and nothing is marked as changed. A route
  that \<open>bind\<close> rejects as malformed raises, and then the routes before it stay bound: there is no
  roll back in that case.
\<close>

theorem bind_plan_is_atomic:
  assumes "r = run_ops cs ops fresh_routes"
  shows "case bind_plan rid plan r of
      (Inl e, r') \<Rightarrow> \<exists>bound p rest. plan = bound @ p # rest \<and> check_request (plan_request rid p) = Some e \<and>
        bind_plan rid bound r = (Inr True, r') \<and>
        (\<forall>p \<in> set bound. robot_id_for_target r' (pr_chat_type p, pr_chat_id p) = Some rid)
    | (Inr True, r') \<Rightarrow> \<forall>p \<in> set plan. robot_id_for_target r' (pr_chat_type p, pr_chat_id p) = Some rid
    | (Inr False, r') \<Rightarrow> answers r' = answers r \<and> dirty r' = dirty r \<and>
        path_file r' = path_file r \<and> backup_file r' = backup_file r"
proof -
  have ok: "routes_ok r" using assms run_ops_ok by simp
  obtain res r1 where b: "bind_all rid plan r = (res, r1)" by fastforce
  obtain r' where r': "apply_body (routes_body r) r1 = (True, r')" "reloads r r'" "routes_ok r'"
    "path_file r' = path_file r1" "backup_file r' = backup_file r1"
    using apply_body_restores [OF ok, of r1] by blast
  have a: "answers (r'\<lparr>dirty := d\<rparr>) = answers r" for d
  proof -
    have "answers (r'\<lparr>dirty := d\<rparr>) = answers r'"
      by (rule reloads_answers) (simp_all add: r'(3))
    also have "\<dots> = answers r" by (rule reloads_answers [OF r'(2) ok r'(3)])
    finally show ?thesis .
  qed
  have f: "path_file r1 = path_file r" "backup_file r1 = backup_file r"
    using bind_all_files [of rid plan r] by (simp_all add: b)
  show ?thesis
  proof (cases res)
    case (Inl e)
    with b obtain bound p rest where e: "plan = bound @ p # rest" "check_request (plan_request rid p) = Some e"
      "bind_all rid bound r = (Inr True, r1)" using bind_all_error by blast
    moreover have "bind_plan rid bound r = (Inr True, r1)" "bind_plan rid plan r = (Inl e, r1)"
      using e(3) b Inl by (simp_all add: bind_plan_def)
    ultimately show ?thesis using bind_all_true [OF e(3)] by (auto simp: plan_target_def)
  next
    case (Inr x)
    with b a f r' bind_all_true [of rid plan r r1] show ?thesis
      by (cases x) (auto simp: bind_plan_def plan_target_def)
  qed
qed

section \<open>Interrupted snapshots\<close>

lemma restart_snapshot:
  assumes "routes_ok g" "path_file r = snapshot_of cs g \<or>
      path_file r = FMissing \<and> backup_file r = snapshot_of cs g"
  shows "answers (restart_routes cs r) = answers g"
proof -
  have "\<exists>s. restart_routes cs r = snd (apply_body (canon (routes_body g)) s)"
  proof (cases "path_file r = snapshot_of cs g")
    case True
    then show ?thesis
      by (intro exI) (simp add: restart_routes_def load_routes_def new_routes_def read_written)
  next
    case False
    then have "path_file r = FMissing" "backup_file r = snapshot_of cs g" using assms(2) by auto
    moreover have "read_state_document cs FMissing = Inr (READ_MISSING, JNull)"
      by (simp add: read_state_document_def)
    ultimately show ?thesis
      by (intro exI) (simp add: restart_routes_def load_routes_def new_routes_def read_written)
  qed
  then obtain s where s: "restart_routes cs r = snd (apply_body (routes_body g) s)"
    by (auto simp: apply_body_canon)
  obtain r' where "apply_body (routes_body g) s = (True, r')" "reloads g r'" "routes_ok r'"
    using apply_body_restores [OF assms(1), of s] by blast
  then show ?thesis using reloads_answers [OF _ assms(1)] by (simp add: s)
qed

lemma flush_files:
  assumes "flush cs fault force r = (res, r')"
  shows "path_file r' = snapshot_of cs r \<or>
     res \<noteq> Some True \<and> path_file r' = path_file r \<and> backup_file r' = backup_file r \<or>
     res \<noteq> Some True \<and> moves_backup r \<and> path_file r' = FMissing \<and> backup_file r' = path_file r"
proof (cases "\<not> dirty r \<and> \<not> force")
  case False
  let ?r = "r\<lparr>dirty := False\<rparr>"
  obtain x r1 where w: "write_snapshot cs fault (routes_body r) ?r = (x, r1)" by fastforce
  have mv: "moves_backup ?r = moves_backup r" by (simp add: moves_backup_def)
  have "path_file r1 = snapshot_of cs r \<or>
     x \<noteq> Some True \<and> path_file r1 = path_file r \<and> backup_file r1 = backup_file r \<or>
     x \<noteq> Some True \<and> moves_backup r \<and> path_file r1 = FMissing \<and> backup_file r1 = path_file r"
    using w by (cases fault) (auto simp: write_snapshot_def move_to_backup_def Let_def mv split: if_splits)
  moreover have "res = x" "path_file r' = path_file r1" "backup_file r' = backup_file r1"
    using assms False by (auto simp: flush_def w split: option.splits bool.splits)
  ultimately show ?thesis by simp
qed (use assms in \<open>auto simp: flush_def\<close>)

text \<open>
  C20. However the write of a snapshot ends -- it returns, it raises, or the process dies before,
  between or after the two renames -- a restart answers every lookup either as the registry
  did at its last restart point or as it did when the write began; and as the latter when the
  write reported success.
\<close>

theorem snapshot_is_never_lost:
  assumes "r = run_ops cs ops fresh_routes" and "flush cs fault force r = (res, r')"
  shows "answers (restart_routes cs r') \<in> {answers (restart_routes cs r), answers r} \<and>
    (res = Some True \<longrightarrow> answers (restart_routes cs r') = answers r)"
proof -
  have e: "established cs (\<lambda>_. True) r"
    unfolding assms(1) by (rule well_formed.survives [OF fresh_established]) simp_all
  then have ok: "routes_ok r" by (simp add: established_def)
  have files: "restart_routes cs a = restart_routes cs b"
    if "path_file a = path_file b" "backup_file a = backup_file b" for a b
    using that by (simp add: restart_routes_def)
  have written: "answers (restart_routes cs r') = answers r" if "path_file r' = snapshot_of cs r"
    using restart_snapshot [OF ok] that by blast
  have moved: "answers (restart_routes cs r') = answers (restart_routes cs r)"
    if "moves_backup r" "path_file r' = FMissing" "backup_file r' = path_file r"
  proof -
    have "path_file r \<noteq> FMissing" using that(1) by (simp add: moves_backup_def file_exists_def)
    then obtain g where "path_file r = snapshot_of cs g" "routes_ok g"
      using e unfolding established_def holds_on_disk_def by blast
    then show ?thesis using restart_snapshot [of g r cs] restart_snapshot [of g r' cs] that by simp
  qed
  from flush_files [OF assms(2)] written moved files [of r' r] show ?thesis by auto
qed

definition sample_bind :: "string \<Rightarrow> bind_request" where
  "sample_bind rid =
     \<lparr>q_robot_id = rid, q_session_key = Some ''s1'', q_chat_type = ''group'', q_chat_id = ''g1'',
      q_channel_type = 2, q_wire_chat_id = None, q_wire_known = True\<rparr>"

definition sample_routes :: routes where
  "sample_routes = run_ops (\<lambda>_. ''sum'') [Bind (sample_bind ''bot_1'')] fresh_routes"

definition sample_contested :: routes where
  "sample_contested =
     run_ops (\<lambda>_. ''sum'') [Bind (sample_bind ''bot_1''), Bind (sample_bind ''bot_2'')] fresh_routes"

lemma sample_flush: "flush cs SnapOk True r = (Some True, snd (flush cs SnapOk True r))"
  by (simp add: flush_def write_snapshot_def Let_def)

theorem target_owner_never_changes_witness:
  "robot_id_for_target sample_routes (''group'', ''g1'') = Some ''bot_1'' \<and>
   robot_id_for_target
     (run_ops (\<lambda>_. ''sum'') [Bind (sample_bind ''bot_2''), Flush DiesAfterMove False]
        (snd (flush (\<lambda>_. ''sum'') SnapOk True sample_routes))) (''group'', ''g1'')
     \<in> {Some ''bot_1'', None}"
proof
  show o: "robot_id_for_target sample_routes (''group'', ''g1'') = Some ''bot_1''" by code_simp
  show "robot_id_for_target
     (run_ops (\<lambda>_. ''sum'') [Bind (sample_bind ''bot_2''), Flush DiesAfterMove False]
        (snd (flush (\<lambda>_. ''sum'') SnapOk True sample_routes))) (''group'', ''g1'')
     \<in> {Some ''bot_1'', None}"
    by (rule target_owner_never_changes [OF sample_routes_def o sample_flush]) (simp add: deletes_def)
qed

theorem conflicts_are_permanent_witness:
  "target_conflict sample_contested (''group'', ''g1'') \<and>
   robot_id_for_target
     (run_ops (\<lambda>_. ''sum'') [Restart, Bind (sample_bind ''bot_1'')]
        (snd (flush (\<lambda>_. ''sum'') SnapOk True sample_contested))) (''group'', ''g1'') = None"
proof
  show c: "target_conflict sample_contested (''group'', ''g1'')" by code_simp
  from conflicts_are_permanent [OF sample_contested_def sample_flush refl] c
  show "robot_id_for_target
     (run_ops (\<lambda>_. ''sum'') [Restart, Bind (sample_bind ''bot_1'')]
        (snd (flush (\<lambda>_. ''sum'') SnapOk True sample_contested))) (''group'', ''g1'') = None"
    by blast
qed

theorem lookup_chat_id_exact_witness:
  "lookup_chat_id sample_routes ''g1'' =
     Some \<lparr>tl_chat_type = ''group'', tl_channel_type = 2, tl_robot_id = ''bot_1'',
           tl_wire_chat_id = ''g1''\<rparr>"
proof -
  have "dget (target_routes sample_routes) (''group'', ''g1'') = Some ''bot_1''"
    "\<not> target_conflict sample_routes (''group'', ''g1'')"
    "dget (target_channel_types sample_routes) (''group'', ''g1'') = Some 2"
    "dget (target_wire_ids sample_routes) (''group'', ''g1'') = Some ''g1''"
    by code_simp+
  moreover have "target_routes sample_routes = [((''group'', ''g1''), ''bot_1'')]" by code_simp
  ultimately show ?thesis
    using lookup_chat_id_exact [of "\<lambda>_. ''sum''" "[Bind (sample_bind ''bot_1'')]" "''g1''"
        "\<lparr>tl_chat_type = ''group'', tl_channel_type = 2, tl_robot_id = ''bot_1'',
           tl_wire_chat_id = ''g1''\<rparr>", folded sample_routes_def]
    by (auto split: if_splits)
qed

theorem bind_answers_truly_witness:
  "case bind_route (sample_bind ''bot_2'') sample_routes of
     (Inr b, r') \<Rightarrow> b = Conflict \<and>
       (robot_id_for_target r' (''group'', ''g1'') = None \<or> robot_id_for_session r' ''s1'' = None)
   | _ \<Rightarrow> False"
proof -
  have b: "fst (bind_route (sample_bind ''bot_2'') sample_routes) = Inr Conflict" by code_simp
  have q: "q_target (sample_bind ''bot_2'') = (''group'', ''g1'')"
    "q_session (sample_bind ''bot_2'') = Some ''s1''" by (simp_all add: sample_bind_def q_target_def q_session_def)
  obtain r' where r': "bind_route (sample_bind ''bot_2'') sample_routes = (Inr Conflict, r')"
    using b by (metis prod.collapse)
  from bind_answers_truly [of "sample_bind ''bot_2''" sample_routes] show ?thesis
    by (simp add: r' q)
qed

definition sample_plan :: "planned_route list" where
  "sample_plan =
     [\<lparr>pr_session_key = ''s2'', pr_chat_type = ''group'', pr_chat_id = ''g2'', pr_channel_type = 2\<rparr>,
      \<lparr>pr_session_key = ''s1'', pr_chat_type = ''group'', pr_chat_id = ''g1'', pr_channel_type = 2\<rparr>]"

theorem bind_plan_is_atomic_witness:
  "fst (bind_plan ''bot_2'' sample_plan sample_routes) = Inr False \<and>
   answers (snd (bind_plan ''bot_2'' sample_plan sample_routes)) = answers sample_routes"
proof
  show f: "fst (bind_plan ''bot_2'' sample_plan sample_routes) = Inr False" by code_simp
  from bind_plan_is_atomic [OF sample_routes_def, where plan = sample_plan and rid = "''bot_2''"] f
  show "answers (snd (bind_plan ''bot_2'' sample_plan sample_routes)) = answers sample_routes"
    by (auto split: prod.splits)
qed

theorem snapshot_is_never_lost_witness:
  "answers (restart_routes (\<lambda>_. ''sum'') (snd (flush (\<lambda>_. ''sum'') SnapOk True sample_routes))) =
   answers sample_routes"
  using snapshot_is_never_lost [OF sample_routes_def sample_flush] by blast

end
