(* ===== verification/IdentityState.thy ===== *)
theory IdentityState
  imports RouteSafety
begin

text \<open>
  Models the durable identity state of \<open>identity.py\<close>: \<open>IdentityMetadata\<close> (which phase of
  identity routing a profile is in), the frozen migration plan, and \<open>IdentityStateStore\<close>,
  which decides before anything is received whether listeners may start.

  An operation is an action on the store: it ends with a value, with an exception, or because
  the process died, and in each case leaves the files as they are at that point. Where the
  writes of an operation fail or die is the argument \<open>id_faults\<close>; no operation writes one
  document twice.
\<close>

section \<open>Metadata and planned routes\<close>

definition PHASE_SINGLE :: string where "PHASE_SINGLE = ''single''"
definition PHASE_PENDING :: string where "PHASE_PENDING = ''pending''"
definition PHASE_MIGRATED :: string where "PHASE_MIGRATED = ''migrated''"
definition PHASES :: "string list" where "PHASES = [PHASE_SINGLE, PHASE_PENDING, PHASE_MIGRATED]"

datatype id_error =
    StateError string     \<comment> \<open>\<open>IdentityStateError\<close>\<close>
  | IoError               \<comment> \<open>\<open>OSError\<close>\<close>
  | TextError             \<comment> \<open>\<open>UnicodeDecodeError\<close>, a \<open>ValueError\<close>\<close>
  | TypeErr               \<comment> \<open>\<open>TypeError\<close>: an unhashable or non-iterable value\<close>
  | SnapshotError         \<comment> \<open>what left \<open>routes.load\<close>: a \<open>UnicodeDecodeError\<close> or a \<open>TypeError\<close>\<close>
  | BindError route_error \<comment> \<open>\<open>ValueError\<close> of \<open>bind\<close>\<close>

record identity_metadata =
  md_phase :: string
  md_legacy_robot_id :: string
  md_plan_size :: nat

definition metadata_to_body :: "identity_metadata \<Rightarrow> json" where
  "metadata_to_body m =
     JObj [(''phase'', JStr (md_phase m)), (''legacy_robot_id'', JStr (md_legacy_robot_id m)),
           (''plan_size'', JInt (int (md_plan_size m)))]"

definition metadata_from_body :: "json \<Rightarrow> id_error + identity_metadata" where
  "metadata_from_body body =
     (case body of
        JObj d \<Rightarrow>
          (case jget d ''phase'' of
             JArr _ \<Rightarrow> Inl TypeErr
           | JObj _ \<Rightarrow> Inl TypeErr
           | JStr phase \<Rightarrow>
               if phase \<notin> set PHASES then Inl (StateError ''identity metadata phase is unknown'')
               else
                 (let legacy = jget d ''legacy_robot_id'';
                      size = (case map_of d ''plan_size'' of None \<Rightarrow> JInt 0 | Some v \<Rightarrow> v) in
                  if jtruthy legacy \<and> \<not> valid_robot_id legacy
                  then Inl (StateError ''identity metadata legacy id is malformed'')
                  else (case size of
                          JInt n \<Rightarrow>
                            if n < 0 then Inl (StateError ''identity metadata plan size is malformed'')
                            else Inr \<lparr>md_phase = phase,
                                      md_legacy_robot_id = (if jtruthy legacy then text_of legacy else []),
                                      md_plan_size = nat n\<rparr>
                        | _ \<Rightarrow> Inl (StateError ''identity metadata plan size is malformed'')))
           | _ \<Rightarrow> Inl (StateError ''identity metadata phase is unknown''))
      | _ \<Rightarrow> Inl (StateError ''identity metadata is not an object''))"

definition planned_to_body :: "planned_route \<Rightarrow> json" where
  "planned_to_body p =
     JObj [(''session_key'', JStr (pr_session_key p)), (''chat_type'', JStr (pr_chat_type p)),
           (''chat_id'', JStr (pr_chat_id p)), (''channel_type'', JInt (pr_channel_type p))]"

definition planned_from_body :: "json \<Rightarrow> id_error + planned_route option" where
  "planned_from_body body =
     (case body of
        JObj d \<Rightarrow>
          (let key = jget d ''session_key''; ct = jget d ''chat_type'';
               cid = jget d ''chat_id''; cty = jget d ''channel_type'' in
           if \<not> nonempty_str key then Inr None
           else (case in_chat_types ct of
                   None \<Rightarrow> Inl TypeErr
                 | Some b \<Rightarrow>
                     if \<not> b \<or> \<not> nonempty_str cid \<or> \<not> valid_channel_type cty then Inr None
                     else Inr (Some \<lparr>pr_session_key = text_of key, pr_chat_type = text_of ct,
                            pr_chat_id = text_of cid,
                            pr_channel_type = (case cty of JInt i \<Rightarrow> i | _ \<Rightarrow> 0)\<rparr>)))
      | _ \<Rightarrow> Inr None)"

fun plan_from_bodies :: "json list \<Rightarrow> id_error + planned_route list" where
  "plan_from_bodies [] = Inr []"
| "plan_from_bodies (b # bs) =
     (case planned_from_body b of
        Inl e \<Rightarrow> Inl e
      | Inr r \<Rightarrow>
          (case plan_from_bodies bs of
             Inl e \<Rightarrow> Inl e
           | Inr ps \<Rightarrow> Inr (case r of None \<Rightarrow> ps | Some p \<Rightarrow> p # ps)))"

section \<open>The store\<close>

record id_store =
  metadata_file :: sfile
  plan_file :: sfile
  id_routes :: routes                      \<comment> \<open>with the two snapshot files\<close>
  id_metadata :: "identity_metadata option"   \<comment> \<open>\<open>_metadata\<close>, in memory\<close>
  card_shards :: "bool option"             \<comment> \<open>do card bindings exist? \<open>None\<close>: looking raised OSError\<close>

datatype 'a outcome = Ok 'a | Raised id_error | Died

type_synonym 'a action = "id_store \<Rightarrow> 'a outcome \<times> id_store"

definition act_return :: "'a \<Rightarrow> 'a action" where
  "act_return x s = (Ok x, s)"

definition act_raise :: "id_error \<Rightarrow> 'a action" where
  "act_raise e s = (Raised e, s)"

definition act_bind :: "'a action \<Rightarrow> ('a \<Rightarrow> 'b action) \<Rightarrow> 'b action" where
  "act_bind m f s =
     (case m s of (Ok x, s') \<Rightarrow> f x s' | (Raised e, s') \<Rightarrow> (Raised e, s') | (Died, s') \<Rightarrow> (Died, s'))"

definition act_then :: "'a action \<Rightarrow> 'b action \<Rightarrow> 'b action" where
  "act_then m n = act_bind m (\<lambda>_. n)"

definition act_lift :: "id_error + 'a \<Rightarrow> 'a action" where
  "act_lift r = (case r of Inl e \<Rightarrow> act_raise e | Inr x \<Rightarrow> act_return x)"

record id_faults =
  metadata_fault :: fault
  plan_fault :: fault
  routes_fault :: snap_fault
  unlink_fault :: "bool option"   \<comment> \<open>\<open>Some True\<close> removed, \<open>Some False\<close> OSError, \<open>None\<close> the process died\<close>

definition no_faults :: id_faults where
  "no_faults = \<lparr>metadata_fault = NoFault, plan_fault = NoFault, routes_fault = SnapOk,
                unlink_fault = Some True\<rparr>"

definition load_metadata :: "checksum_fn \<Rightarrow> identity_metadata option action" where
  "load_metadata cs s =
     (case read_state_document cs (metadata_file s) of
        Inl _ \<Rightarrow> (Raised TextError, s)
      | Inr (status, body) \<Rightarrow>
          if status = READ_MISSING then (Ok None, s\<lparr>id_metadata := None\<rparr>)
          else if status \<noteq> READ_OK
          then (Raised (StateError ''Octo identity-routing metadata is unusable''), s)
          else (case metadata_from_body body of
                  Inl e \<Rightarrow> (Raised e, s)
                | Inr m \<Rightarrow> (Ok (Some m), s\<lparr>id_metadata := Some m\<rparr>)))"

definition save_metadata :: "checksum_fn \<Rightarrow> fault \<Rightarrow> identity_metadata \<Rightarrow> unit action" where
  "save_metadata cs fault m s =
     (case write_state_document cs fault (metadata_to_body m) (metadata_file s) of
        (Some (Inr _), d) \<Rightarrow> (Ok (), s\<lparr>metadata_file := f_target d, id_metadata := Some m\<rparr>)
      | (Some (Inl _), d) \<Rightarrow> (Raised IoError, s\<lparr>metadata_file := f_target d\<rparr>)
      | (None, d) \<Rightarrow> (Died, s\<lparr>metadata_file := f_target d\<rparr>))"

definition load_plan :: "checksum_fn \<Rightarrow> planned_route list action" where
  "load_plan cs s =
     (case read_state_document cs (plan_file s) of
        Inl _ \<Rightarrow> (Raised TextError, s)
      | Inr (status, body) \<Rightarrow>
          if status = READ_MISSING then (Ok [], s)
          else if status \<noteq> READ_OK
          then (Raised (StateError ''Octo legacy migration plan is unusable''), s)
          else (case body of
                  JObj d \<Rightarrow>
                    (case jiter_or_empty (jget d ''entries'') of
                       None \<Rightarrow> (Raised TypeErr, s)
                     | Some records \<Rightarrow> act_lift (plan_from_bodies records) s)
                | _ \<Rightarrow> (Raised (StateError ''Octo legacy migration plan is malformed''), s)))"

definition load_pending_plan :: "checksum_fn \<Rightarrow> identity_metadata \<Rightarrow> planned_route list action" where
  "load_pending_plan cs m =
     act_bind (load_plan cs) (\<lambda>plan.
       if length plan \<noteq> md_plan_size m
       then act_raise (StateError ''Octo legacy migration plan size does not match'')
       else act_return plan)"

definition plan_body :: "planned_route list \<Rightarrow> json" where
  "plan_body plan = JObj [(''entries'', JArr (map planned_to_body plan))]"

definition save_plan :: "checksum_fn \<Rightarrow> fault \<Rightarrow> planned_route list \<Rightarrow> unit action" where
  "save_plan cs fault plan s =
     (case write_state_document cs fault (plan_body plan) (plan_file s) of
        (Some (Inr _), d) \<Rightarrow> (Ok (), s\<lparr>plan_file := f_target d\<rparr>)
      | (Some (Inl _), d) \<Rightarrow> (Raised IoError, s\<lparr>plan_file := f_target d\<rparr>)
      | (None, d) \<Rightarrow> (Died, s\<lparr>plan_file := f_target d\<rparr>))"

definition clear_plan :: "bool option \<Rightarrow> unit action" where
  "clear_plan fault s =
     (case fault of
        None \<Rightarrow> (Died, s)
      | Some removed \<Rightarrow> (Ok (), if removed then s\<lparr>plan_file := FMissing\<rparr> else s))"

definition has_routing_evidence :: "id_store \<Rightarrow> bool" where
  "has_routing_evidence s \<longleftrightarrow>
     has_state (id_routes s) \<or> file_exists (plan_file s) \<or>
     (case card_shards s of None \<Rightarrow> True | Some b \<Rightarrow> b)"

section \<open>Startup\<close>

record identity_startup =
  su_phase :: string
  su_legacy_robot_id :: string
  su_plan :: "planned_route list"
  su_sole_identity_mode :: bool

text \<open>
  The sessions that exist already, as the session store lists them: the answer of the callback
  \<open>enumerate_legacy_sessions\<close>.
\<close>

type_synonym legacy_sessions = "(json \<times> json \<times> json) list"

fun freeze_sessions :: "legacy_sessions \<Rightarrow> (string, planned_route) dict \<Rightarrow>
    id_error + (string, planned_route) dict" where
  "freeze_sessions [] planned = Inr planned"
| "freeze_sessions ((key, ct, cid) # rest) planned =
     (if \<not> nonempty_str key then freeze_sessions rest planned
      else (case in_chat_types ct of
              None \<Rightarrow> Inl TypeErr
            | Some False \<Rightarrow> freeze_sessions rest planned
            | Some True \<Rightarrow>
                if \<not> nonempty_str cid then freeze_sessions rest planned
                else
                  (let p = \<lparr>pr_session_key = text_of key, pr_chat_type = text_of ct,
                            pr_chat_id = text_of cid,
                            pr_channel_type = channel_type_for_planned_route (text_of ct) (text_of cid)\<rparr>;
                       planned' = dset (text_of key) p planned in
                   if length planned' > MAX_PERSISTED_ROUTES
                   then Inl (StateError ''Octo legacy migration plan exceeds route capacity'')
                   else freeze_sessions rest planned')))"

definition freeze_plan :: "legacy_sessions \<Rightarrow> id_error + planned_route list" where
  "freeze_plan sessions =
     (case freeze_sessions sessions [] of Inl e \<Rightarrow> Inl e | Inr d \<Rightarrow> Inr (map snd d))"

definition begin_single ::
  "checksum_fn \<Rightarrow> id_faults \<Rightarrow> identity_metadata option \<Rightarrow> identity_startup action" where
  "begin_single cs fl md =
     (case md of
        None \<Rightarrow>
          act_then (save_metadata cs (metadata_fault fl)
              \<lparr>md_phase = PHASE_SINGLE, md_legacy_robot_id = [], md_plan_size = 0\<rparr>)
            (act_return \<lparr>su_phase = PHASE_SINGLE, su_legacy_robot_id = [], su_plan = [],
                         su_sole_identity_mode = True\<rparr>)
      | Some m \<Rightarrow>
          if md_phase m = PHASE_SINGLE
          then act_return \<lparr>su_phase = PHASE_SINGLE, su_legacy_robot_id = md_legacy_robot_id m,
                           su_plan = [], su_sole_identity_mode = True\<rparr>
          else
            act_bind (if md_phase m = PHASE_PENDING then load_pending_plan cs m else act_return [])
              (\<lambda>plan. act_return
                 \<lparr>su_phase = md_phase m, su_legacy_robot_id = md_legacy_robot_id m, su_plan = plan,
                  su_sole_identity_mode = False\<rparr>))"

definition begin_multi ::
  "checksum_fn \<Rightarrow> id_faults \<Rightarrow> legacy_sessions \<Rightarrow> identity_metadata option \<Rightarrow> identity_startup action" where
  "begin_multi cs fl sessions md =
     (case md of
        None \<Rightarrow> act_raise (StateError ''first multi-token startup'')
      | Some m \<Rightarrow>
          if md_legacy_robot_id m = [] then act_raise (StateError ''first multi-token startup'')
          else if md_phase m = PHASE_MIGRATED
          then act_return \<lparr>su_phase = PHASE_MIGRATED, su_legacy_robot_id = md_legacy_robot_id m,
                           su_plan = [], su_sole_identity_mode = False\<rparr>
          else if md_phase m = PHASE_PENDING
          then act_bind (load_pending_plan cs m) (\<lambda>plan. act_return
                 \<lparr>su_phase = PHASE_PENDING, su_legacy_robot_id = md_legacy_robot_id m,
                  su_plan = plan, su_sole_identity_mode = False\<rparr>)
          else
            act_bind (act_lift (freeze_plan sessions)) (\<lambda>plan.
            act_then (save_plan cs (plan_fault fl) plan)
            (act_then (save_metadata cs (metadata_fault fl)
                \<lparr>md_phase = PHASE_PENDING, md_legacy_robot_id = md_legacy_robot_id m,
                 md_plan_size = length plan\<rparr>)
            (act_return \<lparr>su_phase = PHASE_PENDING, su_legacy_robot_id = md_legacy_robot_id m,
                         su_plan = plan, su_sole_identity_mode = False\<rparr>))))"

definition load_id_routes :: "checksum_fn \<Rightarrow> unit action" where
  \<comment> \<open>\<open>self.routes.load()\<close>\<close>
  "load_id_routes cs s =
     (let (loaded, r) = load_routes cs (id_routes s) in
      (if loaded then Ok () else Raised SnapshotError, s\<lparr>id_routes := r\<rparr>))"

definition begin_startup ::
  "checksum_fn \<Rightarrow> id_faults \<Rightarrow> nat \<Rightarrow> legacy_sessions \<Rightarrow> identity_startup action" where
  "begin_startup cs fl token_count sessions =
     act_bind (load_metadata cs) (\<lambda>md.
     act_then (load_id_routes cs)
     (\<lambda>s. if md = None \<and> has_routing_evidence s
          then act_raise (StateError ''Octo identity-routing metadata is missing'') s
          else if token_count \<le> 1 then begin_single cs fl md s
          else begin_multi cs fl sessions md s))"

section \<open>Recording and migrating\<close>

definition record_single_identity :: "checksum_fn \<Rightarrow> id_faults \<Rightarrow> string \<Rightarrow> unit action" where
  "record_single_identity cs fl rid s =
     (let m = (case id_metadata s of
                 Some m \<Rightarrow> m
               | None \<Rightarrow> \<lparr>md_phase = PHASE_SINGLE, md_legacy_robot_id = [], md_plan_size = 0\<rparr>) in
      if md_phase m \<noteq> PHASE_SINGLE then (Ok (), s)
      else if md_legacy_robot_id m \<noteq> []
      then (if md_legacy_robot_id m \<noteq> rid
            then (Raised (StateError ''configured Octo token no longer registers''), s) else (Ok (), s))
      else save_metadata cs (metadata_fault fl)
             \<lparr>md_phase = PHASE_SINGLE, md_legacy_robot_id = rid, md_plan_size = 0\<rparr> s)"

definition bind_routes_plan :: "string \<Rightarrow> planned_route list \<Rightarrow> bool action" where
  "bind_routes_plan rid plan s =
     (case bind_plan rid plan (id_routes s) of
        (Inl e, r) \<Rightarrow> (Raised (BindError e), s\<lparr>id_routes := r\<rparr>)
      | (Inr b, r) \<Rightarrow> (Ok b, s\<lparr>id_routes := r\<rparr>))"

definition force_flush :: "checksum_fn \<Rightarrow> snap_fault \<Rightarrow> bool action" where
  "force_flush cs fault s =
     (case flush cs fault True (id_routes s) of
        (None, r) \<Rightarrow> (Died, s\<lparr>id_routes := r\<rparr>)
      | (Some b, r) \<Rightarrow> (Ok b, s\<lparr>id_routes := r\<rparr>))"

definition bind_and_commit ::
  "checksum_fn \<Rightarrow> id_faults \<Rightarrow> string \<Rightarrow> string \<Rightarrow> planned_route list \<Rightarrow> unit action" where
  \<comment> \<open>the body that the protection and the migration share: bind the plan, write the routes,
    then the metadata\<close>
  "bind_and_commit cs fl conflict_error rid plan =
     act_bind (bind_routes_plan rid plan) (\<lambda>ok.
     if \<not> ok then act_raise (StateError conflict_error)
     else act_bind (force_flush cs (routes_fault fl)) (\<lambda>written.
     if \<not> written then act_raise IoError
     else save_metadata cs (metadata_fault fl)
            \<lparr>md_phase = PHASE_MIGRATED, md_legacy_robot_id = rid, md_plan_size = length plan\<rparr>))"

definition protect_replaced_single_identity ::
  "checksum_fn \<Rightarrow> id_faults \<Rightarrow> string \<Rightarrow> legacy_sessions \<Rightarrow> nat action" where
  "protect_replaced_single_identity cs fl previous sessions =
     act_bind (\<lambda>s. case id_metadata s of Some m \<Rightarrow> (Ok (Some m), s) | None \<Rightarrow> load_metadata cs s)
     (\<lambda>md. if (case md of None \<Rightarrow> True
                | Some m \<Rightarrow> md_phase m \<noteq> PHASE_SINGLE \<or> md_legacy_robot_id m \<noteq> previous)
      then act_raise (StateError ''single-identity replacement state changed during protection'')
      else act_bind (act_lift (freeze_plan sessions)) (\<lambda>plan.
        act_then (bind_and_commit cs fl ''legacy routes conflict'' previous plan)
          (act_return (length plan))))"

definition apply_legacy_plan ::
  "checksum_fn \<Rightarrow> id_faults \<Rightarrow> string \<Rightarrow> planned_route list \<Rightarrow> unit action" where
  "apply_legacy_plan cs fl rid plan =
     act_then (bind_and_commit cs fl ''legacy migration conflicts'' rid plan)
       (clear_plan (unlink_fault fl))"

end
