(* ===== verification/Startup.thy ===== *)
theory Startup
  imports IdentityState
begin

text \<open>
  Models the part of \<open>OctoAdapter\<close> that advances the durable identity state:
  \<open>_initialize_identity_state\<close> before any listener starts, and \<open>_on_runtime_registered\<close> with
  \<open>_apply_legacy_migration\<close> when a runtime has learnt its identity. A run is any sequence of
  these steps, of route operations, and of crashes, with every write failing or dying at will.
\<close>

record host =
  h_store :: id_store
  h_startup :: "identity_startup option"
  h_plan :: "planned_route list"           \<comment> \<open>\<open>_legacy_plan\<close>\<close>
  h_plan_targets :: "target_key list"      \<comment> \<open>\<open>_legacy_plan_targets\<close>\<close>
  h_sole :: bool                           \<comment> \<open>\<open>_sole_identity_mode\<close>\<close>

definition new_host :: "nat \<Rightarrow> id_store \<Rightarrow> host" where
  "new_host token_count s =
     \<lparr>h_store = s, h_startup = None, h_plan = [], h_plan_targets = [], h_sole = (token_count \<le> 1)\<rparr>"

definition identity_phase :: "host \<Rightarrow> string" where
  "identity_phase h = (case h_startup h of Some su \<Rightarrow> su_phase su | None \<Rightarrow> PHASE_SINGLE)"

definition legacy_primary_robot_id :: "host \<Rightarrow> string" where
  "legacy_primary_robot_id h = (case h_startup h of Some su \<Rightarrow> su_legacy_robot_id su | None \<Rightarrow> [])"

type_synonym 'a step = "'a outcome \<times> host"

definition initialize_identity_state ::
  "checksum_fn \<Rightarrow> id_faults \<Rightarrow> nat \<Rightarrow> legacy_sessions \<Rightarrow> host \<Rightarrow> bool step" where
  "initialize_identity_state cs fl token_count sessions h =
     (case begin_startup cs fl token_count sessions (h_store h) of
        (Ok su, s) \<Rightarrow>
          (Ok True,
           h\<lparr>h_store := s, h_startup := Some su, h_plan := su_plan su,
             h_plan_targets := map (\<lambda>p. (pr_chat_type p, pr_chat_id p)) (su_plan su),
             h_sole := su_sole_identity_mode su\<rparr>)
      | (Raised (StateError e), s) \<Rightarrow> (Ok False, h\<lparr>h_store := s\<rparr>)
      | (Raised IoError, s) \<Rightarrow> (Ok False, h\<lparr>h_store := s\<rparr>)
      | (Raised e, s) \<Rightarrow> (Raised e, h\<lparr>h_store := s\<rparr>)
      | (Died, s) \<Rightarrow> (Died, h\<lparr>h_store := s\<rparr>))"

definition migrated_startup :: "string \<Rightarrow> identity_startup" where
  "migrated_startup rid =
     \<lparr>su_phase = PHASE_MIGRATED, su_legacy_robot_id = rid, su_plan = [],
      su_sole_identity_mode = False\<rparr>"

definition apply_legacy_migration :: "checksum_fn \<Rightarrow> id_faults \<Rightarrow> string \<Rightarrow> host \<Rightarrow> unit step" where
  "apply_legacy_migration cs fl rid h =
     (if legacy_primary_robot_id h \<noteq> rid then (Ok (), h)
      else
        (case apply_legacy_plan cs fl rid (h_plan h) (h_store h) of
           (Ok _, s) \<Rightarrow>
             (Ok (), h\<lparr>h_store := s, h_plan := [], h_startup := Some (migrated_startup rid),
                       h_plan_targets := []\<rparr>)
         | (Raised (StateError e), s) \<Rightarrow> (Ok (), h\<lparr>h_store := s\<rparr>)
         | (Raised IoError, s) \<Rightarrow> (Ok (), h\<lparr>h_store := s\<rparr>)
         | (Raised e, s) \<Rightarrow> (Raised e, h\<lparr>h_store := s\<rparr>)
         | (Died, s) \<Rightarrow> (Died, h\<lparr>h_store := s\<rparr>)))"

definition identity_not_persisted :: id_error where
  "identity_not_persisted = StateError ''could not persist the stable Octo identity''"

definition wrap_error :: "id_error \<Rightarrow> id_error" where
  \<comment> \<open>\<open>except (IdentityStateError, OSError)\<close>\<close>
  "wrap_error e =
     (case e of StateError _ \<Rightarrow> identity_not_persisted | IoError \<Rightarrow> identity_not_persisted | _ \<Rightarrow> e)"

definition on_runtime_registered ::
  "checksum_fn \<Rightarrow> id_faults \<Rightarrow> legacy_sessions \<Rightarrow> bool \<Rightarrow> string \<Rightarrow> host \<Rightarrow> unit step" where
  \<comment> \<open>\<open>is_first\<close>: the runtime is the first one, or there is no list of runtimes\<close>
  "on_runtime_registered cs fl sessions is_first rid h =
     (if rid = [] \<or> h_startup h = None then (Ok (), h)
      else if h_sole h then
        (let previous = legacy_primary_robot_id h in
         if previous \<noteq> [] \<and> previous \<noteq> rid then
           (case protect_replaced_single_identity cs fl previous sessions (h_store h) of
              (Ok _, s) \<Rightarrow>
                (Ok (), h\<lparr>h_store := s, h_startup := Some (migrated_startup previous), h_plan := [],
                          h_plan_targets := [], h_sole := False\<rparr>)
            | (Raised e, s) \<Rightarrow> (Raised (wrap_error e), h\<lparr>h_store := s\<rparr>)
            | (Died, s) \<Rightarrow> (Died, h\<lparr>h_store := s\<rparr>))
         else
           (case record_single_identity cs fl rid (h_store h) of
              (Ok _, s) \<Rightarrow> (Ok (), h\<lparr>h_store := s\<rparr>)
            | (Raised e, s) \<Rightarrow> (Raised (wrap_error e), h\<lparr>h_store := s\<rparr>)
            | (Died, s) \<Rightarrow> (Died, h\<lparr>h_store := s\<rparr>)))
      else if identity_phase h \<noteq> PHASE_PENDING then (Ok (), h)
      else if \<not> is_first then (Ok (), h)
      else apply_legacy_migration cs fl rid h)"

section \<open>Runs\<close>

definition restart_store :: "id_store \<Rightarrow> id_store" where
  \<comment> \<open>a new process: only files are left\<close>
  "restart_store s =
     s\<lparr>id_routes := new_routes (path_file (id_routes s)) (backup_file (id_routes s)), id_metadata := None\<rparr>"

datatype life_op =
    Connect id_faults nat legacy_sessions
  | Registered id_faults legacy_sessions bool string
  | RouteOp route_op
  | Crash nat

definition after_death :: "nat \<Rightarrow> 'a step \<Rightarrow> host" where
  "after_death n r = (case r of (Died, h) \<Rightarrow> new_host n (restart_store (h_store h)) | (_, h) \<Rightarrow> h)"

fun life_step :: "checksum_fn \<Rightarrow> life_op \<Rightarrow> host \<Rightarrow> host" where
  "life_step cs (Connect fl n sessions) h = after_death n (initialize_identity_state cs fl n sessions h)"
| "life_step cs (Registered fl sessions is_first rid) h =
     (if valid_robot rid then after_death 1 (on_runtime_registered cs fl sessions is_first rid h) else h)"
| "life_step cs (RouteOp op) h =
     (if h_startup h = None then h   \<comment> \<open>nothing is received before the identity state is up\<close>
      else h\<lparr>h_store := (h_store h)\<lparr>id_routes := run_op cs op (id_routes (h_store h))\<rparr>\<rparr>)"
| "life_step cs (Crash n) h = new_host n (restart_store (h_store h))"

definition run_life :: "checksum_fn \<Rightarrow> life_op list \<Rightarrow> host \<Rightarrow> host" where
  "run_life cs ops h = fold (life_step cs) ops h"

definition first_run :: "nat \<Rightarrow> host" where
  "first_run n = new_host n
     \<lparr>metadata_file = FMissing, plan_file = FMissing, id_routes = fresh_routes, id_metadata = None,
      card_shards = Some False\<rparr>"

end
