(* ===== verification/StartupLogic.thy ===== *)
theory StartupLogic
  imports Startup
begin

text \<open>
  What every action on the identity state keeps: its documents are read back as written, a
  pending phase has its frozen plan beside it, memory and disk agree, and the metadata only
  moves forward. \<open>act_ok\<close> is the triple, with one rule per combinator and one lemma per action.
\<close>

section \<open>Documents are read back as written\<close>

definition md_ok :: "identity_metadata \<Rightarrow> bool" where
  "md_ok m \<longleftrightarrow> md_phase m \<in> set PHASES \<and> (md_legacy_robot_id m = [] \<or> valid_robot (md_legacy_robot_id m))"

definition planned_ok :: "planned_route \<Rightarrow> bool" where
  "planned_ok p \<longleftrightarrow> pr_session_key p \<noteq> [] \<and> pr_chat_type p \<in> set CHAT_TYPES \<and> pr_chat_id p \<noteq> [] \<and>
     channel_of_int (pr_channel_type p) \<noteq> None"

abbreviation metadata_doc :: "checksum_fn \<Rightarrow> identity_metadata \<Rightarrow> sfile" where
  "metadata_doc cs m \<equiv> FDoc (state_document cs (metadata_to_body m))"

abbreviation plan_doc :: "checksum_fn \<Rightarrow> planned_route list \<Rightarrow> sfile" where
  "plan_doc cs plan \<equiv> FDoc (state_document cs (plan_body plan))"

lemma metadata_roundtrip:
  assumes "md_ok m"
  shows "metadata_from_body (canon (metadata_to_body m)) = Inr m"
proof -
  let ?d = "[(''phase'', JStr (md_phase m)), (''legacy_robot_id'', JStr (md_legacy_robot_id m)),
             (''plan_size'', JInt (int (md_plan_size m)))]"
  obtain d' where d': "canon (JObj ?d) = JObj d'" by simp
  have wf: "wf_dict ?d" by simp
  have g: "jget d' k = canon (jget ?d k)" for k by (rule jget_canon_obj [OF d' wf])
  have "map_of d' ''plan_size'' = Some (JInt (int (md_plan_size m)))"
    using map_of_canon [OF d' wf, of "''plan_size''"] by simp
  then show ?thesis
    using assms unfolding metadata_to_body_def d' metadata_from_body_def
    by (simp add: g md_ok_def Let_def)
qed

lemma planned_roundtrip:
  assumes "planned_ok p"
  shows "planned_from_body (canon (planned_to_body p)) = Inr (Some p)"
proof -
  let ?d = "[(''session_key'', JStr (pr_session_key p)), (''chat_type'', JStr (pr_chat_type p)),
     (''chat_id'', JStr (pr_chat_id p)), (''channel_type'', JInt (pr_channel_type p))]"
  obtain d' where d': "canon (JObj ?d) = JObj d'" by simp
  have g: "jget d' k = canon (jget ?d k)" for k by (rule jget_canon_obj [OF d']) simp
  show ?thesis
    using assms unfolding planned_to_body_def d' planned_from_body_def
    by (simp add: g planned_ok_def valid_channel_type_def Let_def)
qed

lemma plan_roundtrip:
  "list_all planned_ok plan \<Longrightarrow>
   plan_from_bodies (map canon (map planned_to_body plan)) = Inr plan"
  by (induction plan) (simp_all add: planned_roundtrip)

lemma load_saved_plan:
  assumes "plan_file s = plan_doc cs plan" "list_all planned_ok plan"
  shows "load_plan cs s = (Ok plan, s)"
proof -
  have c: "canon (plan_body plan) = JObj [(''entries'', JArr (map canon (map planned_to_body plan)))]"
    by (simp add: plan_body_def)
  have "jiter_or_empty (jget [(''entries'', JArr (map canon (map planned_to_body plan)))] ''entries'') =
      Some (map canon (map planned_to_body plan))"
    by (simp only: jget_Cons if_True jiter_or_empty_arr simp_thms)
  then show ?thesis
    unfolding load_plan_def assms(1) read_written c
    by (simp only: sum.case prod.case json.case option.case plan_roundtrip [OF assms(2)]
        read_status.distinct if_False act_lift_def act_return_def)
      simp
qed

lemma freeze_sessions_ok:
  assumes "freeze_sessions sessions planned = Inr d" "\<forall>x \<in> set planned. planned_ok (snd x)"
  shows "\<forall>x \<in> set d. planned_ok (snd x)"
  using assms
proof (induction sessions arbitrary: planned)
  case (Cons s rest)
  obtain key ct cid where s: "s = (key, ct, cid)" by (cases s)
  have ch: "channel_of_int (channel_type_for_planned_route t c) \<noteq> None" for t c
    by (auto simp: channel_type_for_planned_route_def simp del: int_of_channel.simps)
  show ?case
  proof (cases "nonempty_str key \<and> in_chat_types ct = Some True \<and> nonempty_str cid")
    case False
    then have "freeze_sessions rest planned = Inr d"
      using Cons.prems(1) by (cases "in_chat_types ct") (auto simp: s split: if_splits bool.splits)
    then show ?thesis by (rule Cons.IH [OF _ Cons.prems(2)])
  next
    case True
    then obtain k t c where k: "key = JStr k" "ct = JStr t" "cid = JStr c" "k \<noteq> []" "t \<in> set CHAT_TYPES" "c \<noteq> []"
      by (auto simp: nonempty_str_def in_chat_types_def split: json.splits)
    let ?p = "\<lparr>pr_session_key = k, pr_chat_type = t, pr_chat_id = c,
        pr_channel_type = channel_type_for_planned_route t c\<rparr>"
    have "planned_ok ?p" using k ch by (simp add: planned_ok_def)
    then have "\<forall>x \<in> set (dset k ?p planned). planned_ok (snd x)"
      using Cons.prems(2) by (auto dest: dset_mem)
    moreover have "freeze_sessions rest (dset k ?p planned) = Inr d"
      using Cons.prems(1) True by (simp add: s k Let_def split: if_splits)
    ultimately show ?thesis using Cons.IH by blast
  qed
qed simp

lemma freeze_plan_ok: "freeze_plan sessions = Inr plan \<Longrightarrow> list_all planned_ok plan"
  using freeze_sessions_ok [of sessions "[]"]
  by (fastforce simp: freeze_plan_def list_all_iff split: sum.splits)

section \<open>What every action keeps\<close>

definition plan_stored :: "checksum_fn \<Rightarrow> id_store \<Rightarrow> identity_metadata \<Rightarrow> bool" where
  \<comment> \<open>a pending migration has its frozen plan beside it\<close>
  "plan_stored cs s m \<longleftrightarrow>
     (md_phase m = PHASE_PENDING \<longrightarrow>
        md_legacy_robot_id m \<noteq> [] \<and>
        (\<exists>plan. plan_file s = plan_doc cs plan \<and> length plan = md_plan_size m \<and> list_all planned_ok plan))"

definition store_ok :: "checksum_fn \<Rightarrow> id_store \<Rightarrow> bool" where
  "store_ok cs s \<longleftrightarrow>
     (metadata_file s = FMissing \<or>
      (\<exists>m. metadata_file s = metadata_doc cs m \<and> md_ok m \<and> plan_stored cs s m)) \<and>
     (\<forall>m. id_metadata s = Some m \<longrightarrow> md_ok m \<and> metadata_file s = metadata_doc cs m)"

definition phase_rank :: "string \<Rightarrow> nat" where
  "phase_rank p = (if p = PHASE_MIGRATED then 2 else if p = PHASE_PENDING then 1 else 0)"

definition succeeds :: "identity_metadata \<Rightarrow> identity_metadata \<Rightarrow> bool" where
  \<comment> \<open>the only ways metadata may change\<close>
  "succeeds m m' \<longleftrightarrow> phase_rank (md_phase m) \<le> phase_rank (md_phase m') \<and>
     (md_legacy_robot_id m \<noteq> [] \<longrightarrow> md_legacy_robot_id m' = md_legacy_robot_id m)"

definition advances :: "checksum_fn \<Rightarrow> id_store \<Rightarrow> id_store \<Rightarrow> bool" where
  "advances cs s s' \<longleftrightarrow>
     (\<forall>m. md_ok m \<longrightarrow> metadata_file s = metadata_doc cs m \<longrightarrow>
        (\<exists>m'. md_ok m' \<and> metadata_file s' = metadata_doc cs m' \<and> succeeds m m')) \<and>
     (id_metadata s \<noteq> None \<longrightarrow> id_metadata s' \<noteq> None)"

definition act_ok :: "checksum_fn \<Rightarrow> ('a \<Rightarrow> id_store \<Rightarrow> bool) \<Rightarrow> 'a outcome \<times> id_store \<Rightarrow> id_store \<Rightarrow> bool" where
  "act_ok cs Q r s =
     (case r of
        (Ok x, s') \<Rightarrow> store_ok cs s' \<and> advances cs s s' \<and> Q x s'
      | (Raised e, s') \<Rightarrow> store_ok cs s' \<and> advances cs s s'
      | (Died, s') \<Rightarrow> store_ok cs (restart_store s') \<and> advances cs s s')"

lemma succeeds_refl [simp]: "succeeds m m"
  by (simp add: succeeds_def)

lemma succeeds_trans: "succeeds a b \<Longrightarrow> succeeds b c \<Longrightarrow> succeeds a c"
  by (auto simp: succeeds_def)

lemma advances_refl [simp]: "advances cs s s"
  unfolding advances_def using succeeds_refl by blast

lemma advances_trans: "advances cs a b \<Longrightarrow> advances cs b c \<Longrightarrow> advances cs a c"
  unfolding advances_def using succeeds_trans by meson

lemma advances_same:
  "metadata_file s' = metadata_file s \<Longrightarrow> id_metadata s' = id_metadata s \<or> id_metadata s' \<noteq> None \<Longrightarrow>
   advances cs s s'"
  unfolding advances_def using succeeds_refl by auto

lemma store_ok_restart: "store_ok cs s \<Longrightarrow> store_ok cs (restart_store s)"
  by (auto simp: store_ok_def restart_store_def plan_stored_def)

lemma store_ok_routes [simp]: "store_ok cs (s\<lparr>id_routes := r\<rparr>) = store_ok cs s"
  by (simp add: store_ok_def plan_stored_def)

lemma metadata_doc_inj: "md_ok m \<Longrightarrow> md_ok m' \<Longrightarrow> metadata_doc cs m = metadata_doc cs m' \<Longrightarrow> m = m'"
  by (metis Inr_inject metadata_roundtrip read_written prod.inject)

lemma act_return_ok: "store_ok cs s \<Longrightarrow> Q x s \<Longrightarrow> act_ok cs Q (act_return x s) s"
  by (simp add: act_ok_def act_return_def)

lemma act_raise_ok: "store_ok cs s \<Longrightarrow> act_ok cs Q (act_raise e s) s"
  by (simp add: act_ok_def act_raise_def)

lemma act_lift_ok:
  "store_ok cs s \<Longrightarrow> (\<And>x. r = Inr x \<Longrightarrow> Q x s) \<Longrightarrow> act_ok cs Q (act_lift r s) s"
  by (cases r) (simp_all add: act_lift_def act_return_ok act_raise_ok)

lemma act_bind_ok:
  assumes "act_ok cs Q (m s) s"
    and "\<And>x s1. m s = (Ok x, s1) \<Longrightarrow> store_ok cs s1 \<Longrightarrow> Q x s1 \<Longrightarrow> act_ok cs R (f x s1) s1"
  shows "act_ok cs R (act_bind m f s) s"
proof (cases "m s")
  case (Pair o1 s1)
  show ?thesis
  proof (cases o1)
    case (Ok x)
    have q: "store_ok cs s1" "advances cs s s1" "Q x s1"
      using assms(1) by (simp_all add: act_ok_def Pair Ok)
    have "act_ok cs R (f x s1) s1" using assms(2) q Pair Ok by simp
    then show ?thesis
      using q(2) advances_trans [of cs s s1]
      by (auto simp: act_bind_def act_ok_def Pair Ok split: prod.splits outcome.splits)
  qed (use assms(1) in \<open>simp_all add: act_bind_def act_ok_def Pair\<close>)
qed

lemma act_then_ok:
  assumes "act_ok cs Q (m s) s"
    and "\<And>x s1. m s = (Ok x, s1) \<Longrightarrow> store_ok cs s1 \<Longrightarrow> Q x s1 \<Longrightarrow> act_ok cs R (n s1) s1"
  shows "act_ok cs R (act_then m n s) s"
  unfolding act_then_def
  by (rule act_bind_ok [where m = m and Q = Q and f = "\<lambda>_. n", OF assms(1)]) (rule assms(2))

lemma act_ok_weaken:
  "act_ok cs Q r s \<Longrightarrow> (\<And>x s'. Q x s' \<Longrightarrow> R x s') \<Longrightarrow> act_ok cs R r s"
  by (auto simp: act_ok_def split: prod.splits outcome.splits)

section \<open>The actions of the store\<close>

definition known :: "checksum_fn \<Rightarrow> identity_metadata option \<Rightarrow> id_store \<Rightarrow> bool" where
  "known cs md s \<longleftrightarrow> id_metadata s = md \<and>
     (case md of None \<Rightarrow> metadata_file s = FMissing
      | Some m \<Rightarrow> md_ok m \<and> metadata_file s = metadata_doc cs m \<and> plan_stored cs s m)"

lemma store_ok_cases:
  assumes "store_ok cs s"
  obtains "metadata_file s = FMissing"
    | m where "metadata_file s = metadata_doc cs m" "md_ok m" "plan_stored cs s m"
  using assms unfolding store_ok_def by blast

lemma load_metadata_ok:
  assumes "store_ok cs s"
  shows "act_ok cs (\<lambda>md s'. known cs md s' \<and> id_routes s' = id_routes s \<and> plan_file s' = plan_file s)
     (load_metadata cs s) s \<and> (\<exists>md s'. load_metadata cs s = (Ok md, s'))"
  using assms
proof (cases rule: store_ok_cases)
  case 1
  then have "load_metadata cs s = (Ok None, s\<lparr>id_metadata := None\<rparr>)"
    by (simp add: load_metadata_def read_state_document_def)
  moreover have "id_metadata s = None"
    using assms 1 by (cases "id_metadata s") (auto simp: store_ok_def)
  ultimately show ?thesis
    using 1 by (simp add: act_ok_def known_def store_ok_def advances_same)
next
  case (2 m)
  then have "load_metadata cs s = (Ok (Some m), s\<lparr>id_metadata := Some m\<rparr>)"
    by (simp add: load_metadata_def read_written metadata_roundtrip)
  then show ?thesis
    using 2 by (auto simp: act_ok_def known_def store_ok_def plan_stored_def advances_same)
qed

lemma save_metadata_ok:
  assumes "store_ok cs s" "md_ok m" "plan_stored cs s m"
    and "\<And>m0. md_ok m0 \<Longrightarrow> metadata_file s = metadata_doc cs m0 \<Longrightarrow> succeeds m0 m"
  shows "act_ok cs (\<lambda>_ s'. id_metadata s' = Some m \<and> metadata_file s' = metadata_doc cs m \<and>
      id_routes s' = id_routes s \<and> plan_file s' = plan_file s) (save_metadata cs fault m s) s"
proof -
  have a: "advances cs s s'"
    if "metadata_file s' = metadata_doc cs m" "id_metadata s' = id_metadata s \<or> id_metadata s' \<noteq> None" for s'
    unfolding advances_def using that assms(2,4) by auto
  have k: "store_ok cs s'"
    if "metadata_file s' = metadata_doc cs m" "plan_file s' = plan_file s" "id_metadata s' \<in> {Some m, None}" for s'
    using that assms(2,3) by (auto simp: store_ok_def plan_stored_def)
  have r: "store_ok cs (restart_store (s\<lparr>metadata_file := metadata_file s\<rparr>))"
    using store_ok_restart [OF assms(1)] by simp
  show ?thesis
    using assms(1) a k r
    by (cases fault)
      (auto simp: save_metadata_def act_ok_def write_state_document_cases run_write_steps
        restart_store_def advances_same)
qed

lemma load_plan_state: "snd (load_plan cs s) = s \<and> fst (load_plan cs s) \<noteq> Died"
  by (auto simp: load_plan_def act_lift_def act_return_def act_raise_def
      split: sum.splits prod.splits json.splits option.splits)

lemma load_pending_plan_ok:
  assumes "known cs (Some m) s" "md_phase m = PHASE_PENDING"
  shows "\<exists>plan. load_pending_plan cs m s = (Ok plan, s) \<and> plan_file s = plan_doc cs plan \<and>
     list_all planned_ok plan"
proof -
  obtain plan where p: "plan_file s = plan_doc cs plan" "length plan = md_plan_size m"
    "list_all planned_ok plan"
    using assms by (auto simp: known_def plan_stored_def)
  have "load_pending_plan cs m s = (Ok plan, s)"
    using p(2) by (simp add: load_pending_plan_def act_bind_def load_saved_plan [OF p(1,3)] act_return_def)
  then show ?thesis using p by blast
qed

lemma save_plan_ok:
  assumes "known cs (Some m) s" "md_phase m \<noteq> PHASE_PENDING" "store_ok cs s"
  shows "act_ok cs (\<lambda>_ s'. known cs (Some m) s' \<and> plan_file s' = plan_doc cs plan \<and> id_routes s' = id_routes s)
     (save_plan cs fault plan s) s"
proof -
  have k: "store_ok cs (s\<lparr>plan_file := f\<rparr>)" "known cs (Some m) (s\<lparr>plan_file := f\<rparr>)"
    "store_ok cs (restart_store (s\<lparr>plan_file := f\<rparr>))" for f
    using assms by (auto simp: store_ok_def known_def plan_stored_def restart_store_def)
  show ?thesis
    by (cases fault)
      (auto simp: save_plan_def act_ok_def write_state_document_cases k advances_same assms(3)
        split: option.splits prod.splits sum.splits)
qed

section \<open>Startup, recording, migrating\<close>

definition startup_of :: "checksum_fn \<Rightarrow> identity_startup \<Rightarrow> id_store \<Rightarrow> bool" where
  "startup_of cs su s \<longleftrightarrow>
     (\<exists>m. id_metadata s = Some m \<and> metadata_file s = metadata_doc cs m \<and>
        su_phase su = md_phase m \<and> su_legacy_robot_id su = md_legacy_robot_id m \<and>
        (su_sole_identity_mode su \<longleftrightarrow> md_phase m = PHASE_SINGLE) \<and>
        (md_phase m = PHASE_PENDING \<longrightarrow> list_all planned_ok (su_plan su) \<and>
           plan_file s = plan_doc cs (su_plan su)))"

lemma phases [simp]:
  "PHASE_SINGLE \<noteq> PHASE_PENDING" "PHASE_PENDING \<noteq> PHASE_SINGLE" "PHASE_SINGLE \<noteq> PHASE_MIGRATED"
  "PHASE_MIGRATED \<noteq> PHASE_SINGLE" "PHASE_PENDING \<noteq> PHASE_MIGRATED" "PHASE_MIGRATED \<noteq> PHASE_PENDING"
  by (simp_all add: PHASE_SINGLE_def PHASE_PENDING_def PHASE_MIGRATED_def)

lemma begin_single_ok:
  assumes "store_ok cs s" "known cs md s"
  shows "act_ok cs (startup_of cs) (begin_single cs fl md s) s"
proof (cases md)
  case None
  let ?m = "\<lparr>md_phase = PHASE_SINGLE, md_legacy_robot_id = [], md_plan_size = 0\<rparr>"
  have "md_ok ?m" "plan_stored cs s ?m" by (simp_all add: md_ok_def PHASES_def plan_stored_def)
  moreover have "succeeds m0 ?m" if "metadata_file s = metadata_doc cs m0" for m0
    using that assms(2) by (simp add: known_def None)
  ultimately have "act_ok cs (\<lambda>_ s'. id_metadata s' = Some ?m \<and> metadata_file s' = metadata_doc cs ?m \<and>
      id_routes s' = id_routes s \<and> plan_file s' = plan_file s) (save_metadata cs (metadata_fault fl) ?m s) s"
    using save_metadata_ok [OF assms(1)] by blast
  then show ?thesis
    unfolding begin_single_def None option.case
    by (rule act_then_ok) (rule act_return_ok, assumption, simp add: startup_of_def)
next
  case (Some m)
  show ?thesis
  proof (cases "md_phase m = PHASE_PENDING")
    case True
    obtain plan where "load_pending_plan cs m s = (Ok plan, s)" "plan_file s = plan_doc cs plan"
      "list_all planned_ok plan"
      using load_pending_plan_ok [OF _ True] assms(2) Some by blast
    then show ?thesis
      using assms True
      by (simp add: begin_single_def Some act_bind_def act_return_def act_ok_def startup_of_def known_def)
  next
    case False
    then show ?thesis
      using assms
      by (auto simp: begin_single_def Some act_bind_def act_return_def act_ok_def startup_of_def known_def)
  qed
qed

lemma begin_multi_ok:
  assumes "store_ok cs s" "known cs md s"
  shows "act_ok cs (startup_of cs) (begin_multi cs fl sessions md s) s"
proof (cases md)
  case None
  then show ?thesis using assms(1) by (simp add: begin_multi_def act_raise_ok)
next
  case (Some m)
  have k: "known cs (Some m) s" using assms(2) Some by simp
  consider "md_legacy_robot_id m = []" | "md_legacy_robot_id m \<noteq> []" "md_phase m = PHASE_MIGRATED"
    | "md_legacy_robot_id m \<noteq> []" "md_phase m = PHASE_PENDING"
    | "md_legacy_robot_id m \<noteq> []" "md_phase m = PHASE_SINGLE"
    using k by (auto simp: known_def md_ok_def PHASES_def)
  then show ?thesis
  proof cases
    case 1
    then show ?thesis using assms(1) by (simp add: begin_multi_def Some act_raise_ok)
  next
    case 2
    then show ?thesis
      using assms(1) k by (auto simp: begin_multi_def Some intro!: act_return_ok simp: startup_of_def known_def)
  next
    case 3
    obtain plan where "load_pending_plan cs m s = (Ok plan, s)" "plan_file s = plan_doc cs plan"
      "list_all planned_ok plan"
      using load_pending_plan_ok [OF k 3(2)] by blast
    then show ?thesis
      using assms(1) k 3
      by (simp add: begin_multi_def Some act_bind_def act_return_def act_ok_def startup_of_def known_def)
  next
    case 4
    let ?pending = "\<lambda>plan. \<lparr>md_phase = PHASE_PENDING, md_legacy_robot_id = md_legacy_robot_id m,
        md_plan_size = length plan\<rparr>"
    have b: "begin_multi cs fl sessions md =
        act_bind (act_lift (freeze_plan sessions)) (\<lambda>plan.
        act_then (save_plan cs (plan_fault fl) plan)
        (act_then (save_metadata cs (metadata_fault fl) (?pending plan))
        (act_return \<lparr>su_phase = PHASE_PENDING, su_legacy_robot_id = md_legacy_robot_id m,
                     su_plan = plan, su_sole_identity_mode = False\<rparr>)))"
      using 4 by (simp add: begin_multi_def Some)
    show ?thesis
      unfolding b
    proof (rule act_bind_ok)
      show "act_ok cs (\<lambda>plan s'. s' = s \<and> list_all planned_ok plan) (act_lift (freeze_plan sessions) s) s"
        using assms(1) by (intro act_lift_ok) (simp_all add: freeze_plan_ok)
    next
      fix plan s1 assume s1: "s1 = s \<and> list_all planned_ok plan"
      show "act_ok cs (startup_of cs)
          (act_then (save_plan cs (plan_fault fl) plan)
          (act_then (save_metadata cs (metadata_fault fl) (?pending plan))
          (act_return \<lparr>su_phase = PHASE_PENDING, su_legacy_robot_id = md_legacy_robot_id m,
                       su_plan = plan, su_sole_identity_mode = False\<rparr>)) s1) s1"
        unfolding s1 [THEN conjunct1]
      proof (rule act_then_ok)
        show "act_ok cs (\<lambda>_ s'. known cs (Some m) s' \<and> plan_file s' = plan_doc cs plan \<and>
            id_routes s' = id_routes s) (save_plan cs (plan_fault fl) plan s) s"
          by (rule save_plan_ok [OF k _ assms(1)]) (simp add: 4)
      next
        fix s2 assume s2: "store_ok cs s2"
          "known cs (Some m) s2 \<and> plan_file s2 = plan_doc cs plan \<and> id_routes s2 = id_routes s"
        have "act_ok cs (\<lambda>_ s'. id_metadata s' = Some (?pending plan) \<and>
            metadata_file s' = metadata_doc cs (?pending plan) \<and>
            id_routes s' = id_routes s2 \<and> plan_file s' = plan_file s2)
            (save_metadata cs (metadata_fault fl) (?pending plan) s2) s2"
        proof (rule save_metadata_ok [OF s2(1)])
          show "md_ok (?pending plan)" using s2(2) by (simp add: known_def md_ok_def PHASES_def)
          show "plan_stored cs s2 (?pending plan)" using s2(2) s1 4(1) by (auto simp: plan_stored_def)
          show "succeeds m0 (?pending plan)"
            if "md_ok m0" "metadata_file s2 = metadata_doc cs m0" for m0
          proof -
            have "m0 = m" using that s2(2) metadata_doc_inj [of m0 m cs] by (simp add: known_def)
            then show ?thesis using 4(2) by (simp add: succeeds_def phase_rank_def)
          qed
        qed
        then show "act_ok cs (startup_of cs)
          (act_then (save_metadata cs (metadata_fault fl) (?pending plan))
          (act_return \<lparr>su_phase = PHASE_PENDING, su_legacy_robot_id = md_legacy_robot_id m,
                       su_plan = plan, su_sole_identity_mode = False\<rparr>) s2) s2"
          by (rule act_then_ok)
            (rule act_return_ok, assumption, use s1 s2(2) in \<open>simp add: startup_of_def\<close>)
      qed
    qed
  qed
qed

lemma known_routes [simp]: "known cs md (s\<lparr>id_routes := r\<rparr>) = known cs md s"
  by (simp add: known_def plan_stored_def split: option.splits)

lemma begin_startup_ok:
  assumes "store_ok cs s"
  shows "act_ok cs (startup_of cs) (begin_startup cs fl n sessions s) s"
  unfolding begin_startup_def
proof (rule act_bind_ok)
  show "act_ok cs (\<lambda>md s'. known cs md s' \<and> id_routes s' = id_routes s \<and> plan_file s' = plan_file s)
     (load_metadata cs s) s"
    using load_metadata_ok [OF assms] by blast
next
  fix md s1 assume s1: "store_ok cs s1" "known cs md s1 \<and> id_routes s1 = id_routes s \<and> plan_file s1 = plan_file s"
  let ?next = "\<lambda>s. if md = None \<and> has_routing_evidence s
          then act_raise (StateError ''Octo identity-routing metadata is missing'') s
          else if n \<le> 1 then begin_single cs fl md s else begin_multi cs fl sessions md s"
  have "act_ok cs (\<lambda>_ s'. known cs md s') (load_id_routes cs s1) s1"
    using s1 by (simp add: load_id_routes_def act_ok_def advances_same split: prod.splits)
  then show "act_ok cs (startup_of cs) (act_then (load_id_routes cs) ?next s1) s1"
    by (rule act_then_ok) (simp add: act_raise_ok begin_single_ok begin_multi_ok)
qed

lemma store_ok_known: "store_ok cs s \<Longrightarrow> id_metadata s = Some m \<Longrightarrow> known cs (Some m) s"
  unfolding store_ok_def known_def option.case
  by (metis metadata_doc_inj sfile.distinct(7))

lemma record_single_identity_ok:
  assumes "store_ok cs s" "id_metadata s = Some m" "valid_robot rid"
  shows "act_ok cs (\<lambda>_ s'. \<exists>m'. id_metadata s' = Some m' \<and> succeeds m m' \<and> md_phase m' = md_phase m)
     (record_single_identity cs fl rid s) s"
proof -
  have k: "known cs (Some m) s" by (rule store_ok_known [OF assms(1,2)])
  show ?thesis
  proof (cases "md_phase m = PHASE_SINGLE \<and> md_legacy_robot_id m = []")
    case True
    let ?m = "\<lparr>md_phase = PHASE_SINGLE, md_legacy_robot_id = rid, md_plan_size = 0\<rparr>"
    have su: "succeeds m ?m" using True by (simp add: succeeds_def phase_rank_def)
    have "act_ok cs (\<lambda>_ s'. id_metadata s' = Some ?m \<and> metadata_file s' = metadata_doc cs ?m \<and>
      id_routes s' = id_routes s \<and> plan_file s' = plan_file s) (save_metadata cs (metadata_fault fl) ?m s) s"
    proof (rule save_metadata_ok [OF assms(1)])
      show "md_ok ?m" using assms(3) by (simp add: md_ok_def PHASES_def)
      show "plan_stored cs s ?m" by (simp add: plan_stored_def)
      show "succeeds m0 ?m" if "md_ok m0" "metadata_file s = metadata_doc cs m0" for m0
        using that k su metadata_doc_inj [of m0 m cs] by (auto simp: known_def)
    qed
    moreover have "record_single_identity cs fl rid s = save_metadata cs (metadata_fault fl) ?m s"
      using True by (simp add: record_single_identity_def assms(2))
    ultimately show ?thesis using True su by (auto intro: act_ok_weaken)
  next
    case False
    then show ?thesis using assms(1,2) by (auto simp: record_single_identity_def act_ok_def)
  qed
qed

lemma bind_routes_plan_ok:
  assumes "store_ok cs s" "known cs (Some m) s"
  shows "act_ok cs (\<lambda>_ s'. known cs (Some m) s' \<and> plan_file s' = plan_file s) (bind_routes_plan rid plan s) s"
  using assms
  by (auto simp: bind_routes_plan_def act_ok_def advances_same split: prod.splits sum.splits)

lemma force_flush_ok:
  assumes "store_ok cs s" "known cs (Some m) s"
  shows "act_ok cs (\<lambda>_ s'. known cs (Some m) s' \<and> plan_file s' = plan_file s) (force_flush cs fault s) s"
proof -
  have "store_ok cs (restart_store (s\<lparr>id_routes := r\<rparr>))" for r
    using store_ok_restart [of cs "s\<lparr>id_routes := r\<rparr>"] assms(1) by simp
  then show ?thesis
    using assms
    by (auto simp: force_flush_def act_ok_def advances_same split: prod.splits option.splits)
qed

lemma bind_and_commit_ok:
  assumes "store_ok cs s" "known cs (Some m) s" "md_legacy_robot_id m \<noteq> []"
    "rid = md_legacy_robot_id m"
  shows "act_ok cs (\<lambda>_ s'. \<exists>m'. id_metadata s' = Some m' \<and> md_phase m' = PHASE_MIGRATED \<and>
      md_legacy_robot_id m' = rid) (bind_and_commit cs fl e rid plan s) s"
  unfolding bind_and_commit_def
proof (rule act_bind_ok, rule bind_routes_plan_ok [OF assms(1,2)])
  fix ok s1 assume s1: "store_ok cs s1" "known cs (Some m) s1 \<and> plan_file s1 = plan_file s"
  let ?m = "\<lparr>md_phase = PHASE_MIGRATED, md_legacy_robot_id = rid, md_plan_size = length plan\<rparr>"
  let ?Q = "\<lambda>_ s'. \<exists>m'. id_metadata s' = Some m' \<and> md_phase m' = PHASE_MIGRATED \<and>
      md_legacy_robot_id m' = rid"
  have k: "known cs (Some m) s1" using s1(2) by simp
  have commit: "act_ok cs ?Q (save_metadata cs (metadata_fault fl) ?m s2) s2"
    if s2: "store_ok cs s2" "known cs (Some m) s2" for s2
  proof (rule act_ok_weaken [OF save_metadata_ok [OF s2(1)]])
    show "md_ok ?m" using s2(2) assms(4) by (auto simp: known_def md_ok_def PHASES_def)
    show "plan_stored cs s2 ?m" by (simp add: plan_stored_def)
    show "succeeds m0 ?m" if "md_ok m0" "metadata_file s2 = metadata_doc cs m0" for m0
    proof -
      have "m0 = m" using that s2(2) metadata_doc_inj [of m0 m cs] by (simp add: known_def)
      then show ?thesis using assms(4) by (simp add: succeeds_def phase_rank_def)
    qed
  qed auto
  show "act_ok cs ?Q ((if \<not> ok then act_raise (StateError e)
      else act_bind (force_flush cs (routes_fault fl)) (\<lambda>written.
        if \<not> written then act_raise IoError else save_metadata cs (metadata_fault fl) ?m)) s1) s1"
  proof (cases ok)
    case True
    have "act_ok cs ?Q (act_bind (force_flush cs (routes_fault fl)) (\<lambda>written.
        if \<not> written then act_raise IoError else save_metadata cs (metadata_fault fl) ?m) s1) s1"
    proof (rule act_bind_ok, rule force_flush_ok [OF s1(1) k])
      fix written s2
      assume "store_ok cs s2" "known cs (Some m) s2 \<and> plan_file s2 = plan_file s1"
      then show "act_ok cs ?Q ((if \<not> written then act_raise IoError
          else save_metadata cs (metadata_fault fl) ?m) s2) s2"
        by (cases written) (simp_all add: commit act_raise_ok)
    qed
    then show ?thesis using True by simp
  qed (use s1 act_raise_ok in simp)
qed

lemma clear_plan_ok:
  assumes "store_ok cs s" "id_metadata s = Some m" "md_phase m = PHASE_MIGRATED"
  shows "act_ok cs (\<lambda>_ s'. id_metadata s' = Some m) (clear_plan fault s) s"
proof -
  have k: "metadata_file s = metadata_doc cs m" "md_ok m"
    using assms(1,2) by (simp_all add: store_ok_def)
  then have "store_ok cs (s\<lparr>plan_file := FMissing\<rparr>)"
    using assms by (auto simp: store_ok_def plan_stored_def)
  then show ?thesis
    using assms(1,2) store_ok_restart [OF assms(1)]
    by (auto simp: clear_plan_def act_ok_def advances_same split: option.splits)
qed

lemma apply_legacy_plan_ok:
  assumes "store_ok cs s" "known cs (Some m) s" "md_legacy_robot_id m \<noteq> []"
    "rid = md_legacy_robot_id m"
  shows "act_ok cs (\<lambda>_ s'. \<exists>m'. id_metadata s' = Some m' \<and> md_phase m' = PHASE_MIGRATED \<and>
      md_legacy_robot_id m' = rid) (apply_legacy_plan cs fl rid plan s) s"
  unfolding apply_legacy_plan_def
proof (rule act_then_ok, rule bind_and_commit_ok [OF assms])
  fix s1 assume s1: "store_ok cs s1" "\<exists>m'. id_metadata s1 = Some m' \<and> md_phase m' = PHASE_MIGRATED \<and>
      md_legacy_robot_id m' = rid"
  then obtain m' where m': "id_metadata s1 = Some m'" "md_phase m' = PHASE_MIGRATED" "md_legacy_robot_id m' = rid"
    by blast
  show "act_ok cs (\<lambda>_ s'. \<exists>m'. id_metadata s' = Some m' \<and> md_phase m' = PHASE_MIGRATED \<and>
      md_legacy_robot_id m' = rid) (clear_plan (unlink_fault fl) s1) s1"
    by (rule act_ok_weaken [OF clear_plan_ok [OF s1(1) m'(1,2)]]) (use m' in blast)
qed

lemma protect_ok:
  assumes "store_ok cs s" "id_metadata s = Some m" "previous \<noteq> []"
  shows "act_ok cs (\<lambda>_ s'. \<exists>m'. id_metadata s' = Some m' \<and> md_phase m' = PHASE_MIGRATED \<and>
      md_legacy_robot_id m' = previous) (protect_replaced_single_identity cs fl previous sessions s) s"
proof -
  have k: "known cs (Some m) s" by (rule store_ok_known [OF assms(1,2)])
  let ?Q = "\<lambda>_ s'. \<exists>m'. id_metadata s' = Some m' \<and> md_phase m' = PHASE_MIGRATED \<and>
      md_legacy_robot_id m' = previous"
  show ?thesis
  proof (cases "md_phase m \<noteq> PHASE_SINGLE \<or> md_legacy_robot_id m \<noteq> previous")
    case True
    then show ?thesis
      using assms(1,2) by (simp add: protect_replaced_single_identity_def act_bind_def act_raise_ok)
  next
    case False
    then have e: "protect_replaced_single_identity cs fl previous sessions s =
        act_bind (act_lift (freeze_plan sessions)) (\<lambda>plan.
        act_then (bind_and_commit cs fl ''legacy routes conflict'' previous plan)
          (act_return (length plan))) s"
      using assms(2) by (simp add: protect_replaced_single_identity_def act_bind_def)
    show ?thesis
      unfolding e
    proof (rule act_bind_ok)
      show "act_ok cs (\<lambda>_ s'. s' = s) (act_lift (freeze_plan sessions) s) s"
        by (rule act_lift_ok [OF assms(1)]) simp
    next
      fix plan s1 assume "s1 = s"
      have "act_ok cs ?Q (bind_and_commit cs fl ''legacy routes conflict'' previous plan s) s"
        using bind_and_commit_ok [OF assms(1) k] False assms(3) by simp
      then show "act_ok cs ?Q (act_then (bind_and_commit cs fl ''legacy routes conflict'' previous plan)
          (act_return (length plan)) s1) s1"
        unfolding \<open>s1 = s\<close> by (rule act_then_ok) (rule act_return_ok)
    qed
  qed
qed

end
