(* ===== verification/StartupSafety.thy ===== *)
theory StartupSafety
  imports StartupLogic
begin

text \<open>
  Whole lives of a profile: the recorded identity is written once, committed migrations hold,
  interrupted ones resume, and ambiguous states start nothing.
\<close>

section \<open>Whole lives\<close>

definition host_ok :: "checksum_fn \<Rightarrow> host \<Rightarrow> bool" where
  "host_ok cs h \<longleftrightarrow> store_ok cs (h_store h) \<and>
     (\<forall>su. h_startup h = Some su \<longrightarrow>
        (\<exists>m. id_metadata (h_store h) = Some m \<and>
           (su_legacy_robot_id su = [] \<or> su_legacy_robot_id su = md_legacy_robot_id m)))"

lemma host_ok_startup:
  assumes "host_ok cs h" "store_ok cs s" "advances cs (h_store h) s" "h_startup h = Some su"
  shows "\<exists>m. id_metadata s = Some m \<and> (su_legacy_robot_id su = [] \<or> su_legacy_robot_id su = md_legacy_robot_id m)"
proof -
  obtain m where m: "id_metadata (h_store h) = Some m"
    "su_legacy_robot_id su = [] \<or> su_legacy_robot_id su = md_legacy_robot_id m"
    using assms(1,4) by (auto simp: host_ok_def)
  then have d: "metadata_file (h_store h) = metadata_doc cs m" "md_ok m"
    using assms(1) by (auto simp: host_ok_def store_ok_def)
  obtain m1 where m1: "id_metadata s = Some m1" using assms(3) m(1) by (auto simp: advances_def)
  obtain m' where m': "md_ok m'" "metadata_file s = metadata_doc cs m'" "succeeds m m'"
    using assms(3) d unfolding advances_def by blast
  have "md_ok m1" "metadata_file s = metadata_doc cs m1" using assms(2) m1 by (simp_all add: store_ok_def)
  then have "m1 = m'" using m'(1,2) metadata_doc_inj by metis
  then show ?thesis using m1 m(2) m'(3) by (auto simp: succeeds_def)
qed

lemma host_ok_store:
  assumes "host_ok cs h" "store_ok cs s" "advances cs (h_store h) s"
  shows "host_ok cs (h\<lparr>h_store := s\<rparr>)"
  using host_ok_startup [OF assms] assms(2) by (auto simp: host_ok_def)

lemma new_host_ok: "store_ok cs s \<Longrightarrow> host_ok cs (new_host n s)"
  by (simp add: host_ok_def new_host_def)

lemma h_store_new_host [simp]: "h_store (new_host n s) = s"
  by (simp add: new_host_def)

lemma metadata_file_restart [simp]: "metadata_file (restart_store s) = metadata_file s"
  by (simp add: restart_store_def)

definition step_ok :: "checksum_fn \<Rightarrow> 'a step \<Rightarrow> host \<Rightarrow> bool" where
  "step_ok cs r h = (case r of
      (Died, h') \<Rightarrow> store_ok cs (restart_store (h_store h')) \<and> advances cs (h_store h) (h_store h')
    | (_, h') \<Rightarrow> host_ok cs h' \<and> advances cs (h_store h) (h_store h'))"

lemma initialize_ok:
  assumes "host_ok cs h"
  shows "step_ok cs (initialize_identity_state cs fl n sessions h) h"
proof -
  have s: "store_ok cs (h_store h)" using assms by (simp add: host_ok_def)
  obtain r s' where b: "begin_startup cs fl n sessions (h_store h) = (r, s')" by fastforce
  have a: "act_ok cs (startup_of cs) (r, s') (h_store h)" using begin_startup_ok [OF s] b by metis
  show ?thesis
  proof (cases r)
    case (Ok su)
    then show ?thesis
      using a by (auto simp: initialize_identity_state_def b step_ok_def act_ok_def host_ok_def startup_of_def)
  next
    case (Raised e)
    then show ?thesis
      using a host_ok_store [OF assms, of s']
      by (cases e) (simp_all add: initialize_identity_state_def b step_ok_def act_ok_def)
  next
    case Died
    then show ?thesis
      using a by (simp add: initialize_identity_state_def b step_ok_def act_ok_def)
  qed
qed

lemma migration_ok:
  assumes "host_ok cs h" "h_startup h = Some su" "rid \<noteq> []"
  shows "step_ok cs (apply_legacy_migration cs fl rid h) h"
proof (cases "legacy_primary_robot_id h = rid")
  case True
  have s: "store_ok cs (h_store h)" using assms(1) by (simp add: host_ok_def)
  obtain m where m: "id_metadata (h_store h) = Some m" "rid = md_legacy_robot_id m"
    using assms True by (auto simp: host_ok_def legacy_primary_robot_id_def)
  have k: "known cs (Some m) (h_store h)" by (rule store_ok_known [OF s m(1)])
  obtain r s' where b: "apply_legacy_plan cs fl rid (h_plan h) (h_store h) = (r, s')" by fastforce
  have a: "act_ok cs (\<lambda>_ s'. \<exists>m'. id_metadata s' = Some m' \<and> md_phase m' = PHASE_MIGRATED \<and>
      md_legacy_robot_id m' = rid) (r, s') (h_store h)"
    using apply_legacy_plan_ok [OF s k _ m(2), of fl "h_plan h"] assms(3) m(2) b by metis
  show ?thesis
  proof (cases r)
    case (Ok x)
    then show ?thesis
      using a True by (auto simp: apply_legacy_migration_def b step_ok_def act_ok_def host_ok_def
          migrated_startup_def)
  next
    case (Raised e)
    then show ?thesis
      using a True host_ok_store [OF assms(1), of s']
      by (cases e) (simp_all add: apply_legacy_migration_def b step_ok_def act_ok_def)
  next
    case Died
    then show ?thesis
      using a True by (simp add: apply_legacy_migration_def b step_ok_def act_ok_def)
  qed
qed (use assms in \<open>simp add: apply_legacy_migration_def step_ok_def\<close>)

lemma registered_ok:
  assumes "host_ok cs h" "valid_robot rid"
  shows "step_ok cs (on_runtime_registered cs fl sessions is_first rid h) h"
proof (cases "h_startup h")
  case None
  then show ?thesis using assms(1) by (simp add: on_runtime_registered_def step_ok_def)
next
  case (Some su)
  have r: "rid \<noteq> []" using assms(2) by (auto simp: valid_robot_def matches_def)
  have s: "store_ok cs (h_store h)" using assms(1) by (simp add: host_ok_def)
  obtain m where m: "id_metadata (h_store h) = Some m"
    "su_legacy_robot_id su = [] \<or> su_legacy_robot_id su = md_legacy_robot_id m"
    using assms(1) Some by (auto simp: host_ok_def)
  let ?p = "legacy_primary_robot_id h"
  consider "h_sole h" "?p \<noteq> [] \<and> ?p \<noteq> rid" | "h_sole h" "\<not> (?p \<noteq> [] \<and> ?p \<noteq> rid)" | "\<not> h_sole h" by blast
  then show ?thesis
  proof cases
    case 1
    obtain o1 s' where b: "protect_replaced_single_identity cs fl ?p sessions (h_store h) = (o1, s')"
      by fastforce
    have a: "act_ok cs (\<lambda>_ s'. \<exists>m'. id_metadata s' = Some m' \<and> md_phase m' = PHASE_MIGRATED \<and>
      md_legacy_robot_id m' = ?p) (o1, s') (h_store h)"
      using protect_ok [OF s m(1), of ?p fl sessions] 1(2) b by metis
    then show ?thesis
      using 1 Some r host_ok_store [OF assms(1), of s']
      by (cases o1) (auto simp: on_runtime_registered_def Let_def b step_ok_def act_ok_def host_ok_def
          migrated_startup_def)
  next
    case 2
    obtain o1 s' where b: "record_single_identity cs fl rid (h_store h) = (o1, s')" by fastforce
    have a: "act_ok cs (\<lambda>_ s'. \<exists>m'. id_metadata s' = Some m' \<and> succeeds m m' \<and> md_phase m' = md_phase m)
        (o1, s') (h_store h)"
      using record_single_identity_ok [OF s m(1) assms(2), of fl] b by metis
    have e: "on_runtime_registered cs fl sessions is_first rid h =
        (case (o1, s') of (Ok _, s) \<Rightarrow> (Ok (), h\<lparr>h_store := s\<rparr>)
            | (Raised e, s) \<Rightarrow> (Raised (wrap_error e), h\<lparr>h_store := s\<rparr>)
            | (Died, s) \<Rightarrow> (Died, h\<lparr>h_store := s\<rparr>))"
      using 2 Some r unfolding on_runtime_registered_def Let_def b by auto
    show ?thesis
      unfolding e using a host_ok_store [OF assms(1), of s']
      by (cases o1) (simp_all add: step_ok_def act_ok_def)
  next
    case 3
    then show ?thesis
      using assms(1) Some r migration_ok [OF assms(1) Some r]
      by (simp add: on_runtime_registered_def step_ok_def)
  qed
qed

lemma after_death_ok:
  assumes "step_ok cs r h"
  shows "host_ok cs (after_death n r) \<and>
    (\<forall>m. md_ok m \<longrightarrow> metadata_file (h_store h) = metadata_doc cs m \<longrightarrow>
        (\<exists>m'. md_ok m' \<and> metadata_file (h_store (after_death n r)) = metadata_doc cs m' \<and> succeeds m m'))"
  using assms
  by (cases "fst r"; cases r)
    (auto simp: step_ok_def after_death_def advances_def new_host_ok split: outcome.splits)

lemma life_step_ok:
  assumes "host_ok cs h"
  shows "host_ok cs (life_step cs op h) \<and>
    (\<forall>m. md_ok m \<longrightarrow> metadata_file (h_store h) = metadata_doc cs m \<longrightarrow>
        (\<exists>m'. md_ok m' \<and> metadata_file (h_store (life_step cs op h)) = metadata_doc cs m' \<and> succeeds m m'))"
proof (cases op)
  case (Connect fl n sessions)
  then show ?thesis using after_death_ok [OF initialize_ok [OF assms]] by simp
next
  case (Registered fl sessions is_first rid)
  then show ?thesis
    using after_death_ok [OF registered_ok [OF assms]] assms succeeds_refl by (auto split: if_splits)
next
  case (RouteOp op')
  have "host_ok cs (life_step cs op h)" using assms by (auto simp: RouteOp host_ok_def)
  then show ?thesis using succeeds_refl by (cases "h_startup h") (auto simp: RouteOp)
next
  case (Crash n)
  then show ?thesis
    using assms store_ok_restart [of cs "h_store h"] succeeds_refl new_host_ok
    by (auto simp: host_ok_def [of cs h])
qed

lemma run_life_ok:
  "host_ok cs h \<Longrightarrow> host_ok cs (run_life cs ops h) \<and>
    (\<forall>m. md_ok m \<longrightarrow> metadata_file (h_store h) = metadata_doc cs m \<longrightarrow>
        (\<exists>m'. md_ok m' \<and> metadata_file (h_store (run_life cs ops h)) = metadata_doc cs m' \<and> succeeds m m'))"
proof (induction ops arbitrary: h)
  case Nil
  then show ?case using succeeds_refl by (auto simp: run_life_def)
next
  case (Cons op ops)
  have r: "run_life cs (op # ops) h = run_life cs ops (life_step cs op h)" by (simp add: run_life_def)
  from life_step_ok [OF Cons.prems, of op] Cons.IH [of "life_step cs op h"]
  show ?case unfolding r using succeeds_trans by meson
qed

lemma first_run_ok: "host_ok cs (first_run n)"
  by (simp add: first_run_def host_ok_def new_host_def store_ok_def)

definition recorded :: "checksum_fn \<Rightarrow> host \<Rightarrow> identity_metadata option" where
  \<comment> \<open>what the metadata file says\<close>
  "recorded cs h =
     (case read_state_document cs (metadata_file (h_store h)) of
        Inr (READ_OK, body) \<Rightarrow> (case metadata_from_body body of Inr m \<Rightarrow> Some m | Inl _ \<Rightarrow> None)
      | _ \<Rightarrow> None)"

lemma recorded_doc:
  assumes "host_ok cs h"
  shows "recorded cs h = Some m \<longleftrightarrow> md_ok m \<and> metadata_file (h_store h) = metadata_doc cs m"
proof -
  have d: "recorded cs h = Some m'" if "md_ok m'" "metadata_file (h_store h) = metadata_doc cs m'" for m'
    using that by (simp add: recorded_def read_written metadata_roundtrip)
  have "store_ok cs (h_store h)" using assms by (simp add: host_ok_def)
  then show ?thesis
  proof (cases rule: store_ok_cases)
    case 1
    then show ?thesis by (simp add: recorded_def read_state_document_def)
  next
    case (2 m')
    then show ?thesis using d [of m'] d [of m] metadata_doc_inj [of m' m cs] by auto
  qed
qed

text \<open>
  C21. The durable identity of a profile is written once and only moves forward. Over any life of
  the process -- connects with any number of tokens, registrations of any identities, route
  operations, writes that fail, deaths in the middle of a write, restarts -- the phase on disk
  never goes back, and once the legacy identity is on disk it is never replaced, so that no
  later start can hand the sessions of one identity to another.
\<close>

theorem legacy_identity_written_once:
  assumes "recorded cs (run_life cs ops (first_run n)) = Some m"
  shows "\<exists>m'. recorded cs (run_life cs (ops @ later) (first_run n)) = Some m' \<and>
     phase_rank (md_phase m) \<le> phase_rank (md_phase m') \<and>
     (md_legacy_robot_id m \<noteq> [] \<longrightarrow> md_legacy_robot_id m' = md_legacy_robot_id m)"
proof -
  let ?h = "run_life cs ops (first_run n)"
  have h: "host_ok cs ?h" using run_life_ok first_run_ok by blast
  have r: "run_life cs (ops @ later) (first_run n) = run_life cs later ?h" by (simp add: run_life_def)
  have "md_ok m" "metadata_file (h_store ?h) = metadata_doc cs m"
    using assms recorded_doc [OF h] by simp_all
  then obtain m' where m': "md_ok m'" "metadata_file (h_store (run_life cs later ?h)) = metadata_doc cs m'"
    "succeeds m m'"
    using run_life_ok [OF h] by blast
  have "recorded cs (run_life cs later ?h) = Some m'"
    using m' recorded_doc run_life_ok [OF h] by blast
  then show ?thesis using m'(3) unfolding r succeeds_def by blast
qed

section \<open>Routes through whole lives\<close>

definition routes_kept :: "checksum_fn \<Rightarrow> (routes \<Rightarrow> bool) \<Rightarrow> 'a outcome \<times> id_store \<Rightarrow> bool" where
  "routes_kept cs P r = (case r of
      (Died, s') \<Rightarrow> holds_on_disk cs P (path_file (id_routes s')) (backup_file (id_routes s'))
    | (_, s') \<Rightarrow> established cs P (id_routes s'))"

definition keeps_routes :: "checksum_fn \<Rightarrow> (routes \<Rightarrow> bool) \<Rightarrow> 'a action \<Rightarrow> bool" where
  "keeps_routes cs P m \<longleftrightarrow> (\<forall>s. established cs P (id_routes s) \<longrightarrow> routes_kept cs P (m s))"

lemma keeps_same:
  assumes "\<And>s. id_routes (snd (m s)) = id_routes s"
  shows "keeps_routes cs P m"
  unfolding keeps_routes_def
proof (intro allI impI)
  fix s :: id_store assume e: "established cs P (id_routes s)"
  obtain r s' where m: "m s = (r, s')" by fastforce
  have "id_routes s' = id_routes s" using assms [of s] by (simp add: m)
  then show "routes_kept cs P (m s)"
    using e by (cases r) (simp_all add: m routes_kept_def established_def)
qed

lemma keeps_bind:
  assumes "keeps_routes cs P m" "\<And>x. keeps_routes cs P (f x)"
  shows "keeps_routes cs P (act_bind m f)"
  unfolding keeps_routes_def
proof (intro allI impI)
  fix s :: id_store assume "established cs P (id_routes s)"
  then have k: "routes_kept cs P (m s)" using assms(1) by (simp add: keeps_routes_def)
  obtain r s' where m: "m s = (r, s')" by fastforce
  show "routes_kept cs P (act_bind m f s)"
  proof (cases r)
    case (Ok x)
    then have "routes_kept cs P (f x s')"
      using k assms(2) [of x] by (simp add: m routes_kept_def keeps_routes_def)
    then show ?thesis by (simp add: act_bind_def m Ok)
  qed (use k in \<open>simp_all add: act_bind_def m routes_kept_def\<close>)
qed

lemma keeps_then: "keeps_routes cs P m \<Longrightarrow> keeps_routes cs P n \<Longrightarrow> keeps_routes cs P (act_then m n)"
  unfolding act_then_def by (rule keeps_bind)

lemma same_routes:
  "id_routes (snd (act_return x s)) = id_routes s"
  "id_routes (snd (act_raise e s)) = id_routes s"
  "id_routes (snd (act_lift y s)) = id_routes s"
  "id_routes (snd (load_metadata cs s)) = id_routes s"
  "id_routes (snd (save_metadata cs fault m s)) = id_routes s"
  "id_routes (snd (load_plan cs s)) = id_routes s"
  "id_routes (snd (save_plan cs fault plan s)) = id_routes s"
  "id_routes (snd (clear_plan unlink s)) = id_routes s"
  "id_routes (snd (record_single_identity cs fl rid s)) = id_routes s"
proof -
  show m: "id_routes (snd (save_metadata cs fault m s)) = id_routes s" for fault m s
    by (simp add: save_metadata_def split: prod.split option.split sum.split)
  show "id_routes (snd (save_plan cs fault plan s)) = id_routes s"
    by (simp add: save_plan_def split: prod.split option.split sum.split)
  show "id_routes (snd (load_metadata cs s)) = id_routes s"
    by (simp add: load_metadata_def split: prod.split option.split sum.split)
  show "id_routes (snd (record_single_identity cs fl rid s)) = id_routes s"
    by (simp add: record_single_identity_def Let_def m)
  show "id_routes (snd (load_plan cs s)) = id_routes s" using load_plan_state by simp
qed (simp_all add: act_return_def act_raise_def act_lift_def clear_plan_def split: sum.split option.split)

lemmas keeps_basic = keeps_same [OF same_routes(1)] keeps_same [OF same_routes(2)]
  keeps_same [OF same_routes(3)] keeps_same [OF same_routes(4)] keeps_same [OF same_routes(5)]
  keeps_same [OF same_routes(6)] keeps_same [OF same_routes(7)] keeps_same [OF same_routes(8)]
  keeps_same [OF same_routes(9)]

lemma keeps_pending_plan: "keeps_routes cs P (load_pending_plan cs m)"
  unfolding load_pending_plan_def by (rule keeps_bind) (simp_all add: keeps_basic)

lemma keeps_begin_single: "keeps_routes cs P (begin_single cs fl md)"
  unfolding begin_single_def
  by (auto intro!: keeps_bind keeps_then simp: keeps_basic keeps_pending_plan split: option.split)

lemma keeps_begin_multi: "keeps_routes cs P (begin_multi cs fl sessions md)"
  unfolding begin_multi_def
  by (auto intro!: keeps_bind keeps_then simp: keeps_basic keeps_pending_plan split: option.split)

definition unloaded :: "routes \<Rightarrow> bool" where
  "unloaded r \<longleftrightarrow> r = new_routes (path_file r) (backup_file r)"

context route_fact
begin

lemma load_established:
  assumes "holds_on_disk cs P (path_file r) (backup_file r)" "established cs P r \<or> unloaded r"
  shows "\<exists>r'. load_routes cs r = (True, r') \<and> established cs P r'"
proof -
  consider g where "path_file r = snapshot_of cs g" "routes_ok g" "P g"
    | g where "path_file r = FMissing" "backup_file r = snapshot_of cs g" "routes_ok g" "P g"
    | "path_file r = FMissing" "backup_file r = FMissing" "P fresh_routes"
    using assms(1) unfolding holds_on_disk_def by blast
  then show ?thesis
  proof cases
    case (1 g)
    obtain r' where r': "apply_body (routes_body g) r = (True, r')" "reloads g r'" "routes_ok r'"
      "path_file r' = path_file r" "backup_file r' = backup_file r"
      using apply_body_restores [OF 1(2), of r] by blast
    have "load_routes cs r = (True, r')"
      by (simp add: load_routes_def 1 read_written apply_body_canon r'(1))
    then show ?thesis using r' reload [OF 1(3) r'(2)] assms(1) by (auto simp: established_def)
  next
    case (2 g)
    let ?r = "r\<lparr>restored_from_backup := True\<rparr>"
    obtain r' where r': "apply_body (routes_body g) ?r = (True, r')" "reloads g r'" "routes_ok r'"
      "path_file r' = path_file r" "backup_file r' = backup_file r"
      using apply_body_restores [OF 2(3), of ?r] by auto
    have "read_state_document cs (path_file r) = Inr (READ_MISSING, JNull)"
      by (simp add: 2 read_state_document_def)
    then have "load_routes cs r = (True, r')"
      by (simp add: load_routes_def 2 read_written apply_body_canon r'(1))
    then show ?thesis using r' reload [OF 2(4) r'(2)] assms(1) by (auto simp: established_def)
  next
    case 3
    have l: "load_routes cs r = (True, r)" by (simp add: load_routes_def 3 read_state_document_def)
    have "established cs P r" if "unloaded r"
    proof -
      have "r = fresh_routes" using that 3 by (simp add: unloaded_def fresh_routes_def)
      then show ?thesis using fresh_established 3(3) by simp
    qed
    then show ?thesis using l assms(2) by blast
  qed
qed

lemma keeps_bind_plan: "keeps_routes cs P (bind_routes_plan rid plan)"
  unfolding keeps_routes_def
proof (intro allI impI)
  fix s :: id_store assume e: "established cs P (id_routes s)"
  obtain x r where b: "bind_plan rid plan (id_routes s) = (x, r)" by fastforce
  have "established cs P r" using bind_plan_established [OF e, of rid plan] by (simp add: b)
  then show "routes_kept cs P (bind_routes_plan rid plan s)"
    by (cases x) (simp_all add: bind_routes_plan_def b routes_kept_def)
qed

lemma force_flush_result:
  assumes "established cs P r"
  shows "case flush cs fault True r of
      (None, r') \<Rightarrow> holds_on_disk cs P (path_file r') (backup_file r') | (Some _, r') \<Rightarrow> established cs P r'"
proof -
  obtain res r1 where w: "write_snapshot cs fault (routes_body r) (r\<lparr>dirty := False\<rparr>) = (res, r1)"
    by fastforce
  from write_snapshot_established [of cs "r\<lparr>dirty := False\<rparr>" fault] assms w
  show ?thesis
    by (simp add: flush_def w split: option.splits bool.splits)
qed

lemma keeps_force_flush: "keeps_routes cs P (force_flush cs fault)"
  unfolding keeps_routes_def
proof (intro allI impI)
  fix s :: id_store assume "established cs P (id_routes s)"
  from force_flush_result [OF this, of fault] show "routes_kept cs P (force_flush cs fault s)"
    by (simp add: force_flush_def routes_kept_def split: prod.splits option.splits)
qed

lemma keeps_commit: "keeps_routes cs P (bind_and_commit cs fl e rid plan)"
  unfolding bind_and_commit_def
  by (intro keeps_bind keeps_bind_plan) (simp add: keeps_basic keeps_bind keeps_force_flush)

lemma keeps_apply: "keeps_routes cs P (apply_legacy_plan cs fl rid plan)"
  unfolding apply_legacy_plan_def by (intro keeps_then keeps_commit keeps_basic)

lemma keeps_protect: "keeps_routes cs P (protect_replaced_single_identity cs fl previous sessions)"
proof -
  have "keeps_routes cs P (\<lambda>s. case id_metadata s of Some m \<Rightarrow> (Ok (Some m), s) | None \<Rightarrow> load_metadata cs s)"
    by (rule keeps_same) (simp add: same_routes split: option.split)
  then show ?thesis
    unfolding protect_replaced_single_identity_def
    by (intro keeps_bind) (simp_all add: keeps_basic keeps_then keeps_bind keeps_commit)
qed

end

definition host_routes :: "checksum_fn \<Rightarrow> (routes \<Rightarrow> bool) \<Rightarrow> host \<Rightarrow> bool" where
  "host_routes cs P h \<longleftrightarrow>
     (let r = id_routes (h_store h) in
      holds_on_disk cs P (path_file r) (backup_file r) \<and>
      (established cs P r \<or> (h_startup h = None \<and> unloaded r)))"

definition life_allowed :: "(target_key \<Rightarrow> bool) \<Rightarrow> life_op \<Rightarrow> bool" where
  "life_allowed removable op = (case op of RouteOp r \<Rightarrow> allowed removable r | _ \<Rightarrow> True)"

lemma established_disk: "established cs P r \<Longrightarrow> holds_on_disk cs P (path_file r) (backup_file r)"
  by (simp add: established_def)

lemma host_routes_established:
  "established cs P (id_routes (h_store h)) \<Longrightarrow> host_routes cs P h"
  by (simp add: host_routes_def established_disk)

lemma host_routes_dead:
  "holds_on_disk cs P (path_file (id_routes s)) (backup_file (id_routes s)) \<Longrightarrow>
   host_routes cs P (new_host n (restart_store s))"
  by (simp add: host_routes_def new_host_def restart_store_def unloaded_def Let_def)
    (simp add: new_routes_def)

context route_fact
begin

lemma begin_routes:
  assumes "host_routes cs P h"
  shows "case begin_startup cs fl n sessions (h_store h) of
      (Ok _, s') \<Rightarrow> established cs P (id_routes s')
    | (Raised _, s') \<Rightarrow> established cs P (id_routes s') \<or> id_routes s' = id_routes (h_store h)
    | (Died, s') \<Rightarrow> holds_on_disk cs P (path_file (id_routes s')) (backup_file (id_routes s'))"
proof -
  obtain x s1 where m: "load_metadata cs (h_store h) = (x, s1)" by fastforce
  have s1: "id_routes s1 = id_routes (h_store h)" using same_routes(4) [of cs "h_store h"] by (simp add: m)
  obtain r' where r': "load_routes cs (id_routes s1) = (True, r')" "established cs P r'"
    using load_established [of cs "id_routes s1"] assms unfolding s1 host_routes_def Let_def by blast
  show ?thesis
  proof (cases x)
    case (Ok md)
    let ?s2 = "s1\<lparr>id_routes := r'\<rparr>"
    let ?next = "\<lambda>s. if md = None \<and> has_routing_evidence s
          then act_raise (StateError ''Octo identity-routing metadata is missing'') s
          else if n \<le> 1 then begin_single cs fl md s else begin_multi cs fl sessions md s"
    have e: "begin_startup cs fl n sessions (h_store h) = ?next ?s2"
      by (simp add: begin_startup_def act_bind_def act_then_def m Ok load_id_routes_def r'(1))
    have "keeps_routes cs P (begin_single cs fl md)" "keeps_routes cs P (begin_multi cs fl sessions md)"
      by (rule keeps_begin_single keeps_begin_multi)+
    then have "routes_kept cs P (?next ?s2)"
      using r'(2) by (simp add: keeps_routes_def) (simp add: routes_kept_def act_raise_def)
    then show ?thesis unfolding e by (auto simp: routes_kept_def split: prod.splits outcome.splits)
  next
    case (Raised e)
    then show ?thesis using s1 by (simp add: begin_startup_def act_bind_def m)
  next
    case Died
    then show ?thesis
      using m by (auto simp: load_metadata_def split: sum.splits prod.splits if_splits)
  qed
qed

lemma registered_routes:
  assumes "host_routes cs P h"
  shows "host_routes cs P (after_death n (on_runtime_registered cs fl sessions is_first rid h))"
proof (cases "rid = [] \<or> h_startup h = None")
  case True
  then show ?thesis using assms by (simp add: on_runtime_registered_def after_death_def)
next
  case False
  then have e: "established cs P (id_routes (h_store h))" using assms by (auto simp: host_routes_def Let_def)
  let ?p = "legacy_primary_robot_id h"
  obtain o1 s1 where p: "protect_replaced_single_identity cs fl ?p sessions (h_store h) = (o1, s1)" by fastforce
  obtain o2 s2 where r: "record_single_identity cs fl rid (h_store h) = (o2, s2)" by fastforce
  obtain o3 s3 where a: "apply_legacy_plan cs fl rid (h_plan h) (h_store h) = (o3, s3)" by fastforce
  have k9: "keeps_routes cs P (record_single_identity cs fl rid)" by (rule keeps_basic)
  have k: "routes_kept cs P (o1, s1)" "routes_kept cs P (o2, s2)" "routes_kept cs P (o3, s3)"
    using keeps_protect [of cs fl ?p sessions] k9
      keeps_apply [of cs fl rid "h_plan h"] e
    unfolding keeps_routes_def p [symmetric] r [symmetric] a [symmetric] by blast+
  have 1: "host_routes cs P (after_death n (case (o1, s1) of
      (Ok x, s) \<Rightarrow> (Ok (), h\<lparr>h_store := s, h_startup := Some (migrated_startup ?p), h_plan := [],
                          h_plan_targets := [], h_sole := False\<rparr>)
            | (Raised e, s) \<Rightarrow> (Raised (wrap_error e), h\<lparr>h_store := s\<rparr>)
            | (Died, s) \<Rightarrow> (Died :: unit outcome, h\<lparr>h_store := s\<rparr>)))"
    using k(1) by (cases o1) (auto simp: after_death_def routes_kept_def host_routes_established host_routes_dead)
  have 2: "host_routes cs P (after_death n (case (o2, s2) of
      (Ok x, s) \<Rightarrow> (Ok (), h\<lparr>h_store := s\<rparr>)
            | (Raised e, s) \<Rightarrow> (Raised (wrap_error e), h\<lparr>h_store := s\<rparr>)
            | (Died, s) \<Rightarrow> (Died :: unit outcome, h\<lparr>h_store := s\<rparr>)))"
    using k(2) by (cases o2) (auto simp: after_death_def routes_kept_def host_routes_established host_routes_dead)
  have 3: "host_routes cs P (after_death n (apply_legacy_migration cs fl rid h))"
  proof (cases o3)
    case (Raised e')
    then show ?thesis
      using k(3) assms
      by (cases e') (auto simp: apply_legacy_migration_def a after_death_def routes_kept_def
          host_routes_established)
  qed (use k(3) assms in \<open>auto simp: apply_legacy_migration_def a after_death_def routes_kept_def
      host_routes_established host_routes_dead\<close>)
  have 4: "host_routes cs P (after_death n (Ok (), h))" using assms by (simp add: after_death_def)
  show ?thesis
    unfolding on_runtime_registered_def Let_def p r
    using False 1 2 3 4 by auto
qed

lemma life_step_routes:
  assumes "host_routes cs P h" "life_allowed removable op"
  shows "host_routes cs P (life_step cs op h)"
proof (cases op)
  case (Connect fl n sessions)
  obtain x s where b: "begin_startup cs fl n sessions (h_store h) = (x, s)" by fastforce
  from begin_routes [OF assms(1), of fl n sessions] show ?thesis
  proof (cases x)
    case (Raised e)
    then have "established cs P (id_routes s) \<or> id_routes s = id_routes (h_store h)"
      using begin_routes [OF assms(1), of fl n sessions] by (simp add: b)
    then have "host_routes cs P (h\<lparr>h_store := s\<rparr>)"
      using assms(1) by (auto simp: host_routes_def established_disk)
    then show ?thesis
      by (cases e) (simp_all add: Connect initialize_identity_state_def b Raised after_death_def)
  qed (auto simp: Connect initialize_identity_state_def b after_death_def host_routes_established
      host_routes_dead)
next
  case (Registered fl sessions is_first rid)
  then show ?thesis using registered_routes [OF assms(1)] assms(1) by simp
next
  case (RouteOp op')
  have "established cs P (run_ops cs [op'] (id_routes (h_store h)))" if "h_startup h \<noteq> None"
    using assms that by (intro survives) (auto simp: host_routes_def RouteOp life_allowed_def Let_def)
  then show ?thesis
    using assms(1) by (auto simp: RouteOp run_ops_def host_routes_established)
next
  case (Crash n)
  then show ?thesis using assms(1) host_routes_dead by (simp add: host_routes_def Let_def)
qed

lemma run_life_routes:
  "host_routes cs P h \<Longrightarrow> list_all (life_allowed removable) ops \<Longrightarrow> host_routes cs P (run_life cs ops h)"
  by (induction ops arbitrary: h) (simp_all add: run_life_def life_step_routes)

end

lemma first_run_routes: "P fresh_routes \<Longrightarrow> host_routes cs P (first_run n)"
  by (simp add: host_routes_established first_run_def fresh_established)

lemma committed_plan:
  assumes "apply_legacy_plan cs fl rid plan s = (Ok x, s')"
  obtains r1 where "bind_plan rid plan (id_routes s) = (Inr True, r1)"
    "flush cs (routes_fault fl) True r1 = (Some True, id_routes s')"
proof -
  obtain x1 r1 where b: "bind_plan rid plan (id_routes s) = (x1, r1)" by fastforce
  obtain x2 r2 where f: "flush cs (routes_fault fl) True r1 = (x2, r2)" by fastforce
  have x1: "x1 = Inr True"
    using assms b
    by (cases x1)
      (auto simp: apply_legacy_plan_def act_then_def act_bind_def bind_and_commit_def bind_routes_plan_def
        act_raise_def split: if_splits)
  have x2: "x2 = Some True"
    using assms b f x1
    by (cases x2)
      (auto simp: apply_legacy_plan_def act_then_def act_bind_def bind_and_commit_def bind_routes_plan_def
        force_flush_def act_raise_def split: if_splits)
  let ?m = "\<lparr>md_phase = PHASE_MIGRATED, md_legacy_robot_id = rid, md_plan_size = length plan\<rparr>"
  obtain o3 s3 where m: "save_metadata cs (metadata_fault fl) ?m (s\<lparr>id_routes := r2\<rparr>) = (o3, s3)" by fastforce
  have s3: "id_routes s3 = r2"
    using same_routes(5) [of cs "metadata_fault fl" ?m "s\<lparr>id_routes := r2\<rparr>"] by (simp add: m)
  have "(case o3 of Ok _ \<Rightarrow> clear_plan (unlink_fault fl) s3 | Raised e \<Rightarrow> (Raised e, s3) | Died \<Rightarrow> (Died, s3))
      = (Ok x, s')"
    using assms
    by (simp add: apply_legacy_plan_def act_then_def act_bind_def bind_and_commit_def bind_routes_plan_def
        force_flush_def b x1 f x2 m split: outcome.splits)
  then have "id_routes s' = r2"
    using s3 by (cases o3) (auto simp: clear_plan_def split: option.splits)
  then show ?thesis using that b f x1 x2 by simp
qed

lemma bind_plan_ok: "routes_ok r \<Longrightarrow> bind_plan rid plan r = (Inr True, r1) \<Longrightarrow> routes_ok r1"
proof -
  assume ok: "routes_ok r" and b: "bind_plan rid plan r = (Inr True, r1)"
  have "routes_ok (snd (bind_all rid plan r))"
    using ok
  proof (induction rid plan r rule: bind_all.induct)
    case (2 rid p ps r)
    show ?case
      using "2.IH" bind_route_ok [OF "2.prems", of "plan_request rid p"]
      by (cases "bind_route (plan_request rid p) r") (auto split: sum.splits)
  qed simp
  moreover have "bind_all rid plan r = (Inr True, r1)"
    using b by (auto simp: bind_plan_def split: prod.splits sum.splits bool.splits)
  ultimately show ?thesis by simp
qed

definition deletes_in_life :: "target_key \<Rightarrow> life_op \<Rightarrow> bool" where
  "deletes_in_life tk op = (case op of RouteOp r \<Rightarrow> deletes tk r | _ \<Rightarrow> False)"

lemma life_allowed_owner: "life_allowed (\<lambda>tk'. tk' \<noteq> tk) op \<longleftrightarrow> \<not> deletes_in_life tk op"
  by (simp add: life_allowed_def deletes_in_life_def allowed_owner split: life_op.split)

lemma reachable_routes: "host_routes cs (\<lambda>_. True) (run_life cs ops (first_run n))"
  by (rule well_formed.run_life_routes [OF first_run_routes])
    (simp_all add: list_all_iff life_allowed_def allowed_def split: life_op.split route_op.split)

text \<open>
  C22. A committed migration holds for good. Once the frozen plan has been bound to the legacy
  identity and the migration committed, each of its conversations belongs to that identity or
  is out of service, through any later connects, registrations, inbound routes, failing writes,
  deaths and restarts; only the operator's deletion of that target ends it.
\<close>

theorem migrated_targets_keep_their_owner:
  assumes "h = run_life cs ops (first_run n)" and "identity_phase h = PHASE_PENDING"
    and "apply_legacy_migration cs fl rid h = (Ok (), h')" and "identity_phase h' = PHASE_MIGRATED"
    and "p \<in> set (h_plan h)" and "list_all (\<lambda>op. \<not> deletes_in_life (plan_target p) op) later"
  shows "robot_id_for_target (id_routes (h_store (run_life cs later h'))) (plan_target p) \<in> {Some rid, None}"
proof -
  obtain su where su: "h_startup h = Some su"
    using assms(2) by (cases "h_startup h") (auto simp: identity_phase_def)
  have e: "established cs (\<lambda>_. True) (id_routes (h_store h))"
    using reachable_routes [of cs ops n] su by (auto simp: assms(1) host_routes_def Let_def)
  obtain o1 s' where a: "apply_legacy_plan cs fl rid (h_plan h) (h_store h) = (o1, s')" by fastforce
  have "legacy_primary_robot_id h = rid"
    using assms(2,3,4) by (auto simp: apply_legacy_migration_def split: if_splits)
  moreover have "\<exists>x. o1 = Ok x"
  proof (cases o1)
    case (Raised e')
    then show ?thesis
      using assms(2-4) calculation by (cases e') (auto simp: apply_legacy_migration_def a identity_phase_def)
  qed (use assms(3) calculation in \<open>auto simp: apply_legacy_migration_def a\<close>)
  ultimately obtain x where h': "h_store h' = s'" and o1: "o1 = Ok x"
    using assms(3) by (auto simp: apply_legacy_migration_def a)
  obtain r1 where r1: "bind_plan rid (h_plan h) (id_routes (h_store h)) = (Inr True, r1)"
    "flush cs (routes_fault fl) True r1 = (Some True, id_routes s')"
    using committed_plan a o1 by blast
  have ok: "routes_ok r1" using bind_plan_ok [OF _ r1(1)] e by (simp add: established_def)
  have "bind_all rid (h_plan h) (id_routes (h_store h)) = (Inr True, r1)"
    using r1(1) by (auto simp: bind_plan_def split: prod.splits sum.splits bool.splits)
  from bind_all_true [OF this assms(5)]
  have "dget (target_routes r1) (plan_target p) = Some rid"
    by (auto simp: robot_id_for_target_def split: if_splits)
  from owner.flush_establishes [OF ok this r1(2)]
  have "host_routes cs (\<lambda>r. dget (target_routes r) (plan_target p) = Some rid) h'"
    by (simp add: host_routes_established h')
  from owner.run_life_routes [OF this, of later] assms(6)
  have "host_routes cs (\<lambda>r. dget (target_routes r) (plan_target p) = Some rid) (run_life cs later h')"
    by (simp add: list_all_iff life_allowed_owner)
  then have "dget (target_routes (id_routes (h_store (run_life cs later h')))) (plan_target p) \<in> {Some rid, None}"
    by (auto simp: host_routes_def Let_def established_def unloaded_def new_routes_def dest!: arg_cong [of _ _ target_routes])
  then show ?thesis by (auto simp: robot_id_for_target_def)
qed

lemma plan_doc_inj:
  assumes "list_all planned_ok p" "list_all planned_ok q" "plan_doc cs p = plan_doc cs q"
  shows "p = q"
proof -
  let ?s = "\<lparr>metadata_file = FMissing, plan_file = plan_doc cs p, id_routes = fresh_routes,
      id_metadata = None, card_shards = None\<rparr>"
  have "load_plan cs ?s = (Ok p, ?s)" by (rule load_saved_plan) (simp_all add: assms(1))
  moreover have "load_plan cs ?s = (Ok q, ?s)"
    by (rule load_saved_plan [OF _ assms(2)]) (simp only: id_store.simps assms(3))
  ultimately show ?thesis by simp
qed

lemma begin_pending:
  assumes "metadata_file s = metadata_doc cs m" "md_ok m" "md_phase m = PHASE_PENDING" "plan_stored cs s m"
    and "load_routes cs (id_routes s) = (True, r)"
  shows "\<exists>plan. begin_startup cs fl n sessions s =
     (Ok \<lparr>su_phase = PHASE_PENDING, su_legacy_robot_id = md_legacy_robot_id m, su_plan = plan,
          su_sole_identity_mode = False\<rparr>, s\<lparr>id_metadata := Some m, id_routes := r\<rparr>) \<and>
     plan_file s = plan_doc cs plan \<and> list_all planned_ok plan"
proof -
  let ?s = "s\<lparr>id_metadata := Some m, id_routes := r\<rparr>"
  have l: "load_metadata cs s = (Ok (Some m), s\<lparr>id_metadata := Some m\<rparr>)"
    using assms(1,2) by (simp add: load_metadata_def read_written metadata_roundtrip)
  have k: "known cs (Some m) ?s" using assms by (auto simp: known_def plan_stored_def)
  obtain plan where p: "load_pending_plan cs m ?s = (Ok plan, ?s)" "plan_file ?s = plan_doc cs plan"
    "list_all planned_ok plan"
    using load_pending_plan_ok [OF k assms(3)] by blast
  have ne: "md_legacy_robot_id m \<noteq> []" using assms(3,4) by (simp add: plan_stored_def)
  show ?thesis
    using p assms(3,5) ne
    by (intro exI [of _ plan])
      (simp add: begin_startup_def act_bind_def act_then_def l load_id_routes_def begin_single_def
        begin_multi_def act_return_def)
qed

text \<open>
  C23. A migration that was cut off is finished by the next start. If the disk says that a
  migration is pending, then after the death of the process a connect with any number of
  tokens that succeeds comes up with the same frozen plan, in routing mode, and when then the legacy
  identity registers on the first runtime and no write fails, the migration is committed, unless a
  conversation of the plan conflicts with a route another identity already owns or the table is
  full, or it is one that no bind accepts; in these cases the migration stays pending. (A
  registration on another runtime, or one whose write fails, does not commit it.)
\<close>

theorem pending_migration_resumes:
  assumes "h = run_life cs ops (first_run n)" and "recorded cs h = Some m"
    and "md_phase m = PHASE_PENDING"
    and "initialize_identity_state cs fl k sessions (life_step cs (Crash k) h) = (res, h1)"
    and "on_runtime_registered cs no_faults [] True (md_legacy_robot_id m) h1 = (res', h2)"
  shows "res = Ok True \<and> identity_phase h1 = PHASE_PENDING \<and> \<not> h_sole h1 \<and>
     plan_file (h_store h) = plan_doc cs (h_plan h1) \<and> length (h_plan h1) = md_plan_size m \<and>
     (case fst (bind_plan (md_legacy_robot_id m) (h_plan h1) (id_routes (h_store h1))) of
        Inr True \<Rightarrow> res' = Ok () \<and> identity_phase h2 = PHASE_MIGRATED \<and>
          recorded cs h2 = Some (m\<lparr>md_phase := PHASE_MIGRATED\<rparr>)
      | Inr False \<Rightarrow> res' = Ok () \<and> recorded cs h2 = Some m
      | Inl e \<Rightarrow> res' = Raised (BindError e) \<and> recorded cs h2 = Some m)"
proof -
  have h: "host_ok cs h" using assms(1) run_life_ok first_run_ok by blast
  then have so: "store_ok cs (h_store h)" by (simp add: host_ok_def)
  have m: "md_ok m" "metadata_file (h_store h) = metadata_doc cs m"
    using assms(2) recorded_doc [OF h] by simp_all
  have ps: "plan_stored cs (h_store h) m"
    using so m by (cases rule: store_ok_cases) (use metadata_doc_inj in auto)
  let ?s = "restart_store (h_store h)"
  have "holds_on_disk cs (\<lambda>_. True) (path_file (id_routes (h_store h))) (backup_file (id_routes (h_store h)))"
    using reachable_routes [of cs ops n] by (simp add: assms(1) host_routes_def Let_def)
  then have "host_routes cs (\<lambda>_. True) (new_host k ?s)" by (rule host_routes_dead)
  then obtain r where r: "load_routes cs (id_routes ?s) = (True, r)"
    using well_formed.load_established [of cs "id_routes ?s"]
    unfolding host_routes_def Let_def h_store_new_host by blast
  have ps': "plan_stored cs ?s m" using ps by (simp add: plan_stored_def restart_store_def)
  obtain plan where p: "begin_startup cs fl k sessions ?s =
     (Ok \<lparr>su_phase = PHASE_PENDING, su_legacy_robot_id = md_legacy_robot_id m, su_plan = plan,
          su_sole_identity_mode = False\<rparr>, ?s\<lparr>id_metadata := Some m, id_routes := r\<rparr>)"
    "plan_file ?s = plan_doc cs plan" "list_all planned_ok plan"
    using begin_pending [OF _ m(1) assms(3) ps' r, of fl k sessions] m(2)
    unfolding metadata_file_restart by blast
  have h1: "res = Ok True" "h_store h1 = ?s\<lparr>id_metadata := Some m, id_routes := r\<rparr>" "h_plan h1 = plan"
    "h_startup h1 = Some \<lparr>su_phase = PHASE_PENDING, su_legacy_robot_id = md_legacy_robot_id m,
      su_plan = plan, su_sole_identity_mode = False\<rparr>" "\<not> h_sole h1"
    using assms(4) by (auto simp: initialize_identity_state_def p(1))
  have pf: "plan_file (h_store h) = plan_doc cs plan" using p(2) by (simp add: restart_store_def)
  obtain plan' where "plan_doc cs plan = plan_doc cs plan'" "length plan' = md_plan_size m"
    "list_all planned_ok plan'"
    using ps assms(3) pf by (auto simp: plan_stored_def)
  then have len: "length plan = md_plan_size m"
    using plan_doc_inj p(3) by metis
  have v: "md_legacy_robot_id m \<noteq> []" using ps assms(3) by (simp add: plan_stored_def)
  have reg: "on_runtime_registered cs no_faults [] True (md_legacy_robot_id m) h1 =
      apply_legacy_migration cs no_faults (md_legacy_robot_id m) h1"
    using v h1 by (simp add: on_runtime_registered_def identity_phase_def)
  have leg: "legacy_primary_robot_id h1 = md_legacy_robot_id m"
    by (simp add: legacy_primary_robot_id_def h1)
  have rec: "recorded cs g = Some m" if "metadata_file (h_store g) = metadata_file (h_store h)" for g
    using that m by (simp add: recorded_def read_written metadata_roundtrip)
  have mig: "md_ok (m\<lparr>md_phase := PHASE_MIGRATED\<rparr>)" using m(1) by (simp add: md_ok_def PHASES_def)
  obtain x r1 where b: "bind_plan (md_legacy_robot_id m) plan r = (x, r1)" by fastforce
  obtain r2 where fl: "flush cs SnapOk True r1 = (Some True, r2)" using sample_flush by blast
  note unf = apply_legacy_migration_def leg apply_legacy_plan_def act_then_def act_bind_def
    bind_and_commit_def bind_routes_plan_def h1 b act_raise_def
  have "case x of
        Inr True \<Rightarrow> res' = Ok () \<and> identity_phase h2 = PHASE_MIGRATED \<and>
          recorded cs h2 = Some (m\<lparr>md_phase := PHASE_MIGRATED\<rparr>)
      | Inr False \<Rightarrow> res' = Ok () \<and> recorded cs h2 = Some m
      | Inl e \<Rightarrow> res' = Raised (BindError e) \<and> recorded cs h2 = Some m"
  proof (cases x)
    case (Inl e)
    then have "res' = Raised (BindError e)" "metadata_file (h_store h2) = metadata_file (h_store h)"
      using assms(5) unfolding reg by (auto simp: unf)
    then show ?thesis using rec by (simp add: Inl)
  next
    case (Inr ok)
    show ?thesis
    proof (cases ok)
      case False
      then have "res' = Ok ()" "metadata_file (h_store h2) = metadata_file (h_store h)"
        using assms(5) unfolding reg by (auto simp: unf Inr)
      then show ?thesis using rec False by (simp add: Inr)
    next
      case True
      have md: "\<lparr>md_phase = PHASE_MIGRATED, md_legacy_robot_id = md_legacy_robot_id m,
          md_plan_size = length plan\<rparr> = m\<lparr>md_phase := PHASE_MIGRATED\<rparr>"
        using len by simp
      have "res' = Ok ()" "identity_phase h2 = PHASE_MIGRATED"
        "metadata_file (h_store h2) = metadata_doc cs (m\<lparr>md_phase := PHASE_MIGRATED\<rparr>)"
        using assms(5) unfolding reg
        by (auto simp: unf Inr True no_faults_def force_flush_def fl save_metadata_def
            write_state_document_cases clear_plan_def identity_phase_def migrated_startup_def md
            split: prod.splits)
      then show ?thesis
        using mig by (simp add: Inr True recorded_def read_written metadata_roundtrip)
    qed
  qed
  then show ?thesis using h1 pf len b by (simp add: identity_phase_def)
qed

section \<open>Refusals\<close>

abbreviation same_files :: "routes \<Rightarrow> routes \<Rightarrow> bool" where
  "same_files a b \<equiv> path_file a = path_file b \<and> backup_file a = backup_file b"

lemma apply_each_files:
  assumes "\<And>x r. same_files (snd (f x r)) r"
  shows "same_files (snd (apply_each f xs r)) r"
proof (induction xs arbitrary: r)
  case (Cons x xs)
  obtain b r' where f: "f x r = (b, r')" by fastforce
  then have "same_files r' r" using assms [of x r] by simp
  then show ?case using Cons.IH [of r'] by (cases b) (simp_all add: f)
qed simp

lemma apply_field_files:
  assumes "\<And>x r. same_files (snd (f x r)) r"
  shows "same_files (snd (apply_field f v br)) (snd br)"
  using apply_each_files [of f, OF assms]
  by (cases br; cases "fst br") (auto simp: apply_field_def split: option.splits)

lemma apply_record_files:
  "same_files (snd (apply_session x r)) r" "same_files (snd (apply_target x r)) r"
  "same_files (snd (apply_session_conflict x r)) r" "same_files (snd (apply_target_conflict x r)) r"
  by (simp_all add: apply_session_def apply_target_def apply_session_conflict_def
      apply_target_conflict_def Let_def split: json.split option.split list.split)

lemma apply_body_files: "same_files (snd (apply_body body r)) r"
proof (cases body)
  case (JObj d)
  let ?p = "apply_field apply_target_conflict (jget d ''target_conflicts'')
      (apply_field apply_session_conflict (jget d ''session_conflicts'')
      (apply_field apply_target (jget d ''targets'')
      (apply_field apply_session (jget d ''sessions'') (True, clear_routes r))))"
  have "same_files (snd ?p) (clear_routes r)"
    by (simp add: apply_field_files [OF apply_record_files(4)] apply_field_files [OF apply_record_files(3)]
        apply_field_files [OF apply_record_files(2)] apply_field_files [OF apply_record_files(1)])
  then show ?thesis
    by (cases ?p) (auto simp: apply_body_def JObj clear_routes_def split: bool.splits)
qed (simp_all add: apply_body_def)

lemma load_routes_files: "same_files (snd (load_routes cs r)) r"
proof -
  have "same_files (snd (apply_body b (r\<lparr>restored_from_backup := True\<rparr>))) r" for b
    using apply_body_files [of b "r\<lparr>restored_from_backup := True\<rparr>"] by simp
  then show ?thesis
    by (simp add: apply_body_files load_routes_def split: sum.split prod.split read_status.split)
qed

text \<open>
  C24. When the state on disk does not say which identity a profile belongs to, nothing starts and
  nothing is written: neither when the metadata cannot be read, nor when it is missing although
  routes, a plan or card bindings exist, nor when several tokens are configured before one
  identity has been recorded.
\<close>

theorem ambiguous_start_refused:
  assumes "initialize_identity_state cs fl n sessions h = (res, h')"
    and "(\<forall>st body. read_state_document cs (metadata_file (h_store h)) = Inr (st, body) \<longrightarrow>
            st \<noteq> READ_OK \<and> st \<noteq> READ_MISSING) \<or>
      (metadata_file (h_store h) = FMissing \<and> has_routing_evidence (h_store h)) \<or>
      (1 < n \<and> (metadata_file (h_store h) = FMissing \<or>
         (\<exists>body m. read_state_document cs (metadata_file (h_store h)) = Inr (READ_OK, body) \<and>
            metadata_from_body body = Inr m \<and> md_legacy_robot_id m = [])))"
  shows "res \<noteq> Ok True \<and> h_startup h' = h_startup h \<and>
     metadata_file (h_store h') = metadata_file (h_store h) \<and>
     plan_file (h_store h') = plan_file (h_store h) \<and>
     same_files (id_routes (h_store h')) (id_routes (h_store h))"
proof -
  let ?s = "h_store h"
  obtain b r where l: "load_routes cs (id_routes ?s) = (b, r)" by fastforce
  have fr: "same_files r (id_routes ?s)" using load_routes_files [of cs "id_routes ?s"] by (simp add: l)
  have refuse: "res \<noteq> Ok True \<and> h_startup h' = h_startup h \<and> h_store h' = s'"
    if "begin_startup cs fl n sessions ?s = (Raised e, s')" for e s'
    using assms(1) that by (cases e) (auto simp: initialize_identity_state_def)
  have ev: "has_routing_evidence (?s\<lparr>id_metadata := None, id_routes := r\<rparr>) = has_routing_evidence ?s"
    using fr by (simp add: has_routing_evidence_def has_state_def)
  consider "\<forall>st body. read_state_document cs (metadata_file ?s) = Inr (st, body) \<longrightarrow>
            st \<noteq> READ_OK \<and> st \<noteq> READ_MISSING"
    | "metadata_file ?s = FMissing" "has_routing_evidence ?s \<or> 1 < n"
    | body m where "1 < n" "read_state_document cs (metadata_file ?s) = Inr (READ_OK, body)"
        "metadata_from_body body = Inr m" "md_legacy_robot_id m = []"
    using assms(2) by blast
  then obtain e s' where "begin_startup cs fl n sessions ?s = (Raised e, s')"
    "metadata_file s' = metadata_file ?s" "plan_file s' = plan_file ?s"
    "same_files (id_routes s') (id_routes ?s)"
  proof cases
    case 1
    then have "\<exists>e. load_metadata cs ?s = (Raised e, ?s)"
      by (cases "read_state_document cs (metadata_file ?s)") (auto simp: load_metadata_def split: prod.splits)
    then obtain e where "begin_startup cs fl n sessions ?s = (Raised e, ?s)"
      by (auto simp: begin_startup_def act_bind_def)
    then show ?thesis by (rule that) simp_all
  next
    case 2
    then have m: "load_metadata cs ?s = (Ok None, ?s\<lparr>id_metadata := None\<rparr>)"
      by (simp add: load_metadata_def read_state_document_def)
    have "\<exists>e. begin_startup cs fl n sessions ?s = (Raised e, ?s\<lparr>id_metadata := None, id_routes := r\<rparr>)"
      using 2(2) ev
      by (cases b) (auto simp: begin_startup_def act_bind_def act_then_def m load_id_routes_def l
          act_raise_def begin_multi_def)
    then show ?thesis using that fr by auto
  next
    case 3
    then have m: "load_metadata cs ?s = (Ok (Some m), ?s\<lparr>id_metadata := Some m\<rparr>)"
      by (simp add: load_metadata_def)
    have "\<exists>e. begin_startup cs fl n sessions ?s = (Raised e, ?s\<lparr>id_metadata := Some m, id_routes := r\<rparr>)"
      using 3
      by (cases b) (auto simp: begin_startup_def act_bind_def act_then_def m load_id_routes_def l
          act_raise_def begin_multi_def)
    then show ?thesis using that fr by auto
  qed
  then show ?thesis using refuse by blast
qed

section \<open>Examples\<close>

definition sample_cs :: checksum_fn where "sample_cs = (\<lambda>_. ''sum'')"

definition sample_sessions :: legacy_sessions where
  "sample_sessions = [(JStr ''s1'', JStr ''group'', JStr ''g1'')]"

definition sample_single :: "life_op list" where
  "sample_single = [Connect no_faults 1 [], Registered no_faults [] True ''bot_1'']"

definition sample_pending :: "life_op list" where
  "sample_pending = sample_single @ [Crash 2, Connect no_faults 2 sample_sessions]"

theorem legacy_identity_written_once_witness:
  "\<exists>m'. recorded sample_cs (run_life sample_cs (sample_single @
       [Crash 1, Connect no_faults 1 [], Registered no_faults [] True ''bot_2'']) (first_run 1)) = Some m' \<and>
     md_legacy_robot_id m' = ''bot_1''"
proof -
  have "map_option md_legacy_robot_id (recorded sample_cs (run_life sample_cs sample_single (first_run 1)))
      = Some ''bot_1''"
    by code_simp
  then obtain m where "recorded sample_cs (run_life sample_cs sample_single (first_run 1)) = Some m"
    "md_legacy_robot_id m = ''bot_1''" by auto
  with legacy_identity_written_once [OF this(1)] show ?thesis by fastforce
qed

definition sample_migrated :: "unit step" where
  "sample_migrated = apply_legacy_migration sample_cs no_faults ''bot_1''
     (run_life sample_cs sample_pending (first_run 1))"

theorem migrated_targets_keep_their_owner_witness:
  "robot_id_for_target (id_routes (h_store (run_life sample_cs
       [RouteOp (Bind (sample_bind ''bot_2'')), Crash 2, Connect no_faults 2 []] (snd sample_migrated))))
     (''group'', ''g1'') \<in> {Some ''bot_1'', None}"
proof -
  let ?h = "run_life sample_cs sample_pending (first_run 1)"
  have p: "identity_phase ?h = PHASE_PENDING" by code_simp
  have "fst sample_migrated = Ok ()" by code_simp
  then have a: "apply_legacy_migration sample_cs no_faults ''bot_1'' ?h = (Ok (), snd sample_migrated)"
    unfolding sample_migrated_def by (metis prod.collapse)
  have m: "identity_phase (snd sample_migrated) = PHASE_MIGRATED" by code_simp
  have "map plan_target (h_plan ?h) = [(''group'', ''g1'')]" by code_simp
  then obtain q where q: "q \<in> set (h_plan ?h)" "plan_target q = (''group'', ''g1'')" by auto
  from migrated_targets_keep_their_owner [OF refl p a m q(1),
      of "[RouteOp (Bind (sample_bind ''bot_2'')), Crash 2, Connect no_faults 2 []]"] q(2)
  show ?thesis by (simp add: deletes_in_life_def deletes_def)
qed

theorem pending_migration_resumes_witness:
  "identity_phase (snd (on_runtime_registered sample_cs no_faults [] True ''bot_1''
     (snd (initialize_identity_state sample_cs no_faults 1 []
       (life_step sample_cs (Crash 1) (run_life sample_cs sample_pending (first_run 1))))))) = PHASE_MIGRATED"
proof -
  let ?h = "run_life sample_cs sample_pending (first_run 1)"
  let ?i = "initialize_identity_state sample_cs no_faults 1 [] (life_step sample_cs (Crash 1) ?h)"
  let ?r = "on_runtime_registered sample_cs no_faults [] True ''bot_1'' (snd ?i)"
  have "map_option md_phase (recorded sample_cs ?h) = Some PHASE_PENDING"
    "map_option md_legacy_robot_id (recorded sample_cs ?h) = Some ''bot_1''"
    by code_simp+
  then obtain m where m: "recorded sample_cs ?h = Some m" "md_phase m = PHASE_PENDING"
    "md_legacy_robot_id m = ''bot_1''" by auto
  have b: "fst (bind_plan ''bot_1'' (h_plan (snd ?i)) (id_routes (h_store (snd ?i)))) = Inr True"
    by code_simp
  have i: "?i = (fst ?i, snd ?i)" and r: "?r = (fst ?r, snd ?r)" by simp_all
  from pending_migration_resumes [OF refl m(1,2) i, unfolded m(3), OF r] b show ?thesis by simp
qed

definition sample_orphan :: host where
  \<comment> \<open>a route snapshot without metadata\<close>
  "sample_orphan = new_host 1
     \<lparr>metadata_file = FMissing, plan_file = FMissing,
      id_routes = new_routes FGarbage FMissing, id_metadata = None, card_shards = Some False\<rparr>"

theorem ambiguous_start_refused_witness:
  "fst (initialize_identity_state sample_cs no_faults 1 [] sample_orphan) \<noteq> Ok True"
proof -
  have "metadata_file (h_store sample_orphan) = FMissing" "has_routing_evidence (h_store sample_orphan)"
    by code_simp+
  then show ?thesis
    using ambiguous_start_refused [of sample_cs no_faults 1 "[]" sample_orphan]
    by (metis prod.collapse)
qed

end
