(* ===== verification/AdapterRouting.thy ===== *)
theory AdapterRouting
  imports StartupSafety
begin

text \<open>
  Models the routing of \<open>OctoAdapter\<close>: which identity an inbound message binds its conversation
  to, and through which identity, if any, an outbound message may leave. A runtime is its
  position in the list of configured tokens. What Hermes supplies -- the session key of a
  source, the trusted turn and session, the home channel -- is an argument.
\<close>

section \<open>Uids and wire ids\<close>

definition ascii_digit :: "char \<Rightarrow> bool" where
  "ascii_digit c \<longleftrightarrow> digit_value c \<noteq> None"

definition base_uid_rest :: "string \<Rightarrow> string option" where
  \<comment> \<open>what \<open>(.+)$\<close> captures: no line break inside, one allowed before the end\<close>
  "base_uid_rest r =
     (let body = (if r \<noteq> [] \<and> last r = CHR 0x0A then butlast r else r) in
      if body = [] \<or> CHR 0x0A \<in> set body then None else Some body)"

definition extract_base_uid :: "string \<Rightarrow> string" where
  \<comment> \<open>\<open>^s(\d+)_(.+)$\<close>\<close>
  "extract_base_uid uid =
     (case uid of
        CHR ''s'' # cs \<Rightarrow>
          (case (takeWhile ascii_digit cs, dropWhile ascii_digit cs) of
             (_ # _, CHR ''_'' # r) \<Rightarrow> (case base_uid_rest r of None \<Rightarrow> uid | Some b \<Rightarrow> b)
           | _ \<Rightarrow> uid)
      | _ \<Rightarrow> uid)"

definition isdigit_char :: "char \<Rightarrow> bool" where
  \<comment> \<open>\<open>str.isdigit\<close> below code point 256: the superscripts two, three and one count\<close>
  "isdigit_char c \<longleftrightarrow> ascii_digit c \<or> c \<in> {CHR 0xB2, CHR 0xB3, CHR 0xB9}"

definition extract_space_id :: "string \<Rightarrow> string option" where
  "extract_space_id channel_id =
     (let first = before ''@'' channel_id in
      case first of
        CHR ''s'' # cs \<Rightarrow>
          (if CHR ''_'' \<notin> set cs then None
           else
             (let candidate = rev (tl (dropWhile (\<lambda>c. c \<noteq> CHR ''_'') (rev cs))) in
              if candidate \<noteq> [] \<and> list_all isdigit_char candidate then Some candidate else None))
      | _ \<Rightarrow> None)"

definition resolved_wire_chat_id :: "string \<Rightarrow> int \<Rightarrow> string \<Rightarrow> string" where
  "resolved_wire_chat_id internal ct wire =
     (if ct = int_of_channel DM \<and> wire = internal then extract_base_uid internal else wire)"

section \<open>State\<close>

record runtime =
  rt_robot_id :: string
  rt_connected :: bool
  rt_dm_targets :: "(string, string) dict"   \<comment> \<open>\<open>_space_dm_targets\<close>\<close>

record adapter =
  ad_host :: host
  ad_runtimes :: "runtime list"
  ad_by_robot_id :: "(string, nat) dict"
  ad_flush_wanted :: bool                     \<comment> \<open>a snapshot has been scheduled\<close>

abbreviation ad_routes :: "adapter \<Rightarrow> routes" where
  "ad_routes a \<equiv> id_routes (h_store (ad_host a))"

definition set_routes :: "routes \<Rightarrow> adapter \<Rightarrow> adapter" where
  "set_routes r a =
     a\<lparr>ad_host := (ad_host a)\<lparr>h_store := (h_store (ad_host a))\<lparr>id_routes := r\<rparr>\<rparr>\<rparr>"

definition set_runtime :: "nat \<Rightarrow> runtime \<Rightarrow> adapter \<Rightarrow> adapter" where
  "set_runtime i rt a = a\<lparr>ad_runtimes := (ad_runtimes a)[i := rt]\<rparr>"

definition take_identity :: "nat \<Rightarrow> string \<Rightarrow> adapter \<Rightarrow> adapter" where
  \<comment> \<open>a change of identity drops the caches of the previous one, of which the DM targets matter here\<close>
  "take_identity i rid a =
     (let rt = ad_runtimes a ! i; previous = rt_robot_id rt in
      if previous \<noteq> [] \<and> previous \<noteq> rid
      then (set_runtime i (rt\<lparr>rt_robot_id := rid, rt_dm_targets := []\<rparr>) a)
             \<lparr>ad_by_robot_id := dset rid i (dpop previous (ad_by_robot_id a))\<rparr>
      else (set_runtime i (rt\<lparr>rt_robot_id := rid\<rparr>) a)
             \<lparr>ad_by_robot_id := dset rid i (ad_by_robot_id a)\<rparr>)"

definition claim_identity :: "nat \<Rightarrow> string \<Rightarrow> adapter \<Rightarrow> bool \<times> adapter" where
  \<comment> \<open>\<open>False\<close>: \<open>IdentityConflictError\<close>; on success the runtime takes the identity\<close>
  "claim_identity i rid a =
     (case dget (ad_by_robot_id a) rid of
        Some j \<Rightarrow> if j \<noteq> i then (False, a) else (True, take_identity i rid a)
      | None \<Rightarrow> (True, take_identity i rid a))"

definition connected_runtime :: "adapter \<Rightarrow> string \<Rightarrow> nat option" where
  \<comment> \<open>the registered runtime of an identity, if it is online\<close>
  "connected_runtime a rid =
     (case dget (ad_by_robot_id a) rid of
        None \<Rightarrow> None
      | Some i \<Rightarrow> if rt_connected (ad_runtimes a ! i) then Some i else None)"

section \<open>Inbound\<close>

definition inbound_address ::
  "(string \<Rightarrow> string) \<Rightarrow> string \<Rightarrow> string \<Rightarrow> string \<Rightarrow> bool \<Rightarrow> nat \<Rightarrow> adapter \<Rightarrow> (string \<times> string) option \<times> adapter" where
  \<comment> \<open>the chat id and the wire id of a received message; \<open>None\<close> is the ValueError of a malformed id\<close>
  "inbound_address sha rid channel_id from_uid is_group i a =
     (if is_group then (Some (channel_id, channel_id), a)
      else
        (let wire = extract_base_uid from_uid;
             chat = (if extract_space_id channel_id \<noteq> None then Some channel_id
                     else if h_sole (ad_host a) \<or> rid = legacy_primary_robot_id (ad_host a)
                     then Some from_uid
                     else scoped_dm_chat_id sha rid wire) in
         case chat of
           None \<Rightarrow> (None, a)
         | Some c \<Rightarrow>
             (let rt = ad_runtimes a ! i in
              (Some (c, wire), set_runtime i (rt\<lparr>rt_dm_targets := dset c wire (rt_dm_targets rt)\<rparr>) a))))"

definition legacy_target_refused :: "string \<Rightarrow> target_key \<Rightarrow> adapter \<Rightarrow> bool" where
  "legacy_target_refused rid tk a \<longleftrightarrow>
     identity_phase (ad_host a) = PHASE_PENDING \<and> tk \<in> set (h_plan_targets (ad_host a)) \<and>
     (let primary =
        (if legacy_primary_robot_id (ad_host a) = [] \<and> ad_runtimes a \<noteq> []
         then rt_robot_id (hd (ad_runtimes a)) else legacy_primary_robot_id (ad_host a))
      in primary = [] \<or> rid \<noteq> primary)"

definition bind_inbound_route ::
  "string \<Rightarrow> string option \<Rightarrow> string \<Rightarrow> int \<Rightarrow> string option \<Rightarrow> adapter \<Rightarrow> (route_error + bool) \<times> adapter" where
  \<comment> \<open>\<open>session_key\<close> is \<open>None\<close> when deriving it raised\<close>
  "bind_inbound_route rid session_key chat_id channel_type wire a =
     (if h_sole (ad_host a) then (Inr True, a)
      else if rid = [] then (Inr False, a)
      else
        (case session_key of
           None \<Rightarrow> (Inr False, a)
         | Some key \<Rightarrow>
             (let chat_type = chat_type_for_channel channel_type in
              if legacy_target_refused rid (chat_type, chat_id) a then (Inr False, a)
              else
                (case bind_route
                   \<lparr>q_robot_id = rid, q_session_key = Some key, q_chat_type = chat_type,
                    q_chat_id = chat_id, q_channel_type = channel_type, q_wire_chat_id = wire,
                    q_wire_known = True\<rparr> (ad_routes a) of
                   (Inl e, r) \<Rightarrow> (Inl e, set_routes r a)
                 | (Inr Capacity, r) \<Rightarrow> (Inr False, set_routes r a)
                 | (Inr Conflict, r) \<Rightarrow> (Inr False, (set_routes r a)\<lparr>ad_flush_wanted := True\<rparr>)
                 | (Inr Bound, r) \<Rightarrow> (Inr True, (set_routes r a)\<lparr>ad_flush_wanted := True\<rparr>)
                 | (Inr Idempotent, r) \<Rightarrow> (Inr True, set_routes r a)))))"

section \<open>Outbound\<close>

datatype outbound_error = NotConnected | UnknownRoute | Unavailable string

type_synonym metadata = "(string, json) dict"

definition setdefault :: "'k \<Rightarrow> 'v \<Rightarrow> ('k, 'v) dict \<Rightarrow> ('k, 'v) dict" where
  "setdefault k v d = (if dget d k = None then dset k v d else d)"

definition runtime_for_session_key :: "adapter \<Rightarrow> string \<Rightarrow> nat option" where
  "runtime_for_session_key a key =
     (if h_sole (ad_host a) then (if ad_runtimes a = [] then None else Some 0)
      else (case robot_id_for_session (ad_routes a) key of
              None \<Rightarrow> None
            | Some rid \<Rightarrow> if rid = [] then None else dget (ad_by_robot_id a) rid))"

definition resolve_trusted_runtime :: "string \<Rightarrow> string \<Rightarrow> adapter \<Rightarrow> nat option" where
  \<comment> \<open>the identity of the current turn, and the session key Hermes reports (empty: none)\<close>
  "resolve_trusted_runtime current session_key a =
     (if h_sole (ad_host a) then (if ad_runtimes a = [] then None else Some 0)
      else if current \<noteq> [] then connected_runtime a current
      else if session_key \<noteq> [] then
        (case runtime_for_session_key a session_key of
           None \<Rightarrow> None
         | Some i \<Rightarrow> if rt_connected (ad_runtimes a ! i) then Some i else None)
      else None)"

definition use_lookup :: "string \<Rightarrow> target_lookup \<Rightarrow> nat \<Rightarrow> adapter \<Rightarrow> adapter" where
  \<comment> \<open>remember the wire id of a direct chat\<close>
  "use_lookup chat_id l i a =
     (if tl_channel_type l = int_of_channel DM
      then (let rt = ad_runtimes a ! i in
            set_runtime i (rt\<lparr>rt_dm_targets := dset chat_id
              (resolved_wire_chat_id chat_id (tl_channel_type l) (tl_wire_chat_id l)) (rt_dm_targets rt)\<rparr>) a)
      else a)"

definition with_channel_type :: "int \<Rightarrow> metadata option \<Rightarrow> metadata option" where
  "with_channel_type ct md =
     Some (setdefault ''channel_type'' (JInt ct) (case md of None \<Rightarrow> [] | Some d \<Rightarrow> d))"

definition turn_identity :: "string \<Rightarrow> string \<Rightarrow> adapter \<Rightarrow> string option" where
  \<comment> \<open>the identity a delivery is made for: the current turn's, else the session's;
    \<open>None\<close>: the session is in conflict; empty: unknown\<close>
  "turn_identity current key a =
     (if current \<noteq> [] then Some current
      else if key = [] then Some []
      else if session_conflict (ad_routes a) key then None
      else Some (case robot_id_for_session (ad_routes a) key of None \<Rightarrow> [] | Some rid \<Rightarrow> rid))"

definition resolve_outbound ::
  "string \<Rightarrow> string \<Rightarrow> string \<Rightarrow> string \<Rightarrow> metadata option \<Rightarrow> adapter \<Rightarrow>
   (outbound_error + nat \<times> metadata option) \<times> adapter" where
  \<comment> \<open>\<open>key\<close>: \<open>session_key or self._trusted_session_key()\<close>; \<open>home\<close>: the home channel, empty if none\<close>
  "resolve_outbound current key home chat_id md a =
     (if ad_runtimes a = [] then (Inl NotConnected, a)
      else if h_sole (ad_host a) then (Inr (0, md), a)
      else
        (let r = ad_routes a in
         case turn_identity current key a of
           None \<Rightarrow> (Inl UnknownRoute, a)
         | Some rid \<Rightarrow>
             if rid \<noteq> [] then
               (case connected_runtime a rid of
                  None \<Rightarrow> (Inl (Unavailable rid), a)
                | Some i \<Rightarrow>
                    (case lookup_chat_id r chat_id of
                       Some l \<Rightarrow>
                         if tl_robot_id l \<noteq> rid then (Inl UnknownRoute, a)
                         else (Inr (i, with_channel_type (tl_channel_type l) md), use_lookup chat_id l i a)
                     | None \<Rightarrow>
                         if chat_id_has_state r chat_id then (Inl UnknownRoute, a)
                         else (Inr (i, md), a)))
             else
               (case lookup_chat_id r chat_id of
                  None \<Rightarrow>
                    if chat_id_has_state r chat_id then (Inl UnknownRoute, a)
                    else if home \<noteq> [] \<and> chat_id = home then
                      (let primary = legacy_primary_robot_id (ad_host a) in
                       if primary = [] then (Inl UnknownRoute, a)
                       else (case connected_runtime a primary of
                               None \<Rightarrow> (Inl (Unavailable primary), a)
                             | Some i \<Rightarrow> (Inr (i, md), a)))
                    else (Inl UnknownRoute, a)
                | Some l \<Rightarrow>
                    (case connected_runtime a (tl_robot_id l) of
                       None \<Rightarrow> (Inl (Unavailable (tl_robot_id l)), a)
                     | Some i \<Rightarrow>
                         (Inr (i, with_channel_type (tl_channel_type l) md), use_lookup chat_id l i a)))))"

definition outbound_channel_id :: "runtime \<Rightarrow> string \<Rightarrow> channel_type \<Rightarrow> string" where
  "outbound_channel_id rt chat_id ct =
     (if ct = DM
      then (case dget (rt_dm_targets rt) chat_id of None \<Rightarrow> extract_base_uid chat_id | Some w \<Rightarrow> w)
      else chat_id)"

definition merge_media_channel_type :: "metadata \<Rightarrow> metadata option \<Rightarrow> metadata option" where
  \<comment> \<open>the keyword arguments of a media send; \<open>None\<close> is the ValueError\<close>
  "merge_media_channel_type kwargs md =
     (let ct = (case md of None \<Rightarrow> JNull | Some d \<Rightarrow> jget d ''channel_type'') in
      if ct = JNull then Some kwargs
      else (case jget kwargs ''metadata'' of
              JNull \<Rightarrow> Some (dset ''metadata'' (JObj [(''channel_type'', ct)]) kwargs)
            | JObj d \<Rightarrow> Some (dset ''metadata'' (JObj (setdefault ''channel_type'' ct d)) kwargs)
            | _ \<Rightarrow> None))"

section \<open>Delivery from another process\<close>

text \<open>\<open>BadTokens\<close> is the \<open>TokenConfigError\<close> that leaves the function.\<close>

datatype standalone_error = NoTokens | BadTokens token_error | Unusable | Ambiguous | NoRoute
  | NoPrimary | Offline string

fun first_registered :: "(string \<Rightarrow> string option) \<Rightarrow> string \<Rightarrow> string list \<Rightarrow> string option" where
  \<comment> \<open>ask each token for its identity; \<open>None\<close>: the probe raised\<close>
  "first_registered register rid [] = None"
| "first_registered register rid (t # ts) =
     (if register t = Some rid then Some t else first_registered register rid ts)"

definition standalone_route ::
  "checksum_fn \<Rightarrow> (string \<Rightarrow> string option) \<Rightarrow> string \<Rightarrow> string \<Rightarrow> string \<Rightarrow> id_store \<Rightarrow>
   (standalone_error + string \<times> int option \<times> string option) outcome" where
  "standalone_route cs register raw_token chat_id home s =
     (case parse_bot_tokens (JStr raw_token) of
        Inl e \<Rightarrow> Ok (Inl (BadTokens e))
      | Inr [] \<Rightarrow> Ok (Inl NoTokens)
      | Inr tokens \<Rightarrow>
          (case load_metadata cs s of
             (Raised (StateError _), _) \<Rightarrow> Ok (Inl Unusable)
           | (Raised e, _) \<Rightarrow> Raised e
           | (Died, _) \<Rightarrow> Died
           | (Ok md, s1) \<Rightarrow>
               (case load_id_routes cs s1 of
                  (Raised e, _) \<Rightarrow> Raised e
                | (Died, _) \<Rightarrow> Died
                | (Ok _, s2) \<Rightarrow>
                    if md = None \<and> has_routing_evidence s2 then Ok (Inl Ambiguous)
                    else if \<not> (1 < length tokens \<or>
                               (case md of None \<Rightarrow> False | Some m \<Rightarrow> md_phase m \<noteq> PHASE_SINGLE))
                    then Ok (Inr (hd tokens, None, Some chat_id))
                    else
                      (let r = id_routes s2;
                           probe = (\<lambda>rid ct wire.
                             if rid = [] then Inl NoPrimary
                             else (case first_registered register rid tokens of
                                     None \<Rightarrow> Inl (Offline rid)
                                   | Some t \<Rightarrow> Inr (t, ct, Some wire))) in
                       case lookup_chat_id r chat_id of
                         Some l \<Rightarrow>
                           Ok (probe (tl_robot_id l) (Some (tl_channel_type l))
                             (resolved_wire_chat_id chat_id (tl_channel_type l) (tl_wire_chat_id l)))
                       | None \<Rightarrow>
                           if chat_id_has_state r chat_id then Ok (Inl NoRoute)
                           else if home \<noteq> [] \<and> chat_id = home \<and> md \<noteq> None
                           then Ok (probe (md_legacy_robot_id (the md)) None chat_id)
                           else Ok (Inl NoRoute)))))"

end
