(* ===== verification/AdapterSafety.thy ===== *)
theory AdapterSafety
  imports AdapterRouting
begin

text \<open>
  What the routing of the adapter guarantees in every state it can reach: no delivery leaves
  through another identity, accepted messages can be answered, and deliveries from another
  process follow the same rule.
\<close>

section \<open>Reachable adapters\<close>

definition runtimes_ok :: "adapter \<Rightarrow> bool" where
  \<comment> \<open>an identity is registered for the one runtime that has it\<close>
  "runtimes_ok a \<longleftrightarrow>
     (\<forall>rid i. dget (ad_by_robot_id a) rid = Some i \<longrightarrow>
        i < length (ad_runtimes a) \<and> rt_robot_id (ad_runtimes a ! i) = rid \<and> rid \<noteq> [])"

definition new_adapter :: "nat \<Rightarrow> host \<Rightarrow> adapter" where
  "new_adapter k h =
     \<lparr>ad_host = h, ad_runtimes = replicate k \<lparr>rt_robot_id = [], rt_connected = False, rt_dm_targets = []\<rparr>,
      ad_by_robot_id = [], ad_flush_wanted = False\<rparr>"

text \<open>
  One step of the adapter: of its identity state, of a runtime that registers, connects or
  disconnects, of an inbound message, of an outbound delivery, of the whole process.
\<close>

inductive adapter_step :: "checksum_fn \<Rightarrow> adapter \<Rightarrow> adapter \<Rightarrow> bool" for cs where
  Host: "adapter_step cs a (a\<lparr>ad_host := life_step cs op (ad_host a)\<rparr>)" if "\<forall>n. op \<noteq> Crash n"
| Claim: "adapter_step cs a (snd (claim_identity i rid a))" if "i < length (ad_runtimes a)" "valid_robot rid"
| Online: "adapter_step cs a (set_runtime i ((ad_runtimes a ! i)\<lparr>rt_connected := b\<rparr>) a)"
| Stop: "adapter_step cs a (a\<lparr>ad_by_robot_id := []\<rparr>)"
| Address: "adapter_step cs a (snd (inbound_address sha rid channel_id from_uid is_group i a))"
    if "h_startup (ad_host a) \<noteq> None"
| Inbound: "adapter_step cs a (snd (bind_inbound_route rid key chat_id ct wire a))"
    if "h_startup (ad_host a) \<noteq> None"
| Outbound: "adapter_step cs a (snd (resolve_outbound current skey home chat_id md a))"
| Death: "adapter_step cs a (new_adapter k (life_step cs (Crash k) (ad_host a)))"

inductive reachable_adapter :: "checksum_fn \<Rightarrow> adapter \<Rightarrow> bool" for cs where
  Start: "reachable_adapter cs (new_adapter k (first_run k))"
| Step: "reachable_adapter cs a \<Longrightarrow> adapter_step cs a b \<Longrightarrow> reachable_adapter cs b"

definition adapter_ok :: "checksum_fn \<Rightarrow> adapter \<Rightarrow> bool" where
  "adapter_ok cs a \<longleftrightarrow> runtimes_ok a \<and> host_routes cs (\<lambda>_. True) (ad_host a)"

lemma new_adapter_ok: "host_routes cs (\<lambda>_. True) h \<Longrightarrow> adapter_ok cs (new_adapter k h)"
  by (simp add: adapter_ok_def runtimes_ok_def new_adapter_def)

lemma set_runtime_keeps:
  assumes "runtimes_ok a" "rt_robot_id rt = rt_robot_id (ad_runtimes a ! i)"
  shows "runtimes_ok (set_runtime i rt a)"
proof -
  have "rt_robot_id ((ad_runtimes a)[i := rt] ! j) = rt_robot_id (ad_runtimes a ! j)" for j
    using assms(2) by (cases "i < length (ad_runtimes a)"; cases "j = i") (auto simp: list_update_beyond)
  then show ?thesis using assms(1) by (auto simp: runtimes_ok_def set_runtime_def)
qed

lemma set_runtime_same [simp]:
  "ad_host (set_runtime i rt a) = ad_host a" "ad_by_robot_id (set_runtime i rt a) = ad_by_robot_id a"
  "length (ad_runtimes (set_runtime i rt a)) = length (ad_runtimes a)"
  by (simp_all add: set_runtime_def)

lemma use_lookup_keeps [simp]:
  "runtimes_ok a \<Longrightarrow> runtimes_ok (use_lookup chat_id l i a)" "ad_host (use_lookup chat_id l i a) = ad_host a"
  by (simp_all add: use_lookup_def Let_def set_runtime_keeps)

lemma claim_keeps:
  assumes "runtimes_ok a" "i < length (ad_runtimes a)" "rid \<noteq> []"
  shows "runtimes_ok (snd (claim_identity i rid a)) \<and> ad_host (snd (claim_identity i rid a)) = ad_host a"
proof -
  have "runtimes_ok (take_identity i rid a) \<and> ad_host (take_identity i rid a) = ad_host a"
    using assms
    by (auto simp: take_identity_def runtimes_ok_def set_runtime_def Let_def nth_list_update split: if_splits)
  then show ?thesis using assms(1) by (auto simp: claim_identity_def split: option.split)
qed

lemma outbound_keeps:
  assumes "runtimes_ok a"
  shows "runtimes_ok (snd (resolve_outbound current key home chat_id md a)) \<and>
     ad_host (snd (resolve_outbound current key home chat_id md a)) = ad_host a"
  using assms by (simp add: resolve_outbound_def Let_def split: option.split)

lemma host_routes_set:
  "established cs P r \<Longrightarrow> host_routes cs P (ad_host (set_routes r a))"
  by (simp add: host_routes_established set_routes_def)

lemma set_routes_keeps [simp]: "runtimes_ok (set_routes r a) = runtimes_ok a"
  by (simp add: runtimes_ok_def set_routes_def)

lemma runtimes_ok_flush [simp]: "runtimes_ok (a\<lparr>ad_flush_wanted := f\<rparr>) = runtimes_ok a"
  by (simp add: runtimes_ok_def)

lemma bind_inbound_shape:
  "\<exists>r f. snd (bind_inbound_route rid key chat_id ct wire a) = a \<or>
     (\<exists>q. r = snd (bind_route q (ad_routes a)) \<and>
        (snd (bind_inbound_route rid key chat_id ct wire a) = (set_routes r a)\<lparr>ad_flush_wanted := f\<rparr>))"
proof (cases "h_sole (ad_host a) \<or> rid = [] \<or> key = None \<or>
    legacy_target_refused rid (chat_type_for_channel ct, chat_id) a")
  case True
  then show ?thesis by (auto simp: bind_inbound_route_def Let_def split: option.split)
next
  case False
  then obtain k where k: "key = Some k" by (cases key) auto
  let ?q = "\<lparr>q_robot_id = rid, q_session_key = Some k, q_chat_type = chat_type_for_channel ct,
      q_chat_id = chat_id, q_channel_type = ct, q_wire_chat_id = wire, q_wire_known = True\<rparr>"
  obtain res r where b: "bind_route ?q (ad_routes a) = (res, r)" by fastforce
  have e: "set_routes r a = (set_routes r a)\<lparr>ad_flush_wanted := ad_flush_wanted a\<rparr>"
    by (simp add: set_routes_def)
  have "\<exists>f. snd (bind_inbound_route rid key chat_id ct wire a) = (set_routes r a)\<lparr>ad_flush_wanted := f\<rparr>"
  proof (cases res)
    case (Inl e')
    then show ?thesis using False k e by (simp add: bind_inbound_route_def Let_def b) metis
  next
    case (Inr x)
    then show ?thesis using False k e by (cases x) (simp_all add: bind_inbound_route_def Let_def b, metis+)
  qed
  moreover have "r = snd (bind_route ?q (ad_routes a))" by (simp add: b)
  ultimately show ?thesis by blast
qed

lemma adapter_step_ok:
  assumes "adapter_step cs a b" "adapter_ok cs a"
  shows "adapter_ok cs b"
  using assms
proof (cases rule: adapter_step.cases)
  case (Host op)
  have "host_routes cs (\<lambda>_. True) (life_step cs op (ad_host a))"
    using assms(2) by (intro well_formed.life_step_routes)
      (simp_all add: adapter_ok_def life_allowed_def allowed_def split: life_op.split route_op.split)
  then show ?thesis using assms(2) Host by (simp add: adapter_ok_def runtimes_ok_def)
next
  case (Claim i rid)
  have "rid \<noteq> []" using Claim by (auto simp: valid_robot_def matches_def)
  then show ?thesis using assms(2) Claim claim_keeps by (simp add: adapter_ok_def)
next
  case (Online i b)
  then show ?thesis using assms(2) by (simp add: adapter_ok_def set_runtime_keeps)
next
  case Stop
  then show ?thesis using assms(2) by (simp add: adapter_ok_def runtimes_ok_def)
next
  case (Address sha rid channel_id from_uid is_group i)
  then show ?thesis
    using assms(2) by (auto simp: adapter_ok_def inbound_address_def Let_def set_runtime_keeps split: option.split)
next
  case (Inbound rid key chat_id ct wire)
  have e: "established cs (\<lambda>_. True) (ad_routes a)"
    using assms(2) Inbound by (auto simp: adapter_ok_def host_routes_def Let_def)
  then have "established cs (\<lambda>_. True) (snd (bind_route q (ad_routes a)))" for q
    by (rule well_formed.bind_established)
  then show ?thesis
    using assms(2) bind_inbound_shape [of rid key chat_id ct wire a] unfolding Inbound
    by (auto simp: adapter_ok_def host_routes_set)
next
  case (Outbound current skey home chat_id md)
  then show ?thesis using assms(2) outbound_keeps by (simp add: adapter_ok_def)
next
  case (Death k)
  have "host_routes cs (\<lambda>_. True) (life_step cs (Crash k) (ad_host a))"
    using assms(2) by (intro well_formed.life_step_routes) (simp_all add: adapter_ok_def life_allowed_def)
  then show ?thesis using Death new_adapter_ok by simp
qed

lemma reachable_adapter_ok: "reachable_adapter cs a \<Longrightarrow> adapter_ok cs a"
proof (induction rule: reachable_adapter.induct)
  case (Start k)
  show ?case by (rule new_adapter_ok) (rule first_run_routes, simp)
qed (rule adapter_step_ok)

lemma adapter_routes_ok: "adapter_ok cs a \<Longrightarrow> routes_ok (ad_routes a)"
proof -
  assume "adapter_ok cs a"
  then have "established cs (\<lambda>_. True) (ad_routes a) \<or> unloaded (ad_routes a)"
    by (auto simp: adapter_ok_def host_routes_def Let_def)
  then show ?thesis by (auto simp: established_def unloaded_def) (metis new_routes_ok)
qed

section \<open>Which identity a delivery uses\<close>

definition chat_owner :: "routes \<Rightarrow> string \<Rightarrow> string \<Rightarrow> string \<Rightarrow> string option" where
  \<comment> \<open>the specification of a delivery by chat id alone\<close>
  "chat_owner r primary home chat_id =
     (case lookup_chat_id r chat_id of
        Some l \<Rightarrow> Some (tl_robot_id l)
      | None \<Rightarrow>
          if \<not> chat_id_has_state r chat_id \<and> home \<noteq> [] \<and> chat_id = home \<and> primary \<noteq> []
          then Some primary else None)"

lemma connected_runtime_ok:
  assumes "runtimes_ok a" "connected_runtime a rid = Some i"
  shows "i < length (ad_runtimes a) \<and> rt_robot_id (ad_runtimes a ! i) = rid \<and> rt_connected (ad_runtimes a ! i)"
  using assms by (auto simp: connected_runtime_def runtimes_ok_def split: option.splits if_splits)

lemma no_state_no_owner:
  assumes "routes_ok r" "\<not> chat_id_has_state r chat_id"
  shows "dget (target_routes r) (ct, chat_id) = None"
proof (cases "dget (target_routes r) (ct, chat_id)")
  case (Some o1)
  have "(ct, o1) \<in> set (dget_list (chat_index r) chat_id)"
    using assms(1) Some unfolding routes_ok_def index_ok_def by blast
  then show ?thesis using assms(2) by (auto simp: chat_id_has_state_def)
qed

lemma lookup_owners:
  assumes "routes_ok r" "lookup_chat_id r chat_id = Some l"
  shows "dget (target_routes r) (ct, chat_id) \<in> {None, Some (tl_robot_id l)}"
  using assms(2) unfolding lookup_chat_id_iff [OF assms(1)] by (cases "ct = tl_chat_type l") auto

text \<open>
  C25. No message leaves through another identity. In routing mode, in every state the adapter can
  reach, a delivery that is resolved goes to a runtime that is online and is the one registered
  for its identity; every target with this chat id that has an owner is owned by that identity;
  within a turn it is the identity of the turn; for a session it is the owner of the session,
  which is not in conflict; and with neither it is the identity that the chat id stands for.
\<close>

theorem outbound_never_crosses_identities:
  assumes "reachable_adapter cs a" and "\<not> h_sole (ad_host a)"
    and "resolve_outbound current key home chat_id md a = (Inr (i, md'), a')"
  shows "i < length (ad_runtimes a) \<and> rt_connected (ad_runtimes a ! i) \<and>
     dget (ad_by_robot_id a) (rt_robot_id (ad_runtimes a ! i)) = Some i \<and>
     (\<forall>ct. dget (target_routes (ad_routes a)) (ct, chat_id)
         \<in> {None, Some (rt_robot_id (ad_runtimes a ! i))}) \<and>
     (current \<noteq> [] \<longrightarrow> rt_robot_id (ad_runtimes a ! i) = current) \<and>
     (current = [] \<and> key \<noteq> [] \<longrightarrow> \<not> session_conflict (ad_routes a) key \<and>
         robot_id_for_session (ad_routes a) key
           \<in> {None, Some [], Some (rt_robot_id (ad_runtimes a ! i))}) \<and>
     (turn_identity current key a = Some [] \<longrightarrow>
         chat_owner (ad_routes a) (legacy_primary_robot_id (ad_host a)) home chat_id =
           Some (rt_robot_id (ad_runtimes a ! i)))"
proof -
  have ok: "adapter_ok cs a" by (rule reachable_adapter_ok [OF assms(1)])
  then have rt: "runtimes_ok a" and r: "routes_ok (ad_routes a)"
    by (simp add: adapter_ok_def) (rule adapter_routes_ok [OF ok])
  let ?r = "ad_routes a"
  have ne: "ad_runtimes a \<noteq> []" using assms(3) by (auto simp: resolve_outbound_def)
  obtain rid where t: "turn_identity current key a = Some rid"
    using assms(2,3) ne by (cases "turn_identity current key a") (auto simp: resolve_outbound_def Let_def)
  have turn: "current \<noteq> [] \<longrightarrow> rid = current"
    "current = [] \<and> key \<noteq> [] \<longrightarrow> \<not> session_conflict ?r key \<and>
        (robot_id_for_session ?r key = None \<and> rid = [] \<or> robot_id_for_session ?r key = Some rid)"
    using t by (auto simp: turn_identity_def split: if_splits option.splits)
  have idx: "dget (ad_by_robot_id a) o1 = Some j" if "connected_runtime a o1 = Some j" for o1 j
    using that by (auto simp: connected_runtime_def split: option.splits if_splits)
  have o: "dget (target_routes ?r) (ct, chat_id) \<in> {None, Some o1}"
    if "chat_owner ?r p home chat_id = Some o1 \<or> (\<not> chat_id_has_state ?r chat_id)" for ct o1 p
    using that lookup_owners [OF r] no_state_no_owner [OF r]
    by (auto simp: chat_owner_def split: option.splits if_splits)
  show ?thesis
  proof (cases "rid = []")
    case False
    then obtain c: "connected_runtime a rid = Some i"
      and l: "(case lookup_chat_id ?r chat_id of Some l \<Rightarrow> tl_robot_id l = rid
               | None \<Rightarrow> \<not> chat_id_has_state ?r chat_id)"
      using assms(2,3) ne t
      by (auto simp: resolve_outbound_def Let_def split: option.splits if_splits)
    have "\<forall>ct. dget (target_routes ?r) (ct, chat_id) \<in> {None, Some rid}"
      using l lookup_owners [OF r] no_state_no_owner [OF r] by (auto split: option.splits)
    then show ?thesis
      using connected_runtime_ok [OF rt c] idx [OF c] turn t False by auto
  next
    case True
    let ?p = "legacy_primary_robot_id (ad_host a)"
    obtain o1 where c: "connected_runtime a o1 = Some i" and w: "chat_owner ?r ?p home chat_id = Some o1"
      using assms(2,3) ne t True
      by (auto simp: resolve_outbound_def chat_owner_def Let_def split: option.splits if_splits)
    have "\<forall>ct. dget (target_routes ?r) (ct, chat_id) \<in> {None, Some o1}" using o w by blast
    then show ?thesis
      using connected_runtime_ok [OF rt c] idx [OF c] turn t True w by auto
  qed
qed

text \<open>
  C26. An accepted message can be answered. When an inbound message has been bound and its runtime
  is online, a delivery to that chat id goes out through this runtime, with the recorded channel
  type, whether it is made within the turn, for the session, or by chat id alone -- provided no
  target of the other chat type shares the chat id, which makes it ambiguous.
\<close>

theorem accepted_messages_can_be_answered:
  assumes "reachable_adapter cs a" and "h_startup (ad_host a) \<noteq> None" and "\<not> h_sole (ad_host a)"
    and "bind_inbound_route rid (Some key) chat_id ct wire a = (Inr True, a')"
    and "connected_runtime a' rid = Some i"
    and "\<forall>t. dget (target_routes (ad_routes a')) (t, chat_id) \<noteq> None \<longrightarrow> t = chat_type_for_channel ct"
  shows "\<exists>n. \<forall>k. k \<in> {rid} \<times> UNIV \<or> (key \<noteq> [] \<and> k = ([], key)) \<or> k = ([], []) \<longrightarrow>
     fst (resolve_outbound (fst k) (snd k) home chat_id md a') = Inr (i, with_channel_type n md)"
proof -
  have ok: "adapter_ok cs a" by (rule reachable_adapter_ok [OF assms(1)])
  let ?q = "\<lparr>q_robot_id = rid, q_session_key = Some key, q_chat_type = chat_type_for_channel ct,
      q_chat_id = chat_id, q_channel_type = ct, q_wire_chat_id = wire, q_wire_known = True\<rparr>"
  have rid: "rid \<noteq> []" using assms(3,4) by (auto simp: bind_inbound_route_def)
  obtain res r where b: "bind_route ?q (ad_routes a) = (res, r)" by fastforce
  have nref: "\<not> legacy_target_refused rid (chat_type_for_channel ct, chat_id) a"
    using assms(3,4) rid by (auto simp: bind_inbound_route_def Let_def)
  have res: "\<exists>x. res = Inr x \<and> (x = Bound \<or> x = Idempotent)"
    using assms(3,4) rid nref
    by (auto simp: bind_inbound_route_def Let_def b split: sum.splits bind_result.splits)
  then obtain x where x: "res = Inr x" "x = Bound \<or> x = Idempotent" by blast
  have a': "ad_routes a' = r" "ad_host a' = ad_host (set_routes r a)" "ad_runtimes a' = ad_runtimes a"
    "ad_by_robot_id a' = ad_by_robot_id a"
    using assms(3,4) rid nref x by (auto simp: bind_inbound_route_def Let_def b set_routes_def)
  have sole: "\<not> h_sole (ad_host a')" using assms(3) by (simp add: a' set_routes_def)
  have l: "bind_locked ?q (ad_routes a) = (x, r)"
    using b x(1) by (auto simp: bind_route_def split: option.splits prod.splits)
  let ?tk = "(chat_type_for_channel ct, chat_id)"
  have q: "q_target ?q = ?tk" "q_robot_id ?q = rid"
    "q_session ?q = (if key = [] then None else Some key)" "\<exists>w. q_wire ?q = Some w"
    by (auto simp: q_target_def q_session_def q_wire_def)
  note s = bind_locked_success [OF l x(2), unfolded q]
  have rok: "routes_ok r"
    using bind_route_ok [OF adapter_routes_ok [OF ok], of ?q] by (simp add: b)
  have "dget (target_channel_types r) ?tk \<noteq> None"
    using rok s by (auto simp: routes_ok_def index_ok_def)
  then obtain n where n: "dget (target_channel_types r) ?tk = Some n" by blast
  obtain w where w: "dget (target_wire_ids r) ?tk = Some w" using s q(4) by blast
  have own: "dget (target_routes r) ?tk = Some rid"
    "\<forall>t. dget (target_routes r) (t, chat_id) \<noteq> None \<longrightarrow> t = chat_type_for_channel ct"
    using s assms(6) unfolding a'(1) by blast+
  have nc: "?tk \<notin> set (target_conflicts r)" using s by blast
  let ?l = "\<lparr>tl_chat_type = chat_type_for_channel ct, tl_channel_type = n, tl_robot_id = rid,
      tl_wire_chat_id = w\<rparr>"
  have lk: "lookup_chat_id r chat_id = Some ?l"
    unfolding lookup_chat_id_iff [OF rok] using own nc n w by simp
  have ses: "\<not> session_conflict r key \<and> robot_id_for_session r key = Some rid" if "key \<noteq> []"
  proof -
    have "dget (session_routes r) key = Some rid \<and> key \<notin> set (session_conflicts r)"
      using s [THEN conjunct2, THEN conjunct1] that by simp
    then show ?thesis using that by (simp add: session_conflict_def robot_id_for_session_def)
  qed
  have ne: "ad_runtimes a' \<noteq> []"
  proof -
    have "runtimes_ok a'" using ok by (simp add: adapter_ok_def runtimes_ok_def a')
    then show ?thesis using connected_runtime_ok [OF _ assms(5)] by auto
  qed
  have "fst (resolve_outbound c k home chat_id md a') = Inr (i, with_channel_type n md)"
    if "c = rid \<or> (key \<noteq> [] \<and> c = [] \<and> k = key) \<or> (c = [] \<and> k = [])" for c k
    using that sole ne rid lk ses assms(5)
    by (auto simp: resolve_outbound_def turn_identity_def a'(1) Let_def)
  then show ?thesis by (intro exI [of _ n]) auto
qed

section \<open>The delivery from another process\<close>

lemma first_registered_ok: "first_registered register rid ts = Some t \<Longrightarrow> register t = Some rid \<and> t \<in> set ts"
  by (induction ts) (auto split: if_splits)

text \<open>
  C27. A delivery made outside the gateway process follows the same rule as the gateway: on the same
  identity state, in routing mode, it uses a configured token that registers as the identity the
  chat id stands for, and refuses exactly when the chat id stands for nobody or no token of that
  identity answers.
\<close>

theorem standalone_route_refines_chat_owner:
  assumes "parse_bot_tokens (JStr raw) = Inr tokens" and "tokens \<noteq> []"
    and "load_metadata cs s = (Ok md, s1)" and "load_id_routes cs s1 = (Ok (), s2)"
    and "routes_ok (id_routes s2)" and "\<not> (md = None \<and> has_routing_evidence s2)"
    and "1 < length tokens \<or> (\<exists>m. md = Some m \<and> md_phase m \<noteq> PHASE_SINGLE)"
  defines "primary \<equiv> (case md of None \<Rightarrow> [] | Some m \<Rightarrow> md_legacy_robot_id m)"
  shows "case standalone_route cs register raw chat_id home s of
      Ok (Inr (t, ct, wire)) \<Rightarrow> t \<in> set tokens \<and>
        register t = chat_owner (id_routes s2) primary home chat_id \<and> register t \<noteq> None
    | Ok (Inl (Offline rid)) \<Rightarrow> chat_owner (id_routes s2) primary home chat_id = Some rid \<and>
        first_registered register rid tokens = None
    | Ok (Inl e) \<Rightarrow> e \<in> {NoRoute, NoPrimary} \<and> chat_owner (id_routes s2) primary home chat_id = None
    | _ \<Rightarrow> False"
proof -
  let ?r = "id_routes s2"
  have ne: "tl_robot_id l \<noteq> []" if "lookup_chat_id ?r chat_id = Some l" for l
  proof -
    have "dget (target_routes ?r) (tl_chat_type l, chat_id) = Some (tl_robot_id l)"
      using that unfolding lookup_chat_id_iff [OF assms(5)] by simp
    then have "valid_robot (tl_robot_id l)"
      using assms(5) unfolding routes_ok_def names_ok_def by blast
    then show ?thesis by (auto simp: valid_robot_def matches_def)
  qed
  define probe where "probe = (\<lambda>rid (ct :: int option) (wire :: string).
     if rid = [] then Inl NoPrimary
     else (case first_registered register rid tokens of
             None \<Rightarrow> Inl (Offline rid) | Some t \<Rightarrow> Inr (t, ct, Some wire)))"
  obtain t0 ts where ts: "tokens = t0 # ts" using assms(2) by (cases tokens) auto
  have mode: "(1 < length (t0 # ts) \<or> (case md of None \<Rightarrow> False | Some m \<Rightarrow> md_phase m \<noteq> PHASE_SINGLE)) = True"
    using assms(7) ts by auto
  have evid: "(md = None \<and> has_routing_evidence s2) = False" using assms(6) by blast
  have e: "standalone_route cs register raw chat_id home s =
      (case lookup_chat_id ?r chat_id of
         Some l \<Rightarrow> Ok (probe (tl_robot_id l) (Some (tl_channel_type l))
             (resolved_wire_chat_id chat_id (tl_channel_type l) (tl_wire_chat_id l)))
       | None \<Rightarrow>
           if chat_id_has_state ?r chat_id then Ok (Inl NoRoute)
           else if home \<noteq> [] \<and> chat_id = home \<and> md \<noteq> None
           then Ok (probe (md_legacy_robot_id (the md)) None chat_id)
           else Ok (Inl NoRoute))"
    by (simp only: standalone_route_def assms(1,3,4) ts sum.case list.case outcome.case prod.case evid
        mode if_False not_True_eq_False probe_def Let_def)
  show ?thesis
  proof (cases "lookup_chat_id ?r chat_id")
    case (Some l)
    then have o: "chat_owner ?r primary home chat_id = Some (tl_robot_id l)" by (simp add: chat_owner_def)
    show ?thesis
      unfolding e Some option.case probe_def o using ne [OF Some]
      by (cases "first_registered register (tl_robot_id l) tokens") (auto dest: first_registered_ok)
  next
    case None
    show ?thesis
    proof (cases "\<not> chat_id_has_state ?r chat_id \<and> home \<noteq> [] \<and> chat_id = home \<and> md \<noteq> None")
      case True
      then obtain m where m: "md = Some m" by blast
      show ?thesis
      proof (cases "md_legacy_robot_id m = []")
        case True': True
        then have "chat_owner ?r primary home chat_id = None"
          by (simp add: chat_owner_def None primary_def m)
        then show ?thesis unfolding e None option.case using True m True' by (simp add: probe_def)
      next
        case False
        then have o: "chat_owner ?r primary home chat_id = Some (md_legacy_robot_id m)"
          using True m None by (auto simp: chat_owner_def primary_def)
        show ?thesis unfolding e None option.case o using True m False
          by (cases "first_registered register (md_legacy_robot_id m) tokens")
            (auto simp: probe_def dest: first_registered_ok)
      qed
    next
      case False
      then have "chat_owner ?r primary home chat_id = None"
        by (auto simp: chat_owner_def None primary_def)
      then show ?thesis unfolding e None option.case using False by auto
    qed
  qed
qed

section \<open>Examples\<close>

definition sample_base :: adapter where
  \<comment> \<open>two online runtimes in a profile whose migration is complete\<close>
  "sample_base =
     (let h = run_life sample_cs (sample_pending @ [Registered no_faults [] True ''bot_1'']) (first_run 1);
          a = new_adapter 2 h;
          a1 = snd (claim_identity 0 ''bot_1'' a);
          a2 = snd (claim_identity 1 ''bot_2'' a1)
      in set_runtime 1 ((ad_runtimes a2 ! 1)\<lparr>rt_connected := True\<rparr>) a2)"

definition sample_adapter :: adapter where
  "sample_adapter = snd (bind_inbound_route ''bot_2'' (Some ''s9'') ''g9'' 2 None sample_base)"

lemma reachable_host:
  assumes "reachable_adapter cs (new_adapter k h)" "\<forall>op \<in> set ops. \<forall>n. op \<noteq> Crash n"
  shows "reachable_adapter cs (new_adapter k (run_life cs ops h))"
  using assms
proof (induction ops arbitrary: h)
  case (Cons op ops)
  have "adapter_step cs (new_adapter k h)
      ((new_adapter k h)\<lparr>ad_host := life_step cs op (ad_host (new_adapter k h))\<rparr>)"
    using Cons.prems(2) by (intro adapter_step.Host) simp
  then have "reachable_adapter cs (new_adapter k (life_step cs op h))"
    using reachable_adapter.Step [OF Cons.prems(1)] by (simp add: new_adapter_def)
  from Cons.IH [OF this] Cons.prems(2) show ?case by (simp add: run_life_def)
qed (simp add: run_life_def)

lemma sample_reachable: "reachable_adapter sample_cs sample_base"
proof -
  let ?h0 = "run_life sample_cs sample_single (first_run 1)"
  have 0: "reachable_adapter sample_cs (new_adapter 1 ?h0)"
    by (rule reachable_host [OF reachable_adapter.Start]) (simp add: sample_single_def)
  have 1: "reachable_adapter sample_cs (new_adapter 2 (life_step sample_cs (Crash 2) ?h0))"
    using reachable_adapter.Step [OF 0 adapter_step.Death [where k = 2]] by (simp add: new_adapter_def)
  have "reachable_adapter sample_cs (new_adapter 2 (run_life sample_cs
      [Connect no_faults 2 sample_sessions, Registered no_faults [] True ''bot_1'']
      (life_step sample_cs (Crash 2) ?h0)))"
    by (rule reachable_host [OF 1]) simp
  moreover have "run_life sample_cs [Connect no_faults 2 sample_sessions, Registered no_faults [] True ''bot_1'']
      (life_step sample_cs (Crash 2) ?h0) =
      run_life sample_cs (sample_pending @ [Registered no_faults [] True ''bot_1'']) (first_run 1)"
    by (simp add: run_life_def sample_pending_def)
  ultimately have r: "reachable_adapter sample_cs (new_adapter 2
      (run_life sample_cs (sample_pending @ [Registered no_faults [] True ''bot_1'']) (first_run 1)))"
    by simp
  have v: "valid_robot ''bot_1''" "valid_robot ''bot_2''" by code_simp+
  show ?thesis
    unfolding sample_base_def Let_def
    by (rule reachable_adapter.Step [OF _ adapter_step.Online],
        rule reachable_adapter.Step [OF _ adapter_step.Claim [OF _ v(2)]],
        rule reachable_adapter.Step [OF r adapter_step.Claim [OF _ v(1)]])
      (simp_all add: new_adapter_def claim_identity_def take_identity_def Let_def)
qed

lemma sample_base_facts:
  "h_startup (ad_host sample_base) \<noteq> None" "\<not> h_sole (ad_host sample_base)"
  "fst (bind_inbound_route ''bot_2'' (Some ''s9'') ''g9'' 2 None sample_base) = Inr True"
  "connected_runtime sample_adapter ''bot_2'' = Some 1"
  "\<not> h_sole (ad_host sample_adapter)"
  by code_simp+

lemma sample_adapter_reachable: "reachable_adapter sample_cs sample_adapter"
  unfolding sample_adapter_def
  by (rule reachable_adapter.Step [OF sample_reachable adapter_step.Inbound [OF sample_base_facts(1)]])

theorem outbound_never_crosses_identities_witness:
  "\<exists>md' a'. resolve_outbound [] ''s9'' [] ''g9'' None sample_adapter = (Inr (1, md'), a') \<and>
     rt_connected (ad_runtimes sample_adapter ! 1)"
proof -
  have "\<exists>md'. fst (resolve_outbound [] ''s9'' [] ''g9'' None sample_adapter) = Inr (1, md')"
    by (rule exI [of _ "Some [(''channel_type'', JInt 2)]"]) code_simp
  then obtain md' a' where r: "resolve_outbound [] ''s9'' [] ''g9'' None sample_adapter = (Inr (1, md'), a')"
    by (metis prod.collapse)
  from outbound_never_crosses_identities [OF sample_adapter_reachable sample_base_facts(5) r] r
  show ?thesis by blast
qed

theorem accepted_messages_can_be_answered_witness:
  "\<exists>n. fst (resolve_outbound [] [] [] ''g9'' None sample_adapter) = Inr (1, with_channel_type n None)"
proof -
  have b: "bind_inbound_route ''bot_2'' (Some ''s9'') ''g9'' 2 None sample_base = (Inr True, sample_adapter)"
    using sample_base_facts(3) unfolding sample_adapter_def by (metis prod.collapse)
  have "map fst (target_routes (ad_routes sample_adapter)) = [(''group'', ''g1''), (''group'', ''g9'')]"
    by code_simp
  then have k: "set (map fst (target_routes (ad_routes sample_adapter))) = {(''group'', ''g1''), (''group'', ''g9'')}"
    by simp
  have "chat_type_for_channel 2 = ''group''" by code_simp
  moreover have "t = ''group''" if "dget (target_routes (ad_routes sample_adapter)) (t, ''g9'') \<noteq> None" for t
    using that k by (auto simp: map_of_eq_None_iff)
  ultimately have o: "\<forall>t. dget (target_routes (ad_routes sample_adapter)) (t, ''g9'') \<noteq> None \<longrightarrow>
      t = chat_type_for_channel 2" by simp
  from accepted_messages_can_be_answered [OF sample_reachable sample_base_facts(1,2) b sample_base_facts(4) o,
      of "[]" None] show ?thesis by fastforce
qed

theorem standalone_route_refines_chat_owner_witness:
  "case standalone_route sample_cs (\<lambda>t. if t = ''tok2'' then Some ''bot_1'' else None) ''tok1;tok2'' ''g1'' []
      (restart_store (h_store (ad_host sample_adapter))) of
     Ok (Inr (t, _, _)) \<Rightarrow> t = ''tok2''
   | _ \<Rightarrow> False"
proof -
  let ?reg = "\<lambda>t :: string. if t = ''tok2'' then Some ''bot_1'' else None"
  let ?s = "restart_store (h_store (ad_host sample_adapter))"
  let ?s1 = "snd (load_metadata sample_cs ?s)"
  let ?s2 = "snd (load_id_routes sample_cs ?s1)"
  have p: "parse_bot_tokens (JStr ''tok1;tok2'') = Inr [''tok1'', ''tok2'']" by code_simp
  have m: "\<exists>m. fst (load_metadata sample_cs ?s) = Ok (Some m)"
  proof -
    have "(case fst (load_metadata sample_cs ?s) of Ok (Some m) \<Rightarrow> True | _ \<Rightarrow> False)" by code_simp
    then show ?thesis by (auto split: outcome.splits option.splits)
  qed
  then obtain m where m: "load_metadata sample_cs ?s = (Ok (Some m), ?s1)" by (metis prod.collapse)
  have "fst (load_id_routes sample_cs ?s1) = Ok ()" by code_simp
  then have l: "load_id_routes sample_cs ?s1 = (Ok (), ?s2)" by (metis prod.collapse)
  have ok: "routes_ok (id_routes ?s2)"
  proof -
    have "adapter_ok sample_cs (new_adapter 1 (life_step sample_cs (Crash 1) (ad_host sample_adapter)))"
      using reachable_adapter_ok [OF reachable_adapter.Step [OF sample_adapter_reachable adapter_step.Death]] .
    then have h: "host_routes sample_cs (\<lambda>_. True) (new_host 1 ?s)" by (simp add: adapter_ok_def new_adapter_def)
    have s1: "id_routes ?s1 = id_routes ?s" by (rule same_routes)
    obtain r where r: "load_routes sample_cs (id_routes ?s1) = (True, r)" "established sample_cs (\<lambda>_. True) r"
      using well_formed.load_established [of sample_cs "id_routes ?s1"] h
      unfolding s1 host_routes_def Let_def h_store_new_host by blast
    then show ?thesis by (simp add: load_id_routes_def established_def)
  qed
  have o: "chat_owner (id_routes ?s2) (md_legacy_robot_id m) [] ''g1'' = Some ''bot_1''"
  proof -
    have "(case lookup_chat_id (id_routes ?s2) ''g1'' of Some l \<Rightarrow> tl_robot_id l = ''bot_1'' | None \<Rightarrow> False)"
      by code_simp
    then show ?thesis by (auto simp: chat_owner_def split: option.splits)
  qed
  have f: "first_registered ?reg ''bot_1'' [''tok1'', ''tok2''] = Some ''tok2''" by simp
  have t: "t = ''tok2''" if "?reg t = Some ''bot_1''" for t using that by (simp split: if_splits)
  define s where "s = ?s"
  define s1 where "s1 = ?s1"
  define s2 where "s2 = ?s2"
  have m': "load_metadata sample_cs s = (Ok (Some m), s1)" unfolding s_def s1_def by (rule m)
  have l': "load_id_routes sample_cs s1 = (Ok (), s2)" unfolding s1_def s2_def by (rule l)
  have ok': "routes_ok (id_routes s2)" unfolding s2_def by (rule ok)
  have o': "chat_owner (id_routes s2) (md_legacy_robot_id m) [] ''g1'' = Some ''bot_1''"
    unfolding s2_def by (rule o)
  let ?S = "standalone_route sample_cs ?reg ''tok1;tok2'' ''g1'' [] s"
  have h: "[''tok1'', ''tok2''] \<noteq> []" "\<not> (Some m = None \<and> has_routing_evidence s2)"
    "1 < length [''tok1'', ''tok2''] \<or> (\<exists>m'. Some m = Some m' \<and> md_phase m' \<noteq> PHASE_SINGLE)"
    by simp_all
  note c = standalone_route_refines_chat_owner [OF p h(1) m' l' ok' h(2,3), where register = ?reg and
      chat_id = "''g1''" and home = "[]", unfolded option.case o']
  have "case ?S of Ok (Inr (t, _, _)) \<Rightarrow> t = ''tok2'' | _ \<Rightarrow> False"
  proof (cases ?S)
    case (Ok x)
    show ?thesis
    proof (cases x)
      case (Inl e)
      then show ?thesis using c f unfolding Ok by (cases e) simp_all
    next
      case (Inr y)
      obtain t' ct' w' where y: "y = (t', ct', w')" by (cases y)
      have "?reg t' = Some ''bot_1''" using c unfolding Ok Inr y outcome.case sum.case prod.case by blast
      then show ?thesis using t unfolding Ok Inr y outcome.case sum.case prod.case by blast
    qed
  next
    case (Raised e)
    show ?thesis using c unfolding Raised outcome.case by blast
  next
    case Died
    show ?thesis using c unfolding Died outcome.case by blast
  qed
  then show ?thesis unfolding s_def .
qed

end
