(* ===== verification/Connection.thy ===== *)
theory Connection
  imports Prelude
begin

text \<open>
  The connection lifecycle of one identity, \<open>IdentityRuntime\<close> in \<open>adapter.py\<close>: \<open>connect\<close>,
  \<open>_do_connect\<close>, \<open>disconnect\<close>, the shielded clean-up, the receive loop, the heartbeat and the
  reconnect task. Everything runs in one asyncio event loop, so the model is the interleaving of
  the code between two \<open>await\<close>s: a task is its program counter (the \<open>await\<close> it is suspended at,
  with the local variables that live across it), and \<open>resume\<close> runs it to its next \<open>await\<close>.

  \<^item> \<open>w_tasks\<close> holds the program counter of every task that is not done, \<open>w_cancel\<close> the tasks
    whose cancellation was requested and not yet delivered, \<open>w_open\<close> the WebSockets that are open.
  \<^item> What an \<open>await\<close> yields is an \<open>outcome\<close>, chosen by the environment. A lock may be handed to any
    waiting task. A socket is closed once an \<open>await\<close> of its \<open>close\<close> has ended in a return or an
    exception; \<open>ClientSession.close\<close> does not raise. The guarded socket and the socket of a failed
    \<open>websockets.connect\<close> are closed by the code and by the library.
  \<^item> The clean-up runs in a task of its own that nobody cancels, and its caller only waits for it
    and remembers that it was cancelled; both are one program counter here.
  \<^item> Tasks that never touch the fields below (presence heartbeats, caches, menu, prefetch, poller,
    progress) are left out, and \<open>OCTO_API_URL\<close> and the token are configured.
\<close>

section \<open>Tasks\<close>

type_synonym tid = nat
type_synonym socket = nat

datatype conn_frame = PongFrame | PingFrame | RecvFrame | DisconnectFrame | OtherFrame | BadFrame

datatype connect_pc =
    Registering bool | Recording | Opening | Upgrading | Sending | AwaitConnack | ClosingTimedOut
  | StoppingHeartbeat tid | StoppingReceiver tid

datatype cleanup_pc = Gathering "tid list" | ClosingSocket socket | ClosingSession

datatype connect_exn = RaisedError | RaisedConflict | RaisedCancelled

datatype pc =
    ConnectLock | ConnectReset cleanup_pc bool | ConnectRun connect_pc
  | ConnectCleanup cleanup_pc connect_exn bool
  | DisconnectDrain tid bool | DisconnectLock bool | DisconnectCleanup cleanup_pc bool
  | ReconnectStart | ReconnectSleep rat | ReconnectLock | ReconnectClose | ReconnectRun connect_pc
  | ReceiveStart | ReceiveWait | ReceiveSend "conn_frame list" | ReceiveHandle "conn_frame list"
  | ReceiveClose socket "conn_frame list"
  | HeartStart | HeartSleep | HeartClose socket | HeartSend

datatype outcome =
    Done | Fails | Cancelled | Conflicting | TimedOut | Accepted | AcceptedThenFails
  | Frames "conn_frame list"

datatype 'p flow = Await 'p | Returns | Raises connect_exn

record draw =
  d_now :: rat       \<comment> \<open>\<open>time.monotonic()\<close>\<close>
  d_jitter :: rat    \<comment> \<open>\<open>random.random()\<close>, twice\<close>
  d_stagger :: rat

record conn =
  c_need_reconnect :: bool
  c_disconnecting :: bool
  c_connected :: bool
  c_in_progress :: bool
  c_attempts :: nat
  c_last_refresh :: rat
  c_ping_count :: int
  c_ping_max :: int
  c_http :: bool                       \<comment> \<open>\<open>_http_session is not None\<close>\<close>
  c_ws :: "socket option"
  c_lock :: "tid option"               \<comment> \<open>the holder of \<open>_lifecycle_lock\<close>\<close>
  c_reconnect_task :: "tid option"
  c_recv_task :: "tid option"
  c_heartbeat_task :: "tid option"
  w_tasks :: "tid \<Rightarrow> pc option"
  w_cancel :: "tid set"
  w_open :: "socket set"
  w_next_task :: tid
  w_next_socket :: socket

definition new_runtime :: "int \<Rightarrow> conn" where
  "new_runtime ping_max =
     \<lparr>c_need_reconnect = True, c_disconnecting = False, c_connected = False, c_in_progress = False,
      c_attempts = 0, c_last_refresh = 0, c_ping_count = 0, c_ping_max = ping_max, c_http = False,
      c_ws = None, c_lock = None, c_reconnect_task = None, c_recv_task = None,
      c_heartbeat_task = None, w_tasks = (\<lambda>_. None), w_cancel = {}, w_open = {},
      w_next_task = 0, w_next_socket = 0\<rparr>"

definition live :: "tid \<Rightarrow> conn \<Rightarrow> bool" where
  \<comment> \<open>\<open>not task.done()\<close>\<close>
  "live t c \<longleftrightarrow> w_tasks c t \<noteq> None"

definition set_pc :: "tid \<Rightarrow> pc \<Rightarrow> conn \<Rightarrow> conn" where
  "set_pc t p c = c\<lparr>w_tasks := (w_tasks c)(t := Some p), w_cancel := w_cancel c - {t}\<rparr>"

definition spawn :: "pc \<Rightarrow> conn \<Rightarrow> conn" where
  "spawn p c = c\<lparr>w_tasks := (w_tasks c)(w_next_task c := Some p), w_next_task := w_next_task c + 1\<rparr>"

definition finish :: "tid \<Rightarrow> conn \<Rightarrow> conn" where
  \<comment> \<open>the end of a task, with the callback \<open>_clear\<close> of a reconnect task\<close>
  "finish t c =
     c\<lparr>w_tasks := (w_tasks c)(t := None), w_cancel := w_cancel c - {t},
       c_reconnect_task := (if c_reconnect_task c = Some t then None else c_reconnect_task c)\<rparr>"

definition cancel_task :: "tid \<Rightarrow> conn \<Rightarrow> conn" where
  "cancel_task t c = c\<lparr>w_cancel := insert t (w_cancel c)\<rparr>"

definition live_task :: "tid option \<Rightarrow> conn \<Rightarrow> tid option" where
  \<comment> \<open>\<open>task and not task.done()\<close>\<close>
  "live_task x c = (case x of None \<Rightarrow> None | Some t \<Rightarrow> if live t c then Some t else None)"

definition unlock :: "conn \<Rightarrow> conn" where
  "unlock c = c\<lparr>c_lock := None\<rparr>"

definition close_socket :: "socket \<Rightarrow> conn \<Rightarrow> conn" where
  "close_socket s c = c\<lparr>w_open := w_open c - {s}\<rparr>"

definition spawn_reconnect :: "conn \<Rightarrow> conn" where
  \<comment> \<open>\<open>_spawn_reconnect_task\<close>\<close>
  "spawn_reconnect c =
     (if \<not> c_need_reconnect c then c
      else if live_task (c_reconnect_task c) c \<noteq> None then c
      else spawn ReconnectStart (c\<lparr>c_reconnect_task := Some (w_next_task c)\<rparr>))"

section \<open>The handshake\<close>

definition TOKEN_REFRESH_COOLDOWN_S :: rat where "TOKEN_REFRESH_COOLDOWN_S = 60"

definition should_force_refresh :: "rat \<Rightarrow> conn \<Rightarrow> bool" where
  "should_force_refresh now c \<longleftrightarrow>
     c_attempts c > 0 \<and> now - c_last_refresh c > TOKEN_REFRESH_COOLDOWN_S"

definition do_connect :: "rat \<Rightarrow> conn \<Rightarrow> connect_pc flow \<times> conn" where
  \<comment> \<open>to the registration request\<close>
  "do_connect now c =
     (let force = should_force_refresh now c in
      (Await (Registering force),
       c\<lparr>c_http := True, c_last_refresh := (if force then now else c_last_refresh c)\<rparr>))"

definition begin_receive :: "conn \<Rightarrow> conn" where
  "begin_receive c =
     spawn ReceiveStart (c\<lparr>c_connected := True, c_recv_task := Some (w_next_task c)\<rparr>)"

definition start_receive_task :: "conn \<Rightarrow> connect_pc flow \<times> conn" where
  \<comment> \<open>with the rest of \<open>_do_connect\<close>; the handshake never runs in a receive task\<close>
  "start_receive_task c =
     (case live_task (c_recv_task c) c of
        Some v \<Rightarrow> (Await (StoppingReceiver v), cancel_task v (c\<lparr>c_recv_task := None\<rparr>))
      | None \<Rightarrow> (Returns, begin_receive c))"

definition begin_heartbeat :: "conn \<Rightarrow> conn" where
  "begin_heartbeat c = spawn HeartStart (c\<lparr>c_heartbeat_task := Some (w_next_task c)\<rparr>)"

definition start_heartbeat_task :: "conn \<Rightarrow> connect_pc flow \<times> conn" where
  "start_heartbeat_task c =
     (case live_task (c_heartbeat_task c) c of
        Some h \<Rightarrow> (Await (StoppingHeartbeat h), cancel_task h c)
      | None \<Rightarrow> start_receive_task (begin_heartbeat c))"

definition connack_accepted :: "conn \<Rightarrow> conn" where
  "connack_accepted c = c\<lparr>c_connected := True, c_ping_count := 0, c_attempts := 0\<rparr>"

fun do_connect_resume ::
  "connect_pc \<Rightarrow> outcome \<Rightarrow> conn \<Rightarrow> (connect_pc flow \<times> conn) option" where
  \<comment> \<open>\<open>_do_connect\<close> from one \<open>await\<close> to the next; \<open>None\<close>: the \<open>await\<close> cannot end that way\<close>
  "do_connect_resume (Registering force) x c =
     (case x of
        Done \<Rightarrow> Some (Await Recording, c)
      | Conflicting \<Rightarrow> Some (Raises RaisedConflict, c\<lparr>c_need_reconnect := False\<rparr>)
      | Fails \<Rightarrow> Some (Raises RaisedError, c)
      | Cancelled \<Rightarrow> Some (Raises RaisedCancelled, c)
      | _ \<Rightarrow> None)"
| "do_connect_resume Recording x c =
     (case x of
        Done \<Rightarrow> Some (Await Opening, c)
      | Fails \<Rightarrow> Some (Raises RaisedError, c)
      | Cancelled \<Rightarrow> Some (Raises RaisedCancelled, c)
      | _ \<Rightarrow> None)"
| "do_connect_resume Opening x c =
     (case x of
        Done \<Rightarrow> Some (Await Upgrading, c)
      | Fails \<Rightarrow> Some (Raises RaisedError, c)
      | Cancelled \<Rightarrow> Some (Raises RaisedCancelled, c)
      | _ \<Rightarrow> None)"
| "do_connect_resume Upgrading x c =
     (case x of
        Done \<Rightarrow>
          (let s = w_next_socket c in
           Some (Await Sending,
                 c\<lparr>c_ws := Some s, w_open := insert s (w_open c), w_next_socket := s + 1\<rparr>))
      | Fails \<Rightarrow> Some (Raises RaisedError, c)
      | Cancelled \<Rightarrow> Some (Raises RaisedCancelled, c)
      | _ \<Rightarrow> None)"
| "do_connect_resume Sending x c =
     (case x of
        Done \<Rightarrow> Some (Await AwaitConnack, c)
      | Fails \<Rightarrow> Some (Raises RaisedError, c)
      | Cancelled \<Rightarrow> Some (Raises RaisedCancelled, c)
      | _ \<Rightarrow> None)"
| "do_connect_resume AwaitConnack x c =
     (case x of
        Accepted \<Rightarrow> Some (start_heartbeat_task (connack_accepted c))
      | AcceptedThenFails \<Rightarrow> Some (Raises RaisedError, connack_accepted c)
      | TimedOut \<Rightarrow> Some (Await ClosingTimedOut, c)
      | Fails \<Rightarrow> Some (Raises RaisedError, c)
      | Cancelled \<Rightarrow> Some (Raises RaisedCancelled, c)
      | _ \<Rightarrow> None)"
| "do_connect_resume ClosingTimedOut x c =
     (case (x, c_ws c) of
        (Cancelled, _) \<Rightarrow> Some (Raises RaisedCancelled, c)
      | (Done, Some s) \<Rightarrow> Some (Raises RaisedError, close_socket s c)
      | (Fails, Some s) \<Rightarrow> Some (Raises RaisedError, close_socket s c)
      | _ \<Rightarrow> None)"
| "do_connect_resume (StoppingHeartbeat h) x c =
     (if \<not> live h c \<and> (x = Done \<or> x = Cancelled)
      then Some (start_receive_task (begin_heartbeat c)) else None)"
| "do_connect_resume (StoppingReceiver v) x c =
     (if \<not> live v c \<and> (x = Done \<or> x = Cancelled) then Some (Returns, begin_receive c) else None)"

section \<open>The clean-up\<close>

definition owned_tasks :: "conn \<Rightarrow> tid list" where
  "owned_tasks c =
     List.map_filter (\<lambda>x. live_task x c) [c_reconnect_task c, c_heartbeat_task c, c_recv_task c]"

definition finalize_resources :: "conn \<Rightarrow> cleanup_pc \<times> conn" where
  \<comment> \<open>\<open>_finalize_disconnect_resources\<close>, to its \<open>gather\<close>\<close>
  "finalize_resources c =
     (Gathering (owned_tasks c), c\<lparr>w_cancel := w_cancel c \<union> set (owned_tasks c)\<rparr>)"

definition close_session :: "conn \<Rightarrow> cleanup_pc flow \<times> conn" where
  "close_session c =
     (if c_http c then (Await ClosingSession, c\<lparr>c_http := False\<rparr>) else (Returns, c))"

fun finalize_resume :: "cleanup_pc \<Rightarrow> outcome \<Rightarrow> conn \<Rightarrow> (cleanup_pc flow \<times> conn) option" where
  "finalize_resume (Gathering ts) x c =
     (if x = Done \<and> list_all (\<lambda>t. \<not> live t c) ts
      then
        (let c1 = c\<lparr>c_reconnect_task := None, c_heartbeat_task := None, c_recv_task := None\<rparr> in
         case c_ws c1 of
           Some s \<Rightarrow> Some (Await (ClosingSocket s), c1\<lparr>c_ws := None\<rparr>)
         | None \<Rightarrow> Some (close_session c1))
      else None)"
| "finalize_resume (ClosingSocket s) x c =
     (if x = Done \<or> x = Fails then Some (close_session (close_socket s c)) else None)"
| "finalize_resume ClosingSession x c = (if x = Done then Some (Returns, c) else None)"

section \<open>Public calls\<close>

definition connect_flow :: "tid \<Rightarrow> connect_pc flow \<times> conn \<Rightarrow> conn" where
  \<comment> \<open>the handlers of \<open>_connect_locked\<close> around \<open>_do_connect\<close>\<close>
  "connect_flow t f =
     (case f of
        (Await p, c) \<Rightarrow> set_pc t (ConnectRun p) c
      | (Returns, c) \<Rightarrow> finish t (unlock c)
      | (Raises e, c) \<Rightarrow>
          (case finalize_resources c of (cp, c1) \<Rightarrow> set_pc t (ConnectCleanup cp e False) c1))"

definition connect_begin :: "tid \<Rightarrow> rat \<Rightarrow> conn \<Rightarrow> conn" where
  "connect_begin t now c =
     connect_flow t (do_connect now (c\<lparr>c_disconnecting := False, c_http := True, c_need_reconnect := True\<rparr>))"

definition disconnect_locked :: "conn \<Rightarrow> cleanup_pc \<times> conn" where
  "disconnect_locked c =
     finalize_resources (c\<lparr>c_need_reconnect := False, c_disconnecting := True, c_connected := False\<rparr>)"

definition connect_locked :: "tid \<Rightarrow> rat \<Rightarrow> conn \<Rightarrow> conn" where
  "connect_locked t now c =
     (if c_http c \<or> c_ws c \<noteq> None
      then (case disconnect_locked c of (cp, c1) \<Rightarrow> set_pc t (ConnectReset cp False) c1)
      else connect_begin t now c)"

definition connect_cleaned :: "tid \<Rightarrow> connect_exn \<Rightarrow> bool \<Rightarrow> conn \<Rightarrow> conn" where
  \<comment> \<open>the end of a failed \<open>connect\<close>: \<open>rem\<close> is a cancellation during the clean-up\<close>
  "connect_cleaned t e rem c =
     finish t (unlock
       (if e = RaisedError \<and> \<not> rem \<and> c_need_reconnect c \<and> \<not> c_disconnecting c
        then spawn_reconnect c else c))"

definition disconnect_call :: "conn \<Rightarrow> conn" where
  \<comment> \<open>\<open>disconnect\<close> to its first \<open>await\<close>\<close>
  "disconnect_call c0 =
     (let c = c0\<lparr>c_need_reconnect := False, c_disconnecting := True\<rparr> in
      case live_task (c_reconnect_task c) c of
        Some t \<Rightarrow> spawn (DisconnectDrain t False) (cancel_task t c)
      | None \<Rightarrow> spawn (DisconnectLock False) c)"

section \<open>The reconnect task\<close>

definition reconnect_delay :: "nat \<Rightarrow> rat \<Rightarrow> rat \<Rightarrow> rat option" where
  \<comment> \<open>\<open>None\<close> is the \<open>OverflowError\<close> of \<open>3.0 * (2**attempts)\<close>: an integer from \<open>2 ^ 1024\<close> on has no
     float\<close>
  "reconnect_delay attempts jitter stagger =
     (if attempts \<ge> 1024 then None
      else Some (min (3 * 2 ^ attempts) 60 * (3 / 4 + jitter / 2) + stagger * 5))"

definition reconnect_end :: "tid \<Rightarrow> conn \<Rightarrow> conn" where
  \<comment> \<open>the outer \<open>finally\<close>\<close>
  "reconnect_end t c = finish t (c\<lparr>c_in_progress := False\<rparr>)"

definition reconnect_flow :: "tid \<Rightarrow> connect_pc flow \<times> conn \<Rightarrow> conn" where
  "reconnect_flow t f =
     (case f of
        (Await p, c) \<Rightarrow> set_pc t (ReconnectRun p) c
      | (Returns, c) \<Rightarrow> reconnect_end t (unlock c)
      | (Raises e, c) \<Rightarrow>
          (let c1 = unlock c in
           if e = RaisedCancelled \<or> \<not> c_need_reconnect c1 then reconnect_end t c1
           else
             (let c2 = c1\<lparr>c_in_progress := False,
                          c_reconnect_task :=
                            (if c_reconnect_task c1 = Some t then None else c_reconnect_task c1)\<rparr>
              in reconnect_end t (spawn_reconnect c2))))"

definition reconnect_start :: "tid \<Rightarrow> draw \<Rightarrow> conn \<Rightarrow> conn" where
  "reconnect_start t d c =
     (if c_in_progress c \<or> \<not> c_need_reconnect c then finish t c
      else
        (case reconnect_delay (c_attempts c) (d_jitter d) (d_stagger d) of
           None \<Rightarrow> reconnect_end t (c\<lparr>c_in_progress := True\<rparr>)
         | Some delay \<Rightarrow>
             set_pc t (ReconnectSleep delay)
               (c\<lparr>c_in_progress := True, c_attempts := c_attempts c + 1\<rparr>)))"

definition reconnect_locked :: "tid \<Rightarrow> rat \<Rightarrow> conn \<Rightarrow> conn" where
  \<comment> \<open>once the lock is held\<close>
  "reconnect_locked t now c =
     (if \<not> c_need_reconnect c then reconnect_end t (unlock c)
      else if c_ws c \<noteq> None then set_pc t ReconnectClose c
      else reconnect_flow t (do_connect now c))"

section \<open>The receive loop and the heartbeat\<close>

definition receive_exit :: "tid \<Rightarrow> conn \<Rightarrow> conn" where
  "receive_exit t c =
     finish t (if c_recv_task c = Some t then spawn_reconnect (c\<lparr>c_connected := False\<rparr>) else c)"

definition receive_loop :: "tid \<Rightarrow> conn \<Rightarrow> conn" where
  "receive_loop t c =
     (if c_connected c \<and> c_ws c \<noteq> None then set_pc t ReceiveWait c else receive_exit t c)"

fun process_frames :: "tid \<Rightarrow> conn_frame list \<Rightarrow> conn \<Rightarrow> conn" where
  \<comment> \<open>\<open>_handle_frame\<close> on the complete frames of the buffer; a frame that cannot be decoded is
     skipped\<close>
  "process_frames t [] c = receive_loop t c"
| "process_frames t (PongFrame # fs) c = process_frames t fs (c\<lparr>c_ping_count := 0\<rparr>)"
| "process_frames t (PingFrame # fs) c =
     (if c_ws c = None then process_frames t fs c else set_pc t (ReceiveSend fs) c)"
| "process_frames t (RecvFrame # fs) c = set_pc t (ReceiveHandle fs) c"
| "process_frames t (DisconnectFrame # fs) c =
     (case c_ws c of
        None \<Rightarrow> process_frames t fs (c\<lparr>c_connected := False\<rparr>)
      | Some s \<Rightarrow> set_pc t (ReceiveClose s fs) (c\<lparr>c_connected := False\<rparr>))"
| "process_frames t (OtherFrame # fs) c = process_frames t fs c"
| "process_frames t (BadFrame # fs) c = process_frames t fs c"

definition heartbeat_loop :: "tid \<Rightarrow> conn \<Rightarrow> conn" where
  "heartbeat_loop t c = (if c_connected c then set_pc t HeartSleep c else finish t c)"

definition heartbeat_tick :: "tid \<Rightarrow> conn \<Rightarrow> conn" where
  "heartbeat_tick t c0 =
     (let c = c0\<lparr>c_ping_count := c_ping_count c0 + 1\<rparr> in
      if c_ping_count c > c_ping_max c
      then (let c1 = c\<lparr>c_connected := False\<rparr> in
            case c_ws c1 of Some s \<Rightarrow> set_pc t (HeartClose s) c1 | None \<Rightarrow> finish t c1)
      else if c_ws c \<noteq> None then set_pc t HeartSend c
      else heartbeat_loop t c)"

section \<open>Presence heartbeats\<close>

datatype http_beat = BeatSent | BeatStatus "int option" | BeatFailed

definition send_http_heartbeat_safe :: "bool \<Rightarrow> bool \<Rightarrow> http_beat \<Rightarrow> bool" where
  \<comment> \<open>the new value of \<open>_http_heartbeat_disabled\<close>; \<open>ready\<close>: session, URL and token are there\<close>
  "send_http_heartbeat_safe disabled ready beat =
     (if disabled \<or> \<not> ready then disabled
      else
        (case beat of
           BeatSent \<Rightarrow> False
         | BeatStatus st \<Rightarrow>
             if st = Some 404 then True
             else if st = Some 429 \<or> (case st of None \<Rightarrow> False | Some n \<Rightarrow> n \<ge> 500) then False
             else True
         | BeatFailed \<Rightarrow> False))"

section \<open>Steps\<close>

definition acquire :: "tid \<Rightarrow> conn \<Rightarrow> conn option" where
  "acquire t c = (if c_lock c = None then Some (c\<lparr>c_lock := Some t\<rparr>) else None)"

fun resume_at :: "pc \<Rightarrow> tid \<Rightarrow> draw \<Rightarrow> outcome \<Rightarrow> conn \<Rightarrow> conn option" where
  "resume_at ConnectLock t d x c =
     (if x = Cancelled then Some (finish t c)
      else if x = Done then map_option (connect_locked t (d_now d)) (acquire t c) else None)"
| "resume_at (ConnectReset cp rem) t d x c =
     (if x = Cancelled then Some (set_pc t (ConnectReset cp True) c)
      else (case finalize_resume cp x c of
              None \<Rightarrow> None
            | Some (Await cp', c1) \<Rightarrow> Some (set_pc t (ConnectReset cp' rem) c1)
            | Some (_, c1) \<Rightarrow>
                Some (if rem then finish t (unlock c1) else connect_begin t (d_now d) c1)))"
| "resume_at (ConnectRun p) t d x c = map_option (connect_flow t) (do_connect_resume p x c)"
| "resume_at (ConnectCleanup cp e rem) t d x c =
     (if x = Cancelled then Some (set_pc t (ConnectCleanup cp e True) c)
      else (case finalize_resume cp x c of
              None \<Rightarrow> None
            | Some (Await cp', c1) \<Rightarrow> Some (set_pc t (ConnectCleanup cp' e rem) c1)
            | Some (_, c1) \<Rightarrow> Some (connect_cleaned t e rem c1)))"
| "resume_at (DisconnectDrain r rem) t d x c =
     (if x = Cancelled then Some (set_pc t (DisconnectDrain r True) c)
      else if x = Done \<and> \<not> live r c then Some (set_pc t (DisconnectLock rem) c) else None)"
| "resume_at (DisconnectLock rem) t d x c =
     (if x = Cancelled then Some (set_pc t (DisconnectLock True) c)
      else if x = Done
      then map_option
             (\<lambda>c. case disconnect_locked c of (cp, c1) \<Rightarrow> set_pc t (DisconnectCleanup cp rem) c1)
             (acquire t c)
      else None)"
| "resume_at (DisconnectCleanup cp rem) t d x c =
     (if x = Cancelled then Some (set_pc t (DisconnectCleanup cp True) c)
      else (case finalize_resume cp x c of
              None \<Rightarrow> None
            | Some (Await cp', c1) \<Rightarrow> Some (set_pc t (DisconnectCleanup cp' rem) c1)
            | Some (_, c1) \<Rightarrow> Some (finish t (unlock c1))))"
| "resume_at ReconnectStart t d x c =
     (if x = Cancelled then Some (finish t c)
      else if x = Done then Some (reconnect_start t d c) else None)"
| "resume_at (ReconnectSleep delay) t d x c =
     (if x = Cancelled then Some (reconnect_end t c)
      else if x = Done
      then Some (if c_need_reconnect c then set_pc t ReconnectLock c else reconnect_end t c)
      else None)"
| "resume_at ReconnectLock t d x c =
     (if x = Cancelled then Some (reconnect_end t c)
      else if x = Done then map_option (reconnect_locked t (d_now d)) (acquire t c) else None)"
| "resume_at ReconnectClose t d x c =
     (if x = Cancelled then Some (reconnect_end t (unlock c))
      else if x = Done \<or> x = Fails
      then map_option
             (\<lambda>s. reconnect_flow t (do_connect (d_now d) (close_socket s c\<lparr>c_ws := None\<rparr>))) (c_ws c)
      else None)"
| "resume_at (ReconnectRun p) t d x c = map_option (reconnect_flow t) (do_connect_resume p x c)"
| "resume_at ReceiveStart t d x c =
     (if x = Cancelled then Some (finish t c)
      else if x = Done then Some (receive_loop t c) else None)"
| "resume_at ReceiveWait t d x c =
     (case x of
        Frames fs \<Rightarrow> Some (process_frames t fs c)
      | Fails \<Rightarrow> Some (receive_exit t c)
      | Cancelled \<Rightarrow> Some (receive_exit t c)
      | _ \<Rightarrow> None)"
| "resume_at (ReceiveSend fs) t d x c =
     (if x = Cancelled then Some (receive_exit t c)
      else if x = Done \<or> x = Fails then Some (process_frames t fs c) else None)"
| "resume_at (ReceiveHandle fs) t d x c =
     (if x = Cancelled then Some (receive_exit t c)
      else if x = Done \<or> x = Fails then Some (process_frames t fs c) else None)"
| "resume_at (ReceiveClose s fs) t d x c =
     (if x = Cancelled then Some (receive_exit t c)
      else if x = Done \<or> x = Fails then Some (process_frames t fs (close_socket s c)) else None)"
| "resume_at HeartStart t d x c =
     (if x = Cancelled then Some (finish t c)
      else if x = Done then Some (heartbeat_loop t c) else None)"
| "resume_at HeartSleep t d x c =
     (if x = Cancelled then Some (finish t c)
      else if x = Done then Some (heartbeat_tick t c) else None)"
| "resume_at (HeartClose s) t d x c =
     (if x = Cancelled then Some (finish t c)
      else if x = Done \<or> x = Fails then Some (finish t (close_socket s c)) else None)"
| "resume_at HeartSend t d x c =
     (if x = Cancelled \<or> x = Fails then Some (finish t c)
      else if x = Done then Some (heartbeat_loop t c) else None)"

definition resume :: "tid \<Rightarrow> draw \<Rightarrow> outcome \<Rightarrow> conn \<Rightarrow> conn option" where
  \<comment> \<open>a requested cancellation is delivered at the next resumption, and only then\<close>
  "resume t d x c =
     (case w_tasks c t of
        None \<Rightarrow> None
      | Some p \<Rightarrow> if (x = Cancelled) = (t \<in> w_cancel c) then resume_at p t d x c else None)"

fun is_call :: "pc \<Rightarrow> bool" where
  "is_call ConnectLock = True"
| "is_call (ConnectReset _ _) = True"
| "is_call (ConnectRun _) = True"
| "is_call (ConnectCleanup _ _ _) = True"
| "is_call (DisconnectDrain _ _) = True"
| "is_call (DisconnectLock _) = True"
| "is_call (DisconnectCleanup _ _) = True"
| "is_call _ = False"

datatype conn_event =
    StartConnect | StartDisconnect | Resume tid draw outcome | CancelCall tid | Dropped socket

fun conn_step :: "conn_event \<Rightarrow> conn \<Rightarrow> conn option" where
  "conn_step StartConnect c = Some (spawn ConnectLock c)"
| "conn_step StartDisconnect c = Some (disconnect_call c)"
| "conn_step (Resume t d x) c = resume t d x c"
| "conn_step (CancelCall t) c =
     (case w_tasks c t of
        None \<Rightarrow> None
      | Some p \<Rightarrow> if is_call p then Some (cancel_task t c) else None)"
| "conn_step (Dropped s) c = Some (close_socket s c)"

fun run_conn :: "conn_event list \<Rightarrow> conn \<Rightarrow> conn option" where
  "run_conn [] c = Some c"
| "run_conn (e # es) c = (case conn_step e c of None \<Rightarrow> None | Some c' \<Rightarrow> run_conn es c')"

inductive reaches :: "(conn_event \<Rightarrow> bool) \<Rightarrow> conn \<Rightarrow> conn \<Rightarrow> bool" for P where
  reaches_here: "reaches P c c"
| reaches_step: "reaches P c c1 \<Longrightarrow> P e \<Longrightarrow> conn_step e c1 = Some c2 \<Longrightarrow> reaches P c c2"

locale conn_invariant =
  fixes allowed :: "conn_event \<Rightarrow> bool" and holds :: "conn \<Rightarrow> bool"
  assumes step_holds: "holds c \<Longrightarrow> allowed e \<Longrightarrow> conn_step e c = Some c' \<Longrightarrow> holds c'"
begin

lemma reaches_holds: "reaches allowed c c' \<Longrightarrow> holds c \<Longrightarrow> holds c'"
  by (induction rule: reaches.induct) (auto dest: step_holds)

lemma run_holds: "run_conn es c = Some c' \<Longrightarrow> list_all allowed es \<Longrightarrow> holds c \<Longrightarrow> holds c'"
  by (induction es arbitrary: c) (auto split: option.splits dest: step_holds)

end

lemma run_reaches:
  "run_conn es c = Some c' \<Longrightarrow> list_all P es \<Longrightarrow> reaches P a c \<Longrightarrow> reaches P a c'"
  by (induction es arbitrary: c) (auto split: option.splits intro: reaches.intros)

end
