(* ===== verification/ConnectionInv.thy ===== *)
theory ConnectionInv
  imports Connection
begin

text \<open>
  The invariant of the connection lifecycle. It says who may be running and which sockets may be
  open, by the phase of the task that holds the lifecycle lock, and every step preserves it.
\<close>

section \<open>Kinds of tasks and phases of the lock holder\<close>

datatype task_kind = ConnectTask | DisconnectTask | ReconnectTask | ReceiveTask | HeartTask

fun kind :: "pc \<Rightarrow> task_kind" where
  "kind ConnectLock = ConnectTask"
| "kind (ConnectReset _ _) = ConnectTask"
| "kind (ConnectRun _) = ConnectTask"
| "kind (ConnectCleanup _ _ _) = ConnectTask"
| "kind (DisconnectDrain _ _) = DisconnectTask"
| "kind (DisconnectLock _) = DisconnectTask"
| "kind (DisconnectCleanup _ _) = DisconnectTask"
| "kind ReconnectStart = ReconnectTask"
| "kind (ReconnectSleep _) = ReconnectTask"
| "kind ReconnectLock = ReconnectTask"
| "kind ReconnectClose = ReconnectTask"
| "kind (ReconnectRun _) = ReconnectTask"
| "kind ReceiveStart = ReceiveTask"
| "kind ReceiveWait = ReceiveTask"
| "kind (ReceiveSend _) = ReceiveTask"
| "kind (ReceiveHandle _) = ReceiveTask"
| "kind (ReceiveClose _ _) = ReceiveTask"
| "kind HeartStart = HeartTask"
| "kind HeartSleep = HeartTask"
| "kind (HeartClose _) = HeartTask"
| "kind HeartSend = HeartTask"

definition kind_at :: "conn \<Rightarrow> tid \<Rightarrow> task_kind option" where
  "kind_at c t = map_option kind (w_tasks c t)"

fun in_section :: "pc \<Rightarrow> bool" where
  "in_section (ConnectReset _ _) = True"
| "in_section (ConnectRun _) = True"
| "in_section (ConnectCleanup _ _ _) = True"
| "in_section (DisconnectCleanup _ _) = True"
| "in_section ReconnectClose = True"
| "in_section (ReconnectRun _) = True"
| "in_section _ = False"

definition section_at :: "conn \<Rightarrow> tid \<Rightarrow> bool" where
  "section_at c t \<longleftrightarrow> (case w_tasks c t of None \<Rightarrow> False | Some p \<Rightarrow> in_section p)"

fun waiting_start :: "pc \<Rightarrow> bool" where
  "waiting_start ReconnectStart = True"
| "waiting_start _ = False"

definition started_at :: "conn \<Rightarrow> tid \<Rightarrow> bool" where
  \<comment> \<open>a reconnect task that has passed its first checks\<close>
  "started_at c t \<longleftrightarrow>
     (case w_tasks c t of None \<Rightarrow> False | Some p \<Rightarrow> kind p = ReconnectTask \<and> p \<noteq> ReconnectStart)"

definition none_of :: "task_kind set \<Rightarrow> conn \<Rightarrow> bool" where
  "none_of ks c \<longleftrightarrow> (\<forall>t k. kind_at c t = Some k \<longrightarrow> k \<notin> ks)"

abbreviation "workers \<equiv> {ReconnectTask, ReceiveTask, HeartTask}"

definition sockets_of :: "conn \<Rightarrow> socket set" where
  "sockets_of c = set_option (c_ws c)"

fun run_ok :: "connect_pc \<Rightarrow> conn \<Rightarrow> bool" where
  "run_ok (Registering _) c \<longleftrightarrow> w_open c = {}"
| "run_ok Recording c \<longleftrightarrow> w_open c = {}"
| "run_ok Opening c \<longleftrightarrow> w_open c = {}"
| "run_ok Upgrading c \<longleftrightarrow> w_open c = {}"
| "run_ok (StoppingReceiver _) c \<longleftrightarrow> w_open c \<subseteq> sockets_of c \<and> c_recv_task c = None"
| "run_ok (StoppingHeartbeat h) c \<longleftrightarrow> w_open c \<subseteq> sockets_of c \<and> c_heartbeat_task c = Some h"
| "run_ok _ c \<longleftrightarrow> w_open c \<subseteq> sockets_of c"

fun cleanup_ok :: "cleanup_pc \<Rightarrow> conn \<Rightarrow> bool" where
  "cleanup_ok (Gathering ts) c \<longleftrightarrow>
     w_open c \<subseteq> sockets_of c \<and> (\<forall>t k. kind_at c t = Some k \<and> k \<in> workers \<longrightarrow> t \<in> set ts)"
| "cleanup_ok (ClosingSocket s) c \<longleftrightarrow> c_ws c = None \<and> w_open c \<subseteq> {s} \<and> none_of workers c"
| "cleanup_ok ClosingSession c \<longleftrightarrow>
     c_ws c = None \<and> w_open c = {} \<and> \<not> c_http c \<and> none_of workers c"

fun holder_ok :: "pc \<Rightarrow> conn \<Rightarrow> bool" where
  "holder_ok (ConnectReset cp _) c \<longleftrightarrow> cleanup_ok cp c \<and> \<not> c_need_reconnect c"
| "holder_ok (ConnectRun p) c \<longleftrightarrow> run_ok p c \<and> c_http c \<and> none_of {ReceiveTask, HeartTask} c"
| "holder_ok (ConnectCleanup cp e _) c \<longleftrightarrow>
     cleanup_ok cp c \<and> none_of {ReceiveTask, HeartTask} c \<and>
     (e = RaisedConflict \<longrightarrow> \<not> c_need_reconnect c)"
| "holder_ok (DisconnectCleanup cp _) c \<longleftrightarrow>
     cleanup_ok cp c \<and> \<not> c_need_reconnect c \<and> \<not> c_connected c"
| "holder_ok ReconnectClose c \<longleftrightarrow> w_open c \<subseteq> sockets_of c"
| "holder_ok (ReconnectRun p) c \<longleftrightarrow> run_ok p c \<and> c_http c"
| "holder_ok _ c \<longleftrightarrow> False"

fun run_stops :: "connect_pc \<Rightarrow> tid set" where
  "run_stops (StoppingReceiver v) = {v}"
| "run_stops _ = {}"

fun stops :: "pc \<Rightarrow> tid set" where
  \<comment> \<open>the receive task whose end this task waits for\<close>
  "stops (ConnectRun p) = run_stops p"
| "stops (ReconnectRun p) = run_stops p"
| "stops _ = {}"

definition holder_stops :: "conn \<Rightarrow> tid set" where
  "holder_stops c =
     (case c_lock c of None \<Rightarrow> {}
      | Some h \<Rightarrow> (case w_tasks c h of None \<Rightarrow> {} | Some p \<Rightarrow> stops p))"

section \<open>The invariant\<close>

definition tasks_ok :: "conn \<Rightarrow> bool" where
  \<comment> \<open>the fields name the tasks, and there is at most one reconnect and one heartbeat task\<close>
  "tasks_ok c \<longleftrightarrow>
     (\<forall>t. live t c \<longrightarrow> t < w_next_task c) \<and> (\<forall>t \<in> w_cancel c. live t c) \<and>
     (\<forall>t. kind_at c t = Some ReconnectTask \<longleftrightarrow> c_reconnect_task c = Some t) \<and>
     (\<forall>t. c_recv_task c = Some t \<longrightarrow> t < w_next_task c \<and> kind_at c t \<in> {None, Some ReceiveTask}) \<and>
     (\<forall>t. c_heartbeat_task c = Some t \<longrightarrow> t < w_next_task c \<and> kind_at c t \<in> {None, Some HeartTask}) \<and>
     (\<forall>t. kind_at c t = Some HeartTask \<longrightarrow> c_heartbeat_task c = Some t)"

definition receivers_in :: "conn \<Rightarrow> tid set \<Rightarrow> bool" where
  "receivers_in c S \<longleftrightarrow>
     (\<forall>t. kind_at c t = Some ReceiveTask \<longrightarrow> c_recv_task c = Some t \<or> t \<in> S)"

definition flags_ok :: "conn \<Rightarrow> bool" where
  "flags_ok c \<longleftrightarrow>
     (c_in_progress c \<longrightarrow> (\<exists>t. started_at c t)) \<and>
     (c_disconnecting c \<longrightarrow> \<not> c_need_reconnect c) \<and>
     (\<not> c_http c \<longrightarrow> none_of {ReceiveTask, HeartTask} c)"

definition lock_ok :: "conn \<Rightarrow> bool" where
  "lock_ok c \<longleftrightarrow>
     (\<forall>t. section_at c t \<longrightarrow> c_lock c = Some t) \<and>
     (case c_lock c of
        None \<Rightarrow> w_open c \<subseteq> sockets_of c
      | Some t \<Rightarrow> (\<exists>p. w_tasks c t = Some p \<and> holder_ok p c))"

definition conn_ok :: "conn \<Rightarrow> bool" where
  "conn_ok c \<longleftrightarrow> tasks_ok c \<and> receivers_in c (holder_stops c) \<and> flags_ok c \<and> lock_ok c"

definition held :: "conn \<Rightarrow> tid \<Rightarrow> bool" where
  \<comment> \<open>the part of the invariant that holds while the lock holder runs\<close>
  "held c t \<longleftrightarrow>
     tasks_ok c \<and> flags_ok c \<and> c_lock c = Some t \<and> (\<forall>u. section_at c u \<longrightarrow> u = t) \<and> live t c"

lemmas conn_defs =
  tasks_ok_def receivers_in_def flags_ok_def lock_ok_def none_of_def kind_at_def section_at_def
  started_at_def live_def holder_stops_def sockets_of_def

lemma new_runtime_ok: "conn_ok (new_runtime m)"
  by (simp add: conn_ok_def conn_defs new_runtime_def)

section \<open>What the invariant depends on\<close>

lemma holder_ok_less:
  assumes "holder_ok p c" "w_open c' \<subseteq> w_open c" "c_ws c' = c_ws c" "c_http c' = c_http c"
    "c_need_reconnect c' \<longrightarrow> c_need_reconnect c" "c_connected c' \<longrightarrow> c_connected c"
    "c_recv_task c' = c_recv_task c" "c_heartbeat_task c' = c_heartbeat_task c"
    "\<And>t k. kind_at c' t = Some k \<Longrightarrow> k \<in> workers \<Longrightarrow> kind_at c t = Some k"
  shows "holder_ok p c'"
proof -
  have n: "none_of ks c'" if "ks \<subseteq> workers" "none_of ks c" for ks
    using that assms(9) unfolding none_of_def by blast
  note eqs = sockets_of_def assms(3,4,7,8)
  have r: "run_ok q c \<Longrightarrow> run_ok q c'" for q
    using assms(2) by (cases q) (auto simp only: run_ok.simps eqs)
  have u: "cleanup_ok q c'" if "cleanup_ok q c" for q
  proof (cases q)
    case (Gathering ts)
    with that assms(2,9) show ?thesis unfolding Gathering cleanup_ok.simps eqs by blast
  next
    case (ClosingSocket s)
    with that assms(2) n [of workers] show ?thesis
      unfolding ClosingSocket cleanup_ok.simps eqs by blast
  next
    case ClosingSession
    with that assms(2) n [of workers] show ?thesis
      unfolding ClosingSession cleanup_ok.simps eqs by blast
  qed
  have n2: "none_of {ReceiveTask, HeartTask} c \<Longrightarrow> none_of {ReceiveTask, HeartTask} c'"
    by (rule n) auto
  show ?thesis
    using assms(1,2,5,6) r u n2 by (cases p) (simp_all only: holder_ok.simps eqs, blast+)
qed

lemma tasks_ok_cong:
  assumes "w_tasks c' = w_tasks c" "w_cancel c' \<subseteq> w_cancel c" "w_next_task c' = w_next_task c"
    "c_reconnect_task c' = c_reconnect_task c" "c_recv_task c' = c_recv_task c"
    "c_heartbeat_task c' = c_heartbeat_task c"
  shows "tasks_ok c \<Longrightarrow> tasks_ok c'"
  unfolding tasks_ok_def live_def kind_at_def assms(1,3-) using assms(2) by blast

lemma flags_ok_cong:
  assumes "w_tasks c' = w_tasks c" "c_http c' = c_http c"
    "c_in_progress c' = c_in_progress c" "c_disconnecting c' \<longrightarrow> \<not> c_need_reconnect c'"
  shows "flags_ok c \<Longrightarrow> flags_ok c'"
  unfolding flags_ok_def none_of_def kind_at_def started_at_def assms(1-3) using assms(4) by blast

lemma conn_ok_less:
  assumes "conn_ok c" "w_open c' \<subseteq> w_open c" "c_connected c' \<longrightarrow> c_connected c"
    "c_ws c' = c_ws c" "c_http c' = c_http c" "c_need_reconnect c' \<longrightarrow> c_need_reconnect c"
    "c_disconnecting c' \<longrightarrow> \<not> c_need_reconnect c'" "c_in_progress c' = c_in_progress c"
    "c_lock c' = c_lock c" "c_reconnect_task c' = c_reconnect_task c"
    "c_recv_task c' = c_recv_task c" "c_heartbeat_task c' = c_heartbeat_task c"
    "w_tasks c' = w_tasks c" "w_cancel c' \<subseteq> w_cancel c" "w_next_task c' = w_next_task c"
  shows "conn_ok c'"
proof -
  have k: "kind_at c' = kind_at c" by (rule ext) (simp only: kind_at_def assms(13))
  have h: "holder_ok p c'" if "holder_ok p c" for p
    using that assms(2-6,11,12) k by (intro holder_ok_less [of p c c']) simp_all
  have "receivers_in c' (holder_stops c') = receivers_in c (holder_stops c)"
    by (simp only: conn_defs assms(9,11,13))
  moreover have "tasks_ok c'" "flags_ok c'"
    using assms tasks_ok_cong [of c' c] flags_ok_cong [of c' c] by (simp_all only: conn_ok_def)
  moreover have "section_at c' = section_at c" by (rule ext) (simp only: section_at_def assms(13))
  then have "lock_ok c'"
    using assms(1,2) h unfolding conn_ok_def lock_ok_def assms(9,13) sockets_of_def assms(4)
    by (auto split: option.splits)
  ultimately show ?thesis using assms(1) by (simp only: conn_ok_def)
qed

lemma conn_ok_irrelevant:
  assumes "conn_ok c"
  shows "conn_ok (c\<lparr>c_ping_count := n\<rparr>)" "conn_ok (c\<lparr>c_attempts := a\<rparr>)"
    "conn_ok (c\<lparr>c_last_refresh := r\<rparr>)" "conn_ok (c\<lparr>c_connected := False\<rparr>)"
    "conn_ok (close_socket s c)"
proof -
  have "c_disconnecting c \<longrightarrow> \<not> c_need_reconnect c"
    using assms by (simp add: conn_ok_def flags_ok_def)
  then show "conn_ok (c\<lparr>c_ping_count := n\<rparr>)" "conn_ok (c\<lparr>c_attempts := a\<rparr>)"
    "conn_ok (c\<lparr>c_last_refresh := r\<rparr>)" "conn_ok (c\<lparr>c_connected := False\<rparr>)"
    "conn_ok (close_socket s c)"
    by - (rule conn_ok_less [OF assms]; simp add: close_socket_def)+
qed

section \<open>Fields that moving a task keeps\<close>

lemma set_pc_fields [simp]:
  "c_need_reconnect (set_pc t p c) = c_need_reconnect c"
  "c_disconnecting (set_pc t p c) = c_disconnecting c"
  "c_connected (set_pc t p c) = c_connected c"
  "c_in_progress (set_pc t p c) = c_in_progress c"
  "c_attempts (set_pc t p c) = c_attempts c"
  "c_last_refresh (set_pc t p c) = c_last_refresh c"
  "c_ping_count (set_pc t p c) = c_ping_count c"
  "c_ping_max (set_pc t p c) = c_ping_max c"
  "c_http (set_pc t p c) = c_http c"
  "c_ws (set_pc t p c) = c_ws c"
  "c_lock (set_pc t p c) = c_lock c"
  "c_reconnect_task (set_pc t p c) = c_reconnect_task c"
  "c_recv_task (set_pc t p c) = c_recv_task c"
  "c_heartbeat_task (set_pc t p c) = c_heartbeat_task c"
  "w_open (set_pc t p c) = w_open c"
  "w_next_socket (set_pc t p c) = w_next_socket c"
  "w_next_task (set_pc t p c) = w_next_task c"
  by (simp_all add: set_pc_def)

lemma spawn_fields [simp]:
  "c_need_reconnect (spawn p c) = c_need_reconnect c"
  "c_disconnecting (spawn p c) = c_disconnecting c"
  "c_connected (spawn p c) = c_connected c"
  "c_in_progress (spawn p c) = c_in_progress c"
  "c_attempts (spawn p c) = c_attempts c"
  "c_last_refresh (spawn p c) = c_last_refresh c"
  "c_ping_count (spawn p c) = c_ping_count c"
  "c_ping_max (spawn p c) = c_ping_max c"
  "c_http (spawn p c) = c_http c"
  "c_ws (spawn p c) = c_ws c"
  "c_lock (spawn p c) = c_lock c"
  "c_reconnect_task (spawn p c) = c_reconnect_task c"
  "c_recv_task (spawn p c) = c_recv_task c"
  "c_heartbeat_task (spawn p c) = c_heartbeat_task c"
  "w_open (spawn p c) = w_open c"
  "w_next_socket (spawn p c) = w_next_socket c"
  by (simp_all add: spawn_def)

lemma finish_fields [simp]:
  "c_need_reconnect (finish t c) = c_need_reconnect c"
  "c_disconnecting (finish t c) = c_disconnecting c"
  "c_connected (finish t c) = c_connected c"
  "c_in_progress (finish t c) = c_in_progress c"
  "c_attempts (finish t c) = c_attempts c"
  "c_last_refresh (finish t c) = c_last_refresh c"
  "c_ping_count (finish t c) = c_ping_count c"
  "c_ping_max (finish t c) = c_ping_max c"
  "c_http (finish t c) = c_http c"
  "c_ws (finish t c) = c_ws c"
  "c_lock (finish t c) = c_lock c"
  "c_recv_task (finish t c) = c_recv_task c"
  "c_heartbeat_task (finish t c) = c_heartbeat_task c"
  "w_open (finish t c) = w_open c"
  "w_next_socket (finish t c) = w_next_socket c"
  "w_next_task (finish t c) = w_next_task c"
  by (simp_all add: finish_def)

section \<open>Moves of tasks\<close>

lemma kind_at_set_pc:
  "w_tasks c t = Some p \<Longrightarrow> kind p' = kind p \<Longrightarrow> kind_at (set_pc t p' c) = kind_at c"
  by (rule ext) (simp add: kind_at_def set_pc_def)

lemma conn_okD:
  assumes "conn_ok c"
  shows "tasks_ok c" "receivers_in c (holder_stops c)" "flags_ok c" "lock_ok c"
  using assms by (simp_all add: conn_ok_def)

lemma not_holder: "conn_ok c \<Longrightarrow> w_tasks c t = Some p \<Longrightarrow> \<not> in_section p \<Longrightarrow> c_lock c \<noteq> Some t"
  by (cases p) (auto simp: conn_ok_def lock_ok_def)

lemma conn_ok_move:
  assumes "conn_ok c" "w_tasks c t = Some p" "\<not> in_section p" "\<not> in_section p'" "kind p' = kind p"
    "p' = ReconnectStart \<longrightarrow> p = ReconnectStart"
  shows "conn_ok (set_pc t p' c)"
proof -
  have k: "kind_at (set_pc t p' c) = kind_at c" using assms(2,5) by (rule kind_at_set_pc)
  have h: "holder_ok q (set_pc t p' c)" if "holder_ok q c" for q
    by (rule holder_ok_less [OF that]) (use k in \<open>simp_all\<close>)
  have n: "c_lock c \<noteq> Some t" using assms(1-3) by (rule not_holder)
  have s: "holder_stops (set_pc t p' c) = holder_stops c"
    using n by (auto simp: holder_stops_def set_pc_def split: option.splits)
  have l: "live u (set_pc t p' c) = live u c" for u using assms(2) by (simp add: live_def set_pc_def)
  have wc: "w_cancel (set_pc t p' c) \<subseteq> w_cancel c" by (auto simp: set_pc_def)
  have "tasks_ok (set_pc t p' c)"
    using conn_okD(1) [OF assms(1)] unfolding tasks_ok_def k l set_pc_fields using wc by blast
  moreover have "receivers_in (set_pc t p' c) (holder_stops (set_pc t p' c))"
    using conn_okD(2) [OF assms(1)] by (simp only: receivers_in_def k s set_pc_fields)
  moreover have st: "started_at c u \<Longrightarrow> started_at (set_pc t p' c) u" for u
    using assms by (auto simp: started_at_def set_pc_def)
  have "flags_ok (set_pc t p' c)"
    using conn_okD(3) [OF assms(1)] st unfolding flags_ok_def none_of_def k set_pc_fields by blast
  moreover have "section_at (set_pc t p' c) u = section_at c u" for u
    using assms by (simp add: section_at_def set_pc_def)
  then have "lock_ok (set_pc t p' c)"
    using conn_okD(4) [OF assms(1)] n h unfolding lock_ok_def
    by (auto simp: set_pc_def sockets_of_def split: option.splits)
  ultimately show ?thesis by (simp add: conn_ok_def)
qed

lemma holder_stops_cong:
  "w_tasks c' = w_tasks c \<Longrightarrow> c_lock c' = c_lock c \<Longrightarrow> holder_stops c' = holder_stops c"
  by (simp only: holder_stops_def)

lemma kind_at_finish: "kind_at (finish t c) = (kind_at c)(t := None)"
  by (rule ext) (simp add: kind_at_def finish_def)

lemma no_active_reconnect:
  assumes "conn_ok c" "w_tasks c t = Some ReconnectStart"
  shows "\<not> c_in_progress c"
proof
  assume "c_in_progress c"
  then obtain u where u: "started_at c u" using assms(1) by (auto simp: conn_ok_def flags_ok_def)
  then have "kind_at c u = Some ReconnectTask"
    by (auto simp: started_at_def kind_at_def split: option.splits)
  moreover have "kind_at c t = Some ReconnectTask" using assms(2) by (simp add: kind_at_def)
  ultimately have "u = t" using conn_okD(1) [OF assms(1)] unfolding tasks_ok_def by (metis option.inject)
  with u assms(2) show False by (simp add: started_at_def)
qed

lemma tasks_ok_finish:
  assumes "tasks_ok c"
  shows "tasks_ok (finish t c)"
proof -
  have "w_cancel (finish t c) = w_cancel c - {t}" by (simp add: finish_def)
  moreover have "c_reconnect_task (finish t c) =
      (if c_reconnect_task c = Some t then None else c_reconnect_task c)" by (simp add: finish_def)
  moreover have "live u (finish t c) \<longleftrightarrow> live u c \<and> u \<noteq> t" for u by (simp add: live_def finish_def)
  ultimately show ?thesis
    using assms unfolding tasks_ok_def kind_at_finish finish_fields by (auto split: if_splits)
qed

lemma flags_ok_finish:
  assumes "flags_ok c" "started_at c t \<longrightarrow> \<not> c_in_progress c"
  shows "flags_ok (finish t c)"
proof -
  have "started_at (finish t c) u \<longleftrightarrow> started_at c u \<and> u \<noteq> t" for u
    by (simp add: started_at_def finish_def)
  then show ?thesis
    using assms unfolding flags_ok_def none_of_def kind_at_finish finish_fields
    by (auto split: if_splits)
qed

lemma section_at_finish: "section_at (finish t c) u \<longleftrightarrow> section_at c u \<and> u \<noteq> t"
  by (simp add: section_at_def finish_def)

lemma conn_ok_finish:
  assumes "conn_ok c" "w_tasks c t = Some p" "\<not> in_section p"
    "kind p = ReconnectTask \<Longrightarrow> c_in_progress c \<Longrightarrow> p = ReconnectStart"
  shows "conn_ok (finish t c)"
proof -
  have h: "holder_ok q (finish t c)" if "holder_ok q c" for q
    by (rule holder_ok_less [OF that]) (simp_all add: kind_at_finish split: if_splits)
  have n: "c_lock c \<noteq> Some t" using assms(1-3) by (rule not_holder)
  have s: "holder_stops (finish t c) = holder_stops c"
    using n by (auto simp: holder_stops_def finish_def split: option.splits)
  have "started_at c t \<longrightarrow> \<not> c_in_progress c"
    using assms(2,4) by (auto simp: started_at_def)
  then have "flags_ok (finish t c)" by (rule flags_ok_finish [OF conn_okD(3) [OF assms(1)]])
  moreover have "receivers_in (finish t c) (holder_stops (finish t c))"
    using conn_okD(2) [OF assms(1)] unfolding receivers_in_def kind_at_finish s finish_fields by simp
  moreover have "lock_ok (finish t c)"
    using conn_okD(4) [OF assms(1)] n h unfolding lock_ok_def section_at_finish
    by (auto simp: finish_def sockets_of_def split: option.splits)
  ultimately show ?thesis using tasks_ok_finish [OF conn_okD(1) [OF assms(1)]] by (simp add: conn_ok_def)
qed

lemma conn_ok_reconnect_end:
  assumes "conn_ok c" "w_tasks c t = Some p" "\<not> in_section p" "kind p = ReconnectTask"
  shows "conn_ok (reconnect_end t c)"
proof -
  let ?c = "c\<lparr>c_in_progress := False\<rparr>"
  have k: "kind_at ?c = kind_at c" by (rule ext) (simp add: kind_at_def)
  have h: "holder_ok q ?c" if "holder_ok q c" for q
    by (rule holder_ok_less [OF that]) (simp_all add: k)
  have "tasks_ok ?c" using conn_okD(1) [OF assms(1)] by (rule tasks_ok_cong [rotated -1]) simp_all
  moreover have "receivers_in ?c (holder_stops ?c)"
    using conn_okD(2) [OF assms(1)] holder_stops_cong [of ?c c] by (simp add: receivers_in_def k)
  moreover have "flags_ok ?c"
    using conn_okD(3) [OF assms(1)] by (simp add: flags_ok_def none_of_def k)
  moreover have "lock_ok ?c"
    using conn_okD(4) [OF assms(1)] h unfolding lock_ok_def
    by (auto simp: section_at_def sockets_of_def split: option.splits)
  ultimately have "conn_ok ?c" by (simp add: conn_ok_def)
  then show ?thesis
    unfolding reconnect_end_def by (rule conn_ok_finish) (use assms in simp_all)
qed

lemma kind_at_spawn: "kind_at (spawn p c) = (kind_at c)(w_next_task c := Some (kind p))"
  by (rule ext) (simp add: kind_at_def spawn_def)

lemma next_task_fresh:
  assumes "tasks_ok c"
  shows "w_tasks c (w_next_task c) = None" "kind_at c (w_next_task c) = None"
    "w_next_task c \<notin> w_cancel c"
  using assms unfolding tasks_ok_def live_def kind_at_def by (blast | simp)+

lemma conn_ok_spawn_call:
  assumes "conn_ok c" "\<not> in_section p" "is_call p"
  shows "conn_ok (spawn p c)"
proof -
  note t = conn_okD(1) [OF assms(1)]
  note fresh = next_task_fresh [OF t]
  have kp: "kind p \<notin> workers" using assms(3) by (cases p) simp_all
  have h: "holder_ok q (spawn p c)" if "holder_ok q c" for q
    by (rule holder_ok_less [OF that]) (use kp in \<open>auto simp: kind_at_spawn split: if_splits\<close>)
  have n: "c_lock c \<noteq> Some (w_next_task c)"
    using conn_okD(4) [OF assms(1)] fresh(1) by (auto simp: lock_ok_def)
  have "holder_stops (spawn p c) = holder_stops c"
    using n by (auto simp: holder_stops_def spawn_def split: option.splits)
  then have rv: "receivers_in (spawn p c) (holder_stops (spawn p c))"
    using conn_okD(2) [OF assms(1)] kp by (auto simp: receivers_in_def kind_at_spawn)
  have "w_cancel (spawn p c) = w_cancel c" "w_next_task (spawn p c) = w_next_task c + 1"
    "\<And>u. live u (spawn p c) \<longleftrightarrow> live u c \<or> u = w_next_task c"
    by (simp_all add: live_def spawn_def)
  moreover have "c_reconnect_task c \<noteq> Some (w_next_task c)"
    using t fresh(2) unfolding tasks_ok_def by (metis option.distinct(1))
  ultimately have "tasks_ok (spawn p c)"
    using t kp fresh unfolding tasks_ok_def kind_at_spawn spawn_fields
    by (auto simp: less_Suc_eq)
  moreover note rv
  moreover have st: "started_at c u \<Longrightarrow> started_at (spawn p c) u" for u
    using fresh by (auto simp: started_at_def spawn_def)
  have "flags_ok (spawn p c)"
    using conn_okD(3) [OF assms(1)] st kp unfolding flags_ok_def none_of_def kind_at_spawn spawn_fields
    by auto
  moreover have "section_at (spawn p c) u = section_at c u" for u
    using fresh assms(2) by (simp add: section_at_def spawn_def)
  then have "lock_ok (spawn p c)"
    using conn_okD(4) [OF assms(1)] n h unfolding lock_ok_def
    by (auto simp: spawn_def sockets_of_def split: option.splits)
  ultimately show ?thesis by (simp add: conn_ok_def)
qed

lemma conn_ok_cancel:
  assumes "conn_ok c" "live t c"
  shows "conn_ok (cancel_task t c)"
proof -
  let ?c = "cancel_task t c"
  have k: "kind_at ?c = kind_at c" by (rule ext) (simp add: kind_at_def cancel_task_def)
  have h: "holder_ok q ?c" if "holder_ok q c" for q
    by (rule holder_ok_less [OF that]) (simp_all add: k, simp_all add: cancel_task_def)
  have l: "live u ?c = live u c" for u by (simp add: live_def cancel_task_def)
  have "tasks_ok ?c"
    using conn_okD(1) [OF assms(1)] assms(2) unfolding tasks_ok_def l k
    by (simp add: cancel_task_def)
  moreover have "receivers_in ?c (holder_stops ?c)"
    using conn_okD(2) [OF assms(1)] holder_stops_cong [of ?c c] unfolding receivers_in_def k
    by (simp add: cancel_task_def)
  moreover have "flags_ok ?c"
    using conn_okD(3) [OF assms(1)] by (simp add: flags_ok_def none_of_def k, simp add: cancel_task_def started_at_def)
  moreover have "lock_ok ?c"
    using conn_okD(4) [OF assms(1)] h unfolding lock_ok_def
    by (auto simp: section_at_def sockets_of_def cancel_task_def split: option.splits)
  ultimately show ?thesis by (simp add: conn_ok_def)
qed

lemma conn_ok_disconnect_call:
  assumes "conn_ok c"
  shows "conn_ok (disconnect_call c)"
proof -
  let ?c = "c\<lparr>c_need_reconnect := False, c_disconnecting := True\<rparr>"
  have ok: "conn_ok ?c" by (rule conn_ok_less [OF assms]) simp_all
  show ?thesis
  proof (cases "live_task (c_reconnect_task ?c) ?c")
    case None
    then show ?thesis
      using conn_ok_spawn_call [OF ok, of "DisconnectLock False"] by (simp add: disconnect_call_def Let_def)
  next
    case (Some r)
    then have "live r ?c" by (auto simp: live_task_def split: option.splits if_splits)
    then show ?thesis
      using conn_ok_spawn_call [OF conn_ok_cancel [OF ok], of r "DisconnectDrain r False"] Some
      by (simp add: disconnect_call_def Let_def)
  qed
qed

section \<open>Starting a reconnect task\<close>

lemma live_task_None [simp]: "live_task None c = None"
  by (simp add: live_task_def)

lemma live_task_reconnect:
  assumes "tasks_ok c"
  shows "live_task (c_reconnect_task c) c = c_reconnect_task c"
proof (cases "c_reconnect_task c")
  case (Some r)
  then have "kind_at c r = Some ReconnectTask" using assms unfolding tasks_ok_def by blast
  with Some show ?thesis by (auto simp: live_task_def live_def kind_at_def)
qed simp

lemma spawn_reconnect_cases:
  assumes "tasks_ok c"
  shows "spawn_reconnect c =
     (if c_need_reconnect c \<and> c_reconnect_task c = None
      then spawn ReconnectStart (c\<lparr>c_reconnect_task := Some (w_next_task c)\<rparr>) else c)"
  using live_task_reconnect [OF assms] by (auto simp: spawn_reconnect_def)

lemma conn_ok_spawn_reconnect:
  assumes "conn_ok c" "c_lock c = None \<or> \<not> c_need_reconnect c \<or> c_reconnect_task c \<noteq> None"
  shows "conn_ok (spawn_reconnect c)"
proof (cases "c_need_reconnect c \<and> c_reconnect_task c = None")
  case True
  let ?c = "spawn ReconnectStart (c\<lparr>c_reconnect_task := Some (w_next_task c)\<rparr>)"
  note t = conn_okD(1) [OF assms(1)]
  note fresh = next_task_fresh [OF t]
  have l: "c_lock c = None" using True assms(2) by simp
  have k: "kind_at ?c = (kind_at c)(w_next_task c := Some ReconnectTask)"
    by (rule ext) (simp add: kind_at_def spawn_def)
  have f: "w_cancel ?c = w_cancel c" "w_next_task ?c = w_next_task c + 1"
    "c_reconnect_task ?c = Some (w_next_task c)" "c_recv_task ?c = c_recv_task c"
    "c_heartbeat_task ?c = c_heartbeat_task c" "c_lock ?c = None"
    "\<And>u. live u ?c \<longleftrightarrow> live u c \<or> u = w_next_task c"
    using l by (simp_all add: live_def spawn_def)
  have no: "kind_at c u \<noteq> Some ReconnectTask" for u
    using t True unfolding tasks_ok_def by (metis option.distinct(1))
  have "tasks_ok ?c"
    using t fresh no unfolding tasks_ok_def k f by (auto simp: less_Suc_eq)
  moreover have "receivers_in ?c (holder_stops ?c)"
    using conn_okD(2) [OF assms(1)] l by (auto simp: receivers_in_def k holder_stops_def f)
  moreover have st: "started_at c u \<Longrightarrow> started_at ?c u" for u
    using fresh by (auto simp: started_at_def spawn_def)
  have "flags_ok ?c"
    using conn_okD(3) [OF assms(1)] st unfolding flags_ok_def none_of_def k spawn_fields conn.simps
    by auto
  moreover have "section_at ?c u = section_at c u" for u
    using fresh by (simp add: section_at_def spawn_def)
  then have "lock_ok ?c"
    using conn_okD(4) [OF assms(1)] l unfolding lock_ok_def by (simp add: sockets_of_def)
  ultimately show ?thesis using True by (simp add: spawn_reconnect_cases [OF t] conn_ok_def)
next
  case False
  then show ?thesis using assms(1) unfolding spawn_reconnect_cases [OF conn_okD(1) [OF assms(1)]] by auto
qed

lemma finish_spawn_reconnect:
  assumes "c_reconnect_task c \<noteq> Some t" "t < w_next_task c"
  shows "finish t (spawn_reconnect c) = spawn_reconnect (finish t c)"
proof -
  have "live_task (c_reconnect_task c) (finish t c) = live_task (c_reconnect_task c) c"
    using assms(1) by (auto simp: live_task_def live_def finish_def split: option.split)
  moreover have "c_reconnect_task (finish t c) = c_reconnect_task c"
    using assms(1) by (simp add: finish_def)
  ultimately show ?thesis
    using assms by (auto simp: spawn_reconnect_def finish_def spawn_def fun_upd_twist)
qed

section \<open>Steps of the receive task and of the heartbeat\<close>

lemma holder_kind: "conn_ok c \<Longrightarrow> c_lock c = Some h \<Longrightarrow> \<exists>p. w_tasks c h = Some p \<and> holder_ok p c"
  by (simp add: conn_ok_def lock_ok_def)

lemma receiver_alone:
  assumes "conn_ok c" "kind_at c t = Some ReceiveTask"
  shows "c_lock c = None \<or> \<not> c_need_reconnect c \<or> c_reconnect_task c \<noteq> None"
proof (cases "c_lock c")
  case (Some h)
  then obtain p where p: "w_tasks c h = Some p" "holder_ok p c" using holder_kind assms(1) by blast
  have "kind p = ReconnectTask \<Longrightarrow> c_reconnect_task c = Some h"
    using conn_okD(1) [OF assms(1)] p(1) unfolding tasks_ok_def kind_at_def by fastforce
  with p(2) assms(2) show ?thesis by (cases p) (auto simp: none_of_def)
qed simp

lemma conn_ok_receive_exit:
  assumes "conn_ok c" "w_tasks c t = Some p" "kind p = ReceiveTask"
  shows "conn_ok (receive_exit t c)"
proof -
  have k: "kind_at c t = Some ReceiveTask" using assms(2,3) by (simp add: kind_at_def)
  have "c_reconnect_task c = Some t \<Longrightarrow> kind_at c t = Some ReconnectTask"
    using conn_okD(1) [OF assms(1)] unfolding tasks_ok_def by blast
  with k have nr: "c_reconnect_task c \<noteq> Some t" by auto
  have "live t c" using assms(2) by (simp add: live_def)
  then have lt: "t < w_next_task c"
    using conn_okD(1) [OF assms(1)] unfolding tasks_ok_def by blast
  have ns: "\<not> in_section p" using assms(3) by (cases p) simp_all
  let ?c = "c\<lparr>c_connected := False\<rparr>"
  have "conn_ok (finish t ?c)"
    by (rule conn_ok_finish [of ?c t p]) (use assms ns conn_ok_irrelevant(4) in simp_all)
  moreover have "c_reconnect_task (finish t ?c) = c_reconnect_task c" using nr by (simp add: finish_def)
  ultimately have "conn_ok (spawn_reconnect (finish t ?c))"
    using receiver_alone [OF assms(1) k] by (intro conn_ok_spawn_reconnect) simp_all
  moreover have "conn_ok (finish t c)"
    by (rule conn_ok_finish [of c t p]) (use assms ns in simp_all)
  ultimately show ?thesis
    using finish_spawn_reconnect [of ?c t] nr lt by (simp add: receive_exit_def)
qed

lemma conn_ok_receive_loop:
  assumes "conn_ok c" "w_tasks c t = Some p" "kind p = ReceiveTask"
  shows "conn_ok (receive_loop t c)"
proof -
  have "\<not> in_section p" using assms(3) by (cases p) simp_all
  then have "conn_ok (set_pc t ReceiveWait c)" by (intro conn_ok_move [OF assms(1,2)]) (use assms in simp_all)
  then show ?thesis using conn_ok_receive_exit [OF assms] by (simp add: receive_loop_def)
qed

lemma conn_ok_process_frames:
  assumes "conn_ok c" "w_tasks c t = Some p" "kind p = ReceiveTask"
  shows "conn_ok (process_frames t fs c)"
  using assms
proof (induction t fs c rule: process_frames.induct)
  case (1 t c)
  then show ?case using conn_ok_receive_loop by simp
next
  case (2 t fs c)
  then show ?case using conn_ok_irrelevant(1) by simp
next
  case (3 t fs c)
  have "\<not> in_section p" using 3 by (cases p) simp_all
  then show ?case using 3 by (auto intro: conn_ok_move)
next
  case (4 t fs c)
  have "\<not> in_section p" using 4 by (cases p) simp_all
  then show ?case using 4 by (auto intro: conn_ok_move)
next
  case (5 t fs c)
  have "\<not> in_section p" using 5 by (cases p) simp_all
  moreover have "conn_ok (c\<lparr>c_connected := False\<rparr>)" using conn_ok_irrelevant(4) 5(2) .
  ultimately show ?case using 5 by (auto intro: conn_ok_move split: option.split)
qed simp_all

lemma conn_ok_heartbeat_loop:
  assumes "conn_ok c" "w_tasks c t = Some p" "kind p = HeartTask"
  shows "conn_ok (heartbeat_loop t c)"
proof -
  have "\<not> in_section p" using assms(3) by (cases p) simp_all
  then show ?thesis
    using assms by (auto simp: heartbeat_loop_def intro: conn_ok_move conn_ok_finish)
qed

lemma conn_ok_heartbeat_tick:
  assumes "conn_ok c" "w_tasks c t = Some p" "kind p = HeartTask"
  shows "conn_ok (heartbeat_tick t c)"
proof -
  let ?c = "c\<lparr>c_ping_count := c_ping_count c + 1\<rparr>"
  have ns: "\<not> in_section p" using assms(3) by (cases p) simp_all
  have ok: "conn_ok ?c" using conn_ok_irrelevant(1) assms(1) .
  have off: "conn_ok (?c\<lparr>c_connected := False\<rparr>)" using conn_ok_irrelevant(4) [OF ok] .
  have "conn_ok (set_pc t (HeartClose s) (?c\<lparr>c_connected := False\<rparr>))" for s
    using conn_ok_move [OF off _ ns, of t "HeartClose s"] assms by simp
  moreover have "conn_ok (finish t (?c\<lparr>c_connected := False\<rparr>))"
    using conn_ok_finish [OF off _ ns, of t] assms by simp
  moreover have "conn_ok (set_pc t HeartSend ?c)"
    using conn_ok_move [OF ok _ ns, of t HeartSend] assms by simp
  moreover have "conn_ok (heartbeat_loop t ?c)"
    by (rule conn_ok_heartbeat_loop [OF ok]) (use assms in simp_all)
  ultimately show ?thesis by (simp add: heartbeat_tick_def Let_def split: option.split)
qed

end
