(* ===== verification/ConnectionSteps.thy ===== *)
theory ConnectionSteps
  imports ConnectionInv
begin

text \<open>
  Every step of a task that holds the lifecycle lock preserves the invariant: the segments of the
  handshake, the clean-up, the public calls and the reconnect task; then every step does.
\<close>

section \<open>The lock holder\<close>

lemma held_of_holder:
  assumes "conn_ok c" "w_tasks c t = Some p" "in_section p"
  shows "held c t" "holder_ok p c" "receivers_in c (stops p)"
proof -
  have s: "section_at c t" using assms(2,3) by (simp add: section_at_def)
  then have l: "c_lock c = Some t" using conn_okD(4) [OF assms(1)] by (simp add: lock_ok_def)
  then have "\<And>u. section_at c u \<Longrightarrow> u = t"
    using conn_okD(4) [OF assms(1)] by (fastforce simp: lock_ok_def)
  then show "held c t" using conn_okD(1,3) [OF assms(1)] l assms(2) by (simp add: held_def live_def)
  show "holder_ok p c" using conn_okD(4) [OF assms(1)] l assms(2) by (simp add: lock_ok_def)
  show "receivers_in c (stops p)"
    using conn_okD(2) [OF assms(1)] l assms(2) by (simp add: holder_stops_def)
qed

lemma held_update:
  assumes "held c t" "w_tasks c' = w_tasks c" "w_cancel c' \<subseteq> w_cancel c"
    "w_next_task c' = w_next_task c" "c_reconnect_task c' = c_reconnect_task c"
    "c_recv_task c' = c_recv_task c" "c_heartbeat_task c' = c_heartbeat_task c"
    "c_http c \<longrightarrow> c_http c'"
    "c_in_progress c' = c_in_progress c" "c_disconnecting c' \<longrightarrow> \<not> c_need_reconnect c'"
    "c_lock c' = c_lock c"
  shows "held c' t"
proof -
  have "tasks_ok c'" using assms by (intro tasks_ok_cong [of c' c]) (simp_all add: held_def)
  moreover have "flags_ok c" using assms(1) by (simp add: held_def)
  then have "flags_ok c'"
    unfolding flags_ok_def none_of_def kind_at_def started_at_def assms(2,9) using assms(8,10) by blast
  moreover have "section_at c' = section_at c" by (rule ext) (simp only: section_at_def assms(2))
  moreover have "live t c'" using assms(1,2) by (simp add: held_def live_def)
  ultimately show ?thesis using assms(1,11) by (simp add: held_def)
qed

lemma held_acquire:
  assumes "conn_ok c" "acquire t c = Some c'" "live t c"
  shows "held c' t" "receivers_in c' {}" "w_open c' \<subseteq> sockets_of c'" "c' = c\<lparr>c_lock := Some t\<rparr>"
proof -
  from assms(2) have l: "c_lock c = None" and c': "c' = c\<lparr>c_lock := Some t\<rparr>"
    by (auto simp: acquire_def split: if_splits)
  have k: "kind_at c' = kind_at c" by (rule ext) (simp add: c' kind_at_def)
  have "tasks_ok c'" using conn_okD(1) [OF assms(1)] by (rule tasks_ok_cong [rotated -1]) (simp_all add: c')
  moreover have "flags_ok c'"
    using conn_okD(3) [OF assms(1)] by (rule flags_ok_cong [rotated -1])
      (use conn_okD(3) [OF assms(1)] in \<open>simp_all add: c' flags_ok_def\<close>)
  moreover have "\<not> section_at c' u" for u
  proof -
    have "section_at c' u = section_at c u" by (simp add: c' section_at_def)
    then show ?thesis using conn_okD(4) [OF assms(1)] l by (auto simp: lock_ok_def)
  qed
  moreover have "live t c'" using assms(3) by (simp add: live_def c')
  ultimately show "held c' t" by (simp add: held_def c')
  show "receivers_in c' {}"
    using conn_okD(2) [OF assms(1)] l unfolding receivers_in_def k by (simp add: holder_stops_def c')
  show "w_open c' \<subseteq> sockets_of c'"
    using conn_okD(4) [OF assms(1)] l by (simp add: lock_ok_def sockets_of_def c')
  show "c' = c\<lparr>c_lock := Some t\<rparr>" by (rule c')
qed

lemma conn_ok_hold:
  assumes "held c t" "w_tasks c t = Some p" "kind p' = kind p" "in_section p'" "holder_ok p' c"
    "receivers_in c (stops p')"
  shows "conn_ok (set_pc t p' c)"
proof -
  let ?c = "set_pc t p' c"
  have k: "kind_at ?c = kind_at c" using assms(2,3) by (rule kind_at_set_pc)
  have l: "live u ?c = live u c" for u using assms(2) by (simp add: live_def set_pc_def)
  have wc: "w_cancel ?c \<subseteq> w_cancel c" by (auto simp: set_pc_def)
  have h: "tasks_ok c" "flags_ok c" "c_lock c = Some t" "\<And>u. section_at c u \<Longrightarrow> u = t"
    using assms(1) by (simp_all add: held_def)
  have "tasks_ok ?c"
    using h(1) unfolding tasks_ok_def k l set_pc_fields using wc by blast
  moreover have "holder_stops ?c = stops p'" using h(3) by (simp add: holder_stops_def set_pc_def)
  then have "receivers_in ?c (holder_stops ?c)"
    using assms(6) by (simp add: receivers_in_def k)
  moreover have st: "started_at c u \<Longrightarrow> started_at ?c u" for u
    using assms(2-4) by (auto simp: started_at_def set_pc_def)
  have "flags_ok ?c"
    using h(2) st unfolding flags_ok_def none_of_def k set_pc_fields by blast
  moreover have "section_at ?c u \<Longrightarrow> u = t" for u
    using h(4) [of u] by (auto simp: section_at_def set_pc_def split: if_splits)
  then have "lock_ok ?c"
    using h(3) holder_ok_less [OF assms(5), of ?c] by (auto simp: lock_ok_def k, simp add: set_pc_def)
  ultimately show ?thesis by (simp add: conn_ok_def)
qed

lemma conn_ok_release:
  assumes "held c t" "w_open c \<subseteq> sockets_of c" "receivers_in c {}"
    "started_at c t \<longrightarrow> \<not> c_in_progress c"
  shows "conn_ok (finish t (unlock c))"
proof -
  let ?c = "unlock c"
  have w: "w_tasks ?c = w_tasks c" by (simp add: unlock_def)
  have k: "kind_at ?c = kind_at c" by (rule ext) (simp add: kind_at_def w)
  have s: "section_at ?c = section_at c" "started_at ?c = started_at c"
    by (rule ext, simp add: section_at_def started_at_def w)+
  have h: "tasks_ok c" "flags_ok c" "\<And>u. section_at c u \<Longrightarrow> u = t"
    using assms(1) by (simp_all add: held_def)
  have "tasks_ok ?c" using h(1) by (rule tasks_ok_cong [rotated -1]) (simp_all add: unlock_def)
  then have "tasks_ok (finish t ?c)" by (rule tasks_ok_finish)
  moreover have "flags_ok ?c"
    using h(2) by (rule flags_ok_cong [rotated -1]) (use h(2) in \<open>simp_all add: unlock_def flags_ok_def\<close>)
  then have "flags_ok (finish t ?c)"
    using assms(4) by (intro flags_ok_finish) (simp_all add: s, simp add: unlock_def)
  moreover have "holder_stops (finish t ?c) = {}" by (simp add: holder_stops_def unlock_def)
  then have "receivers_in (finish t ?c) (holder_stops (finish t ?c))"
    using assms(3) by (auto simp: receivers_in_def kind_at_finish k, simp add: unlock_def)
  moreover have "lock_ok (finish t ?c)"
    using h(3) assms(2)
    by (auto simp: lock_ok_def section_at_finish s) (auto simp: sockets_of_def unlock_def)
  ultimately show ?thesis by (simp add: conn_ok_def)
qed

section \<open>Segments of the handshake\<close>

definition flow_ok :: "connect_pc flow \<Rightarrow> conn \<Rightarrow> bool" where
  \<comment> \<open>where the handshake stops, the sockets and the receive tasks are accounted for\<close>
  "flow_ok f c \<longleftrightarrow> c_http c \<and>
     (case f of
        Await p \<Rightarrow> run_ok p c \<and> receivers_in c (run_stops p)
      | Returns \<Rightarrow> w_open c \<subseteq> sockets_of c \<and> receivers_in c {}
      | Raises e \<Rightarrow> w_open c \<subseteq> sockets_of c \<and> receivers_in c {} \<and>
                    (e = RaisedConflict \<longrightarrow> \<not> c_need_reconnect c))"

definition quiet_flow :: "connect_pc flow \<Rightarrow> conn \<Rightarrow> bool" where
  "quiet_flow f c \<longleftrightarrow> (f \<noteq> Returns \<longrightarrow> none_of {ReceiveTask, HeartTask} c)"

definition keeps_task :: "tid \<Rightarrow> conn \<Rightarrow> conn \<Rightarrow> bool" where
  "keeps_task t c c' \<longleftrightarrow>
     w_tasks c' t = w_tasks c t \<and> c_in_progress c' = c_in_progress c \<and>
     c_reconnect_task c' = c_reconnect_task c \<and>
     (\<forall>u. kind_at c' u = Some ReconnectTask \<longleftrightarrow> kind_at c u = Some ReconnectTask)"

lemma keeps_task_trans: "keeps_task t a b \<Longrightarrow> keeps_task t b c \<Longrightarrow> keeps_task t a c"
  by (simp add: keeps_task_def)

lemma keeps_task_fields:
  "w_tasks c' = w_tasks c \<Longrightarrow> c_in_progress c' = c_in_progress c \<Longrightarrow>
   c_reconnect_task c' = c_reconnect_task c \<Longrightarrow> keeps_task t c c'"
  by (simp add: keeps_task_def kind_at_def)

lemma held_tasks: "held c t \<Longrightarrow> tasks_ok c" "held c t \<Longrightarrow> flags_ok c" "held c t \<Longrightarrow> c_lock c = Some t"
  by (simp_all add: held_def)

lemma held_spawn:
  assumes "held c t" "\<not> in_section p" "kind p \<in> {ReceiveTask, HeartTask}" "c_http c"
    "kind p = ReceiveTask \<longrightarrow> c_recv_task c' = Some (w_next_task c) \<and> c_heartbeat_task c' = c_heartbeat_task c"
    "kind p = HeartTask \<longrightarrow> none_of {HeartTask} c \<and>
       c_heartbeat_task c' = Some (w_next_task c) \<and> c_recv_task c' = c_recv_task c"
    "w_tasks c' = (w_tasks c)(w_next_task c := Some p)" "w_next_task c' = w_next_task c + 1"
    "w_cancel c' = w_cancel c" "c_reconnect_task c' = c_reconnect_task c" "c_http c' = c_http c"
    "c_in_progress c' = c_in_progress c" "c_disconnecting c' = c_disconnecting c"
    "c_need_reconnect c' = c_need_reconnect c" "c_lock c' = c_lock c"
  shows "held c' t" "kind_at c' = (kind_at c)(w_next_task c := Some (kind p))"
    "keeps_task t c c'"
proof -
  note t = held_tasks(1) [OF assms(1)]
  note fresh = next_task_fresh [OF t]
  show k: "kind_at c' = (kind_at c)(w_next_task c := Some (kind p))"
    by (rule ext) (simp add: kind_at_def assms(7))
  have l: "live u c' \<longleftrightarrow> live u c \<or> u = w_next_task c" for u by (simp add: live_def assms(7))
  have nr: "c_reconnect_task c \<noteq> Some (w_next_task c)"
    using t fresh(2) unfolding tasks_ok_def by (metis option.distinct(1))
  have kp: "kind p = ReceiveTask \<or> kind p = HeartTask" using assms(3) by simp
  have "tasks_ok c'"
    using kp
  proof
    assume p: "kind p = ReceiveTask"
    with assms(5) have "c_recv_task c' = Some (w_next_task c)"
      "c_heartbeat_task c' = c_heartbeat_task c" by simp_all
    with t fresh nr p show ?thesis
      unfolding tasks_ok_def k l assms(8-10) by (auto simp: less_Suc_eq)
  next
    assume p: "kind p = HeartTask"
    with assms(6) have "c_heartbeat_task c' = Some (w_next_task c)"
      "c_recv_task c' = c_recv_task c" "\<And>u. kind_at c u \<noteq> Some HeartTask"
      by (auto simp: none_of_def)
    with t fresh nr p show ?thesis
      unfolding tasks_ok_def k l assms(8-10) by (auto simp: less_Suc_eq)
  qed
  moreover have st: "started_at c u \<Longrightarrow> started_at c' u" for u
    using fresh by (auto simp: started_at_def assms(7))
  have "flags_ok c'"
    using held_tasks(2) [OF assms(1)] st assms(4) unfolding flags_ok_def assms(11-14) by blast
  moreover have "section_at c' u = section_at c u" for u
    using fresh assms(2) by (simp add: section_at_def assms(7))
  moreover have "live t c'" using assms(1) l by (simp add: held_def)
  ultimately show "held c' t" using assms(1,15) by (simp add: held_def)
  have "t \<noteq> w_next_task c" using assms(1) fresh(1) by (auto simp: held_def live_def)
  then show "keeps_task t c c'"
    using assms(3) fresh by (auto simp: keeps_task_def k assms(7,10,12))
qed

lemma held_receiver:
  assumes "held c t" "receivers_in c S" "S \<inter> {u. live u c} = {}" "live_task (c_recv_task c) c = None"
  shows "none_of {ReceiveTask} c"
proof -
  have "kind_at c u \<noteq> Some ReceiveTask" for u
  proof
    assume u: "kind_at c u = Some ReceiveTask"
    then have "live u c" by (auto simp: kind_at_def live_def)
    moreover have "c_recv_task c = Some u \<or> u \<in> S" using u assms(2) by (auto simp: receivers_in_def)
    ultimately show False using assms(3,4) by (auto simp: live_task_def)
  qed
  then show ?thesis by (auto simp: none_of_def)
qed

lemma held_heart:
  assumes "held c t" "live_task (c_heartbeat_task c) c = None"
  shows "none_of {HeartTask} c"
proof -
  have "kind_at c u \<noteq> Some HeartTask" for u
  proof
    assume u: "kind_at c u = Some HeartTask"
    then have "live u c" by (auto simp: kind_at_def live_def)
    moreover have "c_heartbeat_task c = Some u"
      using u held_tasks(1) [OF assms(1)] unfolding tasks_ok_def by blast
    ultimately show False using assms(2) by (auto simp: live_task_def)
  qed
  then show ?thesis by (auto simp: none_of_def)
qed

lemma begin_receive_ok:
  assumes "held c t" "none_of {ReceiveTask} c" "c_http c" "w_open c \<subseteq> sockets_of c"
  shows "held (begin_receive c) t" "flow_ok Returns (begin_receive c)"
    "keeps_task t c (begin_receive c)"
proof -
  note h = held_spawn [OF assms(1), of ReceiveStart "begin_receive c"]
  show "held (begin_receive c) t"
    by (rule h(1)) (simp_all add: assms begin_receive_def spawn_def)
  show "keeps_task t c (begin_receive c)"
    by (rule h(3)) (simp_all add: assms begin_receive_def spawn_def)
  have "kind_at (begin_receive c) = (kind_at c)(w_next_task c := Some ReceiveTask)"
    by (rule ext) (simp add: kind_at_def begin_receive_def spawn_def)
  moreover have "c_recv_task (begin_receive c) = Some (w_next_task c)" by (simp add: begin_receive_def)
  ultimately have "receivers_in (begin_receive c) {}"
    using assms(2) by (auto simp: receivers_in_def none_of_def split: if_splits)
  then show "flow_ok Returns (begin_receive c)"
    using assms(3,4) by (simp add: flow_ok_def, simp add: begin_receive_def sockets_of_def)
qed

lemma held_cancel_task:
  assumes "held c t" "live u c"
  shows "held (cancel_task u c) t"
proof -
  have k: "kind_at (cancel_task u c) = kind_at c" by (rule ext) (simp add: kind_at_def cancel_task_def)
  have "live v (cancel_task u c) = live v c" for v by (simp add: live_def cancel_task_def)
  then have "tasks_ok (cancel_task u c)"
    using held_tasks(1) [OF assms(1)] assms(2) unfolding tasks_ok_def k by (simp add: cancel_task_def)
  moreover have "flags_ok (cancel_task u c)"
    using held_tasks(2) [OF assms(1)]
    by (rule flags_ok_cong [rotated -1])
      (use held_tasks(2) [OF assms(1)] in \<open>simp_all add: cancel_task_def flags_ok_def\<close>)
  ultimately show ?thesis
    using assms(1) by (simp add: held_def cancel_task_def section_at_def live_def)
qed

lemma held_drop_recv:
  assumes "held c t"
  shows "held (c\<lparr>c_recv_task := None\<rparr>) t"
proof -
  let ?c = "c\<lparr>c_recv_task := None\<rparr>"
  have k: "kind_at ?c = kind_at c" by (rule ext) (simp add: kind_at_def)
  have "tasks_ok ?c"
    using held_tasks(1) [OF assms(1)] unfolding tasks_ok_def k by (simp add: live_def)
  moreover have "flags_ok ?c"
    using held_tasks(2) [OF assms(1)]
    by (rule flags_ok_cong [rotated -1])
      (use held_tasks(2) [OF assms(1)] in \<open>simp_all add: flags_ok_def\<close>)
  ultimately show ?thesis using assms(1) by (simp add: held_def section_at_def live_def)
qed

lemma start_receive_ok:
  assumes "held c t" "receivers_in c {}" "c_http c" "w_open c \<subseteq> sockets_of c"
    "start_receive_task c = (f, c')"
  shows "held c' t" "flow_ok f c'" "keeps_task t c c'" "none_of {ReceiveTask} c \<Longrightarrow> f = Returns"
proof -
  consider (old) v where "c_recv_task c = Some v" "live v c"
      "f = Await (StoppingReceiver v)" "c' = cancel_task v (c\<lparr>c_recv_task := None\<rparr>)"
    | (new) "live_task (c_recv_task c) c = None" "f = Returns" "c' = begin_receive c"
    using assms(5) by (auto simp: start_receive_task_def live_task_def split: option.splits if_splits)
  then have "held c' t \<and> flow_ok f c' \<and> keeps_task t c c' \<and> (none_of {ReceiveTask} c \<longrightarrow> f = Returns)"
  proof cases
    case old
    have k: "kind_at c' = kind_at c" by (rule ext) (simp add: kind_at_def old(4) cancel_task_def)
    have "held c' t"
      unfolding old(4) by (rule held_cancel_task [OF held_drop_recv]) (use assms(1) old(2) in \<open>simp_all add: live_def\<close>)
    moreover have "receivers_in c' {v}" using assms(2) old(1) by (auto simp: receivers_in_def k)
    moreover have "keeps_task t c c'" by (rule keeps_task_fields) (simp_all add: old(4) cancel_task_def)
    moreover have "kind_at c v = Some ReceiveTask"
      using held_tasks(1) [OF assms(1)] old(1,2) unfolding tasks_ok_def live_def kind_at_def by fastforce
    ultimately show ?thesis
      using assms(3,4) old(3) by (auto simp: flow_ok_def none_of_def, auto simp: old(4) cancel_task_def sockets_of_def)
  next
    case new
    have "none_of {ReceiveTask} c" using held_receiver [OF assms(1,2)] new(1) by simp
    with begin_receive_ok [OF assms(1) _ assms(3,4)] new show ?thesis by simp
  qed
  then show "held c' t" "flow_ok f c'" "keeps_task t c c'" "none_of {ReceiveTask} c \<Longrightarrow> f = Returns"
    by simp_all
qed

lemma begin_heartbeat_ok:
  assumes "held c t" "none_of {HeartTask} c" "c_http c" "receivers_in c S"
  shows "held (begin_heartbeat c) t" "keeps_task t c (begin_heartbeat c)"
    "receivers_in (begin_heartbeat c) S" "c_http (begin_heartbeat c)"
    "w_open (begin_heartbeat c) = w_open c" "sockets_of (begin_heartbeat c) = sockets_of c"
    "none_of {ReceiveTask} (begin_heartbeat c) = none_of {ReceiveTask} c"
proof -
  note h = held_spawn [OF assms(1), of HeartStart "begin_heartbeat c"]
  show "held (begin_heartbeat c) t"
    by (rule h(1)) (simp_all add: assms begin_heartbeat_def spawn_def)
  show "keeps_task t c (begin_heartbeat c)"
    by (rule h(3)) (simp_all add: assms begin_heartbeat_def spawn_def)
  have k: "kind_at (begin_heartbeat c) = (kind_at c)(w_next_task c := Some HeartTask)"
    by (rule ext) (simp add: kind_at_def begin_heartbeat_def spawn_def)
  show "receivers_in (begin_heartbeat c) S"
    using assms(4) by (auto simp: receivers_in_def k, auto simp: begin_heartbeat_def)
  have "kind_at c (w_next_task c) = None" using next_task_fresh(2) [OF held_tasks(1) [OF assms(1)]] .
  then have "kind_at (begin_heartbeat c) u = Some ReceiveTask \<longleftrightarrow> kind_at c u = Some ReceiveTask" for u
    by (auto simp: k)
  then show "none_of {ReceiveTask} (begin_heartbeat c) = none_of {ReceiveTask} c"
    by (auto simp: none_of_def)
  show "c_http (begin_heartbeat c)" "w_open (begin_heartbeat c) = w_open c"
    "sockets_of (begin_heartbeat c) = sockets_of c"
    using assms(3) by (simp_all add: begin_heartbeat_def sockets_of_def)
qed

lemma start_heartbeat_ok:
  assumes "held c t" "receivers_in c {}" "c_http c" "w_open c \<subseteq> sockets_of c"
    "start_heartbeat_task c = (f, c')"
  shows "held c' t" "flow_ok f c'" "keeps_task t c c'"
    "none_of {ReceiveTask, HeartTask} c \<Longrightarrow> f = Returns"
proof -
  consider (old) h where "c_heartbeat_task c = Some h" "live h c"
      "f = Await (StoppingHeartbeat h)" "c' = cancel_task h c"
    | (new) "live_task (c_heartbeat_task c) c = None" "start_receive_task (begin_heartbeat c) = (f, c')"
    using assms(5) by (auto simp: start_heartbeat_task_def live_task_def split: option.splits if_splits)
  then have "held c' t \<and> flow_ok f c' \<and> keeps_task t c c' \<and>
      (none_of {ReceiveTask, HeartTask} c \<longrightarrow> f = Returns)"
  proof cases
    case old
    have k: "kind_at c' = kind_at c" by (rule ext) (simp add: kind_at_def old(4) cancel_task_def)
    have "held c' t" unfolding old(4) by (rule held_cancel_task [OF assms(1) old(2)])
    moreover have "receivers_in c' {}"
      using assms(2) by (simp add: receivers_in_def k, simp add: old(4) cancel_task_def)
    moreover have "keeps_task t c c'" by (rule keeps_task_fields) (simp_all add: old(4) cancel_task_def)
    moreover have "kind_at c h = Some HeartTask"
      using held_tasks(1) [OF assms(1)] old(1,2) unfolding tasks_ok_def live_def kind_at_def by fastforce
    ultimately show ?thesis
      using assms(3,4) old(1,3)
      by (auto simp: flow_ok_def none_of_def, auto simp: old(4) cancel_task_def sockets_of_def)
  next
    case new
    have n: "none_of {HeartTask} c" using held_heart [OF assms(1) new(1)] .
    note b = begin_heartbeat_ok [OF assms(1) n assms(3,2)]
    have "none_of {ReceiveTask, HeartTask} c \<Longrightarrow> none_of {ReceiveTask} (begin_heartbeat c)"
      unfolding b(7) by (auto simp: none_of_def)
    with start_receive_ok [OF b(1,3,4) _ new(2)] assms(4) b(2,5,6) keeps_task_trans
    show ?thesis by metis
  qed
  then show "held c' t" "flow_ok f c'" "keeps_task t c c'"
    "none_of {ReceiveTask, HeartTask} c \<Longrightarrow> f = Returns" by simp_all
qed

lemma do_connect_ok:
  assumes "held c t" "receivers_in c {}" "w_open c = {}" "do_connect now c = (f, c')"
  shows "held c' t" "flow_ok f c'" "keeps_task t c c'" "\<exists>force. f = Await (Registering force)"
    "kind_at c' = kind_at c"
proof -
  have c': "f = Await (Registering (should_force_refresh now c))"
    "c' = c\<lparr>c_http := True, c_last_refresh := (if should_force_refresh now c then now else c_last_refresh c)\<rparr>"
    using assms(4) by (simp_all add: do_connect_def Let_def)
  show k: "kind_at c' = kind_at c" by (rule ext) (simp add: kind_at_def c'(2))
  show "held c' t"
    by (rule held_update [OF assms(1)])
      (use held_tasks(2) [OF assms(1)] in \<open>simp_all add: c'(2) flags_ok_def\<close>)
  show "flow_ok f c'"
    using assms(2,3) by (simp add: c'(1) flow_ok_def receivers_in_def k) (simp add: c'(2))
  show "keeps_task t c c'" by (rule keeps_task_fields) (simp_all add: c'(2))
  show "\<exists>force. f = Await (Registering force)" using c'(1) by blast
qed

lemma flow_ok_step:
  assumes "held c t" "c_http c" "receivers_in c {}" "w_open c \<subseteq> sockets_of c"
    "w_tasks c' = w_tasks c" "w_cancel c' = w_cancel c" "w_next_task c' = w_next_task c"
    "c_reconnect_task c' = c_reconnect_task c" "c_recv_task c' = c_recv_task c"
    "c_heartbeat_task c' = c_heartbeat_task c" "c_http c' = c_http c"
    "c_in_progress c' = c_in_progress c" "c_disconnecting c' = c_disconnecting c"
    "c_need_reconnect c' \<longrightarrow> c_need_reconnect c" "c_lock c' = c_lock c"
  shows "held c' t" "keeps_task t c c'" "none_of ks c' = none_of ks c" "receivers_in c' {}"
proof -
  have k: "kind_at c' = kind_at c" by (rule ext) (simp add: kind_at_def assms(5))
  show "held c' t"
    by (rule held_update [OF assms(1)])
      (use assms held_tasks(2) [OF assms(1)] in \<open>auto simp: flags_ok_def\<close>)
  show "keeps_task t c c'" by (rule keeps_task_fields) (simp_all add: assms)
  show "none_of ks c' = none_of ks c" by (simp only: none_of_def k)
  show "receivers_in c' {}" using assms(3) by (simp only: receivers_in_def k assms(9))
qed

lemma do_connect_resume_ok:
  assumes "held c t" "run_ok p c" "c_http c" "receivers_in c (run_stops p)"
    "do_connect_resume p x c = Some (f, c')"
  shows "held c' t \<and> flow_ok f c' \<and> keeps_task t c c' \<and>
    (none_of {ReceiveTask, HeartTask} c \<longrightarrow> quiet_flow f c')"
proof (cases p)
  case (StoppingHeartbeat h)
  have dead: "\<not> live h c" and r: "start_receive_task (begin_heartbeat c) = (f, c')"
    and ho: "c_heartbeat_task c = Some h" and so: "w_open c \<subseteq> sockets_of c"
    using assms(2,5) StoppingHeartbeat by (auto split: if_splits)
  have n: "none_of {HeartTask} c"
    using held_heart [OF assms(1)] dead ho by (simp add: live_task_def)
  have rc: "receivers_in c {}" using assms(4) StoppingHeartbeat by simp
  note b = begin_heartbeat_ok [OF assms(1) n assms(3) rc]
  have "w_open (begin_heartbeat c) \<subseteq> sockets_of (begin_heartbeat c)" using so b(5,6) by simp
  note s = start_receive_ok [OF b(1,3,4) this r]
  have "none_of {ReceiveTask, HeartTask} c \<Longrightarrow> f = Returns"
    using s(4) b(7) by (auto simp: none_of_def)
  then show ?thesis using s(1-3) b(2) keeps_task_trans by (auto simp: quiet_flow_def)
next
  case (StoppingReceiver v)
  have dead: "\<not> live v c" and f: "f = Returns" "c' = begin_receive c"
    and ro: "c_recv_task c = None" and so: "w_open c \<subseteq> sockets_of c"
    using assms(2,5) StoppingReceiver by (auto split: if_splits)
  have "none_of {ReceiveTask} c"
    by (rule held_receiver [OF assms(1), of "{v}"]) (use assms(4) StoppingReceiver dead ro in simp_all)
  from begin_receive_ok [OF assms(1) this assms(3) so] f show ?thesis by (simp add: quiet_flow_def)
next
  case AwaitConnack
  have so: "w_open c \<subseteq> sockets_of c" and rc: "receivers_in c {}"
    using assms(2,4) AwaitConnack by simp_all
  let ?c = "connack_accepted c"
  have st: "held ?c t" "keeps_task t c ?c" "receivers_in ?c {}" "none_of ks ?c = none_of ks c" for ks
    by (rule flow_ok_step [OF assms(1,3) rc so]; simp add: connack_accepted_def)+
  have eq: "c_http ?c" "w_open ?c \<subseteq> sockets_of ?c"
    using assms(3) so by (simp_all add: connack_accepted_def sockets_of_def)
  show ?thesis
  proof (cases "x = Accepted")
    case True
    then have r: "start_heartbeat_task ?c = (f, c')" using assms(5) AwaitConnack by simp
    from start_heartbeat_ok [OF st(1,3) eq r] st(2,4) keeps_task_trans show ?thesis
      by (auto simp: quiet_flow_def)
  next
    case False
    have "f = Raises RaisedError \<and> c' = ?c \<or>
      (f = Await ClosingTimedOut \<or> f = Raises RaisedError \<or> f = Raises RaisedCancelled) \<and> c' = c"
      using assms(5) False AwaitConnack by (cases x) auto
    then show ?thesis
      using st eq assms(1,3) so rc keeps_task_fields [of c c]
      by (auto simp: flow_ok_def quiet_flow_def)
  qed
next
  case ClosingTimedOut
  have so: "w_open c \<subseteq> sockets_of c" and rc: "receivers_in c {}"
    using assms(2,4) ClosingTimedOut by simp_all
  have "(f = Raises RaisedError \<and> (\<exists>s. c' = close_socket s c)) \<or> (f = Raises RaisedCancelled \<and> c' = c)"
    using assms(5) ClosingTimedOut by (cases x) (auto split: option.splits)
  moreover have "held (close_socket s c) t" "keeps_task t c (close_socket s c)"
    "none_of ks (close_socket s c) = none_of ks c" "receivers_in (close_socket s c) {}" for s ks
    by (rule flow_ok_step [OF assms(1,3) rc so]; simp add: close_socket_def)+
  moreover have "w_open (close_socket s c) \<subseteq> sockets_of (close_socket s c)"
    "c_http (close_socket s c)" for s
    using so assms(3) by (auto simp: close_socket_def sockets_of_def)
  ultimately show ?thesis
    using so assms(1,3) rc keeps_task_fields [of c c] by (auto simp: flow_ok_def quiet_flow_def)
next
  case Upgrading
  have so: "w_open c = {}" and rc: "receivers_in c {}" using assms(2,4) Upgrading by simp_all
  let ?c = "c\<lparr>c_ws := Some (w_next_socket c), w_open := insert (w_next_socket c) (w_open c),
              w_next_socket := w_next_socket c + 1\<rparr>"
  have "(f = Await Sending \<and> c' = ?c) \<or> ((f = Raises RaisedError \<or> f = Raises RaisedCancelled) \<and> c' = c)"
    using assms(5) Upgrading by (cases x) (auto simp: Let_def)
  moreover have "held ?c t" "keeps_task t c ?c" "none_of ks ?c = none_of ks c" "receivers_in ?c {}" for ks
    by (rule flow_ok_step [OF assms(1,3) rc]; simp add: so)+
  ultimately show ?thesis
    using so assms(1,3) rc keeps_task_fields [of c c]
    by (auto simp: flow_ok_def quiet_flow_def sockets_of_def)
next
  case (Registering force)
  have so: "w_open c = {}" and rc: "receivers_in c {}" using assms(2,4) Registering by simp_all
  let ?c = "c\<lparr>c_need_reconnect := False\<rparr>"
  have "(f = Raises RaisedConflict \<and> c' = ?c) \<or>
      ((f = Await Recording \<or> f = Raises RaisedError \<or> f = Raises RaisedCancelled) \<and> c' = c)"
    using assms(5) Registering by (cases x) auto
  moreover have "held ?c t" "keeps_task t c ?c" "none_of ks ?c = none_of ks c" "receivers_in ?c {}" for ks
    by (rule flow_ok_step [OF assms(1,3) rc]; simp add: so)+
  ultimately show ?thesis
    using so assms(1,3) rc keeps_task_fields [of c c] by (auto simp: flow_ok_def quiet_flow_def)
next
  case Recording
  then have "(f = Await Opening \<or> f = Raises RaisedError \<or> f = Raises RaisedCancelled) \<and> c' = c"
    using assms(5) by (cases x) auto
  then show ?thesis using Recording assms(1-4) keeps_task_fields [of c c] by (auto simp: flow_ok_def quiet_flow_def)
next
  case Opening
  then have "(f = Await Upgrading \<or> f = Raises RaisedError \<or> f = Raises RaisedCancelled) \<and> c' = c"
    using assms(5) by (cases x) auto
  then show ?thesis using Opening assms(1-4) keeps_task_fields [of c c] by (auto simp: flow_ok_def quiet_flow_def)
next
  case Sending
  then have "(f = Await AwaitConnack \<or> f = Raises RaisedError \<or> f = Raises RaisedCancelled) \<and> c' = c"
    using assms(5) by (cases x) auto
  then show ?thesis using Sending assms(1-4) keeps_task_fields [of c c] by (auto simp: flow_ok_def quiet_flow_def)
qed

section \<open>The clean-up and the public calls\<close>

lemma set_owned_tasks:
  "u \<in> set (owned_tasks c) \<longleftrightarrow>
     live u c \<and> (c_reconnect_task c = Some u \<or> c_heartbeat_task c = Some u \<or> c_recv_task c = Some u)"
  by (auto simp: owned_tasks_def List.map_filter_simps live_task_def split: option.splits)

lemma finalize_resources_ok:
  assumes "held c t" "w_open c \<subseteq> sockets_of c" "receivers_in c {}" "finalize_resources c = (cp, c1)"
  shows "held c1 t" "cleanup_ok cp c1" "receivers_in c1 {}" "w_tasks c1 = w_tasks c"
    "c_need_reconnect c1 = c_need_reconnect c" "c_connected c1 = c_connected c"
    "kind_at c1 = kind_at c" "stops (ConnectCleanup cp e rem) = {}"
proof -
  have c1: "cp = Gathering (owned_tasks c)" "c1 = c\<lparr>w_cancel := w_cancel c \<union> set (owned_tasks c)\<rparr>"
    using assms(4) by (simp_all add: finalize_resources_def)
  show k: "kind_at c1 = kind_at c" by (rule ext) (simp add: kind_at_def c1(2))
  have "tasks_ok c1"
    using held_tasks(1) [OF assms(1)] unfolding tasks_ok_def k
    by (auto simp: c1(2) set_owned_tasks live_def)
  moreover have "flags_ok c1"
    using held_tasks(2) [OF assms(1)]
    by (rule flags_ok_cong [rotated -1]) (use held_tasks(2) [OF assms(1)] in \<open>simp_all add: c1(2) flags_ok_def\<close>)
  ultimately show "held c1 t" using assms(1) by (simp add: held_def c1(2) section_at_def live_def)
  show "receivers_in c1 {}" using assms(3) by (simp add: receivers_in_def k, simp add: c1(2))
  have "u \<in> set (owned_tasks c)" if "kind_at c u = Some k'" "k' \<in> workers" for u k'
  proof -
    have "live u c" using that(1) by (auto simp: kind_at_def live_def)
    moreover have "c_reconnect_task c = Some u \<or> c_heartbeat_task c = Some u \<or> c_recv_task c = Some u"
      using that held_tasks(1) [OF assms(1)] assms(3) unfolding tasks_ok_def receivers_in_def by auto
    ultimately show ?thesis by (simp add: set_owned_tasks)
  qed
  then show "cleanup_ok cp c1"
    using assms(2) by (auto simp: c1(1) k, auto simp: c1(2) sockets_of_def)
  show "w_tasks c1 = w_tasks c" "c_need_reconnect c1 = c_need_reconnect c"
    "c_connected c1 = c_connected c" by (simp_all add: c1(2))
  show "stops (ConnectCleanup cp e rem) = {}" by simp
qed

definition cleaned :: "conn \<Rightarrow> bool" where
  \<comment> \<open>after a complete clean-up\<close>
  "cleaned c \<longleftrightarrow> c_ws c = None \<and> w_open c = {} \<and> \<not> c_http c \<and> none_of workers c"

definition same_intent :: "conn \<Rightarrow> conn \<Rightarrow> bool" where
  "same_intent c c' \<longleftrightarrow>
     c_need_reconnect c' = c_need_reconnect c \<and> c_disconnecting c' = c_disconnecting c \<and>
     c_connected c' = c_connected c \<and> c_attempts c' = c_attempts c \<and> c_in_progress c' = c_in_progress c"

definition cleanup_flow_ok :: "cleanup_pc flow \<Rightarrow> conn \<Rightarrow> bool" where
  "cleanup_flow_ok f c \<longleftrightarrow>
     (case f of Await cp \<Rightarrow> cleanup_ok cp c | Returns \<Rightarrow> cleaned c | Raises _ \<Rightarrow> False)"

lemma none_of_finish: "none_of workers c \<Longrightarrow> receivers_in c S"
  by (auto simp: none_of_def receivers_in_def)

lemma held_cleaned_update:
  assumes "held c t" "none_of workers c" "w_tasks c' = w_tasks c" "w_cancel c' = w_cancel c"
    "w_next_task c' = w_next_task c" "c_reconnect_task c' = None"
    "c_recv_task c' = None \<or> c_recv_task c' = c_recv_task c"
    "c_heartbeat_task c' = None \<or> c_heartbeat_task c' = c_heartbeat_task c"
    "c_in_progress c' = c_in_progress c" "c_disconnecting c' \<longrightarrow> \<not> c_need_reconnect c'"
    "c_lock c' = c_lock c"
  shows "held c' t"
proof -
  have k: "kind_at c' = kind_at c" by (rule ext) (simp only: kind_at_def assms(3))
  have rv: "\<And>u. c_recv_task c' = Some u \<Longrightarrow> c_recv_task c = Some u"
    and hb: "\<And>u. c_heartbeat_task c' = Some u \<Longrightarrow> c_heartbeat_task c = Some u"
    using assms(7,8) by auto
  have nk: "kind_at c u \<noteq> Some ReconnectTask" "kind_at c u \<noteq> Some HeartTask" for u
    using assms(2) unfolding none_of_def by blast+
  have "tasks_ok c'"
    unfolding tasks_ok_def k live_def assms(3-6)
  proof (intro conjI)
    note tk = held_tasks(1) [OF assms(1), unfolded tasks_ok_def live_def]
    show "\<forall>u. w_tasks c u \<noteq> None \<longrightarrow> u < w_next_task c" "\<forall>u \<in> w_cancel c. w_tasks c u \<noteq> None"
      "\<forall>u. c_recv_task c' = Some u \<longrightarrow> u < w_next_task c \<and> kind_at c u \<in> {None, Some ReceiveTask}"
      "\<forall>u. c_heartbeat_task c' = Some u \<longrightarrow> u < w_next_task c \<and> kind_at c u \<in> {None, Some HeartTask}"
      using tk rv hb by blast+
    show "\<forall>u. (kind_at c u = Some ReconnectTask) = (None = Some u)"
      "\<forall>u. kind_at c u = Some HeartTask \<longrightarrow> c_heartbeat_task c' = Some u" by (simp_all add: nk)
  qed
  moreover have "flags_ok c'"
    using held_tasks(2) [OF assms(1)] assms(2,10)
    unfolding flags_ok_def none_of_def k started_at_def assms(3,9) by auto
  moreover have "section_at c' = section_at c" by (rule ext) (simp only: section_at_def assms(3))
  ultimately show ?thesis using assms(1,11) by (simp add: held_def live_def assms(3))
qed

lemma close_session_ok:
  assumes "held c t" "none_of workers c" "c_ws c = None" "w_open c = {}" "close_session c = (f, c')"
  shows "held c' t \<and> cleanup_flow_ok f c' \<and> w_tasks c' = w_tasks c \<and> same_intent c c'"
proof -
  let ?c = "c\<lparr>c_http := False\<rparr>"
  have k: "kind_at ?c = kind_at c" by (rule ext) (simp add: kind_at_def)
  have "c_reconnect_task c = None"
  proof (cases "c_reconnect_task c")
    case (Some r)
    then have "kind_at c r = Some ReconnectTask"
      using held_tasks(1) [OF assms(1)] unfolding tasks_ok_def by blast
    with assms(2) show ?thesis by (auto simp: none_of_def)
  qed simp
  then have "held ?c t"
    by (intro held_cleaned_update [OF assms(1,2)])
      (use held_tasks(2) [OF assms(1)] in \<open>simp_all add: flags_ok_def\<close>)
  then show ?thesis
    using assms k by (auto simp: close_session_def cleanup_flow_ok_def cleaned_def none_of_def
        same_intent_def split: if_splits)
qed

lemma finalize_resume_ok:
  assumes "held c t" "cleanup_ok cp c" "finalize_resume cp x c = Some (f, c')"
  shows "held c' t \<and> cleanup_flow_ok f c' \<and> w_tasks c' = w_tasks c \<and> same_intent c c'"
proof (cases cp)
  case (Gathering ts)
  let ?c = "c\<lparr>c_reconnect_task := None, c_heartbeat_task := None, c_recv_task := None\<rparr>"
  have dead: "\<And>u. u \<in> set ts \<Longrightarrow> \<not> live u c" and so: "w_open c \<subseteq> sockets_of c"
    and inn: "\<And>u k. kind_at c u = Some k \<Longrightarrow> k \<in> workers \<Longrightarrow> u \<in> set ts"
    using assms(2,3) Gathering by (auto simp: list_all_iff split: if_splits)
  have n: "none_of workers c"
    unfolding none_of_def using dead inn by (metis kind_at_def live_def option.map_disc_iff option.distinct(1))
  have h: "held ?c t"
    by (rule held_cleaned_update [OF assms(1) n])
      (use held_tasks(2) [OF assms(1)] in \<open>simp_all add: flags_ok_def\<close>)
  have k: "kind_at ?c = kind_at c" by (rule ext) (simp add: kind_at_def)
  then have n': "none_of workers ?c" using n by (simp add: none_of_def)
  show ?thesis
  proof (cases "c_ws c")
    case None
    then have "close_session ?c = (f, c')"
      using assms(3) Gathering by (auto simp: Let_def split: if_splits)
    from close_session_ok [OF h n' _ _ this] None so show ?thesis
      by (simp add: sockets_of_def same_intent_def)
  next
    case (Some s)
    let ?d = "?c\<lparr>c_ws := None\<rparr>"
    have e: "f = Await (ClosingSocket s)" "c' = ?d"
      using assms(3) Gathering Some by (auto simp: Let_def split: if_splits)
    have "kind_at ?d = kind_at c" by (rule ext) (simp add: kind_at_def)
    then have nd: "none_of workers ?d" using n by (simp add: none_of_def)
    have "held ?d t"
      by (rule held_cleaned_update [OF h n'])
        (use held_tasks(2) [OF assms(1)] in \<open>simp_all add: flags_ok_def\<close>)
    then show ?thesis
      using so Some nd by (simp add: e cleanup_flow_ok_def sockets_of_def same_intent_def)
  qed
next
  case (ClosingSocket s)
  let ?c = "close_socket s c"
  have e: "close_session ?c = (f, c')" and o: "c_ws c = None" "w_open c \<subseteq> {s}" "none_of workers c"
    using assms(2,3) ClosingSocket by (auto split: if_splits)
  have "kind_at ?c = kind_at c" by (rule ext) (simp add: kind_at_def close_socket_def)
  then have n: "none_of workers ?c" using o(3) by (simp add: none_of_def)
  have h: "held ?c t"
    by (rule held_update [OF assms(1)])
      (use held_tasks(2) [OF assms(1)] in \<open>simp_all add: flags_ok_def close_socket_def\<close>)
  have "c_ws ?c = None" "w_open ?c = {}" using o by (auto simp: close_socket_def)
  from close_session_ok [OF h n this e] show ?thesis by (simp add: same_intent_def close_socket_def)
next
  case ClosingSession
  then show ?thesis
    using assms by (auto simp: cleanup_flow_ok_def cleaned_def same_intent_def split: if_splits)
qed

lemma finalize_none:
  assumes "cleanup_ok cp c" "finalize_resume cp x c = Some (f, c')" "w_tasks c' = w_tasks c"
  shows "none_of workers c'"
proof -
  have "none_of workers c"
  proof (cases cp)
    case (Gathering ts)
    have dead: "\<And>u. u \<in> set ts \<Longrightarrow> \<not> live u c"
      using assms(2) Gathering by (auto simp: list_all_iff split: if_splits)
    moreover have "\<And>u k. kind_at c u = Some k \<Longrightarrow> k \<in> workers \<Longrightarrow> u \<in> set ts"
      using assms(1) Gathering by simp
    ultimately show ?thesis
      unfolding none_of_def by (metis kind_at_def live_def option.map_disc_iff option.distinct(1))
  qed (use assms(1) in simp_all)
  moreover have "kind_at c' = kind_at c" by (rule ext) (simp add: kind_at_def assms(3))
  ultimately show ?thesis by (simp add: none_of_def)
qed

lemma not_started: "w_tasks c t = Some p \<Longrightarrow> kind p \<noteq> ReconnectTask \<Longrightarrow> \<not> started_at c t"
  by (simp add: started_at_def)

lemma conn_ok_connect_cleanup:
  assumes "held c t" "w_tasks c t = Some p" "kind p = ConnectTask" "w_open c \<subseteq> sockets_of c"
    "receivers_in c {}" "none_of {ReceiveTask, HeartTask} c" "e = RaisedConflict \<longrightarrow> \<not> c_need_reconnect c"
    "finalize_resources c = (cp, c1)"
  shows "conn_ok (set_pc t (ConnectCleanup cp e False) c1)"
proof -
  note f = finalize_resources_ok [OF assms(1,4,5,8)]
  show ?thesis
    by (rule conn_ok_hold [OF f(1), of p])
      (use f assms(2,3,6,7) in \<open>simp_all add: none_of_def\<close>)
qed

lemma conn_ok_connect_flow:
  assumes "held c t" "w_tasks c t = Some p" "kind p = ConnectTask" "flow_ok f c" "quiet_flow f c"
  shows "conn_ok (connect_flow t (f, c))"
proof (cases f)
  case (Await q)
  have "conn_ok (set_pc t (ConnectRun q) c)"
    by (rule conn_ok_hold [OF assms(1,2)])
      (use assms(3-5) Await in \<open>simp_all add: flow_ok_def quiet_flow_def\<close>)
  then show ?thesis by (simp add: connect_flow_def Await)
next
  case Returns
  have "conn_ok (finish t (unlock c))"
    by (rule conn_ok_release [OF assms(1)])
      (use assms(2-4) Returns not_started in \<open>simp_all add: flow_ok_def\<close>)
  then show ?thesis by (simp add: connect_flow_def Returns)
next
  case (Raises e)
  obtain cp c1 where c1: "finalize_resources c = (cp, c1)" by fastforce
  from conn_ok_connect_cleanup [OF assms(1-3) _ _ _ _ c1] assms(4,5) Raises c1 show ?thesis
    by (simp add: connect_flow_def flow_ok_def quiet_flow_def)
qed

lemma conn_ok_connect_begin:
  assumes "held c t" "w_tasks c t = Some p" "kind p = ConnectTask" "w_open c = {}"
    "none_of {ReceiveTask, HeartTask} c"
  shows "conn_ok (connect_begin t now c)"
proof -
  let ?c = "c\<lparr>c_disconnecting := False, c_http := True, c_need_reconnect := True\<rparr>"
  have k: "kind_at ?c = kind_at c" by (rule ext) (simp add: kind_at_def)
  have h: "held ?c t" by (rule held_update [OF assms(1)]) simp_all
  have r: "receivers_in ?c {}" using assms(5) by (auto simp: receivers_in_def k none_of_def)
  obtain f c' where d: "do_connect now ?c = (f, c')" by fastforce
  have "w_open ?c = {}" using assms(4) by simp
  note o = do_connect_ok [OF h r this d]
  have "quiet_flow f c'" using assms(5) by (simp add: quiet_flow_def none_of_def o(5) k)
  moreover have "w_tasks c' t = Some p" using o(3) assms(2) by (simp add: keeps_task_def)
  ultimately show ?thesis
    using conn_ok_connect_flow [OF o(1) _ assms(3) o(2)] d by (simp add: connect_begin_def)
qed

lemma conn_ok_reconnect_released:
  assumes "held c t" "w_open c \<subseteq> sockets_of c" "receivers_in c {}"
  shows "conn_ok (reconnect_end t (unlock c))"
proof -
  let ?c = "c\<lparr>c_in_progress := False\<rparr>"
  have k: "kind_at ?c = kind_at c" by (rule ext) (simp add: kind_at_def)
  have "tasks_ok ?c" using held_tasks(1) [OF assms(1)] by (rule tasks_ok_cong [rotated -1]) simp_all
  moreover have "flags_ok ?c"
    using held_tasks(2) [OF assms(1)] by (simp add: flags_ok_def none_of_def k)
  ultimately have "held ?c t" using assms(1) by (simp add: held_def section_at_def live_def)
  moreover have "receivers_in ?c {}" using assms(3) by (simp add: receivers_in_def k)
  ultimately have "conn_ok (finish t (unlock ?c))"
    using assms(2) by (intro conn_ok_release) (simp_all add: sockets_of_def)
  moreover have "unlock ?c = unlock c\<lparr>c_in_progress := False\<rparr>" by (simp add: unlock_def)
  ultimately show ?thesis by (simp add: reconnect_end_def)
qed

lemma reconnect_retry:
  assumes "c_reconnect_task c = Some t" "t < w_next_task c"
  shows "reconnect_end t (spawn_reconnect (c\<lparr>c_in_progress := False, c_reconnect_task := None\<rparr>)) =
    spawn_reconnect (reconnect_end t c)"
  using assms
  by (auto simp: reconnect_end_def spawn_reconnect_def finish_def spawn_def fun_upd_twist)

lemma conn_ok_reconnect_flow:
  assumes "held c t" "w_tasks c t = Some p" "kind p = ReconnectTask" "flow_ok f c"
  shows "conn_ok (reconnect_flow t (f, c))"
proof (cases f)
  case (Await q)
  have "conn_ok (set_pc t (ReconnectRun q) c)"
    by (rule conn_ok_hold [OF assms(1,2)]) (use assms(3,4) Await in \<open>simp_all add: flow_ok_def\<close>)
  then show ?thesis by (simp add: reconnect_flow_def Await)
next
  case Returns
  with conn_ok_reconnect_released [OF assms(1)] assms(4) show ?thesis
    by (simp add: reconnect_flow_def flow_ok_def)
next
  case (Raises e)
  have e: "conn_ok (reconnect_end t (unlock c))"
    using conn_ok_reconnect_released [OF assms(1)] assms(4) Raises by (simp add: flow_ok_def)
  have "kind_at c t = Some ReconnectTask" "live t c"
    using assms(2,3) by (simp_all add: kind_at_def live_def)
  then have r: "c_reconnect_task (unlock c) = Some t" "t < w_next_task (unlock c)"
    using held_tasks(1) [OF assms(1)] unfolding tasks_ok_def by (simp_all add: unlock_def)
  have "c_lock (reconnect_end t (unlock c)) = None" by (simp add: reconnect_end_def unlock_def)
  then have "conn_ok (spawn_reconnect (reconnect_end t (unlock c)))"
    by (intro conn_ok_spawn_reconnect [OF e]) simp
  with e reconnect_retry [OF r] r(1) show ?thesis
    by (simp add: reconnect_flow_def Raises Let_def)
qed

lemma unlock_spawn_reconnect: "unlock (spawn_reconnect c) = spawn_reconnect (unlock c)"
  by (simp add: unlock_def spawn_reconnect_def live_task_def live_def spawn_def split: option.split)

lemma conn_ok_connect_cleaned:
  assumes "held c t" "w_tasks c t = Some p" "kind p = ConnectTask" "cleaned c"
  shows "conn_ok (connect_cleaned t e rem c)"
proof -
  have ok: "conn_ok (finish t (unlock c))"
    by (rule conn_ok_release [OF assms(1)])
      (use assms(2-4) not_started none_of_finish in \<open>simp_all add: cleaned_def\<close>)
  have "kind_at c t = Some ConnectTask" "live t c"
    using assms(2,3) by (simp_all add: kind_at_def live_def)
  moreover have "kind_at c t = Some ReconnectTask \<longleftrightarrow> c_reconnect_task c = Some t"
    using held_tasks(1) [OF assms(1)] unfolding tasks_ok_def by blast
  ultimately have "c_reconnect_task c \<noteq> Some t" "t < w_next_task c"
    using held_tasks(1) [OF assms(1)] unfolding tasks_ok_def by simp_all
  then have "finish t (spawn_reconnect (unlock c)) = spawn_reconnect (finish t (unlock c))"
    by (intro finish_spawn_reconnect) (simp_all add: unlock_def)
  moreover note unlock_spawn_reconnect [of c]
  moreover have "conn_ok (spawn_reconnect (finish t (unlock c)))"
    by (rule conn_ok_spawn_reconnect [OF ok]) (simp add: unlock_def)
  ultimately show ?thesis using ok by (simp add: connect_cleaned_def)
qed

lemma conn_ok_disconnect_locked:
  assumes "held c t" "w_tasks c t = Some p" "w_open c \<subseteq> sockets_of c" "receivers_in c {}"
    "disconnect_locked c = (cp, c1)" "q = ConnectReset cp rem \<or> q = DisconnectCleanup cp rem" "kind q = kind p"
  shows "conn_ok (set_pc t q c1)"
proof -
  let ?c = "c\<lparr>c_need_reconnect := False, c_disconnecting := True, c_connected := False\<rparr>"
  have k: "kind_at ?c = kind_at c" by (rule ext) (simp add: kind_at_def)
  have h: "held ?c t" by (rule held_update [OF assms(1)]) simp_all
  have "w_open ?c \<subseteq> sockets_of ?c" "receivers_in ?c {}"
    using assms(3,4) by (simp add: sockets_of_def, simp add: receivers_in_def k)
  note f = finalize_resources_ok [OF h this assms(5) [unfolded disconnect_locked_def]]
  show ?thesis
    by (rule conn_ok_hold [OF f(1), of p]) (use f assms(2,6,7) in auto)
qed

lemma conn_ok_connect_locked:
  assumes "held c t" "w_tasks c t = Some p" "kind p = ConnectTask" "w_open c \<subseteq> sockets_of c"
    "receivers_in c {}"
  shows "conn_ok (connect_locked t now c)"
proof (cases "c_http c \<or> c_ws c \<noteq> None")
  case True
  obtain cp c1 where d: "disconnect_locked c = (cp, c1)" by fastforce
  show ?thesis
    using conn_ok_disconnect_locked [OF assms(1,2,4,5) d, of "ConnectReset cp False" False] assms(3) True d
    by (simp add: connect_locked_def)
next
  case False
  then have "w_open c = {}" "none_of {ReceiveTask, HeartTask} c"
    using assms(4) held_tasks(2) [OF assms(1)] by (simp_all add: sockets_of_def flags_ok_def)
  with conn_ok_connect_begin [OF assms(1-3)] False show ?thesis by (simp add: connect_locked_def)
qed

lemma conn_ok_reconnect_locked:
  assumes "held c t" "w_tasks c t = Some p" "kind p = ReconnectTask" "w_open c \<subseteq> sockets_of c"
    "receivers_in c {}"
  shows "conn_ok (reconnect_locked t now c)"
proof -
  have "conn_ok (set_pc t ReconnectClose c)"
    by (rule conn_ok_hold [OF assms(1,2)]) (use assms(3-5) in simp_all)
  moreover have "conn_ok (reconnect_flow t (do_connect now c))" if "c_ws c = None"
  proof -
    obtain f c' where d: "do_connect now c = (f, c')" by fastforce
    have "w_open c = {}" using that assms(4) by (simp add: sockets_of_def)
    note o = do_connect_ok [OF assms(1,5) this d]
    have "w_tasks c' t = Some p" using o(3) assms(2) by (simp add: keeps_task_def)
    from conn_ok_reconnect_flow [OF o(1) this assms(3) o(2)] d show ?thesis by simp
  qed
  ultimately show ?thesis
    using conn_ok_reconnect_released [OF assms(1,4,5)] by (auto simp: reconnect_locked_def)
qed

section \<open>Every step preserves the invariant\<close>

lemma conn_ok_resume_connect:
  assumes "conn_ok c" "w_tasks c t = Some p" "kind p = ConnectTask" "resume_at p t d x c = Some c'"
  shows "conn_ok c'"
proof (cases p)
  case ConnectLock
  show ?thesis
  proof (cases "x = Cancelled")
    case True
    then show ?thesis
      using conn_ok_finish [OF assms(1,2)] assms(4) ConnectLock by simp
  next
    case False
    then obtain c1 where c1: "acquire t c = Some c1" "c' = connect_locked t (d_now d) c1"
      using assms(4) ConnectLock by (auto split: if_splits)
    have "live t c" using assms(2) by (simp add: live_def)
    note h = held_acquire [OF assms(1) c1(1) this]
    have "w_tasks c1 t = Some p" using assms(2) h(4) by simp
    from conn_ok_connect_locked [OF h(1) this assms(3) h(3,2)] c1(2) show ?thesis by simp
  qed
next
  case (ConnectReset cp rem)
  note h = held_of_holder [OF assms(1,2)]
  have hp: "held c t" "cleanup_ok cp c" "\<not> c_need_reconnect c" "receivers_in c {}"
    using h ConnectReset by simp_all
  show ?thesis
  proof (cases "x = Cancelled")
    case True
    then have "c' = set_pc t (ConnectReset cp True) c" using assms(4) ConnectReset by simp
    moreover have "conn_ok \<dots>"
      by (rule conn_ok_hold [OF hp(1) assms(2)]) (use hp assms(3) in simp_all)
    ultimately show ?thesis by simp
  next
    case False
    then obtain f c1 where f: "finalize_resume cp x c = Some (f, c1)"
      using assms(4) ConnectReset by (auto split: option.splits)
    note o = finalize_resume_ok [OF hp(1,2) f]
    have w: "w_tasks c1 t = Some p" using o assms(2) by simp
    have e: "c' = (case f of Await cp' \<Rightarrow> set_pc t (ConnectReset cp' rem) c1
                   | _ \<Rightarrow> if rem then finish t (unlock c1) else connect_begin t (d_now d) c1)"
      using assms(4) ConnectReset False f by (auto split: flow.splits)
    have r: "receivers_in c1 {}" if "cleaned c1" using that none_of_finish by (simp add: cleaned_def)
    show ?thesis
    proof (cases f)
      case (Await cp')
      have rv: "receivers_in c1 {}"
        using none_of_finish [OF finalize_none [OF hp(2) f]] o by simp
      have "conn_ok (set_pc t (ConnectReset cp' rem) c1)"
        by (rule conn_ok_hold [OF _ w])
          (use o rv hp(3) assms(3) Await in \<open>simp_all add: cleanup_flow_ok_def same_intent_def\<close>)
      then show ?thesis using e Await by simp
    next
      case Returns
      have cl: "cleaned c1" using o Returns by (simp add: cleanup_flow_ok_def)
      have "conn_ok (finish t (unlock c1))"
        by (rule conn_ok_release) (use o cl r not_started [OF w] assms(3) in \<open>simp_all add: cleaned_def\<close>)
      moreover have "conn_ok (connect_begin t (d_now d) c1)"
        by (rule conn_ok_connect_begin [OF _ w assms(3)])
          (use o cl in \<open>auto simp: cleaned_def none_of_def\<close>)
      ultimately show ?thesis using e Returns by simp
    next
      case (Raises e)
      then show ?thesis using o by (simp add: cleanup_flow_ok_def)
    qed
  qed
next
  case (ConnectRun q)
  note h = held_of_holder [OF assms(1,2)]
  obtain f c1 where f: "do_connect_resume q x c = Some (f, c1)" "c' = connect_flow t (f, c1)"
    using assms(4) ConnectRun by auto
  have hp: "held c t" "run_ok q c" "c_http c" "none_of {ReceiveTask, HeartTask} c"
    "receivers_in c (run_stops q)"
    using h ConnectRun by simp_all
  note o = do_connect_resume_ok [OF hp(1,2,3,5) f(1)]
  have "w_tasks c1 t = Some p" using o assms(2) by (simp add: keeps_task_def)
  from conn_ok_connect_flow [OF _ this assms(3)] o hp(4) f(2) show ?thesis by simp
next
  case (ConnectCleanup cp e rem)
  note h = held_of_holder [OF assms(1,2)]
  have hp: "held c t" "cleanup_ok cp c" "none_of {ReceiveTask, HeartTask} c" "receivers_in c {}"
    "e = RaisedConflict \<longrightarrow> \<not> c_need_reconnect c"
    using h ConnectCleanup by simp_all
  show ?thesis
  proof (cases "x = Cancelled")
    case True
    then have "c' = set_pc t (ConnectCleanup cp e True) c" using assms(4) ConnectCleanup by simp
    moreover have "conn_ok \<dots>"
      by (rule conn_ok_hold [OF hp(1) assms(2)]) (use hp assms(3) in simp_all)
    ultimately show ?thesis by simp
  next
    case False
    then obtain f c1 where f: "finalize_resume cp x c = Some (f, c1)"
      using assms(4) ConnectCleanup by (auto split: option.splits)
    note o = finalize_resume_ok [OF hp(1,2) f]
    have w: "w_tasks c1 t = Some p" using o assms(2) by simp
    have k: "kind_at c1 = kind_at c" using o by (simp add: kind_at_def fun_eq_iff)
    have n: "none_of {ReceiveTask, HeartTask} c1" using hp(3) by (simp add: none_of_def k)
    then have rv: "receivers_in c1 {}" by (auto simp: receivers_in_def none_of_def)
    have e': "c' = (case f of Await cp' \<Rightarrow> set_pc t (ConnectCleanup cp' e rem) c1
                   | _ \<Rightarrow> connect_cleaned t e rem c1)"
      using assms(4) ConnectCleanup False f by (auto split: flow.splits)
    show ?thesis
    proof (cases f)
      case (Await cp')
      have "conn_ok (set_pc t (ConnectCleanup cp' e rem) c1)"
        by (rule conn_ok_hold [OF _ w])
          (use o rv n hp(5) assms(3) Await in \<open>simp_all add: cleanup_flow_ok_def same_intent_def\<close>)
      then show ?thesis using e' Await by simp
    next
      case Returns
      then show ?thesis
        using conn_ok_connect_cleaned [OF _ w assms(3)] o e' by (simp add: cleanup_flow_ok_def)
    next
      case (Raises ex)
      then show ?thesis using o by (simp add: cleanup_flow_ok_def)
    qed
  qed
qed (use assms(3) in simp_all)

lemma conn_ok_resume_disconnect:
  assumes "conn_ok c" "w_tasks c t = Some p" "kind p = DisconnectTask" "resume_at p t d x c = Some c'"
  shows "conn_ok c'"
proof (cases p)
  case (DisconnectDrain r rem)
  then show ?thesis
    using conn_ok_move [OF assms(1,2)] assms(4) by (auto split: if_splits)
next
  case (DisconnectLock rem)
  show ?thesis
  proof (cases "x = Cancelled")
    case True
    have "conn_ok (set_pc t (DisconnectLock True) c)"
      by (rule conn_ok_move [OF assms(1,2)]) (simp_all add: DisconnectLock)
    then show ?thesis using assms(4) DisconnectLock True by simp
  next
    case False
    then obtain c0 where c0: "acquire t c = Some c0"
      and e0: "c' = (case disconnect_locked c0 of (cp, c1) \<Rightarrow> set_pc t (DisconnectCleanup cp rem) c1)"
      using assms(4) DisconnectLock by (auto split: if_splits)
    obtain cp c1 where d: "disconnect_locked c0 = (cp, c1)" by fastforce
    have e: "c' = set_pc t (DisconnectCleanup cp rem) c1" using e0 d by simp
    have "live t c" using assms(2) by (simp add: live_def)
    note h = held_acquire [OF assms(1) c0 this]
    have w: "w_tasks c0 t = Some p" using assms(2) h(4) by simp
    show ?thesis
      unfolding e by (rule conn_ok_disconnect_locked [OF h(1) w h(3,2) d]) (simp_all add: DisconnectLock)
  qed
next
  case (DisconnectCleanup cp rem)
  note h = held_of_holder [OF assms(1,2)]
  have hp: "held c t" "cleanup_ok cp c" "\<not> c_need_reconnect c" "\<not> c_connected c" "receivers_in c {}"
    using h DisconnectCleanup by simp_all
  show ?thesis
  proof (cases "x = Cancelled")
    case True
    then have "c' = set_pc t (DisconnectCleanup cp True) c" using assms(4) DisconnectCleanup by simp
    moreover have "conn_ok \<dots>"
      by (rule conn_ok_hold [OF hp(1) assms(2)]) (use hp assms(3) in simp_all)
    ultimately show ?thesis by simp
  next
    case False
    then obtain f c1 where f: "finalize_resume cp x c = Some (f, c1)"
      using assms(4) DisconnectCleanup by (auto split: option.splits)
    note o = finalize_resume_ok [OF hp(1,2) f]
    have w: "w_tasks c1 t = Some p" using o assms(2) by simp
    have e: "c' = (case f of Await cp' \<Rightarrow> set_pc t (DisconnectCleanup cp' rem) c1
                   | _ \<Rightarrow> finish t (unlock c1))"
      using assms(4) DisconnectCleanup False f by (auto split: flow.splits)
    show ?thesis
    proof (cases f)
      case (Await cp')
      have rv: "receivers_in c1 {}"
        using none_of_finish [OF finalize_none [OF hp(2) f]] o by simp
      have "conn_ok (set_pc t (DisconnectCleanup cp' rem) c1)"
        by (rule conn_ok_hold [OF _ w])
          (use o rv hp(3,4) assms(3) Await in \<open>simp_all add: cleanup_flow_ok_def same_intent_def\<close>)
      then show ?thesis using e Await by simp
    next
      case Returns
      have cl: "cleaned c1" using o Returns by (simp add: cleanup_flow_ok_def)
      have "conn_ok (finish t (unlock c1))"
        by (rule conn_ok_release)
          (use o cl none_of_finish not_started [OF w] assms(3) in \<open>simp_all add: cleaned_def\<close>)
      then show ?thesis using e Returns by simp
    next
      case (Raises ex)
      then show ?thesis using o by (simp add: cleanup_flow_ok_def)
    qed
  qed
qed (use assms(3) in simp_all)

lemma conn_ok_resume_reconnect:
  assumes "conn_ok c" "w_tasks c t = Some p" "kind p = ReconnectTask" "resume_at p t d x c = Some c'"
  shows "conn_ok c'"
proof (cases p)
  case ReconnectStart
  have ni: "\<not> c_in_progress c" using no_active_reconnect assms(1,2) ReconnectStart by simp
  have fin: "conn_ok (finish t c)" by (rule conn_ok_finish [OF assms(1,2)]) (simp_all add: ReconnectStart ni)
  have "conn_ok (reconnect_start t d c)"
  proof (cases "c_need_reconnect c \<and> c_attempts c < 1024")
    case True
    obtain dl where dl: "reconnect_delay (c_attempts c) (d_jitter d) (d_stagger d) = Some dl"
      using True by (simp add: reconnect_delay_def)
    let ?c = "set_pc t (ReconnectSleep dl) (c\<lparr>c_attempts := Suc (c_attempts c)\<rparr>)"
    have m: "conn_ok ?c"
      by (rule conn_ok_move [of _ t p]) (use conn_ok_irrelevant(2) [OF assms(1)] assms(2) ReconnectStart in simp_all)
    let ?d = "?c\<lparr>c_in_progress := True\<rparr>"
    have k: "kind_at ?d = kind_at ?c" by (rule ext) (simp add: kind_at_def)
    have "tasks_ok ?d" using conn_okD(1) [OF m] by (rule tasks_ok_cong [rotated -1]) simp_all
    moreover have "receivers_in ?d (holder_stops ?d)"
      using conn_okD(2) [OF m] holder_stops_cong [of ?d ?c] unfolding receivers_in_def k by simp
    moreover have "started_at ?d t" by (simp add: started_at_def set_pc_def)
    then have "flags_ok ?d"
      using conn_okD(3) [OF m] unfolding flags_ok_def none_of_def k by auto
    moreover have "holder_ok q ?d" if "holder_ok q ?c" for q
      by (rule holder_ok_less [OF that]) (simp_all add: k)
    then have "lock_ok ?d"
      using conn_okD(4) [OF m] unfolding lock_ok_def
      by (auto simp: section_at_def sockets_of_def split: option.splits)
    ultimately have "conn_ok ?d" by (simp add: conn_ok_def)
    moreover have "reconnect_start t d c = ?d"
      using True dl ni by (simp add: reconnect_start_def set_pc_def)
    ultimately show ?thesis by simp
  next
    case False
    have "conn_ok (reconnect_end t c)"
      by (rule conn_ok_reconnect_end [OF assms(1,2)]) (simp_all add: ReconnectStart)
    moreover have "reconnect_end t (c\<lparr>c_in_progress := True\<rparr>) = reconnect_end t c"
      by (simp add: reconnect_end_def)
    ultimately show ?thesis
      using False fin by (auto simp: reconnect_start_def reconnect_delay_def)
  qed
  then show ?thesis using assms(4) fin ReconnectStart by (auto split: if_splits)
next
  case (ReconnectSleep dl)
  have "conn_ok (reconnect_end t c)"
    by (rule conn_ok_reconnect_end [OF assms(1,2)]) (simp_all add: ReconnectSleep)
  moreover have "conn_ok (set_pc t ReconnectLock c)"
    by (rule conn_ok_move [OF assms(1,2)]) (simp_all add: ReconnectSleep)
  ultimately show ?thesis using assms(4) ReconnectSleep by (auto split: if_splits)
next
  case ReconnectLock
  show ?thesis
  proof (cases "x = Cancelled")
    case True
    have "conn_ok (reconnect_end t c)"
      by (rule conn_ok_reconnect_end [OF assms(1,2)]) (simp_all add: ReconnectLock)
    then show ?thesis using True assms(4) ReconnectLock by simp
  next
    case False
    then obtain c1 where c1: "acquire t c = Some c1" "c' = reconnect_locked t (d_now d) c1"
      using assms(4) ReconnectLock by (auto split: if_splits)
    have "live t c" using assms(2) by (simp add: live_def)
    note h = held_acquire [OF assms(1) c1(1) this]
    have "w_tasks c1 t = Some p" using assms(2) h(4) by simp
    from conn_ok_reconnect_locked [OF h(1) this assms(3) h(3,2)] c1(2) show ?thesis by simp
  qed
next
  case ReconnectClose
  note h = held_of_holder [OF assms(1,2)]
  have hp: "held c t" "w_open c \<subseteq> sockets_of c" "receivers_in c {}" using h ReconnectClose by simp_all
  show ?thesis
  proof (cases "x = Cancelled")
    case True
    then show ?thesis using conn_ok_reconnect_released [OF hp] assms(4) ReconnectClose by simp
  next
    case False
    then obtain s where s: "c_ws c = Some s"
      "c' = reconnect_flow t (do_connect (d_now d) (close_socket s c\<lparr>c_ws := None\<rparr>))"
      using assms(4) ReconnectClose by (auto split: if_splits option.splits)
    let ?c = "close_socket s c\<lparr>c_ws := None\<rparr>"
    have k: "kind_at ?c = kind_at c" by (rule ext) (simp add: kind_at_def close_socket_def)
    have hc: "held ?c t"
      by (rule held_update [OF hp(1)])
        (use held_tasks(2) [OF hp(1)] in \<open>simp_all add: close_socket_def flags_ok_def\<close>)
    have rc: "receivers_in ?c {}" using hp(3) by (simp add: receivers_in_def k, simp add: close_socket_def)
    have oc: "w_open ?c = {}" using hp(2) s(1) by (auto simp: close_socket_def sockets_of_def)
    obtain f c1 where d: "do_connect (d_now d) ?c = (f, c1)" by fastforce
    note o = do_connect_ok [OF hc rc oc d]
    have "w_tasks c1 t = Some p" using o(3) assms(2) by (simp add: keeps_task_def close_socket_def)
    from conn_ok_reconnect_flow [OF o(1) this assms(3) o(2)] d s(2) show ?thesis by simp
  qed
next
  case (ReconnectRun q)
  note h = held_of_holder [OF assms(1,2)]
  obtain f c1 where f: "do_connect_resume q x c = Some (f, c1)" "c' = reconnect_flow t (f, c1)"
    using assms(4) ReconnectRun by auto
  have hp: "held c t" "run_ok q c" "c_http c" "receivers_in c (run_stops q)"
    using h ReconnectRun by simp_all
  note o = do_connect_resume_ok [OF hp f(1)]
  have "w_tasks c1 t = Some p" using o assms(2) by (simp add: keeps_task_def)
  from conn_ok_reconnect_flow [OF _ this assms(3)] o f(2) show ?thesis by simp
qed (use assms(3) in simp_all)

lemma conn_ok_resume_receive:
  assumes "conn_ok c" "w_tasks c t = Some p" "kind p = ReceiveTask" "resume_at p t d x c = Some c'"
  shows "conn_ok c'"
proof -
  have ns: "\<not> in_section p" using assms(3) by (cases p) simp_all
  have "conn_ok (finish t c)" by (rule conn_ok_finish [OF assms(1,2) ns]) (simp add: assms(3))
  moreover note conn_ok_receive_loop [OF assms(1-3)] conn_ok_receive_exit [OF assms(1-3)]
  moreover have "conn_ok (process_frames t fs c)" for fs by (rule conn_ok_process_frames [OF assms(1-3)])
  moreover have "conn_ok (process_frames t fs (close_socket s c))" for s fs
    by (rule conn_ok_process_frames [OF conn_ok_irrelevant(5) [OF assms(1)] _ assms(3)])
      (simp add: close_socket_def assms(2))
  ultimately show ?thesis
    using assms(3,4) by (cases p; cases x) (simp_all split: if_splits, blast+)
qed

lemma conn_ok_resume_heart:
  assumes "conn_ok c" "w_tasks c t = Some p" "kind p = HeartTask" "resume_at p t d x c = Some c'"
  shows "conn_ok c'"
proof -
  have ns: "\<not> in_section p" using assms(3) by (cases p) simp_all
  have "conn_ok (finish t c)" by (rule conn_ok_finish [OF assms(1,2) ns]) (simp add: assms(3))
  moreover note conn_ok_heartbeat_loop [OF assms(1-3)] conn_ok_heartbeat_tick [OF assms(1-3)]
  moreover have "conn_ok (finish t (close_socket s c))" for s
    by (rule conn_ok_finish [OF conn_ok_irrelevant(5) [OF assms(1)] _ ns])
      (simp_all add: close_socket_def assms(2,3))
  ultimately show ?thesis
    using assms(3,4) by (cases p; cases x) (simp_all split: if_splits, blast+)
qed

lemma conn_step_ok:
  assumes "conn_ok c" "conn_step e c = Some c'"
  shows "conn_ok c'"
proof (cases e)
  case StartConnect
  then show ?thesis using conn_ok_spawn_call [OF assms(1), of ConnectLock] assms(2) by simp
next
  case StartDisconnect
  then show ?thesis using conn_ok_disconnect_call [OF assms(1)] assms(2) by simp
next
  case (Resume t d x)
  then obtain p where p: "w_tasks c t = Some p" "resume_at p t d x c = Some c'"
    using assms(2) by (auto simp: resume_def split: option.splits if_splits)
  show ?thesis
    using conn_ok_resume_connect [OF assms(1) p(1) _ p(2)] conn_ok_resume_disconnect [OF assms(1) p(1) _ p(2)]
      conn_ok_resume_reconnect [OF assms(1) p(1) _ p(2)] conn_ok_resume_receive [OF assms(1) p(1) _ p(2)]
      conn_ok_resume_heart [OF assms(1) p(1) _ p(2)]
    by (cases "kind p") blast+
next
  case (CancelCall t)
  then show ?thesis
    using assms conn_ok_cancel [OF assms(1), of t] by (auto simp: live_def split: option.splits if_splits)
next
  case (Dropped s)
  then show ?thesis using assms conn_ok_irrelevant(5) by auto
qed

interpretation safe: conn_invariant P conn_ok for P
  by unfold_locales (rule conn_step_ok)

lemma reachable_ok: "reaches P (new_runtime m) c \<Longrightarrow> conn_ok c"
  by (rule safe.reaches_holds [OF _ new_runtime_ok])

end
