(* ===== verification/ConnectionPursuit.thy ===== *)
theory ConnectionPursuit
  imports ConnectionSteps
begin

text \<open>
  While a connection is wanted, some task pursues it. The invariant says why a task may be cancelled
  (a disconnect call, the clean-up, or the handshake that replaces it), which ends of a failed
  connect are possible, and who is left to reconnect; every step but the cancellation of a call
  of connect or disconnect preserves it.
\<close>

section \<open>The wish to be connected is pursued\<close>

definition some_disconnect :: "conn \<Rightarrow> bool" where
  "some_disconnect c \<longleftrightarrow> (\<exists>t. kind_at c t = Some DisconnectTask)"

fun gathering_pc :: "pc \<Rightarrow> bool" where
  "gathering_pc (ConnectReset (Gathering _) _) = True"
| "gathering_pc (ConnectCleanup (Gathering _) _ _) = True"
| "gathering_pc (DisconnectCleanup (Gathering _) _) = True"
| "gathering_pc _ = False"

definition gathering :: "conn \<Rightarrow> bool" where
  "gathering c \<longleftrightarrow> (\<exists>h p. c_lock c = Some h \<and> w_tasks c h = Some p \<and> gathering_pc p)"

definition cancel_reason :: "conn \<Rightarrow> tid \<Rightarrow> bool" where
  \<comment> \<open>why a cancellation of this task may be pending, when nobody cancels connect calls\<close>
  "cancel_reason c t \<longleftrightarrow>
     kind_at c t \<noteq> Some ConnectTask \<and>
     (kind_at c t = Some ReconnectTask \<longrightarrow> some_disconnect c \<or> gathering c) \<and>
     (kind_at c t = Some ReceiveTask \<longrightarrow> gathering c \<or> t \<in> holder_stops c)"

fun clean_end :: "pc \<Rightarrow> bool" where
  "clean_end (ConnectCleanup cp e rem) = (\<not> rem \<and> e \<noteq> RaisedCancelled)"
| "clean_end _ = True"

definition pursued :: "conn \<Rightarrow> bool" where
  "pursued c \<longleftrightarrow>
     (c_need_reconnect c \<and> c_lock c = None \<and> \<not> some_disconnect c \<longrightarrow>
        (\<exists>v. c_recv_task c = Some v \<and> live v c) \<or> c_reconnect_task c \<noteq> None \<or>
        c_attempts c \<ge> 1024 \<or> (\<exists>t. w_tasks c t = Some ConnectLock))"

definition pursuit :: "conn \<Rightarrow> bool" where
  "pursuit c \<longleftrightarrow>
     (\<forall>t \<in> w_cancel c. cancel_reason c t) \<and> (\<forall>t p. w_tasks c t = Some p \<longrightarrow> clean_end p) \<and> pursued c"

text \<open>A step of a task outside the lock changes nothing for the others.\<close>

lemma pursuit_frame:
  assumes "conn_ok c" "pursuit c" "w_tasks c t = Some p" "\<not> in_section p"
    "\<And>u. u \<noteq> t \<Longrightarrow> live u c \<Longrightarrow> w_tasks c' u = w_tasks c u"
    "\<And>u q. u = t \<or> \<not> live u c \<Longrightarrow> w_tasks c' u = Some q \<Longrightarrow> clean_end q"
    "kind p = DisconnectTask \<longrightarrow> kind_at c' t = Some DisconnectTask"
    "c_lock c' = c_lock c" "w_cancel c' \<subseteq> w_cancel c - {t}" "pursued c'"
  shows "pursuit c'"
proof -
  have n: "c_lock c \<noteq> Some t" using not_holder assms(1,3,4) by blast
  have lh: "c_lock c = Some h \<Longrightarrow> live h c" for h
    using holder_kind [OF assms(1)] by (fastforce simp: live_def)
  have keep: "w_tasks c' h = w_tasks c h" if "c_lock c = Some h" for h
    using assms(5) that n lh by metis
  have s: "holder_stops c' = holder_stops c"
    using keep by (auto simp: holder_stops_def assms(8) split: option.splits)
  have g: "gathering c' = gathering c" unfolding gathering_def assms(8) using keep by metis
  have sd: "some_disconnect c \<Longrightarrow> some_disconnect c'"
  proof -
    assume "some_disconnect c"
    then obtain u where u: "kind_at c u = Some DisconnectTask" by (auto simp: some_disconnect_def)
    then have "live u c" by (auto simp: kind_at_def live_def)
    have "kind_at c' u = Some DisconnectTask"
    proof (cases "u = t")
      case True
      then show ?thesis using u assms(3,7) by (simp add: kind_at_def)
    next
      case False
      then show ?thesis using u assms(5) [OF False \<open>live u c\<close>] by (simp add: kind_at_def)
    qed
    then show ?thesis by (auto simp: some_disconnect_def)
  qed
  have "cancel_reason c' u" if "u \<in> w_cancel c'" for u
  proof -
    have u: "u \<in> w_cancel c" "u \<noteq> t" using that assms(9) by auto
    then have "live u c" using conn_okD(1) [OF assms(1)] unfolding tasks_ok_def by blast
    then have "kind_at c' u = kind_at c u" using u(2) assms(5) by (simp add: kind_at_def)
    moreover have "cancel_reason c u" using assms(2) u(1) by (simp add: pursuit_def)
    ultimately show ?thesis using sd by (auto simp: cancel_reason_def s g)
  qed
  moreover have "clean_end q" if "w_tasks c' u = Some q" for u q
    using assms(2,5,6) that unfolding pursuit_def by (metis live_def)
  ultimately show ?thesis using assms(10) by (simp add: pursuit_def)
qed

lemma pursued_keeps:
  assumes "pursued c" "c_need_reconnect c' \<longrightarrow> c_need_reconnect c" "c_lock c' = c_lock c"
    "some_disconnect c \<longrightarrow> some_disconnect c'"
    "\<And>v. c_recv_task c = Some v \<Longrightarrow> live v c \<Longrightarrow> c_recv_task c' = Some v \<and> live v c'"
    "c_reconnect_task c \<noteq> None \<longrightarrow> c_reconnect_task c' \<noteq> None" "c_attempts c' \<ge> c_attempts c"
    "\<And>t. w_tasks c t = Some ConnectLock \<Longrightarrow> w_tasks c' t = Some ConnectLock"
  shows "pursued c'"
proof (unfold pursued_def, intro impI)
  assume a: "c_need_reconnect c' \<and> c_lock c' = None \<and> \<not> some_disconnect c'"
  then have "(\<exists>v. c_recv_task c = Some v \<and> live v c) \<or> c_reconnect_task c \<noteq> None \<or>
      c_attempts c \<ge> 1024 \<or> (\<exists>t. w_tasks c t = Some ConnectLock)"
    using assms(1-4) unfolding pursued_def by auto
  then show "(\<exists>v. c_recv_task c' = Some v \<and> live v c') \<or> c_reconnect_task c' \<noteq> None \<or>
      c_attempts c' \<ge> 1024 \<or> (\<exists>t. w_tasks c' t = Some ConnectLock)"
    using assms(5-8) le_trans by metis
qed

definition moves :: "tid \<Rightarrow> conn \<Rightarrow> conn \<Rightarrow> bool" where
  \<comment> \<open>a step of \<open>t\<close> that leaves the other tasks and the lock alone\<close>
  "moves t c c' \<longleftrightarrow>
     (\<forall>u. u \<noteq> t \<and> live u c \<longrightarrow> w_tasks c' u = w_tasks c u) \<and>
     (\<forall>u q. (u = t \<or> \<not> live u c) \<and> w_tasks c' u = Some q \<longrightarrow> clean_end q) \<and>
     c_lock c' = c_lock c \<and> w_cancel c' \<subseteq> w_cancel c - {t}"

lemma pursuit_moves:
  assumes "conn_ok c" "pursuit c" "w_tasks c t = Some p" "\<not> in_section p" "moves t c c'"
    "kind p = DisconnectTask \<longrightarrow> kind_at c' t = Some DisconnectTask" "pursued c'"
  shows "pursuit c'"
  using assms(5,6,7) unfolding moves_def by (intro pursuit_frame [OF assms(1-4)]) blast+

lemma moves_set_pc: "clean_end p \<Longrightarrow> moves t c (set_pc t p c)"
  by (auto simp: moves_def set_pc_def live_def split: if_splits)

lemma moves_finish: "moves t c (finish t c)"
  by (auto simp: moves_def finish_def live_def split: if_splits)

lemma moves_cong:
  assumes "w_tasks c1 = w_tasks c" "w_cancel c1 = w_cancel c" "c_lock c1 = c_lock c"
  shows "moves t c1 c' = moves t c c'"
  unfolding moves_def live_def assms ..

lemma moves_cong2:
  assumes "w_tasks c1 = w_tasks c'" "w_cancel c1 = w_cancel c'" "c_lock c1 = c_lock c'"
  shows "moves t c c1 = moves t c c'"
  unfolding moves_def live_def assms ..

lemma moves_spawn_reconnect:
  assumes "moves t c c'" "tasks_ok c" "live t c" "w_next_task c' = w_next_task c"
  shows "moves t c (spawn_reconnect c')"
proof -
  have "\<not> live (w_next_task c) c" using next_task_fresh(1) [OF assms(2)] by (simp add: live_def)
  moreover have "t \<noteq> w_next_task c" using calculation assms(3) by auto
  ultimately show ?thesis
    using assms(1,4) by (auto simp: moves_def spawn_reconnect_def spawn_def split: if_splits)
qed

lemma pursued_reconnecting:
  "c_need_reconnect c \<Longrightarrow> c_reconnect_task (spawn_reconnect c) \<noteq> None"
  by (auto simp: spawn_reconnect_def live_task_def split: option.splits)

lemma pursued_spawn_reconnect: "pursued (spawn_reconnect c)"
  using pursued_reconnecting [of c]
  by (cases "c_need_reconnect c") (auto simp: pursued_def, simp add: spawn_reconnect_def)

lemma pursued_cong:
  assumes "pursued c" "c_need_reconnect c' = c_need_reconnect c" "c_lock c' = c_lock c"
    "w_tasks c' = w_tasks c" "c_recv_task c' = c_recv_task c"
    "c_reconnect_task c' = c_reconnect_task c" "c_attempts c' = c_attempts c"
  shows "pursued c'"
proof -
  have "kind_at c' = kind_at c" by (rule ext) (simp add: kind_at_def assms(4))
  then show ?thesis
    using assms(1) by (simp only: pursued_def some_disconnect_def live_def assms)
qed

lemma some_disconnect_move:
  assumes "w_tasks c t = Some p" "kind p \<noteq> DisconnectTask"
    "\<And>u. u \<noteq> t \<Longrightarrow> live u c \<Longrightarrow> w_tasks c' u = w_tasks c u"
  shows "some_disconnect c \<longrightarrow> some_disconnect c'"
proof
  assume "some_disconnect c"
  then obtain u where u: "kind_at c u = Some DisconnectTask" by (auto simp: some_disconnect_def)
  with assms(1,2) have "u \<noteq> t" by (auto simp: kind_at_def)
  moreover have "live u c" using u by (auto simp: kind_at_def live_def)
  ultimately have "kind_at c' u = kind_at c u" using assms(3) by (simp add: kind_at_def)
  with u show "some_disconnect c'" by (auto simp: some_disconnect_def)
qed

lemma pursued_set_pc:
  assumes "pursued c" "w_tasks c t = Some p" "kind p \<noteq> DisconnectTask" "p \<noteq> ConnectLock"
  shows "pursued (set_pc t q c)"
proof (rule pursued_keeps [OF assms(1)])
  show "some_disconnect c \<longrightarrow> some_disconnect (set_pc t q c)"
    by (rule some_disconnect_move [OF assms(2,3)]) (simp add: set_pc_def)
qed (use assms in \<open>auto simp: live_def set_pc_def\<close>)

lemma pursued_finish:
  assumes "pursued c" "w_tasks c t = Some p" "kind p \<noteq> DisconnectTask" "p \<noteq> ConnectLock"
    "c_recv_task c \<noteq> Some t" "c_reconnect_task c \<noteq> Some t"
  shows "pursued (finish t c)"
proof (rule pursued_keeps [OF assms(1)])
  show "some_disconnect c \<longrightarrow> some_disconnect (finish t c)"
    by (rule some_disconnect_move [OF assms(2,3)]) (simp add: finish_def)
qed (use assms in \<open>auto simp: live_def finish_def\<close>)

lemma own_fields:
  assumes "conn_ok c" "w_tasks c t = Some p"
  shows "kind p \<noteq> ReconnectTask \<Longrightarrow> c_reconnect_task c \<noteq> Some t"
    "kind p \<noteq> ReceiveTask \<Longrightarrow> c_recv_task c \<noteq> Some t" "t < w_next_task c"
proof -
  have k: "kind_at c t = Some (kind p)" "live t c" using assms(2) by (simp_all add: kind_at_def live_def)
  have r: "c_reconnect_task c = Some t \<Longrightarrow> kind_at c t = Some ReconnectTask"
    and v: "c_recv_task c = Some t \<Longrightarrow> kind_at c t \<in> {None, Some ReceiveTask}"
    and "t < w_next_task c"
    using conn_okD(1) [OF assms(1)] k(2) unfolding tasks_ok_def by blast+
  then show "kind p \<noteq> ReconnectTask \<Longrightarrow> c_reconnect_task c \<noteq> Some t"
    "kind p \<noteq> ReceiveTask \<Longrightarrow> c_recv_task c \<noteq> Some t" "t < w_next_task c"
    using k(1) by auto
qed

lemma receive_exit_moves:
  assumes "conn_ok c" "w_tasks c t = Some p" "kind p = ReceiveTask" "pursued c"
  shows "moves t c (receive_exit t c) \<and> pursued (receive_exit t c)"
proof -
  note own = own_fields [OF assms(1,2)]
  have live: "live t c" using assms(2) by (simp add: live_def)
  show ?thesis
  proof (cases "c_recv_task c = Some t")
    case True
    let ?c = "c\<lparr>c_connected := False\<rparr>"
    have e: "receive_exit t c = spawn_reconnect (finish t ?c)"
      using True own assms(3) finish_spawn_reconnect [of ?c t] by (simp add: receive_exit_def)
    have "moves t c (finish t ?c)" using moves_finish [of t ?c] moves_cong [of ?c c] by simp
    then have "moves t c (spawn_reconnect (finish t ?c))"
      using conn_okD(1) [OF assms(1)] live by (intro moves_spawn_reconnect) simp_all
    then show ?thesis using pursued_spawn_reconnect by (simp add: e)
  next
    case False
    have "pursued (finish t c)"
      by (rule pursued_finish [OF assms(4,2)]) (use own False assms(3) in auto)
    then show ?thesis using False moves_finish by (simp add: receive_exit_def)
  qed
qed

lemma receive_loop_moves:
  assumes "conn_ok c" "w_tasks c t = Some p" "kind p = ReceiveTask" "pursued c"
  shows "moves t c (receive_loop t c) \<and> pursued (receive_loop t c)"
proof -
  have "pursued (set_pc t ReceiveWait c)"
    by (rule pursued_set_pc [OF assms(4,2)]) (use assms(3) in auto)
  then show ?thesis
    using receive_exit_moves [OF assms] moves_set_pc [of ReceiveWait t c] by (simp add: receive_loop_def)
qed

lemma process_frames_moves:
  assumes "conn_ok c" "w_tasks c t = Some p" "kind p = ReceiveTask" "pursued c"
  shows "moves t c (process_frames t fs c) \<and> pursued (process_frames t fs c)"
  using assms
proof (induction t fs c rule: process_frames.induct)
  case (1 t c)
  then show ?case using receive_loop_moves by simp
next
  case (2 t fs c)
  let ?c = "c\<lparr>c_ping_count := 0\<rparr>"
  have "pursued ?c" by (rule pursued_cong [OF 2(5)]) simp_all
  with 2 have "moves t ?c (process_frames t fs ?c) \<and> pursued (process_frames t fs ?c)"
    using conn_ok_irrelevant(1) by simp
  then show ?case using moves_cong [of ?c c] by simp
next
  case (3 t fs c)
  have "pursued (set_pc t (ReceiveSend fs) c)"
    by (rule pursued_set_pc [OF 3(5,3)]) (use 3(4) in auto)
  then show ?case using 3 moves_set_pc [of "ReceiveSend fs" t c] by simp
next
  case (4 t fs c)
  have "pursued (set_pc t (ReceiveHandle fs) c)"
    by (rule pursued_set_pc [OF 4(4,2)]) (use 4(3) in auto)
  then show ?case using moves_set_pc [of "ReceiveHandle fs" t c] by simp
next
  case (5 t fs c)
  let ?c = "c\<lparr>c_connected := False\<rparr>"
  have pc: "pursued ?c" by (rule pursued_cong [OF 5(5)]) simp_all
  have ok: "conn_ok ?c" using conn_ok_irrelevant(4) 5(2) .
  show ?case
  proof (cases "c_ws c")
    case None
    with 5 pc ok have "moves t ?c (process_frames t fs ?c) \<and> pursued (process_frames t fs ?c)" by simp
    then show ?thesis using None moves_cong [of ?c c] by simp
  next
    case (Some s)
    have "pursued (set_pc t (ReceiveClose s fs) ?c)"
      by (rule pursued_set_pc [OF pc]) (use 5(3,4) in auto)
    then show ?thesis using Some moves_set_pc [of "ReceiveClose s fs" t ?c] moves_cong [of ?c c] by simp
  qed
qed simp_all

lemma pursuit_resume_receive:
  assumes "conn_ok c" "pursuit c" "w_tasks c t = Some p" "kind p = ReceiveTask"
    "resume_at p t d x c = Some c'" "x = Cancelled \<longleftrightarrow> t \<in> w_cancel c"
  shows "pursuit c'"
proof -
  have ns: "\<not> in_section p" using assms(4) by (cases p) simp_all
  have pc: "pursued c" using assms(2) by (simp add: pursuit_def)
  have start: "moves t c (finish t c) \<and> pursued (finish t c)" if "x = Cancelled"
  proof -
    have "cancel_reason c t" using that assms(2,6) by (simp add: pursuit_def)
    moreover have "kind_at c t = Some ReceiveTask" using assms(3,4) by (simp add: kind_at_def)
    ultimately have "c_lock c \<noteq> None"
      by (auto simp: cancel_reason_def gathering_def holder_stops_def split: option.splits)
    then have "pursued (finish t c)" by (auto simp: pursued_def)
    then show ?thesis using moves_finish by simp
  qed
  have closed: "moves t c (process_frames t fs (close_socket s c)) \<and>
      pursued (process_frames t fs (close_socket s c))" for fs s
  proof -
    have "pursued (close_socket s c)" by (rule pursued_cong [OF pc]) (simp_all add: close_socket_def)
    moreover have "w_tasks (close_socket s c) t = Some p" by (simp add: close_socket_def assms(3))
    ultimately have "moves t (close_socket s c) (process_frames t fs (close_socket s c)) \<and>
        pursued (process_frames t fs (close_socket s c))"
      by (intro process_frames_moves [OF conn_ok_irrelevant(5) [OF assms(1)] _ assms(4)])
    moreover have "moves t (close_socket s c) b = moves t c b" for b
      by (rule moves_cong) (simp_all add: close_socket_def)
    ultimately show ?thesis by simp
  qed
  note m = receive_loop_moves [OF assms(1,3,4) pc] receive_exit_moves [OF assms(1,3,4) pc]
    process_frames_moves [OF assms(1,3,4) pc] start closed
  have "moves t c c' \<and> pursued c'"
    using assms(4,5) m by (cases p; cases x) (simp_all split: if_splits, blast+)
  then show ?thesis using pursuit_moves [OF assms(1-3) ns] assms(4) by simp
qed

lemma pursuit_resume_heart:
  assumes "conn_ok c" "pursuit c" "w_tasks c t = Some p" "kind p = HeartTask"
    "resume_at p t d x c = Some c'"
  shows "pursuit c'"
proof -
  have ns: "\<not> in_section p" using assms(4) by (cases p) simp_all
  have pc: "pursued c" using assms(2) by (simp add: pursuit_def)
  note own = own_fields [OF assms(1,3)]
  have ncl: "p \<noteq> ConnectLock" using assms(4) by auto
  have set: "moves t c (set_pc t q b) \<and> pursued (set_pc t q b)"
    and fin: "moves t c (finish t b) \<and> pursued (finish t b)"
    if "w_tasks b = w_tasks c" "w_cancel b = w_cancel c" "c_lock b = c_lock c"
      "c_need_reconnect b = c_need_reconnect c" "c_recv_task b = c_recv_task c"
      "c_reconnect_task b = c_reconnect_task c" "c_attempts b = c_attempts c" "clean_end q" for b q
  proof -
    have pb: "pursued b" by (rule pursued_cong [OF pc]) (use that in simp_all)
    have tb: "w_tasks b t = Some p" using assms(3) that(1) by simp
    show "moves t c (set_pc t q b) \<and> pursued (set_pc t q b)"
      using moves_set_pc [of q t b] moves_cong [of b c] that pursued_set_pc [OF pb tb _ ncl] assms(4) by auto
    show "moves t c (finish t b) \<and> pursued (finish t b)"
      using moves_finish [of t b] moves_cong [of b c] that pursued_finish [OF pb tb _ ncl] assms(4) own by auto
  qed
  have loop: "moves t c (heartbeat_loop t b) \<and> pursued (heartbeat_loop t b)"
    if "w_tasks b = w_tasks c" "w_cancel b = w_cancel c" "c_lock b = c_lock c"
      "c_need_reconnect b = c_need_reconnect c" "c_recv_task b = c_recv_task c"
      "c_reconnect_task b = c_reconnect_task c" "c_attempts b = c_attempts c" for b
    using set [OF that, of HeartSleep] fin [OF that, of HeartSleep] by (simp add: heartbeat_loop_def)
  have tick: "moves t c (heartbeat_tick t c) \<and> pursued (heartbeat_tick t c)"
    using set [of _ HeartSend] set [of _ "HeartClose _"] fin [of _ HeartSleep] loop
    by (simp add: heartbeat_tick_def Let_def split: option.split)
  have clo: "moves t c (finish t (close_socket s c)) \<and> pursued (finish t (close_socket s c))" for s
    using fin [of "close_socket s c" HeartSleep] by (simp add: close_socket_def)
  have "moves t c c' \<and> pursued c'"
    using assms(4,5) fin [of c HeartSleep] loop [of c] tick clo
    by (cases p; cases x) (simp_all split: if_splits, blast+)
  then show ?thesis using pursuit_moves [OF assms(1-3) ns] assms(4) by simp
qed

definition clean :: "conn \<Rightarrow> bool" where
  "clean c \<longleftrightarrow> (\<forall>t p. w_tasks c t = Some p \<longrightarrow> clean_end p)"

definition calm :: "conn \<Rightarrow> tid set \<Rightarrow> bool" where
  \<comment> \<open>cancellations pending while no clean-up gathers tasks\<close>
  "calm c S \<longleftrightarrow>
     (\<forall>u \<in> w_cancel c. kind_at c u \<noteq> Some ConnectTask \<and>
        (kind_at c u = Some ReconnectTask \<longrightarrow> some_disconnect c) \<and>
        (kind_at c u = Some ReceiveTask \<longrightarrow> u \<in> S))"

fun flow_stops :: "connect_pc flow \<Rightarrow> tid set" where
  "flow_stops (Await p) = run_stops p"
| "flow_stops _ = {}"

lemma calm_fields:
  assumes "calm c S" "w_tasks c' = w_tasks c" "w_cancel c' \<subseteq> w_cancel c"
  shows "calm c' S"
proof -
  have "kind_at c' = kind_at c" by (rule ext) (simp add: kind_at_def assms(2))
  then show ?thesis using assms(1,3) unfolding calm_def some_disconnect_def by auto
qed

lemma clean_fields: "clean c \<Longrightarrow> w_tasks c' = w_tasks c \<Longrightarrow> clean c'"
  by (simp add: clean_def)

lemma calm_spawn:
  assumes "calm c S" "tasks_ok c" "w_tasks c' = (w_tasks c)(w_next_task c := Some p)"
    "w_cancel c' = w_cancel c"
  shows "calm c' S"
proof -
  note fresh = next_task_fresh [OF assms(2)]
  have k: "kind_at c' u = kind_at c u" if "u \<in> w_cancel c" for u
    using that fresh(3) by (auto simp: kind_at_def assms(3))
  have "some_disconnect c \<longrightarrow> some_disconnect c'"
    using fresh(2) unfolding some_disconnect_def
    by (metis assms(3) fun_upd_other kind_at_def option.distinct(1))
  then show ?thesis using assms(1,4) k by (auto simp: calm_def)
qed

lemma clean_spawn:
  "clean c \<Longrightarrow> clean_end p \<Longrightarrow> w_tasks c' = (w_tasks c)(t := Some p) \<Longrightarrow> clean c'"
  by (simp add: clean_def)

lemma calm_cancel:
  assumes "calm c S" "kind_at c u = Some HeartTask \<or> kind_at c u = Some ReceiveTask \<and> u \<in> S'" "S \<subseteq> S'"
  shows "calm (cancel_task u c) S'"
proof -
  have "kind_at (cancel_task u c) = kind_at c" by (rule ext) (simp add: kind_at_def cancel_task_def)
  then show ?thesis
    using assms unfolding calm_def some_disconnect_def by (auto simp: cancel_task_def)
qed

lemma begin_receive_calm:
  assumes "tasks_ok c" "calm c S" "clean c"
  shows "calm (begin_receive c) S" "clean (begin_receive c)"
    "c_recv_task (begin_receive c) = Some (w_next_task c)"
    "w_tasks (begin_receive c) (w_next_task c) = Some ReceiveStart"
proof -
  show "calm (begin_receive c) S"
    by (rule calm_spawn [OF assms(2,1), of _ ReceiveStart]) (simp_all add: begin_receive_def spawn_def)
  show "clean (begin_receive c)"
    by (rule clean_spawn [OF assms(3), of ReceiveStart _ "w_next_task c"])
      (simp_all add: begin_receive_def spawn_def)
  show "c_recv_task (begin_receive c) = Some (w_next_task c)"
    "w_tasks (begin_receive c) (w_next_task c) = Some ReceiveStart"
    by (simp_all add: begin_receive_def spawn_def)
qed

definition connects :: "connect_pc flow \<Rightarrow> conn \<Rightarrow> bool" where
  \<comment> \<open>a handshake that returns leaves a receive task behind\<close>
  "connects f c \<longleftrightarrow> f = Returns \<longrightarrow> (\<exists>v. c_recv_task c = Some v \<and> w_tasks c v = Some ReceiveStart)"

lemma start_receive_calm:
  assumes "held c t" "calm c {}" "clean c" "start_receive_task c = (f, c')"
  shows "calm c' (flow_stops f) \<and> clean c' \<and> connects f c' \<and> f \<noteq> Raises RaisedCancelled"
proof -
  consider (old) v where "c_recv_task c = Some v" "live v c"
      "f = Await (StoppingReceiver v)" "c' = cancel_task v (c\<lparr>c_recv_task := None\<rparr>)"
    | (new) "f = Returns" "c' = begin_receive c"
    using assms(4) by (auto simp: start_receive_task_def live_task_def split: option.splits if_splits)
  then show ?thesis
  proof cases
    case old
    have "kind_at c v = Some ReceiveTask"
      using held_tasks(1) [OF assms(1)] old(1,2) unfolding tasks_ok_def live_def kind_at_def by fastforce
    then have "kind_at (c\<lparr>c_recv_task := None\<rparr>) v = Some ReceiveTask" by (simp add: kind_at_def)
    moreover have "calm (c\<lparr>c_recv_task := None\<rparr>) {}" by (rule calm_fields [OF assms(2)]) simp_all
    ultimately have "calm c' {v}" unfolding old(4) by (intro calm_cancel) auto
    moreover have "clean c'" by (rule clean_fields [OF assms(3)]) (simp add: old(4) cancel_task_def)
    ultimately show ?thesis by (simp add: old(3) connects_def)
  next
    case new
    then show ?thesis
      using begin_receive_calm [OF held_tasks(1) [OF assms(1)] assms(2,3)] by (simp add: connects_def)
  qed
qed

lemma begin_heartbeat_calm:
  assumes "tasks_ok c" "calm c S" "clean c"
  shows "calm (begin_heartbeat c) S" "clean (begin_heartbeat c)"
proof -
  show "calm (begin_heartbeat c) S"
    by (rule calm_spawn [OF assms(2,1), of _ HeartStart]) (simp_all add: begin_heartbeat_def spawn_def)
  show "clean (begin_heartbeat c)"
    by (rule clean_spawn [OF assms(3), of HeartStart _ "w_next_task c"])
      (simp_all add: begin_heartbeat_def spawn_def)
qed

lemma do_connect_resume_calm:
  assumes "held c t" "run_ok p c" "c_http c" "receivers_in c (run_stops p)" "calm c (run_stops p)" "clean c"
    "do_connect_resume p x c = Some (f, c')"
  shows "calm c' (flow_stops f) \<and> clean c' \<and> connects f c' \<and> (f = Raises RaisedCancelled \<longrightarrow> x = Cancelled)"
proof -
  note tk = held_tasks(1) [OF assms(1)]
  have plain: ?thesis if "w_tasks c' = w_tasks c" "w_cancel c' = w_cancel c" "f \<noteq> Returns"
    "run_stops p = {}" "flow_stops f = {}" "f = Raises RaisedCancelled \<longrightarrow> x = Cancelled"
    using that calm_fields [OF assms(5) that(1)] clean_fields [OF assms(6) that(1)]
    by (simp add: connects_def)
  show ?thesis
  proof (cases p)
    case (StoppingHeartbeat h)
    have r: "start_receive_task (begin_heartbeat c) = (f, c')" and dead: "\<not> live h c"
      and ho: "c_heartbeat_task c = Some h"
      using assms(2,7) StoppingHeartbeat by (auto split: if_splits)
    have n: "none_of {HeartTask} c"
      using held_heart [OF assms(1)] dead ho by (simp add: live_task_def)
    have rc: "receivers_in c {}" using assms(4) StoppingHeartbeat by simp
    have cc: "calm c {}" using assms(5) StoppingHeartbeat by simp
    note b = begin_heartbeat_ok [OF assms(1) n assms(3) rc] begin_heartbeat_calm [OF tk cc assms(6)]
    from start_receive_calm [OF b(1,8,9) r] show ?thesis by simp
  next
    case (StoppingReceiver v)
    have dead: "\<not> live v c" and f: "f = Returns" "c' = begin_receive c"
      using assms(7) StoppingReceiver by (auto split: if_splits)
    have "v \<notin> w_cancel c" using tk dead unfolding tasks_ok_def by blast
    then have "calm c {}" using assms(5) StoppingReceiver by (auto simp: calm_def)
    from begin_receive_calm [OF tk this assms(6)] f show ?thesis by (simp add: connects_def)
  next
    case AwaitConnack
    show ?thesis
    proof (cases "x = Accepted")
      case True
      let ?c = "connack_accepted c"
      have r: "start_heartbeat_task ?c = (f, c')" using assms(7) AwaitConnack True by simp
      have w: "w_tasks ?c = w_tasks c" "w_cancel ?c = w_cancel c" by (simp_all add: connack_accepted_def)
      have cc: "calm ?c {}" using calm_fields [of c "{}" ?c] assms(5) w AwaitConnack by simp
      have cl: "clean ?c" using clean_fields [OF assms(6) w(1)] .
      have hc: "held ?c t"
        by (rule held_update [OF assms(1)])
          (use held_tasks(2) [OF assms(1)] in \<open>simp_all add: connack_accepted_def flags_ok_def\<close>)
      consider (old) h where "c_heartbeat_task ?c = Some h" "live h ?c"
          "f = Await (StoppingHeartbeat h)" "c' = cancel_task h ?c"
        | (new) "live_task (c_heartbeat_task ?c) ?c = None" "start_receive_task (begin_heartbeat ?c) = (f, c')"
        using r by (auto simp: start_heartbeat_task_def live_task_def split: option.splits if_splits)
      then show ?thesis
      proof cases
        case old
        have "kind_at ?c h = Some HeartTask"
          using held_tasks(1) [OF hc] old(1,2) unfolding tasks_ok_def live_def kind_at_def by fastforce
        then have "calm c' {}" unfolding old(4) by (intro calm_cancel [OF cc]) auto
        moreover have "clean c'" by (rule clean_fields [OF cl]) (simp add: old(4) cancel_task_def)
        ultimately show ?thesis by (simp add: old(3) connects_def)
      next
        case new
        have rc: "receivers_in ?c {}"
          using assms(4) AwaitConnack by (simp add: receivers_in_def kind_at_def connack_accepted_def)
        have ht: "c_http ?c" using assms(3) by (simp add: connack_accepted_def)
        note b = begin_heartbeat_ok [OF hc held_heart [OF hc new(1)] ht rc]
          begin_heartbeat_calm [OF held_tasks(1) [OF hc] cc cl]
        from start_receive_calm [OF b(1,8,9) new(2)] show ?thesis by simp
      qed
    next
      case False
      show ?thesis
        by (rule plain) (use assms(7) False AwaitConnack in \<open>cases x; auto simp: connack_accepted_def\<close>)+
    qed
  next
    case ClosingTimedOut
    then show ?thesis
      by (intro plain) (use assms(7) in \<open>cases x; auto simp: close_socket_def split: option.splits\<close>)+
  next
    case Upgrading
    then show ?thesis by (intro plain) (use assms(7) in \<open>cases x; auto simp: Let_def\<close>)+
  next
    case (Registering force)
    then show ?thesis by (intro plain) (use assms(7) in \<open>cases x; auto\<close>)+
  next
    case Recording
    then show ?thesis by (intro plain) (use assms(7) in \<open>cases x; auto\<close>)+
  next
    case Opening
    then show ?thesis by (intro plain) (use assms(7) in \<open>cases x; auto\<close>)+
  next
    case Sending
    then show ?thesis by (intro plain) (use assms(7) in \<open>cases x; auto\<close>)+
  qed
qed

lemma calm_free: "pursuit c \<Longrightarrow> c_lock c = None \<Longrightarrow> calm c {} \<and> clean c"
  by (auto simp: pursuit_def calm_def clean_def cancel_reason_def gathering_def holder_stops_def)

lemma calm_held:
  assumes "pursuit c" "c_lock c = Some t" "w_tasks c t = Some p" "\<not> gathering_pc p"
  shows "calm c (stops p) \<and> clean c"
  using assms by (auto simp: pursuit_def calm_def clean_def cancel_reason_def gathering_def holder_stops_def)

lemma no_connect_flag: "pursuit c \<Longrightarrow> u \<in> w_cancel c \<Longrightarrow> kind_at c u \<noteq> Some ConnectTask"
  by (simp add: pursuit_def cancel_reason_def)

lemma pursuit_free:
  "calm c {} \<Longrightarrow> clean c \<Longrightarrow> c_lock c = None \<Longrightarrow> pursued c \<Longrightarrow> pursuit c"
  by (auto simp: pursuit_def calm_def clean_def cancel_reason_def)

lemma pursuit_set:
  assumes "c_lock c = Some t" "w_tasks c t = Some p" "kind p' = kind p" "clean c" "clean_end p'"
    "\<And>u. u \<in> w_cancel c \<Longrightarrow> u \<noteq> t \<Longrightarrow> kind_at c u \<noteq> Some ConnectTask \<and>
       (kind_at c u = Some ReconnectTask \<longrightarrow> some_disconnect c \<or> gathering_pc p') \<and>
       (kind_at c u = Some ReceiveTask \<longrightarrow> gathering_pc p' \<or> u \<in> stops p')"
  shows "pursuit (set_pc t p' c)"
proof -
  let ?c = "set_pc t p' c"
  have k: "kind_at ?c = kind_at c" using assms(2,3) by (rule kind_at_set_pc)
  have t: "w_tasks ?c t = Some p'" "c_lock ?c = Some t" using assms(1) by (simp_all add: set_pc_def)
  have "gathering ?c = gathering_pc p'" "holder_stops ?c = stops p'"
    using t by (simp_all add: gathering_def holder_stops_def)
  moreover have "some_disconnect ?c = some_disconnect c" by (simp add: some_disconnect_def k)
  moreover have "w_cancel ?c = w_cancel c - {t}" by (simp add: set_pc_def)
  ultimately have "\<forall>u \<in> w_cancel ?c. cancel_reason ?c u"
    using assms(6) by (auto simp: cancel_reason_def k)
  moreover have "\<forall>u q. w_tasks ?c u = Some q \<longrightarrow> clean_end q"
    using assms(4,5) by (simp add: clean_def set_pc_def)
  moreover have "pursued ?c" using t(2) by (simp add: pursued_def)
  ultimately show ?thesis by (simp add: pursuit_def)
qed

lemma pursuit_hold:
  assumes "held c t" "w_tasks c t = Some p" "kind p' = kind p" "calm c (stops p')" "clean c" "clean_end p'"
  shows "pursuit (set_pc t p' c)"
  by (rule pursuit_set [OF held_tasks(3) [OF assms(1)] assms(2,3,5,6)])
    (use assms(4) in \<open>auto simp: calm_def\<close>)

lemma pursuit_cleanup:
  assumes "held c t" "w_tasks c t = Some p" "kind p' = kind p" "clean c" "clean_end p'"
    "\<And>u. u \<in> w_cancel c \<Longrightarrow> kind_at c u \<noteq> Some ConnectTask" "gathering_pc p' \<or> none_of workers c"
  shows "pursuit (set_pc t p' c)"
  by (rule pursuit_set [OF held_tasks(3) [OF assms(1)] assms(2,3,4,5)])
    (use assms(6,7) in \<open>auto simp: none_of_def\<close>)

lemma calm_none:
  "none_of workers c \<Longrightarrow> (\<And>u. u \<in> w_cancel c \<Longrightarrow> kind_at c u \<noteq> Some ConnectTask) \<Longrightarrow> calm c S"
  by (auto simp: calm_def none_of_def)

lemma calm_finish:
  assumes "calm c S" "kind_at c t \<noteq> Some DisconnectTask \<or> none_of workers c"
  shows "calm (finish t (unlock c)) S" "calm (finish t c) S"
proof -
  have k: "kind_at (unlock c) = kind_at c" by (rule ext) (simp add: kind_at_def unlock_def)
  have w: "w_cancel (finish t (unlock c)) = w_cancel c - {t}" "w_cancel (finish t c) = w_cancel c - {t}"
    by (simp_all add: finish_def unlock_def)
  have "some_disconnect c \<Longrightarrow> kind_at c t \<noteq> Some DisconnectTask \<Longrightarrow> \<exists>u. u \<noteq> t \<and> kind_at c u = Some DisconnectTask"
    by (auto simp: some_disconnect_def)
  then show "calm (finish t (unlock c)) S" "calm (finish t c) S"
    using assms unfolding calm_def w kind_at_finish k some_disconnect_def none_of_def by auto
qed

lemma clean_finish: "clean c \<Longrightarrow> clean (finish t (unlock c))" "clean c \<Longrightarrow> clean (finish t c)"
  by (simp_all add: clean_def finish_def unlock_def)

lemma pursuit_spawn_reconnect:
  assumes "calm c {}" "clean c" "c_lock c = None" "tasks_ok c"
  shows "pursuit (spawn_reconnect c)"
proof (rule pursuit_free)
  show "calm (spawn_reconnect c) {}"
    using assms(1) calm_spawn [OF assms(1,4), of "spawn_reconnect c" ReconnectStart]
    by (auto simp: spawn_reconnect_def spawn_def)
  show "clean (spawn_reconnect c)"
    using assms(2) by (simp add: clean_def spawn_reconnect_def spawn_def)
  show "c_lock (spawn_reconnect c) = None" using assms(3) by (simp add: spawn_reconnect_def)
  show "pursued (spawn_reconnect c)" by (rule pursued_spawn_reconnect)
qed

lemma finalize_resources_flags:
  assumes "held c t" "finalize_resources c = (cp, c1)" "clean c" "receivers_in c {}"
    "\<And>u. u \<in> w_cancel c \<Longrightarrow> kind_at c u \<noteq> Some ConnectTask"
  shows "clean c1" "u \<in> w_cancel c1 \<Longrightarrow> kind_at c1 u \<noteq> Some ConnectTask" "\<exists>ts. cp = Gathering ts"
proof -
  have c1: "cp = Gathering (owned_tasks c)" "c1 = c\<lparr>w_cancel := w_cancel c \<union> set (owned_tasks c)\<rparr>"
    using assms(2) by (simp_all add: finalize_resources_def)
  show "clean c1" by (rule clean_fields [OF assms(3)]) (simp add: c1(2))
  show "\<exists>ts. cp = Gathering ts" using c1(1) by blast
  assume u: "u \<in> w_cancel c1"
  have k: "kind_at c1 u = kind_at c u" by (simp add: kind_at_def c1(2))
  show "kind_at c1 u \<noteq> Some ConnectTask"
  proof (cases "u \<in> w_cancel c")
    case True
    then show ?thesis using assms(5) k by simp
  next
    case False
    then have "u \<in> set (owned_tasks c)" using u by (simp add: c1(2))
    then have l: "live u c" "c_reconnect_task c = Some u \<or> c_heartbeat_task c = Some u \<or> c_recv_task c = Some u"
      by (simp_all add: set_owned_tasks)
    have "kind_at c u \<noteq> None" using l(1) by (simp add: kind_at_def live_def)
    moreover have "kind_at c u \<in> {None, Some ReconnectTask, Some HeartTask, Some ReceiveTask}"
      using l(2) held_tasks(1) [OF assms(1)] unfolding tasks_ok_def by blast
    ultimately show ?thesis using k by auto
  qed
qed

lemma pursued_release:
  assumes "connects Returns c" "w_tasks c t = Some p" "p \<noteq> ReceiveStart"
  shows "pursued (finish t (unlock c))"
proof -
  obtain v where v: "c_recv_task c = Some v" "w_tasks c v = Some ReceiveStart"
    using assms(1) by (auto simp: connects_def)
  then have "v \<noteq> t" using assms(2,3) by auto
  with v have "c_recv_task (finish t (unlock c)) = Some v" "live v (finish t (unlock c))"
    by (simp_all add: live_def finish_def unlock_def)
  then show ?thesis by (auto simp: pursued_def)
qed

lemma pursued_unwanted: "\<not> c_need_reconnect c \<Longrightarrow> pursued c"
  by (simp add: pursued_def)

lemma pursuit_connect_flow:
  assumes "held c t" "w_tasks c t = Some p" "kind p = ConnectTask" "flow_ok f c" "quiet_flow f c"
    "calm c (flow_stops f)" "clean c" "connects f c" "f \<noteq> Raises RaisedCancelled"
  shows "pursuit (connect_flow t (f, c))"
proof (cases f)
  case (Await q)
  then show ?thesis
    using pursuit_hold [OF assms(1,2), of "ConnectRun q"] assms(3,6,7) by (simp add: connect_flow_def)
next
  case Returns
  have "kind_at c t \<noteq> Some DisconnectTask" "p \<noteq> ReceiveStart" using assms(2,3) by (auto simp: kind_at_def)
  then have "pursuit (finish t (unlock c))"
    using assms(2,6-8) Returns
    by (intro pursuit_free calm_finish(1) clean_finish(1) pursued_release [of c t p])
      (simp_all, simp add: unlock_def)
  then show ?thesis using Returns by (simp add: connect_flow_def)
next
  case (Raises e)
  obtain cp c1 where c1: "finalize_resources c = (cp, c1)" by fastforce
  have so: "w_open c \<subseteq> sockets_of c" and rc: "receivers_in c {}"
    using assms(4) Raises by (simp_all add: flow_ok_def)
  note f = finalize_resources_ok [OF assms(1) so rc c1]
  have nc: "\<And>u. u \<in> w_cancel c \<Longrightarrow> kind_at c u \<noteq> Some ConnectTask" using assms(6) by (simp add: calm_def)
  note g = finalize_resources_flags [OF assms(1) c1 assms(7) rc nc]
  have "pursuit (set_pc t (ConnectCleanup cp e False) c1)"
    by (rule pursuit_cleanup [OF f(1), of p]) (use f g assms(2,3,9) Raises in auto)
  then show ?thesis using Raises c1 by (simp add: connect_flow_def)
qed

lemma reconnect_released:
  assumes "w_tasks c t = Some p" "kind p = ReconnectTask" "calm c {}" "clean c"
  shows "calm (reconnect_end t (unlock c)) {}" "clean (reconnect_end t (unlock c))"
    "c_lock (reconnect_end t (unlock c)) = None"
    "some_disconnect c \<or> \<not> c_need_reconnect c \<Longrightarrow> pursued (reconnect_end t (unlock c))"
proof -
  let ?e = "reconnect_end t (unlock c)"
  have w: "w_tasks ?e = w_tasks (finish t (unlock c))" "w_cancel ?e = w_cancel (finish t (unlock c))"
    by (simp_all add: reconnect_end_def finish_def)
  have kd: "kind_at c t \<noteq> Some DisconnectTask" using assms(1,2) by (simp add: kind_at_def)
  show "clean ?e" by (rule clean_fields [OF clean_finish(1) [OF assms(4)] w(1)])
  have "calm (finish t (unlock c)) {}" by (rule calm_finish(1)) (use assms(3) kd in auto)
  then show "calm ?e {}" by (rule calm_fields) (simp_all only: w order_refl)
  show "c_lock ?e = None" by (simp add: reconnect_end_def unlock_def)
  assume "some_disconnect c \<or> \<not> c_need_reconnect c"
  then show "pursued ?e"
  proof
    assume "some_disconnect c"
    then obtain u where "kind_at c u = Some DisconnectTask" by (auto simp: some_disconnect_def)
    moreover from this kd have "u \<noteq> t" by auto
    ultimately have "kind_at ?e u = Some DisconnectTask"
      by (simp add: kind_at_def reconnect_end_def finish_def unlock_def)
    then show ?thesis by (auto simp: pursued_def some_disconnect_def)
  next
    assume "\<not> c_need_reconnect c"
    then show ?thesis by (intro pursued_unwanted) (simp add: reconnect_end_def unlock_def)
  qed
qed

lemma pursuit_reconnect_flow:
  assumes "held c t" "w_tasks c t = Some p" "kind p = ReconnectTask" "flow_ok f c"
    "calm c (flow_stops f)" "clean c" "connects f c"
    "f = Raises RaisedCancelled \<longrightarrow> some_disconnect c"
  shows "pursuit (reconnect_flow t (f, c))"
proof (cases f)
  case (Await q)
  then show ?thesis
    using pursuit_hold [OF assms(1,2), of "ReconnectRun q"] assms(3,5,6) by (simp add: reconnect_flow_def)
next
  case Returns
  then have ca: "calm c {}" using assms(5) by simp
  note e = reconnect_released [OF assms(2,3) ca assms(6)]
  have "pursued (finish t (unlock c))"
    by (rule pursued_release [of c t p]) (use assms(2,3,7) Returns in auto)
  then have "pursued (reconnect_end t (unlock c))"
    by (rule pursued_cong) (simp_all add: reconnect_end_def finish_def)
  then show ?thesis using pursuit_free [OF e(1-3)] Returns by (simp add: reconnect_flow_def)
next
  case (Raises ex)
  then have ca: "calm c {}" using assms(5) by simp
  note e = reconnect_released [OF assms(2,3) ca assms(6)]
  have "kind_at c t = Some ReconnectTask" "live t c"
    using assms(2,3) by (simp_all add: kind_at_def live_def)
  then have r: "c_reconnect_task (unlock c) = Some t" "t < w_next_task (unlock c)"
    using held_tasks(1) [OF assms(1)] unfolding tasks_ok_def by (simp_all add: unlock_def)
  have ok: "conn_ok (reconnect_end t (unlock c))"
    using conn_ok_reconnect_released [OF assms(1)] assms(4) Raises by (simp add: flow_ok_def)
  have sp: "pursuit (spawn_reconnect (reconnect_end t (unlock c)))"
    by (rule pursuit_spawn_reconnect [OF e(1-3) conn_okD(1) [OF ok]])
  have "c_need_reconnect (unlock c) = c_need_reconnect c" by (simp add: unlock_def)
  then have "pursuit (reconnect_end t (unlock c))" if "ex = RaisedCancelled \<or> \<not> c_need_reconnect (unlock c)"
    using that pursuit_free [OF e(1-3) e(4)] assms(8) Raises by auto
  then show ?thesis using sp reconnect_retry [OF r] r(1) by (simp add: reconnect_flow_def Raises Let_def)
qed

lemma pursuit_connect_begin:
  assumes "held c t" "w_tasks c t = Some p" "kind p = ConnectTask" "w_open c = {}"
    "none_of {ReceiveTask, HeartTask} c" "calm c {}" "clean c"
  shows "pursuit (connect_begin t now c)"
proof -
  let ?c = "c\<lparr>c_disconnecting := False, c_http := True, c_need_reconnect := True\<rparr>"
  have k: "kind_at ?c = kind_at c" by (rule ext) (simp add: kind_at_def)
  have h: "held ?c t" by (rule held_update [OF assms(1)]) simp_all
  have r: "receivers_in ?c {}" using assms(5) by (auto simp: receivers_in_def k none_of_def)
  obtain f c' where d: "do_connect now ?c = (f, c')" by fastforce
  have "w_open ?c = {}" using assms(4) by simp
  note o = do_connect_ok [OF h r this d]
  have q: "quiet_flow f c'" using assms(5) by (simp add: quiet_flow_def none_of_def o(5) k)
  have w: "w_tasks c' = w_tasks c" "w_cancel c' = w_cancel c"
    using d by (auto simp: do_connect_def Let_def)
  have f: "flow_stops f = {}" "f \<noteq> Returns" "f \<noteq> Raises RaisedCancelled" using o(4) by auto
  have "pursuit (connect_flow t (f, c'))"
    by (rule pursuit_connect_flow [OF o(1) _ assms(3) o(2) q])
      (use w f assms(2) calm_fields [OF assms(6), of c'] clean_fields [OF assms(7) w(1)]
        in \<open>simp_all add: connects_def\<close>)
  then show ?thesis using d by (simp add: connect_begin_def)
qed

lemma pursuit_disconnect_locked:
  assumes "held c t" "w_tasks c t = Some p" "w_open c \<subseteq> sockets_of c" "receivers_in c {}"
    "disconnect_locked c = (cp, c1)" "q = ConnectReset cp rem \<or> q = DisconnectCleanup cp rem" "kind q = kind p"
    "calm c {}" "clean c"
  shows "pursuit (set_pc t q c1)"
proof -
  let ?c = "c\<lparr>c_need_reconnect := False, c_disconnecting := True, c_connected := False\<rparr>"
  have k: "kind_at ?c = kind_at c" by (rule ext) (simp add: kind_at_def)
  have h: "held ?c t" by (rule held_update [OF assms(1)]) simp_all
  have so: "w_open ?c \<subseteq> sockets_of ?c" and rc: "receivers_in ?c {}"
    using assms(3,4) by (simp add: sockets_of_def, simp add: receivers_in_def k)
  note d = assms(5) [unfolded disconnect_locked_def]
  have cl: "clean ?c" by (rule clean_fields [OF assms(9)]) simp
  have nc: "\<And>u. u \<in> w_cancel ?c \<Longrightarrow> kind_at ?c u \<noteq> Some ConnectTask"
    using assms(8) by (simp add: calm_def k)
  note f = finalize_resources_ok [OF h so rc d]
  note g = finalize_resources_flags [OF h d cl rc nc]
  show ?thesis
    by (rule pursuit_cleanup [OF f(1), of p]) (use f g assms(2,6,7) in auto)
qed

lemma cleanup_gathers: "cleanup_ok cp c \<Longrightarrow> (\<exists>ts. cp = Gathering ts) \<or> none_of workers c"
  by (cases cp) simp_all

lemma acquire_calm:
  assumes "pursuit c" "acquire t c = Some c1"
  shows "calm c1 {}" "clean c1"
proof -
  from assms(2) have l: "c_lock c = None" and c1: "c1 = c\<lparr>c_lock := Some t\<rparr>"
    by (auto simp: acquire_def split: if_splits)
  show "calm c1 {}" "clean c1"
    using calm_free [OF assms(1) l] calm_fields [of c "{}" c1] clean_fields [of c c1] by (simp_all add: c1)
qed

lemma finalize_cancel: "finalize_resume cp x c = Some (f, c') \<Longrightarrow> w_cancel c' = w_cancel c"
  by (cases cp)
    (auto simp: close_session_def close_socket_def Let_def split: if_splits option.splits)

lemma cleanup_step:
  assumes "held c t" "cleanup_ok cp c" "pursuit c" "w_tasks c t = Some p"
    "finalize_resume cp x c = Some (f, c1)"
  shows "held c1 t" "w_tasks c1 t = Some p" "none_of workers c1" "calm c1 S" "clean c1"
    "u \<in> w_cancel c1 \<Longrightarrow> kind_at c1 u \<noteq> Some ConnectTask"
    "same_intent c c1" "cleanup_flow_ok f c1"
proof -
  note o = finalize_resume_ok [OF assms(1,2,5)]
  show "held c1 t" "w_tasks c1 t = Some p" "same_intent c c1" "cleanup_flow_ok f c1"
    using o assms(4) by simp_all
  have w: "w_tasks c1 = w_tasks c" using o by simp
  show n: "none_of workers c1" by (rule finalize_none [OF assms(2,5) w])
  show "clean c1" using assms(3) by (simp add: clean_def pursuit_def w)
  have nc: "kind_at c1 u \<noteq> Some ConnectTask" if "u \<in> w_cancel c1" for u
    using that no_connect_flag [OF assms(3), of u] finalize_cancel [OF assms(5)] by (simp add: kind_at_def w)
  then show "u \<in> w_cancel c1 \<Longrightarrow> kind_at c1 u \<noteq> Some ConnectTask" by simp
  show "calm c1 S" by (rule calm_none [OF n nc])
qed

lemma pursuit_resume_connect:
  assumes "conn_ok c" "pursuit c" "w_tasks c t = Some p" "kind p = ConnectTask"
    "resume_at p t d x c = Some c'" "x = Cancelled \<longleftrightarrow> t \<in> w_cancel c"
  shows "pursuit c'"
proof -
  have x: "x \<noteq> Cancelled"
    using no_connect_flag [OF assms(2), of t] assms(3,4,6) by (auto simp: kind_at_def)
  have ce: "clean_end p" using assms(2,3) by (simp add: pursuit_def)
  show ?thesis
  proof (cases p)
    case ConnectLock
    then obtain c1 where c1: "acquire t c = Some c1" "c' = connect_locked t (d_now d) c1"
      using assms(5) x by (auto split: if_splits)
    have "live t c" using assms(3) by (simp add: live_def)
    note h = held_acquire [OF assms(1) c1(1) this]
    note a = acquire_calm [OF assms(2) c1(1)]
    have w: "w_tasks c1 t = Some p" using assms(3) h(4) by simp
    show ?thesis
    proof (cases "c_http c1 \<or> c_ws c1 \<noteq> None")
      case True
      obtain cp c2 where dl: "disconnect_locked c1 = (cp, c2)" by fastforce
      from pursuit_disconnect_locked [OF h(1) w h(3,2) dl _ _ a, of "ConnectReset cp False" False]
      show ?thesis using c1(2) True dl assms(4) by (simp add: connect_locked_def)
    next
      case False
      then have "w_open c1 = {}" "none_of {ReceiveTask, HeartTask} c1"
        using h(3) held_tasks(2) [OF h(1)] by (simp_all add: sockets_of_def flags_ok_def)
      with pursuit_connect_begin [OF h(1) w assms(4) _ _ a] False c1(2) show ?thesis
        by (simp add: connect_locked_def)
    qed
  next
    case (ConnectReset cp rem)
    have sec: "in_section p" using ConnectReset by simp
    note h = held_of_holder [OF assms(1,3) sec]
    have hp: "held c t" "cleanup_ok cp c" "\<not> c_need_reconnect c" using h ConnectReset by simp_all
    obtain f c1 where f: "finalize_resume cp x c = Some (f, c1)"
      using assms(5) ConnectReset x by (auto split: option.splits)
    note s = cleanup_step [OF hp(1,2) assms(2,3) f]
    have e: "c' = (case f of Await cp' \<Rightarrow> set_pc t (ConnectReset cp' rem) c1
                   | _ \<Rightarrow> if rem then finish t (unlock c1) else connect_begin t (d_now d) c1)"
      using assms(5) ConnectReset x f by (auto split: flow.splits)
    show ?thesis
    proof (cases f)
      case (Await cp')
      have "pursuit (set_pc t (ConnectReset cp' rem) c1)"
        by (rule pursuit_cleanup [OF s(1,2) _ s(5)]) (use s(3,6) assms(4) in simp_all)
      then show ?thesis using e Await by simp
    next
      case Returns
      have "pursuit (finish t (unlock c1))"
        by (rule pursuit_free [OF calm_finish(1) [OF s(4)] clean_finish(1) [OF s(5)]])
          (use s(3,7) hp(3) in \<open>simp_all add: unlock_def pursued_def same_intent_def\<close>)
      moreover have "pursuit (connect_begin t (d_now d) c1)"
        by (rule pursuit_connect_begin [OF s(1,2) assms(4) _ _ s(4,5)])
          (use s(8) Returns in \<open>auto simp: cleanup_flow_ok_def cleaned_def none_of_def\<close>)
      ultimately show ?thesis using e Returns by simp
    next
      case (Raises ex)
      then show ?thesis using s(8) by (simp add: cleanup_flow_ok_def)
    qed
  next
    case (ConnectRun q)
    have sec: "in_section p" using ConnectRun by simp
    note h = held_of_holder [OF assms(1,3) sec]
    have hp: "held c t" "run_ok q c" "c_http c" "none_of {ReceiveTask, HeartTask} c"
      "receivers_in c (run_stops q)"
      using h ConnectRun by simp_all
    have ca: "calm c (run_stops q)" "clean c"
      using calm_held [OF assms(2) held_tasks(3) [OF hp(1)] assms(3)] ConnectRun by simp_all
    obtain f c1 where f: "do_connect_resume q x c = Some (f, c1)" "c' = connect_flow t (f, c1)"
      using assms(5) ConnectRun by auto
    note o = do_connect_resume_ok [OF hp(1,2,3,5) f(1)]
    note oc = do_connect_resume_calm [OF hp(1,2,3,5) ca f(1)]
    have "pursuit (connect_flow t (f, c1))"
      by (rule pursuit_connect_flow [of c1 t p])
        (use o oc hp(4) assms(3,4) x in \<open>simp_all add: keeps_task_def\<close>)
    then show ?thesis using f(2) by simp
  next
    case (ConnectCleanup cp e rem)
    have sec: "in_section p" using ConnectCleanup by simp
    note h = held_of_holder [OF assms(1,3) sec]
    have hp: "held c t" "cleanup_ok cp c" "e = RaisedConflict \<longrightarrow> \<not> c_need_reconnect c"
      using h ConnectCleanup by simp_all
    have re: "\<not> rem" "e \<noteq> RaisedCancelled" using ce ConnectCleanup by simp_all
    obtain f c1 where f: "finalize_resume cp x c = Some (f, c1)"
      using assms(5) ConnectCleanup x by (auto split: option.splits)
    note s = cleanup_step [OF hp(1,2) assms(2,3) f]
    have e': "c' = (case f of Await cp' \<Rightarrow> set_pc t (ConnectCleanup cp' e rem) c1
                   | _ \<Rightarrow> connect_cleaned t e rem c1)"
      using assms(5) ConnectCleanup x f by (auto split: flow.splits)
    show ?thesis
    proof (cases f)
      case (Await cp')
      have "pursuit (set_pc t (ConnectCleanup cp' e rem) c1)"
        by (rule pursuit_cleanup [OF s(1,2) _ s(5)]) (use s(3,6) re assms(4) in simp_all)
      then show ?thesis using e' Await by simp
    next
      case Returns
      let ?d = "finish t (unlock c1)"
      have nd: "kind_at c1 t \<noteq> Some DisconnectTask \<or> none_of workers c1" using s(3) by simp
      have free: "calm ?d {}" "clean ?d" "c_lock ?d = None"
        using calm_finish(1) [OF s(4) nd] clean_finish(1) [OF s(5)] by (simp_all add: unlock_def)
      have rl: "cleaned c1" using s(8) Returns by (simp add: cleanup_flow_ok_def)
      have td: "tasks_ok ?d"
        using tasks_ok_finish [OF tasks_ok_cong [of "unlock c1" c1]] held_tasks(1) [OF s(1)]
        by (simp add: unlock_def)
      have k: "kind_at c1 t = Some ConnectTask" "live t c1"
        using s(2) assms(4) by (simp_all add: kind_at_def live_def)
      have "kind_at c1 t = Some ReconnectTask \<longleftrightarrow> c_reconnect_task c1 = Some t"
        using held_tasks(1) [OF s(1)] unfolding tasks_ok_def by blast
      then have own: "c_reconnect_task c1 \<noteq> Some t" "t < w_next_task c1"
        using k held_tasks(1) [OF s(1)] unfolding tasks_ok_def by simp_all
      have "finish t (unlock (spawn_reconnect c1)) = spawn_reconnect ?d"
        unfolding unlock_spawn_reconnect
        by (rule finish_spawn_reconnect) (use own in \<open>simp_all add: unlock_def\<close>)
      moreover have "pursuit (spawn_reconnect ?d)"
        by (rule pursuit_spawn_reconnect [OF free td])
      moreover have "pursuit ?d" if "\<not> c_need_reconnect c1"
        by (rule pursuit_free [OF free pursued_unwanted]) (simp add: unlock_def that)
      moreover have "c_disconnecting c1 \<longrightarrow> \<not> c_need_reconnect c1"
        using held_tasks(2) [OF s(1)] by (simp add: flags_ok_def)
      moreover have "e = RaisedConflict \<longrightarrow> \<not> c_need_reconnect c1"
        using hp(3) s(7) by (simp add: same_intent_def)
      ultimately have "pursuit (connect_cleaned t e rem c1)"
        using re by (cases e) (auto simp: connect_cleaned_def)
      then show ?thesis using e' Returns by simp
    next
      case (Raises ex)
      then show ?thesis using s(8) by (simp add: cleanup_flow_ok_def)
    qed
  qed (use assms(4) in simp_all)
qed

lemma pursuit_resume_disconnect:
  assumes "conn_ok c" "pursuit c" "w_tasks c t = Some p" "kind p = DisconnectTask"
    "resume_at p t d x c = Some c'"
  shows "pursuit c'"
proof -
  have wait: "pursuit (set_pc t q c)" if "\<not> in_section p" "kind q = DisconnectTask" "clean_end q" for q
  proof (rule pursuit_moves [OF assms(1-3) that(1)])
    show "moves t c (set_pc t q c)" by (rule moves_set_pc [OF that(3)])
    have k: "kind_at (set_pc t q c) t = Some DisconnectTask" by (simp add: kind_at_def set_pc_def that(2))
    then show "kind p = DisconnectTask \<longrightarrow> kind_at (set_pc t q c) t = Some DisconnectTask" by simp
    show "pursued (set_pc t q c)" using k by (auto simp: pursued_def some_disconnect_def)
  qed
  show ?thesis
  proof (cases p)
    case (DisconnectDrain r rem)
    then show ?thesis using wait assms(5) by (auto split: if_splits)
  next
    case (DisconnectLock rem)
    show ?thesis
    proof (cases "x = Cancelled")
      case True
      then have "c' = set_pc t (DisconnectLock True) c" using assms(5) DisconnectLock by simp
      then show ?thesis using wait [of "DisconnectLock True"] DisconnectLock by simp
    next
      case False
      then obtain c0 where c0: "acquire t c = Some c0"
        and e0: "c' = (case disconnect_locked c0 of (cp, c1) \<Rightarrow> set_pc t (DisconnectCleanup cp rem) c1)"
        using assms(5) DisconnectLock by (auto split: if_splits)
      obtain cp c1 where dl: "disconnect_locked c0 = (cp, c1)" by fastforce
      have "live t c" using assms(3) by (simp add: live_def)
      note h = held_acquire [OF assms(1) c0 this]
      have w: "w_tasks c0 t = Some p" using assms(3) h(4) by simp
      from pursuit_disconnect_locked [OF h(1) w h(3,2) dl _ _ acquire_calm [OF assms(2) c0],
          of "DisconnectCleanup cp rem" rem]
      show ?thesis using e0 dl assms(4) by simp
    qed
  next
    case (DisconnectCleanup cp rem)
    have sec: "in_section p" using DisconnectCleanup by simp
    note h = held_of_holder [OF assms(1,3) sec]
    have hp: "held c t" "cleanup_ok cp c" "\<not> c_need_reconnect c" using h DisconnectCleanup by simp_all
    show ?thesis
    proof (cases "x = Cancelled")
      case True
      have "clean c" using assms(2) by (simp add: pursuit_def clean_def)
      moreover have "gathering_pc (DisconnectCleanup cp True) \<or> none_of workers c"
        using cleanup_gathers [OF hp(2)] by auto
      ultimately have "pursuit (set_pc t (DisconnectCleanup cp True) c)"
        by (intro pursuit_cleanup [OF hp(1) assms(3)]) (use assms(2,4) no_connect_flag in simp_all)
      then show ?thesis using True assms(5) DisconnectCleanup by simp
    next
      case False
      then obtain f c1 where f: "finalize_resume cp x c = Some (f, c1)"
        using assms(5) DisconnectCleanup by (auto split: option.splits)
      note s = cleanup_step [OF hp(1,2) assms(2,3) f]
      have e: "c' = (case f of Await cp' \<Rightarrow> set_pc t (DisconnectCleanup cp' rem) c1
                     | _ \<Rightarrow> finish t (unlock c1))"
        using assms(5) DisconnectCleanup False f by (auto split: flow.splits)
      have "pursuit (set_pc t (DisconnectCleanup cp' rem) c1)" for cp'
        by (rule pursuit_cleanup [OF s(1,2) _ s(5)]) (use s(3,6) assms(4) in simp_all)
      moreover have "pursuit (finish t (unlock c1))"
        by (rule pursuit_free [OF calm_finish(1) [OF s(4)] clean_finish(1) [OF s(5)]])
          (use s(3,7) hp(3) in \<open>simp_all add: unlock_def pursued_def same_intent_def\<close>)
      ultimately show ?thesis using e by (cases f) simp_all
    qed
  qed (use assms(4) in simp_all)
qed

lemma pursuit_do_connect:
  assumes "held c t" "w_tasks c t = Some p" "kind p = ReconnectTask" "w_open c = {}"
    "receivers_in c {}" "calm c {}" "clean c"
  shows "pursuit (reconnect_flow t (do_connect now c))"
proof -
  obtain f c' where d: "do_connect now c = (f, c')" by fastforce
  note o = do_connect_ok [OF assms(1,5,4) d]
  have w: "w_tasks c' = w_tasks c" "w_cancel c' = w_cancel c"
    using d by (auto simp: do_connect_def Let_def)
  have f: "flow_stops f = {}" "f \<noteq> Returns" "f \<noteq> Raises RaisedCancelled" using o(4) by auto
  have "pursuit (reconnect_flow t (f, c'))"
    by (rule pursuit_reconnect_flow [OF o(1) _ assms(3) o(2)])
      (use w f assms(2) calm_fields [OF assms(6), of c'] clean_fields [OF assms(7) w(1)]
        in \<open>simp_all add: connects_def\<close>)
  then show ?thesis using d by simp
qed

lemma some_disconnect_end:
  assumes "w_tasks c t = Some p" "kind p \<noteq> DisconnectTask"
  shows "some_disconnect c \<Longrightarrow> some_disconnect (finish t c)"
    "some_disconnect c \<Longrightarrow> some_disconnect (reconnect_end t c)"
proof -
  assume "some_disconnect c"
  then show "some_disconnect (finish t c)"
    using some_disconnect_move [OF assms, of "finish t c"] by (simp add: finish_def)
  moreover have "kind_at (reconnect_end t c) = kind_at (finish t c)"
    by (rule ext) (simp add: kind_at_def reconnect_end_def finish_def)
  ultimately show "some_disconnect (reconnect_end t c)" by (simp add: some_disconnect_def)
qed

lemma moves_reconnect_end: "moves t c (reconnect_end t c)"
  using moves_finish [of t "c\<lparr>c_in_progress := False\<rparr>"] moves_cong [of "c\<lparr>c_in_progress := False\<rparr>" c]
  by (simp add: reconnect_end_def)

lemma pursuit_resume_reconnect:
  assumes "conn_ok c" "pursuit c" "w_tasks c t = Some p" "kind p = ReconnectTask"
    "resume_at p t d x c = Some c'" "x = Cancelled \<longleftrightarrow> t \<in> w_cancel c"
  shows "pursuit c'"
proof -
  have kt: "kind_at c t = Some ReconnectTask" "kind p \<noteq> DisconnectTask" using assms(3,4) by (simp_all add: kind_at_def)
  have rt: "c_reconnect_task c = Some t"
    using conn_okD(1) [OF assms(1)] kt unfolding tasks_ok_def by blast
  have reason: "some_disconnect c \<or> gathering c" if "x = Cancelled"
    using that assms(2,6) kt by (auto simp: pursuit_def cancel_reason_def)
  have by_moves: "pursuit b" if "moves t c b" "pursued b" "\<not> in_section p" for b
    using pursuit_moves [OF assms(1-3) that(3,1) _ that(2)] kt(2) by simp
  have cancelled: "pursued (finish t c)" "pursued (reconnect_end t c)" if "x = Cancelled"
  proof -
    have "some_disconnect c \<or> c_lock c \<noteq> None" using reason [OF that] by (auto simp: gathering_def)
    then show "pursued (finish t c)" "pursued (reconnect_end t c)"
      using some_disconnect_end [OF assms(3) kt(2)] by (auto simp: pursued_def reconnect_end_def)
  qed
  have unwanted: "pursued (finish t c)" "pursued (reconnect_end t c)" if "\<not> c_need_reconnect c"
    using that by (simp_all add: pursued_def reconnect_end_def)
  show ?thesis
  proof (cases p)
    case ReconnectStart
    have ns: "\<not> in_section p" using ReconnectStart by simp
    have ni: "\<not> c_in_progress c" using no_active_reconnect assms(1,3) ReconnectStart by simp
    have fin: "pursuit (finish t c)" if "pursued (finish t c)" using by_moves [OF moves_finish that ns] .
    have "pursuit (reconnect_start t d c)"
    proof (cases "c_need_reconnect c")
      case False
      then show ?thesis using fin unwanted(1) ni by (simp add: reconnect_start_def)
    next
      case True
      show ?thesis
      proof (cases "reconnect_delay (c_attempts c) (d_jitter d) (d_stagger d)")
        case None
        have "moves t c (reconnect_end t (c\<lparr>c_in_progress := True\<rparr>))"
          using moves_reconnect_end [of t "c\<lparr>c_in_progress := True\<rparr>"] moves_cong [of "c\<lparr>c_in_progress := True\<rparr>" c]
          by simp
        moreover have "c_attempts c \<ge> 1024" using None by (simp add: reconnect_delay_def split: if_splits)
        then have "pursued (reconnect_end t (c\<lparr>c_in_progress := True\<rparr>))"
          by (simp add: pursued_def reconnect_end_def)
        ultimately show ?thesis
          using by_moves ns True ni None by (simp add: reconnect_start_def)
      next
        case (Some dl)
        let ?c = "c\<lparr>c_in_progress := True, c_attempts := c_attempts c + 1\<rparr>"
        have "moves t c (set_pc t (ReconnectSleep dl) ?c)"
          using moves_set_pc [of "ReconnectSleep dl" t ?c] moves_cong [of ?c c] by simp
        moreover have "pursued (set_pc t (ReconnectSleep dl) ?c)" using rt by (simp add: pursued_def)
        ultimately show ?thesis using by_moves ns True ni Some by (simp add: reconnect_start_def)
      qed
    qed
    then show ?thesis
      using assms(5) ReconnectStart fin cancelled(1) by (auto split: if_splits)
  next
    case (ReconnectSleep dl)
    have ns: "\<not> in_section p" using ReconnectSleep by simp
    have "pursued (set_pc t ReconnectLock c)" using rt by (simp add: pursued_def)
    then have "pursuit (set_pc t ReconnectLock c)" using by_moves [OF moves_set_pc _ ns] by simp
    moreover have "pursuit (reconnect_end t c)" if "pursued (reconnect_end t c)"
      using by_moves [OF moves_reconnect_end that ns] .
    ultimately show ?thesis
      using assms(5) ReconnectSleep cancelled(2) unwanted(2) by (auto split: if_splits)
  next
    case ReconnectLock
    have ns: "\<not> in_section p" using ReconnectLock by simp
    show ?thesis
    proof (cases "x = Cancelled")
      case True
      then show ?thesis
        using assms(5) ReconnectLock by_moves [OF moves_reconnect_end cancelled(2) ns] by simp
    next
      case False
      then obtain c1 where c1: "acquire t c = Some c1" "c' = reconnect_locked t (d_now d) c1"
        using assms(5) ReconnectLock by (auto split: if_splits)
      have "live t c" using assms(3) by (simp add: live_def)
      note h = held_acquire [OF assms(1) c1(1) this]
      note a = acquire_calm [OF assms(2) c1(1)]
      have w: "w_tasks c1 t = Some p" using assms(3) h(4) by simp
      have "pursuit (set_pc t ReconnectClose c1)"
        by (rule pursuit_hold [OF h(1) w]) (use a assms(4) in simp_all)
      moreover have "pursuit (reconnect_flow t (do_connect (d_now d) c1))" if "c_ws c1 = None"
        by (rule pursuit_do_connect [OF h(1) w assms(4) _ h(2) a])
          (use that h(3) in \<open>simp add: sockets_of_def\<close>)
      moreover have "pursuit (reconnect_end t (unlock c1))" if "\<not> c_need_reconnect c1"
        using pursuit_free [OF reconnect_released(1-3) [OF w assms(4) a]]
          reconnect_released(4) [OF w assms(4) a] that by simp
      ultimately show ?thesis using c1(2) by (auto simp: reconnect_locked_def)
    qed
  next
    case ReconnectClose
    have sec: "in_section p" using ReconnectClose by simp
    note h = held_of_holder [OF assms(1,3) sec]
    have hp: "held c t" "w_open c \<subseteq> sockets_of c" "receivers_in c {}" using h ReconnectClose by simp_all
    have ca: "calm c {}" "clean c"
      using calm_held [OF assms(2) held_tasks(3) [OF hp(1)] assms(3)] ReconnectClose by simp_all
    show ?thesis
    proof (cases "x = Cancelled")
      case True
      have "\<not> gathering c"
        using held_tasks(3) [OF hp(1)] assms(3) ReconnectClose by (simp add: gathering_def)
      then have "some_disconnect c" using reason [OF True] by simp
      then show ?thesis
        using pursuit_free [OF reconnect_released(1-3) [OF assms(3,4) ca]]
          reconnect_released(4) [OF assms(3,4) ca] True assms(5) ReconnectClose by simp
    next
      case False
      then obtain s where s: "c_ws c = Some s"
        "c' = reconnect_flow t (do_connect (d_now d) (close_socket s c\<lparr>c_ws := None\<rparr>))"
        using assms(5) ReconnectClose by (auto split: if_splits)
      let ?c = "close_socket s c\<lparr>c_ws := None\<rparr>"
      have k: "kind_at ?c = kind_at c" by (rule ext) (simp add: kind_at_def close_socket_def)
      have hc: "held ?c t"
        by (rule held_update [OF hp(1)])
          (use held_tasks(2) [OF hp(1)] in \<open>simp_all add: close_socket_def flags_ok_def\<close>)
      have "receivers_in ?c {}" using hp(3) by (simp add: receivers_in_def k, simp add: close_socket_def)
      moreover have "w_open ?c = {}" using hp(2) s(1) by (auto simp: close_socket_def sockets_of_def)
      moreover have "calm ?c {}" by (rule calm_fields [OF ca(1)]) (simp_all add: close_socket_def)
      moreover have "clean ?c" by (rule clean_fields [OF ca(2)]) (simp add: close_socket_def)
      moreover have "w_tasks ?c t = Some p" using assms(3) by (simp add: close_socket_def)
      ultimately show ?thesis using pursuit_do_connect [OF hc _ assms(4)] s(2) by simp
    qed
  next
    case (ReconnectRun q)
    have sec: "in_section p" using ReconnectRun by simp
    note h = held_of_holder [OF assms(1,3) sec]
    have hp: "held c t" "run_ok q c" "c_http c" "receivers_in c (run_stops q)"
      using h ReconnectRun by simp_all
    have ca: "calm c (run_stops q)" "clean c"
      using calm_held [OF assms(2) held_tasks(3) [OF hp(1)] assms(3)] ReconnectRun by simp_all
    obtain f c1 where f: "do_connect_resume q x c = Some (f, c1)" "c' = reconnect_flow t (f, c1)"
      using assms(5) ReconnectRun by auto
    note o = do_connect_resume_ok [OF hp f(1)]
    note oc = do_connect_resume_calm [OF hp ca f(1)]
    have "some_disconnect c1" if "f = Raises RaisedCancelled"
    proof -
      have "x = Cancelled" using that oc by simp
      moreover have "\<not> gathering c"
        using held_tasks(3) [OF hp(1)] assms(3) ReconnectRun by (simp add: gathering_def)
      ultimately have "some_disconnect c" using reason by simp
      moreover have "w_tasks c1 = w_tasks c"
        using f(1) that by (cases q; cases x) (auto simp: start_heartbeat_task_def start_receive_task_def
            close_socket_def connack_accepted_def Let_def split: option.splits if_splits)
      ultimately show ?thesis by (simp add: some_disconnect_def kind_at_def)
    qed
    then have "pursuit (reconnect_flow t (f, c1))"
      by (intro pursuit_reconnect_flow [of c1 t p]) (use o oc assms(3,4) in \<open>simp_all add: keeps_task_def\<close>)
    then show ?thesis using f(2) by simp
  qed (use assms(4) in simp_all)
qed

lemma pursuit_spawn_call:
  assumes "conn_ok c" "\<forall>t \<in> w_cancel c. cancel_reason c t \<or> some_disconnect (spawn p c) \<and> kind_at c t = Some ReconnectTask"
    "clean c" "is_call p" "\<not> in_section p" "clean_end p" "pursued (spawn p c)"
  shows "pursuit (spawn p c)"
proof -
  let ?c = "spawn p c"
  note fresh = next_task_fresh [OF conn_okD(1) [OF assms(1)]]
  have k: "kind_at ?c u = kind_at c u" if "u \<in> w_cancel c" for u
    using that fresh(3) by (auto simp: kind_at_spawn)
  have keep: "w_tasks ?c h = w_tasks c h" if "c_lock c = Some h" for h
    using holder_kind [OF assms(1) that] fresh(1) by (auto simp: spawn_def)
  have g: "gathering ?c = gathering c" unfolding gathering_def spawn_fields using keep by metis
  have s: "holder_stops ?c = holder_stops c"
    using keep by (auto simp: holder_stops_def split: option.splits)
  have "some_disconnect c \<Longrightarrow> some_disconnect ?c"
    using fresh(2) unfolding some_disconnect_def kind_at_spawn
    by (metis fun_upd_other option.distinct(1))
  moreover have "w_cancel ?c = w_cancel c" by (simp add: spawn_def)
  ultimately have "\<forall>u \<in> w_cancel ?c. cancel_reason ?c u"
    using assms(2) k unfolding cancel_reason_def g s by auto
  moreover have "\<forall>u q. w_tasks ?c u = Some q \<longrightarrow> clean_end q"
    using assms(3,6) by (simp add: clean_def spawn_def)
  ultimately show ?thesis using assms(7) by (simp add: pursuit_def)
qed

lemma pursuit_step:
  assumes "conn_ok c" "pursuit c" "conn_step e c = Some c'" "\<forall>t. e \<noteq> CancelCall t"
  shows "pursuit c'"
proof (cases e)
  case StartConnect
  have "w_tasks (spawn ConnectLock c) (w_next_task c) = Some ConnectLock" by (simp add: spawn_def)
  then have "pursued (spawn ConnectLock c)" by (auto simp: pursued_def)
  then have "pursuit (spawn ConnectLock c)"
    by (intro pursuit_spawn_call [OF assms(1)]) (use assms(2) in \<open>auto simp: pursuit_def clean_def\<close>)
  then show ?thesis using StartConnect assms(3) by simp
next
  case StartDisconnect
  let ?c = "c\<lparr>c_need_reconnect := False, c_disconnecting := True\<rparr>"
  have ok: "conn_ok ?c" by (rule conn_ok_less [OF assms(1)]) simp_all
  have k: "kind_at ?c = kind_at c" by (rule ext) (simp add: kind_at_def)
  have cl: "clean ?c" using assms(2) by (simp add: pursuit_def clean_def)
  have "gathering ?c = gathering c" "holder_stops ?c = holder_stops c" "some_disconnect ?c = some_disconnect c"
    by (simp_all add: gathering_def holder_stops_cong [of ?c c] some_disconnect_def k)
  then have cr: "cancel_reason ?c u" if "u \<in> w_cancel c" for u
    using assms(2) that by (simp add: pursuit_def cancel_reason_def k)
  show ?thesis
  proof (cases "live_task (c_reconnect_task ?c) ?c")
    case None
    have "pursuit (spawn (DisconnectLock False) ?c)"
      by (rule pursuit_spawn_call [OF ok _ cl]) (use cr in \<open>auto simp: pursued_def\<close>)
    then show ?thesis using StartDisconnect assms(3) None by (simp add: disconnect_call_def Let_def)
  next
    case (Some r)
    then have r: "live r ?c" "c_reconnect_task c = Some r"
      by (auto simp: live_task_def split: option.splits if_splits)
    let ?d = "cancel_task r ?c"
    have kd: "kind_at ?d = kind_at ?c" by (rule ext) (simp add: kind_at_def cancel_task_def)
    have kr: "kind_at c r = Some ReconnectTask"
      using r(2) conn_okD(1) [OF assms(1)] unfolding tasks_ok_def by blast
    have "some_disconnect ?d = some_disconnect ?c" unfolding some_disconnect_def kd ..
    moreover have "gathering ?d = gathering ?c" "holder_stops ?d = holder_stops ?c"
      by (simp add: gathering_def cancel_task_def, rule holder_stops_cong) (simp_all add: cancel_task_def)
    ultimately have crd: "cancel_reason ?d u" if "u \<in> w_cancel c" for u
      using cr [OF that] by (simp add: cancel_reason_def kd)
    have "kind_at (spawn (DisconnectDrain r False) ?d) (w_next_task ?d) = Some DisconnectTask"
      by (simp add: kind_at_spawn)
    then have sd: "some_disconnect (spawn (DisconnectDrain r False) ?d)" unfolding some_disconnect_def by blast
    have fl: "\<forall>u \<in> w_cancel ?d. cancel_reason ?d u \<or>
        some_disconnect (spawn (DisconnectDrain r False) ?d) \<and> kind_at ?d u = Some ReconnectTask"
    proof
      fix u assume "u \<in> w_cancel ?d"
      then have "u = r \<or> u \<in> w_cancel c" by (simp add: cancel_task_def)
      then show "cancel_reason ?d u \<or>
          some_disconnect (spawn (DisconnectDrain r False) ?d) \<and> kind_at ?d u = Some ReconnectTask"
        using crd sd kr by (auto simp: kd k)
    qed
    have cd: "clean ?d" by (rule clean_fields [OF cl]) (simp add: cancel_task_def)
    have "pursuit (spawn (DisconnectDrain r False) ?d)"
      by (rule pursuit_spawn_call [OF conn_ok_cancel [OF ok r(1)] fl cd])
        (use sd in \<open>simp_all add: pursued_def\<close>)
    then show ?thesis using StartDisconnect assms(3) Some by (simp add: disconnect_call_def Let_def)
  qed
next
  case (Resume t d x)
  then obtain p where p: "w_tasks c t = Some p" "resume_at p t d x c = Some c'" "x = Cancelled \<longleftrightarrow> t \<in> w_cancel c"
    using assms(3) by (auto simp: resume_def split: option.splits if_splits)
  show ?thesis
    using pursuit_resume_connect [OF assms(1,2) p(1) _ p(2,3)]
      pursuit_resume_disconnect [OF assms(1,2) p(1) _ p(2)]
      pursuit_resume_reconnect [OF assms(1,2) p(1) _ p(2,3)]
      pursuit_resume_receive [OF assms(1,2) p(1) _ p(2,3)]
      pursuit_resume_heart [OF assms(1,2) p(1) _ p(2)]
    by (cases "kind p") blast+
next
  case (CancelCall t)
  with assms(4) show ?thesis by blast
next
  case (Dropped s)
  then have c': "c' = close_socket s c" using assms(3) by simp
  have f: "w_tasks c' = w_tasks c" "c_lock c' = c_lock c" "w_cancel c' = w_cancel c"
    by (simp_all add: c' close_socket_def)
  have k: "kind_at c' = kind_at c" by (rule ext) (simp add: kind_at_def f)
  have "pursued c'" by (rule pursued_cong [of c]) (use assms(2) in \<open>simp_all add: pursuit_def c' close_socket_def\<close>)
  moreover have "cancel_reason c' u = cancel_reason c u" for u
    by (simp add: cancel_reason_def k gathering_def some_disconnect_def holder_stops_cong [of c' c] f)
  ultimately show ?thesis using assms(2) by (simp add: pursuit_def f)
qed

definition connecting :: "int \<Rightarrow> conn" where
  \<comment> \<open>a new runtime on which \<open>connect\<close> has been called\<close>
  "connecting m = spawn ConnectLock (new_runtime m)"

lemma connecting_ok: "conn_ok (connecting m) \<and> pursuit (connecting m)"
proof
  show "conn_ok (connecting m)"
    unfolding connecting_def by (rule conn_ok_spawn_call [OF new_runtime_ok]) simp_all
  have "w_tasks (connecting m) 0 = Some ConnectLock" "w_cancel (connecting m) = {}"
    by (simp_all add: connecting_def spawn_def new_runtime_def)
  then show "pursuit (connecting m)"
    by (auto simp: pursuit_def pursued_def connecting_def spawn_def new_runtime_def split: if_splits)
qed

interpretation pursuing: conn_invariant "\<lambda>e. \<forall>t. e \<noteq> CancelCall t" "\<lambda>c. conn_ok c \<and> pursuit c"
  by unfold_locales (use conn_step_ok pursuit_step in blast)

end
