(* ===== verification/ConnectionRefused.thy ===== *)
theory ConnectionRefused
  imports ConnectionPursuit
begin

text \<open>
  A server that accepts nothing. From a call of \<open>connect\<close> on there is one task at a time, first the
  call and then one reconnect task after the other (\<open>refused_at\<close>); every step of it leaves fewer
  steps (\<open>gives_up\<close>), and the only ends are a conflict at the registration and the overflow of
  the delay after 1024 attempts.
\<close>

section \<open>One task at a time\<close>

definition refused :: "conn_event \<Rightarrow> bool" where
  \<comment> \<open>a task goes on, and the server does not accept the connection\<close>
  "refused e \<longleftrightarrow> (\<exists>t d x. e = Resume t d x \<and> x \<noteq> Accepted \<and> x \<noteq> AcceptedThenFails)"

fun dialling :: "connect_pc \<Rightarrow> conn \<Rightarrow> nat option" where
  \<comment> \<open>the steps that are left of a handshake that is not accepted\<close>
  "dialling (Registering f) c = Some 7"
| "dialling Recording c = Some 6"
| "dialling Opening c = Some 5"
| "dialling Upgrading c = Some 4"
| "dialling Sending c = (if c_ws c = None then None else Some 3)"
| "dialling AwaitConnack c = (if c_ws c = None then None else Some 2)"
| "dialling ClosingTimedOut c = (if c_ws c = None then None else Some 1)"
| "dialling _ c = None"

fun cleaning :: "cleanup_pc \<Rightarrow> nat option" where
  "cleaning (Gathering ts) = (if ts = [] then Some 3 else None)"
| "cleaning (ClosingSocket s) = Some 2"
| "cleaning ClosingSession = Some 1"

fun refused_at :: "tid \<Rightarrow> pc \<Rightarrow> conn \<Rightarrow> nat option" where
  \<comment> \<open>the state of the only task, and the steps that are left to the next attempt\<close>
  "refused_at t ConnectLock c =
     (if c_attempts c = 0 \<and> c_need_reconnect c \<and> \<not> c_http c \<and> c_ws c = None \<and> c_lock c = None \<and>
         c_reconnect_task c = None \<and> \<not> c_in_progress c then Some 13 else None)"
| "refused_at t (ConnectRun p) c =
     (if c_attempts c = 0 \<and> c_need_reconnect c \<and> c_reconnect_task c = None \<and> \<not> c_in_progress c
      then map_option (\<lambda>n. n + 5) (dialling p c) else None)"
| "refused_at t (ConnectCleanup cp e rem) c =
     (if c_attempts c = 0 \<and> \<not> rem \<and> (e = RaisedError \<and> c_need_reconnect c \<or> e = RaisedConflict \<and> \<not> c_need_reconnect c) \<and>
         c_reconnect_task c = None \<and> \<not> c_in_progress c then map_option (\<lambda>n. n + 2) (cleaning cp) else None)"
| "refused_at t ReconnectStart c =
     (if c_need_reconnect c \<and> \<not> c_in_progress c \<and> c_lock c = None \<and> c_reconnect_task c = Some t then Some 1 else None)"
| "refused_at t (ReconnectSleep d) c =
     (if c_need_reconnect c \<and> c_lock c = None \<and> c_reconnect_task c = Some t then Some 12 else None)"
| "refused_at t ReconnectLock c =
     (if c_need_reconnect c \<and> c_lock c = None \<and> c_reconnect_task c = Some t then Some 11 else None)"
| "refused_at t ReconnectClose c =
     (if c_need_reconnect c \<and> c_ws c \<noteq> None \<and> c_reconnect_task c = Some t then Some 10 else None)"
| "refused_at t (ReconnectRun p) c =
     (if c_need_reconnect c \<and> c_reconnect_task c = Some t then map_option (\<lambda>n. n + 2) (dialling p c) else None)"
| "refused_at t _ c = None"

definition gives_up :: "nat \<Rightarrow> conn \<Rightarrow> bool" where
  \<comment> \<open>at most \<open>n\<close> steps are left\<close>
  "gives_up n c \<longleftrightarrow>
     w_cancel c = {} \<and> \<not> c_disconnecting c \<and> c_heartbeat_task c = None \<and> c_recv_task c = None \<and> c_attempts c \<le> 1024 \<and>
     ((\<forall>t. w_tasks c t = None) \<and> (c_need_reconnect c \<longrightarrow> c_attempts c = 1024) \<or>
      (\<exists>t p k. w_tasks c = (\<lambda>_. None)(t := Some p) \<and> t < w_next_task c \<and> refused_at t p c = Some k \<and>
         n = (1024 - c_attempts c) * 13 + k))"

lemma gives_upI:
  assumes "w_cancel c = {}" "\<not> c_disconnecting c" "c_heartbeat_task c = None" "c_recv_task c = None" "c_attempts c \<le> 1024"
    and "w_tasks c = (\<lambda>_. None)(t := Some p)" "t < w_next_task c" "refused_at t p c = Some k"
    and "(1024 - c_attempts c) * 13 + k < n"
  shows "\<exists>n'<n. gives_up n' c"
  using assms unfolding gives_up_def by blast

lemma gives_up_doneI:
  assumes "w_cancel c = {}" "\<not> c_disconnecting c" "c_heartbeat_task c = None" "c_recv_task c = None" "c_attempts c \<le> 1024"
    and "\<forall>t. w_tasks c t = None" "c_need_reconnect c \<longrightarrow> c_attempts c = 1024" "0 < n"
  shows "\<exists>n'<n. gives_up n' c"
  using assms unfolding gives_up_def by blast

lemmas give_up_eval =
  resume_def acquire_def connect_locked_def connect_begin_def connect_flow_def do_connect_def Let_def
  finalize_resources_def owned_tasks_def List.map_filter_simps connect_cleaned_def close_session_def close_socket_def
  set_pc_def finish_def spawn_reconnect_def spawn_def unlock_def live_task_def live_def
  reconnect_start_def reconnect_delay_def reconnect_locked_def reconnect_flow_def reconnect_end_def


definition same_tasks :: "conn \<Rightarrow> conn \<Rightarrow> bool" where
  "same_tasks c c1 \<longleftrightarrow> w_tasks c1 = w_tasks c \<and> w_cancel c1 = w_cancel c \<and> w_next_task c1 = w_next_task c \<and>
     c_disconnecting c1 = c_disconnecting c \<and> c_heartbeat_task c1 = c_heartbeat_task c \<and> c_recv_task c1 = c_recv_task c \<and>
     c_attempts c1 = c_attempts c \<and> c_in_progress c1 = c_in_progress c \<and> c_reconnect_task c1 = c_reconnect_task c"

lemma dialling_step:
  assumes "dialling q c = Some k" "do_connect_resume q x c = Some (f, c1)"
    and "x \<noteq> Accepted" "x \<noteq> AcceptedThenFails" "x \<noteq> Cancelled"
  shows "same_tasks c c1 \<and>
    ((\<exists>q' k'. f = Await q' \<and> dialling q' c1 = Some k' \<and> k' < k \<and> c_need_reconnect c1 = c_need_reconnect c) \<or>
     f = Raises RaisedError \<and> c_need_reconnect c1 = c_need_reconnect c \<or> f = Raises RaisedConflict \<and> \<not> c_need_reconnect c1)"
  using assms
  by (cases q; cases x) (auto simp: same_tasks_def close_socket_def Let_def split: if_splits option.splits)

lemma dialling_pos: "dialling q c = Some k \<Longrightarrow> 0 < k"
  by (cases q) (auto split: if_splits)

lemma dialling_cong: "dialling q (c\<lparr>w_tasks := ts, w_cancel := s\<rparr>) = dialling q c"
  by (cases q) auto

lemma gives_up_call:
  assumes "w_tasks c = (\<lambda>_. None)(t := Some p)" "t < w_next_task c" "refused_at t p c = Some k"
    and g: "w_cancel c = {}" "\<not> c_disconnecting c" "c_heartbeat_task c = None" "c_recv_task c = None" "c_attempts c \<le> 1024"
    and x: "x \<noteq> Cancelled" "x \<noteq> Accepted" "x \<noteq> AcceptedThenFails" "resume_at p t d x c = Some c'"
    and p: "p = ConnectLock \<or> (\<exists>q. p = ConnectRun q) \<or> (\<exists>cp e. p = ConnectCleanup cp e rem)"
  shows "\<exists>n'<(1024 - c_attempts c) * 13 + k. gives_up n' c'"
  using p
proof (elim disjE exE)
  assume l: "p = ConnectLock"
  show ?thesis
    by (rule gives_upI[where t = t and k = 12 and p = "ConnectRun (Registering (should_force_refresh (d_now d)
           (c\<lparr>c_lock := Some t, c_disconnecting := False, c_http := True, c_need_reconnect := True\<rparr>)))"])
       (use assms(1-9) x(4) in \<open>auto simp: l give_up_eval split: if_splits\<close>)
next
  fix q assume l: "p = ConnectRun q"
  obtain f c1 where f: "do_connect_resume q x c = Some (f, c1)" "c' = connect_flow t (f, c1)"
    using x(4) l by auto
  obtain k0 where k0: "dialling q c = Some k0" "k = k0 + 5" using assms(3) l by (auto split: if_splits)
  note pos = dialling_pos[OF k0(1)]
  have at: "c_attempts c = 0" "c_need_reconnect c" "c_reconnect_task c = None" "\<not> c_in_progress c"
    using assms(3) l by (auto split: if_splits)
  note st = dialling_step[OF k0(1) f(1) x(2,3,1)]
  note sm = st[THEN conjunct1, unfolded same_tasks_def]
  from st[THEN conjunct2] show ?thesis
  proof (elim disjE exE conjE)
    fix q' k' assume h: "f = Await q'" "dialling q' c1 = Some k'" "k' < k0" "c_need_reconnect c1 = c_need_reconnect c"
    show ?thesis
      by (intro gives_upI[where t = t and p = "ConnectRun q'" and k = "k' + 5"])
         (use h sm at k0 pos g assms(1,2) f(2) in \<open>auto simp: connect_flow_def set_pc_def dialling_cong\<close>)
  next
    assume h: "f = Raises RaisedError" "c_need_reconnect c1 = c_need_reconnect c"
    show ?thesis
      by (rule gives_upI[where t = t and p = "ConnectCleanup (Gathering []) RaisedError False" and k = 5])
         (use h sm at k0 pos g assms(1,2) f(2) in \<open>auto simp: give_up_eval\<close>)
  next
    assume h: "f = Raises RaisedConflict" "\<not> c_need_reconnect c1"
    show ?thesis
      by (rule gives_upI[where t = t and p = "ConnectCleanup (Gathering []) RaisedConflict False" and k = 5])
         (use h sm at k0 pos g assms(1,2) f(2) in \<open>auto simp: give_up_eval\<close>)
  qed
next
  fix cp e assume l: "p = ConnectCleanup cp e rem"
  obtain k0 where k0: "cleaning cp = Some k0" "k = k0 + 2" using assms(3) l by (auto split: if_splits)
  have at: "c_attempts c = 0" "c_reconnect_task c = None" "\<not> c_in_progress c" "\<not> rem"
    "e = RaisedError \<and> c_need_reconnect c \<or> e = RaisedConflict \<and> \<not> c_need_reconnect c"
    using assms(3) l by (auto split: if_splits)
  obtain f c1 where f: "finalize_resume cp x c = Some (f, c1)" using x(4) l x(1) by (auto split: option.splits)
  have st: "same_tasks c c1 \<and> c_need_reconnect c1 = c_need_reconnect c \<and>
      ((\<exists>cp' k'. f = Await cp' \<and> cleaning cp' = Some k' \<and> k' < k0) \<or> f = Returns)"
    using k0(1) f g(3,4) at(2)
    by (cases cp) (auto simp: same_tasks_def close_session_def close_socket_def Let_def split: if_splits option.splits)
  note sm = st[THEN conjunct1, unfolded same_tasks_def]
  from st[THEN conjunct2, THEN conjunct2] show ?thesis
  proof (elim disjE exE conjE)
    fix cp' k' assume h: "f = Await cp'" "cleaning cp' = Some k'" "k' < k0"
    show ?thesis
      by (rule gives_upI[where t = t and p = "ConnectCleanup cp' e rem" and k = "k' + 2"])
         (use h sm st at k0 g assms(1,2) x(1,4) f l in \<open>auto simp: set_pc_def\<close>)
  next
    assume h: "f = Returns"
    show ?thesis
    proof (cases "c_need_reconnect c")
      case True
      show ?thesis
        by (rule gives_upI[where t = "w_next_task c" and p = ReconnectStart and k = 1])
           (use h sm st at k0 g assms(1,2) x(1,4) f l True in \<open>auto simp: connect_cleaned_def spawn_reconnect_def
              spawn_def live_task_def unlock_def finish_def\<close>)
    next
      case False
      show ?thesis
        by (rule gives_up_doneI)
           (use h sm st at k0 g assms(1,2) x(1,4) f l False in \<open>auto simp: connect_cleaned_def unlock_def finish_def\<close>)
    qed
  qed
qed

lemma gives_up_reconnect:
  assumes "w_tasks c = (\<lambda>_. None)(t := Some p)" "t < w_next_task c" "refused_at t p c = Some k"
    and g: "w_cancel c = {}" "\<not> c_disconnecting c" "c_heartbeat_task c = None" "c_recv_task c = None" "c_attempts c \<le> 1024"
    and x: "x \<noteq> Cancelled" "x \<noteq> Accepted" "x \<noteq> AcceptedThenFails" "resume_at p t d x c = Some c'"
    and p: "p = ReconnectStart \<or> (\<exists>r. p = ReconnectSleep r) \<or> p = ReconnectLock \<or> p = ReconnectClose \<or> (\<exists>q. p = ReconnectRun q)"
  shows "\<exists>n'<(1024 - c_attempts c) * 13 + k. gives_up n' c'"
  using p
proof (elim disjE exE)
  assume l: "p = ReconnectStart"
  have x': "x = Done" "c' = reconnect_start t d c" using x(1,4) l by (auto split: if_splits)
  show ?thesis
  proof (cases "c_attempts c < 1024")
    case True
    then show ?thesis
      by (intro gives_upI[where t = t and k = 12 and p = "ReconnectSleep
            (min (3 * 2 ^ c_attempts c) 60 * (3 / 4 + d_jitter d / 2) + d_stagger d * 5)"])
         (use x' l g assms(1-3) in \<open>auto simp: reconnect_start_def reconnect_delay_def set_pc_def split: if_splits\<close>)
  next
    case False
    then show ?thesis
      by (intro gives_up_doneI)
         (use x' l g assms(1-3) in \<open>auto simp: reconnect_start_def reconnect_delay_def reconnect_end_def finish_def split: if_splits\<close>)
  qed
next
  fix r assume l: "p = ReconnectSleep r"
  show ?thesis
    by (rule gives_upI[where t = t and k = 11 and p = ReconnectLock])
       (use x l g assms(1-3) in \<open>auto simp: set_pc_def split: if_splits\<close>)
next
  assume l: "p = ReconnectLock"
  have x': "x = Done" "c' = reconnect_locked t (d_now d) (c\<lparr>c_lock := Some t\<rparr>)"
    using x(1,4) l by (auto simp: acquire_def split: if_splits)
  show ?thesis
  proof (cases "c_ws c = None")
    case True
    then show ?thesis
      by (intro gives_upI[where t = t and k = 9 and p = "ReconnectRun (Registering (should_force_refresh (d_now d) (c\<lparr>c_lock := Some t\<rparr>)))"])
         (use x' l g assms(1-3) in \<open>auto simp: give_up_eval split: if_splits\<close>)
  next
    case False
    then show ?thesis
      by (intro gives_upI[where t = t and k = 10 and p = ReconnectClose])
         (use x' l g assms(1-3) in \<open>auto simp: give_up_eval split: if_splits\<close>)
  qed
next
  assume l: "p = ReconnectClose"
  obtain s where s: "c_ws c = Some s" using assms(3) l by (auto split: if_splits)
  show ?thesis
    by (rule gives_upI[where t = t and k = 9 and p = "ReconnectRun (Registering (should_force_refresh (d_now d) (close_socket s c\<lparr>c_ws := None\<rparr>)))"])
       (use x l g s assms(1-3) in \<open>auto simp: give_up_eval split: if_splits\<close>)
next
  fix q assume l: "p = ReconnectRun q"
  obtain f c1 where f: "do_connect_resume q x c = Some (f, c1)" "c' = reconnect_flow t (f, c1)"
    using x(4) l by auto
  obtain k0 where k0: "dialling q c = Some k0" "k = k0 + 2" using assms(3) l by (auto split: if_splits)
  have at: "c_need_reconnect c" "c_reconnect_task c = Some t" using assms(3) l by (auto split: if_splits)
  note st = dialling_step[OF k0(1) f(1) x(2,3,1)]
  note sm = st[THEN conjunct1, unfolded same_tasks_def]
  from st[THEN conjunct2] show ?thesis
  proof (elim disjE exE conjE)
    fix q' k' assume h: "f = Await q'" "dialling q' c1 = Some k'" "k' < k0" "c_need_reconnect c1 = c_need_reconnect c"
    show ?thesis
      by (intro gives_upI[where t = t and p = "ReconnectRun q'" and k = "k' + 2"])
         (use h sm at k0 g assms(1,2) f(2) in \<open>auto simp: reconnect_flow_def set_pc_def dialling_cong\<close>)
  next
    assume h: "f = Raises RaisedError" "c_need_reconnect c1 = c_need_reconnect c"
    show ?thesis
      by (rule gives_upI[where t = "w_next_task c" and p = ReconnectStart and k = 1])
         (use h sm at k0 g assms(1,2) f(2) in \<open>auto simp: reconnect_flow_def Let_def unlock_def spawn_reconnect_def spawn_def
            live_task_def reconnect_end_def finish_def\<close>)
  next
    assume h: "f = Raises RaisedConflict" "\<not> c_need_reconnect c1"
    show ?thesis
      by (rule gives_up_doneI)
         (use h sm at k0 g assms(1,2) f(2) in \<open>auto simp: reconnect_flow_def Let_def unlock_def reconnect_end_def finish_def\<close>)
  qed
qed

lemma gives_up_step:
  assumes "gives_up n c" "refused e" "conn_step e c = Some c'"
  shows "\<exists>n'<n. gives_up n' c'"
proof -
  obtain t d x where e: "e = Resume t d x" "x \<noteq> Accepted" "x \<noteq> AcceptedThenFails" using assms(2) by (auto simp: refused_def)
  have "w_tasks c t \<noteq> None" using assms(3) e by (auto simp: resume_def split: option.splits)
  then obtain p k where p: "w_tasks c = (\<lambda>_. None)(t := Some p)" "t < w_next_task c" "refused_at t p c = Some k"
      "n = (1024 - c_attempts c) * 13 + k"
    and g: "w_cancel c = {}" "\<not> c_disconnecting c" "c_heartbeat_task c = None" "c_recv_task c = None" "c_attempts c \<le> 1024"
    using assms(1) unfolding gives_up_def by (auto split: if_splits)
  have x: "x \<noteq> Cancelled" "resume_at p t d x c = Some c'"
    using assms(3) e(1) p(1) g(1) by (auto simp: resume_def split: if_splits)
  show ?thesis
    using gives_up_call[OF p(1-3) g x(1) e(2,3) x(2)] gives_up_reconnect[OF p(1-3) g x(1) e(2,3) x(2)] p(3,4)
    by (cases p) auto
qed

lemma gives_up_run:
  assumes "gives_up n c" "list_all refused es" "run_conn es c = Some c'"
  shows "\<exists>n'. gives_up n' c' \<and> length es + n' \<le> n"
  using assms
proof (induction es arbitrary: n c)
  case (Cons e es)
  obtain c1 where c1: "conn_step e c = Some c1" "run_conn es c1 = Some c'" using Cons.prems(3) by (auto split: option.splits)
  obtain n1 where "n1 < n" "gives_up n1 c1" using gives_up_step[OF Cons.prems(1) _ c1(1)] Cons.prems(2) by auto
  moreover obtain n' where "gives_up n' c'" "length es + n' \<le> n1"
    using Cons.IH[OF \<open>gives_up n1 c1\<close> _ c1(2)] Cons.prems(2) by auto
  ultimately show ?case by (intro exI[of _ n']) simp
qed auto

definition no_time :: draw where
  "no_time = \<lparr>d_now = 0, d_jitter = 0, d_stagger = 0\<rparr>"

lemma gives_up_progress:
  assumes "gives_up n c" "w_tasks c t \<noteq> None"
  shows "\<exists>e c'. refused e \<and> conn_step e c = Some c'"
proof -
  obtain p k where p: "w_tasks c = (\<lambda>_. None)(t := Some p)" "refused_at t p c = Some k"
    and g: "w_cancel c = {}" using assms unfolding gives_up_def by (auto split: if_splits)
  have "\<exists>x c'. (x = Done \<or> x = Fails) \<and> resume_at p t no_time x c = Some c'"
  proof (cases p)
    case (ConnectRun q)
    then show ?thesis using p(2) by (cases q) (auto split: if_splits intro: exI[of _ Fails])
  next
    case (ConnectCleanup cp e rem)
    then show ?thesis using p(2) by (cases cp) (auto split: if_splits option.splits simp: close_session_def Let_def intro!: exI[of _ Done])
  next
    case (ReconnectRun q)
    then show ?thesis using p(2) by (cases q) (auto split: if_splits intro: exI[of _ Fails])
  qed (use p(2) in \<open>auto simp: acquire_def split: if_splits intro!: exI[of _ Done]\<close>)
  then obtain x c' where x: "x = Done \<or> x = Fails" "resume_at p t no_time x c = Some c'" by blast
  then have "conn_step (Resume t no_time x) c = Some c'" using p(1) g by (auto simp: resume_def)
  moreover have "refused (Resume t no_time x)" using x(1) by (auto simp: refused_def)
  ultimately show ?thesis by blast
qed

lemma gives_up_connecting: "gives_up (1024 * 13 + 13) (connecting m)"
  unfolding gives_up_def
  by (intro conjI disjI2 exI[of _ 0] exI[of _ ConnectLock] exI[of _ "13 :: nat"])
     (simp_all add: connecting_def new_runtime_def spawn_def fun_eq_iff)
section \<open>A run to the end\<close>

definition stuck :: "nat \<Rightarrow> conn \<Rightarrow> bool" where
  \<comment> \<open>only a new reconnect task, after so many failures\<close>
  "stuck n c \<longleftrightarrow>
     c_need_reconnect c \<and> \<not> c_in_progress c \<and> c_lock c = None \<and> c_ws c = None \<and> c_attempts c = n \<and>
     w_cancel c = {} \<and>
     (\<exists>t. w_tasks c = (\<lambda>_. None)(t := Some ReconnectStart) \<and> c_reconnect_task c = Some t \<and>
          w_next_task c = t + 1)"

lemma stuck_again:
  assumes "stuck n c" "n < 1024"
  shows "\<exists>c'. stuck (n + 1) c' \<and>
    (\<exists>es. list_all refused es \<and> run_conn es c = Some c')"
proof -
  obtain t where t: "w_tasks c = (\<lambda>_. None)(t := Some ReconnectStart)" "c_reconnect_task c = Some t"
    "w_next_task c = t + 1" using assms(1) by (auto simp: stuck_def)
  let ?es = "[Resume t no_time Done, Resume t no_time Done, Resume t no_time Done, Resume t no_time Fails]"
  have "\<exists>c'. run_conn ?es c = Some c' \<and> stuck (n + 1) c'"
    using assms t
    by (simp add: stuck_def resume_def reconnect_start_def reconnect_delay_def acquire_def
        reconnect_locked_def reconnect_flow_def do_connect_def should_force_refresh_def Let_def
        set_pc_def reconnect_end_def finish_def spawn_reconnect_def spawn_def unlock_def no_time_def
        live_task_def live_def fun_upd_def fun_eq_iff)
  moreover have "list_all refused ?es" by (simp add: refused_def)
  ultimately show ?thesis by blast
qed

lemma stuck_first:
  "\<exists>c'. run_conn [Resume 0 no_time Done, Resume 0 no_time Fails, Resume 0 no_time Done, Resume 0 no_time Done]
     (connecting m) = Some c' \<and> stuck 0 c'"
  by (simp add: stuck_def connecting_def new_runtime_def resume_def acquire_def connect_locked_def
      connect_begin_def connect_flow_def do_connect_def should_force_refresh_def Let_def finalize_resources_def
      owned_tasks_def List.map_filter_simps connect_cleaned_def close_session_def
      set_pc_def finish_def spawn_reconnect_def spawn_def unlock_def no_time_def
      live_task_def live_def fun_upd_def fun_eq_iff)

lemma run_conn_append: "run_conn (xs @ ys) c = (case run_conn xs c of None \<Rightarrow> None | Some c1 \<Rightarrow> run_conn ys c1)"
  by (induction xs arbitrary: c) (auto split: option.split)

lemma stuck_run: "n \<le> 1024 \<Longrightarrow> \<exists>es c. list_all refused es \<and> run_conn es (connecting m) = Some c \<and> stuck n c"
proof (induction n)
  case 0
  have "list_all refused
    [Resume 0 no_time Done, Resume 0 no_time Fails, Resume 0 no_time Done, Resume 0 no_time Done]"
    by (simp add: refused_def)
  with stuck_first [of m] show ?case by blast
next
  case (Suc n)
  then obtain es c where c: "list_all refused es" "run_conn es (connecting m) = Some c" "stuck n c" by auto
  obtain es' c' where "stuck (n + 1) c'" "list_all refused es'" "run_conn es' c = Some c'"
    using stuck_again [OF c(3)] Suc.prems by auto
  then show ?case using c(1,2) by (intro exI [of _ "es @ es'"] exI [of _ c']) (simp add: run_conn_append)
qed

end
