(* ===== verification/ConnectionSafety.thy ===== *)
theory ConnectionSafety
  imports ConnectionRefused
begin

text \<open>
  What the connection lifecycle guarantees: one WebSocket at a time, a final disconnect, the
  pursuit of a connection that is wanted, and the two ways in which the code fails to do so.
\<close>

section \<open>One connection at a time\<close>

fun handshake :: "pc \<Rightarrow> bool" where
  "handshake (ConnectRun _) = True"
| "handshake (ReconnectRun _) = True"
| "handshake _ = False"

lemma handshake_section: "handshake p \<Longrightarrow> in_section p"
  by (cases p) simp_all

lemma cleanup_sockets: "cleanup_ok cp c \<Longrightarrow> \<exists>s. w_open c \<subseteq> {s}"
  by (cases cp) (cases "c_ws c"; auto simp: sockets_of_def)+

lemma run_sockets: "run_ok q c \<Longrightarrow> \<exists>s. w_open c \<subseteq> {s}"
  by (cases q) (cases "c_ws c"; auto simp: sockets_of_def)+

lemma open_sockets: "conn_ok c \<Longrightarrow> \<exists>s. w_open c \<subseteq> {s}"
proof (cases "c_lock c")
  case None
  assume "conn_ok c"
  then have "w_open c \<subseteq> sockets_of c" using None by (simp add: conn_ok_def lock_ok_def)
  then show ?thesis by (cases "c_ws c") (auto simp: sockets_of_def)
next
  case (Some h)
  assume "conn_ok c"
  then obtain p where "holder_ok p c" using holder_kind Some by blast
  then show ?thesis
    using cleanup_sockets run_sockets by (cases p; cases "c_ws c") (auto simp: sockets_of_def)
qed

text \<open>
  C28. At no time are two WebSockets of one identity open, and at no time do two tasks run the
  handshake, whatever the interleaving of connect, disconnect, reconnect, receive and heartbeat
  tasks, of cancellations and of failures: the server, which kicks the older of two connections
  of a bot, never gets to see a second one.
\<close>

theorem one_websocket:
  assumes "reaches P (new_runtime m) c"
  shows "(\<exists>s. w_open c \<subseteq> {s}) \<and>
    (\<forall>t u p q. w_tasks c t = Some p \<and> handshake p \<and> w_tasks c u = Some q \<and> handshake q \<longrightarrow> t = u)"
proof -
  have ok: "conn_ok c" using reachable_ok [OF assms] .
  have "t = u" if "w_tasks c t = Some p" "handshake p" "w_tasks c u = Some q" "handshake q" for t u p q
  proof -
    have "section_at c t" "section_at c u" using that handshake_section by (simp_all add: section_at_def)
    then show ?thesis using conn_okD(4) [OF ok] unfolding lock_ok_def by (metis option.inject)
  qed
  then show ?thesis using open_sockets [OF ok] by blast
qed

section \<open>After a disconnect\<close>

definition quiet :: "conn \<Rightarrow> bool" where
  \<comment> \<open>only disconnect calls run, and there is nothing left to close\<close>
  "quiet c \<longleftrightarrow>
     \<not> c_need_reconnect c \<and> \<not> c_connected c \<and> \<not> c_http c \<and> c_ws c = None \<and> w_open c = {} \<and>
     (\<forall>t p. w_tasks c t = Some p \<longrightarrow> kind p = DisconnectTask)"

lemma quiet_finalize:
  "quiet c \<Longrightarrow> finalize_resume cp x c = Some (f, c') \<Longrightarrow> quiet c'"
  by (cases cp)
    (auto simp: close_session_def close_socket_def Let_def quiet_def split: if_splits)

lemma quiet_tasks:
  assumes "quiet c" "kind p = DisconnectTask"
  shows "quiet (set_pc t p c)" "quiet (spawn p c)"
  using assms by (auto simp: quiet_def set_pc_def spawn_def)

lemma quiet_fields:
  assumes "quiet c"
  shows "quiet (unlock c)" "quiet (cancel_task t c)" "quiet (close_socket s c)"
    "quiet (c\<lparr>c_lock := l\<rparr>)" "quiet (c\<lparr>c_need_reconnect := False, c_disconnecting := b\<rparr>)"
    "quiet (finish t c)"
  using assms by (auto simp: quiet_def unlock_def cancel_task_def close_socket_def finish_def)

lemma quiet_disconnect_locked:
  "quiet c \<Longrightarrow> disconnect_locked c = (cp, c') \<Longrightarrow> quiet c'"
  by (auto simp: quiet_def disconnect_locked_def finalize_resources_def)

lemma quiet_resume:
  assumes "quiet c" "kind p = DisconnectTask" "resume_at p t d x c = Some c'"
  shows "quiet c'"
proof (cases p)
  case (DisconnectDrain r rem)
  then show ?thesis using assms(3) quiet_tasks(1) [OF assms(1)] by (auto split: if_splits)
next
  case (DisconnectLock rem)
  show ?thesis
    using assms(3) quiet_tasks(1) quiet_disconnect_locked [OF quiet_fields(4) [OF assms(1)]] DisconnectLock assms(1)
    by (auto simp: acquire_def split: if_splits prod.splits)
next
  case (DisconnectCleanup cp rem)
  then show ?thesis
    using assms(1,3) quiet_tasks(1) quiet_finalize [OF assms(1)] quiet_fields(1,6)
    by (auto split: if_splits option.splits flow.splits)
qed (use assms(2) in simp_all)

lemma quiet_step:
  assumes "quiet c" "conn_step e c = Some c'" "e \<noteq> StartConnect"
  shows "quiet c'"
proof (cases e)
  case StartConnect
  with assms(3) show ?thesis by simp
next
  case StartDisconnect
  then show ?thesis
    using assms(2) quiet_tasks(2) [OF quiet_fields(5) [OF assms(1)]]
      quiet_tasks(2) [OF quiet_fields(2) [OF quiet_fields(5) [OF assms(1)]]]
    by (auto simp: disconnect_call_def Let_def split: option.splits)
next
  case (Resume t d x)
  then obtain p where p: "w_tasks c t = Some p" "resume_at p t d x c = Some c'"
    using assms(2) by (auto simp: resume_def split: option.splits if_splits)
  then show ?thesis using quiet_resume [OF assms(1) _ p(2)] assms(1) by (simp add: quiet_def)
next
  case (CancelCall t)
  then show ?thesis using assms(2) quiet_fields(2) [OF assms(1)] by (auto split: option.splits if_splits)
next
  case (Dropped s)
  then show ?thesis using assms(2) quiet_fields(3) [OF assms(1)] by auto
qed

interpretation closed: conn_invariant "\<lambda>e. e \<noteq> StartConnect" quiet
  by unfold_locales (rule quiet_step)

lemma disconnect_returns_quiet:
  assumes "conn_ok c" "w_tasks c t = Some (DisconnectCleanup cp rem)" "resume t d x c = Some c'"
    "\<not> live t c'" "\<forall>u. w_tasks c' u \<noteq> Some ConnectLock"
  shows "quiet c'"
proof -
  have sec: "in_section (DisconnectCleanup cp rem)" by simp
  note h = held_of_holder [OF assms(1,2) sec]
  have r: "resume_at (DisconnectCleanup cp rem) t d x c = Some c'"
    using assms(2,3) by (auto simp: resume_def split: if_splits)
  have "x \<noteq> Cancelled" using r assms(4) by (auto simp: live_def set_pc_def)
  then obtain f c1 where f: "finalize_resume cp x c = Some (f, c1)"
    using r by (auto split: option.splits)
  have cl: "cleanup_ok cp c" and off: "\<not> c_need_reconnect c" "\<not> c_connected c" using h(2) by simp_all
  note o = finalize_resume_ok [OF h(1) cl f]
  have ret: "f = Returns" "c' = finish t (unlock c1)"
    using r f o \<open>x \<noteq> Cancelled\<close> assms(4)
    by (auto simp: cleanup_flow_ok_def live_def set_pc_def split: flow.splits)
  then have c1: "cleaned c1" using o by (simp add: cleanup_flow_ok_def)
  have "kind p = DisconnectTask" if "w_tasks c' u = Some p" for u p
  proof -
    have u: "u \<noteq> t" "w_tasks c u = Some p"
      using that o by (auto simp: ret(2) finish_def unlock_def split: if_splits)
    then have "kind_at c1 u = Some (kind p)" using o by (simp add: kind_at_def)
    then have "kind p \<notin> workers" using c1 by (simp add: cleaned_def none_of_def)
    moreover have "\<not> in_section p"
      using u h(1) by (auto simp: held_def section_at_def)
    moreover have "p \<noteq> ConnectLock" using assms(5) that by auto
    ultimately show ?thesis by (cases p) simp_all
  qed
  then show ?thesis
    using c1 o off by (simp add: quiet_def ret(2) cleaned_def same_intent_def, simp add: unlock_def)
qed

text \<open>
  C29. A disconnect that has returned is final: unless a connect call is waiting for its turn, the
  WebSocket and the HTTP session are closed and no task of the connection is left, and whatever
  happens afterwards (late events, further disconnects, cancellations), nothing reconnects
  before connect is called again.
\<close>

theorem disconnect_is_final:
  assumes "reaches P (new_runtime m) c" and "w_tasks c t = Some (DisconnectCleanup cp rem)"
    and "resume t d x c = Some c1" and "\<not> live t c1" and "\<forall>u. w_tasks c1 u \<noteq> Some ConnectLock"
    and "reaches (\<lambda>e. e \<noteq> StartConnect) c1 c2"
  shows "w_open c2 = {} \<and> c_ws c2 = None \<and> \<not> c_http c2 \<and> \<not> c_connected c2 \<and> \<not> c_need_reconnect c2 \<and>
    (\<forall>u p. w_tasks c2 u = Some p \<longrightarrow> kind p = DisconnectTask)"
  using closed.reaches_holds [OF assms(6) disconnect_returns_quiet
      [OF reachable_ok [OF assms(1)] assms(2-5)]]
  by (simp add: quiet_def)

text \<open>
  C30. The wish to be connected is never forgotten: once connect has been called and unless a call
  of connect is cancelled, whenever a connection is wanted and no call holds or awaits the
  lifecycle lock, the receive task of the connection is running (it schedules the reconnection
  when it ends) or a reconnect task is, and neither has been cancelled, up to 1024 failures in a
  row.
\<close>

theorem connection_is_pursued:
  assumes "reaches (\<lambda>e. \<forall>t. e \<noteq> CancelCall t) (connecting m) c"
    and "c_need_reconnect c" and "c_lock c = None" and "c_attempts c < 1024"
    and "\<forall>t p. w_tasks c t = Some p \<longrightarrow> \<not> is_call p"
  shows "\<exists>t p. t \<notin> w_cancel c \<and> w_tasks c t = Some p \<and>
    (c_recv_task c = Some t \<and> kind p = ReceiveTask \<or> c_reconnect_task c = Some t \<and> kind p = ReconnectTask)"
proof -
  have ok: "conn_ok c" and pu: "pursuit c" using pursuing.reaches_holds [OF assms(1) connecting_ok] by simp_all
  have nd: "\<not> some_disconnect c"
  proof
    assume "some_disconnect c"
    then obtain t p where "w_tasks c t = Some p" "kind p = DisconnectTask"
      by (auto simp: some_disconnect_def kind_at_def)
    moreover from this have "is_call p" by (cases p) simp_all
    ultimately show False using assms(5) by blast
  qed
  have ng: "\<not> gathering c" "holder_stops c = {}" using assms(3) by (simp_all add: gathering_def holder_stops_def)
  have uncancelled: "t \<notin> w_cancel c" if "kind_at c t = Some ReceiveTask \<or> kind_at c t = Some ReconnectTask" for t
    using that pu nd ng by (auto simp: pursuit_def cancel_reason_def)
  have "w_tasks c t \<noteq> Some ConnectLock" for t using assms(5) by fastforce
  then consider (recv) v where "c_recv_task c = Some v" "live v c" | (rec) r where "c_reconnect_task c = Some r"
    using pu assms(2-4) nd by (fastforce simp: pursuit_def pursued_def)
  then show ?thesis
  proof cases
    case recv
    then have "kind_at c v = Some ReceiveTask"
      using conn_okD(1) [OF ok] unfolding tasks_ok_def live_def kind_at_def by fastforce
    then show ?thesis using recv(1) uncancelled by (auto simp: kind_at_def)
  next
    case rec
    then have "kind_at c r = Some ReconnectTask" using conn_okD(1) [OF ok] unfolding tasks_ok_def by blast
    then show ?thesis using rec uncancelled by (auto simp: kind_at_def)
  qed
qed

text \<open>
  C31. Reconnection gives up for good after 1024 failures in a row, and not before. When \<open>connect\<close>
  has been called and the server accepts nothing from then on (whatever fails, refuses or times
  out, and however the tasks take turns), at most 13325 steps can be made; as long as a task is left
  some step is possible; and when none is left and the connection is still wanted, exactly 1024
  delays have been waited for. The reason is that the delay is computed as \<open>3.0 * (2**attempts)\<close>
  before it is capped, which overflows, and the exception leaves the reconnect task outside its
  handler. There is such a run, and in its last state nothing can happen without an outside call.
\<close>

theorem reconnection_gives_up:
  "(list_all refused es \<and> run_conn es (connecting m) = Some c \<longrightarrow>
      length es \<le> 13325 \<and> c_attempts c \<le> 1024 \<and>
      ((\<exists>t. w_tasks c t \<noteq> None) \<longrightarrow> (\<exists>e c'. refused e \<and> conn_step e c = Some c')) \<and>
      ((\<forall>t. w_tasks c t = None) \<and> c_need_reconnect c \<longrightarrow> c_attempts c = 1024 \<and> \<not> c_disconnecting c)) \<and>
   (\<exists>es' c'. list_all refused es' \<and> run_conn es' (connecting m) = Some c' \<and> c_need_reconnect c' \<and>
      c_attempts c' = 1024 \<and> (\<forall>t. w_tasks c' t = None) \<and> (\<forall>t d x. conn_step (Resume t d x) c' = None))"
proof (intro conjI impI)
  assume h: "list_all refused es \<and> run_conn es (connecting m) = Some c"
  then obtain n where n: "gives_up n c" "length es + n \<le> 1024 * 13 + 13"
    using gives_up_run [OF gives_up_connecting] by blast
  then show "length es \<le> 13325" "c_attempts c \<le> 1024" by (simp_all add: gives_up_def)
  show "\<exists>e c'. refused e \<and> conn_step e c = Some c'" if "\<exists>t. w_tasks c t \<noteq> None"
    using gives_up_progress [OF n(1)] that by blast
  show "c_attempts c = 1024" "\<not> c_disconnecting c" if "(\<forall>t. w_tasks c t = None) \<and> c_need_reconnect c"
    using n(1) that by (auto simp: gives_up_def fun_eq_iff split: if_splits)
next
  obtain es c where c: "list_all refused es" "run_conn es (connecting m) = Some c" "stuck 1024 c"
    using stuck_run [of 1024 m] by auto
  then obtain t where t: "w_tasks c = (\<lambda>_. None)(t := Some ReconnectStart)" by (auto simp: stuck_def)
  let ?c = "reconnect_end t (c\<lparr>c_in_progress := True\<rparr>)"
  have "conn_step (Resume t no_time Done) c = Some ?c"
    using c(3) t by (simp add: stuck_def resume_def reconnect_start_def reconnect_delay_def)
  then have "run_conn (es @ [Resume t no_time Done]) (connecting m) = Some ?c" using c(2) by (simp add: run_conn_append)
  moreover have "list_all refused (es @ [Resume t no_time Done])" using c(1) by (simp add: refused_def)
  moreover have "\<forall>u. w_tasks ?c u = None" using t by (simp add: reconnect_end_def finish_def)
  moreover have "c_need_reconnect ?c" "c_attempts ?c = 1024"
    using c(3) by (simp_all add: stuck_def reconnect_end_def finish_def)
  ultimately show "\<exists>es' c'. list_all refused es' \<and> run_conn es' (connecting m) = Some c' \<and> c_need_reconnect c' \<and>
      c_attempts c' = 1024 \<and> (\<forall>t. w_tasks c' t = None) \<and> (\<forall>t d x. conn_step (Resume t d x) c' = None)"
    by (intro exI [of _ "es @ [Resume t no_time Done]"] exI [of _ ?c]) (simp add: resume_def)
qed

section \<open>Delays\<close>

text \<open>The delays double from 3 to 60 seconds, with a jitter of a quarter and a stagger.\<close>

lemma reconnect_delay_bounds:
  assumes "reconnect_delay n j s = Some d" "0 \<le> j" "j < 1" "0 \<le> s" "s < 1"
  shows "9 / 4 \<le> d \<and> d < 80"
proof -
  let ?b = "min (3 * 2 ^ n) 60 :: rat"
  have b: "3 \<le> ?b" "?b \<le> 60" using one_le_power [of "2 :: rat" n] by auto
  have d: "d = ?b * (3 / 4 + j / 2) + s * 5" using assms(1) by (simp add: reconnect_delay_def split: if_splits)
  have "3 * (3 / 4) \<le> ?b * (3 / 4 + j / 2)" using b assms(2) by (intro mult_mono) simp_all
  moreover have "?b * (3 / 4 + j / 2) \<le> 60 * (3 / 4 + j / 2)" using b assms(2) by (intro mult_right_mono) simp_all
  ultimately show ?thesis using assms(2-5) by (simp add: d)
qed

section \<open>Examples\<close>

lemmas conn_eval =
  new_runtime_def connecting_def resume_def acquire_def connect_locked_def connect_begin_def
  connect_flow_def do_connect_def should_force_refresh_def Let_def finalize_resources_def
  disconnect_locked_def disconnect_call_def owned_tasks_def List.map_filter_simps
  connect_cleaned_def close_session_def close_socket_def set_pc_def finish_def spawn_reconnect_def
  spawn_def unlock_def no_time_def live_task_def live_def connack_accepted_def
  start_heartbeat_task_def start_receive_task_def begin_heartbeat_def begin_receive_def
  reconnect_start_def reconnect_delay_def reconnect_locked_def reconnect_flow_def
  reconnect_end_def receive_loop_def receive_exit_def heartbeat_loop_def

definition steps_of :: "tid \<Rightarrow> outcome list \<Rightarrow> conn_event list" where
  "steps_of t xs = map (Resume t no_time) xs"

definition handshake_run :: "outcome list" where
  \<comment> \<open>the lock, registration, bookkeeping, socket, upgrade, connect packet, acknowledgement\<close>
  "handshake_run = [Done, Done, Done, Done, Done, Done, Accepted]"

definition online :: "tid \<Rightarrow> socket \<Rightarrow> conn \<Rightarrow> bool" where
  \<comment> \<open>connected, with a running receive task\<close>
  "online v s c \<longleftrightarrow>
     c_connected c \<and> c_ws c = Some s \<and> w_open c = {s} \<and> c_lock c = None \<and> c_need_reconnect c \<and>
     c_attempts c = 0 \<and> c_recv_task c = Some v \<and> w_tasks c v = Some ReceiveStart"

lemma goes_online:
  "\<exists>c. run_conn (steps_of 0 handshake_run) (connecting 3) = Some c \<and> online 2 0 c \<and>
     w_tasks c 0 = None \<and> w_next_task c = 3 \<and> c_reconnect_task c = None"
  by (simp add: steps_of_def handshake_run_def online_def conn_eval)

theorem one_websocket_witness:
  "\<exists>c. run_conn (StartConnect # steps_of 0 handshake_run) (new_runtime 3) = Some c \<and> w_open c = {0} \<and>
     (\<exists>s. w_open c \<subseteq> {s})"
proof -
  obtain c where c: "run_conn (steps_of 0 handshake_run) (connecting 3) = Some c" "online 2 0 c"
    using goes_online by auto
  then have r: "run_conn (StartConnect # steps_of 0 handshake_run) (new_runtime 3) = Some c"
    by (simp add: connecting_def)
  then have "reaches (\<lambda>_. True) (new_runtime 3) c"
    by (rule run_reaches) (simp_all add: reaches_here list_all_iff)
  from one_websocket [OF this] r c(2) show ?thesis by (auto simp: online_def)
qed

theorem connection_is_pursued_witness:
  "\<exists>c. run_conn (steps_of 0 handshake_run) (connecting 3) = Some c \<and> c_need_reconnect c \<and>
     (\<exists>t p. t \<notin> w_cancel c \<and> w_tasks c t = Some p \<and>
        (c_recv_task c = Some t \<and> kind p = ReceiveTask \<or> c_reconnect_task c = Some t \<and> kind p = ReconnectTask))"
proof -
  have "\<exists>c. run_conn (steps_of 0 handshake_run) (connecting 3) = Some c \<and> online 2 0 c \<and>
      (\<forall>t p. w_tasks c t = Some p \<longrightarrow> \<not> is_call p)"
    by (simp add: steps_of_def handshake_run_def online_def conn_eval)
  then obtain c where c: "run_conn (steps_of 0 handshake_run) (connecting 3) = Some c" "online 2 0 c"
    "\<forall>t p. w_tasks c t = Some p \<longrightarrow> \<not> is_call p" by auto
  have "reaches (\<lambda>e. \<forall>t. e \<noteq> CancelCall t) (connecting 3) c"
    by (rule run_reaches [OF c(1)]) (simp_all add: reaches_here list_all_iff steps_of_def)
  from connection_is_pursued [OF this _ _ _ c(3)] c show ?thesis by (simp add: online_def)
qed

theorem reconnection_gives_up_witness:
  "\<exists>c. run_conn (steps_of 0 [Done, Fails, Done, Done]) (connecting 3) = Some c \<and> c_need_reconnect c \<and>
     w_tasks c 1 = Some ReconnectStart \<and> (\<exists>e c'. refused e \<and> conn_step e c = Some c')"
proof -
  have "\<exists>c. run_conn (steps_of 0 [Done, Fails, Done, Done]) (connecting 3) = Some c \<and> c_need_reconnect c \<and>
      w_tasks c 1 = Some ReconnectStart"
    by (simp add: steps_of_def conn_eval)
  then obtain c where c: "run_conn (steps_of 0 [Done, Fails, Done, Done]) (connecting 3) = Some c" "c_need_reconnect c"
    "w_tasks c 1 = Some ReconnectStart" by blast
  have "list_all refused (steps_of 0 [Done, Fails, Done, Done])" by (simp add: steps_of_def refused_def)
  then show ?thesis using reconnection_gives_up [of "steps_of 0 [Done, Fails, Done, Done]" 3 c] c by auto
qed

definition shutdown_run :: "conn_event list" where
  \<comment> \<open>a disconnect of the runtime above, up to the close of the session\<close>
  "shutdown_run =
     [StartDisconnect, Resume 3 no_time Done, Resume 1 no_time Cancelled, Resume 2 no_time Cancelled,
      Resume 3 no_time Done, Resume 3 no_time Done]"

theorem disconnect_is_final_witness:
  "\<exists>c c0 c1. run_conn (StartConnect # steps_of 0 handshake_run) (new_runtime 3) = Some c \<and> w_open c = {0} \<and>
     run_conn shutdown_run c = Some c0 \<and> resume 3 no_time Done c0 = Some c1 \<and>
     w_open (close_socket 0 c1) = {} \<and> \<not> c_need_reconnect (close_socket 0 c1)"
proof -
  let ?up = "StartConnect # steps_of 0 handshake_run"
  have "\<exists>c c0 c1. run_conn ?up (new_runtime 3) = Some c \<and> w_open c = {0} \<and>
      run_conn shutdown_run c = Some c0 \<and> w_tasks c0 3 = Some (DisconnectCleanup ClosingSession False) \<and>
      resume 3 no_time Done c0 = Some c1 \<and> (\<forall>u. w_tasks c1 u = None)"
    by (simp add: steps_of_def handshake_run_def shutdown_run_def conn_eval)
  then obtain c c0 c1 where c: "run_conn ?up (new_runtime 3) = Some c" "w_open c = {0}"
    "run_conn shutdown_run c = Some c0" "w_tasks c0 3 = Some (DisconnectCleanup ClosingSession False)"
    "resume 3 no_time Done c0 = Some c1" "\<forall>u. w_tasks c1 u = None" by blast
  have "reaches (\<lambda>_. True) (new_runtime 3) c"
    by (rule run_reaches [OF c(1)]) (simp_all add: reaches_here list_all_iff)
  then have r: "reaches (\<lambda>_. True) (new_runtime 3) c0"
    by (intro run_reaches [OF c(3)]) (simp_all add: list_all_iff)
  have "reaches (\<lambda>e. e \<noteq> StartConnect) c1 (close_socket 0 c1)"
    by (rule reaches_step [OF reaches_here, of _ "Dropped 0"]) simp_all
  from disconnect_is_final [OF r c(4,5) _ _ this] c(6)
  have "w_open (close_socket 0 c1) = {}" "\<not> c_need_reconnect (close_socket 0 c1)"
    by (simp_all add: live_def)
  with c show ?thesis by blast
qed

text \<open>
  A stale reconnect task: \<open>connect\<close> fails and schedules a reconnection; \<open>connect\<close> is called again
  before the delay is over, finds neither a session nor a socket to clean up, and succeeds; the
  task then wakes up, and closes the healthy connection to open another.
\<close>

lemma stale_reconnect:
  "\<exists>c c'. run_conn (steps_of 0 [Done, Fails, Done, Done] @ [Resume 1 no_time Done, StartConnect] @
                   steps_of 2 handshake_run) (connecting 3) = Some c \<and> online 4 0 c \<and>
     run_conn (steps_of 1 [Done, Done, Done]) c = Some c' \<and> w_open c' = {} \<and> c_ws c' = None"
  by (simp add: steps_of_def handshake_run_def online_def conn_eval)

end
