(* ===== verification/Mention.thy ===== *)
theory Mention
  imports Utf8 JsonText
begin

text \<open>
  Mentions, \<open>mention.py\<close>: the structured envelopes \<open>@[uid:name]\<close> that the model reads and writes,
  and the wire format, plain \<open>@name\<close> text with a sidecar of entities whose offsets count UTF-16
  code units. Text is a list of code points. The classes \<open>\w\<close> and \<open>\s\<close> of regular expressions are
  the parameters \<open>W\<close> and \<open>S\<close>: their members beyond ASCII come from the Unicode tables.
\<close>

definition AT :: codepoint where "AT = 0x40"
definition LBRACK :: codepoint where "LBRACK = 0x5B"
definition RBRACK :: codepoint where "RBRACK = 0x5D"
definition COLON :: codepoint where "COLON = 0x3A"
definition NEWLINE :: codepoint where "NEWLINE = 0x0A"
definition SLASH :: codepoint where "SLASH = 0x2F"
definition FULLWIDTH_AT :: codepoint where "FULLWIDTH_AT = 0xFF20"

lemmas cp_defs =
  AT_def LBRACK_def RBRACK_def COLON_def NEWLINE_def SLASH_def FULLWIDTH_AT_def

definition MAX_INBOUND_MENTIONS :: nat where "MAX_INBOUND_MENTIONS = 64"

section \<open>Values of a mention sidecar\<close>

datatype raw_value = VStr ustr | VInt int | VOther bool ustr
  \<comment> \<open>\<open>VOther\<close>: its truth value and its text in an f-string; booleans and floats are among them\<close>

fun truthy :: "raw_value \<Rightarrow> bool" where
  "truthy (VStr s) = (s \<noteq> [])"
| "truthy (VInt i) = (i \<noteq> 0)"
| "truthy (VOther b t) = b"

fun value_text :: "raw_value \<Rightarrow> ustr" where
  "value_text (VStr s) = s"
| "value_text (VInt i) = map of_char (int_str i)"
| "value_text (VOther b t) = t"

record raw_entity =
  re_uid :: raw_value
  re_offset :: raw_value
  re_length :: raw_value

record sidecar =
  sc_uids :: "raw_value list option"
  sc_entities :: "raw_entity list option"

datatype raw_item = NotADict | Item "raw_value option" "raw_value option" "raw_value option"

datatype raw_mention =
    NoMention
  | Payload sidecar
  | RawDict "raw_item list option" "raw_value list option"
      \<comment> \<open>a dictionary: \<open>None\<close> where \<open>entities\<close> or \<open>uids\<close> is not a list\<close>
  | OtherMention

fun item_entity :: "raw_item \<Rightarrow> raw_entity option" where
  "item_entity (Item (Some u) (Some n) (Some l)) = Some \<lparr>re_uid = u, re_offset = n, re_length = l\<rparr>"
| "item_entity _ = None"

fun coerce_mention :: "raw_mention \<Rightarrow> sidecar option" where
  "coerce_mention NoMention = None"
| "coerce_mention (Payload m) = Some m"
| "coerce_mention (RawDict ents uids) =
     Some \<lparr>sc_uids = uids,
           sc_entities = map_option (\<lambda>es. List.map_filter item_entity (take MAX_INBOUND_MENTIONS es)) ents\<rparr>"
| "coerce_mention OtherMention = None"

definition entities_of :: "sidecar \<Rightarrow> raw_entity list" where
  "entities_of m = (case sc_entities m of None \<Rightarrow> [] | Some es \<Rightarrow> es)"

definition uids_of :: "sidecar \<Rightarrow> raw_value list" where
  "uids_of m = (case sc_uids m of None \<Rightarrow> [] | Some us \<Rightarrow> us)"

fun as_text :: "raw_value \<Rightarrow> ustr option" where
  "as_text (VStr s) = Some s"
| "as_text _ = None"

definition extract_mention_uids :: "raw_mention \<Rightarrow> raw_value list" where
  "extract_mention_uids raw =
     (case coerce_mention raw of
        None \<Rightarrow> []
      | Some m \<Rightarrow>
          (let valid = filter truthy (map re_uid (entities_of m)) in
           if valid \<noteq> [] then valid else filter (\<lambda>v. as_text v \<noteq> None) (uids_of m)))"

section \<open>UTF-16 offsets\<close>

definition utf16_units :: "codepoint \<Rightarrow> nat" where
  "utf16_units c = (if c > 0xFFFF then 2 else 1)"

definition utf16_length :: "ustr \<Rightarrow> nat" where
  "utf16_length t = sum_list (map utf16_units t)"

fun scan_boundaries :: "int set \<Rightarrow> int \<Rightarrow> nat \<Rightarrow> nat \<Rightarrow> ustr \<Rightarrow> (int \<times> nat) list" where
  \<comment> \<open>the loop of \<open>_utf16_boundaries\<close>: index and code units before the next character\<close>
  "scan_boundaries targets limit i n [] = []"
| "scan_boundaries targets limit i n (c # cs) =
     (let n' = n + utf16_units c;
          rest = (if int n' \<ge> limit then [] else scan_boundaries targets limit (i + 1) n' cs)
      in if int n' \<in> targets then (int n', i + 1) # rest else rest)"

definition utf16_boundaries :: "ustr \<Rightarrow> int list \<Rightarrow> (int \<times> nat) list" where
  "utf16_boundaries t targets =
     (let start = (if 0 \<in> set targets then [(0, 0)] else []) in
      if targets = [] then start
      else start @ scan_boundaries (set targets) (Max (set targets)) 0 0 t)"

section \<open>Untrusted text\<close>

fun neutralize :: "ustr \<Rightarrow> ustr" where
  \<comment> \<open>\<open>text.replace("@[", "\\uff20[")\<close>\<close>
  "neutralize (a # b # t) =
     (if a = AT \<and> b = LBRACK then FULLWIDTH_AT # LBRACK # neutralize t else a # neutralize (b # t))"
| "neutralize t = t"

definition slice :: "ustr \<Rightarrow> nat \<Rightarrow> nat \<Rightarrow> ustr" where
  \<comment> \<open>\<open>text[i:j]\<close>\<close>
  "slice t i j = take (j - i) (drop i t)"

fun render_trusted :: "ustr \<Rightarrow> nat \<Rightarrow> (nat \<times> nat \<times> ustr) list \<Rightarrow> ustr" where
  "render_trusted content cursor [] = neutralize (drop cursor content)"
| "render_trusted content cursor ((i, j, r) # rs) =
     neutralize (slice content cursor i) @ r @ render_trusted content j rs"

definition envelope :: "ustr \<Rightarrow> ustr \<Rightarrow> ustr" where
  "envelope uid name = AT # LBRACK # uid @ COLON # name @ [RBRACK]"

section \<open>Outbound: envelopes to the wire format\<close>

record structured_mention =
  sm_uid :: ustr
  sm_name :: ustr
  sm_offset :: nat
  sm_length :: nat

definition uid_char :: "(codepoint \<Rightarrow> bool) \<Rightarrow> codepoint \<Rightarrow> bool" where
  "uid_char W c \<longleftrightarrow> W c \<or> c = 0x2E \<or> c = 0x2D"

definition envelope_char :: "codepoint \<Rightarrow> bool" where
  "envelope_char c \<longleftrightarrow> c \<noteq> RBRACK \<and> c \<noteq> NEWLINE"

definition match_structured :: "(codepoint \<Rightarrow> bool) \<Rightarrow> ustr \<Rightarrow> (ustr \<times> ustr) option" where
  \<comment> \<open>\<open>STRUCTURED_MENTION_PATTERN\<close> at the start of the text\<close>
  "match_structured W t =
     (if take 2 t \<noteq> [AT, LBRACK] then None
      else
        (let uid = takeWhile (uid_char W) (drop 2 t);
             t1 = dropWhile (uid_char W) (drop 2 t)
         in if uid = [] \<or> take 1 t1 \<noteq> [COLON] then None
            else
              (let name = takeWhile envelope_char (drop 1 t1);
                   t2 = dropWhile envelope_char (drop 1 t1)
               in if name = [] \<or> take 1 t2 \<noteq> [RBRACK] then None else Some (uid, name))))"

function scan_structured :: "(codepoint \<Rightarrow> bool) \<Rightarrow> nat \<Rightarrow> ustr \<Rightarrow> structured_mention list" where
  "scan_structured W i [] = []"
| "scan_structured W i (c # t) =
     (case match_structured W (c # t) of
        None \<Rightarrow> scan_structured W (i + 1) t
      | Some (uid, name) \<Rightarrow>
          (let n = length (envelope uid name) in
           \<lparr>sm_uid = uid, sm_name = name, sm_offset = i, sm_length = n\<rparr>
             # scan_structured W (i + n) (drop n (c # t))))"
  by pat_completeness auto
termination
  by (relation "measure (\<lambda>(W, i, t). length t)") (auto simp: envelope_def)

definition parse_structured_mentions :: "(codepoint \<Rightarrow> bool) \<Rightarrow> ustr \<Rightarrow> structured_mention list" where
  "parse_structured_mentions W t = scan_structured W 0 t"

definition text_entity :: "ustr \<Rightarrow> nat \<Rightarrow> nat \<Rightarrow> raw_entity" where
  "text_entity uid i n = \<lparr>re_uid = VStr uid, re_offset = VInt (int i), re_length = VInt (int n)\<rparr>"

fun convert_from ::
  "ustr \<Rightarrow> ustr list option \<Rightarrow> nat \<Rightarrow> nat \<Rightarrow> structured_mention list \<Rightarrow>
   ustr \<times> raw_entity list \<times> ustr list" where
  "convert_from t valid cursor running [] = (drop cursor t, [], [])"
| "convert_from t valid cursor running (m # ms) =
     (let between = slice t cursor (sm_offset m);
          n = running + utf16_length between;
          repl = AT # sm_name m;
          ok = (case valid of None \<Rightarrow> True | Some us \<Rightarrow> sm_uid m \<in> set us);
          (content, ents, uids) =
            convert_from t valid (sm_offset m + sm_length m) (n + utf16_length repl) ms
      in (between @ repl @ content,
          (if ok then [text_entity (sm_uid m) n (utf16_length repl)] else []) @ ents,
          (if ok then [sm_uid m] else []) @ uids))"

definition convert_structured_mentions ::
  "ustr \<Rightarrow> structured_mention list \<Rightarrow> ustr list option \<Rightarrow> ustr \<times> raw_entity list \<times> ustr list" where
  "convert_structured_mentions t ms valid = convert_from t valid 0 0 (sort_key sm_offset ms)"

section \<open>Inbound: the wire format to envelopes\<close>

definition valid_entity_value :: "raw_entity \<Rightarrow> (int \<times> int) option" where
  \<comment> \<open>offset and length of an entity that passes the checks\<close>
  "valid_entity_value e =
     (case (re_offset e, re_length e) of
        (VInt i, VInt n) \<Rightarrow> if truthy (re_uid e) \<and> i \<ge> 0 \<and> n > 0 then Some (i, n) else None
      | _ \<Rightarrow> None)"

definition boundary_targets :: "ustr \<Rightarrow> raw_entity list \<Rightarrow> int list" where
  "boundary_targets content es =
     filter (\<lambda>b. b \<le> 2 * int (length content))
       (concat (map (\<lambda>e. case valid_entity_value e of None \<Rightarrow> [] | Some (i, n) \<Rightarrow> [i, i + n]) es))"

definition entity_locator :: "ustr \<Rightarrow> raw_entity list \<Rightarrow> int \<Rightarrow> nat option" where
  \<comment> \<open>code point index of a UTF-16 offset; the map is only built for text beyond the BMP\<close>
  "entity_locator content es =
     (let targets = boundary_targets content es;
          max_end = (if targets = [] then 0 else Max (set targets))
      in if list_all (\<lambda>c. c \<le> 0xFFFF) (take (nat max_end) content)
         then (\<lambda>b. if b \<le> int (length content) then Some (nat b) else None)
         else map_of (utf16_boundaries content targets))"

definition entity_range :: "ustr \<Rightarrow> raw_entity list \<Rightarrow> raw_entity \<Rightarrow> (raw_entity \<times> nat \<times> nat) option" where
  "entity_range content es e =
     (case valid_entity_value e of
        None \<Rightarrow> None
      | Some (i, n) \<Rightarrow>
          (case (entity_locator content es i, entity_locator content es (i + n)) of
             (Some a, Some b) \<Rightarrow>
               if a \<ge> b \<or> content ! a \<noteq> AT then None else Some (e, a, b)
           | _ \<Rightarrow> None))"

fun overlapping :: "('a \<times> nat \<times> nat) list \<Rightarrow> bool" where
  "overlapping ((_, a, b) # (e, a', b') # rs) = (a' < b \<or> overlapping ((e, a', b') # rs))"
| "overlapping _ = False"

definition entity_ranges :: "ustr \<Rightarrow> raw_entity list \<Rightarrow> (raw_entity \<times> nat \<times> nat) list" where
  "entity_ranges content es = sort_key (\<lambda>(_, a, _). a) (List.map_filter (entity_range content es) es)"

definition name_char :: "(codepoint \<Rightarrow> bool) \<Rightarrow> codepoint \<Rightarrow> bool" where
  "name_char W c \<longleftrightarrow>
     W c \<or> 0xC0 \<le> c \<and> c \<le> 0x24F \<or> 0x4E00 \<le> c \<and> c \<le> 0x9FFF \<or> 0x3040 \<le> c \<and> c \<le> 0x30FF \<or>
     0xAC00 \<le> c \<and> c \<le> 0xD7AF \<or> c = 0x2E \<or> c = 0x2D"

definition ascii_alnum :: "codepoint \<Rightarrow> bool" where
  "ascii_alnum c \<longleftrightarrow> 0x61 \<le> c \<and> c \<le> 0x7A \<or> 0x41 \<le> c \<and> c \<le> 0x5A \<or> 0x30 \<le> c \<and> c \<le> 0x39"

function scan_mentions :: "(codepoint \<Rightarrow> bool) \<Rightarrow> codepoint option \<Rightarrow> nat \<Rightarrow> ustr \<Rightarrow> (nat \<times> ustr) list" where
  \<comment> \<open>\<open>MENTION_PATTERN.finditer\<close>: start and name; \<open>prev\<close> is the character before\<close>
  "scan_mentions W prev i [] = []"
| "scan_mentions W prev i (c # t) =
     (let name = takeWhile (name_char W) t in
      if c = AT \<and> (case prev of None \<Rightarrow> True | Some p \<Rightarrow> \<not> ascii_alnum p) \<and> name \<noteq> []
      then (i, name) # scan_mentions W (Some (last name)) (i + 1 + length name) (drop (length name) t)
      else scan_mentions W (Some c) (i + 1) t)"
  by pat_completeness auto
termination
  by (relation "measure (\<lambda>(W, p, i, t). length t)") auto

definition sorted_names :: "(ustr, ustr) dict \<Rightarrow> ustr list" where
  \<comment> \<open>\<open>sorted(member_map.keys(), key=len, reverse=True)\<close>\<close>
  "sorted_names mm = sort_key (\<lambda>s. - int (length s)) (map fst mm)"

fun longest_member_match ::
  "(codepoint \<Rightarrow> bool) \<Rightarrow> ustr \<Rightarrow> nat \<Rightarrow> (ustr, ustr) dict \<Rightarrow> ustr list \<Rightarrow> (ustr \<times> ustr) option" where
  \<comment> \<open>name and uid\<close>
  "longest_member_match W t pos mm [] = None"
| "longest_member_match W t pos mm (cand # cands) =
     (let after = drop (pos + 1) t; next_pos = pos + 1 + length cand in
      if take (length cand) after = cand \<and>
         (next_pos \<ge> length t \<or> \<not> name_char W (t ! next_pos)) \<and>
         (case dget mm cand of None \<Rightarrow> False | Some u \<Rightarrow> u \<noteq> [])
      then Some (cand, the (dget mm cand))
      else longest_member_match W t pos mm cands)"

definition lookup_member ::
  "(codepoint \<Rightarrow> bool) \<Rightarrow> ustr \<Rightarrow> (ustr, ustr) dict \<Rightarrow> nat \<times> ustr \<Rightarrow> (nat \<times> ustr \<times> ustr) option" where
  \<comment> \<open>start, matched name and uid of a plain mention\<close>
  "lookup_member W t mm p =
     (case p of (i, name) \<Rightarrow>
        (case longest_member_match W t i mm (sorted_names mm) of
           Some (matched, u) \<Rightarrow> Some (i, matched, u)
         | None \<Rightarrow> (case dget mm name of
                      Some u \<Rightarrow> if u \<noteq> [] then Some (i, name, u) else None
                    | None \<Rightarrow> None)))"

fun pair_uids :: "(nat \<times> ustr) list \<Rightarrow> raw_value list \<Rightarrow> (nat \<times> ustr \<times> ustr) list" where
  "pair_uids ((i, name) # ps) (v # vs) =
     (case as_text v of Some u \<Rightarrow> if u \<noteq> [] then [(i, name, u)] else [] | None \<Rightarrow> []) @ pair_uids ps vs"
| "pair_uids _ _ = []"

definition plain_mentions ::
  "(codepoint \<Rightarrow> bool) \<Rightarrow> ustr \<Rightarrow> (ustr, ustr) dict option \<Rightarrow> raw_value list \<Rightarrow> (nat \<times> ustr \<times> ustr) list" where
  "plain_mentions W t mm uids =
     (let ms = take MAX_INBOUND_MENTIONS (scan_mentions W None 0 t) in
      case mm of
        Some (d # ds) \<Rightarrow> List.map_filter (lookup_member W t (d # ds)) ms
      | _ \<Rightarrow> pair_uids ms uids)"

definition trusted_mentions ::
  "(codepoint \<Rightarrow> bool) \<Rightarrow> ustr \<Rightarrow> sidecar \<Rightarrow> (ustr, ustr) dict option \<Rightarrow>
   (nat \<times> nat \<times> ustr \<times> ustr) list" where
  \<comment> \<open>the replacements of \<open>convert_content_for_llm\<close>: start, end, uid and name\<close>
  "trusted_mentions W t m mm =
     (let ranges = entity_ranges t (entities_of m) in
      if ranges \<noteq> [] \<and> \<not> overlapping ranges
      then map (\<lambda>(e, a, b). (a, b, value_text (re_uid e), slice t (a + 1) b)) ranges
      else if (case mm of None \<Rightarrow> True | Some d \<Rightarrow> d = []) \<and> uids_of m = [] then []
      else map (\<lambda>(i, name, u). (i, i + 1 + length name, u, name))
             (sort_key (\<lambda>(i, _, _). i) (plain_mentions W t mm (uids_of m))))"

definition convert_content_for_llm ::
  "(codepoint \<Rightarrow> bool) \<Rightarrow> ustr option \<Rightarrow> raw_mention \<Rightarrow> (ustr, ustr) dict option \<Rightarrow> ustr" where
  \<comment> \<open>\<open>None\<close> is content that is not a string\<close>
  "convert_content_for_llm W content raw mm =
     (case content of
        None \<Rightarrow> []
      | Some t \<Rightarrow>
          (case coerce_mention raw of
             None \<Rightarrow> neutralize t
           | Some m \<Rightarrow>
               render_trusted t 0
                 (map (\<lambda>(a, b, u, name). (a, b, envelope u name)) (trusted_mentions W t m mm))))"

definition broadcast_name :: "ustr \<Rightarrow> bool" where
  \<comment> \<open>\<open>name.lower() == "all"\<close> or the Chinese for everybody\<close>
  "broadcast_name s \<longleftrightarrow>
     length s = 3 \<and> s ! 0 \<in> {0x61, 0x41} \<and> s ! 1 \<in> {0x6C, 0x4C} \<and> s ! 2 \<in> {0x6C, 0x4C} \<or>
     s = [0x6240, 0x6709, 0x4EBA]"

definition build_entities_from_fallback ::
  "(codepoint \<Rightarrow> bool) \<Rightarrow> ustr option \<Rightarrow> (ustr, ustr) dict \<Rightarrow> raw_entity list \<times> ustr list" where
  "build_entities_from_fallback W content mm =
     (case content of
        None \<Rightarrow> ([], [])
      | Some t \<Rightarrow>
          (let found = List.map_filter (lookup_member W t mm)
                 (filter (\<lambda>(i, name). \<not> broadcast_name name)
                   (take MAX_INBOUND_MENTIONS (scan_mentions W None 0 t)))
           in (map (\<lambda>(i, name, u). text_entity u (utf16_length (take i t)) (utf16_length (AT # name))) found,
               map (\<lambda>(i, name, u). u) found)))"

section \<open>Commands behind a mention of the bot\<close>

definition slash_rest :: "(codepoint \<Rightarrow> bool) \<Rightarrow> ustr \<Rightarrow> ustr option" where
  \<comment> \<open>\<open>\s*(/.*)$\<close>\<close>
  "slash_rest S t =
     (let r = dropWhile S t in if take 1 r = [SLASH] then Some r else None)"

definition strip_leading_self_mention_for_command ::
  "(codepoint \<Rightarrow> bool) \<Rightarrow> ustr \<Rightarrow> ustr \<Rightarrow> ustr \<Rightarrow> ustr" where
  "strip_leading_self_mention_for_command S bot_uid bot_name t =
     (let body = dropWhile S t;
          head = AT # LBRACK # bot_uid @ [COLON];
          by_uid =
            (if take (length head) body \<noteq> head then None
             else
               (let r = drop (length head) body; name = takeWhile envelope_char r;
                    r1 = dropWhile envelope_char r
                in if name = [] \<or> take 1 r1 \<noteq> [RBRACK] then None else slash_rest S (drop 1 r1)));
          named = AT # bot_name;
          by_name =
            (if bot_name = [] \<or> take (length named) body \<noteq> named then None
             else
               (let r = drop (length named) body
                in if r = [] \<or> \<not> S (hd r) then None else slash_rest S r))
      in if bot_uid = [] then t
         else case by_uid of Some c \<Rightarrow> c
              | None \<Rightarrow> (case by_name of Some c \<Rightarrow> c | None \<Rightarrow> t))"

end
