(* ===== verification/MentionSafety.thy ===== *)
theory MentionSafety
  imports Mention
begin

text \<open>
  Mentions, proved: offsets resolved by the bounded scan are those of the definition, converting a
  reply to the wire format and back gives the reply, and text cannot forge a mention. The
  hypotheses of the last are about what the code does not check: that the uid and the name of
  a mention cannot close the envelope they are written into.
\<close>

section \<open>UTF-16 offsets: the prefix scan against the definition of an offset\<close>

fun utf16_index :: "ustr \<Rightarrow> int \<Rightarrow> nat option" where
  \<comment> \<open>the number of characters in the first \<open>b\<close> code units, if they end between two characters\<close>
  "utf16_index [] b = (if b = 0 then Some 0 else None)"
| "utf16_index (c # cs) b =
     (if b = 0 then Some 0 else map_option Suc (utf16_index cs (b - int (utf16_units c))))"

definition located_range :: "ustr \<Rightarrow> raw_entity \<Rightarrow> (raw_entity \<times> nat \<times> nat) option" where
  \<comment> \<open>an entity on its own, without the sidecar it came in\<close>
  "located_range content e =
     (case valid_entity_value e of
        None \<Rightarrow> None
      | Some (i, n) \<Rightarrow>
          (case (utf16_index content i, utf16_index content (i + n)) of
             (Some a, Some b) \<Rightarrow>
               if a \<ge> b \<or> content ! a \<noteq> AT then None else Some (e, a, b)
           | _ \<Rightarrow> None))"

lemma utf16_index_zero [simp]: "utf16_index t 0 = Some 0"
  by (cases t) auto

lemma utf16_index_negative [simp]: "b < 0 \<Longrightarrow> utf16_index t b = None"
  by (induction t arbitrary: b) (auto simp: utf16_units_def)

lemma utf16_index_beyond: "b > 2 * int (length t) \<Longrightarrow> utf16_index t b = None"
  by (induction t arbitrary: b) (auto simp: utf16_units_def)

lemma utf16_index_bmp:
  "list_all (\<lambda>c. c \<le> 0xFFFF) (take (nat k) t) \<Longrightarrow> 0 \<le> b \<Longrightarrow> b \<le> k \<Longrightarrow>
   utf16_index t b = (if b \<le> int (length t) then Some (nat b) else None)"
proof (induction t arbitrary: b k)
  case Nil
  then show ?case by simp
next
  case (Cons c t)
  show ?case
  proof (cases "b = 0")
    case False
    then have k: "nat k = Suc (nat (k - 1))" and b: "0 \<le> b - 1" "b - 1 \<le> k - 1"
      using Cons.prems by auto
    have c: "utf16_units c = 1" and t: "list_all (\<lambda>c. c \<le> 0xFFFF) (take (nat (k - 1)) t)"
      using Cons.prems(1) unfolding k by (auto simp: utf16_units_def)
    show ?thesis
      using Cons.IH[OF t b] False b(1) c by (auto simp: Suc_nat_eq_nat_zadd1)
  qed auto
qed

lemma scan_boundaries_index:
  "b \<in> targets \<Longrightarrow> b \<le> limit \<Longrightarrow> b \<noteq> int n \<Longrightarrow>
   map_of (scan_boundaries targets limit i n t) b = map_option (\<lambda>k. i + k) (utf16_index t (b - int n))"
proof (induction t arbitrary: i n)
  case Nil
  then show ?case by simp
next
  case (Cons c t)
  let ?n = "n + utf16_units c"
  have index: "utf16_index (c # t) (b - int n) = map_option Suc (utf16_index t (b - int ?n))"
    using Cons.prems(3) by (simp add: diff_diff_eq)
  show ?case
  proof (cases "b = int ?n")
    case True
    then show ?thesis
      using Cons.prems(1) unfolding index by (simp add: Let_def)
  next
    case False
    then have "map_of (scan_boundaries targets limit i n (c # t)) b =
        (if int ?n \<ge> limit then None
         else map_option (\<lambda>k. i + 1 + k) (utf16_index t (b - int ?n)))"
      using Cons.IH[OF Cons.prems(1,2) False] by (simp add: Let_def)
    moreover have "utf16_index t (b - int ?n) = None" if "int ?n \<ge> limit"
      using that Cons.prems(2) False by simp
    ultimately show ?thesis
      unfolding index by (auto simp: option.map_comp comp_def)
  qed
qed

lemma scan_boundaries_targets:
  "b \<notin> targets \<Longrightarrow> map_of (scan_boundaries targets limit i n t) b = None"
  by (induction t arbitrary: i n) (auto simp: Let_def)

lemma utf16_boundaries_index:
  "map_of (utf16_boundaries t targets) b = (if b \<in> set targets then utf16_index t b else None)"
  using scan_boundaries_index[of b "set targets" "Max (set targets)" 0 0 t]
  by (auto simp: utf16_boundaries_def Let_def map_add_def scan_boundaries_targets option.map_ident
      split: option.splits)

lemma boundary_targets_iff:
  "b \<in> set (boundary_targets content es) \<longleftrightarrow>
   b \<le> 2 * int (length content) \<and>
   (\<exists>e\<in>set es. \<exists>i n. valid_entity_value e = Some (i, n) \<and> (b = i \<or> b = i + n))"
proof -
  have "b \<in> set (case v of None \<Rightarrow> [] | Some (i, n) \<Rightarrow> [i, i + n]) \<longleftrightarrow>
      (\<exists>i n. v = Some (i, n) \<and> (b = i \<or> b = i + n))" for v :: "(int \<times> int) option"
    by (cases v) auto
  then show ?thesis by (simp add: boundary_targets_def conj_commute)
qed

lemma valid_entity_value_bounds:
  "valid_entity_value e = Some (i, n) \<Longrightarrow> 0 \<le> i \<and> 0 < n"
  by (auto simp: valid_entity_value_def split: raw_value.splits if_splits)

lemma entity_locator_index:
  assumes "e \<in> set es" "valid_entity_value e = Some (i, n)" "b = i \<or> b = i + n"
  shows "entity_locator content es b = utf16_index content b"
proof -
  let ?ts = "boundary_targets content es"
  have b0: "0 \<le> b" using valid_entity_value_bounds[OF assms(2)] assms(3) by auto
  have far: "entity_locator content es b = utf16_index content b" if "b \<notin> set ?ts"
  proof -
    have long: "b > 2 * int (length content)"
      using that assms unfolding boundary_targets_iff by force
    then have "\<not> b \<le> int (length content)" using b0 by linarith
    then show ?thesis
      using that utf16_index_beyond[OF long]
      by (simp add: entity_locator_def Let_def utf16_boundaries_index)
  qed
  have near: "entity_locator content es b = utf16_index content b" if t: "b \<in> set ?ts"
  proof (cases "list_all (\<lambda>c. c \<le> 0xFFFF) (take (nat (Max (set ?ts))) content)")
    case True
    have "b \<le> Max (set ?ts)" using t by simp
    from utf16_index_bmp[OF True b0 this] t True show ?thesis
      by (auto simp: entity_locator_def Let_def)
  next
    case False
    then show ?thesis using t
      by (auto simp: entity_locator_def Let_def utf16_boundaries_index)
  qed
  show ?thesis using far near by blast
qed

lemma entity_range_located:
  assumes "e \<in> set es"
  shows "entity_range content es e = located_range content e"
proof (cases "valid_entity_value e")
  case None
  then show ?thesis by (simp add: entity_range_def located_range_def)
next
  case (Some p)
  obtain i n where p: "p = (i, n)" by (cases p)
  have "entity_locator content es i = utf16_index content i"
    and "entity_locator content es (i + n) = utf16_index content (i + n)"
    using entity_locator_index[OF assms Some[unfolded p]] by blast+
  then show ?thesis
    by (simp add: entity_range_def located_range_def Some p split: option.split)
qed

lemma utf16_length_append [simp]: "utf16_length (s @ t) = utf16_length s + utf16_length t"
  by (simp add: utf16_length_def)

lemma utf16_length_Nil [simp]: "utf16_length [] = 0"
  by (simp add: utf16_length_def)

lemma utf16_length_Cons [simp]: "utf16_length (c # t) = utf16_units c + utf16_length t"
  by (simp add: utf16_length_def)

lemma utf16_units_pos [simp]: "0 < utf16_units c"
  by (simp add: utf16_units_def)

lemma utf16_index_length: "utf16_index (s @ t) (int (utf16_length s)) = Some (length s)"
  by (induction s) (auto simp: utf16_units_def)

lemma utf16_index_inverse:
  "utf16_index t b = Some k \<Longrightarrow> k \<le> length t \<and> b = int (utf16_length (take k t))"
proof (induction t arbitrary: b k)
  case Nil
  then show ?case by (simp split: if_split_asm)
next
  case (Cons c t)
  then show ?case
    by (cases "b = 0") (fastforce)+
qed

section \<open>The tokens of a reply\<close>

fun tiled :: "ustr \<Rightarrow> nat \<Rightarrow> structured_mention list \<Rightarrow> bool" where
  \<comment> \<open>the mentions are tokens of the text, in order and apart\<close>
  "tiled t i [] = (i \<le> length t)"
| "tiled t i (m # ms) =
     (i \<le> sm_offset m \<and> sm_offset m + sm_length m \<le> length t \<and>
      slice t (sm_offset m) (sm_offset m + sm_length m) = envelope (sm_uid m) (sm_name m) \<and>
      sm_uid m \<noteq> [] \<and> sm_name m \<noteq> [] \<and> tiled t (sm_offset m + sm_length m) ms)"

lemma take_append_takeWhile:
  "take 1 (dropWhile P s) = [x] \<Longrightarrow> s = takeWhile P s @ x # drop 1 (dropWhile P s)"
  by (metis append.left_neutral append_Cons append_take_drop_id takeWhile_dropWhile_id)

lemma match_structured_prefix:
  assumes "match_structured W t = Some (uid, name)"
  shows "t = envelope uid name @ drop (length (envelope uid name)) t"
    and "uid \<noteq> []" "name \<noteq> []" "list_all (uid_char W) uid" "list_all envelope_char name"
proof -
  let ?t0 = "drop 2 t"
  let ?t1 = "dropWhile (uid_char W) ?t0"
  let ?t2 = "dropWhile envelope_char (drop 1 ?t1)"
  from assms have h: "take 2 t = [AT, LBRACK]" "uid = takeWhile (uid_char W) ?t0" "uid \<noteq> []"
      "take 1 ?t1 = [COLON]" "name = takeWhile envelope_char (drop 1 ?t1)" "name \<noteq> []"
      "take 1 ?t2 = [RBRACK]"
    by (auto simp: match_structured_def Let_def split: if_split_asm)
  have "t = take 2 t @ ?t0" by simp
  also have "\<dots> = [AT, LBRACK] @ uid @ COLON # drop 1 ?t1"
    unfolding h(1) using take_append_takeWhile[OF h(4)] unfolding h(2) by simp
  also have "drop 1 ?t1 = name @ RBRACK # drop 1 ?t2"
    using take_append_takeWhile[OF h(7)] unfolding h(5) .
  finally have t: "t = envelope uid name @ drop 1 ?t2" by (simp add: envelope_def)
  then have "drop (length (envelope uid name)) t = drop 1 ?t2"
    by (metis append_eq_conv_conj)
  with t show "t = envelope uid name @ drop (length (envelope uid name)) t" by simp
  show "uid \<noteq> []" "name \<noteq> []" by fact+
  show "list_all (uid_char W) uid" unfolding h(2) by (simp add: list_all_iff) (meson set_takeWhileD)
  show "list_all envelope_char name" unfolding h(5) by (simp add: list_all_iff) (meson set_takeWhileD)
qed

lemma scan_structured_tiled: "drop i t = s \<Longrightarrow> i \<le> length t \<Longrightarrow> tiled t i (scan_structured W i s)"
proof (induction W i s rule: scan_structured.induct)
  case (1 W i)
  then show ?case by simp
next
  case (2 W i c s)
  have tl: "drop (i + n) t = drop n (c # s)" for n using 2(3) by (metis add.commute drop_drop)
  show ?case
  proof (cases "match_structured W (c # s)")
    case None
    have "drop (i + 1) t = s" "i + 1 \<le> length t"
      using tl[of 1] 2(3,4) by (auto simp: Suc_le_eq intro: ccontr)
    then have "tiled t (i + 1) (scan_structured W (i + 1) s)" using 2(1) None by blast
    moreover have "tiled t (Suc i) ms \<Longrightarrow> tiled t i ms" for ms by (cases ms) auto
    ultimately show ?thesis using None by simp
  next
    case (Some p)
    obtain uid name where p: "p = (uid, name)" by (cases p)
    note pre = match_structured_prefix[OF Some[unfolded p]]
    let ?e = "envelope uid name"
    have len: "i + length ?e \<le> length t"
      using arg_cong[OF pre(1), of length] 2(3,4) by (metis (no_types, lifting) add_le_cancel_left
          drop_append le_add1 length_append length_drop le_add_diff_inverse)
    have "slice t i (i + length ?e) = ?e"
      unfolding slice_def 2(3) using pre(1) by (metis add_diff_cancel_left' append_eq_conv_conj)
    moreover have "tiled t (i + length ?e) (scan_structured W (i + length ?e) (drop (length ?e) (c # s)))"
      using 2(2)[OF Some _ refl] p tl[of "length ?e"] len by blast
    ultimately show ?thesis using Some p pre(2,3) len by (simp add: Let_def)
  qed
qed

lemma parse_tiled: "tiled t 0 (parse_structured_mentions W t)"
  unfolding parse_structured_mentions_def by (rule scan_structured_tiled) auto

lemma tiled_sorted: "tiled t i ms \<Longrightarrow> sorted (map sm_offset ms) \<and> (\<forall>m\<in>set ms. i \<le> sm_offset m)"
  by (induction ms arbitrary: i) fastforce+

lemma tiled_le: "tiled t i ms \<Longrightarrow> i \<le> length t"
  by (cases ms) auto

section \<open>Converting a reply and reading it back\<close>

fun apart :: "nat \<Rightarrow> ('a \<times> nat \<times> nat) list \<Rightarrow> bool" where
  "apart i [] = True"
| "apart i ((_, a, b) # rs) = (i \<le> a \<and> a < b \<and> apart b rs)"

lemma apart_not_overlapping: "apart i rs \<Longrightarrow> \<not> overlapping rs"
  by (induction rs arbitrary: i rule: overlapping.induct) auto

lemma apart_starts: "apart i rs \<Longrightarrow> sorted (map (\<lambda>(_, a, _). a) rs) \<and> (\<forall>(e, a, b)\<in>set rs. i \<le> a)"
  by (induction rs arbitrary: i) fastforce+

definition entity_replacement :: "ustr \<Rightarrow> raw_entity \<times> nat \<times> nat \<Rightarrow> nat \<times> nat \<times> ustr" where
  "entity_replacement t = (\<lambda>(e, a, b). (a, b, envelope (value_text (re_uid e)) (slice t (a + 1) b)))"

definition token :: "structured_mention \<Rightarrow> nat \<times> nat \<times> ustr" where
  "token m = (sm_offset m, sm_offset m + sm_length m, envelope (sm_uid m) (sm_name m))"

definition all_valid :: "ustr list option \<Rightarrow> structured_mention list \<Rightarrow> bool" where
  "all_valid valid ms \<longleftrightarrow> (case valid of None \<Rightarrow> True | Some us \<Rightarrow> \<forall>m\<in>set ms. sm_uid m \<in> set us)"

lemma located_text_entity:
  assumes "uid \<noteq> []"
  shows "located_range (pre @ (AT # name) @ rest)
           (text_entity uid (utf16_length pre) (utf16_length (AT # name))) =
         Some (text_entity uid (utf16_length pre) (utf16_length (AT # name)),
               length pre, length pre + 1 + length name)"
proof -
  have "utf16_index (pre @ (AT # name) @ rest) (int (utf16_length pre)) = Some (length pre)"
    by (rule utf16_index_length)
  moreover have "utf16_index (pre @ (AT # name) @ rest)
      (int (utf16_length pre) + int (utf16_length (AT # name))) = Some (length pre + 1 + length name)"
    using utf16_index_length[of "pre @ AT # name" rest] by simp
  moreover have "valid_entity_value (text_entity uid (utf16_length pre) (utf16_length (AT # name))) =
      Some (int (utf16_length pre), int (utf16_length (AT # name)))"
    using assms by (simp add: valid_entity_value_def text_entity_def utf16_units_def)
  moreover have "(pre @ (AT # name) @ rest) ! length pre = AT" by (simp add: nth_append)
  ultimately show ?thesis
    unfolding located_range_def by simp
qed

lemma slice_middle: "slice (p @ s @ r) (length p) (length p + length s) = s"
  by (simp add: slice_def)

lemma convert_from_located:
  assumes "tiled t cursor ms" "all_valid valid ms" "running = utf16_length p"
    and "convert_from t valid cursor running ms = (content, ents, uids)"
  shows "\<exists>rs. List.map_filter (located_range (p @ content)) ents = rs \<and> length rs = length ms \<and>
    apart (length p) rs \<and>
    render_trusted (p @ content) (length p) (map (entity_replacement (p @ content)) rs) =
    render_trusted t cursor (map token ms)"
  using assms
proof (induction ms arbitrary: cursor running p content ents uids)
  case Nil
  then show ?case by (simp add: map_filter_def)
next
  case (Cons m ms)
  let ?bt = "slice t cursor (sm_offset m)"
  let ?repl = "AT # sm_name m"
  let ?n = "running + utf16_length ?bt"
  let ?next = "sm_offset m + sm_length m"
  obtain content' ents' uids' where rest:
    "convert_from t valid ?next (?n + utf16_length ?repl) ms = (content', ents', uids')"
    by (metis prod_cases3)
  have ok: "(case valid of None \<Rightarrow> True | Some us \<Rightarrow> sm_uid m \<in> set us)" "all_valid valid ms"
    using Cons.prems(2) by (auto simp: all_valid_def split: option.splits)
  let ?e = "text_entity (sm_uid m) ?n (utf16_length ?repl)"
  have content: "content = ?bt @ ?repl @ content'" and ents: "ents = ?e # ents'"
    using Cons.prems(4) rest ok(1) by (auto simp: Let_def)
  let ?p = "p @ ?bt @ ?repl"
  have full: "p @ content = ?p @ content'" by (simp add: content)
  have len: "?n + utf16_length ?repl = utf16_length ?p" and n: "?n = utf16_length (p @ ?bt)"
    using Cons.prems(3) by simp_all
  have t: "tiled t ?next ms" "sm_uid m \<noteq> []" using Cons.prems(1) by auto
  obtain rs where rs: "List.map_filter (located_range (?p @ content')) ents' = rs" "length rs = length ms"
    "apart (length ?p) rs"
    "render_trusted (?p @ content') (length ?p) (map (entity_replacement (?p @ content')) rs) =
     render_trusted t ?next (map token ms)"
    using Cons.IH[OF t(1) ok(2) len rest] by blast
  let ?r = "(?e, length (p @ ?bt), length (p @ ?bt) + 1 + length (sm_name m))"
  have head: "located_range (p @ content) ?e = Some ?r"
    using located_text_entity[OF t(2), of "p @ ?bt" "sm_name m" content'] unfolding n content by simp
  have repl: "entity_replacement (p @ content) ?r =
      (length (p @ ?bt), length ?p, envelope (sm_uid m) (sm_name m))"
    using slice_middle[of "p @ ?bt @ [AT]" "sm_name m" content']
    by (simp add: entity_replacement_def content text_entity_def)
  have gap: "slice (p @ content) (length p) (length (p @ ?bt)) = ?bt"
    using slice_middle[of p ?bt "?repl @ content'"] unfolding content by simp
  have "List.map_filter (located_range (p @ content)) ents = ?r # rs"
    unfolding ents using rs(1) head full by (simp add: map_filter_simps)
  moreover have "apart (length p) (?r # rs)" using rs(3) by (simp add: add.assoc)
  moreover have "render_trusted (p @ content) (length p) (map (entity_replacement (p @ content)) (?r # rs)) =
      render_trusted t cursor (map token (m # ms))"
    unfolding list.map repl render_trusted.simps gap token_def[of m] rs(4)[folded full] ..
  ultimately show ?case using rs(2) by simp
qed

lemma sorted_parse: "sort_key sm_offset (parse_structured_mentions W t) = parse_structured_mentions W t"
  using tiled_sorted[OF parse_tiled] by (simp add: sort_key_id_if_sorted)

lemma entity_ranges_located:
  "entity_ranges content es = sort_key (\<lambda>(_, a, _). a) (List.map_filter (located_range content) es)"
  unfolding entity_ranges_def
  by (rule arg_cong[of _ _ "sort_key (\<lambda>(_, a, _). a)"])
    (auto simp: map_filter_def entity_range_located intro!: map_cong filter_cong)

fun gaps :: "ustr \<Rightarrow> nat \<Rightarrow> structured_mention list \<Rightarrow> ustr list" where
  \<comment> \<open>the text around the tokens\<close>
  "gaps t i [] = [drop i t]"
| "gaps t i (m # ms) = slice t i (sm_offset m) # gaps t (sm_offset m + sm_length m) ms"

definition has_envelope :: "ustr \<Rightarrow> bool" where
  "has_envelope s \<longleftrightarrow> (\<exists>u v. s = u @ AT # LBRACK # v)"

lemma has_envelope_Cons: "has_envelope (c # s) \<longleftrightarrow> c = AT \<and> take 1 s = [LBRACK] \<or> has_envelope s"
  unfolding has_envelope_def
  by (cases s) (auto simp: Cons_eq_append_conv)

lemma neutralize_id: "\<not> has_envelope s \<Longrightarrow> neutralize s = s"
  by (induction s rule: neutralize.induct) (auto simp: has_envelope_Cons)

lemma neutralize_clean: "\<not> has_envelope (neutralize s)"
proof (induction s rule: neutralize.induct)
  case (1 a b t)
  have hd: "take 1 (neutralize (b # t)) = [LBRACK] \<Longrightarrow> b = LBRACK"
    by (cases t) (auto simp: cp_defs split: if_split_asm)
  show ?case
    using 1 hd by (auto simp: has_envelope_Cons cp_defs)
qed (auto simp: has_envelope_def)

lemma render_tokens:
  "tiled t i ms \<Longrightarrow> \<forall>g\<in>set (gaps t i ms). \<not> has_envelope g \<Longrightarrow>
   render_trusted t i (map token ms) = drop i t"
proof (induction ms arbitrary: i)
  case Nil
  then show ?case by (simp add: neutralize_id)
next
  case (Cons m ms)
  let ?b = "sm_offset m + sm_length m"
  have "drop i t = slice t i (sm_offset m) @ drop (sm_offset m) t"
    using Cons.prems(1) by (simp add: slice_def) (metis append_take_drop_id drop_drop le_add_diff_inverse2)
  also have "drop (sm_offset m) t = slice t (sm_offset m) ?b @ drop ?b t"
    by (simp add: slice_def) (metis append_take_drop_id drop_drop add.commute)
  finally show ?case
    using Cons by (simp add: token_def neutralize_id)
qed

section \<open>What a reader of the converted text can parse\<close>

definition named :: "structured_mention list \<Rightarrow> (ustr \<times> ustr) list" where
  "named ms = map (\<lambda>m. (sm_uid m, sm_name m)) ms"

definition mentions_for ::
  "(codepoint \<Rightarrow> bool) \<Rightarrow> ustr \<Rightarrow> raw_mention \<Rightarrow> (ustr, ustr) dict option \<Rightarrow> (nat \<times> nat \<times> ustr \<times> ustr) list" where
  "mentions_for W t raw mm =
     (case coerce_mention raw of None \<Rightarrow> [] | Some m \<Rightarrow> trusted_mentions W t m mm)"

definition well_formed_mention :: "(codepoint \<Rightarrow> bool) \<Rightarrow> ustr \<Rightarrow> ustr \<Rightarrow> bool" where
  "well_formed_mention W u name \<longleftrightarrow>
     u \<noteq> [] \<and> list_all (uid_char W) u \<and> name \<noteq> [] \<and> list_all envelope_char name"

lemma convert_for_llm_render:
  "convert_content_for_llm W (Some t) raw mm =
   render_trusted t 0 (map (\<lambda>(a, b, u, name). (a, b, envelope u name)) (mentions_for W t raw mm))"
  by (simp add: convert_content_for_llm_def mentions_for_def split: option.split)

lemma takeWhile_stop: "list_all P s \<Longrightarrow> \<not> P x \<Longrightarrow> takeWhile P (s @ x # r) = s"
  by (simp add: list_all_iff takeWhile_tail)

lemma dropWhile_stop: "list_all P s \<Longrightarrow> \<not> P x \<Longrightarrow> dropWhile P (s @ x # r) = x # r"
  by (simp add: list_all_iff dropWhile_append3)

lemma match_envelope:
  assumes "\<not> W COLON" "well_formed_mention W u name"
  shows "match_structured W (envelope u name @ r) = Some (u, name)"
proof -
  have c: "\<not> uid_char W COLON" "\<not> envelope_char RBRACK"
    using assms(1) by (auto simp: uid_char_def envelope_char_def cp_defs)
  show ?thesis
    using assms(2) c
    by (simp add: match_structured_def envelope_def well_formed_mention_def takeWhile_stop dropWhile_stop)
qed

lemma scan_envelope:
  assumes "\<not> W COLON" "well_formed_mention W u name"
  shows "named (scan_structured W i (envelope u name @ r)) =
         (u, name) # named (scan_structured W (i + length (envelope u name)) r)"
proof -
  obtain c s where e: "envelope u name @ r = c # s" by (auto simp: envelope_def)
  have "drop (length (envelope u name)) (c # s) = r" unfolding e[symmetric] by simp
  then show ?thesis
    using match_envelope[OF assms, of r] unfolding e by (simp add: named_def Let_def)
qed

lemma scan_clean:
  "\<not> has_envelope s \<Longrightarrow> take 1 r \<noteq> [LBRACK] \<Longrightarrow>
   scan_structured W i (s @ r) = scan_structured W (i + length s) r"
proof (induction s arbitrary: i)
  case (Cons c s)
  have "match_structured W (c # s @ r) = None"
    using Cons.prems by (cases s; cases r) (auto simp: match_structured_def has_envelope_Cons)
  then show ?case using Cons by (simp add: has_envelope_Cons)
qed simp

lemma scan_render:
  assumes "\<not> W COLON"
  shows "\<forall>(a, b, u, name)\<in>set ts. well_formed_mention W u name \<Longrightarrow>
   named (scan_structured W i
     (render_trusted t cursor (map (\<lambda>(a, b, u, name). (a, b, envelope u name)) ts))) =
   map (\<lambda>(a, b, u, name). (u, name)) ts"
proof (induction ts arbitrary: i cursor)
  case Nil
  then show ?case
    using scan_clean[OF neutralize_clean[of "drop cursor t"], of "[]" W i] by (simp add: named_def)
next
  case (Cons r ts)
  obtain a b u name where r: "r = (a, b, u, name)" by (cases r)
  have w: "well_formed_mention W u name" using Cons.prems r by simp
  have e: "take 1 (envelope u name @ q) \<noteq> [LBRACK]" for q by (simp add: envelope_def cp_defs)
  show ?case
    using Cons.IH Cons.prems r
    by (simp add: scan_clean[OF neutralize_clean e] scan_envelope[OF assms w])
qed

lemma scan_mentions_at:
  "drop k t = s \<Longrightarrow> k \<le> length t \<Longrightarrow> (i, name) \<in> set (scan_mentions W prev k s) \<Longrightarrow>
   i < length t \<and> t ! i = AT \<and> slice t (i + 1) (i + 1 + length name) = name"
proof (induction W prev k s rule: scan_mentions.induct)
  case (1 W prev k)
  then show ?case by simp
next
  case (2 W prev k c s)
  let ?name = "takeWhile (name_char W) s"
  let ?hit = "c = AT \<and> (case prev of None \<Rightarrow> True | Some p \<Rightarrow> \<not> ascii_alnum p) \<and> ?name \<noteq> []"
  have k1: "k < length t" using 2(3) by (metis drop_all linorder_not_le list.distinct(1))
  then have "c # s = t ! k # drop (k + 1) t" using 2(3) by (metis Cons_nth_drop_Suc Suc_eq_plus1)
  with k1 have k: "k < length t" "t ! k = c" "drop (k + 1) t = s" by simp_all
  have tl: "drop (k + 1 + n) t = drop n s" for n unfolding k(3)[symmetric] by (simp add: add.commute)
  have at_name: "slice t (k + 1) (k + 1 + length ?name) = ?name"
    unfolding slice_def k(3) by (simp add: takeWhile_eq_take[symmetric])
  have le: "k + 1 + length ?name \<le> length t"
    using length_takeWhile_le[of "name_char W" s] k(1) unfolding k(3)[symmetric] by simp
  show ?case
  proof (cases ?hit)
    case True
    then have "(i, name) = (k, ?name) \<or>
        (i, name) \<in> set (scan_mentions W (Some (last ?name)) (k + 1 + length ?name) (drop (length ?name) s))"
      using 2(5) by (simp add: Let_def)
    then show ?thesis
      using True k(1,2) at_name 2(1)[OF refl True tl le] by auto
  next
    case False
    from 2(5) have "(i, name) \<in> set (scan_mentions W (Some c) (k + 1) s)"
      unfolding scan_mentions.simps Let_def if_not_P[OF False] .
    then show ?thesis using 2(2)[OF refl False k(3)] k(1) by simp
  qed
qed

lemma longest_member_match_found:
  "longest_member_match W t pos mm cs = Some (name, u) \<Longrightarrow>
   slice t (pos + 1) (pos + 1 + length name) = name \<and> dget mm name = Some u \<and> name \<in> set cs"
  by (induction cs) (auto simp: Let_def slice_def split: if_split_asm option.splits)

lemma lookup_member_found:
  assumes "lookup_member W t mm p = Some (i, name, u)"
    and p: "slice t (fst p + 1) (fst p + 1 + length (snd p)) = snd p"
  shows "i = fst p \<and> slice t (i + 1) (i + 1 + length name) = name \<and> u \<in> snd ` set mm"
  using assms longest_member_match_found[of W t "fst p" mm "sorted_names mm" name u]
  by (auto simp: lookup_member_def split: prod.splits option.splits if_split_asm dest!: dget_mem
      intro: rev_image_eqI)

lemma pair_uids_found:
  "(i, name, u) \<in> set (pair_uids ps vs) \<Longrightarrow> (i, name) \<in> set ps \<and> VStr u \<in> set vs"
proof (induction ps vs rule: pair_uids.induct)
  case (1 i' name' ps v vs)
  then show ?case by (cases v) (auto split: if_split_asm)
qed auto

lemma plain_mentions_found:
  assumes "(i, name, u) \<in> set (plain_mentions W t mm uids)"
  shows "i < length t \<and> t ! i = AT \<and> slice t (i + 1) (i + 1 + length name) = name \<and>
    (VStr u \<in> set uids \<or> (\<exists>d. mm = Some d \<and> u \<in> snd ` set d))"
proof -
  let ?ms = "take MAX_INBOUND_MENTIONS (scan_mentions W None 0 t)"
  have scan: "a < length t \<and> t ! a = AT \<and> slice t (a + 1) (a + 1 + length s) = s"
    if "(a, s) \<in> set ?ms" for a s
    using that scan_mentions_at[of 0 t t a s W None] by (auto dest: in_set_takeD)
  show ?thesis
  proof (cases "\<exists>d ds. mm = Some (d # ds)")
    case True
    then obtain d ds p where mm: "mm = Some (d # ds)" and p: "p \<in> set ?ms"
      "lookup_member W t (d # ds) p = Some (i, name, u)"
      using assms by (auto simp: plain_mentions_def map_filter_def)
    then show ?thesis
      using lookup_member_found[OF p(2)] scan[of "fst p" "snd p"] by auto
  next
    case False
    then have "plain_mentions W t mm uids = pair_uids ?ms uids"
      by (cases mm) (auto simp: plain_mentions_def Let_def split: list.split)
    then have "(i, name, u) \<in> set (pair_uids ?ms uids)" using assms by simp
    then show ?thesis using pair_uids_found scan by blast
  qed
qed

lemma located_range_at:
  assumes "located_range t e = Some (e', a, b)"
  shows "e' = e \<and> a < b \<and> b \<le> length t \<and> t ! a = AT"
proof -
  from assms obtain i n where "utf16_index t (i + n) = Some b" "e' = e" "a < b" "t ! a = AT"
    by (auto simp: located_range_def split: option.splits if_split_asm)
  then show ?thesis using utf16_index_inverse by blast
qed

lemma entity_ranges_found:
  assumes "(e, a, b) \<in> set (entity_ranges t es)"
  shows "e \<in> set es \<and> located_range t e = Some (e, a, b)"
proof -
  from assms obtain e' where "e' \<in> set es" "located_range t e' = Some (e, a, b)"
    by (auto simp: entity_ranges_located map_filter_def)
  then show ?thesis using located_range_at by blast
qed

lemma trusted_mentions_found:
  assumes "(a, b, u, name) \<in> set (trusted_mentions W t m mm)"
  shows "t ! a = AT \<and> a < length t \<and> slice t (a + 1) b = name \<and>
    (u \<in> value_text ` re_uid ` set (entities_of m) \<or> VStr u \<in> set (uids_of m) \<or>
     (\<exists>d. mm = Some d \<and> u \<in> snd ` set d))"
proof -
  let ?v2 = "map (\<lambda>(e, a, b). (a, b, value_text (re_uid e), slice t (a + 1) b)) (entity_ranges t (entities_of m))"
  let ?v1 = "map (\<lambda>(i, name, u). (i, i + 1 + length name, u, name))
    (sort_key (\<lambda>(i, _, _). i) (plain_mentions W t mm (uids_of m)))"
  have "trusted_mentions W t m mm \<in> {?v2, [], ?v1}" by (simp add: trusted_mentions_def Let_def)
  then consider "(a, b, u, name) \<in> set ?v2" | "(a, b, u, name) \<in> set ?v1" using assms by fastforce
  then show ?thesis
  proof cases
    case 1
    then obtain e where "(e, a, b) \<in> set (entity_ranges t (entities_of m))" "u = value_text (re_uid e)"
      "name = slice t (a + 1) b" by auto
    moreover from this(1) have "e \<in> set (entities_of m)" "a < b \<and> b \<le> length t \<and> t ! a = AT"
      using entity_ranges_found located_range_at by blast+
    ultimately show ?thesis by (metis image_eqI less_le_trans)
  next
    case 2
    then obtain p where p: "p \<in> set (plain_mentions W t mm (uids_of m))"
      "(a, b, u, name) = (case p of (i, name, u) \<Rightarrow> (i, i + 1 + length name, u, name))"
      unfolding set_map set_sort by (rule imageE)
    obtain i n v where q: "p = (i, n, v)" by (rule prod_cases3)
    have "p = (a, name, u) \<and> b = a + 1 + length name" using p(2) unfolding q by simp
    then show ?thesis using plain_mentions_found[of a name u W t mm "uids_of m"] p(1) by blast
  qed
qed

section \<open>Fallback entities and self mentions\<close>

lemma slice_split: "a \<le> b \<Longrightarrow> b \<le> length t \<Longrightarrow> t = take a t @ slice t a b @ drop b t"
  unfolding slice_def
  by (metis append.assoc append_take_drop_id le_add_diff_inverse take_add)

lemma slice_full_length:
  assumes "slice t a (a + length s) = s" "a \<le> length t"
  shows "a + length s \<le> length t"
proof -
  have "min (length t - a) (length s) = length s"
    using arg_cong[OF assms(1), of length] unfolding slice_def by simp
  then show ?thesis using assms(2) by linarith
qed

text \<open>Each entity built for a plain \<open>@name\<close> is found again at the place it was built for.\<close>

lemma fallback_entities_located:
  assumes "build_entities_from_fallback W (Some t) mm = (ents, uids)" "e \<in> set ents"
  shows "\<exists>i name u. e = text_entity u (utf16_length (take i t)) (utf16_length (AT # name)) \<and>
    u \<in> set uids \<and> u \<in> snd ` set mm \<and>
    (u \<noteq> [] \<longrightarrow> located_range t e = Some (e, i, i + 1 + length name))"
proof -
  let ?ps = "filter (\<lambda>(i, name). \<not> broadcast_name name)
    (take MAX_INBOUND_MENTIONS (scan_mentions W None 0 t))"
  let ?found = "List.map_filter (lookup_member W t mm) ?ps"
  have ents: "ents = map (\<lambda>(i, name, u). text_entity u (utf16_length (take i t)) (utf16_length (AT # name))) ?found"
    and uids: "uids = map (\<lambda>(i, name, u). u) ?found"
    using assms(1) unfolding build_entities_from_fallback_def option.case Let_def prod.inject by blast+
  obtain q where q: "q \<in> set ?found" 
    "e = (case q of (i, name, u) \<Rightarrow> text_entity u (utf16_length (take i t)) (utf16_length (AT # name)))"
    using assms(2) unfolding ents set_map by (rule imageE)
  obtain i name u where i: "q = (i, name, u)" by (rule prod_cases3)
  obtain p where "p \<in> set ?ps" and p2: "lookup_member W t mm p = Some (i, name, u)"
    using q(1) unfolding i by (auto simp: map_filter_def)
  then have p1: "p \<in> set (scan_mentions W None 0 t)" by (auto dest: in_set_takeD)
  have "u \<in> set uids" unfolding uids set_map using q(1) i by (force intro: rev_image_eqI)
  note p = p1 p2 this
  have e: "e = text_entity u (utf16_length (take i t)) (utf16_length (AT # name))"
    using q(2) unfolding i by simp
  have at: "fst p < length t \<and> t ! fst p = AT \<and> slice t (fst p + 1) (fst p + 1 + length (snd p)) = snd p"
    using scan_mentions_at[of 0 t t "fst p" "snd p" W None] p(1) by simp
  have f: "i = fst p" "slice t (i + 1) (i + 1 + length name) = name" "u \<in> snd ` set mm"
    using lookup_member_found[OF p(2)] at by auto
  have le: "i + 1 + length name \<le> length t"
    using slice_full_length[OF f(2)] at f(1) by simp
  have "t = take i t @ (AT # name) @ drop (i + 1 + length name) t"
  proof -
    have "t = take (i + 1) t @ name @ drop (i + 1 + length name) t"
      using slice_split[of "i + 1" "i + 1 + length name" t] le f(2) by simp
    also have "take (i + 1) t = take i t @ [AT]"
      using at f(1) by (simp add: take_Suc_conv_app_nth)
    finally show ?thesis by simp
  qed
  moreover have "length (take i t) = i" using at f(1) by simp
  ultimately have "u \<noteq> [] \<longrightarrow> located_range t e = Some (e, i, i + 1 + length name)"
    unfolding e using located_text_entity[of u "take i t" name "drop (i + 1 + length name) t"] by metis
  with e p(3) f(3) show ?thesis by blast
qed

text \<open>Only a routing mention in front of a command is cut off; nothing else of the text is changed.\<close>

lemma suffix_slash_rest: "slash_rest S t = Some r \<Longrightarrow> take 1 r = [SLASH] \<and> (\<exists>p. t = p @ r)"
  by (auto simp: slash_rest_def Let_def split: if_split_asm)
    (metis takeWhile_dropWhile_id)+

lemma strip_exposes_command:
  assumes "strip_leading_self_mention_for_command S bot_uid bot_name t = r" "r \<noteq> t"
  shows "bot_uid \<noteq> [] \<and> take 1 r = [SLASH] \<and> (\<exists>p. t = p @ r)"
proof -
  have suf: "\<exists>p. t = p @ drop k (dropWhile S t)" for k
    by (metis append.assoc append_take_drop_id takeWhile_dropWhile_id)
  have sfx: "\<exists>p. s = p @ dropWhile P s" "\<exists>p. s = p @ drop k s" for s :: ustr and P k
    by (metis takeWhile_dropWhile_id, metis append_take_drop_id)
  obtain s where s: "slash_rest S s = Some r" "\<exists>p. t = p @ s" and b: "bot_uid \<noteq> []"
  proof -
    let ?body = "dropWhile S t"
    let ?r = "drop (length (AT # LBRACK # bot_uid @ [COLON])) ?body"
    let ?s1 = "drop 1 (dropWhile envelope_char ?r)"
    let ?s2 = "drop (length (AT # bot_name)) ?body"
    have "\<exists>p. t = p @ ?s1" using suf sfx by (metis append.assoc)
    moreover have "\<exists>p. t = p @ ?s2" using suf by blast
    moreover have "bot_uid \<noteq> [] \<and> (slash_rest S ?s1 = Some r \<or> slash_rest S ?s2 = Some r)"
      using assms
      by (auto simp: strip_leading_self_mention_for_command_def Let_def
          split: if_split_asm option.splits)
    ultimately show ?thesis using that by blast
  qed
  then show ?thesis using suffix_slash_rest[OF s(1)] by (metis append.assoc)
qed

section \<open>Properties\<close>

text \<open>C34. The offsets of an entity are resolved one by one: whatever else the sidecar holds and
  whichever of the two strategies is taken, an entity gets exactly the range of characters that
  its UTF-16 code units delimit, and none if an end falls outside the text or inside a
  surrogate pair.\<close>

theorem entity_ranges_exact:
  "entity_ranges content es = sort_key (\<lambda>(_, a, _). a) (List.map_filter (located_range content) es) \<and>
   (\<forall>e a b. (e, a, b) \<in> set (entity_ranges content es) \<longrightarrow>
      a < b \<and> b \<le> length content \<and> content ! a = AT \<and>
      re_offset e = VInt (int (utf16_length (take a content))) \<and>
      re_length e = VInt (int (utf16_length (slice content a b))))"
proof (intro conjI allI impI)
  show "entity_ranges content es = sort_key (\<lambda>(_, a, _). a) (List.map_filter (located_range content) es)"
    by (rule entity_ranges_located)
  fix e a b
  assume "(e, a, b) \<in> set (entity_ranges content es)"
  then have loc: "located_range content e = Some (e, a, b)" using entity_ranges_found by blast
  then obtain i n where v: "valid_entity_value e = Some (i, n)"
    "utf16_index content i = Some a" "utf16_index content (i + n) = Some b"
    by (auto simp: located_range_def split: option.splits if_split_asm)
  have vals: "re_offset e = VInt i" "re_length e = VInt n"
    using v(1) by (auto simp: valid_entity_value_def split: raw_value.splits if_split_asm)
  have ab: "a < b" "b \<le> length content" "content ! a = AT" using located_range_at[OF loc] by auto
  have "take b content = take a content @ slice content a b"
    using ab(1) by (simp add: slice_def) (metis add_diff_inverse_nat less_imp_not_less take_add)
  then have "int (utf16_length (take b content)) =
      int (utf16_length (take a content)) + int (utf16_length (slice content a b))" by simp
  then show "a < b" "b \<le> length content" "content ! a = AT"
    "re_offset e = VInt (int (utf16_length (take a content)))"
    "re_length e = VInt (int (utf16_length (slice content a b)))"
    using ab vals utf16_index_inverse[OF v(2)] utf16_index_inverse[OF v(3)] by auto
qed

text \<open>C33. A reply of which every mention is valid (its uid passes the allowlist, if one is given),
  converted to the wire format and read back with a sidecar that holds all its entities, gives the
  reply: each mention is again the envelope it was, with nothing but stray envelope starts in the
  text around the mentions made harmless. (A mention that is not valid is sent as plain text and
  does not read back.)\<close>

theorem mention_roundtrip:
  assumes ms: "ms = parse_structured_mentions W t" "ms \<noteq> []" "all_valid valid ms"
    and wire: "convert_structured_mentions t ms valid = (content, ents, uids)"
    and raw: "coerce_mention raw = Some m" "sc_entities m = Some ents"
  shows "convert_content_for_llm W (Some content) raw mm = render_trusted t 0 (map token ms) \<and>
    ((\<forall>g\<in>set (gaps t 0 ms). \<not> has_envelope g) \<longrightarrow>
     convert_content_for_llm W (Some content) raw mm = t)"
proof -
  have tiled: "tiled t 0 ms" unfolding ms(1) by (rule parse_tiled)
  have "convert_from t valid 0 0 ms = (content, ents, uids)"
    using wire unfolding convert_structured_mentions_def ms(1) sorted_parse .
  from convert_from_located[OF tiled ms(3) _ this, of "[]"]
  obtain rs where rs: "List.map_filter (located_range content) ents = rs" "length rs = length ms"
    "apart 0 rs" "render_trusted content 0 (map (entity_replacement content) rs) =
     render_trusted t 0 (map token ms)" by auto
  have ranges: "entity_ranges content (entities_of m) = rs"
    using rs(1) apart_starts[OF rs(3)] raw(2)
    by (simp add: entities_of_def entity_ranges_located sort_key_id_if_sorted)
  have "rs \<noteq> []" using rs(2) ms(2) by auto
  then have "trusted_mentions W content m mm =
      map (\<lambda>(e, a, b). (a, b, value_text (re_uid e), slice content (a + 1) b)) rs"
    using ranges apart_not_overlapping[OF rs(3)] by (simp add: trusted_mentions_def)
  then have "convert_content_for_llm W (Some content) raw mm =
      render_trusted content 0 (map (entity_replacement content) rs)"
    using raw(1) by (simp add: convert_content_for_llm_def entity_replacement_def comp_def case_prod_unfold)
  with rs(4) show ?thesis using render_tokens[OF tiled] by auto
qed

text \<open>C32. Structured mentions cannot be forged by text, provided that the uids and names of the
  trusted replacements are well formed (which the code does not check: a name that holds an
  envelope forges a mention, see \<open>name_of_an_entity_forges\<close>). Under this condition the mentions that a
  reader parses out of the converted text are exactly the trusted replacements, each of which has
  its uid from the sidecar or the member map and stands for the \<open>@name\<close> that was in the content;
  without a sidecar there is none.\<close>

theorem only_trusted_mentions:
  assumes "\<not> W COLON" and "ts = mentions_for W t raw mm"
    and "\<forall>(a, b, u, name)\<in>set ts. well_formed_mention W u name"
  shows "named (parse_structured_mentions W (convert_content_for_llm W (Some t) raw mm)) =
      map (\<lambda>(a, b, u, name). (u, name)) ts \<and>
    (case coerce_mention raw of
       None \<Rightarrow> ts = []
     | Some m \<Rightarrow> \<forall>(a, b, u, name)\<in>set ts. t ! a = AT \<and> a < length t \<and> slice t (a + 1) b = name \<and>
         (u \<in> value_text ` re_uid ` set (entities_of m) \<or> VStr u \<in> set (uids_of m) \<or>
          (\<exists>d. mm = Some d \<and> u \<in> snd ` set d)))"
proof (intro conjI)
  show "named (parse_structured_mentions W (convert_content_for_llm W (Some t) raw mm)) =
      map (\<lambda>(a, b, u, name). (u, name)) ts"
    unfolding parse_structured_mentions_def convert_for_llm_render assms(2)[symmetric]
    by (rule scan_render[OF assms(1,3)])
next
  show "case coerce_mention raw of
       None \<Rightarrow> ts = []
     | Some m \<Rightarrow> \<forall>(a, b, u, name)\<in>set ts. t ! a = AT \<and> a < length t \<and> slice t (a + 1) b = name \<and>
         (u \<in> value_text ` re_uid ` set (entities_of m) \<or> VStr u \<in> set (uids_of m) \<or>
          (\<exists>d. mm = Some d \<and> u \<in> snd ` set d))"
  proof (cases "coerce_mention raw")
    case (Some m)
    then have "ts = trusted_mentions W t m mm" by (simp add: assms(2) mentions_for_def)
    then show ?thesis using trusted_mentions_found Some by fastforce
  qed (simp add: assms(2) mentions_for_def)
qed

section \<open>Examples\<close>

definition small_letter :: "codepoint \<Rightarrow> bool" where
  "small_letter c \<longleftrightarrow> 0x61 \<le> c \<and> c \<le> 0x7A"

lemmas mention_eval =
  parse_structured_mentions_def match_structured_def envelope_def uid_char_def name_char_def
  small_letter_def envelope_char_def cp_defs convert_structured_mentions_def utf16_length_def
  utf16_units_def slice_def text_entity_def

text \<open>An entity behind a character of two code units.\<close>

lemma entity_ranges_exact_witness:
  "let e = \<lparr>re_uid = VStr [0x75], re_offset = VInt 2, re_length = VInt 2\<rparr>;
       content = [0x1F600, 0x40, 0x62, 0x20]
   in entity_ranges content [e] = [(e, 1, 3)] \<and>
      re_offset e = VInt (int (utf16_length (take 1 content))) \<and>
      re_length e = VInt (int (utf16_length (slice content 1 3)))"
proof -
  let ?e = "\<lparr>re_uid = VStr [0x75], re_offset = VInt 2, re_length = VInt 2\<rparr>"
  let ?c = "[0x1F600, 0x40, 0x62, 0x20]"
  have r: "entity_ranges ?c [?e] = [(?e, 1, 3)]"
    using conjunct1[OF entity_ranges_exact[of ?c "[?e]"]]
    by (simp add: located_range_def valid_entity_value_def utf16_units_def cp_defs map_filter_simps
        numeral_3_eq_3)
  then have "(?e, 1, 3) \<in> set (entity_ranges ?c [?e])" by simp
  with r show ?thesis using conjunct2[OF entity_ranges_exact[of ?c "[?e]"]] unfolding Let_def by blast
qed

text \<open>The reply \<open>@[u:b] x\<close>.\<close>

lemma mention_roundtrip_witness:
  "let t = [0x40, 0x5B, 0x75, 0x3A, 0x62, 0x5D, 0x20, 0x78];
       (content, ents, uids) = convert_structured_mentions t (parse_structured_mentions small_letter t) None
   in content = [0x40, 0x62, 0x20, 0x78] \<and> uids = [[0x75]] \<and>
      convert_content_for_llm small_letter (Some content)
        (Payload \<lparr>sc_uids = None, sc_entities = Some ents\<rparr>) None = t"
proof -
  let ?t = "[0x40, 0x5B, 0x75, 0x3A, 0x62, 0x5D, 0x20, 0x78] :: ustr"
  let ?m = "\<lparr>sm_uid = [0x75], sm_name = [0x62], sm_offset = 0, sm_length = 6\<rparr>"
  let ?ents = "[text_entity [0x75] 0 2]"
  have ms: "[?m] = parse_structured_mentions small_letter ?t"
    by (simp add: mention_eval)
  have wire: "convert_structured_mentions ?t [?m] None = ([0x40, 0x62, 0x20, 0x78], ?ents, [[0x75]])"
    by (simp add: mention_eval)
  have "\<forall>g\<in>set (gaps ?t 0 [?m]). \<not> has_envelope g"
    by (simp add: slice_def has_envelope_Cons cp_defs) (simp add: has_envelope_def)
  moreover have "all_valid None [?m]" by (simp add: all_valid_def)
  ultimately show ?thesis
    using mention_roundtrip[OF ms _ _ wire, of "Payload \<lparr>sc_uids = None, sc_entities = Some ?ents\<rparr>" _ None]
    unfolding Let_def ms[symmetric] wire prod.case by (metis list.distinct(1) coerce_mention.simps(2) sidecar.select_convs(2))
qed

text \<open>The content \<open>@b @[x:y]\<close> with the uid \<open>u\<close> beside it: only the mention of \<open>u\<close> is one.\<close>

lemma only_trusted_mentions_witness:
  "let raw = RawDict None (Some [VStr [0x75]]); t = [0x40, 0x62, 0x20, 0x40, 0x5B, 0x78, 0x3A, 0x79, 0x5D] in
   named (parse_structured_mentions small_letter
     (convert_content_for_llm small_letter (Some t) raw None)) = [([0x75], [0x62])]"
proof -
  let ?t = "[0x40, 0x62, 0x20, 0x40, 0x5B, 0x78, 0x3A, 0x79, 0x5D] :: ustr"
  let ?raw = "RawDict None (Some [VStr [0x75]])"
  have "(scan_mentions small_letter None 0 ?t) = [(0, [0x62])]"
    by (simp add: name_char_def small_letter_def cp_defs ascii_alnum_def)
  then have ts: "[(0, 2, [0x75], [0x62])] = mentions_for small_letter ?t ?raw None"
    by (simp add: mentions_for_def trusted_mentions_def entities_of_def uids_of_def entity_ranges_def
        plain_mentions_def map_filter_simps MAX_INBOUND_MENTIONS_def)
  have colon: "\<not> small_letter COLON" by (simp add: small_letter_def cp_defs)
  have wf: "\<forall>(a, b, u, name)\<in>set [(0, 2, [0x75], [0x62])]. well_formed_mention small_letter u name"
    by (simp add: well_formed_mention_def uid_char_def small_letter_def envelope_char_def cp_defs)
  show ?thesis using conjunct1[OF only_trusted_mentions[OF colon ts wf]] by simp
qed

text \<open>
  Two ways out of the hypotheses. A display name with \<open>@\<close> in it makes replacements overlap, and the
  text in between is written twice: \<open>@a @b\<close>, a mention of the member called \<open>a @b\<close>, is read as a
  mention of it and another of the member \<open>b\<close>. And the name of an envelope is copied as it is:
  an entity over \<open>@a\<close>, a line break and \<open>@[x:y]\<close> makes \<open>@[x:y]\<close> a mention.
\<close>

lemma overlapping_names_written_twice:
  "convert_content_for_llm small_letter (Some [0x40, 0x61, 0x20, 0x40, 0x62])
     (RawDict None None) (Some [([0x61, 0x20, 0x40, 0x62], [0x75]), ([0x62], [0x76])]) =
   envelope [0x75] [0x61, 0x20, 0x40, 0x62] @ envelope [0x76] [0x62]"
proof -
  let ?t = "[0x40, 0x61, 0x20, 0x40, 0x62] :: ustr"
  have "(scan_mentions small_letter None 0 ?t) = [(0, [0x61]), (3, [0x62])]"
    by (simp add: name_char_def small_letter_def cp_defs ascii_alnum_def)
  then show ?thesis
    by (simp add: convert_content_for_llm_def trusted_mentions_def entities_of_def uids_of_def
        entity_ranges_def plain_mentions_def map_filter_simps MAX_INBOUND_MENTIONS_def
        lookup_member_def sorted_names_def name_char_def slice_def)
qed

lemma name_of_an_entity_forges:
  "named (parse_structured_mentions small_letter
     (convert_content_for_llm small_letter
       (Some [0x40, 0x61, 0x0A, 0x40, 0x5B, 0x78, 0x3A, 0x79, 0x5D])
       (Payload \<lparr>sc_uids = None,
          sc_entities = Some [\<lparr>re_uid = VStr [0x75], re_offset = VInt 0, re_length = VInt 9\<rparr>]\<rparr>) None)) =
   [([0x78], [0x79])]"
proof -
  let ?t = "[0x40, 0x61, 0x0A, 0x40, 0x5B, 0x78, 0x3A, 0x79, 0x5D] :: ustr"
  let ?e = "\<lparr>re_uid = VStr [0x75], re_offset = VInt 0, re_length = VInt 9\<rparr>"
  have "entity_ranges ?t [?e] = [(?e, 0, 9)]"
    unfolding entity_ranges_located
    by (simp add: located_range_def valid_entity_value_def utf16_units_def cp_defs map_filter_simps)
  then have "convert_content_for_llm small_letter (Some ?t)
      (Payload \<lparr>sc_uids = None, sc_entities = Some [?e]\<rparr>) None =
      [0x40, 0x5B, 0x75, 0x3A, 0x61, 0x0A, 0x40, 0x5B, 0x78, 0x3A, 0x79, 0x5D, 0x5D]"
    by (simp add: convert_content_for_llm_def trusted_mentions_def entities_of_def slice_def
        envelope_def cp_defs)
  then show ?thesis
    by (simp add: mention_eval named_def)
qed

end
