(* ===== verification/CardRules.thy ===== *)
theory CardRules
  imports JsonText OctoTypes
begin

text \<open>
  The rules of \<open>cards.py\<close> that every card obeys: the capability manifest of the server, its limits
  and the local hard caps, visible text, and the data a button carries back. A raise is an \<open>Inl\<close>.
  Text is over characters below code point 256, as in the prelude.
\<close>

section \<open>Results\<close>

datatype build_error = BadValue | LimitExceeded | NumberTooLarge | BadType
  \<comment> \<open>ValueError, CardLimitError, OverflowError, TypeError\<close>

definition ebind :: "'e + 'a \<Rightarrow> ('a \<Rightarrow> 'e + 'b) \<Rightarrow> 'e + 'b" where
  "ebind r f = (case r of Inl e \<Rightarrow> Inl e | Inr a \<Rightarrow> f a)"

lemma ebind_simps [simp]: "ebind (Inl e) f = Inl e" "ebind (Inr a) f = f a"
  by (simp_all add: ebind_def)

lemma ebind_Inr: "ebind r f = Inr b \<longleftrightarrow> (\<exists>a. r = Inr a \<and> f a = Inr b)"
  by (cases r) auto

definition require :: "bool \<Rightarrow> 'e \<Rightarrow> 'e + 'a \<Rightarrow> 'e + 'a" where
  \<comment> \<open>\<open>if not c: raise e\<close>\<close>
  "require c e r = (if c then r else Inl e)"

lemma require_Inr [simp]: "require c e r = Inr b \<longleftrightarrow> c \<and> r = Inr b"
  by (simp add: require_def)

fun emap :: "('a \<Rightarrow> 'e + 'b) \<Rightarrow> 'a list \<Rightarrow> 'e + 'b list" where
  \<comment> \<open>a comprehension whose body may raise\<close>
  "emap f [] = Inr []"
| "emap f (x # xs) = ebind (f x) (\<lambda>y. ebind (emap f xs) (\<lambda>ys. Inr (y # ys)))"

lemma emap_Inr: "emap f xs = Inr ys \<longleftrightarrow> list_all2 (\<lambda>x y. f x = Inr y) xs ys"
  by (induction xs arbitrary: ys) (auto simp: ebind_Inr list_all2_Cons1)

section \<open>The capability manifest\<close>

record template_view =
  tv_name :: string
  tv_wire_profile :: string
  tv_states :: "string list"
  tv_submit_actions :: "string list"

record template =
  tp_id :: string
  tp_version :: string
  tp_views :: "template_view list"

record templating =
  tm_supported :: bool
  tm_wire :: string
  tm_templates :: "template list"

record manifest =
  mf_available :: bool
  mf_enabled :: bool
  mf_profiles :: "string list option"
  mf_card_version :: "string option"
  mf_elements :: "string list option"
  mf_inputs :: "string list option"
  mf_actions :: "string list option"
  mf_limits :: "(string \<times> json) list"
  mf_templating :: "templating option"

record capabilities =
  cb_available :: bool
  cb_enabled :: bool
  cb_elements :: "string list option"
  cb_inputs :: "string list option"
  cb_actions :: "string list option"
  cb_profiles :: "string list option"
  cb_card_version :: "string option"
  cb_authoritative :: bool
  cb_max_nodes :: "int option"
  cb_max_depth :: "int option"
  cb_max_payload_bytes :: "int option"
  cb_max_input_text_bytes :: "int option"
  cb_max_inputs_bytes :: "int option"

definition DEFAULT_MAX_CARD_NODES :: int where "DEFAULT_MAX_CARD_NODES = 200"
definition DEFAULT_MAX_CARD_DEPTH :: int where "DEFAULT_MAX_CARD_DEPTH = 16"
definition DEFAULT_MAX_CARD_PAYLOAD_BYTES :: int where "DEFAULT_MAX_CARD_PAYLOAD_BYTES = 524288"
definition DEFAULT_MAX_ACTION_DATA_BYTES :: nat where "DEFAULT_MAX_ACTION_DATA_BYTES = 16384"
definition DEFAULT_MAX_ACTION_DATA_VALUE_BYTES :: nat where "DEFAULT_MAX_ACTION_DATA_VALUE_BYTES = 512"
definition DEFAULT_MAX_INPUT_TEXT_BYTES :: int where "DEFAULT_MAX_INPUT_TEXT_BYTES = 4096"
definition DEFAULT_MAX_INPUTS_BYTES :: int where "DEFAULT_MAX_INPUTS_BYTES = 16384"
definition DEFAULT_MAX_VISIBLE_TEXT_BYTES :: nat where "DEFAULT_MAX_VISIBLE_TEXT_BYTES = 65536"
definition CARD_VERSION :: string where "CARD_VERSION = ''1.5''"
definition ADAPTIVE_CARD_SCHEMA :: string where
  "ADAPTIVE_CARD_SCHEMA = ''http://adaptivecards.io/schemas/adaptive-card.json''"

lemmas card_caps =
  DEFAULT_MAX_CARD_NODES_def DEFAULT_MAX_CARD_DEPTH_def DEFAULT_MAX_CARD_PAYLOAD_BYTES_def
  DEFAULT_MAX_ACTION_DATA_BYTES_def DEFAULT_MAX_ACTION_DATA_VALUE_BYTES_def
  DEFAULT_MAX_INPUT_TEXT_BYTES_def DEFAULT_MAX_INPUTS_BYTES_def DEFAULT_MAX_VISIBLE_TEXT_BYTES_def

definition float_bound :: int where
  \<comment> \<open>an \<open>int\<close> of this size or larger rounds to no finite float\<close>
  "float_bound = 2 ^ 1024 - 2 ^ 970"

fun positive_limit :: "json \<Rightarrow> int \<Rightarrow> build_error + int option" where
  "positive_limit (JInt i) cap =
     (if \<bar>i\<bar> \<ge> float_bound then Inl NumberTooLarge
      else Inr (if i \<le> 0 then None else Some (min i cap)))"
| "positive_limit (JFloat (Fin r)) cap = Inr (if r \<le> 0 then None else Some (min \<lfloor>r\<rfloor> cap))"
| "positive_limit _ cap = Inr None"

definition list_or_empty :: "string list option \<Rightarrow> string list" where
  "list_or_empty v = (case v of None \<Rightarrow> [] | Some xs \<Rightarrow> xs)"

definition derive_card_capabilities :: "manifest \<Rightarrow> build_error + capabilities" where
  "derive_card_capabilities m =
     (let auth = mf_available m;
          gate = (\<lambda>v. if auth then Some (list_or_empty v) else v);
          actions =
            (if auth \<or> mf_actions m \<noteq> None \<or> mf_profiles m \<noteq> None
             then Some (sdiscard ''Action.Submit'' (list_or_empty (mf_actions m)) @
                        (if CARD_PROFILE_V2 \<in> set (list_or_empty (mf_profiles m)) then [''Action.Submit''] else []))
             else None)
      in ebind (positive_limit (jget (mf_limits m) ''max_nodes'') DEFAULT_MAX_CARD_NODES) (\<lambda>nodes.
         ebind (positive_limit (jget (mf_limits m) ''max_depth'') DEFAULT_MAX_CARD_DEPTH) (\<lambda>depth.
         ebind (positive_limit (jget (mf_limits m) ''max_payload_bytes'') DEFAULT_MAX_CARD_PAYLOAD_BYTES) (\<lambda>payload.
         ebind (positive_limit (jget (mf_limits m) ''max_input_text_bytes'') DEFAULT_MAX_INPUT_TEXT_BYTES) (\<lambda>text.
         ebind (positive_limit (jget (mf_limits m) ''max_inputs_bytes'') DEFAULT_MAX_INPUTS_BYTES) (\<lambda>ins.
           Inr \<lparr>cb_available = mf_available m, cb_enabled = mf_enabled m,
                cb_elements = gate (mf_elements m), cb_inputs = gate (mf_inputs m), cb_actions = actions,
                cb_profiles = (if auth then Some (list_or_empty (mf_profiles m)) else None),
                cb_card_version = (if auth then mf_card_version m else None), cb_authoritative = auth,
                cb_max_nodes = nodes, cb_max_depth = depth, cb_max_payload_bytes = payload,
                cb_max_input_text_bytes = text, cb_max_inputs_bytes = ins\<rparr>))))))"

definition card_delivery_enabled :: "manifest \<Rightarrow> bool \<Rightarrow> bool" where
  "card_delivery_enabled m configured = (if mf_available m then mf_enabled m else configured)"

definition profile_enabled :: "bool \<Rightarrow> manifest \<Rightarrow> string \<Rightarrow> bool" where
  \<comment> \<open>\<open>_profile_enabled\<close> of \<open>card_tools.py\<close>; \<open>configured\<close> is \<open>OCTO_CARD_MESSAGE_ENABLED == "1"\<close>\<close>
  "profile_enabled configured m profile \<longleftrightarrow>
     card_delivery_enabled m configured \<and>
     \<not> (profile = CARD_PROFILE_V2 \<and> \<not> mf_available m) \<and>
     \<not> (mf_available m \<and>
        ((case mf_profiles m of None \<Rightarrow> True | Some ps \<Rightarrow> profile \<notin> set ps) \<or>
         mf_card_version m \<noteq> Some CARD_VERSION))"

definition profile_supported :: "capabilities option \<Rightarrow> string \<Rightarrow> bool" where
  "profile_supported cap profile =
     (case cap of None \<Rightarrow> True
      | Some c \<Rightarrow> \<not> cb_authoritative c \<or>
          cb_enabled c \<and> cb_card_version c = Some CARD_VERSION \<and>
          (case cb_profiles c of None \<Rightarrow> False | Some ps \<Rightarrow> profile \<in> set ps))"

definition supports :: "string list option \<Rightarrow> string \<Rightarrow> bool" where
  "supports advertised capability = (case advertised of None \<Rightarrow> True | Some xs \<Rightarrow> capability \<in> set xs)"

section \<open>The manifest cache\<close>

record profile_cache =
  pf_ttl :: rat
  pf_manifest :: "manifest option"
  pf_expires_at :: rat

definition new_profile_cache :: "rat \<Rightarrow> profile_cache" where
  "new_profile_cache ttl = \<lparr>pf_ttl = max 1 ttl, pf_manifest = None, pf_expires_at = 0\<rparr>"

definition cache_get :: "rat \<Rightarrow> profile_cache \<Rightarrow> manifest option \<times> profile_cache" where
  "cache_get now c =
     (if pf_manifest c = None \<or> pf_expires_at c \<le> now
      then (None, c\<lparr>pf_manifest := None, pf_expires_at := 0\<rparr>) else (pf_manifest c, c))"

definition cache_put :: "rat \<Rightarrow> manifest \<Rightarrow> profile_cache \<Rightarrow> profile_cache" where
  "cache_put now m c = c\<lparr>pf_manifest := Some m, pf_expires_at := now + pf_ttl c\<rparr>"

definition cache_clear :: "profile_cache \<Rightarrow> profile_cache" where
  "cache_clear c = c\<lparr>pf_manifest := None, pf_expires_at := 0\<rparr>"

section \<open>Card limits\<close>

text \<open>A JSON document is a tree: the visited set of the source never changes the answer.\<close>

fun count_card_nodes :: "bool \<Rightarrow> json \<Rightarrow> nat" where
  "count_card_nodes at_root (JObj kvs) =
     (if at_root then 0 else 1) + sum_list (map (\<lambda>kv. count_card_nodes False (snd kv)) kvs)"
| "count_card_nodes at_root (JArr xs) = sum_list (map (count_card_nodes False) xs)"
| "count_card_nodes at_root _ = 0"

definition max_default :: "nat list \<Rightarrow> nat \<Rightarrow> nat" where
  \<comment> \<open>\<open>max(xs, default=d)\<close>\<close>
  "max_default xs d = (if xs = [] then d else Max (set xs))"

fun card_max_depth :: "nat \<Rightarrow> bool \<Rightarrow> json \<Rightarrow> nat" where
  "card_max_depth d at_root (JObj kvs) =
     (let d' = (if at_root then d else d + 1)
      in max_default (map (\<lambda>kv. card_max_depth d' False (snd kv)) kvs) d')"
| "card_max_depth d at_root (JArr xs) = max_default (map (card_max_depth d at_root) xs) d"
| "card_max_depth d at_root _ = d"

definition go_escape :: "char \<Rightarrow> string" where
  "go_escape c =
     (if c = CHR ''&'' then CHR 0x5C # ''u0026''
      else if c = CHR ''<'' then CHR 0x5C # ''u003c''
      else if c = CHR ''>'' then CHR 0x5C # ''u003e'' else [c])"

definition go_json_bytes :: "float_repr \<Rightarrow> json \<Rightarrow> nat" where
  \<comment> \<open>\<open>len(_go_json_bytes(v))\<close>\<close>
  "go_json_bytes fr v = utf8_len (concat (map go_escape (json_text fr v)))"

definition card_payload_bytes ::
  "float_repr \<Rightarrow> json \<Rightarrow> string option \<Rightarrow> string \<Rightarrow> int option \<Rightarrow> bool option \<Rightarrow> nat" where
  "card_payload_bytes fr crd plain profile card_seq transient =
     go_json_bytes fr (JObj (
       [(''type'', JInt 17), (''profile'', JStr profile), (''card_version'', JStr CARD_VERSION), (''card'', crd)] @
       (case plain of None \<Rightarrow> [] | Some p \<Rightarrow> [(''plain'', JStr p)]) @
       (case card_seq of None \<Rightarrow> [] | Some n \<Rightarrow> [(''card_seq'', JInt n)]) @
       (case transient of None \<Rightarrow> [] | Some b \<Rightarrow> [(''transient'', JBool b)])))"

definition limit_of :: "capabilities option \<Rightarrow> (capabilities \<Rightarrow> int option) \<Rightarrow> int \<Rightarrow> int" where
  "limit_of cap field hard =
     (case cap of None \<Rightarrow> hard | Some c \<Rightarrow> (case field c of None \<Rightarrow> hard | Some n \<Rightarrow> n))"

definition validate_card_limits ::
  "float_repr \<Rightarrow> json \<Rightarrow> string option \<Rightarrow> capabilities option \<Rightarrow> string \<Rightarrow> int option \<Rightarrow> bool option \<Rightarrow>
   build_error + unit" where
  "validate_card_limits fr crd plain cap profile card_seq transient =
     (if int (count_card_nodes True crd) > limit_of cap cb_max_nodes DEFAULT_MAX_CARD_NODES
      then Inl LimitExceeded
      else if int (card_max_depth 0 True crd) > limit_of cap cb_max_depth DEFAULT_MAX_CARD_DEPTH
      then Inl LimitExceeded
      else if int (card_payload_bytes fr crd plain profile card_seq transient)
              > limit_of cap cb_max_payload_bytes DEFAULT_MAX_CARD_PAYLOAD_BYTES
      then Inl LimitExceeded
      else Inr ())"

section \<open>Text and data of a card\<close>

fun squeeze_from :: "bool \<Rightarrow> string \<Rightarrow> string" where
  "squeeze_from spaced [] = []"
| "squeeze_from spaced (c # cs) =
     (if is_space c then (if spaced then [] else [CHR '' '']) @ squeeze_from True cs
      else c # squeeze_from False cs)"

definition squeeze :: "string \<Rightarrow> string" where
  \<comment> \<open>\<open>re.sub(r"\s+", " ", text)\<close>\<close>
  "squeeze t = squeeze_from False t"

definition sanitize_visible_text :: "string \<Rightarrow> build_error + string option" where
  "sanitize_visible_text text =
     (if utf8_len text > DEFAULT_MAX_VISIBLE_TEXT_BYTES then Inl LimitExceeded
      else (let t = strip (squeeze text) in Inr (if t = [] then None else Some t)))"

definition literal_card_text :: "string \<Rightarrow> string" where
  \<comment> \<open>\<open>text.replace("\\", r"\\").replace("[", r"\[")\<close>\<close>
  "literal_card_text t =
     concat (map (\<lambda>c. if c = CHR ''['' then [CHR 0x5C, c] else [c])
       (concat (map (\<lambda>c. if c = CHR 0x5C then [c, c] else [c]) t)))"

definition clean_interactive_text :: "json \<Rightarrow> nat \<Rightarrow> build_error + string" where
  "clean_interactive_text v max_chars =
     (case v of
        JStr s \<Rightarrow> ebind (sanitize_visible_text s) (\<lambda>c.
          case c of None \<Rightarrow> Inl BadValue
          | Some t \<Rightarrow> if length t > max_chars then Inl BadValue else Inr t)
      | _ \<Rightarrow> Inl BadValue)"

definition clean_semantic_value :: "json \<Rightarrow> nat \<Rightarrow> build_error + string" where
  "clean_semantic_value v max_chars =
     (case v of
        JStr s \<Rightarrow> (let c = strip s in if c = [] \<or> length c > max_chars then Inl BadValue else Inr c)
      | _ \<Rightarrow> Inl BadValue)"

definition is_card_id :: "string \<Rightarrow> bool" where
  \<comment> \<open>\<open>_CARD_ID_RE.fullmatch\<close>\<close>
  "is_card_id s = matches ''_.:-'' 64 s"

definition require_card_id :: "json \<Rightarrow> build_error + string" where
  "require_card_id v =
     (case v of JStr s \<Rightarrow> (let c = strip s in if is_card_id c then Inr c else Inl BadValue) | _ \<Rightarrow> Inl BadValue)"

definition octo_key :: "string \<Rightarrow> bool" where
  "octo_key k = starts_with k ''_octo_''"

fun sanitize_action_data :: "nat \<Rightarrow> json \<Rightarrow> build_error + json"
and sanitize_items :: "nat \<Rightarrow> json list \<Rightarrow> build_error + json list"
and sanitize_fields ::
  "nat \<Rightarrow> nat \<Rightarrow> (string \<times> json) list \<Rightarrow> (string \<times> json) list \<Rightarrow> build_error + (string \<times> json) list" where
  "sanitize_action_data depth (JStr s) =
     (let c = strip s in
      if utf8_len c > DEFAULT_MAX_ACTION_DATA_VALUE_BYTES then Inl BadValue else Inr (JStr c))"
| "sanitize_action_data depth JNull = Inr JNull"
| "sanitize_action_data depth (JBool b) = Inr (JBool b)"
| "sanitize_action_data depth (JInt i) = Inr (JInt i)"
| "sanitize_action_data depth (JFloat x) = (case x of Fin r \<Rightarrow> Inr (JFloat x) | _ \<Rightarrow> Inl BadValue)"
| "sanitize_action_data depth (JArr xs) =
     (if depth \<ge> 5 then Inl BadValue
      else if length xs > 50 then Inl BadValue
      else ebind (sanitize_items (depth + 1) xs) (\<lambda>ys. Inr (JArr ys)))"
| "sanitize_action_data depth (JObj kvs) =
     (if depth \<ge> 5 then Inl BadValue
      else ebind (sanitize_fields (depth + 1) 0 kvs []) (\<lambda>out. Inr (JObj out)))"
| "sanitize_items depth [] = Inr []"
| "sanitize_items depth (x # xs) =
     ebind (sanitize_action_data depth x) (\<lambda>y. ebind (sanitize_items depth xs) (\<lambda>ys. Inr (y # ys)))"
| "sanitize_fields depth index [] out = Inr out"
| "sanitize_fields depth index ((k, v) # kvs) out =
     (if index = 50 then Inl BadValue
      else if k = ''_octo_binding'' then sanitize_fields depth (index + 1) kvs out
      else if octo_key k \<or> \<not> is_card_id k then Inl BadValue
      else ebind (sanitize_action_data depth v) (\<lambda>w. sanitize_fields depth (index + 1) kvs (dset k w out)))"

end
