(* ===== verification/InteractiveCard.thy ===== *)
theory InteractiveCard
  imports CardRules CardActions
begin

text \<open>
  Interactive cards: \<open>build_interactive_card\<close> of \<open>cards.py\<close>, the frames \<open>api.py\<close> sends and edits,
  the reading of its answer, and the tool \<open>octo_send_interactive_card\<close> of \<open>card_tools.py\<close>, from its
  arguments to the registered session. The server's answers, the manifest and the fresh binding
  id are given; a raise is an \<open>Inl\<close>.
\<close>

section \<open>Inputs\<close>

record rendered_card =
  cr_card :: json
  cr_plain :: string
  cr_action_labels :: "(string, string) dict"
  cr_input_ids :: "string list"
  cr_binding_id :: string

definition MAX_INTERACTIVE_BUTTONS :: nat where "MAX_INTERACTIVE_BUTTONS = 6"
definition MAX_INTERACTIVE_INPUTS :: nat where "MAX_INTERACTIVE_INPUTS = 5"
definition MAX_INTERACTIVE_TITLE_CHARS :: nat where "MAX_INTERACTIVE_TITLE_CHARS = 200"
definition MAX_INTERACTIVE_TEXT_CHARS :: nat where "MAX_INTERACTIVE_TEXT_CHARS = 2000"
definition MAX_INTERACTIVE_LABEL_CHARS :: nat where "MAX_INTERACTIVE_LABEL_CHARS = 64"

definition INPUT_TYPES :: "(string \<times> string) list" where
  "INPUT_TYPES =
     [(''text'', ''Input.Text''), (''number'', ''Input.Number''), (''date'', ''Input.Date''),
      (''time'', ''Input.Time''), (''toggle'', ''Input.Toggle''), (''choice'', ''Input.ChoiceSet'')]"

definition join :: "string \<Rightarrow> string list \<Rightarrow> string" where
  "join sep xs = (case xs of [] \<Rightarrow> [] | y # ys \<Rightarrow> y @ concat (map (\<lambda>z. sep @ z) ys))"

definition text_block :: "string \<Rightarrow> (string \<times> json) list \<Rightarrow> json" where
  "text_block t attrs = JObj ([(''type'', JStr ''TextBlock''), (''text'', JStr (literal_card_text t))] @ attrs)"

definition kind_of :: "(string \<times> json) list \<Rightarrow> json" where
  \<comment> \<open>\<open>item.get("kind", "text")\<close>\<close>
  "kind_of d = (case map_of d ''kind'' of None \<Rightarrow> JStr ''text'' | Some v \<Rightarrow> v)"

definition text_input_count :: "json list \<Rightarrow> nat" where
  "text_input_count xs =
     length (filter (\<lambda>x. case x of JObj d \<Rightarrow> kind_of d = JStr ''text'' | _ \<Rightarrow> False) xs)"

fun build_choices :: "string list \<Rightarrow> json list \<Rightarrow> build_error + (string \<times> string) list" where
  \<comment> \<open>titles and values; \<open>seen\<close> are the values so far\<close>
  "build_choices seen [] = Inr []"
| "build_choices seen (JObj d # xs) =
     ebind (clean_interactive_text (jget d ''title'') MAX_INTERACTIVE_LABEL_CHARS) (\<lambda>t.
     ebind (clean_semantic_value (jget d ''value'') MAX_INTERACTIVE_LABEL_CHARS) (\<lambda>v.
       require (v \<notin> set seen) BadValue
         (ebind (build_choices (v # seen) xs) (\<lambda>r. Inr ((t, v) # r)))))"
| "build_choices seen (_ # xs) = Inl BadValue"

definition choice_fields :: "(string \<times> json) list \<Rightarrow> build_error + (string \<times> json) list \<times> string list" where
  \<comment> \<open>the fields of a choice input and the titles of its choices\<close>
  "choice_fields d =
     (case jget d ''choices'' of
        JArr (x # xs) \<Rightarrow>
          ebind (build_choices [] (take 128 (x # xs))) (\<lambda>cs.
            (case (case map_of d ''multi_select'' of None \<Rightarrow> JBool False | Some v \<Rightarrow> v) of
               JBool b \<Rightarrow>
                 Inr ([(''choices'', JArr (map (\<lambda>(t, v). JObj [(''title'', JStr t), (''value'', JStr v)]) cs))] @
                      (if b then [(''isMultiSelect'', JBool True)] else []), map fst cs)
             | _ \<Rightarrow> Inl BadValue))
      | _ \<Rightarrow> Inl BadValue)"

definition optional_text :: "json \<Rightarrow> string \<Rightarrow> nat \<Rightarrow> build_error + (string \<times> json) list" where
  \<comment> \<open>a field that is left out when it is \<open>None\<close>\<close>
  "optional_text v name n =
     (if v = JNull then Inr [] else ebind (clean_interactive_text v n) (\<lambda>t. Inr [(name, JStr t)]))"

definition text_max_length :: "capabilities option \<Rightarrow> nat \<Rightarrow> (string \<times> json) list" where
  "text_max_length cap n =
     (case cap of None \<Rightarrow> []
      | Some c \<Rightarrow>
          (let limits = (case cb_max_input_text_bytes c of None \<Rightarrow> [] | Some l \<Rightarrow> [l]) @
                        (case cb_max_inputs_bytes c of None \<Rightarrow> [] | Some l \<Rightarrow> [l div int (max 1 n)])
           in if limits = [] then [] else [(''maxLength'', JInt (max 1 (Min (set limits) div 4)))]))"

definition build_input ::
  "capabilities option \<Rightarrow> nat \<Rightarrow> string list \<Rightarrow> json \<Rightarrow> build_error + string \<times> json \<times> string" where
  \<comment> \<open>id, node and plain line of an input\<close>
  "build_input cap n used raw =
     (case raw of
        JObj d \<Rightarrow>
          ebind (require_card_id (jget d ''id'')) (\<lambda>iid.
          require (iid \<notin> set used) BadValue
          (case kind_of d of
             JStr kind \<Rightarrow>
               (case map_of INPUT_TYPES kind of
                  None \<Rightarrow> Inl BadValue
                | Some ty \<Rightarrow>
                    require (case cap of None \<Rightarrow> True | Some c \<Rightarrow> supports (cb_inputs c) ty) BadValue
                    (ebind (optional_text (jget d ''label'') ''label'' MAX_INTERACTIVE_LABEL_CHARS) (\<lambda>label.
                     ebind (if kind = ''choice'' then choice_fields d
                            else ebind (optional_text (jget d ''placeholder'') ''placeholder'' MAX_INTERACTIVE_LABEL_CHARS)
                                   (\<lambda>p. Inr (p, []))) (\<lambda>(fields, titles).
                       (let shown = (case label of [(_, JStr l)] \<Rightarrow> l | _ \<Rightarrow> iid) in
                        Inr (iid,
                             JObj ([(''type'', JStr ty), (''id'', JStr iid)] @ label @ fields @
                                   (if kind = ''text'' then text_max_length cap n else [])),
                             if kind = ''choice'' then ''['' @ shown @ '': '' @ join '' / '' titles @ '']''
                             else ''['' @ shown @ '']''))))))
           | _ \<Rightarrow> Inl BadValue))
      | _ \<Rightarrow> Inl BadValue)"

fun build_inputs ::
  "capabilities option \<Rightarrow> nat \<Rightarrow> string list \<Rightarrow> json list \<Rightarrow> build_error + (string \<times> json \<times> string) list" where
  "build_inputs cap n used [] = Inr []"
| "build_inputs cap n used (x # xs) =
     ebind (build_input cap n used x) (\<lambda>(iid, node, line).
     ebind (build_inputs cap n (iid # used) xs) (\<lambda>r. Inr ((iid, node, line) # r)))"

section \<open>Buttons\<close>

definition button_style :: "json \<Rightarrow> build_error + (string \<times> json) list" where
  "button_style v =
     (case v of
        JNull \<Rightarrow> Inr []
      | JStr s \<Rightarrow> if s = ''positive'' \<or> s = ''destructive'' then Inr [(''style'', JStr s)] else Inl BadValue
      | JArr _ \<Rightarrow> Inl BadType
      | JObj _ \<Rightarrow> Inl BadType
      | _ \<Rightarrow> Inl BadValue)"

definition sanitized_fields :: "json \<Rightarrow> build_error + (string \<times> json) list" where
  "sanitized_fields v =
     (case v of
        JNull \<Rightarrow> Inr []
      | JObj kvs \<Rightarrow> ebind (sanitize_action_data 0 (JObj kvs)) (\<lambda>w. case w of JObj out \<Rightarrow> Inr out | _ \<Rightarrow> Inr [])
      | _ \<Rightarrow> Inl BadValue)"

definition button_data :: "float_repr \<Rightarrow> string \<Rightarrow> json \<Rightarrow> build_error + (string \<times> json) list" where
  \<comment> \<open>the sanitised data of a button, bound to the card\<close>
  "button_data fr binding v =
     ebind (sanitized_fields v) (\<lambda>out.
       if go_json_bytes fr (JObj out) > DEFAULT_MAX_ACTION_DATA_BYTES then Inl LimitExceeded
       else Inr (dset ''_octo_binding'' (JStr binding) out))"

definition build_button ::
  "float_repr \<Rightarrow> string \<Rightarrow> string list \<Rightarrow> json \<Rightarrow> build_error + string \<times> string \<times> json" where
  \<comment> \<open>id, label and action of a button\<close>
  "build_button fr binding used raw =
     (case raw of
        JObj d \<Rightarrow>
          ebind (require_card_id (jget d ''id'')) (\<lambda>aid.
          require (aid \<notin> set used) BadValue
          (ebind (clean_interactive_text (jget d ''label'') MAX_INTERACTIVE_LABEL_CHARS) (\<lambda>label.
           ebind (button_data fr binding (jget d ''data'')) (\<lambda>dat.
           ebind (button_style (jget d ''style'')) (\<lambda>style.
             Inr (aid, label,
                  JObj ([(''type'', JStr ''Action.Submit''), (''id'', JStr aid), (''title'', JStr label),
                         (''data'', JObj dat)] @ style)))))))
      | _ \<Rightarrow> Inl BadValue)"

fun build_buttons ::
  "float_repr \<Rightarrow> string \<Rightarrow> string list \<Rightarrow> json list \<Rightarrow> build_error + (string \<times> string \<times> json) list" where
  "build_buttons fr binding used [] = Inr []"
| "build_buttons fr binding used (x # xs) =
     ebind (build_button fr binding used x) (\<lambda>(aid, label, action).
     ebind (build_buttons fr binding (aid # used) xs) (\<lambda>r. Inr ((aid, label, action) # r)))"

section \<open>The card\<close>

fun as_seq :: "json \<Rightarrow> build_error + json list" where
  \<comment> \<open>the elements that \<open>len\<close> and a \<open>for\<close> loop see\<close>
  "as_seq (JArr xs) = Inr xs"
| "as_seq (JStr s) = Inr (map (\<lambda>c. JStr [c]) s)"
| "as_seq (JObj kvs) = Inr (map (JStr \<circ> fst) kvs)"
| "as_seq _ = Inl BadType"

definition assemble_card ::
  "string \<Rightarrow> string option \<Rightarrow> string \<Rightarrow> (string \<times> json \<times> string) list \<Rightarrow> (string \<times> string \<times> json) list \<Rightarrow>
   rendered_card" where
  "assemble_card title text binding ins bts =
     (let titles = text_block title [(''weight'', JStr ''Bolder''), (''size'', JStr ''Medium''), (''wrap'', JBool True)];
          texts = (case text of None \<Rightarrow> []
                   | Some t \<Rightarrow> [text_block t [(''wrap'', JBool True), (''spacing'', JStr ''Small'')]]);
          labels = map (\<lambda>(aid, label, _). (aid, label)) bts;
          lines = [title] @ (case text of None \<Rightarrow> [] | Some t \<Rightarrow> [t]) @ map (\<lambda>(_, _, line). line) ins @
                  [''Actions: '' @ join '' / '' (map snd labels)]
      in \<lparr>cr_card = JObj [(''$schema'', JStr ADAPTIVE_CARD_SCHEMA), (''type'', JStr ''AdaptiveCard''),
                          (''version'', JStr CARD_VERSION),
                          (''body'', JArr (titles # texts @ map (\<lambda>(_, node, _). node) ins)),
                          (''actions'', JArr (map (\<lambda>(_, _, action). action) bts))],
          cr_plain = join [CHR 0x0A] lines, cr_action_labels = labels,
          cr_input_ids = map fst ins, cr_binding_id = binding\<rparr>)"

definition build_interactive_card ::
  "float_repr \<Rightarrow> json \<Rightarrow> json \<Rightarrow> string \<Rightarrow> json \<Rightarrow> json \<Rightarrow> capabilities option \<Rightarrow> build_error + rendered_card" where
  "build_interactive_card fr title buttons binding_id text inputs cap =
     require (profile_supported cap CARD_PROFILE_V2) BadValue
     (ebind (require_card_id (JStr binding_id)) (\<lambda>binding.
      ebind (clean_interactive_text title MAX_INTERACTIVE_TITLE_CHARS) (\<lambda>title'.
      require (case cap of None \<Rightarrow> True | Some c \<Rightarrow> supports (cb_elements c) ''TextBlock'') BadValue
      (require (case cap of None \<Rightarrow> True | Some c \<Rightarrow> supports (cb_actions c) ''Action.Submit'') BadValue
       (require (jtruthy buttons) BadValue
        (ebind (as_seq buttons) (\<lambda>raw_buttons.
         require (length raw_buttons \<le> MAX_INTERACTIVE_BUTTONS) BadValue
         (ebind (as_seq inputs) (\<lambda>raw_inputs.
          require (length raw_inputs \<le> MAX_INTERACTIVE_INPUTS) BadValue
          (ebind (if text = JNull then Inr None
                  else ebind (clean_interactive_text text MAX_INTERACTIVE_TEXT_CHARS) (\<lambda>t. Inr (Some t))) (\<lambda>text'.
           ebind (build_inputs cap (text_input_count raw_inputs) [] raw_inputs) (\<lambda>ins.
           ebind (build_buttons fr binding (rev (map fst ins)) raw_buttons) (\<lambda>bts.
             (let r = assemble_card title' text' binding ins bts in
              ebind (validate_card_limits fr (cr_card r) (Some (cr_plain r)) cap CARD_PROFILE_V2 None None)
                (\<lambda>_. Inr r)))))))))))))))"

section \<open>Frames and answers\<close>

definition card_frame :: "json \<Rightarrow> string \<Rightarrow> string option \<Rightarrow> (string \<times> json) list" where
  "card_frame crd profile plain =
     [(''type'', JInt 17), (''card'', crd), (''profile'', JStr profile), (''card_version'', JStr CARD_VERSION)] @
     (case plain of None \<Rightarrow> [] | Some p \<Rightarrow> [(''plain'', JStr p)])"

definition send_card_payload ::
  "float_repr \<Rightarrow> json \<Rightarrow> string option \<Rightarrow> string option \<Rightarrow> build_error + json" where
  "send_card_payload fr crd plain profile =
     (case resolve_card_profile crd profile of
        None \<Rightarrow> Inl BadValue
      | Some p \<Rightarrow>
          ebind (validate_card_limits fr crd plain None p None None) (\<lambda>_. Inr (JObj (card_frame crd p plain))))"

definition edit_card_payload ::
  "float_repr \<Rightarrow> json \<Rightarrow> int \<Rightarrow> string option \<Rightarrow> bool option \<Rightarrow> string option \<Rightarrow> build_error + json" where
  "edit_card_payload fr crd card_seq plain transient profile =
     require (0 < card_seq) BadValue
     (case resolve_card_profile crd profile of
        None \<Rightarrow> Inl BadValue
      | Some p \<Rightarrow>
          ebind (validate_card_limits fr crd plain None p (Some card_seq) transient) (\<lambda>_.
            (let frame = JObj (card_frame crd p plain @ [(''card_seq'', JInt card_seq)] @
                               (case transient of None \<Rightarrow> [] | Some b \<Rightarrow> [(''transient'', JBool b)]))
             in if int (utf8_len (json_text fr frame)) > DEFAULT_MAX_CARD_PAYLOAD_BYTES
                then Inl LimitExceeded else Inr frame)))"

record receipt =
  rc_message_id :: string
  rc_message_seq :: "int option"
  rc_client_msg_no :: string

fun scalar_text :: "json \<Rightarrow> string option" where
  \<comment> \<open>\<open>str(v)\<close> of a string or an integer\<close>
  "scalar_text (JStr s) = Some s"
| "scalar_text (JInt i) = Some (int_str i)"
| "scalar_text _ = None"

definition parse_send_message_result :: "json \<Rightarrow> string \<Rightarrow> receipt option" where
  \<comment> \<open>\<open>None\<close> is the OctoApiError\<close>
  "parse_send_message_result answer requested =
     (let d = (case answer of JObj kvs \<Rightarrow> kvs | _ \<Rightarrow> []) in
      case scalar_text (jget d ''message_id'') of
        None \<Rightarrow> None
      | Some mid \<Rightarrow>
          if mid = [] then None
          else Some \<lparr>rc_message_id = mid,
                     rc_message_seq = (case jget d ''message_seq'' of JStr s \<Rightarrow> py_int s | JInt i \<Rightarrow> Some i | _ \<Rightarrow> None),
                     rc_client_msg_no =
                       (case scalar_text (jget d ''client_msg_no'') of None \<Rightarrow> requested | Some c \<Rightarrow> c)\<rparr>)"

end
