(* ===== verification/CardTool.thy ===== *)
theory CardTool
  imports InteractiveCard
begin

text \<open>
  The tool \<open>octo_send_interactive_card\<close> of \<open>card_tools.py\<close> from its arguments to the registered
  session, and what it guarantees: a card that was sent and answered for is bound, every button
  of it is accepted when its requester presses it, and nothing supplied by the model can stand
  in for the binding. What the server answers and the clock are its environment.
\<close>

section \<open>The tool\<close>

record trusted_route =
  tr_channel_id :: string
  tr_chat_id :: string
  tr_channel_type :: channel_type
  tr_requester_uid :: string
  tr_session_key :: string

record tool_env =
  te_on_behalf_of :: "string option"
  te_configured :: bool                 \<comment> \<open>\<open>OCTO_CARD_MESSAGE_ENABLED == "1"\<close>\<close>
  te_manifest :: "manifest option"      \<comment> \<open>\<open>None\<close>: the lookup raised\<close>
  te_card_answer :: "json option"       \<comment> \<open>of \<open>sendMessage\<close> with the card; \<open>None\<close>: it raised\<close>
  te_plain_answer :: "json option"
  te_client_msg_no :: string
  te_binding_id :: string               \<comment> \<open>the fresh \<open>uuid4\<close>\<close>
  te_robot_id :: string
  te_retire_ok :: bool                  \<comment> \<open>of the edit that retires an unbound card; \<open>False\<close>: it raised\<close>

datatype sent = PlainMessage string | CardMessage json | Retired string | RetireFailed string
  \<comment> \<open>what is posted; \<open>Retired\<close> is the edit that replaces an unbound card, \<open>RetireFailed\<close> the same edit
    when it raised, which the code only logs\<close>

datatype tool_answer = ToolError | SentPlain receipt | SentCard string receipt

definition TRUSTED_FIELDS :: "string list" where
  "TRUSTED_FIELDS =
     [''channel_id'', ''channel_type'', ''target'', ''requester_uid'', ''session_key'', ''binding_id'']"

definition action_channels :: "trusted_route \<Rightarrow> string \<Rightarrow> string list" where
  \<comment> \<open>in a direct channel the action may come on the bot's own channel\<close>
  "action_channels r robot =
     (if tr_channel_type r = DM then remdups [tr_channel_id r, robot] else [tr_channel_id r])"

definition interactive_session ::
  "tool_env \<Rightarrow> trusted_route \<Rightarrow> capabilities \<Rightarrow> rendered_card \<Rightarrow> string \<Rightarrow> card_session" where
  "interactive_session w r cap c mid =
     \<lparr>cs_message_id = mid, cs_binding_id = te_binding_id w, cs_session_key = tr_session_key r,
      cs_chat_id = tr_chat_id r, cs_channel_id = tr_channel_id r, cs_channel_type = tr_channel_type r,
      cs_requester_uid = tr_requester_uid r,
      cs_card = (case cr_card c of JObj kvs \<Rightarrow> kvs | _ \<Rightarrow> []), cs_plain = cr_plain c,
      cs_action_labels = cr_action_labels c, cs_input_ids = cr_input_ids c,
      cs_action_channel_ids = action_channels r (te_robot_id w),
      cs_max_input_text_bytes = cb_max_input_text_bytes cap,
      cs_max_inputs_bytes = cb_max_inputs_bytes cap, cs_clarify = None, cs_kind = ''interactive''\<rparr>"

definition send_plain :: "tool_env \<Rightarrow> string \<Rightarrow> tool_answer \<times> sent list" where
  "send_plain w plain =
     ((case te_plain_answer w of
         None \<Rightarrow> ToolError
       | Some ans \<Rightarrow> (case parse_send_message_result ans (te_client_msg_no w) of
                       None \<Rightarrow> ToolError | Some rc \<Rightarrow> SentPlain rc)), [PlainMessage plain])"

definition argument :: "(string \<times> json) list \<Rightarrow> string \<Rightarrow> json" where
  \<comment> \<open>\<open>args.get(k, ())\<close>\<close>
  "argument args k = (case map_of args k of None \<Rightarrow> JArr [] | Some v \<Rightarrow> v)"

definition retire :: "tool_env \<Rightarrow> string \<Rightarrow> sent" where
  "retire w mid = (if te_retire_ok w then Retired mid else RetireFailed mid)"

definition send_and_register ::
  "float_repr \<Rightarrow> checksum_fn \<Rightarrow> env \<Rightarrow> tool_env \<Rightarrow> trusted_route \<Rightarrow> capabilities \<Rightarrow> rendered_card \<Rightarrow> registry \<Rightarrow>
   tool_answer \<times> sent list \<times> registry" where
  "send_and_register fr cs v w r cap c reg =
     (case send_card_payload fr (cr_card c) (Some (cr_plain c)) (Some CARD_PROFILE_V2) of
        Inl _ \<Rightarrow> (ToolError, [], reg)
      | Inr frame \<Rightarrow>
          (case te_card_answer w of
             None \<Rightarrow> (ToolError, [CardMessage frame], reg)
           | Some ans \<Rightarrow>
               (case parse_send_message_result ans (te_client_msg_no w) of
                  None \<Rightarrow> (ToolError, [CardMessage frame], reg)
                | Some rc \<Rightarrow>
                    (case register cs v (interactive_session w r cap c (rc_message_id rc)) reg of
                       (Inl _, reg') \<Rightarrow> (ToolError, [CardMessage frame, retire w (rc_message_id rc)], reg')
                     | (Inr _, reg') \<Rightarrow> (SentCard (te_binding_id w) rc, [CardMessage frame], reg')))))"

definition send_interactive_card ::
  "float_repr \<Rightarrow> checksum_fn \<Rightarrow> env \<Rightarrow> tool_env \<Rightarrow> trusted_route option \<Rightarrow> (string \<times> json) list \<Rightarrow> registry \<Rightarrow>
   tool_answer \<times> sent list \<times> registry" where
  \<comment> \<open>\<open>None\<close> for the route: there is no trusted conversation\<close>
  "send_interactive_card fr cs v w route args reg =
     (if list_ex (\<lambda>k. k \<in> fst ` set args) TRUSTED_FIELDS then (ToolError, [], reg)
      else
        (case route of
           None \<Rightarrow> (ToolError, [], reg)
         | Some r \<Rightarrow>
             (let build = build_interactive_card fr (jget args ''title'') (argument args ''buttons'')
                            (te_binding_id w) (jget args ''text'') (argument args ''inputs'');
                  plain_reply = (\<lambda>c. let (ans, out) = send_plain w (cr_plain c) in (ans, out, reg)) in
              case build None of
                Inl _ \<Rightarrow> (ToolError, [], reg)
              | Inr c \<Rightarrow>
                  if te_on_behalf_of w \<noteq> None then plain_reply c
                  else
                    (case te_manifest w of
                       None \<Rightarrow> plain_reply c
                     | Some m \<Rightarrow>
                         if \<not> profile_enabled (te_configured w) m CARD_PROFILE_V2 then plain_reply c
                         else
                           (case derive_card_capabilities m of
                              Inl _ \<Rightarrow> (ToolError, [], reg)
                            | Inr cap \<Rightarrow>
                                (case build (Some cap) of
                                   Inl _ \<Rightarrow> plain_reply c
                                 | Inr c' \<Rightarrow> send_and_register fr cs v w r cap c' reg))))))"

section \<open>What a built card is made of\<close>

definition bound_action :: "string \<Rightarrow> string \<times> string \<times> json \<Rightarrow> bool" where
  \<comment> \<open>a submit action with its id and data that its relay and its authorisation accept\<close>
  "bound_action binding b =
     (case b of (aid, label, JObj d) \<Rightarrow>
        jget d ''type'' = JStr ''Action.Submit'' \<and> jget d ''id'' = JStr aid \<and> card_id aid \<and>
        (case jget d ''data'' of
           JObj dat \<Rightarrow> action_data (JObj dat) = Some dat \<and> jget dat ''_octo_binding'' = JStr binding
         | _ \<Rightarrow> False)
      | _ \<Rightarrow> False)"

lemma is_card_id_eq: "is_card_id = card_id"
  by (simp add: fun_eq_iff is_card_id_def card_id_def)

lemma require_card_id_Inr: "require_card_id v = Inr s \<Longrightarrow> card_id s"
  by (auto simp: require_card_id_def is_card_id_eq Let_def split: json.splits if_splits)

lemma dset_image: "fst ` set (dset k v d) = insert k (fst ` set d)"
  using dset_keys[of k v d] by simp

definition data_keys_ok :: "(string \<times> json) list \<Rightarrow> bool" where
  "data_keys_ok out \<longleftrightarrow> (\<forall>k\<in>fst ` set out. card_id k \<and> k \<noteq> ''_octo_binding'')"

lemma data_keys_ok_dset:
  "data_keys_ok out \<Longrightarrow> card_id k \<Longrightarrow> k \<noteq> ''_octo_binding'' \<Longrightarrow> data_keys_ok (dset k w out)"
  unfolding data_keys_ok_def dset_image by blast

lemma sanitize_fields_out:
  "sanitize_fields depth i kvs out = Inr out' \<Longrightarrow> i \<le> 50 \<Longrightarrow>
   data_keys_ok out \<Longrightarrow> length out \<le> i \<Longrightarrow> data_keys_ok out' \<and> length out' \<le> 50"
proof (induction kvs arbitrary: i out)
  case Nil
  then show ?case by simp
next
  case (Cons kv kvs)
  obtain k v where kv: "kv = (k, v)" by (cases kv)
  show ?case
  proof (cases "k = ''_octo_binding''")
    case True
    then have "i \<noteq> 50" "sanitize_fields depth (i + 1) kvs out = Inr out'"
      using Cons.prems(1) kv by (simp_all split: if_split_asm)
    then show ?thesis using Cons.IH[of "i + 1" out] Cons.prems by simp
  next
    case False
    then obtain w where w: "i \<noteq> 50" "card_id k" "sanitize_fields depth (i + 1) kvs (dset k w out) = Inr out'"
      using Cons.prems(1) kv by (auto simp: ebind_Inr is_card_id_eq split: if_split_asm)
    have "data_keys_ok (dset k w out)" using data_keys_ok_dset Cons.prems(3) w(2) False by blast
    moreover have "length (dset k w out) \<le> i + 1" using Cons.prems(4) by (simp add: length_dset)
    ultimately show ?thesis using Cons.IH[OF w(3)] w(1) Cons.prems(2) by simp
  qed
qed

lemma sanitized_fields_out:
  assumes "sanitized_fields v = Inr out"
  shows "data_keys_ok out \<and> length out \<le> 50"
proof (cases v)
  case (JObj kvs)
  with assms have "sanitize_fields 1 0 kvs [] = Inr out"
    by (auto simp: sanitized_fields_def ebind_Inr)
  from sanitize_fields_out[OF this] show ?thesis by (simp add: data_keys_ok_def)
qed (use assms in \<open>auto simp: sanitized_fields_def data_keys_ok_def\<close>)

lemma card_id_binding_key: "card_id ''_octo_binding''"
  by (simp add: card_id_def matches_def is_alnum_def)

lemma button_data_bound:
  assumes "button_data fr binding v = Inr dat"
  shows "action_data (JObj dat) = Some dat \<and> jget dat ''_octo_binding'' = JStr binding"
proof -
  from assms obtain out where out: "sanitized_fields v = Inr out"
    and dat: "dat = dset ''_octo_binding'' (JStr binding) out"
    by (auto simp: button_data_def ebind_Inr split: if_split_asm)
  have "\<forall>k\<in>fst ` set dat. card_id k"
    using sanitized_fields_out[OF out] card_id_binding_key unfolding dat dset_image data_keys_ok_def by blast
  moreover have "length dat \<le> 51"
    using sanitized_fields_out[OF out] unfolding dat by (simp add: length_dset)
  ultimately show ?thesis by (auto simp: action_data_def list_all_iff dat jget_def)
qed

lemma button_style_fields: "button_style v = Inr st \<Longrightarrow> st = [] \<or> (\<exists>s. st = [(''style'', JStr s)])"
  by (auto simp: button_style_def split: json.splits if_split_asm)

lemma build_button_bound:
  assumes "build_button fr binding used raw = Inr (aid, label, action)"
  shows "bound_action binding (aid, label, action) \<and> aid \<notin> set used"
proof -
  from assms obtain d dat st where raw: "raw = JObj d" "require_card_id (jget d ''id'') = Inr aid" "aid \<notin> set used"
    "button_data fr binding (jget d ''data'') = Inr dat"
    and act: "action = JObj ([(''type'', JStr ''Action.Submit''), (''id'', JStr aid), (''title'', JStr label),
                              (''data'', JObj dat)] @ st)"
    by (auto simp: build_button_def ebind_Inr split: json.splits)
  show ?thesis
    using button_data_bound[OF raw(4)] require_card_id_Inr[OF raw(2)] raw(3)
    by (simp add: bound_action_def act jget_def)
qed

lemma build_buttons_bound:
  "build_buttons fr binding used raws = Inr bts \<Longrightarrow>
   list_all (bound_action binding) bts \<and> distinct (map fst bts) \<and> set (map fst bts) \<inter> set used = {}"
proof (induction raws arbitrary: used bts)
  case Nil
  then show ?case by simp
next
  case (Cons raw raws)
  then obtain aid label action r where b: "build_button fr binding used raw = Inr (aid, label, action)"
    "build_buttons fr binding (aid # used) raws = Inr r" "bts = (aid, label, action) # r"
    by (auto simp: ebind_Inr split: prod.splits)
  show ?case using build_button_bound[OF b(1)] Cons.IH[OF b(2)] b(3) by auto
qed

lemma build_buttons_length: "build_buttons fr binding used raws = Inr bts \<Longrightarrow> length bts = length raws"
  by (induction raws arbitrary: used bts) (auto simp: ebind_Inr split: prod.splits)

lemma build_interactive_card_parts:
  assumes "build_interactive_card fr title buttons binding text inputs cap = Inr c"
  obtains title' text' b ins bts raws raw_ins where
    "c = assemble_card title' text' b ins bts" "require_card_id (JStr binding) = Inr b"
    "build_inputs cap (text_input_count raw_ins) [] raw_ins = Inr ins"
    "build_buttons fr b (rev (map fst ins)) raws = Inr bts" "length bts \<le> MAX_INTERACTIVE_BUTTONS"
    "validate_card_limits fr (cr_card c) (Some (cr_plain c)) cap CARD_PROFILE_V2 None None = Inr ()"
proof -
  from assms obtain b title' raws raw_ins text' ins bts where *:
    "require_card_id (JStr binding) = Inr b"
    "length raws \<le> MAX_INTERACTIVE_BUTTONS"
    "build_inputs cap (text_input_count raw_ins) [] raw_ins = Inr ins"
    "build_buttons fr b (rev (map fst ins)) raws = Inr bts" "c = assemble_card title' text' b ins bts"
    "validate_card_limits fr (cr_card c) (Some (cr_plain c)) cap CARD_PROFILE_V2 None None = Inr ()"
    unfolding build_interactive_card_def require_Inr ebind_Inr Let_def by auto
  then show ?thesis using that build_buttons_length[OF *(4)] by metis
qed

section \<open>The session of a sent card\<close>

lemma persist_keeps:
  assumes "persist cs v r = (res, r')" "dget (r_entries r) k = Some e" "\<not> expired (t_persist v) e"
    and "wf_dict (r_entries r)"
  shows "dget (r_entries r') k = Some e"
proof -
  have "dget (prune_entries (t_persist v) (r_entries r)) k = Some e"
    using assms(2-4) by (simp add: prune_entries_def dget_filter)
  then show ?thesis
    using assms(1,2) by (auto simp: persist_def prune_locked_def Let_def split: option.splits prod.splits)
qed

lemma register_entry:
  assumes "register cs v s reg = (Inr u, reg')" "wf_registry reg"
    and "t_persist v < t_now v + r_ttl_seconds reg"
  shows "dget (r_entries reg') (cs_message_id s) = Some (fresh_entry reg v s)"
proof -
  let ?mid = "cs_message_id s"
  let ?r1 = "prune_locked (t_check v) reg"
  obtain ok d where ev: "evict_completed (r_max_sessions ?r1) (dpop ?mid (r_entries ?r1)) = (ok, d)"
    by (cases "evict_completed (r_max_sessions ?r1) (dpop ?mid (r_entries ?r1))")
  have wf1: "wf_dict (r_entries ?r1)"
    using wf_shrinks[OF shrinks_prune assms(2)] by (simp add: wf_registry_def)
  then have wf: "wf_dict d" using evict_completed_shrinks[OF ev] by blast
  let ?r2 = "?r1\<lparr>r_entries := dset ?mid (fresh_entry reg v s) d\<rparr>"
  have p: "persist cs v ?r2 = (Inr u, reg')"
    using assms(1) ev by (auto simp: register_def Let_def split: if_split_asm option.splits)
  have "\<not> expired (t_persist v) (fresh_entry reg v s)"
    using assms(3) by (simp add: expired_def fresh_entry_def)
  with persist_keeps[OF p] wf show ?thesis by simp
qed

definition card_actions :: "json \<Rightarrow> json list" where
  "card_actions crd =
     (case crd of JObj d \<Rightarrow> (case jget d ''actions'' of JArr xs \<Rightarrow> xs | _ \<Rightarrow> []) | _ \<Rightarrow> [])"

lemma card_actions_assemble:
  "card_actions (cr_card (assemble_card t x b ins bts)) = map (\<lambda>(_, _, action). action) bts"
  by (simp add: card_actions_def assemble_card_def Let_def jget_def)

text \<open>The event of a press is stated over the card, the trusted route and the limits of the manifest
  alone, not over the session that the tool registers: the relay puts the message, the place of the
  card (in a direct channel also the bot's own), the presser, the button and the values of the
  inputs that the card shows into it.\<close>

definition node_id :: "json \<Rightarrow> string option" where
  "node_id x = (case x of JObj d \<Rightarrow> (case jget d ''id'' of JStr i \<Rightarrow> Some i | _ \<Rightarrow> None) | _ \<Rightarrow> None)"

definition card_inputs :: "json \<Rightarrow> string list" where
  \<comment> \<open>the ids of the elements of the body that have one\<close>
  "card_inputs crd =
     (case crd of
        JObj d \<Rightarrow> (case jget d ''body'' of JArr xs \<Rightarrow> List.map_filter node_id xs | _ \<Rightarrow> [])
      | _ \<Rightarrow> [])"

definition pressed :: "tool_env \<Rightarrow> trusted_route \<Rightarrow> string \<Rightarrow> (string \<times> json) list \<Rightarrow> action_event \<Rightarrow> bool" where
  \<comment> \<open>the requester presses the button \<open>d\<close> on the message \<open>mid\<close> where it was sent\<close>
  "pressed w r mid d a \<longleftrightarrow>
     a_message_id a = mid \<and> a_channel_type a = tr_channel_type r \<and>
     (a_channel_id a = tr_channel_id r \<or> tr_channel_type r = DM \<and> a_channel_id a = te_robot_id w) \<and>
     a_operator_uid a = tr_requester_uid r \<and> JStr (a_action_id a) = jget d ''id'' \<and>
     JObj (a_data a) = jget d ''data''"

definition filled_in :: "float_repr \<Rightarrow> capabilities \<Rightarrow> json \<Rightarrow> action_event \<Rightarrow> bool" where
  \<comment> \<open>values for inputs of the card, within the manifest's limits or the hard ones\<close>
  "filled_in fr cap crd a \<longleftrightarrow>
     (\<forall>(k, v)\<in>set (a_inputs a). k \<in> set (card_inputs crd) \<and>
        int (utf8_len v) \<le> or_int (cb_max_input_text_bytes cap) 4096) \<and>
     int (utf8_len (json_text_sorted fr (inputs_json (a_inputs a)))) \<le> or_int (cb_max_inputs_bytes cap) 16384"

definition button_works ::
  "float_repr \<Rightarrow> tool_env \<Rightarrow> trusted_route \<Rightarrow> capabilities \<Rightarrow> json \<Rightarrow> string \<Rightarrow> card_session \<Rightarrow> json \<Rightarrow> bool" where
  \<comment> \<open>the relay passes the button's data, and the session accepts every press of it\<close>
  "button_works fr w r cap crd mid s x \<longleftrightarrow>
     (\<exists>d dat. x = JObj d \<and> jget d ''data'' = JObj dat \<and> action_data (JObj dat) = Some dat \<and>
        (\<forall>a. pressed w r mid d a \<and> filled_in fr cap crd a \<longrightarrow> action_matches_session fr a s))"

lemma build_input_node:
  assumes "build_input cap n used raw = Inr (iid, node, line)"
  shows "\<exists>d ty rest. require_card_id (jget d ''id'') = Inr iid \<and>
    node = JObj ([(''type'', JStr ty), (''id'', JStr iid)] @ rest)"
proof (cases raw)
  case (JObj d)
  note h = assms[unfolded build_input_def JObj json.case ebind_Inr require_Inr]
  show ?thesis
  proof (cases "kind_of d")
    case (JStr kind)
    show ?thesis
    proof (cases "map_of INPUT_TYPES kind")
      case (Some ty)
      show ?thesis
        using h[unfolded JStr json.case Some option.case ebind_Inr require_Inr Let_def]
        by (force simp: ebind_Inr split: prod.split_asm)
    qed (use h JStr in auto)
  qed (use h in auto)
qed (use assms in \<open>auto simp: build_input_def\<close>)

lemma build_inputs_nodes:
  "build_inputs cap n used raws = Inr ins \<Longrightarrow>
   list_all (\<lambda>(iid, node, _). card_id iid \<and> (\<exists>d. node = JObj d \<and> jget d ''id'' = JStr iid)) ins"
proof (induction raws arbitrary: used ins)
  case Nil
  then show ?case by simp
next
  case (Cons raw raws)
  then obtain iid node line r where b: "build_input cap n used raw = Inr (iid, node, line)"
    "build_inputs cap n (iid # used) raws = Inr r" "ins = (iid, node, line) # r"
    by (auto simp: ebind_Inr split: prod.splits)
  from build_input_node[OF b(1)] obtain d ty rest where d: "require_card_id (jget d ''id'') = Inr iid"
    "node = JObj ([(''type'', JStr ty), (''id'', JStr iid)] @ rest)"
    by blast
  have "card_id iid \<and> (\<exists>d. node = JObj d \<and> jget d ''id'' = JStr iid)"
    using require_card_id_Inr[OF d(1)] by (simp add: d(2) jget_def)
  then show ?case using Cons.IH[OF b(2)] b(3) by simp
qed

lemma card_inputs_assemble:
  assumes "build_inputs cap n used raws = Inr ins"
  shows "card_inputs (cr_card (assemble_card t x b ins bts)) = map fst ins"
proof -
  have "List.map_filter node_id (map (\<lambda>(_, node, _). node) ins) = map fst ins"
    using build_inputs_nodes[OF assms]
    by (induction ins) (auto simp: List.map_filter_simps node_id_def)
  moreover have "node_id (text_block t [(''weight'', a), (''size'', b), (''wrap'', e)]) = None"
    "node_id (text_block t [(''wrap'', a), (''spacing'', b)]) = None" for t a b e
    by (simp_all add: node_id_def text_block_def jget_def)
  ultimately show ?thesis
    by (simp add: card_inputs_def assemble_card_def Let_def jget_def List.map_filter_simps split: option.split)
qed

lemma session_accepts:
  assumes "pressed w r mid d a" "filled_in fr cap (cr_card c) a" "list_all card_id (card_inputs (cr_card c))"
    and "set (card_inputs (cr_card c)) = set (cr_input_ids c)"
    and "jget d ''id'' = JStr aid" "aid \<in> fst ` set (cr_action_labels c)"
    and "jget d ''data'' = JObj dat" "jget dat ''_octo_binding'' = JStr (te_binding_id w)"
  shows "action_matches_session fr a (interactive_session w r cap c mid)"
  using assms
  by (auto simp: pressed_def filled_in_def action_matches_session_def channel_matches_def
      interactive_session_def action_channels_def list_all_iff)

lemma strip_id: "list_all (\<lambda>c. \<not> is_space c) s \<Longrightarrow> strip s = s"
proof -
  assume a: "list_all (\<lambda>c. \<not> is_space c) s"
  have d: "list_all (\<lambda>c. \<not> is_space c) t \<Longrightarrow> dropWhile is_space t = t" for t by (cases t) auto
  have "dropWhile is_space s = s" "dropWhile is_space (rev s) = rev s"
    using a by (auto intro!: d simp: list_all_iff)
  then show "strip s = s" by (simp add: strip_def)
qed

lemma card_id_strip: "card_id s \<Longrightarrow> strip s = s"
proof (rule strip_id)
  assume "card_id s"
  moreover have "is_alnum c \<or> c \<in> set ''_.:-'' \<Longrightarrow> \<not> is_space c" for c
    by (auto simp: is_alnum_def is_space_def Let_def)
  ultimately show "list_all (\<lambda>c. \<not> is_space c) s"
    by (auto simp: card_id_def matches_def list_all_iff)
qed

lemma built_buttons_work:
  assumes "build_interactive_card fr title buttons (te_binding_id w) text inputs cap' = Inr c"
    and "card_id (te_binding_id w)"
  shows "\<forall>x\<in>set (card_actions (cr_card c)).
    button_works fr w r cap (cr_card c) mid (interactive_session w r cap c mid) x"
proof -
  from assms(1) obtain title' text' b ins bts raws raw_ins where c: "c = assemble_card title' text' b ins bts"
    and b: "require_card_id (JStr (te_binding_id w)) = Inr b"
    and ins: "build_inputs cap' (text_input_count raw_ins) [] raw_ins = Inr ins"
    and bts: "build_buttons fr b (rev (map fst ins)) raws = Inr bts"
    by (rule build_interactive_card_parts)
  have "b = te_binding_id w"
    using b card_id_strip[OF assms(2)] by (simp add: require_card_id_def Let_def split: if_split_asm)
  then have bound: "list_all (bound_action (te_binding_id w)) bts"
    using build_buttons_bound[OF bts] by blast
  have labels: "fst ` set (cr_action_labels c) = fst ` set bts"
    unfolding c by (force simp: assemble_card_def Let_def)
  have shown: "card_inputs (cr_card c) = map fst ins" "cr_input_ids c = map fst ins"
    unfolding c by (rule card_inputs_assemble[OF ins], simp add: assemble_card_def Let_def)
  have ids: "list_all card_id (card_inputs (cr_card c))"
    using build_inputs_nodes[OF ins] unfolding shown by (auto simp: list_all_iff)
  show ?thesis
  proof
    fix x assume "x \<in> set (card_actions (cr_card c))"
    then obtain aid label where m: "(aid, label, x) \<in> set bts"
      unfolding c card_actions_assemble by auto
    with bound have "bound_action (te_binding_id w) (aid, label, x)" by (auto simp: list_all_iff)
    then obtain d dat where d: "x = JObj d" "jget d ''id'' = JStr aid" "jget d ''data'' = JObj dat"
      "action_data (JObj dat) = Some dat" "jget dat ''_octo_binding'' = JStr (te_binding_id w)"
      by (auto simp: bound_action_def split: json.splits)
    have "aid \<in> fst ` set (cr_action_labels c)" unfolding labels using m by force
    with d ids shown show "button_works fr w r cap (cr_card c) mid (interactive_session w r cap c mid) x"
      unfolding button_works_def by (auto intro!: session_accepts)
  qed
qed

lemma send_card_payload_v2:
  "send_card_payload fr crd plain (Some CARD_PROFILE_V2) = Inr frame \<Longrightarrow>
   frame = JObj (card_frame crd CARD_PROFILE_V2 plain)"
  by (auto simp: send_card_payload_def resolve_card_profile_def ebind_Inr CARD_PROFILES_def CARD_PROFILE_V2_def
      split: option.splits if_split_asm)

lemma send_and_register_SentCard:
  assumes "send_and_register fr cs v w r cap c reg = (SentCard bid rc, out, reg')"
  shows "bid = te_binding_id w \<and> out = [CardMessage (JObj (card_frame (cr_card c) CARD_PROFILE_V2 (Some (cr_plain c))))] \<and>
    (\<exists>u. register cs v (interactive_session w r cap c (rc_message_id rc)) reg = (Inr u, reg'))"
proof -
  from assms obtain frame where "send_card_payload fr (cr_card c) (Some (cr_plain c)) (Some CARD_PROFILE_V2) = Inr frame"
    "bid = te_binding_id w" "out = [CardMessage frame]"
    "\<exists>u. register cs v (interactive_session w r cap c (rc_message_id rc)) reg = (Inr u, reg')"
    by (auto simp: send_and_register_def split: sum.splits option.splits prod.splits)
  then show ?thesis using send_card_payload_v2 by blast
qed

lemma send_plain_shape:
  "fst (send_plain w p) \<noteq> SentCard b rc" "CardMessage f \<notin> set (snd (send_plain w p))"
  by (auto simp: send_plain_def split: option.splits)

lemma send_interactive_card_cases:
  assumes "send_interactive_card fr cs v w route args reg = res"
    and "(\<exists>b rc. fst res = SentCard b rc) \<or> (\<exists>frame. CardMessage frame \<in> set (fst (snd res)))"
  obtains r m cap c where "route = Some r" "te_manifest w = Some m" "derive_card_capabilities m = Inr cap"
    "build_interactive_card fr (jget args ''title'') (argument args ''buttons'')
       (te_binding_id w) (jget args ''text'') (argument args ''inputs'') (Some cap) = Inr c"
    "te_on_behalf_of w = None" "profile_enabled (te_configured w) m CARD_PROFILE_V2"
    "send_and_register fr cs v w r cap c reg = res"
proof -
  have plain: "(case send_plain w p of (ans, out) \<Rightarrow> (ans, out, reg)) \<noteq> res" for p
    using assms(2) send_plain_shape(1)[where w = w and p = p] send_plain_shape(2)[where w = w and p = p]
    by (cases "send_plain w p") auto
  have other: "(ToolError, [], reg) \<noteq> res" using assms(2) by auto
  show ?thesis
    using assms(1) plain other that
    unfolding send_interactive_card_def Let_def
    by (simp split: if_split_asm option.split_asm sum.split_asm)
qed

text \<open>C35. An interactive card that the tool reports as sent is answerable: its session is registered
  under the fresh binding, for the trusted requester and conversation, and every button on the
  card is accepted when the requester presses it on that message where the card was sent, with any
  values, within the limits of the server's manifest, for the inputs that the card shows: the
  relay's check of the button's data passes and the action matches the registered session.\<close>

theorem sent_card_is_answerable:
  assumes "send_interactive_card fr cs v w (Some r) args reg = (SentCard bid rc, out, reg')"
    and "card_id (te_binding_id w)" "wf_registry reg" "t_persist v < t_now v + r_ttl_seconds reg"
  shows "\<exists>m cap c s. te_manifest w = Some m \<and> derive_card_capabilities m = Inr cap \<and>
    bid = te_binding_id w \<and>
    out = [CardMessage (JObj (card_frame (cr_card c) CARD_PROFILE_V2 (Some (cr_plain c))))] \<and>
    s = interactive_session w r cap c (rc_message_id rc) \<and>
    cs_session_key s = tr_session_key r \<and> cs_chat_id s = tr_chat_id r \<and>
    dget (r_entries reg') (rc_message_id rc) = Some (fresh_entry reg v s) \<and>
    (\<forall>x\<in>set (card_actions (cr_card c)). button_works fr w r cap (cr_card c) (rc_message_id rc) s x)"
proof -
  from send_interactive_card_cases[OF assms(1)]
  obtain r' m cap c where h: "Some r = Some r'" "te_manifest w = Some m" "derive_card_capabilities m = Inr cap"
    "build_interactive_card fr (jget args ''title'') (argument args ''buttons'')
       (te_binding_id w) (jget args ''text'') (argument args ''inputs'') (Some cap) = Inr c"
    "send_and_register fr cs v w r' cap c reg = (SentCard bid rc, out, reg')"
    by (metis fst_conv)
  let ?s = "interactive_session w r cap c (rc_message_id rc)"
  from send_and_register_SentCard[OF h(5)] h(1) obtain u where s: "bid = te_binding_id w"
    "out = [CardMessage (JObj (card_frame (cr_card c) CARD_PROFILE_V2 (Some (cr_plain c))))]"
    "register cs v ?s reg = (Inr u, reg')" by auto
  have "dget (r_entries reg') (rc_message_id rc) = Some (fresh_entry reg v ?s)"
    "cs_session_key ?s = tr_session_key r" "cs_chat_id ?s = tr_chat_id r"
    using register_entry[OF s(3) assms(3,4)] by (simp_all add: interactive_session_def)
  then show ?thesis using s h(2,3) built_buttons_work[OF h(4) assms(2)] by blast
qed

text \<open>C36. A card on the wire is never left unbound in silence. If the server's answer names the
  message, either a session of this binding was registered for it and the tool says so, or
  registering raised, the edit that retires the card was posted (it may itself fail, which is only
  logged) and the tool reports an error. If the answer was lost or names no message, the tool
  reports an error and the registry is untouched. Nothing else is posted with a card.\<close>

theorem unbound_cards_are_retired:
  assumes "send_interactive_card fr cs v w route args reg = (ans, out, reg')"
    and "CardMessage frame \<in> set out"
  shows "case Option.bind (te_card_answer w) (\<lambda>a. parse_send_message_result a (te_client_msg_no w)) of
      None \<Rightarrow> ans = ToolError \<and> out = [CardMessage frame] \<and> reg' = reg
    | Some rc \<Rightarrow>
        (\<exists>s res. cs_message_id s = rc_message_id rc \<and> cs_binding_id s = te_binding_id w \<and>
           register cs v s reg = (res, reg') \<and>
           (case res of
              Inr _ \<Rightarrow> ans = SentCard (te_binding_id w) rc \<and> out = [CardMessage frame]
            | Inl _ \<Rightarrow> ans = ToolError \<and>
                out = [CardMessage frame,
                       (if te_retire_ok w then Retired else RetireFailed) (rc_message_id rc)]))"
proof -
  from send_interactive_card_cases[OF assms(1)] assms(2)
  obtain r cap c where h: "send_and_register fr cs v w r cap c reg = (ans, out, reg')"
    by (metis fst_conv snd_conv)
  let ?s = "\<lambda>rc. interactive_session w r cap c (rc_message_id rc)"
  have s: "cs_message_id (?s rc) = rc_message_id rc \<and> cs_binding_id (?s rc) = te_binding_id w" for rc
    by (simp add: interactive_session_def)
  show ?thesis
  proof (cases "Option.bind (te_card_answer w) (\<lambda>a. parse_send_message_result a (te_client_msg_no w))")
    case None
    then show ?thesis
      using h assms(2)
      by (auto simp: send_and_register_def split: sum.splits option.splits bind_splits)
  next
    case (Some rc)
    obtain res r' where reg: "register cs v (?s rc) reg = (res, r')" by fastforce
    have "reg' = r' \<and> (case res of
              Inr _ \<Rightarrow> ans = SentCard (te_binding_id w) rc \<and> out = [CardMessage frame]
            | Inl _ \<Rightarrow> ans = ToolError \<and>
                out = [CardMessage frame,
                       (if te_retire_ok w then Retired else RetireFailed) (rc_message_id rc)])"
      using h assms(2) Some reg
      by (cases res) (auto simp: send_and_register_def retire_def split: sum.splits option.splits bind_splits if_split_asm)
    with reg s[of rc] show ?thesis unfolding Some option.case by blast
  qed
qed

section \<open>Limits\<close>

lemma positive_limit_le: "positive_limit v cap = Inr (Some n) \<Longrightarrow> n \<le> cap"
  by (cases "(v, cap)" rule: positive_limit.cases) (auto split: if_split_asm)

lemma derived_limits:
  assumes "derive_card_capabilities m = Inr c"
  shows "limit_of (Some c) cb_max_nodes DEFAULT_MAX_CARD_NODES \<le> DEFAULT_MAX_CARD_NODES"
    "limit_of (Some c) cb_max_depth DEFAULT_MAX_CARD_DEPTH \<le> DEFAULT_MAX_CARD_DEPTH"
    "limit_of (Some c) cb_max_payload_bytes DEFAULT_MAX_CARD_PAYLOAD_BYTES \<le> DEFAULT_MAX_CARD_PAYLOAD_BYTES"
  using assms
  by (auto simp: derive_card_capabilities_def ebind_Inr Let_def limit_of_def split: option.splits
      dest!: positive_limit_le)

text \<open>A manifest can only tighten the hard caps: a card within its limits is within those that the
  sender checks again, whatever the manifest says.\<close>

lemma manifest_only_tightens:
  assumes "derive_card_capabilities m = Inr c"
    and "validate_card_limits fr crd plain (Some c) profile seq tr = Inr ()"
  shows "validate_card_limits fr crd plain None profile seq tr = Inr ()"
  using assms(2) derived_limits[OF assms(1)]
  by (auto simp: validate_card_limits_def limit_of_def[of None] split: if_split_asm)

lemma count_root_le: "count_card_nodes True v \<le> count_card_nodes False v"
  by (cases v) auto

lemma depth_le_nodes: "card_max_depth d at_root v \<le> d + count_card_nodes at_root v"
proof (induction d at_root v rule: card_max_depth.induct)
  case (1 d at_root kvs)
  let ?d = "if at_root then d else d + 1"
  let ?n = "\<lambda>kv. count_card_nodes False (snd kv)"
  have "card_max_depth ?d False (snd kv) \<le> ?d + sum_list (map ?n kvs)" if "kv \<in> set kvs" for kv
    using 1[OF refl that] member_le_sum_list[of "?n kv" "map ?n kvs"] that by force
  then show ?case by (auto simp: max_default_def Let_def)
next
  case (2 d at_root xs)
  have "card_max_depth d at_root x \<le> d + sum_list (map (count_card_nodes False) xs)" if "x \<in> set xs" for x
  proof -
    have "count_card_nodes at_root x \<le> count_card_nodes False x"
      using count_root_le by (cases at_root) auto
    then show ?thesis
      using 2[OF that] member_le_sum_list[of "count_card_nodes False x" "map (count_card_nodes False) xs"] that
      by force
  qed
  then show ?case by (auto simp: max_default_def)
qed simp_all

text \<open>The length limit put on text inputs keeps their bytes within the server's limits: a character
  takes at most four bytes.\<close>

lemma text_inputs_fit:
  assumes "text_max_length (Some c) n = [(k, JInt m)]" "cb_max_inputs_bytes c = Some l" "4 * int (max 1 n) \<le> l"
  shows "int n * (4 * m) \<le> l"
proof -
  let ?n = "int (max 1 n)"
  let ?ls = "(case cb_max_input_text_bytes c of None \<Rightarrow> [] | Some l \<Rightarrow> [l]) @ [l div ?n]"
  have m: "m = max 1 (Min (set ?ls) div 4)"
    using assms(1,2) by (auto simp: text_max_length_def Let_def split: option.splits)
  have "Min (set ?ls) \<le> l div ?n" by (rule Min_le, rule finite_set, simp)
  then have le: "m \<le> max 1 (l div ?n div 4)" unfolding m by (intro max.mono zdiv_mono1) auto
  have "?n * (4 * (l div ?n div 4)) \<le> ?n * (l div ?n)"
    by (intro mult_left_mono) linarith+
  also have "\<dots> \<le> l"
    using pos_mod_sign[of ?n l] mult_div_mod_eq[of ?n l] by linarith
  finally have a: "?n * (4 * (l div ?n div 4)) \<le> l" .
  have "?n * (4 * m) \<le> l"
  proof (cases "l div ?n div 4 \<ge> 1")
    case True
    then have "?n * (4 * m) \<le> ?n * (4 * (l div ?n div 4))" using le by (intro mult_left_mono) auto
    with a show ?thesis by linarith
  next
    case False
    then have "m \<le> 1" using le by linarith
    then have "?n * (4 * m) \<le> ?n * 4" by (intro mult_left_mono) auto
    then show ?thesis using assms(3) by linarith
  qed
  moreover have "0 \<le> m" unfolding m by simp
  then have "int n * (4 * m) \<le> ?n * (4 * m)" by (intro mult_right_mono) auto
  ultimately show ?thesis by linarith
qed

section \<open>An example\<close>

definition example_manifest :: manifest where
  "example_manifest =
     \<lparr>mf_available = True, mf_enabled = True, mf_profiles = Some [''octo/v1'', ''octo/v2''],
      mf_card_version = Some ''1.5'', mf_elements = Some [''TextBlock''], mf_inputs = Some [''Input.Text''],
      mf_actions = None, mf_limits = [(''max_nodes'', JInt 20)], mf_templating = None\<rparr>"

definition example_env :: tool_env where
  "example_env =
     \<lparr>te_on_behalf_of = None, te_configured = False, te_manifest = Some example_manifest,
      te_card_answer = Some (JObj [(''message_id'', JStr ''m1'')]), te_plain_answer = None,
      te_client_msg_no = ''c1'', te_binding_id = ''b1'', te_robot_id = ''bot'', te_retire_ok = False\<rparr>"

definition example_route :: trusted_route where
  "example_route =
     \<lparr>tr_channel_id = ''g1'', tr_chat_id = ''g1'', tr_channel_type = Group, tr_requester_uid = ''u1'',
      tr_session_key = ''s1''\<rparr>"

definition example_args :: "(string \<times> json) list" where
  "example_args =
     [(''title'', JStr ''T''),
      (''buttons'', JArr [JObj [(''id'', JStr ''ok''), (''label'', JStr ''OK''),
                              (''data'', JObj [(''k'', JInt 1), (''_octo_binding'', JStr ''x'')])]])]"

definition example_registry :: registry where
  "example_registry = new_registry 8 60 3 None"

definition example_times :: env where
  "example_times = \<lparr>t_check = 0, t_now = 0, t_persist = 0, t_load = 0, t_wall = 0, io_ok = True\<rparr>"

text \<open>A bound on the size of a frame that needs no printing.\<close>

fun json_bound :: "float_repr \<Rightarrow> json \<Rightarrow> nat" where
  "json_bound fr JNull = 4"
| "json_bound fr (JBool b) = 5"
| "json_bound fr (JInt i) = length (int_str i)"
| "json_bound fr (JFloat x) = (case x of Fin r \<Rightarrow> length (fr r) | _ \<Rightarrow> 9)"
| "json_bound fr (JStr s) = 2 + 6 * length s"
| "json_bound fr (JArr xs) = 2 + sum_list (map (\<lambda>x. json_bound fr x + 1) xs)"
| "json_bound fr (JObj kvs) = 2 + sum_list (map (\<lambda>kv. 6 * length (fst kv) + json_bound fr (snd kv) + 4) kvs)"

lemma length_commas: "length (commas ss) \<le> sum_list (map (\<lambda>s. length s + 1) ss)"
  by (induction ss rule: commas.induct) auto

lemma length_concat_le: "(\<And>x. length (f x) \<le> k) \<Longrightarrow> length (concat (map f xs)) \<le> k * length xs"
proof (induction xs)
  case (Cons x xs)
  then have "length (f x) + length (concat (map f xs)) \<le> k + k * length xs" by (intro add_mono) auto
  then show ?case by simp
qed simp

lemma length_json_string: "length (json_string s) \<le> 2 + 6 * length s"
proof -
  have "length (concat (map escape_char s)) \<le> 6 * length s"
    by (rule length_concat_le) (simp add: escape_char_def)
  then show ?thesis by (simp add: json_string_def)
qed

lemma length_json_text: "length (json_text fr v) \<le> json_bound fr v"
proof (induction fr v rule: json_text.induct)
  case (8 fr s)
  then show ?case using length_json_string[of s] by simp
next
  case (9 fr xs)
  have "sum_list (map (\<lambda>s. length s + 1) (map (json_text fr) xs)) \<le> sum_list (map (\<lambda>x. json_bound fr x + 1) xs)"
    using 9 by (simp add: comp_def) (rule sum_list_mono, simp)
  then show ?case using length_commas[of "map (json_text fr) xs"] by simp
next
  case (10 fr kvs)
  let ?f = "\<lambda>kv. json_string (fst kv) @ '':'' @ json_text fr (snd kv)"
  have "length (?f kv) + 1 \<le> 6 * length (fst kv) + json_bound fr (snd kv) + 4" if "kv \<in> set kvs" for kv
    using 10[OF that] length_json_string[of "fst kv"] by simp
  then have "sum_list (map (\<lambda>s. length s + 1) (map ?f kvs)) \<le>
      sum_list (map (\<lambda>kv. 6 * length (fst kv) + json_bound fr (snd kv) + 4) kvs)"
    unfolding map_map comp_def by (rule sum_list_mono)
  then show ?case using length_commas[of "map ?f kvs"] by simp
qed simp_all

lemma utf8_len_concat_le: "(\<And>x. utf8_len (f x) \<le> k) \<Longrightarrow> utf8_len (concat (map f xs)) \<le> k * length xs"
proof (induction xs)
  case (Cons x xs)
  then have "utf8_len (f x) + utf8_len (concat (map f xs)) \<le> k + k * length xs" by (intro add_mono) auto
  then show ?case by simp
qed (simp add: utf8_len_def)

lemma go_json_bytes_bound: "go_json_bytes fr v \<le> 6 * json_bound fr v"
proof -
  have "utf8_len (go_escape c) \<le> 6" for c by (simp add: go_escape_def utf8_len_def)
  then have "go_json_bytes fr v \<le> 6 * length (json_text fr v)"
    unfolding go_json_bytes_def by (rule utf8_len_concat_le)
  then show ?thesis using length_json_text[of fr v] by linarith
qed

lemma small_payload: "int (6 * json_bound fr v) \<le> n \<Longrightarrow> \<not> n < int (go_json_bytes fr v)"
  and small_payload_nat: "6 * json_bound fr v \<le> m \<Longrightarrow> \<not> m < go_json_bytes fr v"
  using go_json_bytes_bound[of fr v] by linarith+

lemmas card_eval =
  build_interactive_card_def require_def ebind_def Let_def profile_supported_def require_card_id_def
  is_card_id_def matches_def is_alnum_def strip_def is_space_def clean_interactive_text_def
  sanitize_visible_text_def utf8_len_def squeeze_def card_caps argument_def
  MAX_INTERACTIVE_TITLE_CHARS_def MAX_INTERACTIVE_BUTTONS_def MAX_INTERACTIVE_INPUTS_def
  MAX_INTERACTIVE_LABEL_CHARS_def supports_def build_button_def button_data_def sanitized_fields_def
  octo_key_def button_style_def assemble_card_def text_block_def literal_card_text_def join_def
  validate_card_limits_def limit_of_def max_default_def card_payload_bytes_def jget_def
  CARD_VERSION_def CARD_PROFILE_V1_def CARD_PROFILE_V2_def CARD_PROFILES_def ADAPTIVE_CARD_SCHEMA_def
  small_payload small_payload_nat
  int_str_def dec_str_def dec_digits.simps[of "Suc 0"] dec_digits.simps[of 17]

definition example_sent :: "tool_answer \<times> sent list \<times> registry" where
  "example_sent =
     send_interactive_card (\<lambda>_. []) (\<lambda>_. []) example_times example_env (Some example_route)
       example_args example_registry"

lemma example_built:
  "\<exists>c. build_interactive_card (\<lambda>_. []) (jget example_args ''title'') (argument example_args ''buttons'') ''b1''
     (jget example_args ''text'') (argument example_args ''inputs'') None = Inr c"
  by (simp add: example_args_def card_eval)

lemma example_capabilities:
  "\<exists>cap. derive_card_capabilities example_manifest = Inr cap \<and> cb_max_nodes cap = Some 20 \<and>
     cb_max_depth cap = None \<and> cb_max_payload_bytes cap = None \<and>
     profile_supported (Some cap) CARD_PROFILE_V2 \<and> supports (cb_elements cap) ''TextBlock'' \<and>
     supports (cb_actions cap) ''Action.Submit''"
  by (simp add: derive_card_capabilities_def example_manifest_def ebind_def Let_def jget_def float_bound_def
      list_or_empty_def profile_supported_def supports_def CARD_PROFILE_V2_def CARD_VERSION_def card_caps)

definition long_id_env :: tool_env where
  \<comment> \<open>a server whose answer names a message with an id that the registry refuses\<close>
  "long_id_env = example_env\<lparr>te_card_answer := Some (JObj [(''message_id'', JStr (replicate 129 CHR ''m''))])\<rparr>"

lemma example_delivery:
  assumes "w = example_env \<or> w = long_id_env"
  obtains cap c frame where
    "send_interactive_card (\<lambda>_. []) (\<lambda>_. []) example_times w (Some example_route) example_args example_registry =
       send_and_register (\<lambda>_. []) (\<lambda>_. []) example_times w example_route cap c example_registry"
    "send_card_payload (\<lambda>_. []) (cr_card c) (Some (cr_plain c)) (Some CARD_PROFILE_V2) = Inr frame"
proof -
  obtain cap where cap: "derive_card_capabilities example_manifest = Inr cap" "cb_max_nodes cap = Some 20"
    "cb_max_depth cap = None" "cb_max_payload_bytes cap = None" "profile_supported (Some cap) CARD_PROFILE_V2"
    "supports (cb_elements cap) ''TextBlock''" "supports (cb_actions cap) ''Action.Submit''"
    using example_capabilities by blast
  have fields: "\<not> list_ex (\<lambda>k. k \<in> fst ` set example_args) TRUSTED_FIELDS"
    by (simp add: example_args_def TRUSTED_FIELDS_def)
  have enabled: "profile_enabled False example_manifest CARD_PROFILE_V2"
    by (simp add: profile_enabled_def card_delivery_enabled_def example_manifest_def CARD_PROFILE_V2_def CARD_VERSION_def)
  obtain c where built: "build_interactive_card (\<lambda>_. []) (jget example_args ''title'')
      (argument example_args ''buttons'') ''b1'' (jget example_args ''text'') (argument example_args ''inputs'')
      (Some cap) = Inr c"
    and sendable: "\<exists>frame. send_card_payload (\<lambda>_. []) (cr_card c) (Some (cr_plain c)) (Some CARD_PROFILE_V2) = Inr frame"
    using cap by (simp add: example_args_def card_eval send_card_payload_def resolve_card_profile_def)
  have "te_on_behalf_of w = None" "te_manifest w = Some example_manifest" "te_configured w = False"
    "te_binding_id w = ''b1''"
    using assms by (auto simp: example_env_def long_id_env_def)
  then have "send_interactive_card (\<lambda>_. []) (\<lambda>_. []) example_times w (Some example_route) example_args example_registry =
       send_and_register (\<lambda>_. []) (\<lambda>_. []) example_times w example_route cap c example_registry"
    using example_built cap(1) fields enabled built by (auto simp: send_interactive_card_def)
  with sendable that show ?thesis by blast
qed

lemma parsed_id:
  "s \<noteq> [] \<Longrightarrow> parse_send_message_result (JObj [(''message_id'', JStr s)]) m =
     Some \<lparr>rc_message_id = s, rc_message_seq = None, rc_client_msg_no = m\<rparr>"
  by (simp add: parse_send_message_result_def jget_def)

lemma example_sent:
  "\<exists>frame reg'. example_sent =
     (SentCard ''b1'' \<lparr>rc_message_id = ''m1'', rc_message_seq = None, rc_client_msg_no = ''c1''\<rparr>,
      [CardMessage frame], reg')"
proof -
  obtain cap c frame where d: "example_sent =
       send_and_register (\<lambda>_. []) (\<lambda>_. []) example_times example_env example_route cap c example_registry"
    "send_card_payload (\<lambda>_. []) (cr_card c) (Some (cr_plain c)) (Some CARD_PROFILE_V2) = Inr frame"
    using example_delivery[of example_env] unfolding example_sent_def by blast
  have "\<exists>reg'. register (\<lambda>_. []) example_times
      (interactive_session example_env example_route cap c ''m1'') example_registry = (Inr (), reg')" (is "\<exists>x. ?reg x")
    by (simp add: register_def example_registry_def new_registry_def interactive_session_def bounded_message_id_def
        prune_locked_def prune_entries_def persist_def evict_completed.simps Let_def)
  then obtain reg' where reg: "?reg reg'" by blast
  have w: "te_card_answer example_env = Some (JObj [(''message_id'', JStr ''m1'')])"
    "te_client_msg_no example_env = ''c1''" "te_binding_id example_env = ''b1''"
    by (simp_all add: example_env_def)
  have "example_sent = (SentCard ''b1'' \<lparr>rc_message_id = ''m1'', rc_message_seq = None, rc_client_msg_no = ''c1''\<rparr>,
      [CardMessage frame], reg')"
    unfolding d(1) by (simp add: send_and_register_def d(2) w parsed_id reg)
  then show ?thesis by blast
qed

lemma sent_card_is_answerable_witness:
  "case example_sent of (ans, out, reg') \<Rightarrow>
     \<exists>cap (c :: rendered_card) s. out = [CardMessage (JObj (card_frame (cr_card c) CARD_PROFILE_V2 (Some (cr_plain c))))] \<and>
       dget (r_entries reg') ''m1'' = Some (fresh_entry example_registry example_times s) \<and>
       (\<forall>x\<in>set (card_actions (cr_card c)).
          button_works (\<lambda>_. []) example_env example_route cap (cr_card c) ''m1'' s x)"
proof -
  obtain frame reg' where e: "example_sent =
     (SentCard ''b1'' \<lparr>rc_message_id = ''m1'', rc_message_seq = None, rc_client_msg_no = ''c1''\<rparr>,
      [CardMessage frame], reg')"
    using example_sent by blast
  have "card_id (te_binding_id example_env)" "wf_registry example_registry"
    "t_persist example_times < t_now example_times + r_ttl_seconds example_registry"
    by (simp_all add: card_id_def matches_def is_alnum_def example_env_def wf_registry_def example_registry_def
        new_registry_def example_times_def)
  from sent_card_is_answerable[OF e[unfolded example_sent_def] this, unfolded receipt.select_convs]
  show ?thesis unfolding e prod.case by blast
qed

lemma unbound_cards_are_retired_witness:
  "\<exists>frame reg'. send_interactive_card (\<lambda>_. []) (\<lambda>_. []) example_times long_id_env (Some example_route)
       example_args example_registry =
     (ToolError, [CardMessage frame, RetireFailed (replicate 129 CHR ''m'')], reg')"
proof -
  let ?run = "send_interactive_card (\<lambda>_. []) (\<lambda>_. []) example_times long_id_env (Some example_route)
       example_args example_registry"
  let ?rc = "\<lparr>rc_message_id = replicate 129 CHR ''m'', rc_message_seq = None, rc_client_msg_no = ''c1''\<rparr>"
  obtain cap c frame where d: "?run =
       send_and_register (\<lambda>_. []) (\<lambda>_. []) example_times long_id_env example_route cap c example_registry"
    "send_card_payload (\<lambda>_. []) (cr_card c) (Some (cr_plain c)) (Some CARD_PROFILE_V2) = Inr frame"
    using example_delivery[of long_id_env] by blast
  have w: "te_card_answer long_id_env = Some (JObj [(''message_id'', JStr (replicate 129 CHR ''m''))])"
    "te_client_msg_no long_id_env = ''c1''" "\<not> te_retire_ok long_id_env"
    by (simp_all add: long_id_env_def example_env_def)
  have p: "parse_send_message_result (JObj [(''message_id'', JStr (replicate 129 CHR ''m''))]) ''c1'' = Some ?rc"
    by (rule parsed_id) simp
  obtain ans out reg' where r: "?run = (ans, out, reg')" by (cases ?run)
  have f: "CardMessage frame \<in> set out"
    using r unfolding d(1) by (auto simp: send_and_register_def d(2) w p split: prod.splits sum.splits)
  from unbound_cards_are_retired[OF r f] obtain s res where s: "cs_message_id s = rc_message_id ?rc"
    "register (\<lambda>_. []) example_times s example_registry = (res, reg')"
    "case res of Inr _ \<Rightarrow> ans = SentCard (te_binding_id long_id_env) ?rc \<and> out = [CardMessage frame]
      | Inl _ \<Rightarrow> ans = ToolError \<and> out =
          [CardMessage frame, (if te_retire_ok long_id_env then Retired else RetireFailed) (rc_message_id ?rc)]"
    unfolding w(1,2) p bind.simps option.case by blast
  have "\<exists>e. res = Inl e" using s(1,2) by (auto simp: register_def bounded_message_id_def)
  with s(3) r w(3) show ?thesis by auto
qed

end
