(* ===== verification/Reasoning.thy ===== *)
theory Reasoning
  imports CardTool
begin

text \<open>
  The reasoning card of \<open>cards.py\<close>: which server template may be used and which buttons it may
  carry, and how the steps of a turn become phases, bounded to the latest ones. How one step
  is worded (\<open>_reasoning_action\<close>, \<open>sanitize_reasoning_thought\<close>) is given by \<open>card_text\<close>.
\<close>

section \<open>Templates\<close>

definition REASONING_TEMPLATE_ID :: string where "REASONING_TEMPLATE_ID = ''ai.reasoning-process''"
definition REASONING_TEMPLATE_WIRE :: string where "REASONING_TEMPLATE_WIRE = ''template-ref/v1''"

record required_view =
  rv_name :: string
  rv_wire_profiles :: "string list"
  rv_states :: "string list"
  rv_allowed :: "string list"

definition REASONING_REQUIRED_VIEWS :: "required_view list" where
  "REASONING_REQUIRED_VIEWS =
     [\<lparr>rv_name = ''active'', rv_wire_profiles = [''octo/v1'', ''octo/v2''],
       rv_states = [''reasoning'', ''answering''], rv_allowed = [''reasoning_stop'']\<rparr>,
      \<lparr>rv_name = ''error'', rv_wire_profiles = [''octo/v1'', ''octo/v2''],
       rv_states = [''error''], rv_allowed = [''reasoning_retry'']\<rparr>,
      \<lparr>rv_name = ''result'', rv_wire_profiles = [''octo/v1''],
       rv_states = [''completed'', ''stopped''], rv_allowed = []\<rparr>]"

definition view_compatible :: "template \<Rightarrow> required_view \<Rightarrow> bool" where
  "view_compatible t rv =
     (case filter (\<lambda>w. tv_name w = rv_name rv) (tp_views t) of
        [w] \<Rightarrow> tv_wire_profile w \<in> set (rv_wire_profiles rv) \<and>
               set (rv_states rv) \<subseteq> set (tv_states w) \<and>
               set (tv_submit_actions w) \<subseteq> set (rv_allowed rv)
      | _ \<Rightarrow> False)"

definition template_compatible :: "template \<Rightarrow> bool" where
  "template_compatible t \<longleftrightarrow>
     tp_version t \<noteq> [] \<and> strip (tp_version t) = tp_version t \<and>
     list_all (view_compatible t) REASONING_REQUIRED_VIEWS"

definition select_reasoning_process_template :: "templating option \<Rightarrow> (string \<times> string) option" where
  \<comment> \<open>id and version\<close>
  "select_reasoning_process_template tm =
     (case tm of
        None \<Rightarrow> None
      | Some m \<Rightarrow>
          if \<not> tm_supported m \<or> tm_wire m \<noteq> REASONING_TEMPLATE_WIRE then None
          else
            (let claimed = filter (\<lambda>t. tp_id t = REASONING_TEMPLATE_ID) (tm_templates m) in
             case filter template_compatible claimed of
               [t] \<Rightarrow> if length (filter (\<lambda>u. tp_version u = tp_version t) claimed) \<noteq> 1 then None
                      else Some (tp_id t, tp_version t)
             | _ \<Rightarrow> None))"

definition declared_actions :: "template \<Rightarrow> required_view \<Rightarrow> string list" where
  "declared_actions t rv =
     (case List.find (\<lambda>w. tv_name w = rv_name rv) (tp_views t) of
        None \<Rightarrow> []
      | Some w \<Rightarrow> filter (\<lambda>a. a \<in> set (rv_allowed rv)) (tv_submit_actions w))"

definition reasoning_process_submit_actions ::
  "templating option \<Rightarrow> (string \<times> string) option \<Rightarrow> (string, string list) dict" where
  "reasoning_process_submit_actions tm ref =
     (case (tm, ref) of
        (Some m, Some (i, ver)) \<Rightarrow>
          if select_reasoning_process_template tm \<noteq> ref then []
          else
            (case List.find (\<lambda>t. tp_id t = i \<and> tp_version t = ver) (tm_templates m) of
               None \<Rightarrow> []
             | Some t \<Rightarrow>
                 concat (map (\<lambda>rv. map (\<lambda>s. (s, declared_actions t rv)) (rv_states rv)) REASONING_REQUIRED_VIEWS))
      | _ \<Rightarrow> [])"

definition REASONING_ACTION_LABELS :: "(string \<times> string) list" where
  \<comment> \<open>the labels as their UTF-8 bytes\<close>
  "REASONING_ACTION_LABELS =
     [(''reasoning_stop'', map char_of [0xE5, 0x81, 0x9C, 0xE6, 0xAD, 0xA2 :: nat]),
      (''reasoning_retry'', map char_of [0xE9, 0x87, 0x8D, 0xE8, 0xAF, 0x95 :: nat])]"

definition reasoning_action_labels :: "string list \<Rightarrow> (string, string) dict" where
  "reasoning_action_labels actions =
     fold (\<lambda>a d. case map_of REASONING_ACTION_LABELS a of None \<Rightarrow> d | Some l \<Rightarrow> dset a l d) actions []"

section \<open>Steps and phases\<close>

datatype tool_status = StepRunning | StepComplete | StepFailed

record ptool =
  pt_call_id :: string
  pt_name :: string
  pt_label :: string
  pt_summary :: string
  pt_status :: tool_status
  pt_error :: string
  pt_thought :: string
  pt_result :: string
  pt_duration :: "int option"
  pt_started :: rat

definition THINKING :: string where "THINKING = ''__thinking__''"

record card_text =
  ct_safe_label :: "string \<Rightarrow> string"                \<comment> \<open>\<open>safe_tool_label\<close>\<close>
  ct_shown_label :: "string \<Rightarrow> json \<Rightarrow> string"        \<comment> \<open>\<open>localized_tool_label\<close>\<close>
  ct_summary :: "string \<Rightarrow> json \<Rightarrow> string"            \<comment> \<open>\<open>summarize_tool_params\<close>\<close>
  ct_error :: "json \<Rightarrow> string"                      \<comment> \<open>\<open>sanitize_error_text\<close>\<close>
  ct_result :: "string \<Rightarrow> json \<Rightarrow> string"             \<comment> \<open>\<open>summarize_tool_result\<close>\<close>
  ct_thought :: "string \<Rightarrow> string"                   \<comment> \<open>\<open>sanitize_reasoning_thought\<close>\<close>
  ct_action :: "ptool \<Rightarrow> build_error + json"         \<comment> \<open>\<open>_reasoning_action\<close>\<close>

type_synonym phase = "string \<times> json list"

definition FALLBACK_THOUGHT :: string where
  \<comment> \<open>the text as its UTF-8 bytes\<close>
  "FALLBACK_THOUGHT =
     map char_of [0xE6, 0xAD, 0xA3, 0xE5, 0x9C, 0xA8, 0xE5, 0x88, 0x86, 0xE6, 0x9E, 0x90, 0xE2, 0x80, 0xA6 :: nat]"

fun reasoning_phases :: "card_text \<Rightarrow> phase option \<Rightarrow> ptool list \<Rightarrow> build_error + phase list" where
  \<comment> \<open>the loop of \<open>_reasoning_phases\<close> and the phase it is in\<close>
  "reasoning_phases x cur [] = Inr (case cur of None \<Rightarrow> [] | Some p \<Rightarrow> [p])"
| "reasoning_phases x cur (t # ts) =
     (if pt_name t = THINKING
      then ebind (reasoning_phases x (Some (ct_thought x (pt_thought t), [])) ts)
             (\<lambda>ps. Inr ((case cur of None \<Rightarrow> [] | Some p \<Rightarrow> [p]) @ ps))
      else ebind (ct_action x t) (\<lambda>a.
             reasoning_phases x
               (Some (case cur of None \<Rightarrow> (FALLBACK_THOUGHT, [a]) | Some (th, as) \<Rightarrow> (th, as @ [a]))) ts))"

definition REASONING_MAX_PHASES :: nat where "REASONING_MAX_PHASES = 6"
definition REASONING_MAX_ACTIONS :: nat where "REASONING_MAX_ACTIONS = 12"

definition last_n :: "nat \<Rightarrow> 'a list \<Rightarrow> 'a list" where
  \<comment> \<open>\<open>xs[-n:]\<close> for a positive \<open>n\<close>\<close>
  "last_n n xs = drop (length xs - n) xs"

fun trim_newest :: "nat \<Rightarrow> phase list \<Rightarrow> phase list" where
  \<comment> \<open>over the phases from the newest on\<close>
  "trim_newest remaining [] = []"
| "trim_newest remaining ((th, as) # ps) =
     (if remaining = 0 then []
      else (let as' = last_n remaining as in (th, as') # trim_newest (remaining - length as') ps))"

definition trim_reasoning_phases :: "phase list \<Rightarrow> phase list" where
  "trim_reasoning_phases ps =
     rev (trim_newest REASONING_MAX_ACTIONS (rev (last_n REASONING_MAX_PHASES ps)))"

definition phase_names :: "(string \<times> string) list" where
  "phase_names =
     [(''starting'', ''reasoning''), (''thinking'', ''reasoning''), (''running'', ''reasoning''),
      (''tool'', ''reasoning''), (''paused'', ''reasoning''), (''resuming'', ''reasoning''),
      (''answering'', ''answering''), (''completed'', ''completed''), (''done'', ''completed''),
      (''stopped'', ''stopped''), (''failed'', ''error''), (''error'', ''error''), (''expired'', ''error'')]"

record wire_data =
  wd_reasoning_id :: string
  wd_state :: string
  wd_phases :: "phase list"
  wd_elapsed :: int

definition reasoning_wire_data ::
  "card_text \<Rightarrow> string \<Rightarrow> ptool list \<Rightarrow> int \<Rightarrow> string \<Rightarrow> build_error + wire_data option" where
  \<comment> \<open>\<open>build_reasoning_process_wire_data\<close>; the fields that only word the state are left out\<close>
  "reasoning_wire_data x phase tools elapsed rid =
     ebind (reasoning_phases x None tools) (\<lambda>ps.
       (case filter (\<lambda>p. snd p \<noteq> []) ps of
          [] \<Rightarrow> Inr None
        | qs \<Rightarrow>
            (case map_of phase_names phase of
               None \<Rightarrow> Inl BadValue
             | Some st \<Rightarrow>
                 Inr (Some \<lparr>wd_reasoning_id = (let r = strip rid in if r = [] then ''octo-progress'' else r),
                            wd_state = st, wd_phases = trim_reasoning_phases qs, wd_elapsed = elapsed\<rparr>))))"

section \<open>Lemmas\<close>

lemma selected_template:
  assumes "select_reasoning_process_template (Some m) = Some (i, ver)"
  obtains t where "t \<in> set (tm_templates m)" "tp_id t = i" "tp_version t = ver" "template_compatible t"
    "\<forall>u\<in>set (tm_templates m). tp_id u = i \<and> tp_version u = ver \<longrightarrow> u = t"
proof -
  let ?claimed = "filter (\<lambda>t. tp_id t = REASONING_TEMPLATE_ID) (tm_templates m)"
  have h: "(case filter template_compatible ?claimed of
      [t] \<Rightarrow> if length (filter (\<lambda>u. tp_version u = tp_version t) ?claimed) \<noteq> 1 then None
             else Some (tp_id t, tp_version t)
    | _ \<Rightarrow> None) = Some (i, ver)"
    using assms unfolding select_reasoning_process_template_def option.case Let_def
    by (auto split: if_split_asm)
  then obtain t where t1: "filter template_compatible ?claimed = [t]"
    by (cases "filter template_compatible ?claimed" rule: remdups_adj.cases) auto
  have g: "(if length (filter (\<lambda>u. tp_version u = tp_version t) ?claimed) \<noteq> 1 then None
      else Some (tp_id t, tp_version t)) = Some (i, ver)"
    using h unfolding t1 list.case .
  then have one: "length (filter (\<lambda>u. tp_version u = tp_version t) ?claimed) = 1"
    by (rule contrapos_pp) simp
  have "(i, ver) = (tp_id t, tp_version t)" using g unfolding one by simp
  then have t: "filter template_compatible ?claimed = [t]"
    "length (filter (\<lambda>u. tp_version u = tp_version t) ?claimed) = 1" "i = tp_id t" "ver = tp_version t"
    using t1 one by blast+
  have "t \<in> set (filter template_compatible ?claimed)" unfolding t(1) by simp
  then have mem: "t \<in> set ?claimed" "template_compatible t" by auto
  obtain u where u: "filter (\<lambda>u. tp_version u = tp_version t) ?claimed = [u]"
    using t(2) by (auto simp: length_Suc_conv)
  have "t \<in> set (filter (\<lambda>u. tp_version u = tp_version t) ?claimed)" using mem(1) by simp
  then have "u = t" unfolding u by simp
  have "w = t" if "w \<in> set (tm_templates m)" "tp_id w = i" "tp_version w = ver" for w
  proof -
    have "w \<in> set (filter (\<lambda>u. tp_version u = tp_version t) ?claimed)"
      using that mem(1) t(3,4) by simp
    then show ?thesis unfolding u \<open>u = t\<close> by simp
  qed
  then have "\<forall>u\<in>set (tm_templates m). tp_id u = i \<and> tp_version u = ver \<longrightarrow> u = t" by blast
  moreover have "t \<in> set (tm_templates m)" using mem(1) unfolding set_filter by blast
  ultimately show ?thesis using that[of t] t(3,4) mem(2) by blast
qed

lemma declared_actions_allowed: "set (declared_actions t rv) \<subseteq> set (rv_allowed rv)"
  by (auto simp: declared_actions_def split: option.splits)

text \<open>Whatever the server advertises, a running card can only be stopped, a failed one only retried,
  and a finished one offers nothing.\<close>

lemma submit_actions_bounded:
  assumes "(s, as) \<in> set (reasoning_process_submit_actions tm ref)"
  shows "set as \<subseteq> (if s = ''reasoning'' \<or> s = ''answering'' then {''reasoning_stop''}
                   else if s = ''error'' then {''reasoning_retry''} else {})"
proof -
  have "\<exists>t. reasoning_process_submit_actions tm ref =
      concat (map (\<lambda>rv. map (\<lambda>s. (s, declared_actions t rv)) (rv_states rv)) REASONING_REQUIRED_VIEWS)"
  proof -
    have ne: "reasoning_process_submit_actions tm ref \<noteq> []" using assms by auto
    then obtain m i ver where p: "tm = Some m" "ref = Some (i, ver)"
      unfolding reasoning_process_submit_actions_def by (cases tm; cases ref) auto
    have sel: "select_reasoning_process_template tm = ref"
      using ne unfolding reasoning_process_submit_actions_def p prod.case option.case by (meson)
    obtain t where "List.find (\<lambda>t. tp_id t = i \<and> tp_version t = ver) (tm_templates m) = Some t"
      using ne sel unfolding reasoning_process_submit_actions_def p prod.case option.case
      by (cases "List.find (\<lambda>t. tp_id t = i \<and> tp_version t = ver) (tm_templates m)") auto
    then show ?thesis
      using sel unfolding reasoning_process_submit_actions_def p prod.case option.case by (intro exI[of _ t]) simp
  qed
  then obtain t rv where "rv \<in> set REASONING_REQUIRED_VIEWS" "s \<in> set (rv_states rv)"
    "as = declared_actions t rv"
    using assms by auto
  then show ?thesis
    using declared_actions_allowed[of t rv] by (auto simp: REASONING_REQUIRED_VIEWS_def)
qed

lemma trim_newest_bounds:
  "length (trim_newest n ps) \<le> length ps \<and> length (concat (map snd (trim_newest n ps))) \<le> n"
proof (induction n ps rule: trim_newest.induct)
  case (2 n th as ps)
  have "length (last_n n as) \<le> n" by (simp add: last_n_def)
  then show ?case using 2 by (auto simp: Let_def)
qed simp

lemma trim_bounds:
  "length (trim_reasoning_phases ps) \<le> REASONING_MAX_PHASES"
  "length (concat (map snd (trim_reasoning_phases ps))) \<le> REASONING_MAX_ACTIONS"
proof -
  have "length (last_n REASONING_MAX_PHASES ps) \<le> REASONING_MAX_PHASES" by (simp add: last_n_def)
  then show "length (trim_reasoning_phases ps) \<le> REASONING_MAX_PHASES"
    using trim_newest_bounds[of REASONING_MAX_ACTIONS "rev (last_n REASONING_MAX_PHASES ps)"]
    by (simp add: trim_reasoning_phases_def)
  show "length (concat (map snd (trim_reasoning_phases ps))) \<le> REASONING_MAX_ACTIONS"
    using trim_newest_bounds[of REASONING_MAX_ACTIONS "rev (last_n REASONING_MAX_PHASES ps)"]
    by (simp add: trim_reasoning_phases_def length_concat rev_map[symmetric] sum_list_rev)
qed

definition real_step :: "ptool \<Rightarrow> bool" where
  "real_step t \<longleftrightarrow> pt_name t \<noteq> THINKING"

lemma phases_actions:
  "reasoning_phases x cur ts = Inr ps \<Longrightarrow>
   (\<exists>p\<in>set ps. snd p \<noteq> []) \<longleftrightarrow> (\<exists>t\<in>set ts. real_step t) \<or> (\<exists>p. cur = Some p \<and> snd p \<noteq> [])"
proof (induction ts arbitrary: cur ps)
  case Nil
  then show ?case by (auto split: option.splits)
next
  case (Cons t ts)
  show ?case
  proof (cases "pt_name t = THINKING")
    case True
    then obtain qs where qs: "reasoning_phases x (Some (ct_thought x (pt_thought t), [])) ts = Inr qs"
      "ps = (case cur of None \<Rightarrow> [] | Some p \<Rightarrow> [p]) @ qs"
      using Cons.prems by (auto simp: ebind_Inr)
    show ?thesis
      using Cons.IH[OF qs(1)] True qs(2) by (auto simp: real_step_def split: option.splits)
  next
    case False
    then obtain a where a: "reasoning_phases x (Some (case cur of None \<Rightarrow> (FALLBACK_THOUGHT, [a])
        | Some (th, as) \<Rightarrow> (th, as @ [a]))) ts = Inr ps"
      using Cons.prems by (auto simp: ebind_Inr)
    have "snd (case cur of None \<Rightarrow> (FALLBACK_THOUGHT, [a]) | Some (th, as) \<Rightarrow> (th, as @ [a])) \<noteq> []"
      by (auto split: option.split prod.split)
    then show ?thesis using Cons.IH[OF a] False by (auto simp: real_step_def)
  qed
qed

lemma wire_data_None:
  assumes "reasoning_wire_data x phase tools elapsed rid = Inr None"
  shows "\<not> list_ex real_step tools"
proof -
  from assms obtain ps where ps: "reasoning_phases x None tools = Inr ps"
    and h: "(case filter (\<lambda>p. snd p \<noteq> []) ps of
          [] \<Rightarrow> Inr None
        | q # qs \<Rightarrow>
            (case map_of phase_names phase of
               None \<Rightarrow> Inl BadValue
             | Some st \<Rightarrow>
                 Inr (Some \<lparr>wd_reasoning_id = (let r = strip rid in if r = [] then ''octo-progress'' else r),
                            wd_state = st, wd_phases = trim_reasoning_phases (q # qs), wd_elapsed = elapsed\<rparr>))) =
        Inr None"
    unfolding reasoning_wire_data_def ebind_Inr by blast
  then have "filter (\<lambda>p. snd p \<noteq> []) ps = []"
    by (cases "filter (\<lambda>p. snd p \<noteq> []) ps"; cases "map_of phase_names phase") auto
  then have "\<not> (\<exists>p\<in>set ps. snd p \<noteq> [])" by (simp add: filter_empty_conv)
  then show ?thesis using phases_actions[OF ps] by (simp add: list_ex_iff)
qed

lemma wire_data_Some:
  assumes "reasoning_wire_data x phase tools elapsed rid = Inr (Some d)"
  shows "list_ex real_step tools \<and> map_of phase_names phase = Some (wd_state d) \<and>
    length (wd_phases d) \<le> REASONING_MAX_PHASES \<and>
    length (concat (map snd (wd_phases d))) \<le> REASONING_MAX_ACTIONS"
proof -
  from assms obtain ps where ps: "reasoning_phases x None tools = Inr ps"
    and h: "(case filter (\<lambda>p. snd p \<noteq> []) ps of
          [] \<Rightarrow> Inr None
        | q # qs \<Rightarrow>
            (case map_of phase_names phase of
               None \<Rightarrow> Inl BadValue
             | Some st \<Rightarrow>
                 Inr (Some \<lparr>wd_reasoning_id = (let r = strip rid in if r = [] then ''octo-progress'' else r),
                            wd_state = st, wd_phases = trim_reasoning_phases (q # qs), wd_elapsed = elapsed\<rparr>))) =
        Inr (Some d)"
    unfolding reasoning_wire_data_def ebind_Inr by blast
  then have q: "filter (\<lambda>p. snd p \<noteq> []) ps \<noteq> []" "map_of phase_names phase = Some (wd_state d)"
    "wd_phases d = trim_reasoning_phases (filter (\<lambda>p. snd p \<noteq> []) ps)"
    by (cases "filter (\<lambda>p. snd p \<noteq> []) ps"; cases "map_of phase_names phase"; auto)+
  have "\<exists>p\<in>set ps. snd p \<noteq> []" using q(1) by (auto simp: filter_empty_conv)
  then have "list_ex real_step tools" using phases_actions[OF ps] by (simp add: list_ex_iff)
  then show ?thesis using q trim_bounds by simp
qed

end
