(* ===== verification/Progress.thy ===== *)
theory Progress
  imports Reasoning
begin

text \<open>
  Models \<open>card_progress.py\<close>: the controller that shows a turn's steps on a card while it runs. Hooks of
  the gateway change the turns under a lock, from any thread; the network is only used by drains,
  tasks of an adapter that send a card once and then edit it until it shows the latest
  revision. A drain is its program counter: each step is one region under the lock, or the
  return of an awaited call with the region behind it. The server's answers, the clock and the
  wording of a step are given. What the drains put on the wire is the log.
\<close>

section \<open>State\<close>

type_synonym pkey = "string \<times> string \<times> nat"   \<comment> \<open>session, turn and segment\<close>

datatype delivery = RegistryMode | CardMode

record pturn =
  tn_id :: nat                \<comment> \<open>the identity of the state object, which also names its \<open>client_msg_no\<close>\<close>
  tn_adapter :: nat
  tn_route :: trusted_route
  tn_session :: string
  tn_turn :: string
  tn_segment :: nat
  tn_tools :: "(string, ptool) dict"
  tn_fallback :: "(string, string list) dict"
  tn_revision :: nat
  tn_delivered :: int
  tn_message :: "string option"
  tn_seq :: nat
  tn_scheduled :: bool
  tn_send_started :: bool
  tn_final :: bool
  tn_final_phase :: string
  tn_phase :: string
  tn_started :: rat
  tn_mode :: "delivery option"
  tn_template :: "(string \<times> string) option"
  tn_caps :: "capabilities option"
  tn_actions :: "(string, string list) dict"
  tn_preserve :: bool

record snapshot =
  sn_turn :: nat
  sn_route :: trusted_route
  sn_revision :: nat
  sn_message :: "string option"
  sn_final :: bool
  sn_phase :: string
  sn_tools :: "ptool list"
  sn_seq :: nat
  sn_mode :: "delivery option"
  sn_template :: "(string \<times> string) option"
  sn_caps :: "capabilities option"
  sn_elapsed :: int
  sn_reasoning_id :: string

datatype drain_pc =
    Reading                                        \<comment> \<open>the head of the loop\<close>
  | Profiling snapshot                             \<comment> \<open>the manifest is awaited\<close>
  | Skipping snapshot                              \<comment> \<open>nothing to show\<close>
  | Claiming snapshot "wire_data option"           \<comment> \<open>before \<open>send_started\<close> is set\<close>
  | Sending snapshot "wire_data option"            \<comment> \<open>the first send is awaited\<close>
  | Editing snapshot "wire_data option" nat        \<comment> \<open>an edit is awaited, with its attempt\<close>
  | Pausing snapshot "wire_data option" nat        \<comment> \<open>the pause between two attempts\<close>
  | Backoff                                        \<comment> \<open>the pause after three attempts\<close>

record drain =
  dr_key :: pkey
  dr_adapter :: nat
  dr_exhaustions :: nat
  dr_pc :: drain_pc

datatype wire =
    WSend snapshot | WEdit snapshot nat | WEdited snapshot
  \<comment> \<open>a first send, an edit with its attempt, and the answer that an edit was applied\<close>

record progress =
  pr_turns :: "(pkey, pturn) dict"
  pr_next :: nat
  pr_released :: "nat list"                \<comment> \<open>turns whose \<open>initial_delivery\<close> is done\<close>
  pr_spawns :: "(nat \<times> pkey) list"         \<comment> \<open>\<open>call_soon_threadsafe(spawn)\<close> not run yet\<close>
  pr_drains :: "(nat, drain) dict"
  pr_next_task :: nat
  pr_registry :: "nat \<Rightarrow> registry"
  pr_disconnecting :: "nat \<Rightarrow> bool"
  pr_http :: "nat \<Rightarrow> bool"
  pr_loop :: "nat \<Rightarrow> bool"
  pr_log :: "wire list"
  pr_raised :: bool                        \<comment> \<open>an operation of the card registry has raised\<close>
  pr_refused :: "nat list"                 \<comment> \<open>adapters that dropped a spawn while disconnecting\<close>

record progress_world =
  pw_text :: card_text
  pw_card :: "string \<Rightarrow> ptool list \<Rightarrow> int \<Rightarrow> string \<Rightarrow> capabilities option \<Rightarrow> build_error + json"
    \<comment> \<open>\<open>build_agent_progress_card\<close>\<close>
  pw_on_behalf_of :: "nat \<Rightarrow> string option"
  pw_renderer :: "nat \<Rightarrow> string"
  pw_robot_id :: "nat \<Rightarrow> string"
  pw_configured :: bool
  pw_checksum :: checksum_fn

type_synonym 'a pop = "progress \<Rightarrow> bool \<times> progress"   \<comment> \<open>whether an exception escapes, and the state\<close>

definition MAX_PROGRESS_TOOL_ENTRIES :: nat where "MAX_PROGRESS_TOOL_ENTRIES = 32"
definition MAX_PROGRESS_EDIT_EXHAUSTIONS :: nat where "MAX_PROGRESS_EDIT_EXHAUSTIONS = 2"
definition CARD_AUTHORING_TOOLS :: "string list" where
  "CARD_AUTHORING_TOOLS = [''octo_send_display_card'', ''octo_send_interactive_card'']"

definition segment_of :: "pkey \<Rightarrow> nat" where "segment_of k = snd (snd k)"

definition new_turn :: "nat \<Rightarrow> nat \<Rightarrow> trusted_route \<Rightarrow> string \<Rightarrow> string \<Rightarrow> nat \<Rightarrow> rat \<Rightarrow> pturn" where
  "new_turn i a r sid tid n now =
     \<lparr>tn_id = i, tn_adapter = a, tn_route = r, tn_session = sid, tn_turn = tid, tn_segment = n,
      tn_tools = [], tn_fallback = [], tn_revision = 0, tn_delivered = -1, tn_message = None, tn_seq = 0,
      tn_scheduled = False, tn_send_started = False, tn_final = False, tn_final_phase = ''completed'',
      tn_phase = ''thinking'', tn_started = now, tn_mode = None, tn_template = None, tn_caps = None,
      tn_actions = [], tn_preserve = False\<rparr>"

definition has_real_tool :: "pturn \<Rightarrow> bool" where
  "has_real_tool t \<longleftrightarrow> list_ex real_step (map snd (tn_tools t))"

definition elapsed_ms :: "rat \<Rightarrow> rat \<Rightarrow> int" where
  \<comment> \<open>\<open>max(0, int((now - started) * 1000))\<close>\<close>
  "elapsed_ms now started = max 0 \<lfloor>(now - started) * 1000\<rfloor>"

section \<open>Turns\<close>

definition put_turn :: "pkey \<Rightarrow> pturn \<Rightarrow> progress \<Rightarrow> progress" where
  "put_turn k t s = s\<lparr>pr_turns := dset k t (pr_turns s)\<rparr>"

definition release_barrier :: "nat \<Rightarrow> progress \<Rightarrow> progress" where
  "release_barrier i s = s\<lparr>pr_released := sadd i (pr_released s)\<rparr>"

definition set_registry :: "nat \<Rightarrow> registry \<Rightarrow> progress \<Rightarrow> progress" where
  "set_registry a r s = s\<lparr>pr_registry := (pr_registry s)(a := r)\<rparr>"

definition drop_turn :: "progress_world \<Rightarrow> env \<Rightarrow> pkey \<Rightarrow> progress \<Rightarrow> bool \<times> progress" where
  "drop_turn W v k s =
     (case dget (pr_turns s) k of
        None \<Rightarrow> (False, s)
      | Some t \<Rightarrow>
          (let s1 = s\<lparr>pr_turns := dpop k (pr_turns s)\<rparr> in
           case tn_message t of
             Some mid \<Rightarrow>
               if tn_mode t = Some RegistryMode \<and> mid \<noteq> [] \<and> \<not> tn_preserve t
               then (case discard (pw_checksum W) v mid (pr_registry s (tn_adapter t)) of
                       (Inl _, r) \<Rightarrow> (True, set_registry (tn_adapter t) r s1)
                     | (Inr _, r) \<Rightarrow> (False, release_barrier (tn_id t) (set_registry (tn_adapter t) r s1)))
               else (False, release_barrier (tn_id t) s1)
           | None \<Rightarrow> (False, release_barrier (tn_id t) s1)))"

fun drop_turns :: "progress_world \<Rightarrow> env \<Rightarrow> pkey list \<Rightarrow> progress \<Rightarrow> bool \<times> progress" where
  "drop_turns W v [] s = (False, s)"
| "drop_turns W v (k # ks) s =
     (case drop_turn W v k s of (True, s') \<Rightarrow> (True, s') | (False, s') \<Rightarrow> drop_turns W v ks s')"

definition schedule_progress :: "progress \<Rightarrow> nat \<Rightarrow> bool" where
  \<comment> \<open>\<open>_schedule_card_progress\<close> takes the task\<close>
  "schedule_progress s a \<longleftrightarrow> \<not> pr_disconnecting s a \<and> pr_loop s a"

definition schedule_locked :: "progress_world \<Rightarrow> env \<Rightarrow> pkey \<Rightarrow> progress \<Rightarrow> bool \<times> progress" where
  "schedule_locked W v k s =
     (case dget (pr_turns s) k of
        None \<Rightarrow> (False, s)
      | Some t \<Rightarrow>
          if tn_scheduled t then (False, s)
          else if \<not> has_real_tool t then (if tn_final t then drop_turn W v k s else (False, s))
          else if schedule_progress s (tn_adapter t)
          then (False, (put_turn k (t\<lparr>tn_scheduled := True\<rparr>) s)\<lparr>pr_spawns := pr_spawns s @ [(tn_adapter t, k)]\<rparr>)
          else drop_turn W v k s)"

definition max_segment :: "pkey list \<Rightarrow> pkey option" where
  "max_segment ks = List.find (\<lambda>k. segment_of k = Max (segment_of ` set ks)) ks"

definition open_keys :: "progress \<Rightarrow> string \<Rightarrow> pkey list" where
  "open_keys s sid = map fst (filter (\<lambda>(k, t). fst k = sid \<and> \<not> tn_final t) (pr_turns s))"

definition find_key :: "string \<Rightarrow> string \<Rightarrow> progress \<Rightarrow> pkey option" where
  "find_key sid tid s =
     (if sid = [] then None
      else
        (let cands = open_keys s sid;
             exact = filter (\<lambda>k. fst (snd k) = tid) cands
         in if tid \<noteq> [] \<and> exact \<noteq> [] then max_segment exact
            else if length (remdups (map (\<lambda>k. (fst k, fst (snd k))) cands)) \<noteq> 1 then None
            else max_segment cands))"

definition with_turn :: "string \<Rightarrow> string \<Rightarrow> (pkey \<Rightarrow> pturn \<Rightarrow> progress \<Rightarrow> bool \<times> progress) \<Rightarrow> progress \<Rightarrow> bool \<times> progress" where
  \<comment> \<open>the turn that a hook speaks of, unless there is none or it is final\<close>
  "with_turn sid tid f s =
     (case find_key sid tid s of
        None \<Rightarrow> (False, s)
      | Some k \<Rightarrow> (case dget (pr_turns s) k of
                    None \<Rightarrow> (False, s)
                  | Some t \<Rightarrow> if tn_final t then (False, s) else f k t s))"

section \<open>Hooks\<close>

definition begin_turn ::
  "progress_world \<Rightarrow> env \<Rightarrow> nat \<Rightarrow> trusted_route \<Rightarrow> string \<Rightarrow> string \<Rightarrow> progress \<Rightarrow> bool \<times> progress" where
  "begin_turn W v a r sid tid s =
     (if sid = [] \<or> tid = [] \<or> pw_on_behalf_of W a \<noteq> None then (False, s)
      else
        (let matching = filter (\<lambda>(k, t). fst k = sid \<and> fst (snd k) = tid) (pr_turns s) in
         if list_ex (\<lambda>(k, t). \<not> tn_final t) matching then (False, s)
         else
           (let n = (if matching = [] then 0 else Suc (Max (segment_of ` fst ` set matching)));
                k = (sid, tid, n)
            in schedule_locked W v k
                 ((put_turn k (new_turn (pr_next s) a r sid tid n (t_now v)) s)\<lparr>pr_next := pr_next s + 1\<rparr>))))"

definition step_id :: "string \<Rightarrow> string" where "step_id c = ''__thinking__:'' @ c"

definition new_tool :: "string \<Rightarrow> string \<Rightarrow> string \<Rightarrow> string \<Rightarrow> rat \<Rightarrow> ptool" where
  "new_tool c name label summary now =
     \<lparr>pt_call_id = c, pt_name = name, pt_label = label, pt_summary = summary, pt_status = StepRunning,
      pt_error = [], pt_thought = [], pt_result = [], pt_duration = None, pt_started = now\<rparr>"

definition model_started ::
  "progress_world \<Rightarrow> env \<Rightarrow> string \<Rightarrow> string \<Rightarrow> string \<Rightarrow> progress \<Rightarrow> bool \<times> progress" where
  "model_started W v sid tid cid =
     with_turn sid tid (\<lambda>k t s.
       (let c = step_id (if cid \<noteq> [] then cid else ''model-'' @ dec_str (length (tn_tools t) + 1));
            tool = new_tool c THINKING (ct_shown_label (pw_text W) THINKING JNull) [] (t_now v)
        in (False, put_turn k (t\<lparr>tn_tools := dset c tool (tn_tools t), tn_phase := ''thinking'',
                                 tn_revision := tn_revision t + 1\<rparr>) s)))"

definition duration_of :: "json \<Rightarrow> rat \<Rightarrow> rat \<Rightarrow> int" where
  "duration_of d now started = (case d of JInt i \<Rightarrow> if i \<ge> 0 then i else elapsed_ms now started
                                | _ \<Rightarrow> elapsed_ms now started)"

definition finished_model_step :: "string \<Rightarrow> pturn \<Rightarrow> string option" where
  \<comment> \<open>the step of the model call, or the latest one that still runs\<close>
  "finished_model_step cid t =
     (let key = (if cid \<noteq> [] then step_id cid else [])
      in if dget (tn_tools t) key \<noteq> None then Some key
         else map_option fst (List.find (\<lambda>(c, p). pt_name p = THINKING \<and> pt_status p = StepRunning) (rev (tn_tools t))))"

definition model_finished ::
  "progress_world \<Rightarrow> env \<Rightarrow> string \<Rightarrow> string \<Rightarrow> string \<Rightarrow> string \<Rightarrow> json \<Rightarrow> bool \<Rightarrow> bool \<Rightarrow> progress \<Rightarrow> bool \<times> progress" where
  "model_finished W v sid tid cid thought dur answering failed =
     with_turn sid tid (\<lambda>k t s.
       (case finished_model_step cid t of
          None \<Rightarrow> (False, s)
        | Some c \<Rightarrow>
            (case dget (tn_tools t) c of
               None \<Rightarrow> (False, s)
             | Some p \<Rightarrow>
                 (let p' = p\<lparr>pt_status := (if failed then StepFailed else StepComplete), pt_thought := thought,
                             pt_duration := Some (duration_of dur (t_now v) (pt_started p))\<rparr>
                  in schedule_locked W v k
                       (put_turn k (t\<lparr>tn_tools := dset c p' (tn_tools t),
                                      tn_phase := (if answering then ''answering'' else tn_phase t),
                                      tn_revision := tn_revision t + 1\<rparr>) s)))))"

definition stop_thinking :: "rat \<Rightarrow> pturn \<Rightarrow> (string, ptool) dict" where
  \<comment> \<open>the steps when a tool is called that writes a card of its own\<close>
  "stop_thinking now t =
     (if has_real_tool t
      then map (\<lambda>(c, p). (c, if real_step p then p
                             else p\<lparr>pt_status := StepComplete, pt_duration := Some (elapsed_ms now (pt_started p))\<rparr>))
             (tn_tools t)
      else [])"

definition tool_started ::
  "progress_world \<Rightarrow> env \<Rightarrow> string \<Rightarrow> string \<Rightarrow> string \<Rightarrow> string \<Rightarrow> json \<Rightarrow> progress \<Rightarrow> bool \<times> progress" where
  "tool_started W v sid tid cid name args =
     with_turn sid tid (\<lambda>k t s.
       if name \<in> set CARD_AUTHORING_TOOLS
       then (False, put_turn k (t\<lparr>tn_tools := stop_thinking (t_now v) t, tn_revision := tn_revision t + 1\<rparr>) s)
       else
         (let label = ct_safe_label (pw_text W) name;
              c = (if cid \<noteq> [] then cid else label @ '':'' @ dec_str (length (tn_tools t) + 1));
              tool = new_tool c (if name \<noteq> [] then name else label) (ct_shown_label (pw_text W) name args)
                       (ct_summary (pw_text W) name args) (t_now v);
              pending = (case dget (tn_fallback t) label of None \<Rightarrow> [] | Some cs \<Rightarrow> cs)
          in schedule_locked W v k
               (put_turn k (t\<lparr>tn_tools := dset c tool (tn_tools t), tn_phase := ''tool'',
                              tn_fallback := (if cid \<noteq> [] then tn_fallback t
                                              else dset label (pending @ [c]) (tn_fallback t)),
                              tn_revision := tn_revision t + 1\<rparr>) s)))"

definition failed_status :: "string \<Rightarrow> bool" where
  "failed_status st \<longleftrightarrow> st \<in> {''cancelled'', ''error'', ''blocked'', ''failed''}"

definition pop_fallback :: "string \<Rightarrow> pturn \<Rightarrow> string \<times> (string, string list) dict" where
  \<comment> \<open>the latest call of the tool that has no id of its own\<close>
  "pop_fallback label t =
     (case dget (tn_fallback t) label of
        None \<Rightarrow> ([], tn_fallback t)
      | Some cs \<Rightarrow>
          if cs = [] then ([], tn_fallback t)
          else (last cs, if butlast cs = [] then dpop label (tn_fallback t)
                         else dset label (butlast cs) (tn_fallback t)))"

definition tool_finished ::
  "progress_world \<Rightarrow> env \<Rightarrow> string \<Rightarrow> string \<Rightarrow> string \<Rightarrow> string \<Rightarrow> string \<Rightarrow> json \<Rightarrow> json \<Rightarrow> json \<Rightarrow>
   progress \<Rightarrow> bool \<times> progress" where
  "tool_finished W v sid tid cid name status err dur res =
     with_turn sid tid (\<lambda>k t s.
       (let (c, fb) = (if cid \<noteq> [] then (cid, tn_fallback t) else pop_fallback (ct_safe_label (pw_text W) name) t);
            t1 = t\<lparr>tn_fallback := fb\<rparr>
        in case dget (tn_tools t1) c of
             None \<Rightarrow> (False, put_turn k t1 s)
           | Some p \<Rightarrow>
               (let bad = failed_status status;
                    p' = p\<lparr>pt_status := (if bad then StepFailed else StepComplete),
                           pt_error := (if bad then ct_error (pw_text W) err else []),
                           pt_result := (if bad then [] else ct_result (pw_text W) (pt_name p) res),
                           pt_duration := Some (duration_of dur (t_now v) (pt_started p))\<rparr>
                in schedule_locked W v k
                     (put_turn k (t1\<lparr>tn_tools := dset c p' (tn_tools t1), tn_revision := tn_revision t1 + 1\<rparr>) s))))"

definition end_steps :: "rat \<Rightarrow> bool \<Rightarrow> (string, ptool) dict \<Rightarrow> (string, ptool) dict" where
  "end_steps now bad tools =
     map (\<lambda>(c, p). (c, if pt_status p = StepRunning
                        then p\<lparr>pt_status := (if bad then StepFailed else StepComplete),
                               pt_duration := Some (elapsed_ms now (pt_started p))\<rparr>
                        else p)) tools"

definition finalize_turn :: "rat \<Rightarrow> string \<Rightarrow> bool \<Rightarrow> pturn \<Rightarrow> pturn" where
  "finalize_turn now phase bad t =
     t\<lparr>tn_final := True, tn_final_phase := phase, tn_phase := phase,
       tn_tools := end_steps now bad (tn_tools t), tn_revision := tn_revision t + 1\<rparr>"

definition complete_turn ::
  "progress_world \<Rightarrow> env \<Rightarrow> string \<Rightarrow> string \<Rightarrow> bool \<Rightarrow> string \<Rightarrow> progress \<Rightarrow> bool \<times> progress" where
  "complete_turn W v sid tid failed terminal_phase s =
     (case find_key sid tid s of
        None \<Rightarrow> (False, s)
      | Some k \<Rightarrow>
          (case dget (pr_turns s) k of
             None \<Rightarrow> (False, s)
           | Some t \<Rightarrow>
               (let phase = (if terminal_phase \<noteq> [] then terminal_phase else if failed then ''failed'' else ''completed'')
                in schedule_locked W v k
                     (put_turn k (finalize_turn (t_now v) phase (failed \<or> phase \<noteq> ''completed'') t) s))))"

definition rollover_for_inbound ::
  "progress_world \<Rightarrow> env \<Rightarrow> string \<Rightarrow> string \<Rightarrow> progress \<Rightarrow> bool \<times> progress" where
  "rollover_for_inbound W v chat uid s =
     (if chat = [] \<or> uid = [] then (False, s)
      else
        (case filter (\<lambda>(k, t). \<not> tn_final t \<and> tr_chat_id (tn_route t) = chat \<and> tr_requester_uid (tn_route t) = uid)
                (pr_turns s) of
           [(k, t)] \<Rightarrow>
             if \<not> has_real_tool t \<and> tn_message t = None then (False, s)
             else
               (let n = tn_segment t + 1; k' = (tn_session t, tn_turn t, n);
                    fresh = (new_turn (pr_next s) (tn_adapter t) (tn_route t) (tn_session t) (tn_turn t) n (t_now v))
                              \<lparr>tn_mode := tn_mode t, tn_template := tn_template t, tn_caps := tn_caps t\<rparr>;
                    s1 = (put_turn k' fresh s)\<lparr>pr_next := pr_next s + 1\<rparr>
                in if tn_message t = None \<and> \<not> tn_send_started t then drop_turn W v k s1
                   else schedule_locked W v k (put_turn k (finalize_turn (t_now v) ''stopped'' True t) s1))
         | _ \<Rightarrow> (False, s)))"

definition cancel_session :: "progress_world \<Rightarrow> env \<Rightarrow> string \<Rightarrow> progress \<Rightarrow> bool \<times> progress" where
  "cancel_session W v sid s =
     (if sid = [] then (False, s)
      else drop_turns W v (filter (\<lambda>k. fst k = sid) (map fst (pr_turns s))) s)"

definition cancel_adapter :: "progress_world \<Rightarrow> env \<Rightarrow> nat \<Rightarrow> progress \<Rightarrow> bool \<times> progress" where
  "cancel_adapter W v a s =
     drop_turns W v (map fst (filter (\<lambda>(k, t). tn_adapter t = a) (pr_turns s))) s"

definition cancel_all :: "progress_world \<Rightarrow> env \<Rightarrow> progress \<Rightarrow> bool \<times> progress" where
  "cancel_all W v s = drop_turns W v (map fst (pr_turns s)) s"

definition initial_barrier :: "nat \<Rightarrow> string \<Rightarrow> progress \<Rightarrow> nat option" where
  \<comment> \<open>the turn whose first delivery \<open>wait_for_initial_delivery\<close> waits for\<close>
  "initial_barrier a key s =
     (case filter (\<lambda>t. tn_adapter t = a \<and> tr_session_key (tn_route t) = key \<and> \<not> tn_final t \<and> has_real_tool t)
             (map snd (pr_turns s)) of
        [t] \<Rightarrow> Some (tn_id t) | _ \<Rightarrow> None)"

section \<open>Drains\<close>

datatype api_failure = ApiStatus "int option" | BadArgument | OtherFailure
  \<comment> \<open>OctoApiError with its status; TypeError or ValueError; anything else\<close>

fun progress_edit_retryable :: "api_failure \<Rightarrow> bool" where
  "progress_edit_retryable (ApiStatus None) = True"
| "progress_edit_retryable (ApiStatus (Some c)) = (c \<in> {408, 425, 429} \<or> c \<ge> 500)"
| "progress_edit_retryable BadArgument = False"
| "progress_edit_retryable OtherFailure = True"

datatype drain_outcome =
    Awoken                      \<comment> \<open>the loop goes on, or a pause is over\<close>
  | GotManifest manifest
  | GotMessage string
  | Applied
  | Failed api_failure

definition set_drain :: "nat \<Rightarrow> drain \<Rightarrow> progress \<Rightarrow> progress" where
  "set_drain i d s = s\<lparr>pr_drains := dset i d (pr_drains s)\<rparr>"

definition end_drain :: "nat \<Rightarrow> progress \<Rightarrow> progress" where
  "end_drain i s = s\<lparr>pr_drains := dpop i (pr_drains s)\<rparr>"

definition log_wire :: "wire \<Rightarrow> progress \<Rightarrow> progress" where
  "log_wire e s = s\<lparr>pr_log := pr_log s @ [e]\<rparr>"

definition leave_drain :: "nat \<Rightarrow> bool \<times> progress \<Rightarrow> progress" where
  \<comment> \<open>the task ends, with what escapes\<close>
  "leave_drain i r = end_drain i ((snd r)\<lparr>pr_raised := pr_raised (snd r) \<or> fst r\<rparr>)"

definition abort_drain :: "progress_world \<Rightarrow> env \<Rightarrow> nat \<Rightarrow> drain \<Rightarrow> progress \<Rightarrow> progress" where
  \<comment> \<open>drop the turn and return\<close>
  "abort_drain W v i d s = leave_drain i (drop_turn W v (dr_key d) s)"

definition current_turn :: "drain \<Rightarrow> snapshot \<Rightarrow> progress \<Rightarrow> pturn option" where
  \<comment> \<open>\<open>None\<close> if the turn is gone or another object has its key\<close>
  "current_turn d n s =
     (case dget (pr_turns s) (dr_key d) of
        None \<Rightarrow> None
      | Some t \<Rightarrow> if tn_id t = sn_turn n then Some t else None)"

definition take_snapshot :: "rat \<Rightarrow> pturn \<Rightarrow> snapshot" where
  "take_snapshot now t =
     \<lparr>sn_turn = tn_id t, sn_route = tn_route t, sn_revision = tn_revision t, sn_message = tn_message t,
      sn_final = tn_final t, sn_phase = (if tn_final t then tn_final_phase t else tn_phase t),
      sn_tools = last_n MAX_PROGRESS_TOOL_ENTRIES (map snd (tn_tools t)), sn_seq = tn_seq t + 1,
      sn_mode = tn_mode t, sn_template = tn_template t, sn_caps = tn_caps t,
      sn_elapsed = elapsed_ms now (tn_started t),
      sn_reasoning_id = tn_session t @ '':'' @ tn_turn t @ '':'' @ dec_str (tn_segment t)\<rparr>"

definition renders :: "progress_world \<Rightarrow> snapshot \<Rightarrow> bool" where
  \<comment> \<open>\<open>build_agent_progress_card\<close> does not raise\<close>
  "renders W n = (case pw_card W (sn_phase n) (sn_tools n) (sn_elapsed n) (sn_reasoning_id n) (sn_caps n) of
                    Inl _ \<Rightarrow> False | Inr _ \<Rightarrow> True)"

definition start_edit :: "progress_world \<Rightarrow> env \<Rightarrow> nat \<Rightarrow> drain \<Rightarrow> snapshot \<Rightarrow> wire_data option \<Rightarrow> progress \<Rightarrow> progress" where
  "start_edit W v i d n wd s =
     (if sn_mode n = Some CardMode \<and> \<not> renders W n then abort_drain W v i d s
      else log_wire (WEdit n 0) (set_drain i (d\<lparr>dr_pc := Editing n wd 0\<rparr>) s))"

definition drain_read :: "progress_world \<Rightarrow> env \<Rightarrow> nat \<Rightarrow> drain \<Rightarrow> progress \<Rightarrow> progress" where
  "drain_read W v i d s =
     (case dget (pr_turns s) (dr_key d) of
        None \<Rightarrow> end_drain i s
      | Some t \<Rightarrow>
          if pr_disconnecting s (tn_adapter t) \<or> \<not> pr_http s (tn_adapter t) then abort_drain W v i d s
          else
            (let n = take_snapshot (t_now v) t;
                 to_wire = (\<lambda>wd. if sn_message n = None
                               then set_drain i (d\<lparr>dr_pc := Claiming n wd\<rparr>) s
                               else start_edit W v i d n wd s)
             in case sn_mode n of
                  None \<Rightarrow> set_drain i (d\<lparr>dr_pc := Profiling n\<rparr>) s
                | Some m \<Rightarrow>
                    if sn_tools n = [] then set_drain i (d\<lparr>dr_pc := Skipping n\<rparr>) s
                    else
                      (case m of
                         CardMode \<Rightarrow> to_wire None
                       | RegistryMode \<Rightarrow>
                           (case reasoning_wire_data (pw_text W) (sn_phase n) (sn_tools n) (sn_elapsed n) (sn_reasoning_id n) of
                              Inl _ \<Rightarrow> abort_drain W v i d s
                            | Inr None \<Rightarrow> set_drain i (d\<lparr>dr_pc := Skipping n\<rparr>) s
                            | Inr (Some w) \<Rightarrow> to_wire (Some w)))))"

definition drain_profile :: "progress_world \<Rightarrow> env \<Rightarrow> nat \<Rightarrow> drain \<Rightarrow> snapshot \<Rightarrow> manifest \<Rightarrow> progress \<Rightarrow> progress" where
  "drain_profile W v i d n m s =
     (let selected = (if pw_renderer W (dr_adapter d) = ''registry''
                      then select_reasoning_process_template (mf_templating m) else None);
          enabled = (if selected \<noteq> None then mf_available m \<and> mf_enabled m
                     else profile_enabled (pw_configured W) m CARD_PROFILE_V1)
      in if \<not> enabled then abort_drain W v i d s
         else
           (case current_turn d n s of
              None \<Rightarrow> end_drain i s
            | Some t \<Rightarrow>
                (let t1 = t\<lparr>tn_template := selected,
                            tn_mode := Some (if selected \<noteq> None then RegistryMode else CardMode)\<rparr>
                 in case derive_card_capabilities m of
                      Inl _ \<Rightarrow> abort_drain W v i d (put_turn (dr_key d) t1 s)
                    | Inr c \<Rightarrow>
                        set_drain i (d\<lparr>dr_pc := Reading\<rparr>)
                          (put_turn (dr_key d)
                            (t1\<lparr>tn_caps := Some c,
                                tn_actions := reasoning_process_submit_actions (mf_templating m) selected\<rparr>) s))))"

definition drain_skip :: "progress_world \<Rightarrow> env \<Rightarrow> nat \<Rightarrow> drain \<Rightarrow> snapshot \<Rightarrow> progress \<Rightarrow> progress" where
  "drain_skip W v i d n s =
     (case current_turn d n s of
        None \<Rightarrow> end_drain i s
      | Some t \<Rightarrow>
          (let s1 = put_turn (dr_key d) (t\<lparr>tn_delivered := int (sn_revision n), tn_scheduled := False\<rparr>) s
           in if tn_final t then abort_drain W v i d s1 else end_drain i s1))"

definition drain_claim ::
  "progress_world \<Rightarrow> env \<Rightarrow> nat \<Rightarrow> drain \<Rightarrow> snapshot \<Rightarrow> wire_data option \<Rightarrow> progress \<Rightarrow> progress" where
  "drain_claim W v i d n wd s =
     (case current_turn d n s of
        None \<Rightarrow> end_drain i s
      | Some t \<Rightarrow>
          (let s1 = put_turn (dr_key d) (t\<lparr>tn_send_started := True\<rparr>) s
           in if sn_mode n = Some CardMode \<and> \<not> renders W n then abort_drain W v i d s1
              else log_wire (WSend n) (set_drain i (d\<lparr>dr_pc := Sending n wd\<rparr>) s1)))"

definition reasoning_session :: "progress_world \<Rightarrow> pturn \<Rightarrow> string \<Rightarrow> (string, string) dict \<Rightarrow> card_session" where
  "reasoning_session W t mid labels =
     \<lparr>cs_message_id = mid, cs_binding_id = tn_session t @ '':'' @ tn_turn t @ '':'' @ dec_str (tn_segment t),
      cs_session_key = tr_session_key (tn_route t), cs_chat_id = tr_chat_id (tn_route t),
      cs_channel_id = tr_channel_id (tn_route t), cs_channel_type = tr_channel_type (tn_route t),
      cs_requester_uid = tr_requester_uid (tn_route t), cs_card = [],
      cs_plain = map char_of [0xE5, 0xA4, 0x84, 0xE7, 0x90, 0x86, 0xE8, 0xBF, 0x9B, 0xE5, 0xBA, 0xA6 :: nat],
      cs_action_labels = labels, cs_input_ids = [],
      cs_action_channel_ids = action_channels (tn_route t) (pw_robot_id W (tn_adapter t)),
      cs_max_input_text_bytes = None, cs_max_inputs_bytes = None, cs_clarify = None, cs_kind = ''reasoning''\<rparr>"

definition sync_reasoning_card_session ::
  "progress_world \<Rightarrow> env \<Rightarrow> pkey \<Rightarrow> string \<Rightarrow> bool \<Rightarrow> progress \<Rightarrow> bool \<times> progress" where
  "sync_reasoning_card_session W v k wire_state preserve s =
     (case dget (pr_turns s) k of
        None \<Rightarrow> (False, s)
      | Some t \<Rightarrow>
          (case tn_message t of
             None \<Rightarrow> (False, s)
           | Some mid \<Rightarrow>
               if mid = [] then (False, s)
               else
                 (let a = tn_adapter t; reg = pr_registry s a;
                      actions = (case dget (tn_actions t) wire_state of None \<Rightarrow> [] | Some as \<Rightarrow> as);
                      labels = reasoning_action_labels actions
                  in if labels = []
                     then (case discard (pw_checksum W) v mid reg of
                             (Inl _, r) \<Rightarrow> (True, set_registry a r s)
                           | (Inr _, r) \<Rightarrow> (False, put_turn k (t\<lparr>tn_preserve := False\<rparr>) (set_registry a r s)))
                     else
                       (let cs = reasoning_session W t mid labels;
                            (found, reg1) = peek v mid reg;
                            (res, reg2) = (if found = Inr None then register (pw_checksum W) v cs reg1
                                           else refresh_reasoning v cs reg1)
                        in case res of
                             Inl (InvalidSession _) \<Rightarrow>
                               (False, put_turn k (t\<lparr>tn_preserve := False\<rparr>) (set_registry a reg2 s))
                           | Inl (PersistFailed _) \<Rightarrow> (True, set_registry a reg2 s)
                           | Inr _ \<Rightarrow> (False, put_turn k (t\<lparr>tn_preserve := preserve\<rparr>) (set_registry a reg2 s))))))"

definition settle_drain :: "progress_world \<Rightarrow> env \<Rightarrow> nat \<Rightarrow> drain \<Rightarrow> snapshot \<Rightarrow> progress \<Rightarrow> progress" where
  \<comment> \<open>the end of a delivery: stop if it showed the latest revision, otherwise go on\<close>
  "settle_drain W v i d n s =
     (case dget (pr_turns s) (dr_key d) of
        None \<Rightarrow> end_drain i s
      | Some t \<Rightarrow>
          if tn_revision t = sn_revision n
          then (let s1 = put_turn (dr_key d) (t\<lparr>tn_scheduled := False\<rparr>) s
                in if tn_final t then abort_drain W v i d s1 else end_drain i s1)
          else set_drain i (d\<lparr>dr_pc := Reading\<rparr>) s)"

definition set_delivered :: "pkey \<Rightarrow> nat \<Rightarrow> progress \<Rightarrow> progress" where
  "set_delivered k r s =
     (case dget (pr_turns s) k of None \<Rightarrow> s | Some t \<Rightarrow> put_turn k (t\<lparr>tn_delivered := int r\<rparr>) s)"

definition drain_sent ::
  "progress_world \<Rightarrow> env \<Rightarrow> nat \<Rightarrow> drain \<Rightarrow> snapshot \<Rightarrow> wire_data option \<Rightarrow> string \<Rightarrow> progress \<Rightarrow> progress" where
  "drain_sent W v i d n wd mid s =
     (case current_turn d n s of
        None \<Rightarrow> end_drain i s
      | Some t \<Rightarrow>
          (let s1 = release_barrier (tn_id t) (put_turn (dr_key d) (t\<lparr>tn_send_started := False, tn_message := Some mid\<rparr>) s);
               (raised, s2) = (case (tn_mode t, wd) of
                                 (Some RegistryMode, Some w) \<Rightarrow>
                                   sync_reasoning_card_session W v (dr_key d) (wd_state w) (tn_final t) s1
                               | _ \<Rightarrow> (False, s1))
           in if raised then abort_drain W v i d s2
              else settle_drain W v i d n (set_delivered (dr_key d) (sn_revision n) s2)))"

definition drain_edited ::
  "progress_world \<Rightarrow> env \<Rightarrow> nat \<Rightarrow> drain \<Rightarrow> snapshot \<Rightarrow> wire_data option \<Rightarrow> progress \<Rightarrow> progress" where
  "drain_edited W v i d n wd s =
     (let d0 = d\<lparr>dr_exhaustions := 0\<rparr> in
      case current_turn d n s of
        None \<Rightarrow> end_drain i s
      | Some t \<Rightarrow>
          (let s1 = put_turn (dr_key d) (t\<lparr>tn_seq := sn_seq n, tn_delivered := int (sn_revision n)\<rparr>) s;
               (raised, s2) = (case (tn_mode t, wd) of
                                 (Some RegistryMode, Some w) \<Rightarrow>
                                   if tn_final t
                                   then sync_reasoning_card_session W v (dr_key d) (wd_state w) True s1
                                   else (False, s1)
                               | _ \<Rightarrow> (False, s1))
           in if raised then leave_drain i (True, s2) else settle_drain W v i d0 n s2))"

definition edit_failed ::
  "progress_world \<Rightarrow> env \<Rightarrow> nat \<Rightarrow> drain \<Rightarrow> snapshot \<Rightarrow> wire_data option \<Rightarrow> nat \<Rightarrow> api_failure \<Rightarrow> progress \<Rightarrow> progress" where
  "edit_failed W v i d n wd attempt e s =
     (if \<not> progress_edit_retryable e then abort_drain W v i d s
      else if attempt < 2 then set_drain i (d\<lparr>dr_pc := Pausing n wd attempt\<rparr>) s
      else if dr_exhaustions d + 1 \<ge> MAX_PROGRESS_EDIT_EXHAUSTIONS then abort_drain W v i d s
      else set_drain i (d\<lparr>dr_exhaustions := dr_exhaustions d + 1, dr_pc := Backoff\<rparr>) s)"

definition drain_step :: "progress_world \<Rightarrow> env \<Rightarrow> nat \<Rightarrow> drain \<Rightarrow> drain_outcome \<Rightarrow> progress \<Rightarrow> progress" where
  "drain_step W v i d out s =
     (case dr_pc d of
        Reading \<Rightarrow> drain_read W v i d s
      | Profiling n \<Rightarrow> (case out of GotManifest m \<Rightarrow> drain_profile W v i d n m s
                        | Failed _ \<Rightarrow> abort_drain W v i d s | _ \<Rightarrow> s)
      | Skipping n \<Rightarrow> drain_skip W v i d n s
      | Claiming n wd \<Rightarrow> drain_claim W v i d n wd s
      | Sending n wd \<Rightarrow> (case out of GotMessage mid \<Rightarrow> drain_sent W v i d n wd mid s
                         | Failed _ \<Rightarrow> abort_drain W v i d s | _ \<Rightarrow> s)
      | Editing n wd attempt \<Rightarrow>
          (case out of Applied \<Rightarrow> drain_edited W v i d n wd (log_wire (WEdited n) s)
           | Failed e \<Rightarrow> edit_failed W v i d n wd attempt e s | _ \<Rightarrow> s)
      | Pausing n wd attempt \<Rightarrow>
          log_wire (WEdit n (attempt + 1)) (set_drain i (d\<lparr>dr_pc := Editing n wd (attempt + 1)\<rparr>) s)
      | Backoff \<Rightarrow> set_drain i (d\<lparr>dr_pc := Reading\<rparr>) s)"

section \<open>The controller as a whole\<close>

definition run_spawn :: "nat \<Rightarrow> progress \<Rightarrow> progress" where
  \<comment> \<open>\<open>spawn\<close> of \<open>_schedule_card_progress\<close>, the \<open>j\<close>-th of those waiting\<close>
  "run_spawn j s =
     (if j \<ge> length (pr_spawns s) then s
      else
        (let (a, k) = pr_spawns s ! j;
             s1 = s\<lparr>pr_spawns := take j (pr_spawns s) @ drop (j + 1) (pr_spawns s)\<rparr>
         in if pr_disconnecting s a then s1\<lparr>pr_refused := sadd a (pr_refused s)\<rparr>
            else (set_drain (pr_next_task s) \<lparr>dr_key = k, dr_adapter = a, dr_exhaustions = 0, dr_pc = Reading\<rparr> s1)
                   \<lparr>pr_next_task := pr_next_task s + 1\<rparr>))"

definition finish_adapter :: "progress_world \<Rightarrow> env \<Rightarrow> nat \<Rightarrow> progress \<Rightarrow> progress" where
  \<comment> \<open>\<open>_reset_identity_scoped_state\<close> and \<open>_finalize_disconnect_resources\<close>: drop its turns, cancel its drains\<close>
  "finish_adapter W v a s =
     (let (raised, s1) = cancel_adapter W v a s
      in s1\<lparr>pr_drains := filter (\<lambda>(i, d). dr_adapter d \<noteq> a) (pr_drains s1),
            pr_refused := (if raised then pr_refused s1 else sdiscard a (pr_refused s1)),
            pr_raised := pr_raised s1 \<or> raised\<rparr>)"

datatype hook =
    BeginTurn nat trusted_route string string
  | ModelStarted string string string
  | ModelFinished string string string string json bool bool
  | ToolStarted string string string string json
  | ToolFinished string string string string string json json json
  | CompleteTurn string string bool string
  | Rollover string string
  | CancelSession string
  | CancelAdapter nat
  | CancelAll

fun run_hook :: "progress_world \<Rightarrow> env \<Rightarrow> hook \<Rightarrow> progress \<Rightarrow> bool \<times> progress" where
  "run_hook W v (BeginTurn a r sid tid) = begin_turn W v a r sid tid"
| "run_hook W v (ModelStarted sid tid cid) = model_started W v sid tid cid"
| "run_hook W v (ModelFinished sid tid cid thought dur answering failed) =
     model_finished W v sid tid cid thought dur answering failed"
| "run_hook W v (ToolStarted sid tid cid name args) = tool_started W v sid tid cid name args"
| "run_hook W v (ToolFinished sid tid cid name status err dur res) =
     tool_finished W v sid tid cid name status err dur res"
| "run_hook W v (CompleteTurn sid tid failed phase) = complete_turn W v sid tid failed phase"
| "run_hook W v (Rollover chat uid) = rollover_for_inbound W v chat uid"
| "run_hook W v (CancelSession sid) = cancel_session W v sid"
| "run_hook W v (CancelAdapter a) = cancel_adapter W v a"
| "run_hook W v CancelAll = cancel_all W v"

datatype progress_event =
    Hook hook
  | Spawn nat
  | Drain nat drain_outcome
  | FinishAdapter nat
  | Connectivity nat bool bool bool     \<comment> \<open>an adapter's \<open>_disconnecting\<close>, session and loop change\<close>

definition on_session_end :: "string \<Rightarrow> string \<Rightarrow> bool \<Rightarrow> bool \<Rightarrow> hook option" where
  "on_session_end sid tid completed interrupted =
     (if sid \<noteq> [] \<and> tid \<noteq> []
      then (let phase = (if completed then ''completed'' else if interrupted then ''stopped'' else ''error'')
            in Some (CompleteTurn sid tid (phase \<noteq> ''completed'') phase))
      else if sid \<noteq> [] then Some (CancelSession sid) else None)"

fun progress_step :: "progress_world \<Rightarrow> env \<Rightarrow> progress_event \<Rightarrow> progress \<Rightarrow> progress" where
  "progress_step W v (Hook h) s =
     (case run_hook W v h s of (raised, s') \<Rightarrow> s'\<lparr>pr_raised := pr_raised s' \<or> raised\<rparr>)"
| "progress_step W v (Spawn j) s = run_spawn j s"
| "progress_step W v (Drain i out) s =
     (case dget (pr_drains s) i of None \<Rightarrow> s | Some d \<Rightarrow> drain_step W v i d out s)"
| "progress_step W v (FinishAdapter a) s = finish_adapter W v a s"
| "progress_step W v (Connectivity a disc http loop) s =
     s\<lparr>pr_disconnecting := (pr_disconnecting s)(a := disc), pr_http := (pr_http s)(a := http),
       pr_loop := (pr_loop s)(a := loop)\<rparr>"

definition new_progress :: "(nat \<Rightarrow> registry) \<Rightarrow> progress" where
  "new_progress regs =
     \<lparr>pr_turns = [], pr_next = 0, pr_released = [], pr_spawns = [], pr_drains = [], pr_next_task = 0,
      pr_registry = regs, pr_disconnecting = (\<lambda>_. False), pr_http = (\<lambda>_. True), pr_loop = (\<lambda>_. True),
      pr_log = [], pr_raised = False, pr_refused = []\<rparr>"

end
