(* ===== verification/ProgressInv.thy ===== *)
theory ProgressInv
  imports Progress
begin

text \<open>
  The invariant of the progress controller. Its parts speak of the table of turns as a map, the
  waiting spawns, the drains and the log: turns and their keys, one worker per key, snapshots
  that agree with their turn, one first send per turn, and edits in order.
\<close>

declare split_paired_All [simp del] split_paired_Ex [simp del]

section \<open>The parts\<close>

type_synonym turns = "pkey \<Rightarrow> pturn option"
type_synonym drains = "(nat \<times> drain) list"

definition same_line :: "pkey \<Rightarrow> pkey \<Rightarrow> bool" where
  "same_line k k' \<longleftrightarrow> fst k = fst k' \<and> fst (snd k) = fst (snd k')"

definition jobs :: "(nat \<times> pkey) list \<Rightarrow> drains \<Rightarrow> (nat \<times> pkey) list" where
  "jobs sp ds = sp @ map (\<lambda>x. (dr_adapter (snd x), dr_key (snd x))) ds"

abbreviation workers :: "(nat \<times> pkey) list \<Rightarrow> drains \<Rightarrow> pkey list" where
  "workers sp ds \<equiv> map snd (jobs sp ds)"

definition ok_turns :: "turns \<Rightarrow> nat \<Rightarrow> bool" where
  "ok_turns T next_id \<longleftrightarrow>
     (\<forall>k t. T k = Some t \<longrightarrow> k = (tn_session t, tn_turn t, tn_segment t) \<and> tn_id t < next_id) \<and>
     (\<forall>k t k' t'. T k = Some t \<longrightarrow> T k' = Some t' \<longrightarrow> tn_id t = tn_id t' \<longrightarrow> k = k') \<and>
     (\<forall>k t k' t'. T k = Some t \<longrightarrow> \<not> tn_final t \<longrightarrow> T k' = Some t' \<longrightarrow> same_line k k' \<longrightarrow>
        segment_of k' \<le> segment_of k)"

definition stale_before :: "turns \<Rightarrow> pkey \<Rightarrow> bool" where
  \<comment> \<open>a key without a turn, older than the open turn of its line\<close>
  "stale_before T k \<longleftrightarrow>
     (\<forall>k' t'. T k' = Some t' \<longrightarrow> \<not> tn_final t' \<longrightarrow> same_line k k' \<longrightarrow> segment_of k < segment_of k')"

definition ok_job :: "turns \<Rightarrow> nat \<times> pkey \<Rightarrow> bool" where
  "ok_job T j \<longleftrightarrow>
     (case T (snd j) of
        None \<Rightarrow> stale_before T (snd j)
      | Some t \<Rightarrow> tn_scheduled t \<and> tn_adapter t = fst j)"

definition ok_workers :: "turns \<Rightarrow> (nat \<times> pkey) list \<Rightarrow> drains \<Rightarrow> nat \<Rightarrow> bool" where
  "ok_workers T sp ds next_task \<longleftrightarrow>
     distinct (workers sp ds) \<and> (\<forall>j\<in>set (jobs sp ds). ok_job T j) \<and>
     wf_dict ds \<and> (\<forall>i\<in>fst ` set ds. i < next_task)"

fun pc_snapshot :: "drain_pc \<Rightarrow> snapshot option" where
  "pc_snapshot Reading = None"
| "pc_snapshot (Profiling n) = Some n"
| "pc_snapshot (Skipping n) = Some n"
| "pc_snapshot (Claiming n wd) = Some n"
| "pc_snapshot (Sending n wd) = Some n"
| "pc_snapshot (Editing n wd a) = Some n"
| "pc_snapshot (Pausing n wd a) = Some n"
| "pc_snapshot Backoff = None"

definition agrees :: "snapshot \<Rightarrow> pturn \<Rightarrow> bool" where
  "agrees n t \<longleftrightarrow>
     sn_turn n = tn_id t \<and> sn_seq n = tn_seq t + 1 \<and>
     sn_revision n \<le> tn_revision t \<and> (sn_final n \<longleftrightarrow> tn_final t \<and> sn_revision n = tn_revision t)"

fun behind_snapshot :: "snapshot \<Rightarrow> wire \<Rightarrow> bool" where
  \<comment> \<open>what was sent before an edit of the snapshot\<close>
  "behind_snapshot n (WSend m) = True"
| "behind_snapshot n (WEdit m a) =
     (sn_turn m = sn_turn n \<longrightarrow>
        sn_seq m \<le> sn_seq n \<and> sn_revision m \<le> sn_revision n \<and>
        (sn_final m \<longrightarrow> sn_final n \<and> sn_revision m = sn_revision n))"
| "behind_snapshot n (WEdited m) = (sn_turn m = sn_turn n \<longrightarrow> sn_seq m < sn_seq n \<and> \<not> sn_final m)"

fun in_order :: "wire \<Rightarrow> wire \<Rightarrow> bool" where
  "in_order x (WEdit n a) = behind_snapshot n x"
| "in_order x y = True"

fun wire_turn :: "wire \<Rightarrow> nat" where
  "wire_turn (WSend n) = sn_turn n"
| "wire_turn (WEdit n a) = sn_turn n"
| "wire_turn (WEdited n) = sn_turn n"

definition sent_turns :: "wire list \<Rightarrow> nat list" where
  "sent_turns lg = concat (map (\<lambda>x. case x of WSend n \<Rightarrow> [sn_turn n] | _ \<Rightarrow> []) lg)"

definition ok_drain :: "turns \<Rightarrow> nat \<Rightarrow> wire list \<Rightarrow> drain \<Rightarrow> bool" where
  "ok_drain T next_id lg d \<longleftrightarrow>
     (\<forall>n wd t. dr_pc d = Claiming n wd \<longrightarrow> T (dr_key d) = Some t \<longrightarrow> tn_message t = None) \<and>
     (\<forall>n. pc_snapshot (dr_pc d) = Some n \<longrightarrow>
        sn_turn n < next_id \<and>
        (\<forall>t. T (dr_key d) = Some t \<longrightarrow> agrees n t) \<and>
        (\<forall>k t. T k = Some t \<longrightarrow> tn_id t = sn_turn n \<longrightarrow> k = dr_key d) \<and>
        (\<forall>x\<in>set lg. behind_snapshot n x))"

definition ok_drains :: "turns \<Rightarrow> nat \<Rightarrow> drains \<Rightarrow> wire list \<Rightarrow> bool" where
  "ok_drains T next_id ds lg \<longleftrightarrow>
     (\<forall>i d. (i, d) \<in> set ds \<longrightarrow> ok_drain T next_id lg d) \<and>
     (\<forall>i d j e n m. (i, d) \<in> set ds \<longrightarrow> (j, e) \<in> set ds \<longrightarrow> i \<noteq> j \<longrightarrow>
        pc_snapshot (dr_pc d) = Some n \<longrightarrow> pc_snapshot (dr_pc e) = Some m \<longrightarrow> sn_turn n \<noteq> sn_turn m)"

fun is_sending :: "drain_pc \<Rightarrow> bool" where
  "is_sending (Sending n wd) = True"
| "is_sending _ = False"

definition ok_sent :: "turns \<Rightarrow> nat \<Rightarrow> (nat \<times> pkey) list \<Rightarrow> drains \<Rightarrow> wire list \<Rightarrow> bool" where
  "ok_sent T next_id sp ds lg \<longleftrightarrow>
     distinct (sent_turns lg) \<and> (\<forall>x\<in>set lg. wire_turn x < next_id) \<and>
     (\<forall>k t. T k = Some t \<longrightarrow> tn_id t \<in> set (sent_turns lg) \<longrightarrow> tn_message t = None \<longrightarrow>
        tn_scheduled t \<and> k \<notin> snd ` set sp \<and> (\<forall>i d. (i, d) \<in> set ds \<longrightarrow> dr_key d = k \<longrightarrow> is_sending (dr_pc d)))"

fun behind_turn :: "pturn \<Rightarrow> bool \<Rightarrow> wire \<Rightarrow> bool" where
  \<comment> \<open>what was sent for a turn; \<open>busy\<close>: it has a worker\<close>
  "behind_turn t busy (WSend n) = True"
| "behind_turn t busy (WEdit n a) =
     (sn_turn n = tn_id t \<longrightarrow>
        sn_seq n \<le> tn_seq t + 1 \<and> sn_revision n \<le> tn_revision t \<and>
        (sn_final n \<longrightarrow> tn_final t \<and> sn_revision n = tn_revision t))"
| "behind_turn t busy (WEdited n) =
     (sn_turn n = tn_id t \<longrightarrow>
        sn_seq n \<le> tn_seq t \<and> (sn_final n \<longrightarrow> tn_final t \<and> tn_scheduled t \<and> \<not> busy))"

definition ok_log :: "turns \<Rightarrow> (nat \<times> pkey) list \<Rightarrow> drains \<Rightarrow> wire list \<Rightarrow> bool" where
  "ok_log T sp ds lg \<longleftrightarrow>
     sorted_wrt in_order lg \<and>
     (\<forall>k t. T k = Some t \<longrightarrow> (\<forall>x\<in>set lg. behind_turn t (k \<in> set (workers sp ds)) x))"

definition ok_released :: "turns \<Rightarrow> nat \<Rightarrow> nat list \<Rightarrow> bool" where
  "ok_released T next_id rel \<longleftrightarrow>
     (\<forall>i < next_id. i \<in> set rel \<or> (\<exists>k t. T k = Some t \<and> tn_id t = i)) \<and>
     (\<forall>k t. T k = Some t \<longrightarrow> tn_message t \<noteq> None \<longrightarrow> tn_id t \<in> set rel)"

definition ok_view ::
  "turns \<Rightarrow> nat \<Rightarrow> (nat \<times> pkey) list \<Rightarrow> drains \<Rightarrow> nat \<Rightarrow> wire list \<Rightarrow> nat list \<Rightarrow> bool" where
  "ok_view T next_id sp ds next_task lg rel \<longleftrightarrow>
     ok_turns T next_id \<and> ok_workers T sp ds next_task \<and> ok_drains T next_id ds lg \<and>
     ok_sent T next_id sp ds lg \<and> ok_log T sp ds lg \<and> ok_released T next_id rel"

lemma same_line_eq: "same_line k k' \<Longrightarrow> segment_of k = segment_of k' \<Longrightarrow> k = k'"
  by (cases k; cases k') (simp add: same_line_def segment_of_def)

lemma same_line_sym: "same_line k k' \<Longrightarrow> same_line k' k"
  by (simp add: same_line_def)

section \<open>Facts of the parts\<close>

lemma ok_turns_key:
  assumes "ok_turns T nx" "T k = Some t"
  shows "k = (tn_session t, tn_turn t, tn_segment t)" "tn_id t < nx"
  using assms unfolding ok_turns_def by blast+

lemma ok_turns_inj: "ok_turns T nx \<Longrightarrow> T k = Some t \<Longrightarrow> T k' = Some t' \<Longrightarrow> tn_id t = tn_id t' \<Longrightarrow> k = k'"
  unfolding ok_turns_def by blast

lemma ok_turns_open:
  "ok_turns T nx \<Longrightarrow> T k = Some t \<Longrightarrow> \<not> tn_final t \<Longrightarrow> T k' = Some t' \<Longrightarrow> same_line k k' \<Longrightarrow>
   segment_of k' \<le> segment_of k"
  unfolding ok_turns_def by blast

definition moves :: "pturn \<Rightarrow> pturn \<Rightarrow> bool" where
  \<comment> \<open>a change of a turn by a hook\<close>
  "moves t t' \<longleftrightarrow>
     tn_id t' = tn_id t \<and> tn_adapter t' = tn_adapter t \<and> tn_session t' = tn_session t \<and>
     tn_turn t' = tn_turn t \<and> tn_segment t' = tn_segment t \<and> tn_message t' = tn_message t \<and>
     tn_seq t' = tn_seq t \<and> tn_scheduled t' = tn_scheduled t \<and>
     (tn_revision t' = tn_revision t \<and> tn_final t' = tn_final t \<or>
      tn_revision t' = tn_revision t + 1 \<and> \<not> tn_final t)"

lemma moves_refl [simp]: "moves t t" by (simp add: moves_def)

lemma moves_id: "moves t t' \<Longrightarrow> tn_id t' = tn_id t"
  and moves_key: "moves t t' \<Longrightarrow> (tn_session t', tn_turn t', tn_segment t') = (tn_session t, tn_turn t, tn_segment t)"
  and moves_message: "moves t t' \<Longrightarrow> tn_message t' = tn_message t"
  and moves_scheduled: "moves t t' \<Longrightarrow> tn_scheduled t' = tn_scheduled t"
  and moves_final: "moves t t' \<Longrightarrow> \<not> tn_final t' \<Longrightarrow> \<not> tn_final t"
  by (auto simp: moves_def)

lemma agrees_moves: "agrees n t \<Longrightarrow> moves t t' \<Longrightarrow> agrees n t'"
  by (auto simp: agrees_def moves_def)

lemma behind_turn_moves: "behind_turn t b x \<Longrightarrow> moves t t' \<Longrightarrow> behind_turn t' b x"
  by (cases x) (auto simp: moves_def)

lemma drain_worker: "(i, d) \<in> set ds \<Longrightarrow> dr_key d \<in> set (workers sp ds)"
  by (force simp: jobs_def)

lemma view_parts:
  assumes "ok_view T nx sp ds nt lg rel"
  shows "ok_turns T nx" "ok_workers T sp ds nt" "ok_drains T nx ds lg" "ok_sent T nx sp ds lg"
    "ok_log T sp ds lg" "ok_released T nx rel"
  using assms by (simp_all add: ok_view_def)

lemma job_scheduled: "ok_workers T sp ds nt \<Longrightarrow> j \<in> set (jobs sp ds) \<Longrightarrow> T (snd j) = Some t \<Longrightarrow> tn_scheduled t"
  unfolding ok_workers_def ok_job_def by fastforce

lemma worker_scheduled: "ok_workers T sp ds nt \<Longrightarrow> k \<in> set (workers sp ds) \<Longrightarrow> T k = Some t \<Longrightarrow> tn_scheduled t"
  using job_scheduled by fastforce

lemma behind_turn_mono: "behind_turn t b x \<Longrightarrow> (b' \<Longrightarrow> b) \<Longrightarrow> behind_turn t b' x"
  by (cases x) auto

lemma released_update:
  assumes "ok_released T nx rel" "T k = Some t" "tn_id t' = tn_id t" "set rel \<subseteq> set rel'"
    and "tn_message t' \<noteq> None \<longrightarrow> tn_id t \<in> set rel'"
  shows "ok_released (T(k := Some t')) nx rel'"
  unfolding ok_released_def
proof (intro conjI allI impI)
  fix i assume "i < nx"
  then consider "i \<in> set rel" | k0 u where "T k0 = Some u" "tn_id u = i"
    using assms(1) unfolding ok_released_def by blast
  then show "i \<in> set rel' \<or> (\<exists>k0 u. (T(k := Some t')) k0 = Some u \<and> tn_id u = i)"
  proof cases
    case 2
    then show ?thesis
      using assms(2,3) by (cases "k0 = k") auto
  qed (use assms(4) in blast)
next
  fix k0 u assume "(T(k := Some t')) k0 = Some u" "tn_message u \<noteq> None"
  then show "tn_id u \<in> set rel'"
    using assms unfolding ok_released_def by (cases "k0 = k") (simp_all, blast)
qed

lemma view_claiming:
  assumes "ok_view T nx sp ds nt lg rel" "(i, d) \<in> set ds" "dr_pc d = Claiming n wd" "T (dr_key d) = Some t"
  shows "tn_message t = None"
  using view_parts(3)[OF assms(1)] assms(2-4) unfolding ok_drains_def ok_drain_def by blast

lemma view_drainD:
  assumes "ok_view T nx sp ds nt lg rel" "(i, d) \<in> set ds" "pc_snapshot (dr_pc d) = Some n"
  shows "sn_turn n < nx" "T (dr_key d) = Some t \<Longrightarrow> agrees n t"
    "T k = Some t \<Longrightarrow> tn_id t = sn_turn n \<Longrightarrow> k = dr_key d" "x \<in> set lg \<Longrightarrow> behind_snapshot n x"
  using view_parts(3)[OF assms(1)] assms(2,3) unfolding ok_drains_def ok_drain_def by blast+

section \<open>Changes of the table\<close>

lemma view_drop:
  assumes ok: "ok_view T nx sp ds nt lg rel" and t: "T k = Some t" and rel: "tn_id t \<in> set rel'" "set rel \<subseteq> set rel'"
  shows "ok_view (T(k := None)) nx sp ds nt lg rel'"
proof -
  have "ok_turns (T(k := None)) nx" using ok unfolding ok_view_def ok_turns_def by (auto split: if_split_asm)
  moreover have "ok_job (T(k := None)) j" if "ok_job T j" for j
  proof (cases "snd j = k")
    case True
    have "stale_before (T(k := None)) k"
      unfolding stale_before_def
    proof (intro allI impI)
      fix k' t'
      assume h: "(T(k := None)) k' = Some t'" "\<not> tn_final t'" "same_line k k'"
      then have k': "k' \<noteq> k" "T k' = Some t'" by (auto split: if_split_asm)
      then have "segment_of k \<le> segment_of k'"
        using ok t h same_line_sym unfolding ok_view_def ok_turns_def by blast
      moreover have "segment_of k \<noteq> segment_of k'" using same_line_eq[OF h(3)] k'(1) by blast
      ultimately show "segment_of k < segment_of k'" by simp
    qed
    then show ?thesis using True by (simp add: ok_job_def)
  next
    case False
    then show ?thesis using that unfolding ok_job_def stale_before_def
      by (auto split: option.splits if_split_asm)
  qed
  then have "ok_workers (T(k := None)) sp ds nt" using ok unfolding ok_view_def ok_workers_def by blast
  moreover have "ok_drains (T(k := None)) nx ds lg"
    using ok unfolding ok_view_def ok_drains_def ok_drain_def by (auto split: if_split_asm)
  moreover have "ok_sent (T(k := None)) nx sp ds lg"
    using ok unfolding ok_view_def ok_sent_def by (auto split: if_split_asm)
  moreover have "ok_log (T(k := None)) sp ds lg"
    using ok unfolding ok_view_def ok_log_def by (auto split: if_split_asm)
  moreover have "ok_released (T(k := None)) nx rel'"
    unfolding ok_released_def
  proof (intro conjI allI impI)
    fix i assume "i < nx"
    then have "i \<in> set rel \<or> (\<exists>k t. T k = Some t \<and> tn_id t = i)"
      using ok unfolding ok_view_def ok_released_def by blast
    then show "i \<in> set rel' \<or> (\<exists>k' t'. (T(k := None)) k' = Some t' \<and> tn_id t' = i)"
      using rel t by (metis fun_upd_other option.inject subsetD)
  next
    fix k' t' assume "(T(k := None)) k' = Some t'" "tn_message t' \<noteq> None"
    then have "T k' = Some t'" "tn_message t' \<noteq> None" by (auto split: if_split_asm)
    then have "tn_id t' \<in> set rel" using ok unfolding ok_view_def ok_released_def by blast
    then show "tn_id t' \<in> set rel'" using rel(2) by blast
  qed
  ultimately show ?thesis by (simp add: ok_view_def)
qed

definition same_turn :: "pturn \<Rightarrow> pturn \<Rightarrow> bool" where
  "same_turn t t' \<longleftrightarrow>
     tn_id t' = tn_id t \<and> tn_adapter t' = tn_adapter t \<and> tn_session t' = tn_session t \<and>
     tn_turn t' = tn_turn t \<and> tn_segment t' = tn_segment t \<and> (tn_final t \<longrightarrow> tn_final t')"

lemma view_update:
  assumes ok: "ok_view T nx sp ds nt lg rel" and t: "T k = Some t" "same_turn t t'"
    and job: "k \<in> set (workers sp ds) \<Longrightarrow> tn_scheduled t'"
    and drn: "\<And>i d n. (i, d) \<in> set ds \<Longrightarrow> dr_key d = k \<Longrightarrow> pc_snapshot (dr_pc d) = Some n \<Longrightarrow> agrees n t'"
    and clm: "\<And>i d n wd. (i, d) \<in> set ds \<Longrightarrow> dr_key d = k \<Longrightarrow> dr_pc d = Claiming n wd \<Longrightarrow> tn_message t' = None"
    and snt: "tn_id t \<in> set (sent_turns lg) \<Longrightarrow> tn_message t' = None \<Longrightarrow>
      tn_scheduled t' \<and> k \<notin> snd ` set sp \<and> (\<forall>i d. (i, d) \<in> set ds \<longrightarrow> dr_key d = k \<longrightarrow> is_sending (dr_pc d))"
    and log: "\<And>x. x \<in> set lg \<Longrightarrow> behind_turn t' (k \<in> set (workers sp ds)) x"
    and rel: "set rel \<subseteq> set rel'" "tn_message t' \<noteq> None \<Longrightarrow> tn_id t \<in> set rel'"
  shows "ok_view (T(k := Some t')) nx sp ds nt lg rel'"
proof -
  let ?T = "T(k := Some t')"
  note p = view_parts[OF ok]
  have pre: "\<exists>u. T k' = Some u \<and> same_turn u u' \<and> (k' = k \<and> u = t \<and> u' = t' \<or> k' \<noteq> k \<and> u = u')"
    if "?T k' = Some u'" for k' u'
    using that t by (cases "k' = k") (auto simp: same_turn_def)
  have "ok_turns ?T nx"
    unfolding ok_turns_def
  proof (intro conjI allI impI)
    fix k0 u assume "?T k0 = Some u"
    then obtain u0 where u0: "T k0 = Some u0" "same_turn u0 u" using pre by blast
    then show "k0 = (tn_session u, tn_turn u, tn_segment u)" "tn_id u < nx"
      using ok_turns_key[OF p(1) u0(1)] by (simp_all add: same_turn_def)
  next
    fix k1 u1 k2 u2 assume h: "?T k1 = Some u1" "?T k2 = Some u2" "tn_id u1 = tn_id u2"
    then obtain v1 v2 where v: "T k1 = Some v1" "same_turn v1 u1" "T k2 = Some v2" "same_turn v2 u2"
      using pre by meson
    show "k1 = k2" using ok_turns_inj[OF p(1) v(1,3)] h(3) v(2,4) by (simp add: same_turn_def)
  next
    fix k1 u1 k2 u2 assume h: "?T k1 = Some u1" "\<not> tn_final u1" "?T k2 = Some u2" "same_line k1 k2"
    then obtain v1 v2 where v: "T k1 = Some v1" "same_turn v1 u1" "T k2 = Some v2" using pre by meson
    then have "\<not> tn_final v1" using h(2) by (auto simp: same_turn_def)
    then show "segment_of k2 \<le> segment_of k1" using ok_turns_open[OF p(1) v(1) _ v(3) h(4)] by blast
  qed
  moreover have "ok_job ?T j" if j: "j \<in> set (jobs sp ds)" for j
  proof (cases "snd j = k")
    case True
    then have "k \<in> set (workers sp ds)" using j by auto
    then show ?thesis
      using True job t p(2) j unfolding ok_workers_def ok_job_def same_turn_def by fastforce
  next
    case False
    have "stale_before ?T (snd j)" if "stale_before T (snd j)"
      using that pre unfolding stale_before_def same_turn_def by meson
    then show ?thesis using p(2) j False by (auto simp: ok_workers_def ok_job_def split: option.splits)
  qed
  then have "ok_workers ?T sp ds nt" using p(2) unfolding ok_workers_def by blast
  moreover have "ok_drain ?T nx lg d" if m: "(i, d) \<in> set ds" for i d
  proof -
    have d: "ok_drain T nx lg d" using p(3) m unfolding ok_drains_def by blast
    show ?thesis
      unfolding ok_drain_def
    proof (intro conjI allI impI)
      show "tn_message u = None" if "dr_pc d = Claiming n wd" "?T (dr_key d) = Some u" for n wd u
        using d clm[OF m _ that(1)] that by (auto simp: ok_drain_def split: if_split_asm)
    next
      fix n assume n: "pc_snapshot (dr_pc d) = Some n"
      show "sn_turn n < nx" "\<forall>x\<in>set lg. behind_snapshot n x" using d n by (simp_all add: ok_drain_def)
      fix u assume "?T (dr_key d) = Some u"
      then show "agrees n u" using d n drn[OF m _ n] by (auto simp: ok_drain_def split: if_split_asm)
    next
      fix n k0 u assume h: "pc_snapshot (dr_pc d) = Some n" "?T k0 = Some u" "tn_id u = sn_turn n"
      then obtain u0 where "T k0 = Some u0" "tn_id u0 = tn_id u" using pre by (metis same_turn_def)
      then show "k0 = dr_key d" using d h unfolding ok_drain_def by metis
    qed
  qed
  then have "ok_drains ?T nx ds lg" using p(3) unfolding ok_drains_def by blast
  moreover have "ok_sent ?T nx sp ds lg"
    unfolding ok_sent_def
  proof (intro conjI)
    show "\<forall>k t. ?T k = Some t \<longrightarrow> tn_id t \<in> set (sent_turns lg) \<longrightarrow> tn_message t = None \<longrightarrow>
        tn_scheduled t \<and> k \<notin> snd ` set sp \<and> (\<forall>i d. (i, d) \<in> set ds \<longrightarrow> dr_key d = k \<longrightarrow> is_sending (dr_pc d))"
    proof (intro allI impI)
      fix k0 u assume h: "?T k0 = Some u" "tn_id u \<in> set (sent_turns lg)" "tn_message u = None"
      show "tn_scheduled u \<and> k0 \<notin> snd ` set sp \<and> (\<forall>i d. (i, d) \<in> set ds \<longrightarrow> dr_key d = k0 \<longrightarrow> is_sending (dr_pc d))"
      proof (cases "k0 = k")
        case True
        then have "u = t'" using h(1) by simp
        then show ?thesis using snt h True t(2) by (simp add: same_turn_def)
      next
        case False
        then show ?thesis using p(4) h unfolding ok_sent_def by auto
      qed
    qed
  qed (use p(4) in \<open>auto simp: ok_sent_def\<close>)
  moreover have "ok_log ?T sp ds lg"
    using p(5) log unfolding ok_log_def by (auto split: if_split_asm)
  moreover have "ok_released ?T nx rel'"
    using released_update[OF p(6) t(1) _ rel(1)] t(2) rel(2) by (auto simp: same_turn_def)
  ultimately show ?thesis by (simp add: ok_view_def)
qed

lemma view_facts:
  assumes ok: "ok_view T nx sp ds nt lg rel" and t: "T k = Some t"
  shows "k \<in> set (workers sp ds) \<Longrightarrow> tn_scheduled t"
    "(i, d) \<in> set ds \<Longrightarrow> dr_key d = k \<Longrightarrow> pc_snapshot (dr_pc d) = Some n \<Longrightarrow> agrees n t"
    "tn_id t \<in> set (sent_turns lg) \<Longrightarrow> tn_message t = None \<Longrightarrow> tn_scheduled t"
    "tn_id t \<in> set (sent_turns lg) \<Longrightarrow> tn_message t = None \<Longrightarrow> k \<notin> snd ` set sp"
    "tn_id t \<in> set (sent_turns lg) \<Longrightarrow> tn_message t = None \<Longrightarrow> (i, d) \<in> set ds \<Longrightarrow> dr_key d = k \<Longrightarrow>
       is_sending (dr_pc d)"
    "x \<in> set lg \<Longrightarrow> behind_turn t (k \<in> set (workers sp ds)) x"
    "tn_message t \<noteq> None \<Longrightarrow> tn_id t \<in> set rel"
proof -
  note p = view_parts[OF ok]
  show "k \<in> set (workers sp ds) \<Longrightarrow> tn_scheduled t" using worker_scheduled[OF p(2) _ t] .
  show "(i, d) \<in> set ds \<Longrightarrow> dr_key d = k \<Longrightarrow> pc_snapshot (dr_pc d) = Some n \<Longrightarrow> agrees n t"
    using view_drainD(2)[OF ok] t by blast
  show "tn_id t \<in> set (sent_turns lg) \<Longrightarrow> tn_message t = None \<Longrightarrow> tn_scheduled t"
    "tn_id t \<in> set (sent_turns lg) \<Longrightarrow> tn_message t = None \<Longrightarrow> k \<notin> snd ` set sp"
    "tn_id t \<in> set (sent_turns lg) \<Longrightarrow> tn_message t = None \<Longrightarrow> (i, d) \<in> set ds \<Longrightarrow> dr_key d = k \<Longrightarrow>
       is_sending (dr_pc d)"
    using p(4) t unfolding ok_sent_def by blast+
  show "x \<in> set lg \<Longrightarrow> behind_turn t (k \<in> set (workers sp ds)) x" using p(5) t unfolding ok_log_def by blast
  show "tn_message t \<noteq> None \<Longrightarrow> tn_id t \<in> set rel" using p(6) t unfolding ok_released_def by blast
qed

lemma view_moves:
  assumes ok: "ok_view T nx sp ds nt lg rel" and t: "T k = Some t" and mv: "moves t t'"
  shows "ok_view (T(k := Some t')) nx sp ds nt lg rel"
proof -
  note f = view_facts[OF ok t]
  show ?thesis
  proof (rule view_update[OF ok t])
    show "same_turn t t'" using mv by (auto simp: moves_def same_turn_def)
    show "tn_scheduled t'" if "k \<in> set (workers sp ds)" using f(1) that moves_scheduled[OF mv] by simp
    show "tn_message t' = None" if "(i, d) \<in> set ds" "dr_key d = k" "dr_pc d = Claiming n wd" for i d n wd
      using view_claiming[OF ok that(1,3)] that(2) t moves_message[OF mv] by simp
    show "agrees n t'" if "(i, d) \<in> set ds" "dr_key d = k" "pc_snapshot (dr_pc d) = Some n" for i d n
      using agrees_moves[OF f(2)[OF that] mv] .
    show "behind_turn t' (k \<in> set (workers sp ds)) x" if "x \<in> set lg" for x
      using behind_turn_moves[OF f(6)[OF that] mv] .
    show "tn_scheduled t' \<and> k \<notin> snd ` set sp \<and> (\<forall>i d. (i, d) \<in> set ds \<longrightarrow> dr_key d = k \<longrightarrow> is_sending (dr_pc d))"
      if "tn_id t \<in> set (sent_turns lg)" "tn_message t' = None"
      using f(3,4,5) that moves_message[OF mv] moves_scheduled[OF mv] by simp
    show "tn_id t \<in> set rel" if "tn_message t' \<noteq> None" using f(7) that moves_message[OF mv] by simp
  qed simp
qed

lemma view_spawned:
  assumes ok: "ok_view T nx sp ds nt lg rel" and t: "T k = Some t" "tn_scheduled t" "k \<notin> set (workers sp ds)"
    and new: "tn_id t \<in> set (sent_turns lg) \<Longrightarrow> tn_message t \<noteq> None"
    and log: "\<And>x. x \<in> set lg \<Longrightarrow> behind_turn t True x"
  shows "ok_view T nx (sp @ [(tn_adapter t, k)]) ds nt lg rel"
proof -
  let ?sp = "sp @ [(tn_adapter t, k)]"
  note p = view_parts[OF ok]
  have jb: "set (jobs ?sp ds) = insert (tn_adapter t, k) (set (jobs sp ds))" by (auto simp: jobs_def)
  have wk: "set (workers ?sp ds) = insert k (set (workers sp ds))" by (auto simp: jobs_def)
  have "distinct (workers ?sp ds)"
    using p(2) t(3) by (auto simp: ok_workers_def jobs_def)
  moreover have "ok_job T (tn_adapter t, k)" using t by (simp add: ok_job_def)
  ultimately have "ok_workers T ?sp ds nt" using p(2) unfolding ok_workers_def jb by blast
  moreover have "ok_sent T nx ?sp ds lg"
    using p(4) new t(1) unfolding ok_sent_def by auto
  moreover have "ok_log T ?sp ds lg"
    unfolding ok_log_def wk
  proof (intro conjI allI impI ballI)
    show "sorted_wrt in_order lg" using p(5) by (simp add: ok_log_def)
    fix k0 u x assume h: "T k0 = Some u" "x \<in> set lg"
    show "behind_turn u (k0 \<in> insert k (set (workers sp ds))) x"
    proof (cases "k0 = k")
      case True
      then show ?thesis using log[OF h(2)] h(1) t(1) by simp
    next
      case False
      then show ?thesis using p(5) h unfolding ok_log_def by auto
    qed
  qed
  ultimately show ?thesis using p by (simp add: ok_view_def)
qed

lemma view_schedule:
  assumes ok: "ok_view T nx sp ds nt lg rel" and t: "T k = Some t" "\<not> tn_scheduled t"
  shows "ok_view (T(k := Some (t\<lparr>tn_scheduled := True\<rparr>))) nx (sp @ [(tn_adapter t, k)]) ds nt lg rel"
proof -
  let ?t = "t\<lparr>tn_scheduled := True\<rparr>"
  note f = view_facts[OF ok t(1)]
  have idle: "k \<notin> set (workers sp ds)" using f(1) t(2) by blast
  have behind: "behind_turn ?t b x" if "x \<in> set lg" for x b
    using f(6)[OF that] t(2) by (cases x) auto
  have no: "dr_key d \<noteq> k" if "(i, d) \<in> set ds" for i d using drain_worker[OF that] idle by metis
  have "ok_view (T(k := Some ?t)) nx sp ds nt lg rel"
    by (rule view_update[OF ok t(1)]) (use f(3,7) t(2) behind no in \<open>auto simp: same_turn_def\<close>)
  from view_spawned[OF this, of k ?t] show ?thesis using idle f(3) t(2) behind by auto
qed

lemma view_new:
  assumes ok: "ok_view T nx sp ds nt lg rel" and k: "T k = None" "k \<notin> set (workers sp ds)"
    and stale: "\<And>k'. k' \<in> set (workers sp ds) \<Longrightarrow> T k' = None \<Longrightarrow> same_line k' k \<Longrightarrow> segment_of k' < segment_of k"
    and line: "\<And>k' t'. T k' = Some t' \<Longrightarrow> same_line k' k \<Longrightarrow> tn_final t' \<and> segment_of k' < segment_of k"
    and t: "tn_id t = nx" "k = (tn_session t, tn_turn t, tn_segment t)" "tn_message t = None" "\<not> tn_final t"
  shows "ok_view (T(k := Some t)) (nx + 1) sp ds nt lg rel"
proof -
  let ?T = "T(k := Some t)"
  note p = view_parts[OF ok]
  have "ok_turns ?T (nx + 1)"
    unfolding ok_turns_def
  proof (intro conjI allI impI)
    fix k0 u assume "?T k0 = Some u"
    then show "k0 = (tn_session u, tn_turn u, tn_segment u)" "tn_id u < nx + 1"
      using ok_turns_key[OF p(1), of k0 u] t by (auto split: if_split_asm)
  next
    fix k1 u1 k2 u2 assume h: "?T k1 = Some u1" "?T k2 = Some u2" "tn_id u1 = tn_id u2"
    then show "k1 = k2"
      using ok_turns_inj[OF p(1), of k1 u1 k2 u2] ok_turns_key(2)[OF p(1), of k1 u1] ok_turns_key(2)[OF p(1), of k2 u2] t(1)
      by (auto split: if_split_asm)
  next
    fix k1 u1 k2 u2 assume h: "?T k1 = Some u1" "\<not> tn_final u1" "?T k2 = Some u2" "same_line k1 k2"
    then show "segment_of k2 \<le> segment_of k1"
      using ok_turns_open[OF p(1), of k1 u1 k2 u2] line[of k1 u1] line[of k2 u2] same_line_sym
      by (auto split: if_split_asm intro: less_imp_le)
  qed
  moreover have "ok_workers ?T sp ds nt"
    unfolding ok_workers_def
  proof (intro conjI ballI)
    fix j assume j: "j \<in> set (jobs sp ds)"
    then have jk: "snd j \<noteq> k" and jw: "snd j \<in> set (workers sp ds)" using k(2) by auto
    have "stale_before ?T (snd j)" if "stale_before T (snd j)" "T (snd j) = None"
      using that stale[OF jw that(2)] unfolding stale_before_def by auto
    then show "ok_job ?T j" using j jk p(2) by (auto simp: ok_job_def ok_workers_def split: option.splits)
  qed (use p(2) in \<open>auto simp: ok_workers_def\<close>)
  moreover have "ok_drain ?T (nx + 1) lg d" if d: "ok_drain T nx lg d" "(i, d) \<in> set ds" for i d
  proof -
    have "dr_key d \<in> set (workers sp ds)" using that(2) by (force simp: jobs_def)
    then have dk: "dr_key d \<noteq> k" using k(2) by blast
    have "sn_turn n < nx" if "pc_snapshot (dr_pc d) = Some n" for n using d(1) that by (simp add: ok_drain_def)
    then show ?thesis using d(1) dk t(1) unfolding ok_drain_def by (auto split: if_split_asm dest: less_SucI)
  qed
  then have "ok_drains ?T (nx + 1) ds lg" using p(3) unfolding ok_drains_def by blast
  moreover have log: "wire_turn x < nx" if "x \<in> set lg" for x using p(4) that unfolding ok_sent_def by blast
  have sent: "i < nx" if "i \<in> set (sent_turns lg)" for i
    using that log by (force simp: sent_turns_def split: wire.splits)
  have "ok_sent ?T (nx + 1) sp ds lg"
    using p(4) sent t(1) unfolding ok_sent_def by (auto split: if_split_asm dest: less_SucI)
  moreover have "ok_log ?T sp ds lg"
    unfolding ok_log_def
  proof (intro conjI allI impI ballI)
    show "sorted_wrt in_order lg" using p(5) by (simp add: ok_log_def)
    fix k0 u x assume h: "?T k0 = Some u" "x \<in> set lg"
    show "behind_turn u (k0 \<in> set (workers sp ds)) x"
    proof (cases "k0 = k")
      case True
      then show ?thesis using log[OF h(2)] h(1) t(1) by (cases x) auto
    next
      case False
      then show ?thesis using p(5) h unfolding ok_log_def by auto
    qed
  qed
  moreover have "ok_released ?T (nx + 1) rel"
    unfolding ok_released_def
  proof (intro conjI allI impI)
    fix i assume "i < nx + 1"
    then consider "i = nx" | "i < nx" by linarith
    then show "i \<in> set rel \<or> (\<exists>k t. ?T k = Some t \<and> tn_id t = i)"
    proof cases
      case 1
      then show ?thesis using t(1) by (intro disjI2 exI[of _ k] exI[of _ t]) simp
    next
      case 2
      then consider "i \<in> set rel" | k0 u where "T k0 = Some u" "tn_id u = i"
        using p(6) unfolding ok_released_def by blast
      then show ?thesis
      proof cases
        case 2
        then have "k0 \<noteq> k" using k(1) by auto
        with 2 show ?thesis by (intro disjI2 exI[of _ k0] exI[of _ u]) simp
      qed blast
    qed
  next
    fix k0 u assume "?T k0 = Some u" "tn_message u \<noteq> None"
    then show "tn_id u \<in> set rel" using p(6) t(3) unfolding ok_released_def by (auto split: if_split_asm)
  qed
  ultimately show ?thesis by (simp add: ok_view_def)
qed


section \<open>Workers\<close>

lemma map_dset:
  assumes "wf_dict ds" "(i, d) \<in> set ds" "f (i, d') = f (i, d)"
  shows "map f (dset i d' ds) = map f ds"
  using assms
proof (induction ds)
  case (Cons x ds)
  obtain j e where x: "x = (j, e)" by (cases x)
  show ?case
  proof (cases "j = i")
    case True
    then have "e = d" using Cons.prems x by force
    with True show ?thesis using Cons.prems(3) x by simp
  qed (use Cons x in auto)
qed simp

lemma jobs_dset:
  assumes "wf_dict ds" "(i, d) \<in> set ds" "dr_key d' = dr_key d" "dr_adapter d' = dr_adapter d"
  shows "jobs sp (dset i d' ds) = jobs sp ds"
  unfolding jobs_def using map_dset[OF assms(1,2), of "\<lambda>x. (dr_adapter (snd x), dr_key (snd x))" d'] assms(3,4) by simp

lemma dset_members:
  assumes "wf_dict ds"
  shows "(j, e) \<in> set (dset i d ds) \<longleftrightarrow> (if j = i then e = d else (j, e) \<in> set ds)"
  using dget_iff_mem[OF wf_dset[OF assms], where k = j and v = e and k1 = i and v1 = d]
    dget_iff_mem[OF assms, of j e]
  by auto

lemma distinct_workers_drains:
  assumes "distinct (workers sp ds)" "(i, d) \<in> set ds" "(j, e) \<in> set ds" "dr_key d = dr_key e" "wf_dict ds"
  shows "i = j"
proof -
  have "distinct (map (\<lambda>x. dr_key (snd x)) ds)"
    using assms(1) by (auto simp: jobs_def comp_def case_prod_beta distinct_append)
  then have "(i, d) = (j, e)"
    using assms(2-4) unfolding distinct_map by (auto dest!: inj_onD[of _ _ "(i, d)" "(j, e)"])
  then show ?thesis by simp
qed

lemma view_fewer:
  assumes ok: "ok_view T nx sp ds nt lg rel"
    and sub: "set sp' \<subseteq> set sp" "set ds' \<subseteq> set ds" "distinct (workers sp' ds')" "wf_dict ds'"
  shows "ok_view T nx sp' ds' nt lg rel"
proof -
  note p = view_parts[OF ok]
  have jb: "set (jobs sp' ds') \<subseteq> set (jobs sp ds)"
    using sub(1,2) unfolding jobs_def set_append set_map by (intro Un_mono image_mono)
  then have wk: "set (workers sp' ds') \<subseteq> set (workers sp ds)" by auto
  have "ok_workers T sp' ds' nt" using p(2) jb sub unfolding ok_workers_def by auto
  moreover have "ok_drains T nx ds' lg" using p(3) subsetD[OF sub(2)] unfolding ok_drains_def by metis
  moreover have "ok_sent T nx sp' ds' lg"
    using p(4) subsetD[OF image_mono[OF sub(1), of snd]] subsetD[OF sub(2)] unfolding ok_sent_def by metis
  moreover have "ok_log T sp' ds' lg"
    using p(5) behind_turn_mono[OF _ subsetD[OF wk]] unfolding ok_log_def by blast
  ultimately show ?thesis using p by (simp add: ok_view_def)
qed

lemma view_end: "ok_view T nx sp ds nt lg rel \<Longrightarrow> ok_view T nx sp (dpop i ds) nt lg rel"
proof (rule view_fewer)
  assume ok: "ok_view T nx sp ds nt lg rel"
  note p = view_parts(2)[OF ok]
  show "set sp \<subseteq> set sp" ..
  show "set (dpop i ds) \<subseteq> set ds" by (auto simp: AList.delete_eq)
  show "wf_dict (dpop i ds)" using p by (auto simp: ok_workers_def)
  show "distinct (workers sp (dpop i ds))"
    using p by (auto simp: ok_workers_def jobs_def AList.delete_eq distinct_map_filter image_iff comp_def)
qed

lemma distinct_moved: "distinct (xs @ (k :: 'k) # ys @ zs) \<Longrightarrow> distinct (xs @ ys @ zs @ [k])"
  by auto

lemma view_spawn:
  assumes ok: "ok_view T nx (xs @ (a, k) # ys) ds nt lg rel"
  shows "ok_view T nx (xs @ ys) (dset nt \<lparr>dr_key = k, dr_adapter = a, dr_exhaustions = 0, dr_pc = Reading\<rparr> ds)
    (nt + 1) lg rel"
    (is "ok_view T nx ?sp ?ds _ lg rel")
proof -
  note p = view_parts[OF ok]
  let ?old = "xs @ (a, k) # ys" and ?d = "\<lparr>dr_key = k, dr_adapter = a, dr_exhaustions = 0, dr_pc = Reading\<rparr>"
  have fresh: "nt \<notin> fst ` set ds" using p(2) by (auto simp: ok_workers_def)
  then have ds: "?ds = ds @ [(nt, ?d)]" by (intro dset_fresh) (simp add: map_of_eq_None_iff)
  have jb: "set (jobs ?sp ?ds) = set (jobs ?old ds)" by (auto simp: jobs_def ds)
  then have wk: "set (workers ?sp ?ds) = set (workers ?old ds)" unfolding set_map by simp
  have "distinct (workers ?sp ?ds)"
    using p(2) distinct_moved[of "map snd xs" k "map snd ys" "map (\<lambda>x. dr_key (snd x)) ds"]
    by (simp add: ok_workers_def jobs_def ds comp_def)
  moreover have "wf_dict ?ds" using p(2) by (auto simp: ok_workers_def)
  moreover have "\<forall>i\<in>fst ` set ?ds. i < nt + 1"
    using p(2) by (auto simp: ds ok_workers_def dest: less_SucI)
  ultimately have "ok_workers T ?sp ?ds (nt + 1)" using p(2) unfolding ok_workers_def jb by blast
  moreover have "ok_drains T nx ?ds lg"
    using p(3) unfolding ok_drains_def ds by (auto simp: ok_drain_def)
  moreover have "ok_sent T nx ?sp ?ds lg"
    using p(4) unfolding ok_sent_def ds by auto
  moreover have "ok_log T ?sp ?ds lg" using p(5) unfolding ok_log_def wk .
  ultimately show ?thesis using p by (simp add: ok_view_def)
qed

section \<open>Drains\<close>

lemma view_pc:
  assumes ok: "ok_view T nx sp ds nt lg rel" and d: "(i, d) \<in> set ds"
    and d': "dr_key d' = dr_key d" "dr_adapter d' = dr_adapter d" "ok_drain T nx lg d'"
    and src: "\<And>n. pc_snapshot (dr_pc d') = Some n \<Longrightarrow>
      (\<exists>m. pc_snapshot (dr_pc d) = Some m \<and> sn_turn m = sn_turn n) \<or> (\<exists>t. T (dr_key d) = Some t \<and> tn_id t = sn_turn n)"
    and send: "is_sending (dr_pc d) \<Longrightarrow> is_sending (dr_pc d') \<or>
      (\<forall>t. T (dr_key d) = Some t \<longrightarrow> tn_message t = None \<longrightarrow> tn_id t \<notin> set (sent_turns lg))"
  shows "ok_view T nx sp (dset i d' ds) nt lg rel"
proof -
  note p = view_parts[OF ok]
  have wf: "wf_dict ds" and dist: "distinct (workers sp ds)" using p(2) by (auto simp: ok_workers_def)
  note jb = jobs_dset[OF wf d d'(1,2), of sp]
  note mem = dset_members[OF wf, of _ _ i d']
  have keys: "set (map fst (dset i d' ds)) = set (map fst ds)" using dset_keys[of i d' ds] d by force
  have "ok_workers T sp (dset i d' ds) nt"
    using p(2) wf_dset[OF wf] keys unfolding ok_workers_def jb by simp
  moreover have "ok_drains T nx (dset i d' ds) lg"
    unfolding ok_drains_def
  proof (intro conjI allI impI)
    fix j e assume "(j, e) \<in> set (dset i d' ds)"
    then show "ok_drain T nx lg e" using p(3) d'(3) mem unfolding ok_drains_def by metis
  next
    have one: "sn_turn n \<noteq> sn_turn m"
      if h: "(j, e) \<in> set ds" "j \<noteq> i" "pc_snapshot (dr_pc d') = Some n" "pc_snapshot (dr_pc e) = Some m" for j e n m
      using src[OF h(3)]
    proof
      assume "\<exists>m. pc_snapshot (dr_pc d) = Some m \<and> sn_turn m = sn_turn n"
      then show ?thesis using p(3) d h unfolding ok_drains_def by metis
    next
      assume "\<exists>t. T (dr_key d) = Some t \<and> tn_id t = sn_turn n"
      then obtain t where t: "T (dr_key d) = Some t" "tn_id t = sn_turn n" by blast
      show ?thesis
      proof
        assume "sn_turn n = sn_turn m"
        then have "dr_key d = dr_key e"
          using p(3) h t unfolding ok_drains_def ok_drain_def by metis
        then show False using distinct_workers_drains[OF dist d h(1) _ wf] h(2) by blast
      qed
    qed
    fix j e l f n m
    assume h: "(j, e) \<in> set (dset i d' ds)" "(l, f) \<in> set (dset i d' ds)" "j \<noteq> l"
      "pc_snapshot (dr_pc e) = Some n" "pc_snapshot (dr_pc f) = Some m"
    consider "j = i" "e = d'" "l \<noteq> i" "(l, f) \<in> set ds" | "l = i" "f = d'" "j \<noteq> i" "(j, e) \<in> set ds"
      | "(j, e) \<in> set ds" "(l, f) \<in> set ds"
      using h(1-3) unfolding mem by metis
    then show "sn_turn n \<noteq> sn_turn m"
    proof cases
      case 1
      then show ?thesis using one h by blast
    next
      case 2
      then show ?thesis using one h by metis
    next
      case 3
      then show ?thesis using p(3) h unfolding ok_drains_def by blast
    qed
  qed
  moreover have "ok_sent T nx sp (dset i d' ds) lg"
    unfolding ok_sent_def
  proof (intro conjI allI impI)
    fix k t assume h: "T k = Some t" "tn_id t \<in> set (sent_turns lg)" "tn_message t = None"
    then have old: "tn_scheduled t" "k \<notin> snd ` set sp"
      "\<And>i d. (i, d) \<in> set ds \<Longrightarrow> dr_key d = k \<Longrightarrow> is_sending (dr_pc d)"
      using p(4) unfolding ok_sent_def by blast+
    show "tn_scheduled t" "k \<notin> snd ` set sp" by fact+
    fix j e assume e: "(j, e) \<in> set (dset i d' ds)" "dr_key e = k"
    show "is_sending (dr_pc e)"
    proof (cases "j = i")
      case True
      then have "e = d'" using e(1) unfolding mem by simp
      then show ?thesis using send old(3)[OF d] d'(1) e(2) h by auto
    next
      case False
      then show ?thesis using old(3) e unfolding mem by simp
    qed
  qed (use p(4) in \<open>auto simp: ok_sent_def\<close>)
  moreover have "ok_log T sp (dset i d' ds) lg" using p(5) unfolding ok_log_def jb .
  ultimately show ?thesis using p by (simp add: ok_view_def)
qed

lemma ok_drain_Reading: "ok_drain T nx lg (d\<lparr>dr_pc := Reading\<rparr>)" "ok_drain T nx lg (d\<lparr>dr_exhaustions := e, dr_pc := Reading\<rparr>)"
    "ok_drain T nx lg (d\<lparr>dr_exhaustions := e, dr_pc := Backoff\<rparr>)"
  by (simp_all add: ok_drain_def)

section \<open>The wire\<close>

lemma sent_turns_simps [simp]:
  "sent_turns (lg @ [WSend n]) = sent_turns lg @ [sn_turn n]"
  "sent_turns (lg @ [WEdit n a]) = sent_turns lg" "sent_turns (lg @ [WEdited n]) = sent_turns lg"
  by (simp_all add: sent_turns_def)

lemma drain_of_turn:
  assumes "ok_view T nx sp ds nt lg rel" "(i, d) \<in> set ds" "(j, e) \<in> set ds"
    "pc_snapshot (dr_pc d) = Some n" "pc_snapshot (dr_pc e) = Some m" "sn_turn n = sn_turn m"
  shows "m = n" "j = i" "e = d"
proof -
  note p = view_parts[OF assms(1)]
  show "j = i" using p(3) assms(2-6) unfolding ok_drains_def by metis
  then show "e = d" using assms(2,3) p(2) unfolding ok_workers_def by (metis eq_key_imp_eq_value)
  then show "m = n" using assms(4,5) by simp
qed

lemma drain_not_spawned:
  assumes "distinct (workers sp ds)" "(i, d) \<in> set ds"
  shows "dr_key d \<notin> snd ` set sp"
proof -
  have "dr_key d \<in> (\<lambda>x. dr_key (snd x)) ` set ds" using assms(2) by force
  moreover have "snd ` set sp \<inter> (\<lambda>x. dr_key (snd x)) ` set ds = {}"
    using assms(1) by (simp add: jobs_def image_comp comp_def)
  ultimately show ?thesis by blast
qed

lemma view_edit:
  assumes ok: "ok_view T nx sp ds nt lg rel" and d: "(i, d) \<in> set ds" "pc_snapshot (dr_pc d) = Some n"
  shows "ok_view T nx sp ds nt (lg @ [WEdit n a]) rel"
proof -
  note p = view_parts[OF ok]
  note D = view_drainD[OF ok d]
  have "behind_snapshot m (WEdit n a)" if "(j, e) \<in> set ds" "pc_snapshot (dr_pc e) = Some m" for j e m
    using drain_of_turn(1)[OF ok d(1) that(1) d(2) that(2)] by auto
  then have "ok_drains T nx ds (lg @ [WEdit n a])"
    using p(3) unfolding ok_drains_def ok_drain_def by auto
  moreover have "ok_sent T nx sp ds (lg @ [WEdit n a])"
    using p(4) D(1) unfolding ok_sent_def by simp
  moreover have "behind_turn t b (WEdit n a)" if "T k = Some t" for k t b
    using D(2)[of t] D(3)[OF that] that by (auto simp: agrees_def)
  then have "ok_log T sp ds (lg @ [WEdit n a])"
    using p(5) D(4) unfolding ok_log_def sorted_wrt_append by auto
  ultimately show ?thesis using p by (simp add: ok_view_def)
qed

lemma view_send:
  assumes ok: "ok_view T nx sp ds nt lg rel" and d: "(i, d) \<in> set ds" "dr_pc d = Claiming n wd"
    and t: "T (dr_key d) = Some t"
  shows "ok_view T nx sp (dset i (d\<lparr>dr_pc := Sending n wd\<rparr>) ds) nt (lg @ [WSend n]) rel"
proof -
  let ?d = "d\<lparr>dr_pc := Sending n wd\<rparr>" and ?ds = "dset i (d\<lparr>dr_pc := Sending n wd\<rparr>) ds"
  note p = view_parts[OF ok]
  have pc: "pc_snapshot (dr_pc d) = Some n" using d(2) by simp
  note D = view_drainD[OF ok d(1) pc]
  have od: "ok_drain T nx lg d" using p(3) d(1) unfolding ok_drains_def by blast
  have none: "tn_message t = None" using view_claiming[OF ok d t] .
  have odd: "ok_drain T nx lg ?d" using od d(2) unfolding ok_drain_def by simp
  have "ok_view T nx sp ?ds nt lg rel"
    by (rule view_pc[OF ok d(1) _ _ odd]) (use d(2) in auto)
  note q = view_parts[OF this]
  have ag: "agrees n t" using D(2)[OF t] .
  have wf: "wf_dict ds" and dist: "distinct (workers sp ds)" using p(2) by (auto simp: ok_workers_def)
  have fresh: "sn_turn n \<notin> set (sent_turns lg)"
  proof
    assume "sn_turn n \<in> set (sent_turns lg)"
    then have "is_sending (dr_pc d)" using p(4) t ag d(1) none unfolding ok_sent_def agrees_def by metis
    then show False using d(2) by simp
  qed
  have "ok_drains T nx ?ds (lg @ [WSend n])"
    using q(3) unfolding ok_drains_def ok_drain_def by auto
  moreover have "ok_sent T nx sp ?ds (lg @ [WSend n])"
    unfolding ok_sent_def
  proof (intro conjI allI impI)
    show "distinct (sent_turns (lg @ [WSend n]))" using q(4) fresh by (simp add: ok_sent_def)
    show "\<forall>x\<in>set (lg @ [WSend n]). wire_turn x < nx" using q(4) D(1) by (auto simp: ok_sent_def)
  next
    fix k u assume h: "T k = Some u" "tn_id u \<in> set (sent_turns (lg @ [WSend n]))" "tn_message u = None"
    have "tn_scheduled u \<and> k \<notin> snd ` set sp \<and> (\<forall>j e. (j, e) \<in> set ?ds \<longrightarrow> dr_key e = k \<longrightarrow> is_sending (dr_pc e))"
      if "tn_id u \<noteq> sn_turn n"
      using q(4) h that unfolding ok_sent_def by auto
    moreover have "tn_scheduled u \<and> k \<notin> snd ` set sp \<and> (\<forall>j e. (j, e) \<in> set ?ds \<longrightarrow> dr_key e = k \<longrightarrow> is_sending (dr_pc e))"
      if "tn_id u = sn_turn n"
    proof (intro conjI allI impI)
      have k: "k = dr_key d" using D(3)[OF h(1) that] .
      show "tn_scheduled u" using worker_scheduled[OF p(2) drain_worker[OF d(1)]] h(1) k by simp
      show "k \<notin> snd ` set sp" using drain_not_spawned[OF dist d(1)] k by simp
      fix j e assume e: "(j, e) \<in> set ?ds" "dr_key e = k"
      show "is_sending (dr_pc e)"
      proof (cases "j = i")
        case True
        then show ?thesis using e(1) by (simp add: dset_members[OF wf])
      next
        case False
        then have "(j, e) \<in> set ds" using e(1) by (simp add: dset_members[OF wf])
        then show ?thesis using distinct_workers_drains[OF dist d(1) _ _ wf] e(2) k False by metis
      qed
    qed
    ultimately show "tn_scheduled u" "k \<notin> snd ` set sp"
      "\<And>j e. (j, e) \<in> set ?ds \<Longrightarrow> dr_key e = k \<Longrightarrow> is_sending (dr_pc e)"
      by blast+
  qed
  moreover have "ok_log T sp ?ds (lg @ [WSend n])"
    using q(5) unfolding ok_log_def sorted_wrt_append by auto
  ultimately show ?thesis using q by (simp add: ok_view_def)
qed

lemma view_settled:
  assumes ok: "ok_view T nx sp ds nt lg rel" and t: "T k = Some t" "k \<notin> set (workers sp ds)"
    and sent: "tn_id t \<in> set (sent_turns lg) \<Longrightarrow> tn_message t \<noteq> None"
    and log: "\<And>x. x \<in> set lg \<Longrightarrow> behind_turn t True x"
  shows "ok_view (T(k := Some (t\<lparr>tn_scheduled := False\<rparr>))) nx sp ds nt lg rel"
proof -
  have no: "dr_key d \<noteq> k" if "(i, d) \<in> set ds" for i d using drain_worker[OF that] t(2) by metis
  have log': "behind_turn (t\<lparr>tn_scheduled := False\<rparr>) False x" if "x \<in> set lg" for x
    using log[OF that] by (cases x) auto
  show ?thesis
    by (rule view_update[OF ok t(1)]) (use t(2) no sent log' view_facts(7)[OF ok t(1)] in \<open>auto simp: same_turn_def\<close>)
qed

lemma view_sent:
  assumes ok: "ok_view T nx sp ds nt lg rel" and d: "(i, d) \<in> set ds" "dr_pc d = Sending n wd"
    and t: "T (dr_key d) = Some t"
  shows "ok_view (T(dr_key d := Some (t\<lparr>tn_send_started := False, tn_message := Some mid\<rparr>))) nx sp
    (dset i (d\<lparr>dr_pc := Reading\<rparr>) ds) nt lg (sadd (tn_id t) rel)"
proof -
  let ?t = "t\<lparr>tn_send_started := False, tn_message := Some mid\<rparr>"
  let ?T = "T(dr_key d := Some ?t)"
  note p = view_parts[OF ok] and f = view_facts[OF ok t]
  have wf: "wf_dict ds" and dist: "distinct (workers sp ds)" using p(2) by (auto simp: ok_workers_def)
  have me: "e = d" if e: "(j, e) \<in> set ds" "dr_key e = dr_key d" for j e
  proof -
    have "j = i" using distinct_workers_drains[OF dist e(1) d(1) e(2) wf] .
    then show ?thesis using e(1) d(1) wf by (metis eq_key_imp_eq_value)
  qed
  have "ok_view ?T nx sp ds nt lg (sadd (tn_id t) rel)"
  proof (rule view_update[OF ok t])
    show "agrees m ?t" if "(j, e) \<in> set ds" "dr_key e = dr_key d" "pc_snapshot (dr_pc e) = Some m" for j e m
      using f(2)[OF that] by (simp add: agrees_def)
    show "tn_message ?t = None" if "(j, e) \<in> set ds" "dr_key e = dr_key d" "dr_pc e = Claiming m w" for j e m w
      using me[OF that(1,2)] that(3) d(2) by simp
    show "behind_turn ?t (dr_key d \<in> set (workers sp ds)) x" if "x \<in> set lg" for x
      using f(6)[OF that] by (cases x) auto
  qed (use f(1) in \<open>auto simp: same_turn_def\<close>)
  then show ?thesis
    by (rule view_pc) (use d in \<open>auto simp: ok_drain_Reading\<close>)
qed

lemma view_edited:
  assumes ok: "ok_view T nx sp ds nt lg rel"
    and n: "sn_turn n < nx" "\<And>x. x \<in> set lg \<Longrightarrow> behind_snapshot n x"
    and idle: "\<And>j e m. (j, e) \<in> set ds \<Longrightarrow> pc_snapshot (dr_pc e) = Some m \<Longrightarrow> sn_turn m \<noteq> sn_turn n"
    and at: "\<And>k u. T k = Some u \<Longrightarrow> tn_id u = sn_turn n \<Longrightarrow>
      sn_seq n \<le> tn_seq u \<and> (sn_final n \<longrightarrow> tn_final u \<and> tn_scheduled u \<and> k \<notin> set (workers sp ds))"
  shows "ok_view T nx sp ds nt (lg @ [WEdited n]) rel"
proof -
  note p = view_parts[OF ok]
  have "behind_snapshot m (WEdited n)" if "(j, e) \<in> set ds" "pc_snapshot (dr_pc e) = Some m" for j e m
    using idle[OF that] by auto
  then have "ok_drains T nx ds (lg @ [WEdited n])"
    using p(3) unfolding ok_drains_def ok_drain_def by auto
  moreover have "ok_sent T nx sp ds (lg @ [WEdited n])" using p(4) n(1) unfolding ok_sent_def by simp
  moreover have "ok_log T sp ds (lg @ [WEdited n])"
    using p(5) at unfolding ok_log_def sorted_wrt_append by auto
  ultimately show ?thesis using p by (simp add: ok_view_def)
qed

lemma view_snapshot:
  assumes ok: "ok_view T nx sp ds nt lg rel" and d: "(i, d) \<in> set ds" and t: "T (dr_key d) = Some t"
    and pc: "pc_snapshot pc = Some (take_snapshot now t)" "\<And>n wd. pc = Claiming n wd \<Longrightarrow> tn_message t = None"
    and idle: "\<not> is_sending (dr_pc d)"
  shows "ok_view T nx sp (dset i (d\<lparr>dr_pc := pc\<rparr>) ds) nt lg rel"
proof (rule view_pc[OF ok d])
  let ?n = "take_snapshot now t"
  note p = view_parts[OF ok] and f = view_facts[OF ok t]
  have busy: "dr_key d \<in> set (workers sp ds)" by (rule drain_worker[OF d])
  show "ok_drain T nx lg (d\<lparr>dr_pc := pc\<rparr>)"
    unfolding ok_drain_def
  proof (intro conjI allI impI ballI)
    fix n assume "pc_snapshot (dr_pc (d\<lparr>dr_pc := pc\<rparr>)) = Some n"
    then have n: "n = ?n" using pc(1) by simp
    show "sn_turn n < nx" using ok_turns_key(2)[OF p(1) t] by (simp add: n take_snapshot_def)
    show "agrees n u" if "T (dr_key (d\<lparr>dr_pc := pc\<rparr>)) = Some u" for u
      using that t by (simp add: n agrees_def take_snapshot_def)
    show "k = dr_key (d\<lparr>dr_pc := pc\<rparr>)" if "T k = Some u" "tn_id u = sn_turn n" for k u
      using ok_turns_inj[OF p(1) that(1) t] that(2) by (simp add: n take_snapshot_def)
    show "behind_snapshot n x" if "x \<in> set lg" for x
      using f(6)[OF that] busy by (cases x) (auto simp: n take_snapshot_def)
  qed (use pc(2) t in auto)
qed (use pc(1) t idle in \<open>auto simp: take_snapshot_def\<close>)

end
