(* ===== verification/ProgressHooks.thy ===== *)
theory ProgressHooks
  imports ProgressInv
begin

text \<open>
  The invariant of the progress controller as a predicate on its states, and the hooks: each keeps
  it. The flag \<open>b\<close> says that the card registry has raised: then a turn may have been dropped without
  releasing its barrier, or left behind by its drain.
\<close>

section \<open>The invariant of a state\<close>

definition live :: "pkey set \<Rightarrow> turns \<Rightarrow> (nat \<times> pkey) list \<Rightarrow> drains \<Rightarrow> nat list \<Rightarrow> bool" where
  \<comment> \<open>a final turn is scheduled (but for those in \<open>K\<close>), and a scheduled turn has a worker\<close>
  "live K T sp ds rf \<longleftrightarrow>
     (\<forall>k t. T k = Some t \<longrightarrow>
        (tn_final t \<longrightarrow> k \<in> K \<or> tn_scheduled t) \<and>
        (tn_scheduled t \<longrightarrow> k \<in> set (workers sp ds) \<or> tn_adapter t \<in> set rf))"

definition ok_state ::
  "bool \<Rightarrow> pkey set \<Rightarrow> turns \<Rightarrow> nat \<Rightarrow> (nat \<times> pkey) list \<Rightarrow> drains \<Rightarrow> nat \<Rightarrow> wire list \<Rightarrow> nat list \<Rightarrow> nat list \<Rightarrow> bool"
where
  "ok_state b K T nx sp ds nt lg rl rf \<longleftrightarrow>
     (\<exists>rel. ok_view T nx sp ds nt lg rel \<and> (\<not> b \<longrightarrow> set rel \<subseteq> set rl \<and> live K T sp ds rf))"

definition ok_at :: "bool \<Rightarrow> pkey set \<Rightarrow> progress \<Rightarrow> bool" where
  "ok_at b K s \<longleftrightarrow>
     wf_dict (pr_turns s) \<and>
     ok_state b K (dget (pr_turns s)) (pr_next s) (pr_spawns s) (pr_drains s) (pr_next_task s) (pr_log s)
       (pr_released s) (pr_refused s)"

definition ok_progress :: "progress \<Rightarrow> bool" where
  "ok_progress s \<longleftrightarrow> ok_at (pr_raised s) {} s"

lemma ok_stateI:
  "ok_view T nx sp ds nt lg rel \<Longrightarrow> (\<not> b \<Longrightarrow> set rel \<subseteq> set rl) \<Longrightarrow> (\<not> b \<Longrightarrow> live K T sp ds rf) \<Longrightarrow>
   ok_state b K T nx sp ds nt lg rl rf"
  unfolding ok_state_def by blast

lemma ok_state_raised: "ok_state b K T nx sp ds nt lg rl rf \<Longrightarrow> (b \<Longrightarrow> b') \<Longrightarrow>
   ok_state b' K T nx sp ds nt lg rl rf"
  unfolding ok_state_def by blast

lemma ok_new_at: "ok_progress (new_progress regs)"
proof -
  have "ok_view (\<lambda>_. None) 0 [] [] 0 [] []"
    by (simp add: ok_view_def ok_turns_def ok_workers_def ok_drains_def ok_sent_def ok_log_def ok_released_def
        jobs_def sent_turns_def)
  then have "ok_state False {} (\<lambda>_. None) 0 [] [] 0 [] [] []"
    by (rule ok_stateI) (simp_all add: live_def)
  then show ?thesis by (simp add: ok_progress_def ok_at_def new_progress_def)
qed

lemma state_drop:
  assumes ok: "ok_state b K T nx sp ds nt lg rl rf" and t: "T k = Some t"
    and rl: "\<not> b' \<Longrightarrow> tn_id t \<in> set rl' \<and> set rl \<subseteq> set rl'" "b \<Longrightarrow> b'"
  shows "ok_state b' (K - {k}) (T(k := None)) nx sp ds nt lg rl' rf"
proof -
  obtain rel where r: "ok_view T nx sp ds nt lg rel" "\<not> b \<Longrightarrow> set rel \<subseteq> set rl" "\<not> b \<Longrightarrow> live K T sp ds rf"
    using ok unfolding ok_state_def by blast
  have "ok_view (T(k := None)) nx sp ds nt lg (sadd (tn_id t) rel)"
    by (rule view_drop[OF r(1) t]) auto
  then show ?thesis
  proof (rule ok_stateI)
    show "set (sadd (tn_id t) rel) \<subseteq> set rl'" if "\<not> b'" using r(2) rl that by auto
    show "live (K - {k}) (T(k := None)) sp ds rf" if "\<not> b'"
      using r(3) rl(2) that unfolding live_def by (auto split: if_split_asm)
  qed
qed

lemma state_moves:
  assumes ok: "ok_state b K T nx sp ds nt lg rl rf" and t: "T k = Some t" "moves t t'"
  shows "ok_state b (if tn_final t' = tn_final t then K else insert k K) (T(k := Some t')) nx sp ds nt lg rl rf"
proof -
  obtain rel where r: "ok_view T nx sp ds nt lg rel" "\<not> b \<Longrightarrow> set rel \<subseteq> set rl" "\<not> b \<Longrightarrow> live K T sp ds rf"
    using ok unfolding ok_state_def by blast
  from view_moves[OF r(1) t] r(2) show ?thesis
  proof (rule ok_stateI)
    show "live (if tn_final t' = tn_final t then K else insert k K) (T(k := Some t')) sp ds rf" if "\<not> b"
      using r(3)[OF that] t unfolding live_def moves_def by (auto split: if_split_asm)
  qed
qed

lemma state_schedule:
  assumes ok: "ok_state b K T nx sp ds nt lg rl rf" and t: "T k = Some t" "\<not> tn_scheduled t"
  shows "ok_state b (K - {k}) (T(k := Some (t\<lparr>tn_scheduled := True\<rparr>))) nx (sp @ [(tn_adapter t, k)]) ds nt lg rl rf"
proof -
  obtain rel where r: "ok_view T nx sp ds nt lg rel" "\<not> b \<Longrightarrow> set rel \<subseteq> set rl" "\<not> b \<Longrightarrow> live K T sp ds rf"
    using ok unfolding ok_state_def by blast
  from view_schedule[OF r(1) t] r(2) show ?thesis
  proof (rule ok_stateI)
    show "live (K - {k}) (T(k := Some (t\<lparr>tn_scheduled := True\<rparr>))) (sp @ [(tn_adapter t, k)]) ds rf" if "\<not> b"
      using r(3)[OF that] unfolding live_def by (auto simp: jobs_def split: if_split_asm)
  qed
qed

lemma state_new:
  assumes ok: "ok_state b K T nx sp ds nt lg rl rf" and k: "T k = None" "k \<notin> set (workers sp ds)"
    and stale: "\<And>k'. k' \<in> set (workers sp ds) \<Longrightarrow> T k' = None \<Longrightarrow> same_line k' k \<Longrightarrow> segment_of k' < segment_of k"
    and line: "\<And>k' t'. T k' = Some t' \<Longrightarrow> same_line k' k \<Longrightarrow> tn_final t' \<and> segment_of k' < segment_of k"
    and t: "tn_id t = nx" "k = (tn_session t, tn_turn t, tn_segment t)" "tn_message t = None" "\<not> tn_final t"
      "\<not> tn_scheduled t"
  shows "ok_state b K (T(k := Some t)) (nx + 1) sp ds nt lg rl rf"
proof -
  obtain rel where r: "ok_view T nx sp ds nt lg rel" "\<not> b \<Longrightarrow> set rel \<subseteq> set rl" "\<not> b \<Longrightarrow> live K T sp ds rf"
    using ok unfolding ok_state_def by blast
  from view_new[OF r(1) k stale line t(1-4)] r(2) show ?thesis
  proof (rule ok_stateI)
    show "live K (T(k := Some t)) sp ds rf" if "\<not> b"
      using r(3)[OF that] t unfolding live_def by (auto split: if_split_asm)
  qed
qed

lemma ok_state_K: "ok_state b K T nx sp ds nt lg rl rf \<Longrightarrow> (\<And>k t. k \<in> K \<Longrightarrow> T k = Some t \<Longrightarrow> tn_final t \<Longrightarrow> k \<in> K' \<or> tn_scheduled t) \<Longrightarrow>
   ok_state b K' T nx sp ds nt lg rl rf"
  unfolding ok_state_def live_def by meson

section \<open>Hooks\<close>

lemma drop_turn_effect:
  assumes "dget (pr_turns s) k = Some t" "drop_turn W v k s = (r, s')"
  shows "s' = s\<lparr>pr_turns := dpop k (pr_turns s), pr_registry := pr_registry s',
    pr_released := (if r then pr_released s else sadd (tn_id t) (pr_released s))\<rparr>"
  using assms
  by (auto simp: drop_turn_def Let_def set_registry_def release_barrier_def
      split: option.splits if_split_asm sum.splits prod.splits)

lemma drop_turn_none: "dget (pr_turns s) k = None \<Longrightarrow> drop_turn W v k s = (False, s)"
  by (simp add: drop_turn_def)

lemma dget_dpop_fun [simp]: "dget (dpop k d) = (dget d)(k := None)" "dget (dset k x d) = (dget d)(k := Some x)"
  by auto

lemma ok_drop_turn:
  assumes ok: "ok_at b K s" and op: "drop_turn W v k s = (r, s')"
  shows "ok_at (b \<or> r) (K - {k}) s' \<and> pr_raised s' = pr_raised s \<and>
    dget (pr_turns s') = (dget (pr_turns s))(k := None) \<and> pr_drains s' = pr_drains s"
proof (cases "dget (pr_turns s) k")
  case None
  then have s: "r = False" "s' = s" using op by (simp_all add: drop_turn_none)
  have "ok_state b (K - {k}) (dget (pr_turns s)) (pr_next s) (pr_spawns s) (pr_drains s) (pr_next_task s) (pr_log s)
       (pr_released s) (pr_refused s)"
    by (rule ok_state_K) (use ok None in \<open>auto simp: ok_at_def\<close>)
  then show ?thesis using ok None s by (auto simp: ok_at_def fun_upd_idem)
next
  case (Some t)
  obtain reg where s': "s' = s\<lparr>pr_turns := dpop k (pr_turns s), pr_registry := reg,
      pr_released := (if r then pr_released s else sadd (tn_id t) (pr_released s))\<rparr>"
    using drop_turn_effect[OF Some op] by blast
  have "ok_state (b \<or> r) (K - {k}) ((dget (pr_turns s))(k := None)) (pr_next s) (pr_spawns s) (pr_drains s)
      (pr_next_task s) (pr_log s) (if r then pr_released s else sadd (tn_id t) (pr_released s)) (pr_refused s)"
    using ok Some by (intro state_drop[where t = t and b = b and rl = "pr_released s"]) (auto simp: ok_at_def)
  then show ?thesis using ok by (cases r) (auto simp: s' ok_at_def)
qed

lemma ok_at_put:
  assumes "ok_at b K s" "dget (pr_turns s) k = Some t" "moves t t'"
  shows "ok_at b (if tn_final t' = tn_final t then K else insert k K) (put_turn k t' s)"
  using assms state_moves[where T = "dget (pr_turns s)", OF _ assms(2,3)] unfolding ok_at_def put_turn_def by (simp add: dget_dpop_fun)

lemma ok_schedule_locked:
  assumes ok: "ok_at b K s" and op: "schedule_locked W v k s = (r, s')"
  shows "ok_at (b \<or> r) (K - {k}) s' \<and> pr_raised s' = pr_raised s"
proof (cases "dget (pr_turns s) k")
  case None
  then have s: "r = False" "s' = s" using op by (simp_all add: schedule_locked_def)
  then show ?thesis using ok_drop_turn[OF ok drop_turn_none[OF None]] by simp
next
  case (Some t)
  have keep: "ok_at b (K - {k}) s" if "tn_scheduled t \<or> \<not> tn_final t"
    using ok that Some unfolding ok_at_def by (auto intro: ok_state_K)
  let ?s = "(put_turn k (t\<lparr>tn_scheduled := True\<rparr>) s)\<lparr>pr_spawns := pr_spawns s @ [(tn_adapter t, k)]\<rparr>"
  have new: "ok_at b (K - {k}) ?s \<and> pr_raised ?s = pr_raised s" if "\<not> tn_scheduled t"
    using ok state_schedule[where T = "dget (pr_turns s)", OF _ Some that] unfolding ok_at_def put_turn_def by (simp add: dget_dpop_fun)
  show ?thesis
    using op Some keep new ok_drop_turn[OF ok] unfolding schedule_locked_def
    by (auto split: if_split_asm)
qed

definition hook_ok :: "(progress \<Rightarrow> bool \<times> progress) \<Rightarrow> progress \<Rightarrow> bool" where
  "hook_ok f s \<longleftrightarrow> (\<forall>b. ok_at b {} s \<longrightarrow>
     (case f s of (r, s') \<Rightarrow> ok_at (b \<or> r) {} s' \<and> pr_raised s' = pr_raised s))"

lemma hook_okI:
  "(\<And>b r s'. ok_at b {} s \<Longrightarrow> f s = (r, s') \<Longrightarrow> ok_at (b \<or> r) {} s' \<and> pr_raised s' = pr_raised s) \<Longrightarrow> hook_ok f s"
  unfolding hook_ok_def by (auto split: prod.splits)

lemma hook_okD:
  "hook_ok f s \<Longrightarrow> ok_at b {} s \<Longrightarrow> f s = (r, s') \<Longrightarrow> ok_at (b \<or> r) {} s' \<and> pr_raised s' = pr_raised s"
  unfolding hook_ok_def by auto

lemma hook_ok_return: "hook_ok (\<lambda>s. (False, s)) s"
  by (rule hook_okI) auto

lemma ok_drop_turns:
  "ok_at b {} s \<Longrightarrow> drop_turns W v ks s = (r, s') \<Longrightarrow> ok_at (b \<or> r) {} s' \<and> pr_raised s' = pr_raised s"
proof (induction ks arbitrary: s b)
  case (Cons k ks)
  obtain r1 s1 where d: "drop_turn W v k s = (r1, s1)" by (cases "drop_turn W v k s")
  have one: "ok_at (b \<or> r1) {} s1" "pr_raised s1 = pr_raised s" using ok_drop_turn[OF Cons.prems(1) d] by simp_all
  show ?case
  proof (cases r1)
    case True
    then show ?thesis using Cons.prems(2) d one by simp
  next
    case False
    then show ?thesis using Cons.IH[of b s1] Cons.prems(2) d one by simp
  qed
qed simp

lemma pr_raised_put [simp]: "pr_raised (put_turn k t s) = pr_raised s"
  by (simp add: put_turn_def)

lemma ok_put:
  assumes "ok_at b {} s" "dget (pr_turns s) k = Some t" "moves t t'" "tn_final t' = tn_final t"
  shows "ok_at b {} (put_turn k t' s)"
  using ok_at_put[OF assms(1-3)] assms(4) by simp

lemma ok_put_schedule:
  assumes ok: "ok_at b {} s" and t: "dget (pr_turns s) k = Some t" "moves t t'"
    and op: "schedule_locked W v k (put_turn k t' s) = (r, s')"
  shows "ok_at (b \<or> r) {} s' \<and> pr_raised s' = pr_raised s"
  using ok_schedule_locked[OF ok_at_put[OF ok t] op] by (auto split: if_split_asm)

lemma hook_ok_with_turn:
  assumes "\<And>k t. dget (pr_turns s) k = Some t \<Longrightarrow> \<not> tn_final t \<Longrightarrow> hook_ok (f k t) s"
  shows "hook_ok (with_turn sid tid f) s"
proof (rule hook_okI)
  fix b r s' assume ok: "ok_at b {} s" and op: "with_turn sid tid f s = (r, s')"
  show "ok_at (b \<or> r) {} s' \<and> pr_raised s' = pr_raised s"
    using op ok hook_okD[OF assms ok] unfolding with_turn_def
    by (auto split: option.splits if_split_asm)
qed

lemma hook_ok_put:
  "dget (pr_turns s) k = Some t \<Longrightarrow> moves t t' \<Longrightarrow> tn_final t' = tn_final t \<Longrightarrow>
   hook_ok (\<lambda>s. (False, put_turn k t' s)) s"
  by (rule hook_okI) (use ok_put in auto)

lemma hook_ok_schedule:
  "dget (pr_turns s) k = Some t \<Longrightarrow> moves t t' \<Longrightarrow> hook_ok (\<lambda>s. schedule_locked W v k (put_turn k t' s)) s"
  by (rule hook_okI) (use ok_put_schedule in auto)

lemma hook_ok_model_started: "hook_ok (model_started W v sid tid cid) s"
  unfolding model_started_def Let_def
  by (rule hook_ok_with_turn, rule hook_ok_put) (auto simp: moves_def)

lemma hook_ok_model_finished: "hook_ok (model_finished W v sid tid cid thought dur answering failed) s"
  unfolding model_finished_def Let_def
proof (rule hook_ok_with_turn, goal_cases)
  case (1 k t)
  show ?case
  proof (cases "finished_model_step cid t")
    case (Some c)
    show ?thesis
      by (cases "dget (tn_tools t) c")
        (simp_all add: Some hook_ok_return[simplified] hook_ok_schedule[OF 1(1)] moves_def 1(2))
  qed (simp add: hook_ok_return[simplified])
qed

lemma hook_ok_tool_started: "hook_ok (tool_started W v sid tid cid name args) s"
  unfolding tool_started_def Let_def
proof (rule hook_ok_with_turn, goal_cases)
  case (1 k t)
  show ?case
    by (cases "name \<in> set CARD_AUTHORING_TOOLS")
      (simp_all add: hook_ok_put[OF 1(1)] hook_ok_schedule[OF 1(1)] moves_def 1(2))
qed

lemma hook_ok_tool_finished: "hook_ok (tool_finished W v sid tid cid name status err dur res) s"
  unfolding tool_finished_def Let_def
proof (rule hook_ok_with_turn, goal_cases)
  case (1 k t)
  obtain c fb where c: "(if cid \<noteq> [] then (cid, tn_fallback t) else pop_fallback (ct_safe_label (pw_text W) name) t) = (c, fb)"
    by fastforce
  show ?case
    unfolding c prod.case
    by (cases "dget (tn_tools t) c")
      (simp_all add: hook_ok_put[OF 1(1)] hook_ok_schedule[OF 1(1)] moves_def 1(2))
qed

lemma find_key_open: "find_key sid tid s = Some k \<Longrightarrow> \<exists>t. (k, t) \<in> set (pr_turns s) \<and> \<not> tn_final t"
proof -
  have m: "k \<in> set ks" if "max_segment ks = Some k" for ks
    using that unfolding max_segment_def by (auto simp: find_Some_iff)
  assume "find_key sid tid s = Some k"
  then have "k \<in> set (open_keys s sid)"
    unfolding find_key_def Let_def by (auto split: if_split_asm dest!: m)
  then show ?thesis by (force simp: open_keys_def)
qed

lemma moves_finalize: "\<not> tn_final t \<Longrightarrow> moves t (finalize_turn now ph bad t)"
  by (simp add: moves_def finalize_turn_def)

lemma hook_ok_complete: "hook_ok (complete_turn W v sid tid failed ph) s"
proof (rule hook_okI)
  fix b r s' assume ok: "ok_at b {} s" and op: "complete_turn W v sid tid failed ph s = (r, s')"
  show "ok_at (b \<or> r) {} s' \<and> pr_raised s' = pr_raised s"
  proof (cases "find_key sid tid s")
    case None
    then show ?thesis using ok op by (simp add: complete_turn_def)
  next
    case (Some k)
    then obtain t where t: "(k, t) \<in> set (pr_turns s)" "\<not> tn_final t" using find_key_open by blast
    then have "dget (pr_turns s) k = Some t" using ok dget_iff_mem unfolding ok_at_def by metis
    then show ?thesis
      using ok_put_schedule[OF ok _ moves_finalize[OF t(2)]] op Some
      by (simp add: complete_turn_def Let_def)
  qed
qed

definition stale_worker :: "string \<Rightarrow> string \<Rightarrow> progress \<Rightarrow> bool" where
  \<comment> \<open>a drain, or a spawn of one, of a segment of this turn that has been dropped\<close>
  "stale_worker sid tid s \<longleftrightarrow>
     (\<exists>k\<in>set (workers (pr_spawns s) (pr_drains s)). fst k = sid \<and> fst (snd k) = tid \<and> dget (pr_turns s) k = None)"

lemma stale_workerI:
  "k \<in> set (workers (pr_spawns s) (pr_drains s)) \<Longrightarrow> dget (pr_turns s) k = None \<Longrightarrow>
   stale_worker (fst k) (fst (snd k)) s"
  unfolding stale_worker_def by blast

lemma dget_put [simp]: "dget (pr_turns (put_turn k t s)) k' = (if k' = k then Some t else dget (pr_turns s) k')"
  by (simp add: put_turn_def)

lemma ok_new_turn:
  assumes ok: "ok_at b K s"
    and k: "dget (pr_turns s) k = None" "k \<notin> set (workers (pr_spawns s) (pr_drains s))"
    and stale: "\<And>k'. k' \<in> set (workers (pr_spawns s) (pr_drains s)) \<Longrightarrow> dget (pr_turns s) k' = None \<Longrightarrow>
      same_line k' k \<Longrightarrow> segment_of k' < segment_of k"
    and line: "\<And>k' t'. dget (pr_turns s) k' = Some t' \<Longrightarrow> same_line k' k \<Longrightarrow> tn_final t' \<and> segment_of k' < segment_of k"
    and t: "tn_id t = pr_next s" "k = (tn_session t, tn_turn t, tn_segment t)" "tn_message t = None" "\<not> tn_final t"
      "\<not> tn_scheduled t"
  shows "ok_at b K ((put_turn k t s)\<lparr>pr_next := pr_next s + 1\<rparr>)"
  using ok state_new[where T = "dget (pr_turns s)" and k = k and t = t and nx = "pr_next s", OF _ k stale line t]
  unfolding ok_at_def put_turn_def by (simp add: dget_dpop_fun)

lemma hook_ok_begin:
  assumes "\<not> stale_worker sid tid s"
  shows "hook_ok (begin_turn W v a r sid tid) s"
proof (rule hook_okI)
  fix b x s' assume ok: "ok_at b {} s" and op: "begin_turn W v a r sid tid s = (x, s')"
  let ?m = "filter (\<lambda>(k, t). fst k = sid \<and> fst (snd k) = tid) (pr_turns s)"
  let ?n = "if ?m = [] then 0 else Suc (Max (segment_of ` fst ` set ?m))"
  let ?k = "(sid, tid, ?n)"
  let ?s = "(put_turn ?k (new_turn (pr_next s) a r sid tid ?n (t_now v)) s)\<lparr>pr_next := pr_next s + 1\<rparr>"
  show "ok_at (b \<or> x) {} s' \<and> pr_raised s' = pr_raised s"
  proof (cases "sid = [] \<or> tid = [] \<or> pw_on_behalf_of W a \<noteq> None \<or> list_ex (\<lambda>(k, t). \<not> tn_final t) ?m")
    case True
    then have "x = False \<and> s' = s" using op unfolding begin_turn_def Let_def by (simp split: if_split_asm)
    then show ?thesis using ok by simp
  next
    case False
    then have op': "schedule_locked W v ?k ?s = (x, s')" using op unfolding begin_turn_def Let_def by simp
    have in_m: "(k, t) \<in> set ?m" if "dget (pr_turns s) k = Some t" "same_line k ?k" for k t
      using that dget_mem[OF that(1)] by (simp add: same_line_def)
    have small: "segment_of k < ?n" if "(k, t) \<in> set ?m" for k t
    proof -
      have "segment_of k \<le> Max (segment_of ` fst ` set ?m)" using that by (intro Max_ge) force+
      moreover have "?m \<noteq> []" using that by (metis empty_iff list.set(1))
      ultimately show ?thesis by (simp only: if_False less_Suc_eq_le)
    qed
    have "ok_at b {} ?s"
    proof (rule ok_new_turn[OF ok])
      show none: "dget (pr_turns s) ?k = None"
      proof (rule ccontr)
        assume "dget (pr_turns s) ?k \<noteq> None"
        then obtain t where "dget (pr_turns s) ?k = Some t" by blast
        from small[OF in_m[OF this]] show False by (simp add: same_line_def segment_of_def)
      qed
      show "?k \<notin> set (workers (pr_spawns s) (pr_drains s))"
        using assms none stale_workerI[where k = ?k and s = s] unfolding fst_conv snd_conv by blast
      show "segment_of k' < segment_of ?k"
        if "k' \<in> set (workers (pr_spawns s) (pr_drains s))" "dget (pr_turns s) k' = None" "same_line k' ?k" for k'
      proof -
        have "fst k' = sid" "fst (snd k') = tid" using that(3) by (simp_all add: same_line_def)
        then show ?thesis using assms that(1,2) unfolding stale_worker_def by blast
      qed
      show "tn_final t' \<and> segment_of k' < segment_of ?k" if "dget (pr_turns s) k' = Some t'" "same_line k' ?k" for k' t'
        using in_m[OF that] small[OF in_m[OF that]] False by (auto simp: list_ex_iff segment_of_def)
    qed (simp_all add: new_turn_def)
    from ok_schedule_locked[OF this op'] show ?thesis by simp
  qed
qed

lemma hook_ok_rollover: "hook_ok (rollover_for_inbound W v chat uid) s"
proof (rule hook_okI)
  fix b x s' assume ok: "ok_at b {} s" and op: "rollover_for_inbound W v chat uid s = (x, s')"
  let ?m = "filter (\<lambda>(k, t). \<not> tn_final t \<and> tr_chat_id (tn_route t) = chat \<and> tr_requester_uid (tn_route t) = uid) (pr_turns s)"
  show "ok_at (b \<or> x) {} s' \<and> pr_raised s' = pr_raised s"
  proof (cases "\<exists>k t. ?m = [(k, t)] \<and> chat \<noteq> [] \<and> uid \<noteq> [] \<and> (has_real_tool t \<or> tn_message t \<noteq> None)")
    case False
    then have "x = False \<and> s' = s"
      using op unfolding rollover_for_inbound_def
      by (auto split: if_split_asm list.splits prod.splits)
    then show ?thesis using ok by simp
  next
    case True
    then obtain k t where m: "?m = [(k, t)]" and c: "chat \<noteq> []" "uid \<noteq> []" "has_real_tool t \<or> tn_message t \<noteq> None"
      by blast
    have "(k, t) \<in> set ?m" unfolding m by simp
    then have mem: "(k, t) \<in> set (pr_turns s)" and open_t: "\<not> tn_final t" by auto
    have wf: "wf_dict (pr_turns s)" using ok by (simp add: ok_at_def)
    have t: "dget (pr_turns s) k = Some t" using mem wf by (simp add: dget_iff_mem)
    obtain rel where view: "ok_view (dget (pr_turns s)) (pr_next s) (pr_spawns s) (pr_drains s) (pr_next_task s) (pr_log s) rel"
      using ok unfolding ok_at_def ok_state_def by blast
    note p = view_parts[OF view]
    let ?k = "(tn_session t, tn_turn t, tn_segment t + 1)"
    let ?f = "(new_turn (pr_next s) (tn_adapter t) (tn_route t) (tn_session t) (tn_turn t) (tn_segment t + 1) (t_now v))
                \<lparr>tn_mode := tn_mode t, tn_template := tn_template t, tn_caps := tn_caps t\<rparr>"
    let ?t = "finalize_turn (t_now v) ''stopped'' True t"
    let ?s = "(put_turn ?k ?f s)\<lparr>pr_next := pr_next s + 1\<rparr>"
    have k: "k = (tn_session t, tn_turn t, tn_segment t)" using ok_turns_key(1)[OF p(1) t] .
    have line_k: "same_line k' ?k \<longleftrightarrow> same_line k k'" for k' using k by (auto simp: same_line_def)
    have low: "segment_of k' < segment_of ?k" if "dget (pr_turns s) k' = Some u" "same_line k' ?k" for k' u
    proof -
      have "same_line k k'" using that(2) line_k by blast
      then have "segment_of k' \<le> segment_of k" using ok_turns_open[OF p(1) t open_t that(1)] by blast
      then show ?thesis using k by (simp add: segment_of_def)
    qed
    have stale: "segment_of k' < segment_of ?k"
      if w: "k' \<in> set (workers (pr_spawns s) (pr_drains s))" "dget (pr_turns s) k' = None" "same_line k' ?k" for k'
    proof -
      obtain j where "j \<in> set (jobs (pr_spawns s) (pr_drains s))" "snd j = k'" using w(1) by auto
      then have "stale_before (dget (pr_turns s)) k'" using p(2) w(2) unfolding ok_workers_def ok_job_def by force
      then have "segment_of k' < segment_of k"
        using t open_t same_line_sym line_k[of k'] w(3) unfolding stale_before_def by blast
      then show ?thesis using k by (simp add: segment_of_def)
    qed
    have none: "dget (pr_turns s) ?k = None"
      using low[of ?k] by (cases "dget (pr_turns s) ?k") (auto simp: same_line_def)
    have idle: "?k \<notin> set (workers (pr_spawns s) (pr_drains s))"
      using stale[OF _ none] by (auto simp: same_line_def)
    have ne: "k \<noteq> ?k" using t none by auto
    have fin: "tn_final u" if "dget (pr_turns s) k' = Some u" "same_line k' ?k" "k' \<noteq> k" for k' u
    proof (rule ccontr)
      assume "\<not> tn_final u"
      then have "segment_of k \<le> segment_of k'"
        using ok_turns_open[OF p(1) that(1) _ t] line_k that(2) same_line_sym by blast
      moreover have "segment_of k' \<le> segment_of k"
        using ok_turns_open[OF p(1) t open_t that(1)] line_k that(2) by blast
      ultimately show False using same_line_eq[of k k'] line_k that(2,3) by simp
    qed
    let ?T = "dget (pr_turns s)" and ?W = "set (workers (pr_spawns s) (pr_drains s))"
    have state: "ok_state b {} ?T (pr_next s) (pr_spawns s) (pr_drains s) (pr_next_task s) (pr_log s)
        (pr_released s) (pr_refused s)"
      using ok by (simp add: ok_at_def)
    have guard: "\<not> (\<not> has_real_tool t \<and> tn_message t = None)" using c(3) by blast
    have op': "(if tn_message t = None \<and> \<not> tn_send_started t then drop_turn W v k ?s
        else schedule_locked W v k (put_turn k ?t ?s)) = (x, s')"
      using op unfolding rollover_for_inbound_def m Let_def
      by (simp only: list.case prod.case guard c(1,2) if_False simp_thms)
    have k_low: "segment_of k < segment_of ?k" using k by (simp add: segment_of_def)
    show ?thesis
    proof (cases "tn_message t = None \<and> \<not> tn_send_started t")
      case True
      then have op': "drop_turn W v k ?s = (x, s')" using op' by (simp only: if_True simp_thms)
      have "dget (pr_turns ?s) k = Some t" using t ne by simp
      from drop_turn_effect[OF this op'] obtain reg where s': "s' = ?s\<lparr>pr_turns := dpop k (pr_turns ?s), pr_registry := reg,
          pr_released := (if x then pr_released ?s else sadd (tn_id t) (pr_released ?s))\<rparr>" by blast
      have "ok_state (b \<or> x) ({} - {k}) (?T(k := None)) (pr_next s) (pr_spawns s) (pr_drains s) (pr_next_task s)
          (pr_log s) (if x then pr_released s else sadd (tn_id t) (pr_released s)) (pr_refused s)"
        by (rule state_drop[OF state t]) auto
      then have "ok_state (b \<or> x) ({} - {k}) ((?T(k := None))(?k := Some ?f)) (pr_next s + 1) (pr_spawns s) (pr_drains s)
          (pr_next_task s) (pr_log s) (if x then pr_released s else sadd (tn_id t) (pr_released s)) (pr_refused s)"
      proof (rule state_new)
        show "segment_of k' < segment_of ?k" if "k' \<in> ?W" "(?T(k := None)) k' = None" "same_line k' ?k" for k'
          using stale[OF that(1) _ that(3)] that(2) k_low by (cases "k' = k") auto
        show "tn_final u \<and> segment_of k' < segment_of ?k" if "(?T(k := None)) k' = Some u" "same_line k' ?k" for k' u
          using that fin low by (auto split: if_split_asm)
      qed (use none idle in \<open>auto simp: new_turn_def\<close>)
      moreover have "dget (pr_turns s') = (?T(k := None))(?k := Some ?f)"
        using ne by (auto simp: s' put_turn_def fun_eq_iff)
      ultimately show ?thesis using wf by (cases x) (simp_all add: ok_at_def s' put_turn_def)
    next
      case False
      then have op': "schedule_locked W v k (put_turn k ?t ?s) = (x, s')" using op' by (simp only: if_False)
      have "ok_state b {k} (?T(k := Some ?t)) (pr_next s) (pr_spawns s) (pr_drains s) (pr_next_task s) (pr_log s)
          (pr_released s) (pr_refused s)"
        using state_moves[where T = ?T, OF state t moves_finalize[OF open_t]] open_t by (simp add: finalize_turn_def)
      then have "ok_state b {k} ((?T(k := Some ?t))(?k := Some ?f)) (pr_next s + 1) (pr_spawns s) (pr_drains s)
          (pr_next_task s) (pr_log s) (pr_released s) (pr_refused s)"
      proof (rule state_new)
        show "segment_of k' < segment_of ?k" if "k' \<in> ?W" "(?T(k := Some ?t)) k' = None" "same_line k' ?k" for k'
          using stale[OF that(1) _ that(3)] that(2) by (auto split: if_split_asm)
        show "tn_final u \<and> segment_of k' < segment_of ?k"
          if "(?T(k := Some ?t)) k' = Some u" "same_line k' ?k" for k' u
          using that fin low k_low by (auto simp: finalize_turn_def split: if_split_asm)
      qed (use none idle ne in \<open>auto simp: new_turn_def\<close>)
      moreover have "dget (pr_turns (put_turn k ?t ?s)) = (?T(k := Some ?t))(?k := Some ?f)"
        using ne by (auto simp: put_turn_def fun_eq_iff)
      ultimately have "ok_at b {k} (put_turn k ?t ?s)" using wf by (simp add: ok_at_def put_turn_def)
      from ok_schedule_locked[OF this op'] show ?thesis by simp
    qed
  qed
qed

lemma hook_ok_cancel:
  "hook_ok (cancel_session W v sid) s" "hook_ok (cancel_adapter W v a) s" "hook_ok (cancel_all W v) s"
  by (rule hook_okI; auto simp: cancel_session_def cancel_adapter_def cancel_all_def
      dest: ok_drop_turns split: if_split_asm)+

fun restarts :: "progress_event \<Rightarrow> progress \<Rightarrow> bool" where
  \<comment> \<open>a turn begins under the name of one that was dropped and whose drain has not noticed yet\<close>
  "restarts (Hook (BeginTurn a r sid tid)) s = stale_worker sid tid s"
| "restarts _ s = False"

lemma run_hook_ok: "\<not> restarts (Hook h) s \<Longrightarrow> hook_ok (run_hook W v h) s"
  by (cases h) (simp_all add: hook_ok_begin hook_ok_model_started hook_ok_model_finished hook_ok_tool_started
      hook_ok_tool_finished hook_ok_complete hook_ok_rollover hook_ok_cancel)

end
