(* ===== verification/ProgressDrains.thy ===== *)
theory ProgressDrains
  imports ProgressHooks
begin

text \<open>
  The drains of the progress controller: every step of one keeps the invariant, as do the spawning
  of drains and the end of an adapter; so every step of the controller does.
\<close>

section \<open>Drains\<close>

lemma ok_atE:
  assumes "ok_at b K s"
  obtains rel where "wf_dict (pr_turns s)"
    "ok_view (dget (pr_turns s)) (pr_next s) (pr_spawns s) (pr_drains s) (pr_next_task s) (pr_log s) rel"
    "\<not> b \<Longrightarrow> set rel \<subseteq> set (pr_released s)"
    "\<not> b \<Longrightarrow> live K (dget (pr_turns s)) (pr_spawns s) (pr_drains s) (pr_refused s)"
  using assms unfolding ok_at_def ok_state_def by blast

lemma ok_atI:
  assumes "wf_dict (pr_turns s)"
    "ok_view (dget (pr_turns s)) (pr_next s) (pr_spawns s) (pr_drains s) (pr_next_task s) (pr_log s) rel"
    "\<not> b \<Longrightarrow> set rel \<subseteq> set (pr_released s)"
    "\<not> b \<Longrightarrow> live K (dget (pr_turns s)) (pr_spawns s) (pr_drains s) (pr_refused s)"
  shows "ok_at b K s"
  using assms unfolding ok_at_def ok_state_def by blast

lemma drain_mem: "ok_at b K s \<Longrightarrow> dget (pr_drains s) i = Some d \<Longrightarrow> (i, d) \<in> set (pr_drains s)"
  by (rule dget_mem)

lemma live_end:
  assumes "live K T sp ds rf" "(i, d) \<in> set ds" "wf_dict ds" "T (dr_key d) = None \<or> T (dr_key d) = Some t \<and> \<not> tn_scheduled t"
  shows "live K T sp (dpop i ds) rf"
  unfolding live_def
proof (intro allI impI conjI)
  fix k u assume u: "T k = Some u"
  show "tn_final u \<Longrightarrow> k \<in> K \<or> tn_scheduled u" using assms(1) u unfolding live_def by blast
  assume s: "tn_scheduled u"
  then have "k \<noteq> dr_key d" using assms(4) u by auto
  moreover have "x \<in> set (workers sp (dpop i ds))" if "x \<in> set (workers sp ds)" "x \<noteq> dr_key d" for x
  proof -
    from that(1) consider "x \<in> snd ` set sp" | j e where "(j, e) \<in> set ds" "x = dr_key e" by (force simp: jobs_def)
    then show ?thesis
    proof cases
      case 2
      then have "j \<noteq> i" using that(2) assms(2,3) by (metis eq_key_imp_eq_value)
      then have "(j, e) \<in> set (dpop i ds)" using 2(1) by (simp add: AList.delete_eq)
      from drain_worker[OF this] show ?thesis using 2(2) by simp
    qed (auto simp: jobs_def)
  qed
  ultimately show "k \<in> set (workers sp (dpop i ds)) \<or> tn_adapter u \<in> set rf"
    using assms(1) u s unfolding live_def by blast
qed

lemma ok_end:
  assumes ok: "ok_at b K s" and d: "dget (pr_drains s) i = Some d" and gone: "\<not> b \<Longrightarrow> dget (pr_turns s) (dr_key d) = None"
  shows "ok_at b K (end_drain i s)"
proof -
  obtain rel where o: "wf_dict (pr_turns s)"
    "ok_view (dget (pr_turns s)) (pr_next s) (pr_spawns s) (pr_drains s) (pr_next_task s) (pr_log s) rel"
    "\<not> b \<Longrightarrow> set rel \<subseteq> set (pr_released s)"
    "\<not> b \<Longrightarrow> live K (dget (pr_turns s)) (pr_spawns s) (pr_drains s) (pr_refused s)"
    using ok by (rule ok_atE) blast
  have wf: "wf_dict (pr_drains s)" using view_parts(2)[OF o(2)] by (simp add: ok_workers_def)
  show ?thesis
    by (rule ok_atI[where rel = rel])
      (use o gone live_end[OF _ dget_mem[OF d] wf] view_end[OF o(2)] in \<open>auto simp: end_drain_def\<close>)
qed

lemma live_drop: "live K T sp ds rf \<Longrightarrow> live K (T(k := None)) sp ds rf"
  unfolding live_def by auto

lemma ok_abort:
  assumes ok: "ok_at b {} s" and d: "dget (pr_drains s) i = Some d" and t: "dget (pr_turns s) (dr_key d) = Some t"
    and s1: "wf_dict (pr_turns s1)" "dget (pr_turns s1) = (dget (pr_turns s))(dr_key d := Some t')" "tn_id t' = tn_id t"
      "pr_next s1 = pr_next s" "pr_spawns s1 = pr_spawns s" "dpop i (pr_drains s1) = dpop i (pr_drains s)"
      "pr_next_task s1 = pr_next_task s" "pr_refused s1 = pr_refused s"
      "set (pr_released s) \<subseteq> set (pr_released s1)" "b \<Longrightarrow> pr_raised s1"
    and log: "\<And>rel. ok_view ((dget (pr_turns s))(dr_key d := None)) (pr_next s) (pr_spawns s) (dpop i (pr_drains s))
        (pr_next_task s) (pr_log s) rel \<Longrightarrow>
      ok_view ((dget (pr_turns s))(dr_key d := None)) (pr_next s) (pr_spawns s) (dpop i (pr_drains s))
        (pr_next_task s) (pr_log s1) rel"
  shows "ok_progress (abort_drain W v i d s1)"
proof -
  let ?k = "dr_key d"
  obtain rel where o: "wf_dict (pr_turns s)"
    "ok_view (dget (pr_turns s)) (pr_next s) (pr_spawns s) (pr_drains s) (pr_next_task s) (pr_log s) rel"
    "\<not> b \<Longrightarrow> set rel \<subseteq> set (pr_released s)"
    "\<not> b \<Longrightarrow> live {} (dget (pr_turns s)) (pr_spawns s) (pr_drains s) (pr_refused s)"
    using ok by (rule ok_atE) blast
  have wf: "wf_dict (pr_drains s)" using view_parts(2)[OF o(2)] by (simp add: ok_workers_def)
  obtain r s2 where op: "drop_turn W v ?k s1 = (r, s2)" by (cases "drop_turn W v ?k s1")
  have "dget (pr_turns s1) ?k = Some t'" using s1(2) by simp
  then obtain reg where s2: "s2 = s1\<lparr>pr_turns := dpop ?k (pr_turns s1), pr_registry := reg,
      pr_released := (if r then pr_released s1 else sadd (tn_id t) (pr_released s1))\<rparr>"
    using drop_turn_effect[OF _ op, of t'] unfolding s1(3) by blast
  have T: "dget (pr_turns s2) = (dget (pr_turns s))(?k := None)" using s1(2) by (auto simp: s2 fun_eq_iff)
  have "ok_view ((dget (pr_turns s))(?k := None)) (pr_next s) (pr_spawns s) (dpop i (pr_drains s)) (pr_next_task s) (pr_log s1)
      (sadd (tn_id t) rel)"
    by (rule log, rule view_end, rule view_drop[OF o(2) t]) auto
  moreover have "live {} ((dget (pr_turns s))(?k := None)) (pr_spawns s) (dpop i (pr_drains s)) (pr_refused s)" if "\<not> b"
    by (rule live_end[OF live_drop[OF o(4)[OF that]] dget_mem[OF d] wf]) simp
  ultimately show ?thesis
    unfolding ok_progress_def abort_drain_def op leave_drain_def end_drain_def
    by (intro ok_atI[where rel = "sadd (tn_id t) rel"])
      (use s1 o(3) T in \<open>auto simp: s2\<close>)
qed

lemma ok_abort_same:
  assumes ok: "ok_progress s" and d: "dget (pr_drains s) i = Some d"
  shows "ok_progress (abort_drain W v i d s)"
proof (cases "dget (pr_turns s) (dr_key d)")
  case None
  then have "abort_drain W v i d s = end_drain i s"
    by (simp add: abort_drain_def drop_turn_none leave_drain_def)
  moreover have "ok_at (pr_raised s) {} (end_drain i s)" using ok_end[OF _ d None] ok by (simp add: ok_progress_def)
  ultimately show ?thesis by (simp add: ok_progress_def end_drain_def)
next
  case (Some t)
  show ?thesis
    by (rule ok_abort[where s = s and t = t and b = "pr_raised s", OF _ d Some])
      (use ok Some in \<open>auto simp: ok_progress_def ok_at_def fun_upd_idem\<close>)
qed

lemma ok_finish:
  assumes ok: "ok_at b {} s" and d: "dget (pr_drains s) i = Some d" and t: "dget (pr_turns s) (dr_key d) = Some t"
    and sent: "tn_id t \<in> set (sent_turns (pr_log s)) \<Longrightarrow> tn_message t \<noteq> None"
    and mv: "moves t t'" "tn_final t' = tn_final t"
    and s1: "wf_dict (pr_turns s1)" "dget (pr_turns s1) = (dget (pr_turns s))(dr_key d := Some (t'\<lparr>tn_scheduled := False\<rparr>))"
      "pr_next s1 = pr_next s" "pr_spawns s1 = pr_spawns s" "dpop i (pr_drains s1) = dpop i (pr_drains s)"
      "pr_next_task s1 = pr_next_task s" "pr_log s1 = pr_log s" "pr_refused s1 = pr_refused s"
      "set (pr_released s) \<subseteq> set (pr_released s1)" "b \<Longrightarrow> pr_raised s1"
  shows "ok_progress (if tn_final t then abort_drain W v i d s1 else end_drain i s1)"
proof (cases "tn_final t")
  case True
  have "ok_progress (abort_drain W v i d s1)"
    by (rule ok_abort[OF ok d t s1(1,2)]) (use s1(3-) mv in \<open>auto simp: moves_def\<close>)
  with True show ?thesis by simp
next
  case False
  let ?k = "dr_key d" and ?T = "dget (pr_turns s)"
  obtain rel where o: "wf_dict (pr_turns s)"
    "ok_view ?T (pr_next s) (pr_spawns s) (pr_drains s) (pr_next_task s) (pr_log s) rel"
    "\<not> b \<Longrightarrow> set rel \<subseteq> set (pr_released s)"
    "\<not> b \<Longrightarrow> live {} ?T (pr_spawns s) (pr_drains s) (pr_refused s)"
    using ok by (rule ok_atE) blast
  note dm = dget_mem[OF d]
  have wf: "wf_dict (pr_drains s)" and dist: "distinct (workers (pr_spawns s) (pr_drains s))"
    using view_parts(2)[OF o(2)] by (simp_all add: ok_workers_def)
  have busy: "?k \<in> set (workers (pr_spawns s) (pr_drains s))" by (rule drain_worker[OF dm])
  have moved: "ok_view (?T(?k := Some t')) (pr_next s) (pr_spawns s) (pr_drains s) (pr_next_task s) (pr_log s) rel"
    by (rule view_moves[OF o(2) t mv(1)])
  have behind: "behind_turn t' True x" if "x \<in> set (pr_log s)" for x
    using view_facts(6)[OF moved, of ?k t' x] busy that by simp
  have idle: "?k \<notin> set (workers (pr_spawns s) (dpop i (pr_drains s)))"
  proof
    assume "?k \<in> set (workers (pr_spawns s) (dpop i (pr_drains s)))"
    moreover have "?k \<notin> snd ` set (pr_spawns s)" by (rule drain_not_spawned[OF dist dm])
    ultimately obtain j e where e: "(j, e) \<in> set (dpop i (pr_drains s))" "dr_key e = ?k" by (force simp: jobs_def)
    then have "j \<noteq> i" "(j, e) \<in> set (pr_drains s)" by (auto simp: AList.delete_eq)
    then show False using distinct_workers_drains[OF dist dm _ _ wf] e(2) by metis
  qed
  let ?T1 = "(?T(?k := Some t'))(?k := Some (t'\<lparr>tn_scheduled := False\<rparr>))"
  have "ok_view ?T1 (pr_next s) (pr_spawns s) (dpop i (pr_drains s)) (pr_next_task s) (pr_log s) rel"
    by (rule view_settled[OF view_end[OF moved]]) (use idle behind sent mv in \<open>auto simp: moves_def\<close>)
  moreover have "live {} ?T1 (pr_spawns s) (dpop i (pr_drains s)) (pr_refused s)" if "\<not> b"
  proof (rule live_end[OF _ dm wf, where t = "t'\<lparr>tn_scheduled := False\<rparr>"])
    show "live {} ?T1 (pr_spawns s) (pr_drains s) (pr_refused s)"
      using o(4)[OF that] False mv(2) unfolding live_def by auto
  qed simp
  moreover have T1: "dget (pr_turns (end_drain i s1)) = ?T1" using s1(2) by (auto simp: end_drain_def fun_eq_iff)
  ultimately have "ok_progress (end_drain i s1)"
    unfolding ok_progress_def
    by (intro ok_atI[where rel = rel], unfold T1) (use s1(1,3-) o(3) in \<open>auto simp: end_drain_def\<close>)
  with False show ?thesis by simp
qed

lemma set_drain_fields [simp]:
  "pr_turns (set_drain i d s) = pr_turns s" "pr_next (set_drain i d s) = pr_next s"
  "pr_spawns (set_drain i d s) = pr_spawns s" "pr_drains (set_drain i d s) = dset i d (pr_drains s)"
  "pr_next_task (set_drain i d s) = pr_next_task s" "pr_log (set_drain i d s) = pr_log s"
  "pr_released (set_drain i d s) = pr_released s" "pr_refused (set_drain i d s) = pr_refused s"
  "pr_raised (set_drain i d s) = pr_raised s"
  by (simp_all add: set_drain_def)

lemma put_turn_fields [simp]:
  "pr_next (put_turn k t s) = pr_next s" "pr_turns (put_turn k t s) = dset k t (pr_turns s)"
  "pr_spawns (put_turn k t s) = pr_spawns s" "pr_drains (put_turn k t s) = pr_drains s"
  "pr_next_task (put_turn k t s) = pr_next_task s" "pr_log (put_turn k t s) = pr_log s"
  "pr_released (put_turn k t s) = pr_released s" "pr_refused (put_turn k t s) = pr_refused s"
  by (simp_all add: put_turn_def)

lemma log_wire_fields [simp]:
  "pr_turns (log_wire x s) = pr_turns s" "pr_next (log_wire x s) = pr_next s"
  "pr_spawns (log_wire x s) = pr_spawns s" "pr_drains (log_wire x s) = pr_drains s"
  "pr_next_task (log_wire x s) = pr_next_task s" "pr_log (log_wire x s) = pr_log s @ [x]"
  "pr_released (log_wire x s) = pr_released s" "pr_refused (log_wire x s) = pr_refused s"
  "pr_raised (log_wire x s) = pr_raised s"
  by (simp_all add: log_wire_def)

lemma live_jobs: "jobs sp ds' = jobs sp ds \<Longrightarrow> live K T sp ds' rf \<longleftrightarrow> live K T sp ds rf"
  unfolding live_def by simp

lemma live_set_drain:
  assumes "wf_dict ds" "(i, d) \<in> set ds" "dr_key d' = dr_key d" "dr_adapter d' = dr_adapter d"
  shows "live K T sp (dset i d' ds) rf \<longleftrightarrow> live K T sp ds rf"
  by (rule live_jobs, rule jobs_dset[OF assms])

lemma ok_set_drain:
  assumes ok: "ok_at b K s" and d: "dget (pr_drains s) i = Some d" "dr_key d' = dr_key d" "dr_adapter d' = dr_adapter d"
    and view: "\<And>rel. ok_view (dget (pr_turns s)) (pr_next s) (pr_spawns s) (pr_drains s) (pr_next_task s) (pr_log s) rel \<Longrightarrow>
      ok_view (dget (pr_turns s)) (pr_next s) (pr_spawns s) (dset i d' (pr_drains s)) (pr_next_task s) (pr_log s @ lg) rel"
    and s1: "s1 = (set_drain i d' s)\<lparr>pr_log := pr_log s @ lg\<rparr>"
  shows "ok_at b K s1"
proof -
  obtain rel where o: "wf_dict (pr_turns s)"
    "ok_view (dget (pr_turns s)) (pr_next s) (pr_spawns s) (pr_drains s) (pr_next_task s) (pr_log s) rel"
    "\<not> b \<Longrightarrow> set rel \<subseteq> set (pr_released s)"
    "\<not> b \<Longrightarrow> live K (dget (pr_turns s)) (pr_spawns s) (pr_drains s) (pr_refused s)"
    using ok by (rule ok_atE) blast
  have wf: "wf_dict (pr_drains s)" using view_parts(2)[OF o(2)] by (simp add: ok_workers_def)
  show ?thesis
    unfolding s1
    by (rule ok_atI[where rel = rel])
      (use o view[OF o(2)] live_set_drain[OF wf dget_mem[OF d(1)] d(2,3)] in auto)
qed

lemma ok_atV:
  assumes "ok_at b K s"
  obtains rel where "ok_view (dget (pr_turns s)) (pr_next s) (pr_spawns s) (pr_drains s) (pr_next_task s) (pr_log s) rel"
  using assms by (rule ok_atE) blast

lemma ok_pause:
  assumes ok: "ok_at b K s" and d: "dget (pr_drains s) i = Some d" "\<not> is_sending (dr_pc d)"
    and d': "dr_key d' = dr_key d" "dr_adapter d' = dr_adapter d" "\<And>n wd. dr_pc d' \<noteq> Claiming n wd"
      "pc_snapshot (dr_pc d') = None \<or> pc_snapshot (dr_pc d') = pc_snapshot (dr_pc d)"
  shows "ok_at b K (set_drain i d' s)"
proof (rule ok_set_drain[OF ok d(1) d'(1,2), where lg = "[]"])
  fix rel
  assume v: "ok_view (dget (pr_turns s)) (pr_next s) (pr_spawns s) (pr_drains s) (pr_next_task s) (pr_log s) rel"
  have "ok_drain (dget (pr_turns s)) (pr_next s) (pr_log s) d"
    using view_parts(3)[OF v] dget_mem[OF d(1)] unfolding ok_drains_def by blast
  then have "ok_drain (dget (pr_turns s)) (pr_next s) (pr_log s) d'"
    using d' unfolding ok_drain_def by auto
  from view_pc[OF v dget_mem[OF d(1)] d'(1,2) this] d(2) d'(4)
  show "ok_view (dget (pr_turns s)) (pr_next s) (pr_spawns s) (dset i d' (pr_drains s)) (pr_next_task s) (pr_log s @ []) rel"
    by auto
qed simp

lemma ok_look:
  assumes ok: "ok_at b K s" and d: "dget (pr_drains s) i = Some d" "\<not> is_sending (dr_pc d)"
    and t: "dget (pr_turns s) (dr_key d) = Some t"
    and pc: "pc_snapshot pc = Some (take_snapshot now t)" "\<And>n wd. pc = Claiming n wd \<Longrightarrow> tn_message t = None"
  shows "ok_at b K (set_drain i (d\<lparr>dr_pc := pc\<rparr>) s)"
proof (rule ok_set_drain[OF ok d(1), where lg = "[]" and d' = "d\<lparr>dr_pc := pc\<rparr>"])
  fix rel
  assume v: "ok_view (dget (pr_turns s)) (pr_next s) (pr_spawns s) (pr_drains s) (pr_next_task s) (pr_log s) rel"
  from view_snapshot[OF v dget_mem[OF d(1)] t pc d(2)]
  show "ok_view (dget (pr_turns s)) (pr_next s) (pr_spawns s) (dset i (d\<lparr>dr_pc := pc\<rparr>) (pr_drains s)) (pr_next_task s)
      (pr_log s @ []) rel" by simp
qed (simp_all add: set_drain_def)

lemma ok_log_edit:
  assumes ok: "ok_at b K s" and d: "dget (pr_drains s) i = Some d" "pc_snapshot (dr_pc d) = Some n"
  shows "ok_at b K (log_wire (WEdit n a) s)"
proof (rule ok_set_drain[OF ok d(1) refl refl, where lg = "[WEdit n a]"])
  have same: "dset i d (pr_drains s) = pr_drains s" using d(1) by (simp add: AList.update_triv)
  show "ok_view (dget (pr_turns s)) (pr_next s) (pr_spawns s) (dset i d (pr_drains s)) (pr_next_task s)
      (pr_log s @ [WEdit n a]) rel"
    if "ok_view (dget (pr_turns s)) (pr_next s) (pr_spawns s) (pr_drains s) (pr_next_task s) (pr_log s) rel" for rel
    unfolding same by (rule view_edit[OF that dget_mem[OF d(1)] d(2)])
  show "log_wire (WEdit n a) s = (set_drain i d s)\<lparr>pr_log := pr_log s @ [WEdit n a]\<rparr>"
    by (simp add: log_wire_def set_drain_def same)
qed

lemma current_turn_cases:
  assumes ok: "ok_at b K s" and d: "dget (pr_drains s) i = Some d" "pc_snapshot (dr_pc d) = Some n"
  shows "current_turn d n s = dget (pr_turns s) (dr_key d)"
    "dget (pr_turns s) (dr_key d) = Some t \<Longrightarrow> agrees n t"
proof -
  obtain rel where v: "ok_view (dget (pr_turns s)) (pr_next s) (pr_spawns s) (pr_drains s) (pr_next_task s) (pr_log s) rel"
    using ok by (rule ok_atV)
  show ag: "dget (pr_turns s) (dr_key d) = Some t \<Longrightarrow> agrees n t" for t
    using view_drainD(2)[OF v dget_mem[OF d(1)] d(2)] .
  show "current_turn d n s = dget (pr_turns s) (dr_key d)"
    using ag unfolding current_turn_def by (auto simp: agrees_def split: option.splits)
qed

lemma ok_end_gone:
  assumes "ok_progress s" "dget (pr_drains s) i = Some d" "dget (pr_turns s) (dr_key d) = None"
  shows "ok_progress (end_drain i s)"
  using ok_end[OF _ assms(2,3), of "pr_raised s" "{}"] assms(1) by (simp add: ok_progress_def end_drain_def)

section \<open>Reading\<close>

lemma progress_at: "ok_progress s \<Longrightarrow> ok_at (pr_raised s) {} s"
  by (simp add: ok_progress_def)

lemma at_progress: "ok_at b {} s \<Longrightarrow> pr_raised s = b \<Longrightarrow> ok_progress s"
  by (simp add: ok_progress_def)

lemma ok_start_edit:
  assumes ok: "ok_progress s" and d: "dget (pr_drains s) i = Some d" "\<not> is_sending (dr_pc d)"
    and t: "dget (pr_turns s) (dr_key d) = Some t"
  shows "ok_progress (start_edit W v i d (take_snapshot now t) wd s)"
proof (cases "sn_mode (take_snapshot now t) = Some CardMode \<and> \<not> renders W (take_snapshot now t)")
  case True
  then show ?thesis using ok_abort_same[OF ok d(1)] by (simp add: start_edit_def)
next
  case False
  have "ok_at (pr_raised s) {} (set_drain i (d\<lparr>dr_pc := Editing (take_snapshot now t) wd 0\<rparr>) s)"
    by (rule ok_look[OF progress_at[OF ok] d t]) simp_all
  from ok_log_edit[OF this, where i = i and d = "d\<lparr>dr_pc := Editing (take_snapshot now t) wd 0\<rparr>" and n = "take_snapshot now t" and a = 0]
  have "ok_at (pr_raised s) {} (log_wire (WEdit (take_snapshot now t) 0) (set_drain i (d\<lparr>dr_pc := Editing (take_snapshot now t) wd 0\<rparr>) s))"
    by simp
  from at_progress[OF this] show ?thesis unfolding start_edit_def if_not_P[OF False] by simp
qed

lemma ok_drain_read:
  assumes ok: "ok_progress s" and d: "dget (pr_drains s) i = Some d" "dr_pc d = Reading"
  shows "ok_progress (drain_read W v i d s)"
proof (cases "dget (pr_turns s) (dr_key d)")
  case None
  then show ?thesis using ok_end_gone[OF ok d(1)] by (simp add: drain_read_def)
next
  case (Some t)
  let ?n = "take_snapshot (t_now v) t"
  have idle: "\<not> is_sending (dr_pc d)" using d(2) by simp
  have look: "ok_progress (set_drain i (d\<lparr>dr_pc := pc\<rparr>) s)"
    if "pc_snapshot pc = Some ?n" "\<And>n wd. pc = Claiming n wd \<Longrightarrow> tn_message t = None" for pc
    by (rule at_progress[OF ok_look[OF progress_at[OF ok] d(1) idle Some that]]) simp_all
  have msg: "sn_message ?n = tn_message t" by (simp add: take_snapshot_def)
  have to_wire: "ok_progress (if sn_message ?n = None then set_drain i (d\<lparr>dr_pc := Claiming ?n wd\<rparr>) s
      else start_edit W v i d ?n wd s)" for wd
    using look[of "Claiming ?n wd"] ok_start_edit[OF ok d(1) idle Some] msg by simp
  have "ok_progress (case reasoning_wire_data (pw_text W) (sn_phase ?n) (sn_tools ?n) (sn_elapsed ?n) (sn_reasoning_id ?n) of
      Inl _ \<Rightarrow> abort_drain W v i d s
    | Inr None \<Rightarrow> set_drain i (d\<lparr>dr_pc := Skipping ?n\<rparr>) s
    | Inr (Some w) \<Rightarrow> (if sn_message ?n = None then set_drain i (d\<lparr>dr_pc := Claiming ?n (Some w)\<rparr>) s
      else start_edit W v i d ?n (Some w) s))"
    using ok_abort_same[OF ok d(1)] look[of "Skipping ?n"] to_wire
    by (auto split: sum.split option.split simp del: if_split)
  note registry = this
  show ?thesis
  proof (cases "pr_disconnecting s (tn_adapter t) \<or> \<not> pr_http s (tn_adapter t)")
    case True
    then show ?thesis using ok_abort_same[OF ok d(1)] unfolding drain_read_def Some option.case by (simp only: if_True)
  next
    case False
    show ?thesis
    proof (cases "sn_mode ?n")
      case None
      then show ?thesis
        using look[of "Profiling ?n"] unfolding drain_read_def Some option.case Let_def if_not_P[OF False] by simp
    next
      case mode: (Some m)
      show ?thesis
      proof (cases "sn_tools ?n = []")
        case True
        then show ?thesis
          using look[of "Skipping ?n"] mode unfolding drain_read_def Some option.case Let_def if_not_P[OF False] by simp
      next
        case tools: False
        show ?thesis
          using registry to_wire[of None]
          unfolding drain_read_def Some option.case Let_def if_not_P[OF False] mode if_not_P[OF tools]
          by (cases m) (simp_all only: delivery.case)
      qed
    qed
  qed
qed

section \<open>The steps after it\<close>

lemma ok_put_progress:
  assumes "ok_progress s" "dget (pr_turns s) k = Some t" "moves t t'" "tn_final t' = tn_final t"
  shows "ok_progress (put_turn k t' s)"
  by (rule at_progress[OF ok_put[OF progress_at[OF assms(1)] assms(2-4)]]) simp

lemma ok_drain_profile:
  assumes ok: "ok_progress s" and d: "dget (pr_drains s) i = Some d" "dr_pc d = Profiling n"
  shows "ok_progress (drain_profile W v i d n m s)"
proof -
  have pc: "pc_snapshot (dr_pc d) = Some n" using d(2) by simp
  note cur = current_turn_cases(1)[OF progress_at[OF ok] d(1) pc]
  let ?sel = "if pw_renderer W (dr_adapter d) = ''registry'' then select_reasoning_process_template (mf_templating m) else None"
  let ?mode = "Some (if ?sel \<noteq> None then RegistryMode else CardMode)"
  have reading: "ok_progress (set_drain i (d\<lparr>dr_pc := Reading\<rparr>) (put_turn (dr_key d) t' s))"
    if t: "dget (pr_turns s) (dr_key d) = Some t" "moves t t'" "tn_final t' = tn_final t" for t t'
    using ok_pause[OF progress_at[OF ok_put_progress[OF ok t]], of i d "d\<lparr>dr_pc := Reading\<rparr>"] d
    by (auto intro: at_progress)
  have aborting: "ok_progress (abort_drain W v i d (put_turn (dr_key d) t' s))"
    if t: "dget (pr_turns s) (dr_key d) = Some t" "moves t t'" "tn_final t' = tn_final t" for t t'
    using ok_abort_same[OF ok_put_progress[OF ok t], of i d] d by simp
  show ?thesis
  proof (cases "dget (pr_turns s) (dr_key d)")
    case None
    then show ?thesis
      using ok_abort_same[OF ok d(1)] ok_end_gone[OF ok d(1)] unfolding drain_profile_def Let_def cur
      by (simp split: if_splits)
  next
    case (Some t)
    show ?thesis
      using ok_abort_same[OF ok d(1)] reading[OF Some] aborting[OF Some]
      unfolding drain_profile_def Let_def cur Some option.case
      by (cases "derive_card_capabilities m") (auto simp: moves_def)
  qed
qed

lemma unsent_idle:
  assumes "ok_at b K s" "dget (pr_drains s) i = Some d" "\<not> is_sending (dr_pc d)" "dget (pr_turns s) (dr_key d) = Some t"
    "tn_id t \<in> set (sent_turns (pr_log s))"
  shows "tn_message t \<noteq> None"
proof -
  obtain rel where v: "ok_view (dget (pr_turns s)) (pr_next s) (pr_spawns s) (pr_drains s) (pr_next_task s) (pr_log s) rel"
    using assms(1) by (rule ok_atV)
  show ?thesis using view_facts(5)[OF v assms(4,5) _ dget_mem[OF assms(2)]] assms(3) by blast
qed

lemma ok_drain_skip:
  assumes ok: "ok_progress s" and d: "dget (pr_drains s) i = Some d" "dr_pc d = Skipping n"
  shows "ok_progress (drain_skip W v i d n s)"
proof -
  have pc: "pc_snapshot (dr_pc d) = Some n" using d(2) by simp
  note cur = current_turn_cases(1)[OF progress_at[OF ok] d(1) pc]
  show ?thesis
  proof (cases "dget (pr_turns s) (dr_key d)")
    case None
    then show ?thesis using ok_end_gone[OF ok d(1)] by (simp add: drain_skip_def cur)
  next
    case (Some t)
    let ?t = "t\<lparr>tn_delivered := int (sn_revision n)\<rparr>"
    have wf: "wf_dict (pr_turns s)" using progress_at[OF ok] by (simp add: ok_at_def)
    have "ok_progress (if tn_final t then abort_drain W v i d (put_turn (dr_key d) (?t\<lparr>tn_scheduled := False\<rparr>) s)
        else end_drain i (put_turn (dr_key d) (?t\<lparr>tn_scheduled := False\<rparr>) s))"
      by (rule ok_finish[OF progress_at[OF ok] d(1) Some unsent_idle[OF progress_at[OF ok] d(1) _ Some], where t' = ?t])
        (use d(2) wf in \<open>auto simp: moves_def\<close>)
    then show ?thesis unfolding drain_skip_def cur Some by (simp add: Let_def)
  qed
qed

lemma ok_drain_claim:
  assumes ok: "ok_progress s" and d: "dget (pr_drains s) i = Some d" "dr_pc d = Claiming n wd"
  shows "ok_progress (drain_claim W v i d n wd s)"
proof -
  have pc: "pc_snapshot (dr_pc d) = Some n" using d(2) by simp
  note cur = current_turn_cases(1)[OF progress_at[OF ok] d(1) pc]
  show ?thesis
  proof (cases "dget (pr_turns s) (dr_key d)")
    case None
    then show ?thesis using ok_end_gone[OF ok d(1)] by (simp add: drain_claim_def cur)
  next
    case (Some t)
    let ?t = "t\<lparr>tn_send_started := True\<rparr>" and ?d = "d\<lparr>dr_pc := Sending n wd\<rparr>"
    let ?s = "put_turn (dr_key d) ?t s"
    have oks: "ok_progress ?s" by (rule ok_put_progress[OF ok Some]) (simp_all add: moves_def)
    have ds: "dget (pr_drains ?s) i = Some d" using d(1) by simp
    have "ok_at (pr_raised ?s) {} (log_wire (WSend n) (set_drain i ?d ?s))"
    proof (rule ok_set_drain[OF progress_at[OF oks] ds, where lg = "[WSend n]" and d' = ?d])
      fix rel
      assume "ok_view (dget (pr_turns ?s)) (pr_next ?s) (pr_spawns ?s) (pr_drains ?s) (pr_next_task ?s) (pr_log ?s) rel"
      from view_send[OF this dget_mem[OF ds] d(2), of ?t]
      show "ok_view (dget (pr_turns ?s)) (pr_next ?s) (pr_spawns ?s) (dset i ?d (pr_drains ?s)) (pr_next_task ?s)
          (pr_log ?s @ [WSend n]) rel" by simp
    qed (simp_all add: log_wire_def)
    then have "ok_progress (log_wire (WSend n) (set_drain i ?d ?s))" by (rule at_progress) simp
    moreover have "ok_progress (abort_drain W v i d ?s)" by (rule ok_abort_same[OF oks ds])
    ultimately show ?thesis unfolding drain_claim_def cur Some by (simp add: Let_def)
  qed
qed

lemma ok_edit_failed:
  assumes ok: "ok_progress s" and d: "dget (pr_drains s) i = Some d" "dr_pc d = Editing n wd a"
  shows "ok_progress (edit_failed W v i d n wd a e s)"
proof -
  have "ok_progress (set_drain i d' s)"
    if "dr_key d' = dr_key d" "dr_adapter d' = dr_adapter d" "\<And>n wd. dr_pc d' \<noteq> Claiming n wd"
      "pc_snapshot (dr_pc d') = None \<or> pc_snapshot (dr_pc d') = pc_snapshot (dr_pc d)" for d'
    by (rule at_progress[OF ok_pause[OF progress_at[OF ok] d(1) _ that]]) (use d(2) in auto)
  then show ?thesis
    using ok_abort_same[OF ok d(1)] d(2) unfolding edit_failed_def by auto
qed

lemma ok_retry_edit:
  assumes ok: "ok_progress s" and d: "dget (pr_drains s) i = Some d" "dr_pc d = Pausing n wd a"
  shows "ok_progress (log_wire (WEdit n (a + 1)) (set_drain i (d\<lparr>dr_pc := Editing n wd (a + 1)\<rparr>) s))"
proof -
  let ?d = "d\<lparr>dr_pc := Editing n wd (a + 1)\<rparr>"
  have "ok_at (pr_raised s) {} (set_drain i ?d s)"
    by (rule ok_pause[OF progress_at[OF ok] d(1)]) (use d(2) in auto)
  from ok_log_edit[OF this, of i ?d n "a + 1"] have "ok_at (pr_raised s) {} (log_wire (WEdit n (a + 1)) (set_drain i ?d s))"
    by simp
  then show ?thesis by (rule at_progress) simp
qed

section \<open>Answers\<close>

definition frame :: "progress \<Rightarrow> progress \<Rightarrow> bool" where
  \<comment> \<open>only turns and the card registry differ\<close>
  "frame s s' \<longleftrightarrow>
     pr_next s' = pr_next s \<and> pr_spawns s' = pr_spawns s \<and> pr_drains s' = pr_drains s \<and>
     pr_next_task s' = pr_next_task s \<and> pr_log s' = pr_log s \<and> pr_released s' = pr_released s \<and>
     pr_refused s' = pr_refused s \<and> pr_raised s' = pr_raised s"

definition turned :: "pkey \<Rightarrow> pturn \<Rightarrow> progress \<Rightarrow> progress \<Rightarrow> bool" where
  \<comment> \<open>\<open>s'\<close> is \<open>s\<close> with a moved turn at \<open>k\<close>\<close>
  "turned k t' s s' \<longleftrightarrow>
     frame s s' \<and> wf_dict (pr_turns s') \<and> dget (pr_turns s') = (dget (pr_turns s))(k := Some t') \<and>
     (\<exists>t. dget (pr_turns s) k = Some t \<and> moves t t' \<and> tn_final t' = tn_final t \<and> tn_revision t' = tn_revision t)"

lemma ok_turned: "ok_at b K s \<Longrightarrow> turned k t' s s' \<Longrightarrow> ok_at b K s'"
proof -
  assume ok: "ok_at b K s" and tr: "turned k t' s s'"
  then obtain t where t: "dget (pr_turns s) k = Some t" "moves t t'" "tn_final t' = tn_final t"
    "dget (pr_turns s') = (dget (pr_turns s))(k := Some t')" "frame s s'" "wf_dict (pr_turns s')"
    unfolding turned_def by blast
  have "ok_state b K (dget (pr_turns s')) (pr_next s') (pr_spawns s') (pr_drains s') (pr_next_task s') (pr_log s')
      (pr_released s') (pr_refused s')"
    using state_moves[where T = "dget (pr_turns s)", OF _ t(1,2)] ok t(3,5) unfolding t(4) ok_at_def frame_def by (simp add: fun_upd_def)
  then show ?thesis using t(6) by (simp add: ok_at_def)
qed

lemma turned_set_drain: "turned k t s s' \<Longrightarrow> turned k t (set_drain i d s) (set_drain i d s')"
  unfolding turned_def frame_def by simp

lemma turned_put:
  assumes "wf_dict (pr_turns s)" "dget (pr_turns s) k = Some t" "moves t t'" "tn_final t' = tn_final t" "tn_revision t' = tn_revision t"
  shows "turned k t' s (put_turn k t' s)"
  using assms by (auto simp: turned_def frame_def fun_eq_iff)

lemma turned_registry: "wf_dict (pr_turns s) \<Longrightarrow> dget (pr_turns s) k = Some t \<Longrightarrow> turned k t s (set_registry a r s)"
  by (simp add: turned_def frame_def set_registry_def fun_upd_idem)

lemma turned_both:
  assumes "wf_dict (pr_turns s)" "dget (pr_turns s) k = Some t" "moves t t'" "tn_final t' = tn_final t" "tn_revision t' = tn_revision t"
  shows "turned k t' s (put_turn k t' (set_registry a r s))"
  using assms by (auto simp: turned_def frame_def set_registry_def fun_eq_iff)

lemma sync_turned:
  assumes wf: "wf_dict (pr_turns s)" and t: "dget (pr_turns s) k = Some t"
    and op: "sync_reasoning_card_session W v k ws p s = (r, s')"
  shows "\<exists>t'. turned k t' s s' \<and> tn_message t' = tn_message t \<and> tn_id t' = tn_id t \<and> tn_seq t' = tn_seq t \<and>
    tn_scheduled t' = tn_scheduled t \<and> tn_delivered t' = tn_delivered t"
proof -
  have same: "turned k t s s" using wf t by (simp add: turned_def frame_def fun_upd_idem)
  note reg = turned_registry[OF wf t]
  have put: "turned k (t\<lparr>tn_preserve := q\<rparr>) s (put_turn k (t\<lparr>tn_preserve := q\<rparr>) (set_registry a x s))" for q a x
    by (rule turned_both[OF wf t]) (simp_all add: moves_def)
  have "(\<exists>a x. s' = s \<or> s' = set_registry a x s \<or> (\<exists>q. s' = put_turn k (t\<lparr>tn_preserve := q\<rparr>) (set_registry a x s)))"
  proof (cases "tn_message t")
    case None
    then show ?thesis using op t by (auto simp: sync_reasoning_card_session_def)
  next
    case (Some mid)
    let ?a = "tn_adapter t"
    let ?labels = "reasoning_action_labels (case dget (tn_actions t) ws of None \<Rightarrow> [] | Some as \<Rightarrow> as)"
    show ?thesis
    proof (cases "mid = [] \<or> ?labels = []")
      case True
      then show ?thesis
        using op t Some unfolding sync_reasoning_card_session_def Let_def
        by (auto split: prod.splits sum.splits if_split_asm)
    next
      case False
      obtain found reg1 where pk: "peek v mid (pr_registry s ?a) = (found, reg1)" by fastforce
      obtain res reg2 where rs: "(if found = Inr None then register (pw_checksum W) v (reasoning_session W t mid ?labels) reg1
          else refresh_reasoning v (reasoning_session W t mid ?labels) reg1) = (res, reg2)" by fastforce
      have "(r, s') = (case res of
            Inl (InvalidSession e) \<Rightarrow> (False, put_turn k (t\<lparr>tn_preserve := False\<rparr>) (set_registry ?a reg2 s))
          | Inl (PersistFailed e) \<Rightarrow> (True, set_registry ?a reg2 s)
          | Inr _ \<Rightarrow> (False, put_turn k (t\<lparr>tn_preserve := p\<rparr>) (set_registry ?a reg2 s)))"
        using op t Some False pk rs unfolding sync_reasoning_card_session_def by (simp add: Let_def)
      then show ?thesis by (auto split: sum.splits card_error.splits)
    qed
  qed
  then obtain a x where "s' = s \<or> s' = set_registry a x s \<or> (\<exists>q. s' = put_turn k (t\<lparr>tn_preserve := q\<rparr>) (set_registry a x s))"
    by blast
  then consider "s' = s \<or> s' = set_registry a x s" | q where "s' = put_turn k (t\<lparr>tn_preserve := q\<rparr>) (set_registry a x s)"
    by blast
  then show ?thesis
  proof cases
    case 1
    then have "turned k t s s'" using same reg by blast
    then show ?thesis by blast
  next
    case 2
    show ?thesis unfolding 2 by (rule exI[of _ "t\<lparr>tn_preserve := q\<rparr>"]) (simp add: put)
  qed
qed

lemma dpop_dset [simp]: "dpop i (dset i d ds) = dpop i ds"
  by (induction ds) auto

lemma abort_drain_pc: "abort_drain W v i (d\<lparr>dr_pc := pc\<rparr>) s = abort_drain W v i d s"
  "abort_drain W v i (d\<lparr>dr_exhaustions := e\<rparr>) s = abort_drain W v i d s"
  by (simp_all add: abort_drain_def)

lemma ok_settle:
  assumes ok: "ok_at b {} (set_drain i (d\<lparr>dr_pc := Reading\<rparr>) s)" and b: "pr_raised s = b"
    and t: "dget (pr_turns s) (dr_key d) = Some t"
  shows "ok_progress (settle_drain W v i d n s)"
proof (cases "tn_revision t = sn_revision n")
  case True
  let ?s = "set_drain i (d\<lparr>dr_pc := Reading\<rparr>) s" and ?d = "d\<lparr>dr_pc := Reading\<rparr>"
  let ?s1 = "put_turn (dr_key d) (t\<lparr>tn_scheduled := False\<rparr>) s"
  have wf: "wf_dict (pr_turns s)" using ok by (simp add: ok_at_def)
  have ds: "dget (pr_drains ?s) i = Some ?d" by simp
  have "ok_progress (if tn_final t then abort_drain W v i ?d ?s1 else end_drain i ?s1)"
    by (rule ok_finish[OF ok ds _ unsent_idle[OF ok ds], where t' = t]) (use t wf b in \<open>auto simp: fun_eq_iff\<close>)
  then show ?thesis
    using True t by (cases "tn_final t") (simp_all add: settle_drain_def abort_drain_pc)
next
  case False
  then show ?thesis using at_progress[OF ok] b t by (simp add: settle_drain_def)
qed

lemma ok_end_raised:
  assumes ok: "ok_at b K s" and d: "dget (pr_drains s) i = Some d"
  shows "ok_progress (leave_drain i (True, s))"
proof -
  obtain rel where "wf_dict (pr_turns s)"
    "ok_view (dget (pr_turns s)) (pr_next s) (pr_spawns s) (pr_drains s) (pr_next_task s) (pr_log s) rel"
    using ok by (rule ok_atE) blast
  then show ?thesis
    unfolding ok_progress_def
    by (intro ok_atI[where rel = rel]) (auto simp: leave_drain_def end_drain_def intro: view_end)
qed

lemma ok_sent_state:
  assumes ok: "ok_progress s" and d: "dget (pr_drains s) i = Some d" "dr_pc d = Sending n wd"
    and t: "dget (pr_turns s) (dr_key d) = Some t"
  shows "ok_at (pr_raised s) {} (set_drain i (d\<lparr>dr_pc := Reading\<rparr>) (release_barrier (tn_id t)
    (put_turn (dr_key d) (t\<lparr>tn_send_started := False, tn_message := Some mid\<rparr>) s)))"
proof -
  let ?t = "t\<lparr>tn_send_started := False, tn_message := Some mid\<rparr>" and ?d = "d\<lparr>dr_pc := Reading\<rparr>"
  obtain rel where o: "wf_dict (pr_turns s)"
    "ok_view (dget (pr_turns s)) (pr_next s) (pr_spawns s) (pr_drains s) (pr_next_task s) (pr_log s) rel"
    "\<not> pr_raised s \<Longrightarrow> set rel \<subseteq> set (pr_released s)"
    "\<not> pr_raised s \<Longrightarrow> live {} (dget (pr_turns s)) (pr_spawns s) (pr_drains s) (pr_refused s)"
    using progress_at[OF ok] by (rule ok_atE) blast
  have wf: "wf_dict (pr_drains s)" using view_parts(2)[OF o(2)] by (simp add: ok_workers_def)
  have T: "dget (pr_turns (set_drain i ?d (release_barrier (tn_id t) (put_turn (dr_key d) ?t s)))) =
      (dget (pr_turns s))(dr_key d := Some ?t)"
    by (auto simp: release_barrier_def fun_eq_iff)
  have "live {} ((dget (pr_turns s))(dr_key d := Some ?t)) (pr_spawns s) (dset i ?d (pr_drains s)) (pr_refused s)"
    if "\<not> pr_raised s"
  proof -
    have "live {} (dget (pr_turns s)) (pr_spawns s) (dset i ?d (pr_drains s)) (pr_refused s)"
      using o(4)[OF that] live_set_drain[OF wf dget_mem[OF d(1)], of ?d] by simp
    then show ?thesis using t unfolding live_def by auto
  qed
  with view_sent[OF o(2) dget_mem[OF d(1)] d(2) t, of mid] o(1,3) show ?thesis
    by (intro ok_atI[where rel = "sadd (tn_id t) rel"], unfold T) (auto simp: release_barrier_def)
qed

lemma ok_drain_sent:
  assumes ok: "ok_progress s" and d: "dget (pr_drains s) i = Some d" "dr_pc d = Sending n wd"
  shows "ok_progress (drain_sent W v i d n wd mid s)"
proof -
  have pc: "pc_snapshot (dr_pc d) = Some n" using d(2) by simp
  note cur = current_turn_cases(1)[OF progress_at[OF ok] d(1) pc]
  show ?thesis
  proof (cases "dget (pr_turns s) (dr_key d)")
    case None
    then show ?thesis using ok_end_gone[OF ok d(1)] by (simp add: drain_sent_def cur)
  next
    case (Some t)
    let ?k = "dr_key d" and ?R = "set_drain i (d\<lparr>dr_pc := Reading\<rparr>)"
    let ?t = "t\<lparr>tn_send_started := False, tn_message := Some mid\<rparr>"
    let ?s1 = "release_barrier (tn_id t) (put_turn ?k ?t s)"
    note ok1 = ok_sent_state[OF ok d Some, of mid]
    have wf1: "wf_dict (pr_turns ?s1)" using ok1 by (simp add: ok_at_def)
    have t1: "dget (pr_turns ?s1) ?k = Some ?t" by (simp add: release_barrier_def)
    obtain raised s2 where sy: "(case (tn_mode t, wd) of
          (Some RegistryMode, Some w) \<Rightarrow> sync_reasoning_card_session W v ?k (wd_state w) (tn_final t) ?s1
        | _ \<Rightarrow> (False, ?s1)) = (raised, s2)" by fastforce
    have same: "turned ?k ?t ?s1 ?s1" using wf1 t1 by (simp add: turned_def frame_def fun_upd_idem)
    have "\<exists>t'. turned ?k t' ?s1 s2 \<and> tn_id t' = tn_id ?t"
    proof (cases "\<exists>w. tn_mode t = Some RegistryMode \<and> wd = Some w")
      case True
      then show ?thesis using sy sync_turned[OF wf1 t1] by fastforce
    next
      case False
      then have "s2 = ?s1" using sy by (auto split: option.splits delivery.splits)
      then show ?thesis using same by blast
    qed
    then obtain t2 where t2: "turned ?k t2 ?s1 s2" "tn_id t2 = tn_id t" by auto
    have s2: "dget (pr_turns s2) ?k = Some t2" "wf_dict (pr_turns s2)" "pr_raised s2 = pr_raised s" "frame ?s1 s2"
      "dget (pr_turns s2) = (dget (pr_turns ?s1))(?k := Some t2)"
      using t2(1) by (auto simp: turned_def frame_def release_barrier_def)
    have ok2: "ok_at (pr_raised s) {} (?R s2)" by (rule ok_turned[OF ok1 turned_set_drain[OF t2(1)]])
    have "ok_progress (abort_drain W v i (d\<lparr>dr_pc := Reading\<rparr>) s2)"
      by (rule ok_abort[OF ok2, where t = t2 and t' = t2]) (use s2 in \<open>auto simp: frame_def\<close>)
    moreover
    let ?t3 = "t2\<lparr>tn_delivered := int (sn_revision n)\<rparr>"
    have d3: "set_delivered ?k (sn_revision n) s2 = put_turn ?k ?t3 s2" using s2(1) by (simp add: set_delivered_def)
    have "turned ?k ?t3 s2 (put_turn ?k ?t3 s2)" by (rule turned_put[OF s2(2,1)]) (simp_all add: moves_def)
    from ok_turned[OF ok2 turned_set_drain[OF this]] have "ok_at (pr_raised s) {} (?R (put_turn ?k ?t3 s2))" .
    from ok_settle[OF this, of ?t3 W v n] s2(3) have "ok_progress (settle_drain W v i d n (put_turn ?k ?t3 s2))" by simp
    moreover have "drain_sent W v i d n wd mid s =
        (if raised then abort_drain W v i d s2 else settle_drain W v i d n (put_turn ?k ?t3 s2))"
      using sy unfolding drain_sent_def cur Some option.case Let_def d3[symmetric] by (auto split: prod.splits)
    ultimately show ?thesis by (simp add: abort_drain_pc)
  qed
qed

lemma edited_facts:
  assumes v: "ok_view T nx sp ds nt lg rel" and d: "(i, d) \<in> set ds" "pc_snapshot (dr_pc d) = Some n"
    and sub: "\<forall>j e. (j, e) \<in> set ds' \<longrightarrow> pc_snapshot (dr_pc e) \<noteq> None \<longrightarrow> (j, e) \<in> set ds \<and> j \<noteq> i"
  shows "sn_turn n < nx" "x \<in> set lg \<Longrightarrow> behind_snapshot n x"
    "(j, e) \<in> set ds' \<Longrightarrow> pc_snapshot (dr_pc e) = Some m \<Longrightarrow> sn_turn m \<noteq> sn_turn n"
    "T k = Some u \<Longrightarrow> tn_id u = sn_turn n \<Longrightarrow> k = dr_key d"
proof -
  show "sn_turn n < nx" "x \<in> set lg \<Longrightarrow> behind_snapshot n x" "T k = Some u \<Longrightarrow> tn_id u = sn_turn n \<Longrightarrow> k = dr_key d"
    using view_drainD[OF v d] by blast+
  assume e: "(j, e) \<in> set ds'" "pc_snapshot (dr_pc e) = Some m"
  then have "(j, e) \<in> set ds" "j \<noteq> i" using sub by auto
  then show "sn_turn m \<noteq> sn_turn n" using drain_of_turn(2)[OF v d(1) _ d(2) e(2)] by metis
qed

lemma dpop_members: "\<forall>j e. (j, e) \<in> set (dpop i ds) \<longrightarrow> P e \<longrightarrow> (j, e) \<in> set ds \<and> j \<noteq> i"
  by (auto simp: AList.delete_eq)

lemma view_edited_gone:
  assumes v: "ok_view T nx sp ds nt lg rel" and d: "(i, d) \<in> set ds" "pc_snapshot (dr_pc d) = Some n"
    and v': "ok_view T' nx sp (dpop i ds) nt lg rel'" and T': "T' (dr_key d) = None" "\<And>k u. T' k = Some u \<Longrightarrow> T k = Some u"
  shows "ok_view T' nx sp (dpop i ds) nt (lg @ [WEdited n]) rel'"
proof -
  note f = edited_facts[OF v d, of "dpop i ds", OF dpop_members]
  show ?thesis
  proof (rule view_edited[OF v' f(1,2)])
    show "sn_turn m \<noteq> sn_turn n" if "(j, e) \<in> set (dpop i ds)" "pc_snapshot (dr_pc e) = Some m" for j e m
      using f(3)[OF that] .
    show "sn_seq n \<le> tn_seq u \<and> (sn_final n \<longrightarrow> tn_final u \<and> tn_scheduled u \<and> k \<notin> set (workers sp (dpop i ds)))"
      if "T' k = Some u" "tn_id u = sn_turn n" for k u
      using f(4)[OF T'(2)[OF that(1)] that(2)] T'(1) that(1) by simp
  qed
qed

lemma acked_turn:
  assumes v: "ok_view T nx sp ds nt lg rel" and d: "(i, d) \<in> set ds" "dr_pc d = Editing n wd a"
    and t: "T (dr_key d) = Some t" and t': "same_turn t t'" "tn_seq t' = sn_seq n" "tn_revision t' = tn_revision t"
      "tn_final t' = tn_final t" "tn_scheduled t' = tn_scheduled t" "tn_message t' = tn_message t"
    and ds': "ds' = dset i (d\<lparr>dr_exhaustions := e, dr_pc := Reading\<rparr>) ds"
  shows "ok_view (T(dr_key d := Some t')) nx sp ds' nt lg rel"
proof -
  let ?d = "d\<lparr>dr_exhaustions := e, dr_pc := Reading\<rparr>"
  have pc: "pc_snapshot (dr_pc d) = Some n" using d(2) by simp
  have ag: "agrees n t" by (rule view_drainD(2)[OF v d(1) pc t])
  note p = view_parts[OF v]
  have wf: "wf_dict ds" and dist: "distinct (workers sp ds)" using p(2) by (auto simp: ok_workers_def)
  have v1: "ok_view T nx sp ds' nt lg rel"
    unfolding ds' by (rule view_pc[OF v d(1)]) (use d(2) in \<open>auto simp: ok_drain_Reading\<close>)
  note f = view_facts[OF v1 t]
  have me: "e = ?d" if "(j, e) \<in> set ds'" "dr_key e = dr_key d" for j e
  proof -
    have "j = i"
    proof (rule ccontr)
      assume "j \<noteq> i"
      then have "(j, e) \<in> set ds" using that(1) by (simp add: ds' dset_members[OF wf])
      then show False using distinct_workers_drains[OF dist d(1) _ _ wf] that(2) \<open>j \<noteq> i\<close> by metis
    qed
    then show ?thesis using that(1) by (simp add: ds' dset_members[OF wf])
  qed
  have msg: "tn_message t \<noteq> None" if "tn_id t \<in> set (sent_turns lg)"
    using view_facts(5)[OF v t that _ d(1) refl] d(2) by auto
  show ?thesis
  proof (rule view_update[OF v1 t])
    show "agrees m t'" if "(j, e) \<in> set ds'" "dr_key e = dr_key d" "pc_snapshot (dr_pc e) = Some m" for j e m
      using me[OF that(1,2)] that(3) by simp
    show "tn_message t' = None" if "(j, e) \<in> set ds'" "dr_key e = dr_key d" "dr_pc e = Claiming m w" for j e m w
      using me[OF that(1,2)] that(3) by simp
    show "behind_turn t' (dr_key d \<in> set (workers sp ds')) x" if "x \<in> set lg" for x
      using f(6)[OF that] ag t' by (cases x) (auto simp: agrees_def same_turn_def)
  qed (use f(1,7) t' msg in auto)
qed

lemma edited_open:
  assumes v: "ok_view T nx sp ds nt lg rel" and d: "(i, d) \<in> set ds" "dr_pc d = Editing n wd a"
    and t: "T (dr_key d) = Some t" "\<not> sn_final n"
    and t': "same_turn t t'" "tn_seq t' = sn_seq n" "tn_revision t' = tn_revision t"
      "tn_final t' = tn_final t" "tn_scheduled t' = tn_scheduled t" "tn_message t' = tn_message t"
    and ds': "ds' = dset i (d\<lparr>dr_exhaustions := e, dr_pc := Reading\<rparr>) ds"
  shows "ok_view (T(dr_key d := Some t')) nx sp ds' nt (lg @ [WEdited n]) rel"
proof -
  have pc: "pc_snapshot (dr_pc d) = Some n" using d(2) by simp
  have wf: "wf_dict ds" using view_parts(2)[OF v] by (auto simp: ok_workers_def)
  have sub: "\<forall>j e. (j, e) \<in> set ds' \<longrightarrow> pc_snapshot (dr_pc e) \<noteq> None \<longrightarrow> (j, e) \<in> set ds \<and> j \<noteq> i"
    unfolding ds' dset_members[OF wf] by auto
  note f = edited_facts[OF v d(1) pc sub]
  show ?thesis
  proof (rule view_edited[OF acked_turn[OF v d t(1) t' ds'] f(1,2)])
    show "sn_turn m \<noteq> sn_turn n" if "(j, e) \<in> set ds'" "pc_snapshot (dr_pc e) = Some m" for j e m
      using f(3)[OF that] .
    show "sn_seq n \<le> tn_seq u \<and> (sn_final n \<longrightarrow> tn_final u \<and> tn_scheduled u \<and> k \<notin> set (workers sp ds'))"
      if "(T(dr_key d \<mapsto> t')) k = Some u" "tn_id u = sn_turn n" for k u
      using that f(4)[of k u] t(2) t'(2) by (auto split: if_split_asm)
  qed
qed

lemma edited_final:
  assumes v: "ok_view T nx sp ds nt lg rel" and d: "(i, d) \<in> set ds" "dr_pc d = Editing n wd a"
    and t: "T (dr_key d) = Some t" "tn_final t"
    and t': "same_turn t t'" "tn_seq t' = sn_seq n" "tn_revision t' = tn_revision t"
      "tn_final t' = tn_final t" "tn_scheduled t' = tn_scheduled t" "tn_message t' = tn_message t"
  shows "ok_view (T(dr_key d := Some t')) nx sp (dpop i ds) nt (lg @ [WEdited n]) rel"
proof -
  have pc: "pc_snapshot (dr_pc d) = Some n" using d(2) by simp
  have wf: "wf_dict ds" and dist: "distinct (workers sp ds)"
    using view_parts(2)[OF v] by (auto simp: ok_workers_def)
  have "ok_view (T(dr_key d := Some t')) nx sp (dset i (d\<lparr>dr_exhaustions := 0, dr_pc := Reading\<rparr>) ds) nt lg rel"
    by (rule acked_turn[OF v d t(1) t' refl])
  from view_end[OF this, of i] have v': "ok_view (T(dr_key d := Some t')) nx sp (dpop i ds) nt lg rel" by simp
  note f = edited_facts[OF v d(1) pc, of "dpop i ds", OF dpop_members]
  have idle: "dr_key d \<notin> set (workers sp (dpop i ds))"
  proof
    assume "dr_key d \<in> set (workers sp (dpop i ds))"
    moreover have "dr_key d \<notin> snd ` set sp" by (rule drain_not_spawned[OF dist d(1)])
    ultimately obtain j e where "(j, e) \<in> set (dpop i ds)" "dr_key e = dr_key d" by (force simp: jobs_def)
    then have "(j, e) \<in> set ds" "j \<noteq> i" "dr_key e = dr_key d" by (auto simp: AList.delete_eq)
    then show False using distinct_workers_drains[OF dist d(1) _ _ wf] by metis
  qed
  have sched: "tn_scheduled t" using view_facts(1)[OF v t(1) drain_worker[OF d(1)]] .
  show ?thesis
  proof (rule view_edited[OF v' f(1,2)])
    show "sn_turn m \<noteq> sn_turn n" if "(j, e) \<in> set (dpop i ds)" "pc_snapshot (dr_pc e) = Some m" for j e m
      using f(3)[OF that] .
    show "sn_seq n \<le> tn_seq u \<and> (sn_final n \<longrightarrow> tn_final u \<and> tn_scheduled u \<and> k \<notin> set (workers sp (dpop i ds)))"
      if "(T(dr_key d \<mapsto> t')) k = Some u" "tn_id u = sn_turn n" for k u
      using that f(4)[of k u] t(2) t' sched idle by (auto split: if_split_asm)
  qed
qed

lemma leave_set_drain: "leave_drain i (r, set_drain i d s) = leave_drain i (r, s)"
  by (simp add: leave_drain_def end_drain_def set_drain_def)

lemma ok_drain_edited:
  assumes ok: "ok_progress s" and d: "dget (pr_drains s) i = Some d" "dr_pc d = Editing n wd a"
  shows "ok_progress (drain_edited W v i d n wd (log_wire (WEdited n) s))"
proof -
  let ?k = "dr_key d" and ?l = "log_wire (WEdited n) s" and ?d0 = "d\<lparr>dr_exhaustions := 0\<rparr>"
  have pc: "pc_snapshot (dr_pc d) = Some n" using d(2) by simp
  note at = progress_at[OF ok] and dm = dget_mem[OF d(1)]
  have cur: "current_turn d n ?l = dget (pr_turns s) ?k"
    using current_turn_cases(1)[OF at d(1) pc] by (simp add: current_turn_def)
  obtain rel where o: "wf_dict (pr_turns s)"
    "ok_view (dget (pr_turns s)) (pr_next s) (pr_spawns s) (pr_drains s) (pr_next_task s) (pr_log s) rel"
    "\<not> pr_raised s \<Longrightarrow> set rel \<subseteq> set (pr_released s)"
    "\<not> pr_raised s \<Longrightarrow> live {} (dget (pr_turns s)) (pr_spawns s) (pr_drains s) (pr_refused s)"
    using at by (rule ok_atE) blast
  have wf: "wf_dict (pr_drains s)" using view_parts(2)[OF o(2)] by (simp add: ok_workers_def)
  show ?thesis
  proof (cases "dget (pr_turns s) ?k")
    case None
    have "ok_view (dget (pr_turns s)) (pr_next s) (pr_spawns s) (dpop i (pr_drains s)) (pr_next_task s)
        (pr_log s @ [WEdited n]) rel"
      by (rule view_edited_gone[OF o(2) dm pc view_end[OF o(2)] None])
    then have "ok_progress (end_drain i ?l)"
      unfolding ok_progress_def
      by (intro ok_atI[where rel = rel])
        (use o live_end[OF o(4) dm wf] None in \<open>auto simp: end_drain_def\<close>)
    then show ?thesis by (simp add: drain_edited_def cur None)
  next
    case (Some t)
    have ag: "agrees n t" by (rule current_turn_cases(2)[OF at d(1) pc Some])
    let ?t = "t\<lparr>tn_seq := sn_seq n, tn_delivered := int (sn_revision n)\<rparr>"
    let ?s1 = "put_turn ?k ?t ?l"
    have wf1: "wf_dict (pr_turns ?s1)" and t1: "dget (pr_turns ?s1) ?k = Some ?t" using o(1) by auto
    obtain raised s2 where sy: "(case (tn_mode t, wd) of
          (Some RegistryMode, Some w) \<Rightarrow>
            if tn_final t then sync_reasoning_card_session W v ?k (wd_state w) True ?s1 else (False, ?s1)
        | _ \<Rightarrow> (False, ?s1)) = (raised, s2)" by fastforce
    have same: "turned ?k ?t ?s1 ?s1" using wf1 by (simp add: turned_def frame_def fun_upd_idem)
    have "\<exists>t'. turned ?k t' ?s1 s2 \<and> tn_message t' = tn_message ?t \<and> tn_id t' = tn_id ?t \<and> tn_seq t' = tn_seq ?t \<and>
        tn_scheduled t' = tn_scheduled ?t"
    proof (cases "\<exists>w. tn_mode t = Some RegistryMode \<and> wd = Some w \<and> tn_final t")
      case True
      then obtain w where "tn_mode t = Some RegistryMode" "wd = Some w" "tn_final t" by blast
      then have "sync_reasoning_card_session W v ?k (wd_state w) True ?s1 = (raised, s2)" using sy by simp
      from sync_turned[OF wf1 t1 this] show ?thesis by blast
    next
      case False
      then have "s2 = ?s1" using sy by (auto split: option.splits delivery.splits if_splits)
      then show ?thesis using same by blast
    qed
    then obtain t2 where t2: "turned ?k t2 ?s1 s2" "tn_message t2 = tn_message t" "tn_id t2 = tn_id t"
      "tn_seq t2 = sn_seq n" "tn_scheduled t2 = tn_scheduled t" by auto
    have s2: "dget (pr_turns s2) = (dget (pr_turns s))(?k := Some t2)" "wf_dict (pr_turns s2)" "pr_raised s2 = pr_raised s"
      "frame ?l s2" "moves ?t t2" "tn_final t2 = tn_final t" "tn_revision t2 = tn_revision t"
      using t2(1) by (auto simp: turned_def frame_def)
    have st: "same_turn t t2" using s2(5,6) by (auto simp: same_turn_def moves_def)
    have step: "drain_edited W v i d n wd ?l =
        (if raised then leave_drain i (True, s2) else settle_drain W v i ?d0 n s2)"
      using sy unfolding drain_edited_def cur Some option.case Let_def by (auto split: prod.splits)
    show ?thesis
    proof (cases "sn_final n")
      case False
      let ?R = "set_drain i (?d0\<lparr>dr_pc := Reading\<rparr>)"
      have "ok_view ((dget (pr_turns s))(?k := Some ?t)) (pr_next s) (pr_spawns s) (dset i (?d0\<lparr>dr_pc := Reading\<rparr>) (pr_drains s))
          (pr_next_task s) (pr_log s @ [WEdited n]) rel"
        by (rule edited_open[OF o(2) dm d(2) Some False]) (auto simp: same_turn_def)
      moreover have "live {} ((dget (pr_turns s))(?k := Some ?t)) (pr_spawns s)
          (dset i (?d0\<lparr>dr_pc := Reading\<rparr>) (pr_drains s)) (pr_refused s)" if "\<not> pr_raised s"
      proof -
        have "live {} (dget (pr_turns s)) (pr_spawns s) (dset i (?d0\<lparr>dr_pc := Reading\<rparr>) (pr_drains s)) (pr_refused s)"
          using o(4)[OF that] live_set_drain[OF wf dm, of "?d0\<lparr>dr_pc := Reading\<rparr>"] by simp
        then show ?thesis using Some unfolding live_def by auto
      qed
      ultimately have "ok_at (pr_raised s) {} (?R ?s1)"
        by (intro ok_atI[where rel = rel]) (use o(1,3) in auto)
      from ok_turned[OF this turned_set_drain[OF t2(1)]] have ok2: "ok_at (pr_raised s) {} (?R s2)" .
      have "ok_progress (settle_drain W v i ?d0 n s2)"
        using ok_settle[of "pr_raised s" i ?d0 s2 t2 W v n] ok2 s2(1,3) by simp
      moreover have "ok_progress (leave_drain i (True, s2))"
        using ok_end_raised[OF ok2, of i] leave_set_drain[of i True _ s2] by simp
      ultimately show ?thesis using step by simp
    next
      case True
      have fin: "tn_final t" "tn_revision t = sn_revision n" using ag True by (auto simp: agrees_def)
      have "ok_view ((dget (pr_turns s))(?k := Some t2)) (pr_next s) (pr_spawns s) (dpop i (pr_drains s)) (pr_next_task s)
          (pr_log s @ [WEdited n]) rel"
        by (rule edited_final[OF o(2) dm d(2) Some fin(1) st]) (use t2 s2(6,7) in auto)
      then have "ok_progress (leave_drain i (True, s2))"
        unfolding ok_progress_def
        by (intro ok_atI[where rel = rel]) (use s2 in \<open>auto simp: leave_drain_def end_drain_def frame_def\<close>)
      moreover have "ok_progress (abort_drain W v i d (put_turn ?k (t2\<lparr>tn_scheduled := False\<rparr>) s2))"
      proof (rule ok_abort[OF at d(1) Some, where t' = "t2\<lparr>tn_scheduled := False\<rparr>"])
        fix rel'
        assume "ok_view ((dget (pr_turns s))(?k := None)) (pr_next s) (pr_spawns s) (dpop i (pr_drains s))
            (pr_next_task s) (pr_log s) rel'"
        moreover have "dget (pr_turns s) k' = Some u" if "((dget (pr_turns s))(?k := None)) k' = Some u" for k' u
          using that by (simp split: if_split_asm)
        ultimately have "ok_view ((dget (pr_turns s))(?k := None)) (pr_next s) (pr_spawns s) (dpop i (pr_drains s))
            (pr_next_task s) (pr_log s @ [WEdited n]) rel'"
          by (intro view_edited_gone[OF o(2) dm pc]) simp_all
        then show "ok_view ((dget (pr_turns s))(?k := None)) (pr_next s) (pr_spawns s) (dpop i (pr_drains s))
            (pr_next_task s) (pr_log (put_turn ?k (t2\<lparr>tn_scheduled := False\<rparr>) s2)) rel'"
          using s2(4) by (simp add: frame_def)
      qed (use s2 t2(3) in \<open>auto simp: frame_def\<close>)
      then have "ok_progress (settle_drain W v i ?d0 n s2)"
        using s2(1,6,7) fin by (simp add: settle_drain_def abort_drain_pc)
      ultimately show ?thesis using step by simp
    qed
  qed
qed

lemma drain_step_ok:
  assumes ok: "ok_progress s" and d: "dget (pr_drains s) i = Some d"
  shows "ok_progress (drain_step W v i d out s)"
proof (cases "dr_pc d")
  case Reading
  then show ?thesis using ok_drain_read[OF ok d] by (simp add: drain_step_def)
next
  case (Profiling n)
  then show ?thesis
    using ok ok_drain_profile[OF ok d] ok_abort_same[OF ok d] by (simp add: drain_step_def split: drain_outcome.split)
next
  case (Skipping n)
  then show ?thesis using ok_drain_skip[OF ok d] by (simp add: drain_step_def)
next
  case (Claiming n wd)
  then show ?thesis using ok_drain_claim[OF ok d] by (simp add: drain_step_def)
next
  case (Sending n wd)
  then show ?thesis
    using ok ok_drain_sent[OF ok d] ok_abort_same[OF ok d] by (simp add: drain_step_def split: drain_outcome.split)
next
  case (Editing n wd a)
  then show ?thesis
    using ok ok_drain_edited[OF ok d] ok_edit_failed[OF ok d] by (simp add: drain_step_def split: drain_outcome.split)
next
  case (Pausing n wd a)
  then show ?thesis using ok_retry_edit[OF ok d] by (simp add: drain_step_def)
next
  case Backoff
  have "ok_at (pr_raised s) {} (set_drain i (d\<lparr>dr_pc := Reading\<rparr>) s)"
    by (rule ok_pause[OF progress_at[OF ok] d]) (use Backoff in auto)
  then show ?thesis using Backoff by (simp add: drain_step_def at_progress)
qed

section \<open>Every step\<close>

lemma workers_cases: "k \<in> set (workers sp ds) \<Longrightarrow> k \<in> snd ` set sp \<or> (\<exists>i d. (i, d) \<in> set ds \<and> dr_key d = k)"
  by (force simp: jobs_def)

lemma ok_run_spawn:
  assumes ok: "ok_progress s"
  shows "ok_progress (run_spawn j s)"
proof (cases "j < length (pr_spawns s)")
  case False
  then show ?thesis using ok by (simp add: run_spawn_def)
next
  case True
  let ?xs = "take j (pr_spawns s)" and ?ys = "drop (j + 1) (pr_spawns s)"
  obtain a k where ak: "pr_spawns s ! j = (a, k)" by (cases "pr_spawns s ! j")
  have sp: "pr_spawns s = ?xs @ (a, k) # ?ys" using id_take_nth_drop[OF True] ak by simp
  obtain rel where o: "wf_dict (pr_turns s)"
    "ok_view (dget (pr_turns s)) (pr_next s) (pr_spawns s) (pr_drains s) (pr_next_task s) (pr_log s) rel"
    "\<not> pr_raised s \<Longrightarrow> set rel \<subseteq> set (pr_released s)"
    "\<not> pr_raised s \<Longrightarrow> live {} (dget (pr_turns s)) (pr_spawns s) (pr_drains s) (pr_refused s)"
    using progress_at[OF ok] by (rule ok_atE) blast
  have v: "ok_view (dget (pr_turns s)) (pr_next s) (?xs @ (a, k) # ?ys) (pr_drains s) (pr_next_task s) (pr_log s) rel"
    by (subst sp[symmetric]) (rule o(2))
  have wf: "wf_dict (pr_drains s)" and dist: "distinct (workers (?xs @ (a, k) # ?ys) (pr_drains s))"
    using view_parts(2)[OF v] by (simp_all add: ok_workers_def)
  show ?thesis
  proof (cases "pr_disconnecting s a")
    case True
    have "ok_view (dget (pr_turns s)) (pr_next s) (?xs @ ?ys) (pr_drains s) (pr_next_task s) (pr_log s) rel"
    proof (rule view_fewer[OF v])
      show "distinct (workers (?xs @ ?ys) (pr_drains s))" using dist by (auto simp: jobs_def)
    qed (use wf in auto)
    moreover have "live {} (dget (pr_turns s)) (?xs @ ?ys) (pr_drains s) (sadd a (pr_refused s))" if "\<not> pr_raised s"
      unfolding live_def
    proof (intro allI impI conjI)
      fix k' t assume t: "dget (pr_turns s) k' = Some t"
      have l: "live {} (dget (pr_turns s)) (?xs @ (a, k) # ?ys) (pr_drains s) (pr_refused s)"
        using o(4)[OF that] unfolding sp[symmetric] .
      show "tn_final t \<Longrightarrow> k' \<in> {} \<or> tn_scheduled t" using l t unfolding live_def by blast
      assume "tn_scheduled t"
      then have "k' \<in> set (workers (?xs @ (a, k) # ?ys) (pr_drains s)) \<or> tn_adapter t \<in> set (pr_refused s)"
        using l t unfolding live_def by blast
      moreover have "tn_adapter t = a" if "k' = k"
        using view_parts(2)[OF v] t that unfolding ok_workers_def by (auto simp: jobs_def ok_job_def)
      ultimately show "k' \<in> set (workers (?xs @ ?ys) (pr_drains s)) \<or> tn_adapter t \<in> set (sadd a (pr_refused s))"
        by (auto simp: jobs_def)
    qed
    ultimately have "ok_at (pr_raised s) {} (s\<lparr>pr_spawns := ?xs @ ?ys, pr_refused := sadd a (pr_refused s)\<rparr>)"
      by (intro ok_atI[where rel = rel]) (use o(1,3) in auto)
    then show ?thesis
      using True \<open>j < length (pr_spawns s)\<close> ak by (simp add: run_spawn_def ok_progress_def)
  next
    case False
    let ?d = "\<lparr>dr_key = k, dr_adapter = a, dr_exhaustions = 0, dr_pc = Reading\<rparr>"
    have fresh: "pr_next_task s \<notin> fst ` set (pr_drains s)" using view_parts(2)[OF v] by (auto simp: ok_workers_def)
    then have ds: "dset (pr_next_task s) ?d (pr_drains s) = pr_drains s @ [(pr_next_task s, ?d)]"
      by (intro dset_fresh) (simp add: map_of_eq_None_iff)
    have "live {} (dget (pr_turns s)) (?xs @ ?ys) (dset (pr_next_task s) ?d (pr_drains s)) (pr_refused s)" if "\<not> pr_raised s"
    proof -
      have "live {} (dget (pr_turns s)) (?xs @ (a, k) # ?ys) (pr_drains s) (pr_refused s)"
        using o(4)[OF that] unfolding sp[symmetric] .
      moreover have "set (workers (?xs @ ?ys) (dset (pr_next_task s) ?d (pr_drains s))) =
          set (workers (?xs @ (a, k) # ?ys) (pr_drains s))"
        by (auto simp: ds jobs_def)
      ultimately show ?thesis unfolding live_def by metis
    qed
    with view_spawn[OF v] have "ok_at (pr_raised s) {}
        ((set_drain (pr_next_task s) ?d (s\<lparr>pr_spawns := ?xs @ ?ys\<rparr>))\<lparr>pr_next_task := pr_next_task s + 1\<rparr>)"
      by (intro ok_atI[where rel = rel]) (use o(1,3) in auto)
    then show ?thesis
      using False \<open>j < length (pr_spawns s)\<close> ak by (simp add: run_spawn_def ok_progress_def)
  qed
qed

lemma drop_turns_gone:
  "drop_turns W v ks s = (False, s') \<Longrightarrow> k \<in> set ks \<Longrightarrow> dget (pr_turns s') k = None"
  and drop_turns_sub: "drop_turns W v ks s = (r, s') \<Longrightarrow> dget (pr_turns s') k = Some t \<Longrightarrow> dget (pr_turns s) k = Some t"
proof -
  have drop: "dget (pr_turns s1) k = (if k = x then None else dget (pr_turns s) k)"
    if "drop_turn W v x s = (r, s1)" for x s s1 k r
  proof (cases "dget (pr_turns s) x")
    case None
    then show ?thesis using that drop_turn_none[OF None] by auto
  next
    case (Some t)
    from drop_turn_effect[OF Some that] have "pr_turns s1 = dpop x (pr_turns s)" by (metis progress.select_convs(1) progress.surjective progress.update_convs(1,3,7))
    then show ?thesis by simp
  qed
  show sub: "drop_turns W v ks s = (r, s') \<Longrightarrow> dget (pr_turns s') k = Some t \<Longrightarrow> dget (pr_turns s) k = Some t" for ks k s r t
  proof (induction ks arbitrary: s)
    case (Cons x ks)
    obtain r1 s1 where d: "drop_turn W v x s = (r1, s1)" by (cases "drop_turn W v x s")
    show ?case using Cons.prems Cons.IH[of s1] drop[OF d, of k] d by (cases r1) (auto split: if_split_asm)
  qed simp
  show "drop_turns W v ks s = (False, s') \<Longrightarrow> k \<in> set ks \<Longrightarrow> dget (pr_turns s') k = None"
  proof (induction ks arbitrary: s)
    case (Cons x ks)
    obtain r1 s1 where d: "drop_turn W v x s = (r1, s1)" by (cases "drop_turn W v x s")
    have "r1 = False" "drop_turns W v ks s1 = (False, s')" using Cons.prems(1) d by (cases r1; simp)+
    then show ?case
    proof (cases "k = x")
      case True
      then have "dget (pr_turns s1) k = None" using drop[OF d, of k] by simp
      then show ?thesis using sub[OF \<open>drop_turns W v ks s1 = (False, s')\<close>, of k] by (metis not_None_eq)
    next
      case False
      then show ?thesis using Cons.IH \<open>drop_turns W v ks s1 = (False, s')\<close> Cons.prems(2) by simp
    qed
  qed simp
qed

lemma ok_finish_adapter:
  assumes ok: "ok_progress s"
  shows "ok_progress (finish_adapter W v a s)"
proof -
  obtain r s1 where c: "cancel_adapter W v a s = (r, s1)" by (cases "cancel_adapter W v a s")
  have ok1: "ok_at (pr_raised s \<or> r) {} s1" "pr_raised s1 = pr_raised s"
    using hook_okD[OF hook_ok_cancel(2) progress_at[OF ok] c] by simp_all
  obtain rel where o: "wf_dict (pr_turns s1)"
    "ok_view (dget (pr_turns s1)) (pr_next s1) (pr_spawns s1) (pr_drains s1) (pr_next_task s1) (pr_log s1) rel"
    "\<not> (pr_raised s \<or> r) \<Longrightarrow> set rel \<subseteq> set (pr_released s1)"
    "\<not> (pr_raised s \<or> r) \<Longrightarrow> live {} (dget (pr_turns s1)) (pr_spawns s1) (pr_drains s1) (pr_refused s1)"
    using ok1(1) by (rule ok_atE) blast
  note p = view_parts(2)[OF o(2)]
  let ?ds = "filter (\<lambda>(i, d). dr_adapter d \<noteq> a) (pr_drains s1)"
  have "ok_view (dget (pr_turns s1)) (pr_next s1) (pr_spawns s1) ?ds (pr_next_task s1) (pr_log s1) rel"
  proof (rule view_fewer[OF o(2)])
    show "distinct (workers (pr_spawns s1) ?ds)"
      using p by (auto simp: ok_workers_def jobs_def comp_def distinct_map_filter image_iff)
    show "wf_dict ?ds" using p by (simp add: ok_workers_def)
  qed auto
  moreover have "live {} (dget (pr_turns s1)) (pr_spawns s1) ?ds (if r then pr_refused s1 else sdiscard a (pr_refused s1))"
    if nr: "\<not> (pr_raised s1 \<or> r)"
    unfolding live_def
  proof (intro allI impI conjI)
    fix k t assume t: "dget (pr_turns s1) k = Some t"
    have l: "live {} (dget (pr_turns s1)) (pr_spawns s1) (pr_drains s1) (pr_refused s1)" using o(4) nr ok1(2) by simp
    show "tn_final t \<Longrightarrow> k \<in> {} \<or> tn_scheduled t" using l t unfolding live_def by blast
    have other: "tn_adapter t \<noteq> a"
    proof
      assume "tn_adapter t = a"
      have "dget (pr_turns s) k = Some t" using drop_turns_sub[OF _ t] c unfolding cancel_adapter_def by blast
      then have "k \<in> set (map fst (filter (\<lambda>(k, t). tn_adapter t = a) (pr_turns s)))"
        using \<open>tn_adapter t = a\<close> by (force dest: dget_mem)
      moreover have "drop_turns W v (map fst (filter (\<lambda>(k, t). tn_adapter t = a) (pr_turns s))) s = (False, s1)"
        using c nr unfolding cancel_adapter_def by simp
      ultimately have "dget (pr_turns s1) k = None" using drop_turns_gone by blast
      then show False using t by simp
    qed
    assume "tn_scheduled t"
    then consider "k \<in> snd ` set (pr_spawns s1)" | i d where "(i, d) \<in> set (pr_drains s1)" "dr_key d = k"
      | "tn_adapter t \<in> set (pr_refused s1)"
      using l t workers_cases[of k "pr_spawns s1" "pr_drains s1"] unfolding live_def by blast
    then show "k \<in> set (workers (pr_spawns s1) ?ds) \<or> tn_adapter t \<in> set (if r then pr_refused s1 else sdiscard a (pr_refused s1))"
    proof cases
      case 2
      have "(dr_adapter d, dr_key d) \<in> set (jobs (pr_spawns s1) (pr_drains s1))" using 2(1) by (force simp: jobs_def)
      then have "ok_job (dget (pr_turns s1)) (dr_adapter d, dr_key d)" using p by (simp add: ok_workers_def)
      then have "dr_adapter d = tn_adapter t" using t 2(2) by (simp add: ok_job_def)
      then have "(i, d) \<in> set ?ds" using 2(1) other by simp
      from drain_worker[OF this] show ?thesis using 2(2) by simp
    qed (use other in \<open>auto simp: jobs_def\<close>)
  qed
  ultimately show ?thesis
    unfolding finish_adapter_def c prod.case Let_def ok_progress_def
    by (intro ok_atI[where rel = rel]) (use o(1,3) ok1(2) in \<open>auto split: if_split_asm\<close>)
qed

lemma progress_step_ok:
  assumes ok: "ok_progress s" and tidy: "\<not> restarts e s"
  shows "ok_progress (progress_step W v e s)"
proof (cases e)
  case (Hook h)
  obtain r s' where h: "run_hook W v h s = (r, s')" by (cases "run_hook W v h s")
  have "ok_at (pr_raised s \<or> r) {} s' \<and> pr_raised s' = pr_raised s"
    using hook_okD[OF run_hook_ok progress_at[OF ok] h] tidy Hook by blast
  then show ?thesis using Hook h by (simp add: ok_progress_def ok_at_def)
next
  case (Spawn j)
  then show ?thesis using ok_run_spawn[OF ok] by simp
next
  case (Drain i out)
  then show ?thesis using ok drain_step_ok[OF ok] by (simp split: option.split)
next
  case (FinishAdapter a)
  then show ?thesis using ok_finish_adapter[OF ok] by simp
next
  case (Connectivity a disc http loop)
  then show ?thesis using ok by (simp add: ok_progress_def ok_at_def)
qed

end
