(* ===== verification/ProgressSafety.thy ===== *)
theory ProgressSafety
  imports ProgressDrains
begin

text \<open>
  What the progress controller guarantees in every state it can reach: a card is sent once and
  edited in order, what is to be shown is pursued, the barrier of a turn is released, and a drain
  that is left alone ends. The runs (\<open>progress_run\<close>) have no restarts: they exclude one situation,
  in which the code does go wrong, a turn that begins under the name of one that was dropped while
  its drain was still waiting.
\<close>

section \<open>Runs\<close>

inductive progress_run :: "progress_world \<Rightarrow> (nat \<Rightarrow> registry) \<Rightarrow> progress \<Rightarrow> bool" for W regs where
  start: "progress_run W regs (new_progress regs)"
| step: "progress_run W regs s \<Longrightarrow> \<not> restarts e s \<Longrightarrow> progress_run W regs (progress_step W v e s)"

lemma progress_run_ok: "progress_run W regs s \<Longrightarrow> ok_progress s"
  by (induction rule: progress_run.induct) (auto intro: ok_new_at progress_step_ok)

text \<open>
  C37. What a turn puts on the wire is in order, in runs without restarts. Whatever the hooks,
  adapters, drains and answers do, as long as no turn begins under the name of a dropped one whose
  drain still waits, its card is sent at most once, though several drains may have served it; each
  edit has at least the sequence number and the revision of the edits before it, and a larger
  number than every edit that was acknowledged; and after the final edit was acknowledged nothing
  is edited any more.
\<close>

theorem progress_wire_in_order:
  assumes "progress_run W regs s"
  shows "distinct (sent_turns (pr_log s)) \<and>
    (\<forall>xs n a ys. pr_log s = xs @ WEdit n a # ys \<longrightarrow>
       (\<forall>m b. WEdit m b \<in> set xs \<longrightarrow> sn_turn m = sn_turn n \<longrightarrow>
          sn_seq m \<le> sn_seq n \<and> sn_revision m \<le> sn_revision n) \<and>
       (\<forall>m. WEdited m \<in> set xs \<longrightarrow> sn_turn m = sn_turn n \<longrightarrow> sn_seq m < sn_seq n \<and> \<not> sn_final m))"
proof -
  obtain rel where v: "ok_view (dget (pr_turns s)) (pr_next s) (pr_spawns s) (pr_drains s) (pr_next_task s) (pr_log s) rel"
    using progress_at[OF progress_run_ok[OF assms]] by (rule ok_atV)
  have order: "\<forall>x\<in>set xs. behind_snapshot n x" if "pr_log s = xs @ WEdit n a # ys" for xs n a ys
    using view_parts(5)[OF v] that unfolding ok_log_def by (auto simp: sorted_wrt_append)
  show ?thesis
  proof (intro conjI allI impI)
    show "distinct (sent_turns (pr_log s))" using view_parts(4)[OF v] by (simp add: ok_sent_def)
    fix xs n a ys m b assume h: "pr_log s = xs @ WEdit n a # ys" "WEdit m b \<in> set xs" "sn_turn m = sn_turn n"
    show "sn_seq m \<le> sn_seq n" "sn_revision m \<le> sn_revision n" using order[OF h(1)] h(2,3) by fastforce+
  next
    fix xs n a ys m assume h: "pr_log s = xs @ WEdit n a # ys" "WEdited m \<in> set xs" "sn_turn m = sn_turn n"
    show "sn_seq m < sn_seq n" "\<not> sn_final m" using order[OF h(1)] h(2,3) by fastforce+
  qed
qed

text \<open>
  C38. What is to be shown is pursued, in runs without restarts (no turn begins under the name of a
  dropped one whose drain still waits). As long as no operation of the card registry has raised,
  every turn that is scheduled, and every final turn that is still in the table, has a drain, or a
  spawn of one, on its own adapter, unless that adapter has refused a spawn while disconnecting;
  so no card is left in the state of a running turn because its last update was forgotten.
\<close>

theorem progress_is_pursued:
  assumes "progress_run W regs s" "\<not> pr_raised s"
    and "dget (pr_turns s) k = Some t" "tn_final t \<or> tn_scheduled t"
  shows "(tn_adapter t, k) \<in> set (pr_spawns s) \<or>
    (\<exists>i d. dget (pr_drains s) i = Some d \<and> dr_key d = k \<and> dr_adapter d = tn_adapter t) \<or>
    tn_adapter t \<in> set (pr_refused s)"
proof -
  obtain rel where o:
    "ok_view (dget (pr_turns s)) (pr_next s) (pr_spawns s) (pr_drains s) (pr_next_task s) (pr_log s) rel"
    "live {} (dget (pr_turns s)) (pr_spawns s) (pr_drains s) (pr_refused s)"
    using progress_at[OF progress_run_ok[OF assms(1)]] assms(2) unfolding ok_at_def ok_state_def by blast
  note p = view_parts(2)[OF o(1)]
  have "tn_scheduled t" using o(2) assms(3,4) unfolding live_def by blast
  then consider "k \<in> snd ` set (pr_spawns s)" | i d where "(i, d) \<in> set (pr_drains s)" "dr_key d = k"
    | "tn_adapter t \<in> set (pr_refused s)"
    using o(2) assms(3) workers_cases[of k "pr_spawns s" "pr_drains s"] unfolding live_def by blast
  then show ?thesis
  proof cases
    case 1
    then obtain a where a: "(a, k) \<in> set (pr_spawns s)" by auto
    then have "ok_job (dget (pr_turns s)) (a, k)" using p by (auto simp: ok_workers_def jobs_def)
    then show ?thesis using a assms(3) by (auto simp: ok_job_def)
  next
    case 2
    have "ok_job (dget (pr_turns s)) (dr_adapter d, dr_key d)"
      using p 2(1) by (force simp: ok_workers_def jobs_def)
    then have "dr_adapter d = tn_adapter t" using 2(2) assms(3) by (simp add: ok_job_def)
    moreover have "dget (pr_drains s) i = Some d" using p 2(1) dget_iff_mem by (auto simp: ok_workers_def)
    ultimately show ?thesis using 2(2) by blast
  qed blast
qed

text \<open>
  C39. Nobody waits for a card that will not come, in runs without restarts (no turn begins under
  the name of a dropped one whose drain still waits) and as long as no operation of the card
  registry has raised. The barrier of a turn, which holds back the answer of the agent until the
  progress card is on the wire, is open as soon as the card was sent or the turn has left the
  table, whichever way it did. (A turn whose drop raises in the registry leaves its barrier closed.)
\<close>

theorem barrier_is_released:
  assumes "progress_run W regs s" "\<not> pr_raised s" "i < pr_next s" "i \<notin> set (pr_released s)"
  shows "\<exists>k t. dget (pr_turns s) k = Some t \<and> tn_id t = i \<and> tn_message t = None"
proof -
  obtain rel where o:
    "ok_view (dget (pr_turns s)) (pr_next s) (pr_spawns s) (pr_drains s) (pr_next_task s) (pr_log s) rel"
    "set rel \<subseteq> set (pr_released s)"
    using progress_at[OF progress_run_ok[OF assms(1)]] assms(2) unfolding ok_at_def ok_state_def by blast
  show ?thesis using view_parts(6)[OF o(1)] o(2) assms(3,4) unfolding ok_released_def by blast
qed

section \<open>A drain alone\<close>

fun awaited :: "drain_pc \<Rightarrow> drain_outcome \<Rightarrow> bool" where
  \<comment> \<open>how the await of a drain may end\<close>
  "awaited (Profiling n) (GotManifest m) = True"
| "awaited (Profiling n) (Failed e) = True"
| "awaited (Sending n wd) (GotMessage mid) = True"
| "awaited (Sending n wd) (Failed e) = True"
| "awaited (Editing n wd a) Applied = True"
| "awaited (Editing n wd a) (Failed e) = True"
| "awaited Reading Awoken = True"
| "awaited (Skipping n) Awoken = True"
| "awaited (Claiming n wd) Awoken = True"
| "awaited (Pausing n wd a) Awoken = True"
| "awaited Backoff Awoken = True"
| "awaited _ _ = False"

fun drain_alone :: "progress_world \<Rightarrow> nat \<Rightarrow> (env \<times> drain_outcome) list \<Rightarrow> progress \<Rightarrow> progress" where
  "drain_alone W i [] s = s"
| "drain_alone W i ((v, out) # xs) s = drain_alone W i xs (progress_step W v (Drain i out) s)"

fun answered :: "progress_world \<Rightarrow> nat \<Rightarrow> (env \<times> drain_outcome) list \<Rightarrow> progress \<Rightarrow> bool" where
  \<comment> \<open>every await is answered, however\<close>
  "answered W i [] s = True"
| "answered W i ((v, out) # xs) s =
     ((case dget (pr_drains s) i of None \<Rightarrow> True | Some d \<Rightarrow> awaited (dr_pc d) out) \<and>
      answered W i xs (progress_step W v (Drain i out) s))"

definition settled :: "pkey \<Rightarrow> progress \<Rightarrow> bool" where
  \<comment> \<open>the turn is gone, or nothing of it is left to show\<close>
  "settled k s \<longleftrightarrow>
     (case dget (pr_turns s) k of
        None \<Rightarrow> True
      | Some t \<Rightarrow> \<not> tn_scheduled t \<and> \<not> tn_final t \<and> tn_delivered t = int (tn_revision t))"

definition rests :: "pkey \<Rightarrow> progress \<Rightarrow> bool" where
  "rests k s \<longleftrightarrow> pr_raised s \<or> settled k s"

fun on_turn :: "drain_pc \<Rightarrow> nat \<Rightarrow> pturn \<Rightarrow> bool" where
  \<comment> \<open>the drain has read the turn as it is\<close>
  "on_turn Reading e t = True"
| "on_turn (Profiling n) e t = (sn_turn n = tn_id t)"
| "on_turn (Skipping n) e t = (sn_turn n = tn_id t \<and> sn_revision n = tn_revision t \<and> tn_mode t \<noteq> None)"
| "on_turn (Claiming n wd) e t = (sn_turn n = tn_id t \<and> sn_revision n = tn_revision t \<and> tn_mode t \<noteq> None)"
| "on_turn (Sending n wd) e t = (sn_turn n = tn_id t \<and> sn_revision n = tn_revision t \<and> tn_mode t \<noteq> None)"
| "on_turn (Editing n wd a) e t = (sn_turn n = tn_id t \<and> sn_revision n = tn_revision t \<and> tn_mode t \<noteq> None)"
| "on_turn (Pausing n wd a) e t = (sn_turn n = tn_id t \<and> sn_revision n = tn_revision t \<and> tn_mode t \<noteq> None)"
| "on_turn Backoff e t = (tn_mode t \<noteq> None)"

fun attempt_ok :: "drain_pc \<Rightarrow> nat \<Rightarrow> bool" where
  "attempt_ok (Editing n wd a) e = (a \<le> 2)"
| "attempt_ok (Pausing n wd a) e = (a < 2)"
| "attempt_ok Backoff e = (e > 0)"
| "attempt_ok _ e = True"

definition on_track :: "progress \<Rightarrow> drain \<Rightarrow> bool" where
  "on_track s d \<longleftrightarrow> attempt_ok (dr_pc d) (dr_exhaustions d) \<and>
     (case dget (pr_turns s) (dr_key d) of None \<Rightarrow> True | Some t \<Rightarrow> on_turn (dr_pc d) (dr_exhaustions d) t)"

fun steps_left :: "bool \<Rightarrow> drain_pc \<Rightarrow> nat" where
  \<comment> \<open>at most, until the drain ends or gives up an edit; the flag: the manifest is still to be read\<close>
  "steps_left p Reading = (if p then 8 else 6)"
| "steps_left p (Profiling n) = 7"
| "steps_left p (Skipping n) = 1"
| "steps_left p (Claiming n wd) = 5"
| "steps_left p (Sending n wd) = 4"
| "steps_left p (Editing n wd a) = 5 - 2 * a"
| "steps_left p (Pausing n wd a) = 4 - 2 * a"
| "steps_left p Backoff = 7"

definition drain_measure :: "progress \<Rightarrow> drain \<Rightarrow> nat" where
  "drain_measure s d =
     steps_left (case dget (pr_turns s) (dr_key d) of None \<Rightarrow> False | Some t \<Rightarrow> tn_mode t = None) (dr_pc d) +
     (if dr_exhaustions d = 0 then 7 else 0)"

definition drain_advances :: "nat \<Rightarrow> drain \<Rightarrow> progress \<Rightarrow> progress \<Rightarrow> bool" where
  "drain_advances i d s s' \<longleftrightarrow>
     (dget (pr_drains s') i = None \<and> rests (dr_key d) s') \<or>
     (\<exists>d'. dget (pr_drains s') i = Some d' \<and> dr_key d' = dr_key d \<and> on_track s' d' \<and>
        drain_measure s' d' < drain_measure s d)"

lemma advances_end:
  "rests (dr_key d) s' \<Longrightarrow> drain_advances i d s (end_drain i s')"
  by (simp add: drain_advances_def end_drain_def rests_def settled_def split: option.splits)

lemma rests_raised: "rests k (s\<lparr>pr_raised := True\<rparr>)"
  by (simp add: rests_def settled_def)

lemma advances_abort: "drain_advances i d s (abort_drain W v i d s1)"
proof -
  obtain r s2 where op: "drop_turn W v (dr_key d) s1 = (r, s2)" by (cases "drop_turn W v (dr_key d) s1")
  have "dget (pr_turns s2) (dr_key d) = None"
  proof (cases "dget (pr_turns s1) (dr_key d)")
    case None
    then show ?thesis using op drop_turn_none[OF None] by auto
  next
    case (Some t)
    from drop_turn_effect[OF Some op] obtain reg rl where "s2 = s1\<lparr>pr_turns := dpop (dr_key d) (pr_turns s1), pr_registry := reg, pr_released := rl\<rparr>"
      by blast
    then show ?thesis by simp
  qed
  then show ?thesis
    unfolding abort_drain_def leave_drain_def op by (intro advances_end) (simp add: rests_def settled_def)
qed

lemma advances_set:
  assumes "dr_key d' = dr_key d" "on_track s1 d'" "drain_measure s1 d' < drain_measure s d"
  shows "drain_advances i d s (set_drain i d' s1)"
  using assms unfolding drain_advances_def on_track_def drain_measure_def by simp

lemma advances_log: "drain_advances i d s s1 \<Longrightarrow> drain_advances i d s (log_wire x s1)"
  unfolding drain_advances_def on_track_def drain_measure_def rests_def settled_def by simp

lemma current_on_track:
  assumes "on_track s d" "pc_snapshot (dr_pc d) = Some n"
  shows "current_turn d n s = dget (pr_turns s) (dr_key d)"
  using assms unfolding on_track_def current_turn_def by (cases "dr_pc d") (auto split: option.splits)

lemma on_track_turn:
  "on_track s d \<Longrightarrow> dget (pr_turns s) (dr_key d) = Some t \<Longrightarrow> on_turn (dr_pc d) (dr_exhaustions d) t"
  by (simp add: on_track_def)

lemma advances_gone: "dget (pr_turns s1) (dr_key d) = None \<Longrightarrow> drain_advances i d s (end_drain i s1)"
  by (rule advances_end) (simp add: rests_def settled_def)

lemma advances_settle:
  assumes t: "dget (pr_turns s1) (dr_key d) = Some t" "tn_revision t = sn_revision n" "tn_delivered t = int (sn_revision n)"
    and d0: "dr_key d0 = dr_key d"
  shows "drain_advances i d s (settle_drain W v i d0 n s1)"
proof -
  have "abort_drain W v i d0 s' = abort_drain W v i d s'" for s' by (simp add: abort_drain_def d0)
  then show ?thesis
    using t d0 advances_abort[of i d s W v]
    by (auto simp: settle_drain_def Let_def rests_def settled_def intro!: advances_end)
qed

lemma advances_leave: "drain_advances i d s (leave_drain i (True, s1))"
  unfolding leave_drain_def by (rule advances_end) (simp add: rests_def settled_def)

lemma advances_read:
  assumes pc: "dr_pc d = Reading"
  shows "drain_advances i d s (drain_read W v i d s)"
proof (cases "dget (pr_turns s) (dr_key d)")
  case None
  then show ?thesis using advances_gone by (simp add: drain_read_def)
next
  case (Some t)
  let ?n = "take_snapshot (t_now v) t"
  have n: "sn_turn ?n = tn_id t" "sn_revision ?n = tn_revision t" "sn_mode ?n = tn_mode t"
    by (simp_all add: take_snapshot_def)
  have look: "drain_advances i d s (set_drain i (d\<lparr>dr_pc := q\<rparr>) s)"
    if "attempt_ok q (dr_exhaustions d)" "on_turn q (dr_exhaustions d) t"
      "steps_left (tn_mode t = None) q < (if tn_mode t = None then 8 else 6)" for q
    by (rule advances_set) (use that Some pc in \<open>auto simp: on_track_def drain_measure_def\<close>)
  have edit: "drain_advances i d s (start_edit W v i d ?n wd s)" if "tn_mode t \<noteq> None" for wd
    using look[of "Editing ?n wd 0"] that n advances_abort advances_log by (simp add: start_edit_def)
  have claim: "drain_advances i d s (set_drain i (d\<lparr>dr_pc := Claiming ?n wd\<rparr>) s)" if "tn_mode t \<noteq> None" for wd
    using look[of "Claiming ?n wd"] that n by simp
  have skip: "drain_advances i d s (set_drain i (d\<lparr>dr_pc := Skipping ?n\<rparr>) s)" if "tn_mode t \<noteq> None"
    using look[of "Skipping ?n"] that n by simp
  show ?thesis
  proof (cases "pr_disconnecting s (tn_adapter t) \<or> \<not> pr_http s (tn_adapter t)")
    case True
    then show ?thesis using advances_abort unfolding drain_read_def Some option.case by (simp only: if_True)
  next
    case False
    show ?thesis
    proof (cases "tn_mode t")
      case None
      then show ?thesis
        using look[of "Profiling ?n"] n unfolding drain_read_def Some option.case Let_def if_not_P[OF False] by simp
    next
      case mode: (Some m)
      then have m: "tn_mode t \<noteq> None" by simp
      show ?thesis
      proof (cases "sn_tools ?n = []")
        case True
        then show ?thesis
          using skip[OF m] mode n unfolding drain_read_def Some option.case Let_def if_not_P[OF False] by simp
      next
        case tools: False
        have wire: "drain_advances i d s (if sn_message ?n = None then set_drain i (d\<lparr>dr_pc := Claiming ?n wd\<rparr>) s
            else start_edit W v i d ?n wd s)" for wd
          using claim[OF m] edit[OF m] by simp
        show ?thesis
          unfolding drain_read_def Some option.case Let_def if_not_P[OF False] n(3) mode if_not_P[OF tools]
          using wire skip[OF m] advances_abort
          by (cases m) (auto simp del: if_split split: sum.split option.split)
      qed
    qed
  qed
qed

lemma advances_sent:
  assumes ok: "ok_progress s" and tr: "on_track s d" and pc: "dr_pc d = Sending n wd"
  shows "drain_advances i d s (drain_sent W v i d n wd mid s)"
proof (cases "dget (pr_turns s) (dr_key d)")
  case None
  then show ?thesis using current_on_track[OF tr, of n] pc advances_gone[of s d i s] by (simp add: drain_sent_def)
next
  case (Some t)
  let ?k = "dr_key d" and ?t = "t\<lparr>tn_send_started := False, tn_message := Some mid\<rparr>"
  let ?s1 = "release_barrier (tn_id t) (put_turn ?k ?t s)"
  have wf1: "wf_dict (pr_turns ?s1)" using progress_at[OF ok] by (auto simp: ok_at_def release_barrier_def)
  have t1: "dget (pr_turns ?s1) ?k = Some ?t" by (simp add: release_barrier_def)
  have rev: "tn_revision t = sn_revision n" using on_track_turn[OF tr Some] pc by simp
  obtain raised s2 where sy: "(case (tn_mode t, wd) of
        (Some RegistryMode, Some w) \<Rightarrow> sync_reasoning_card_session W v ?k (wd_state w) (tn_final t) ?s1
      | _ \<Rightarrow> (False, ?s1)) = (raised, s2)" by fastforce
  have "\<exists>t'. dget (pr_turns s2) ?k = Some t' \<and> tn_revision t' = tn_revision t"
  proof (cases "\<exists>w. tn_mode t = Some RegistryMode \<and> wd = Some w")
    case True
    then obtain w where "tn_mode t = Some RegistryMode" "wd = Some w" by blast
    then have "sync_reasoning_card_session W v ?k (wd_state w) (tn_final t) ?s1 = (raised, s2)" using sy by simp
    from sync_turned[OF wf1 t1 this] show ?thesis using t1 by (auto simp: turned_def)
  next
    case False
    then have "s2 = ?s1" using sy by (auto split: option.splits delivery.splits)
    then show ?thesis using t1 by simp
  qed
  then obtain t2 where t2: "dget (pr_turns s2) ?k = Some t2" "tn_revision t2 = sn_revision n" using rev by auto
  have "drain_sent W v i d n wd mid s =
      (if raised then abort_drain W v i d s2 else settle_drain W v i d n (set_delivered ?k (sn_revision n) s2))"
    using sy current_on_track[OF tr, of n] pc Some unfolding drain_sent_def by (simp add: Let_def split: prod.splits)
  moreover have "drain_advances i d s (settle_drain W v i d n (set_delivered ?k (sn_revision n) s2))"
    by (rule advances_settle[where t = "t2\<lparr>tn_delivered := int (sn_revision n)\<rparr>"]) (use t2 in \<open>simp_all add: set_delivered_def\<close>)
  ultimately show ?thesis using advances_abort by simp
qed

lemma advances_edited:
  assumes ok: "ok_progress s" and tr: "on_track s d" and pc: "dr_pc d = Editing n wd a"
  shows "drain_advances i d s (drain_edited W v i d n wd (log_wire x s))"
proof -
  let ?k = "dr_key d" and ?l = "log_wire x s"
  have cur: "current_turn d n ?l = dget (pr_turns s) ?k"
    using current_on_track[OF tr, of n] pc by (simp add: current_turn_def)
  show ?thesis
  proof (cases "dget (pr_turns s) ?k")
    case None
    then show ?thesis using cur advances_gone[of ?l d i s] by (simp add: drain_edited_def)
  next
    case (Some t)
    let ?t = "t\<lparr>tn_seq := sn_seq n, tn_delivered := int (sn_revision n)\<rparr>"
    let ?s1 = "put_turn ?k ?t ?l"
    have wf1: "wf_dict (pr_turns ?s1)" using progress_at[OF ok] by (auto simp: ok_at_def)
    have t1: "dget (pr_turns ?s1) ?k = Some ?t" by simp
    have rev: "tn_revision t = sn_revision n" using on_track_turn[OF tr Some] pc by simp
    obtain raised s2 where sy: "(case (tn_mode t, wd) of
          (Some RegistryMode, Some w) \<Rightarrow>
            if tn_final t then sync_reasoning_card_session W v ?k (wd_state w) True ?s1 else (False, ?s1)
        | _ \<Rightarrow> (False, ?s1)) = (raised, s2)" by fastforce
    have "\<exists>t'. dget (pr_turns s2) ?k = Some t' \<and> tn_revision t' = tn_revision t \<and> tn_delivered t' = tn_delivered ?t"
    proof (cases "\<exists>w. tn_mode t = Some RegistryMode \<and> wd = Some w \<and> tn_final t")
      case True
      then obtain w where "tn_mode t = Some RegistryMode" "wd = Some w" "tn_final t" by blast
      then have "sync_reasoning_card_session W v ?k (wd_state w) True ?s1 = (raised, s2)" using sy by simp
      from sync_turned[OF wf1 t1 this] show ?thesis using t1 by (auto simp: turned_def)
    next
      case False
      then have "s2 = ?s1" using sy by (auto split: option.splits delivery.splits if_splits)
      then show ?thesis by simp
    qed
    then obtain t2 where t2: "dget (pr_turns s2) ?k = Some t2" "tn_revision t2 = sn_revision n"
      "tn_delivered t2 = int (sn_revision n)" using rev by auto
    have "drain_edited W v i d n wd ?l =
        (if raised then leave_drain i (True, s2) else settle_drain W v i (d\<lparr>dr_exhaustions := 0\<rparr>) n s2)"
      using sy cur Some unfolding drain_edited_def by (simp add: Let_def split: prod.splits)
    moreover have "drain_advances i d s (settle_drain W v i (d\<lparr>dr_exhaustions := 0\<rparr>) n s2)"
      by (rule advances_settle[OF t2]) simp
    ultimately show ?thesis using advances_leave by simp
  qed
qed

lemma advances_edit_failed:
  assumes tr: "on_track s d" and pc: "dr_pc d = Editing n wd a"
  shows "drain_advances i d s (edit_failed W v i d n wd a e s)"
proof -
  have "drain_advances i d s (set_drain i (d\<lparr>dr_pc := Pausing n wd a\<rparr>) s)" if "a < 2"
    by (rule advances_set) (use that pc tr in \<open>auto simp: on_track_def drain_measure_def split: option.splits\<close>)
  moreover have "drain_advances i d s (set_drain i (d\<lparr>dr_exhaustions := dr_exhaustions d + 1, dr_pc := Backoff\<rparr>) s)"
    if "\<not> a < 2" "\<not> dr_exhaustions d + 1 \<ge> MAX_PROGRESS_EDIT_EXHAUSTIONS"
    by (rule advances_set)
      (use that pc tr in \<open>auto simp: on_track_def drain_measure_def MAX_PROGRESS_EDIT_EXHAUSTIONS_def split: option.splits\<close>)
  ultimately show ?thesis using advances_abort by (simp add: edit_failed_def)
qed

lemma advances_step:
  assumes ok: "ok_progress s" and tr: "on_track s d" and aw: "awaited (dr_pc d) out"
  shows "drain_advances i d s (drain_step W v i d out s)"
proof (cases "dr_pc d")
  case Reading
  then show ?thesis using advances_read by (simp add: drain_step_def)
next
  case (Profiling n)
  note cur = current_on_track[OF tr, of n]
  have set: "drain_advances i d s (set_drain i (d\<lparr>dr_pc := Reading\<rparr>) (put_turn (dr_key d) t s))"
    if "tn_mode t \<noteq> None" for t
    by (rule advances_set) (use that Profiling in \<open>auto simp: on_track_def drain_measure_def\<close>)
  have "drain_advances i d s (drain_profile W v i d n m s)" for m
    using cur Profiling set advances_abort advances_gone[of s d i s]
    by (cases "dget (pr_turns s) (dr_key d)"; cases "derive_card_capabilities m")
      (simp_all add: drain_profile_def Let_def)
  then show ?thesis using Profiling aw advances_abort by (cases out) (simp_all add: drain_step_def)
next
  case (Skipping n)
  note cur = current_on_track[OF tr, of n]
  have "drain_advances i d s (drain_skip W v i d n s)"
  proof (cases "dget (pr_turns s) (dr_key d)")
    case None
    then show ?thesis using cur Skipping advances_gone[of s d i s] by (simp add: drain_skip_def)
  next
    case (Some t)
    then show ?thesis
      using cur Skipping on_track_turn[OF tr Some] advances_abort
      by (auto simp: drain_skip_def Let_def rests_def settled_def intro!: advances_end)
  qed
  then show ?thesis using Skipping by (simp add: drain_step_def)
next
  case (Claiming n wd)
  note cur = current_on_track[OF tr, of n]
  have "drain_advances i d s (drain_claim W v i d n wd s)"
  proof (cases "dget (pr_turns s) (dr_key d)")
    case None
    then show ?thesis using cur Claiming advances_gone[of s d i s] by (simp add: drain_claim_def)
  next
    case (Some t)
    let ?t = "t\<lparr>tn_send_started := True\<rparr>"
    have "drain_advances i d s (set_drain i (d\<lparr>dr_pc := Sending n wd\<rparr>) (put_turn (dr_key d) ?t s))"
      by (rule advances_set)
        (use Claiming on_track_turn[OF tr Some] Some in \<open>auto simp: on_track_def drain_measure_def\<close>)
    then show ?thesis
      using cur Claiming Some advances_abort advances_log by (simp add: drain_claim_def Let_def)
  qed
  then show ?thesis using Claiming by (simp add: drain_step_def)
next
  case (Sending n wd)
  show ?thesis
    using Sending aw advances_sent[OF ok tr Sending] advances_abort by (cases out) (simp_all add: drain_step_def)
next
  case (Editing n wd a)
  show ?thesis
    using Editing aw advances_edited[OF ok tr Editing] advances_edit_failed[OF tr Editing]
    by (cases out) (simp_all add: drain_step_def)
next
  case (Pausing n wd a)
  have "drain_advances i d s (set_drain i (d\<lparr>dr_pc := Editing n wd (a + 1)\<rparr>) s)"
    by (rule advances_set) (use Pausing tr in \<open>auto simp: on_track_def drain_measure_def split: option.splits\<close>)
  then show ?thesis using Pausing advances_log by (simp add: drain_step_def)
next
  case Backoff
  have "drain_advances i d s (set_drain i (d\<lparr>dr_pc := Reading\<rparr>) s)"
    by (rule advances_set) (use Backoff tr in \<open>auto simp: on_track_def drain_measure_def split: option.splits\<close>)
  then show ?thesis using Backoff by (simp add: drain_step_def)
qed


lemma progress_drain_ok: "ok_progress s \<Longrightarrow> ok_progress (progress_step W v (Drain i out) s)"
  by (rule progress_step_ok) auto

lemma drain_alone_gone: "dget (pr_drains s) i = None \<Longrightarrow> drain_alone W i xs s = s"
  by (induction xs) auto

lemma drain_alone_settles:
  assumes "ok_progress s" "dget (pr_drains s) i = Some d" "on_track s d" "answered W i xs s"
    "drain_measure s d < length xs"
  shows "dget (pr_drains (drain_alone W i xs s)) i = None \<and> rests (dr_key d) (drain_alone W i xs s)"
  using assms
proof (induction xs arbitrary: s d)
  case (Cons x xs)
  obtain v out where x: "x = (v, out)" by (cases x)
  let ?s = "progress_step W v (Drain i out) s"
  have step: "?s = drain_step W v i d out s" using Cons.prems(2) by simp
  have aw: "awaited (dr_pc d) out" "answered W i xs ?s" using Cons.prems(2,4) x by auto
  have ok: "ok_progress ?s" by (rule progress_drain_ok[OF Cons.prems(1)])
  have "drain_advances i d s ?s" unfolding step by (rule advances_step[OF Cons.prems(1,3) aw(1)])
  then show ?case
    unfolding drain_advances_def x drain_alone.simps
  proof (elim disjE exE conjE)
    assume "dget (pr_drains ?s) i = None" "rests (dr_key d) ?s"
    then show "dget (pr_drains (drain_alone W i xs ?s)) i = None \<and> rests (dr_key d) (drain_alone W i xs ?s)"
      using drain_alone_gone[of ?s i W xs] by (simp only: simp_thms)
  next
    fix d' assume d': "dget (pr_drains ?s) i = Some d'" "dr_key d' = dr_key d" "on_track ?s d'"
      "drain_measure ?s d' < drain_measure s d"
    have "dget (pr_drains (drain_alone W i xs ?s)) i = None \<and> rests (dr_key d') (drain_alone W i xs ?s)"
      by (rule Cons.IH[OF ok d'(1,3) aw(2)]) (use d'(4) Cons.prems(5) in simp)
    then show "dget (pr_drains (drain_alone W i xs ?s)) i = None \<and> rests (dr_key d) (drain_alone W i xs ?s)"
      unfolding d'(2) .
  qed
qed simp

text \<open>
  C40. A drain terminates. From any state reached without restarts (no turn begins under the name
  of a dropped one whose drain still waits), a drain at the head of its loop ends within 16 steps if
  nothing else happens and every await is answered, however: with a manifest, a receipt, an
  acknowledgement or any failure. Then, unless an operation of the card registry has raised, before
  or while the drain ran, its turn has been dropped, or is not scheduled any more, not final, and
  its latest revision is the one delivered. (When the registry raises the drain still ends, but it
  may leave its turn scheduled.)
\<close>

theorem drain_terminates:
  assumes "progress_run W regs s" "dget (pr_drains s) i = Some d" "dr_pc d = Reading"
    and "answered W i xs s" "16 \<le> length xs"
  shows "dget (pr_drains (drain_alone W i xs s)) i = None \<and>
    (pr_raised (drain_alone W i xs s) \<or> settled (dr_key d) (drain_alone W i xs s))"
proof -
  have "dget (pr_drains (drain_alone W i xs s)) i = None \<and> rests (dr_key d) (drain_alone W i xs s)"
  proof (rule drain_alone_settles[OF progress_run_ok[OF assms(1)] assms(2) _ assms(4)])
    show "on_track s d" using assms(3) by (simp add: on_track_def split: option.split)
    show "drain_measure s d < length xs" using assms(3,5) by (simp add: drain_measure_def split: option.split)
  qed
  then show ?thesis unfolding rests_def .
qed

section \<open>An example\<close>

definition example_words :: card_text where
  "example_words =
     \<lparr>ct_safe_label = id, ct_shown_label = (\<lambda>n a. n), ct_summary = (\<lambda>n a. []), ct_error = (\<lambda>e. []),
      ct_result = (\<lambda>n r. []), ct_thought = id, ct_action = (\<lambda>p. Inr JNull)\<rparr>"

definition example_progress_world :: progress_world where
  "example_progress_world =
     \<lparr>pw_text = example_words, pw_card = (\<lambda>ph ts e r c. Inr JNull), pw_on_behalf_of = (\<lambda>a. None),
      pw_renderer = (\<lambda>a. ''card''), pw_robot_id = (\<lambda>a. ''bot''), pw_configured = True,
      pw_checksum = (\<lambda>_. [])\<rparr>"

definition example_key :: pkey where "example_key = (''s'', ''t'', 0)"

fun example_run :: "progress_event list \<Rightarrow> progress" where
  "example_run [] = new_progress (\<lambda>_. example_registry)"
| "example_run (e # es) = progress_step example_progress_world example_times e (example_run es)"

definition example_begun :: "progress_event list" where
  "example_begun =
     [Hook (ToolStarted ''s'' ''t'' ''c1'' ''bash'' JNull), Hook (BeginTurn 0 example_route ''s'' ''t'')]"

lemma begun: "example_run example_begun =
  (new_progress (\<lambda>_. example_registry))\<lparr>
    pr_turns := [(example_key,
      (new_turn 0 0 example_route ''s'' ''t'' 0 0)\<lparr>
        tn_tools := [(''c1'', new_tool ''c1'' ''bash'' ''bash'' [] 0)], tn_phase := ''tool'', tn_revision := 1,
        tn_scheduled := True\<rparr>)],
    pr_next := 1, pr_spawns := [(0, example_key)]\<rparr>"
  by (simp add: example_begun_def new_progress_def begin_turn_def tool_started_def with_turn_def find_key_def
      open_keys_def max_segment_def schedule_locked_def put_turn_def new_turn_def example_key_def Let_def
      has_real_tool_def real_step_def schedule_progress_def new_tool_def example_words_def
      example_progress_world_def example_times_def segment_of_def THINKING_def CARD_AUTHORING_TOOLS_def)

definition example_alone :: "(env \<times> drain_outcome) list" where
  "example_alone = map (Pair example_times)
     ([Awoken, Failed OtherFailure] @ replicate 14 Awoken)"

lemma spawned: "example_run (Spawn 0 # example_begun) =
  (new_progress (\<lambda>_. example_registry))\<lparr>
    pr_turns := [(example_key,
      (new_turn 0 0 example_route ''s'' ''t'' 0 0)\<lparr>
        tn_tools := [(''c1'', new_tool ''c1'' ''bash'' ''bash'' [] 0)], tn_phase := ''tool'', tn_revision := 1,
        tn_scheduled := True\<rparr>)],
    pr_next := 1, pr_drains := [(0, \<lparr>dr_key = example_key, dr_adapter = 0, dr_exhaustions = 0, dr_pc = Reading\<rparr>)],
    pr_next_task := 1\<rparr>"
  by (simp add: begun run_spawn_def new_progress_def set_drain_def)

lemma answered_gone: "dget (pr_drains s) i = None \<Longrightarrow> answered W i xs s"
  by (induction W i xs s rule: answered.induct) auto

lemma begun_run: "progress_run example_progress_world (\<lambda>_. example_registry) (example_run example_begun)"
proof -
  let ?R = "progress_run example_progress_world (\<lambda>_. example_registry)"
  have "?R (example_run [])" by (simp add: progress_run.start)
  then have "?R (example_run [Hook (BeginTurn 0 example_route ''s'' ''t'')])"
    unfolding example_run.simps by (rule progress_run.step) (simp add: stale_worker_def new_progress_def jobs_def)
  then show ?thesis
    unfolding example_begun_def example_run.simps(2)[of "Hook (ToolStarted ''s'' ''t'' ''c1'' ''bash'' JNull)"]
    by (rule progress_run.step) simp
qed

lemma spawned_run: "progress_run example_progress_world (\<lambda>_. example_registry) (example_run (Spawn 0 # example_begun))"
  unfolding example_run.simps(2)[of "Spawn 0"] by (rule progress_run.step[OF begun_run]) simp

definition example_edits :: "progress_event list" where
  \<comment> \<open>a card is sent; an edit fails once and is acknowledged; the turn is completed and edited again\<close>
  "example_edits =
     [Drain 2 Applied, Drain 2 Awoken, Spawn 0, Hook (CompleteTurn ''s'' ''t'' False []),
      Drain 1 Applied, Drain 1 Awoken, Drain 1 (Failed OtherFailure), Drain 1 Awoken, Spawn 0,
      Hook (ToolFinished ''s'' ''t'' ''c1'' ''bash'' [] JNull JNull JNull),
      Drain 0 (GotMessage ''m1''), Drain 0 Awoken, Drain 0 Awoken, Drain 0 (GotManifest example_manifest),
      Drain 0 Awoken, Spawn 0] @ example_begun"

fun begins :: "progress_event \<Rightarrow> bool" where
  "begins (Hook (BeginTurn a r sid tid)) = True"
| "begins _ = False"

lemma restarts_begins: "restarts e s \<Longrightarrow> begins e"
  by (cases "(e, s)" rule: restarts.cases) auto

lemma example_run_ok:
  "\<not> list_ex begins es \<Longrightarrow>
   progress_run example_progress_world (\<lambda>_. example_registry) (example_run (es @ example_begun))"
proof (induction es)
  case Nil
  then show ?case using begun_run by simp
next
  case (Cons e es)
  then show ?case unfolding append_Cons example_run.simps by (intro progress_run.step) (auto dest: restarts_begins)
qed

lemma edits_run: "progress_run example_progress_world (\<lambda>_. example_registry) (example_run example_edits)"
  unfolding example_edits_def by (rule example_run_ok) simp

fun one_turn :: "wire list \<Rightarrow> bool" where
  "one_turn [WSend n0, WEdit n1 a, WEdit n2 b, WEdited n3, WEdit n4 c, WEdited n5] =
     (map sn_turn [n0, n1, n2, n3, n4, n5] = [0, 0, 0, 0, 0, 0])"
| "one_turn _ = False"

lemma edits_log: "one_turn (pr_log (example_run example_edits))"
  by code_simp

theorem progress_wire_in_order_witness:
  "\<exists>n0 n1 a n2 b n3 n4 c n5.
     pr_log (example_run example_edits) =
       [WSend n0, WEdit n1 a, WEdit n2 b, WEdited n3, WEdit n4 c, WEdited n5] \<and>
     sn_turn n3 = sn_turn n4 \<and> sn_seq n1 \<le> sn_seq n2 \<and> sn_seq n3 < sn_seq n4 \<and>
     sn_revision n2 \<le> sn_revision n4 \<and> \<not> sn_final n3"
proof -
  obtain n0 n1 a n2 b n3 n4 c n5 where l: "pr_log (example_run example_edits) =
       [WSend n0, WEdit n1 a, WEdit n2 b, WEdited n3, WEdit n4 c, WEdited n5]"
    and t: "sn_turn n1 = 0" "sn_turn n2 = 0" "sn_turn n3 = 0" "sn_turn n4 = 0"
    using edits_log by (cases "pr_log (example_run example_edits)" rule: one_turn.cases) auto
  have order: "pr_log (example_run example_edits) = xs @ WEdit n a # ys \<Longrightarrow>
      (\<forall>m b. WEdit m b \<in> set xs \<longrightarrow> sn_turn m = sn_turn n \<longrightarrow>
         sn_seq m \<le> sn_seq n \<and> sn_revision m \<le> sn_revision n) \<and>
      (\<forall>m. WEdited m \<in> set xs \<longrightarrow> sn_turn m = sn_turn n \<longrightarrow> sn_seq m < sn_seq n \<and> \<not> sn_final m)" for xs n a ys
    using progress_wire_in_order[OF edits_run] by blast
  have "sn_seq n1 \<le> sn_seq n2"
    using order[of "[WSend n0, WEdit n1 a]" n2 b "[WEdited n3, WEdit n4 c, WEdited n5]"] l t by auto
  moreover have "sn_revision n2 \<le> sn_revision n4" "sn_seq n3 < sn_seq n4" "\<not> sn_final n3"
    using order[of "[WSend n0, WEdit n1 a, WEdit n2 b, WEdited n3]" n4 c "[WEdited n5]"] l t by auto
  ultimately show ?thesis using l t by auto
qed

theorem progress_is_pursued_witness:
  "(0, example_key) \<in> set (pr_spawns (example_run example_begun)) \<or>
   (\<exists>i d. dget (pr_drains (example_run example_begun)) i = Some d \<and> dr_key d = example_key \<and> dr_adapter d = 0) \<or>
   0 \<in> set (pr_refused (example_run example_begun))"
  using progress_is_pursued[OF begun_run, of example_key
      "(new_turn 0 0 example_route ''s'' ''t'' 0 0)\<lparr>tn_tools := [(''c1'', new_tool ''c1'' ''bash'' ''bash'' [] 0)],
         tn_phase := ''tool'', tn_revision := 1, tn_scheduled := True\<rparr>"]
  by (simp add: begun new_progress_def new_turn_def)

theorem barrier_is_released_witness:
  "\<exists>k t. dget (pr_turns (example_run example_begun)) k = Some t \<and> tn_id t = 0 \<and> tn_message t = None"
  using barrier_is_released[OF begun_run, of 0] by (simp add: begun new_progress_def)

lemma example_first_step:
  "\<exists>n. dget (pr_drains (progress_step example_progress_world example_times (Drain 0 Awoken)
     (example_run (Spawn 0 # example_begun)))) 0 =
   Some \<lparr>dr_key = example_key, dr_adapter = 0, dr_exhaustions = 0, dr_pc = Profiling n\<rparr>"
  unfolding spawned
  by (simp add: drain_step_def drain_read_def new_progress_def new_turn_def Let_def take_snapshot_def)

lemma example_answered: "answered example_progress_world 0 example_alone (example_run (Spawn 0 # example_begun))"
proof -
  let ?s = "example_run (Spawn 0 # example_begun)"
  let ?s1 = "progress_step example_progress_world example_times (Drain 0 Awoken) ?s"
  let ?s2 = "progress_step example_progress_world example_times (Drain 0 (Failed OtherFailure)) ?s1"
  have first: "dget (pr_drains ?s) 0 = Some \<lparr>dr_key = example_key, dr_adapter = 0, dr_exhaustions = 0, dr_pc = Reading\<rparr>"
    by (simp only: spawned) (simp add: new_progress_def)
  obtain n where n: "dget (pr_drains ?s1) 0 = Some \<lparr>dr_key = example_key, dr_adapter = 0, dr_exhaustions = 0, dr_pc = Profiling n\<rparr>"
    using example_first_step by blast
  have "dget (pr_drains ?s2) 0 = None"
    unfolding progress_step.simps(3)[of example_progress_world example_times 0 "Failed OtherFailure"] n
    by (simp add: drain_step_def abort_drain_def leave_drain_def end_drain_def)
  then have "answered example_progress_world 0 (map (Pair example_times) (replicate 14 Awoken)) ?s2" by (rule answered_gone)
  then show ?thesis
    unfolding example_alone_def by (simp only: append.simps list.map answered.simps first n option.case drain.select_convs awaited.simps simp_thms)
qed

lemma example_not_raised:
  "\<not> pr_raised (drain_alone example_progress_world 0 example_alone (example_run (Spawn 0 # example_begun)))"
  by code_simp

theorem drain_terminates_witness:
  "dget (pr_drains (drain_alone example_progress_world 0 example_alone (example_run (Spawn 0 # example_begun)))) 0 = None \<and>
   settled example_key (drain_alone example_progress_world 0 example_alone (example_run (Spawn 0 # example_begun)))"
proof -
  have d: "dget (pr_drains (example_run (Spawn 0 # example_begun))) 0 =
      Some \<lparr>dr_key = example_key, dr_adapter = 0, dr_exhaustions = 0, dr_pc = Reading\<rparr>"
    by (simp only: spawned) (simp add: new_progress_def)
  have "16 \<le> length example_alone" by (simp add: example_alone_def)
  from drain_terminates[OF spawned_run d _ example_answered this] example_not_raised show ?thesis by simp
qed

section \<open>A final edit that is not made\<close>

text \<open>A snapshot holds the last 32 steps of a turn. If they are all thoughts, there are no phases to
  show, and the drain leaves the card as it is, even if the turn is final.\<close>

lemma thoughts_only_phases:
  "\<not> list_ex real_step ts \<Longrightarrow> (case cur of None \<Rightarrow> True | Some p \<Rightarrow> snd p = []) \<Longrightarrow>
   \<exists>ps. reasoning_phases x cur ts = Inr ps \<and> (\<forall>p\<in>set ps. snd p = [])"
proof (induction ts arbitrary: cur)
  case (Cons t ts)
  from Cons.IH[of "Some (ct_thought x (pt_thought t), [])"] Cons.prems show ?case
    by (auto simp: real_step_def split: option.splits)
qed (auto split: option.splits)

lemma thoughts_only_wire_data:
  "\<not> list_ex real_step ts \<Longrightarrow> reasoning_wire_data x phase ts elapsed rid = Inr None"
  using thoughts_only_phases[of ts None x] by (fastforce simp: reasoning_wire_data_def filter_empty_conv split: list.split)

lemma final_edit_skipped:
  assumes d: "dget (pr_drains s) i = Some d" "dr_pc d = Reading" and t: "dget (pr_turns s) (dr_key d) = Some t"
    and fin: "tn_final t" "tn_mode t = Some RegistryMode" "tn_tools t \<noteq> []"
    and up: "\<not> pr_disconnecting s (tn_adapter t)" "pr_http s (tn_adapter t)"
    and last: "\<not> list_ex real_step (last_n MAX_PROGRESS_TOOL_ENTRIES (map snd (tn_tools t)))"
    and s1: "s1 = progress_step W v (Drain i Awoken) s"
  shows "dget (pr_turns (progress_step W v (Drain i Awoken) s1)) (dr_key d) = None \<and>
    pr_log (progress_step W v (Drain i Awoken) s1) = pr_log s"
proof -
  let ?n = "take_snapshot (t_now v) t"
  have long: "(length (tn_tools t) \<le> length (tn_tools t) - 32) = False" using fin(3) by (cases "tn_tools t") auto
  have n: "sn_mode ?n = Some RegistryMode" "sn_tools ?n \<noteq> []" "sn_turn ?n = tn_id t"
    "reasoning_wire_data (pw_text W) (sn_phase ?n) (sn_tools ?n) (sn_elapsed ?n) (sn_reasoning_id ?n) = Inr None"
    using fin thoughts_only_wire_data[OF last]
    by (simp_all add: take_snapshot_def last_n_def MAX_PROGRESS_TOOL_ENTRIES_def long)
  have s1': "s1 = set_drain i (d\<lparr>dr_pc := Skipping ?n\<rparr>) s"
    using d t up n by (simp add: s1 drain_step_def drain_read_def Let_def)
  let ?t = "t\<lparr>tn_delivered := int (sn_revision ?n), tn_scheduled := False\<rparr>"
  let ?s = "put_turn (dr_key d) ?t s1" and ?d = "d\<lparr>dr_pc := Skipping ?n\<rparr>"
  have step: "progress_step W v (Drain i Awoken) s1 = abort_drain W v i ?d ?s"
    using t n(3) fin(1) by (simp add: s1' drain_step_def drain_skip_def current_turn_def Let_def)
  obtain r s2 where op: "drop_turn W v (dr_key d) ?s = (r, s2)" by (cases "drop_turn W v (dr_key d) ?s")
  have "dget (pr_turns ?s) (dr_key d) = Some ?t" by simp
  from drop_turn_effect[OF this op] obtain reg rl where
    "s2 = ?s\<lparr>pr_turns := dpop (dr_key d) (pr_turns ?s), pr_registry := reg, pr_released := rl\<rparr>" by blast
  then have "dget (pr_turns s2) (dr_key d) = None \<and> pr_log s2 = pr_log s1" by simp
  then show ?thesis unfolding step abort_drain_def leave_drain_def end_drain_def by (simp add: op) (simp add: s1')
qed

end
