(* ===== verification/Spec2Isabelle.thy ===== *)
theory Spec2Isabelle
  imports WireFormat Permission CardHandling PollerLog AdapterSafety ConnectionSafety MentionSafety ProgressSafety
begin

text \<open>
  A verification library for the Octo channel plugin of Hermes
  (\<open>src/hermes_octo_plugin\<close>): the code that keeps one or several bot identities connected to an
  Octo server, decides which identity a message belongs to, and sends and answers cards.

  \<^bold>\<open>How the program works.\<close> A gateway process holds one \<open>OctoAdapter\<close> with one \<open>IdentityRuntime\<close>
  per bot token (\<open>adapter.py\<close>). A runtime keeps a WebSocket open (\<open>protocol.py\<close> is its binary
  format), parses what arrives (\<open>types.py\<close>, \<open>mention.py\<close>) and hands it to the agent; replies leave
  through the REST interface (\<open>api.py\<close>). Which identity owns a conversation is durable state
  (\<open>identity.py\<close>). Cards with buttons are built by \<open>cards.py\<close>, sent by the tools of
  \<open>card_tools.py\<close>, remembered in the registry of \<open>card_sessions.py\<close>, and answered by the user
  through events that \<open>card_events.py\<close> polls, authorises and dispatches; \<open>clarify.py\<close> uses them for
  questions of the agent, and \<open>card_progress.py\<close> shows the progress of a turn in a card.
  \<open>permission.py\<close> decides who may read the messages of a channel.

  \<^bold>\<open>Theories and sources.\<close> Definitions carry the names of the functions they translate.

  \<^item> \<open>Prelude\<close>: JSON values, floats, dictionaries in insertion order, sets, the string methods that
    several modules use, and their lemmas. \<open>JsonText\<close>: the text of a JSON document and its
    identifier patterns. \<open>Utf8\<close>: the strict codec.
  \<^item> \<open>OctoTypes\<close> (\<open>types.py\<close>): channel and message types, card profiles, rich text,
    \<open>MessagePayload.from_dict\<close>; every payload it accepts is well formed.
  \<^item> \<open>Protocol\<close> and \<open>WireFormat\<close> (\<open>protocol.py\<close>): encoder, decoder, variable lengths, packets, and
    that packets are read back as they were written. \<open>Framing\<close> (\<open>_receive_loop\<close>, \<open>_do_connect\<close>):
    frames are cut off a byte buffer in the same way however the bytes arrive; the loop and the
    unpacker meet in the locale \<open>stream_unpacker\<close>.
  \<^item> \<open>Permission\<close> (\<open>permission.py\<close>): the access rule for message queries.
  \<^item> \<open>Durable\<close> (\<open>write_state_document\<close>, \<open>read_state_document\<close>): a write that fails or dies at any
    step leaves the old document or the new one. Everything that is persistent goes through it.
  \<^item> \<open>CardStore\<close> (\<open>CardBindingStore\<close>), \<open>CardSessions\<close> (\<open>CardSessionRegistry\<close>), \<open>CardClaims\<close>: the
    registry of sent cards, its invariant, exclusive claims, completed actions, edit sequences and
    restarts, over arbitrary sequences of its operations. The store is used through the locale
    \<open>binding_persistence\<close>.
  \<^item> \<open>CardActions\<close> (\<open>parse_card_action\<close>, \<open>handle_card_action\<close>, \<open>clarify.py\<close>) and \<open>CardHandling\<close>: an
    action is dispatched only if the trusted session of its card allows it, a terminal outcome
    is final, and failing dispatches are bounded.
  \<^item> \<open>EventPoller\<close> and \<open>PollerLog\<close> (\<open>FileEventCursorStore\<close>, \<open>EventPoller\<close>): what is acknowledged is
    durable, what is saved is never handled again, through crashes and restarts. A save may also
    raise after it has replaced the file, and then binds from the next restart only. The poller
    uses the store through the locale \<open>cursor_store\<close>; a small protocol of log entries refines it.
  \<^item> \<open>RobotIds\<close> (tokens, robot ids, directory names), \<open>Routes\<close> (\<open>IdentityRouteRegistry\<close>),
    \<open>RouteState\<close> (its invariant), \<open>RouteSnapshot\<close> (snapshots restore the registry), \<open>RouteRuns\<close>
    (runs with failing and interrupted writes; the locale \<open>route_fact\<close> says which facts survive
    them) and \<open>RouteSafety\<close>: ownership is first come and for good, conflicts are permanent, answers
    are truthful, plans are atomic, snapshots are never lost.
  \<^item> \<open>IdentityState\<close> (\<open>IdentityMetadata\<close>, \<open>IdentityStateStore\<close>), \<open>Startup\<close>
    (\<open>_initialize_identity_state\<close>, \<open>_on_runtime_registered\<close>, \<open>_apply_legacy_migration\<close>),
    \<open>StartupLogic\<close> (a triple for actions that may fail or die, with one rule per combinator) and
    \<open>StartupSafety\<close>: the recorded identity is written once, migrations are carried through, and an
    ambiguous state starts nothing.
  \<^item> \<open>AdapterRouting\<close> and \<open>AdapterSafety\<close> (inbound binding and outbound resolution in
    \<open>OctoAdapter\<close>): no delivery leaves through another identity, and the delivery from another
    process refines the owner of the chat.
  \<^item> \<open>Connection\<close> (\<open>connect\<close>, \<open>_do_connect\<close>, \<open>disconnect\<close>, receive, heartbeat and reconnect tasks of
    \<open>IdentityRuntime\<close>), \<open>ConnectionInv\<close>, \<open>ConnectionSteps\<close>, \<open>ConnectionPursuit\<close>, \<open>ConnectionRefused\<close>,
    \<open>ConnectionSafety\<close>: the interleavings of one event loop as a step relation, its invariant, and that
    there is one WebSocket at a time, that a disconnect is final, that a wanted connection is pursued,
    and that a server that refuses every attempt is given up after 1024 of them.
    Facts that every step keeps are interpretations of the locale \<open>conn_invariant\<close>.
  \<^item> \<open>Mention\<close> and \<open>MentionSafety\<close> (\<open>mention.py\<close>): UTF-16 offsets are resolved exactly, a reply
    survives the conversion to the wire format and back, and text cannot forge a mention.
  \<^item> \<open>CardRules\<close> (limits, capabilities and sanitising of \<open>cards.py\<close>), \<open>InteractiveCard\<close>
    (\<open>build_interactive_card\<close>, the frames of \<open>api.py\<close>) and \<open>CardTool\<close>
    (\<open>octo_send_interactive_card_handler\<close>): a card that was sent can be answered by its requester,
    or an edit that retires it is posted.
  \<^item> \<open>Reasoning\<close> (templates, buttons and phases of the reasoning card in \<open>cards.py\<close>) and \<open>Progress\<close>
    (\<open>CardProgressController\<close>, \<open>_schedule_card_progress\<close>): turns that hooks change under a lock, and
    drains that put them on the wire, each a program counter. \<open>ProgressInv\<close> holds the invariant,
    \<open>ProgressHooks\<close> that hooks keep it, \<open>ProgressDrains\<close> that the steps of drains do, and
    \<open>ProgressSafety\<close> the guarantees: a card is sent once and edited in order, a final turn is
    pursued, the barrier opens, a drain ends. Runs in which a turn begins again under the name of one
    whose drain still waits are excluded (\<open>restarts\<close>): there the code does go wrong.

  \<^bold>\<open>State and environment.\<close> A component's state is a record with the fields of its class, and a
  method is a function from the state to its result and the state after it; an exception is an
  \<open>Inl\<close> or an \<open>Error\<close> that keeps the changes made before it. A synchronous method is one step.
  Several operations of \<open>CardSessionRegistry\<close> give the lock up between a change and the write of it,
  but do not await there, so the event loop runs nothing in between. \<open>flush\<close> of the routes writes
  in a thread without the registry lock: writes are serialised by a lock of their own, and a bind at
  that moment leaves the routes dirty, as if it came after the flush. Clocks, the disk, the network, callbacks and fresh random values
  are arguments: environment records, lists of outcomes, or the index of the write step at which
  an exception or the death of the process strikes. Where the order of steps is not the code's
  choice the model is a relation (\<open>reaches\<close>, \<open>poller_run\<close>, \<open>reachable_adapter\<close> and the like) and the
  properties hold in every state it reaches.

  \<^bold>\<open>Parameters.\<close> SHA-256 (\<open>cs\<close>, in hexadecimal), Python's \<open>repr\<close> of floats (\<open>fr\<close>), and the classes
  \<open>\w\<close> and \<open>\s\<close> beyond ASCII are arguments. Of SHA-256 the round trips need only that it is a
  function; \<open>robot_path_segment_injective\<close> says outright that two names coincide only in a
  collision. Text outside \<open>mention.py\<close> and \<open>protocol.py\<close> is over characters below code point 256.

  \<^bold>\<open>Bounds.\<close> No definition takes fuel. Loops over buffers, lists and documents recur on their data,
  with a measure where they skip several elements at once; retry loops are steps of a relation,
  and what bounds them is proved (\<open>dispatch_failures_bounded\<close>, \<open>reconnection_gives_up\<close>,
  \<open>drain_terminates\<close>).

  \<^bold>\<open>Not modelled.\<close> The key agreement and AES of \<open>protocol.py\<close> (the cryptography package); HTTP
  itself and the wrappers of \<open>api.py\<close> that only post and parse; the appearance of display and
  progress cards and the redaction of tool parameters in \<open>cards.py\<close>; the member, history and
  prompt caches, media, \<open>GROUP.md\<close> and message batching of \<open>adapter.py\<close>; the agent-facing management
  tools, the slash commands and the command menu, which call the server and format its answer.
\<close>

end
